(* ===== verification/Prelude.thy ===== *)
theory Prelude
  imports Main "HOL-Library.Word"
begin

unbundle bit_operations_syntax

text \<open>
  The vocabulary every component shares: the machine integers of the Rust sources as words of
  their width (\<open>i32\<close> and \<open>u32\<close> are both \<open>32 word\<close>, read with \<open>sint\<close> or \<open>unat\<close>; \<open>usize\<close> is
  \<open>nat\<close>), byte strings, the error type of \<open>crates/rukkit-protocol/src/error.rs\<close>, the \<open>?\<close> operator
  as a bind on sums, and the bit-level and list facts the component proofs use.
  A Rust \<open>Result\<close> is a sum with the error on the left; a Rust panic is \<open>None\<close> of an option.
\<close>

section \<open>Machine integers and bytes\<close>

type_synonym u8 = "8 word"
type_synonym u16 = "16 word"
type_synonym u32 = "32 word"
type_synonym u64 = "64 word"
type_synonym i8 = "8 word"
type_synonym i16 = "16 word"
type_synonym i32 = "32 word"
type_synonym i64 = "64 word"
type_synonym u128 = "128 word"
type_synonym usize = nat
type_synonym bytes = "u8 list"

named_theorems bits_simps \<open>bit-level rewriting of the word operations the code uses\<close>

section \<open>Errors\<close>

text \<open>\<open>enum ProtocolError\<close>; the static and owned strings it carries are HOL strings.\<close>

datatype protocol_error =
    UnexpectedEof usize usize
  | VarIntTooLong usize
  | StringTooLong usize usize
  | StringTooManyChars usize usize
  | InvalidUtf8
  | NegativeLength i32
  | LengthLimitExceeded usize usize
  | FrameTooLarge usize usize
  | InvalidEnum string i64
  | UnknownPacket string i32
  | TrailingBytes string i32 usize
  | Nbt string
  | NbtTooDeep usize
  | Compression string
  | DecompressedTooLarge usize usize
  | BadlyCompressed usize usize

type_synonym 'a presult = "protocol_error + 'a"

text \<open>The \<open>?\<close> operator: an error leaves the function, a value is handed on.\<close>

definition and_then :: "'e + 'a \<Rightarrow> ('a \<Rightarrow> 'e + 'b) \<Rightarrow> 'e + 'b" where
  "and_then m f = (case m of Inl e \<Rightarrow> Inl e | Inr a \<Rightarrow> f a)"

lemma and_then_simps [simp]:
  "and_then (Inl e) f = Inl e"
  "and_then (Inr a) f = f a"
  by (simp_all add: and_then_def)

lemma and_then_cong [fundef_cong]:
  "m = m' \<Longrightarrow> (\<And>a. m' = Inr a \<Longrightarrow> f a = f' a) \<Longrightarrow> and_then m f = and_then m' f'"
  by (auto simp: and_then_def split: sum.splits)

lemma and_then_Inr_iff:
  "and_then m f = Inr b \<longleftrightarrow> (\<exists>a. m = Inr a \<and> f a = Inr b)"
  by (cases m) auto

lemma and_then_Inl_iff:
  "and_then m f = Inl e \<longleftrightarrow> m = Inl e \<or> (\<exists>a. m = Inr a \<and> f a = Inl e)"
  by (cases m) auto

section \<open>Bits\<close>

text \<open>The bits of the mask literals of the sources; word numerals reduce to these by simplification.\<close>

lemma bit_int_7 [bits_simps]: "bit (7 :: int) n \<longleftrightarrow> n < 3"
  using bit_mask_iff [where 'a = int, of 3 n] by (simp add: mask_eq_exp_minus_1)

lemma bit_int_15 [bits_simps]: "bit (15 :: int) n \<longleftrightarrow> n < 4"
  using bit_mask_iff [where 'a = int, of 4 n] by (simp add: mask_eq_exp_minus_1)

lemma bit_int_31 [bits_simps]: "bit (31 :: int) n \<longleftrightarrow> n < 5"
  using bit_mask_iff [where 'a = int, of 5 n] by (simp add: mask_eq_exp_minus_1)

lemma bit_int_63 [bits_simps]: "bit (63 :: int) n \<longleftrightarrow> n < 6"
  using bit_mask_iff [where 'a = int, of 6 n] by (simp add: mask_eq_exp_minus_1)

lemma bit_int_127 [bits_simps]: "bit (127 :: int) n \<longleftrightarrow> n < 7"
  using bit_mask_iff [where 'a = int, of 7 n] by (simp add: mask_eq_exp_minus_1)

lemma bit_int_255 [bits_simps]: "bit (255 :: int) n \<longleftrightarrow> n < 8"
  using bit_mask_iff [where 'a = int, of 8 n] by (simp add: mask_eq_exp_minus_1)

lemma bit_int_128 [bits_simps]: "bit (128 :: int) n \<longleftrightarrow> 7 \<le> n \<and> n < 8"
proof -
  have "(128 :: int) = push_bit 7 (mask 1)" by (simp add: mask_eq_exp_minus_1 push_bit_eq_mult)
  then show ?thesis by (simp only: bit_push_bit_iff bit_mask_iff) auto
qed

lemma bit_int_192 [bits_simps]: "bit (192 :: int) n \<longleftrightarrow> 6 \<le> n \<and> n < 8"
proof -
  have "(192 :: int) = push_bit 6 (mask 2)" by (simp add: mask_eq_exp_minus_1 push_bit_eq_mult)
  then show ?thesis by (simp only: bit_push_bit_iff bit_mask_iff) auto
qed

lemma bit_int_224 [bits_simps]: "bit (224 :: int) n \<longleftrightarrow> 5 \<le> n \<and> n < 8"
proof -
  have "(224 :: int) = push_bit 5 (mask 3)" by (simp add: mask_eq_exp_minus_1 push_bit_eq_mult)
  then show ?thesis by (simp only: bit_push_bit_iff bit_mask_iff) auto
qed

lemma bit_int_240 [bits_simps]: "bit (240 :: int) n \<longleftrightarrow> 4 \<le> n \<and> n < 8"
proof -
  have "(240 :: int) = push_bit 4 (mask 4)" by (simp add: mask_eq_exp_minus_1 push_bit_eq_mult)
  then show ?thesis by (simp only: bit_push_bit_iff bit_mask_iff) auto
qed

lemma take_bit_idem_iff: "take_bit n w = w \<longleftrightarrow> unat w < 2 ^ n" for w :: "'a::len word"
proof -
  have "take_bit n w = w \<longleftrightarrow> unat (take_bit n w) = unat w" by (simp add: word_unat_eq_iff)
  also have "\<dots> \<longleftrightarrow> take_bit n (unat w) = unat w" by (simp add: unsigned_take_bit_eq)
  finally show ?thesis by (simp add: take_bit_nat_eq_self_iff)
qed

lemma and_not_mask_eq_0_iff: "w AND NOT (mask n) = 0 \<longleftrightarrow> unat w < 2 ^ n" for w :: "'a::len word"
proof -
  have "w AND NOT (mask n) = 0 \<longleftrightarrow> take_bit n w = w"
    by (auto simp: bit_eq_iff bit_simps)
  then show ?thesis by (simp add: take_bit_idem_iff)
qed

lemma bit_bound: "unat w < 2 ^ n \<Longrightarrow> bit w k \<Longrightarrow> k < n" for w :: "'a::len word"
  by (metis bit_take_bit_iff take_bit_idem_iff)

lemma unat_drop_bit_div: "unat (drop_bit n w) = unat w div 2 ^ n" for w :: "'a::len word"
  by (metis unat_drop_bit_eq drop_bit_eq_div)

lemma unat_bound: "unat w < 2 ^ LENGTH('a)" for w :: "'a::len word"
  by (simp add: unsigned_less)

lemma push_bit_or: "push_bit n (a OR b) = push_bit n a OR push_bit n b" for a b :: "'a::len word"
  by simp

lemma not_bit_ge_length: "LENGTH('a) \<le> n \<Longrightarrow> \<not> bit w n" for w :: "'a::len word"
  using bit_imp_le_length leD by blast

text \<open>Extensionality at a fixed width, with the positions spelt out: closed for the simplifier.\<close>

lemma u8_eqI: "list_all (\<lambda>n. bit a n = bit b n) [0, 1, 2, 3, 4, 5, 6, 7] \<Longrightarrow> a = b" for a b :: u8
proof (rule bit_word_eqI)
  fix n assume *: "list_all (\<lambda>n. bit a n = bit b n) [0, 1, 2, 3, 4, 5, 6, 7]" "n < LENGTH(8)"
  have "[0..<8] = [0, 1, 2, 3, 4, 5, 6, 7]" by (simp add: upt_rec)
  moreover have "n \<in> set [0..<8]" using *(2) by simp
  ultimately have "n \<in> set [0, 1, 2, 3, 4, 5, 6, 7]" by (simp only:)
  with *(1) show "bit a n = bit b n" unfolding list_all_iff by blast
qed

lemma u32_eqI: "list_all (\<lambda>n. bit a n = bit b n)
    [0, 1, 2, 3, 4, 5, 6, 7, 8, 9, 10, 11, 12, 13, 14, 15, 16,
       17, 18, 19, 20, 21, 22, 23, 24, 25, 26, 27, 28, 29, 30, 31] \<Longrightarrow> a = b" for a b :: u32
proof (rule bit_word_eqI)
  fix n assume *: "list_all (\<lambda>n. bit a n = bit b n)
    [0, 1, 2, 3, 4, 5, 6, 7, 8, 9, 10, 11, 12, 13, 14, 15, 16,
       17, 18, 19, 20, 21, 22, 23, 24, 25, 26, 27, 28, 29, 30, 31]" "n < LENGTH(32)"
  have "[0..<32] = [0, 1, 2, 3, 4, 5, 6, 7, 8, 9, 10, 11, 12, 13, 14, 15, 16,
       17, 18, 19, 20, 21, 22, 23, 24, 25, 26, 27, 28, 29, 30, 31]" by (simp add: upt_rec)
  moreover have "n \<in> set [0..<32]" using *(2) by simp
  ultimately have "n \<in> set [0, 1, 2, 3, 4, 5, 6, 7, 8, 9, 10, 11, 12, 13, 14, 15, 16,
       17, 18, 19, 20, 21, 22, 23, 24, 25, 26, 27, 28, 29, 30, 31]" by (simp only:)
  with *(1) show "bit a n = bit b n" unfolding list_all_iff by blast
qed

lemma u64_eqI: "list_all (\<lambda>n. bit a n = bit b n)
    [0, 1, 2, 3, 4, 5, 6, 7, 8, 9, 10, 11, 12, 13, 14, 15, 16, 17, 18, 19, 20, 21,
       22, 23, 24, 25, 26, 27, 28, 29, 30, 31, 32, 33, 34, 35, 36, 37, 38, 39, 40, 41, 42, 43,
       44, 45, 46, 47, 48, 49, 50, 51, 52, 53, 54, 55, 56, 57, 58, 59, 60, 61, 62, 63] \<Longrightarrow> a = b" for a b :: u64
proof (rule bit_word_eqI)
  fix n assume *: "list_all (\<lambda>n. bit a n = bit b n)
    [0, 1, 2, 3, 4, 5, 6, 7, 8, 9, 10, 11, 12, 13, 14, 15, 16, 17, 18, 19, 20, 21,
       22, 23, 24, 25, 26, 27, 28, 29, 30, 31, 32, 33, 34, 35, 36, 37, 38, 39, 40, 41, 42, 43,
       44, 45, 46, 47, 48, 49, 50, 51, 52, 53, 54, 55, 56, 57, 58, 59, 60, 61, 62, 63]" "n < LENGTH(64)"
  have "[0..<64] = [0, 1, 2, 3, 4, 5, 6, 7, 8, 9, 10, 11, 12, 13, 14, 15, 16, 17, 18, 19, 20, 21,
       22, 23, 24, 25, 26, 27, 28, 29, 30, 31, 32, 33, 34, 35, 36, 37, 38, 39, 40, 41, 42, 43,
       44, 45, 46, 47, 48, 49, 50, 51, 52, 53, 54, 55, 56, 57, 58, 59, 60, 61, 62, 63]" by (simp add: upt_rec)
  moreover have "n \<in> set [0..<64]" using *(2) by simp
  ultimately have "n \<in> set [0, 1, 2, 3, 4, 5, 6, 7, 8, 9, 10, 11, 12, 13, 14, 15, 16, 17, 18, 19, 20, 21,
       22, 23, 24, 25, 26, 27, 28, 29, 30, 31, 32, 33, 34, 35, 36, 37, 38, 39, 40, 41, 42, 43,
       44, 45, 46, 47, 48, 49, 50, 51, 52, 53, 54, 55, 56, 57, 58, 59, 60, 61, 62, 63]" by (simp only:)
  with *(1) show "bit a n = bit b n" unfolding list_all_iff by blast
qed

section \<open>Loops over a list\<close>

text \<open>A \<open>for\<close> loop whose body threads a state and may panic.\<close>

fun iterate :: "('a \<Rightarrow> 's \<Rightarrow> 's option) \<Rightarrow> 'a list \<Rightarrow> 's \<Rightarrow> 's option" where
  "iterate f [] st = Some st"
| "iterate f (x # xs) st = Option.bind (f x st) (iterate f xs)"

lemma iterate_append [simp]: "iterate f (xs @ ys) st = Option.bind (iterate f xs st) (iterate f ys)"
proof (induction xs arbitrary: st)
  case (Cons x xs)
  then show ?case by (cases "f x st") auto
qed simp

lemma iterate_cong:
  assumes "xs = ys" "st = st'" "\<And>x s. x \<in> set ys \<Longrightarrow> f x s = g x s"
  shows "iterate f xs st = iterate g ys st'"
proof -
  have "iterate f ys st' = iterate g ys st'" using assms(3)
  proof (induction ys arbitrary: st')
    case (Cons y ys)
    then show ?case by (cases "g y st'") auto
  qed simp
  then show ?thesis using assms by simp
qed

lemma iterate_pure: "iterate (\<lambda>x st. Some (f x st)) xs st = Some (fold f xs st)"
  by (induction xs arbitrary: st) auto

lemma iterate_map: "iterate f (map h xs) st = iterate (\<lambda>x. f (h x)) xs st"
proof (induction xs arbitrary: st)
  case (Cons x xs)
  then show ?case by (cases "f (h x) st") auto
qed simp

lemma enumerate_as_upt: "enumerate k xs = map (\<lambda>i. (i, xs ! (i - k))) [k..<k + length xs]"
  by (rule nth_equalityI) (simp_all add: nth_enumerate_eq)

section \<open>Indexing and searching\<close>

text \<open>A slice index, which panics out of range, and \<open>iter().position(..)\<close>.\<close>

definition nth_opt :: "'a list \<Rightarrow> usize \<Rightarrow> 'a option" where
  "nth_opt xs i = (if i < length xs then Some (xs ! i) else None)"

fun position :: "('a \<Rightarrow> bool) \<Rightarrow> 'a list \<Rightarrow> usize option" where
  "position p [] = None"
| "position p (x # xs) = (if p x then Some 0 else map_option Suc (position p xs))"

lemma nth_opt_Some [simp]: "i < length xs \<Longrightarrow> nth_opt xs i = Some (xs ! i)"
  by (simp add: nth_opt_def)

lemma nth_opt_None [simp]: "length xs \<le> i \<Longrightarrow> nth_opt xs i = None"
  by (simp add: nth_opt_def)

lemma position_None: "position p xs = None \<longleftrightarrow> (\<forall>x \<in> set xs. \<not> p x)"
  by (induction xs) auto

lemma position_Some: "position p xs = Some i \<longleftrightarrow> i < length xs \<and> p (xs ! i) \<and> (\<forall>j < i. \<not> p (xs ! j))"
proof (induction xs arbitrary: i)
  case (Cons x xs)
  then show ?case by (cases i) (auto simp: less_Suc_eq_0_disj nth_Cons')
qed simp

section \<open>Decimal rendering\<close>

text \<open>The \<open>Display\<close> of an unsigned integer.\<close>

fun show_nat :: "nat \<Rightarrow> string" where
  "show_nat n = (if n < 10 then [char_of (48 + n)] else show_nat (n div 10) @ [char_of (48 + n mod 10)])"

declare show_nat.simps [simp del]

section \<open>Stores with keys\<close>

text \<open>
  The contract of a map: what a lookup returns after an insert. The entries of an NBT compound and
  the players of the registry provide it.
\<close>

locale keyed_store =
  fixes get :: "'s \<Rightarrow> 'k \<Rightarrow> 'v option"
    and ins :: "'s \<Rightarrow> 'k \<Rightarrow> 'v \<Rightarrow> 's"
    and inv :: "'s \<Rightarrow> bool"
  assumes get_ins: "inv s \<Longrightarrow> get (ins s k v) k' = (if k' = k then Some v else get s k')"
    and inv_ins: "inv s \<Longrightarrow> inv (ins s k v)"
begin

lemma overwrite: "inv s \<Longrightarrow> get (ins (ins s k v) k w) k' = get (ins s k w) k'"
  by (simp add: get_ins inv_ins)

lemma commute: "inv s \<Longrightarrow> k \<noteq> l \<Longrightarrow> get (ins (ins s k v) l w) k' = get (ins (ins s l w) k v) k'"
  by (auto simp: get_ins inv_ins)

lemma ins_all:
  "inv s \<Longrightarrow> inv (fold (\<lambda>(k, v) s. ins s k v) kvs s) \<and>
     get (fold (\<lambda>(k, v) s. ins s k v) kvs s) k' =
       (case map_of (rev kvs) k' of None \<Rightarrow> get s k' | Some v \<Rightarrow> Some v)"
proof (induction kvs arbitrary: s)
  case (Cons kv kvs)
  obtain k v where "kv = (k, v)" by fastforce
  with Cons show ?case by (auto simp: get_ins inv_ins map_add_def split: option.splits)
qed simp

end

end
