(* ===== verification/Varint.thy ===== *)
theory Varint
  imports Prelude
begin

text \<open>
  \<open>crates/rukkit-protocol/src/varint.rs\<close>: the LEB128-style VarInt and VarLong.
  The two encoders (and the two decoders) have the same body at widths 32 and 64; the loops
  \<open>write_leb\<close> and \<open>read_leb\<close> are written once, over words of any width, and the Rust functions are
  their instances. The writers return the bytes they put; the readers return the value and the
  number of bytes consumed.
\<close>

section \<open>The code\<close>

definition MAX_VARINT_BYTES :: usize where "MAX_VARINT_BYTES = 5"
definition MAX_VARLONG_BYTES :: usize where "MAX_VARLONG_BYTES = 10"

text \<open>\<open>u32::leading_zeros\<close> and \<open>u64::leading_zeros\<close> of the standard library.\<close>

definition leading_zeros :: "'a::len word \<Rightarrow> nat" where
  "leading_zeros w = length (takeWhile (\<lambda>i. \<not> bit w i) (rev [0..<LENGTH('a)]))"

definition varint_len :: "i32 \<Rightarrow> usize" where
  "varint_len value = (let bits = 32 - leading_zeros value in (bits - 1) div 7 + 1)"

definition varlong_len :: "i64 \<Rightarrow> usize" where
  "varlong_len value = (let bits = 64 - leading_zeros value in (bits - 1) div 7 + 1)"

lemma drop_bit_7_less: "v AND NOT 0x7F \<noteq> 0 \<Longrightarrow> unat (drop_bit 7 v) < unat v"
  for v :: "'a::len word"
proof -
  assume "v AND NOT 0x7F \<noteq> 0"
  then have "v \<noteq> 0" by auto
  then have "0 < unat v" by (simp add: unat_gt_0)
  then show ?thesis by (simp only: unat_drop_bit_div) simp
qed

function write_leb :: "'a::len word \<Rightarrow> bytes" where
  "write_leb v =
     (if v AND NOT 0x7F = 0 then [ucast v]
      else ((ucast v AND 0x7F) OR 0x80) # write_leb (drop_bit 7 v))"
  by pat_completeness auto
termination
  by (relation "measure unat") (simp_all add: drop_bit_7_less)

declare write_leb.simps [simp del]

definition write_varint :: "i32 \<Rightarrow> bytes" where
  "write_varint value = write_leb value"

definition write_varlong :: "i64 \<Rightarrow> bytes" where
  "write_varlong value = write_leb value"

fun read_leb :: "bytes \<Rightarrow> 'a::len word \<Rightarrow> nat \<Rightarrow> nat \<Rightarrow> ('a word \<times> usize) option" where
  "read_leb [] value shift i = None"
| "read_leb (byte # rest) value shift i =
     (let value = value OR push_bit shift (ucast (byte AND 0x7F))
      in if byte AND 0x80 = 0 then Some (value, i + 1)
         else read_leb rest value (shift + 7) (i + 1))"

definition read_varint :: "bytes \<Rightarrow> (i32 \<times> usize) presult" where
  "read_varint buf =
     (let limit = (if length buf < MAX_VARINT_BYTES then length buf else MAX_VARINT_BYTES)
      in case read_leb (take limit buf) 0 0 0 of
           Some r \<Rightarrow> Inr r
         | None \<Rightarrow>
             if length buf < MAX_VARINT_BYTES then Inl (UnexpectedEof 1 0)
             else Inl (VarIntTooLong MAX_VARINT_BYTES))"

definition read_varlong :: "bytes \<Rightarrow> (i64 \<times> usize) presult" where
  "read_varlong buf =
     (let limit = (if length buf < MAX_VARLONG_BYTES then length buf else MAX_VARLONG_BYTES)
      in case read_leb (take limit buf) 0 0 0 of
           Some r \<Rightarrow> Inr r
         | None \<Rightarrow>
             if length buf < MAX_VARLONG_BYTES then Inl (UnexpectedEof 1 0)
             else Inl (VarIntTooLong MAX_VARLONG_BYTES))"

section \<open>Length of an encoding\<close>

lemma leading_zeros_le: "leading_zeros w \<le> LENGTH('a)" for w :: "'a::len word"
  unfolding leading_zeros_def by (metis length_rev length_takeWhile_le length_upt minus_nat.diff_0)

text \<open>The bit width \<open>BITS - leading_zeros\<close> is the least \<open>n\<close> with the value below \<open>2 ^ n\<close>.\<close>

lemma bit_width_le_iff:
  "LENGTH('a) - leading_zeros w \<le> n \<longleftrightarrow> unat w < 2 ^ n" for w :: "'a::len word"
proof -
  let ?P = "\<lambda>i. \<not> bit w i" and ?xs = "rev [0..<LENGTH('a)]"
  have nth: "?xs ! j = LENGTH('a) - 1 - j" if "j < LENGTH('a)" for j
    using that by (simp add: rev_nth)
  have "LENGTH('a) - leading_zeros w \<le> n \<longleftrightarrow> LENGTH('a) - n \<le> leading_zeros w" by linarith
  also have "\<dots> \<longleftrightarrow> (\<forall>j < LENGTH('a) - n. ?P (?xs ! j))"
  proof
    assume le: "LENGTH('a) - n \<le> leading_zeros w"
    show "\<forall>j < LENGTH('a) - n. ?P (?xs ! j)"
    proof (intro allI impI)
      fix j assume "j < LENGTH('a) - n"
      with le have j: "j < length (takeWhile ?P ?xs)" unfolding leading_zeros_def by simp
      then have "takeWhile ?P ?xs ! j \<in> set (takeWhile ?P ?xs)" by (rule nth_mem)
      then have "?P (takeWhile ?P ?xs ! j)" by (rule set_takeWhileD [THEN conjunct2])
      then show "?P (?xs ! j)" unfolding takeWhile_nth [OF j] .
    qed
  next
    assume all: "\<forall>j < LENGTH('a) - n. ?P (?xs ! j)"
    show "LENGTH('a) - n \<le> leading_zeros w"
    proof (rule ccontr)
      assume "\<not> ?thesis"
      then have lt: "leading_zeros w < LENGTH('a) - n" by simp
      then have "\<not> ?P (?xs ! leading_zeros w)"
        unfolding leading_zeros_def using nth_length_takeWhile [of ?P ?xs] by simp
      with all lt show False by blast
    qed
  qed
  also have "\<dots> \<longleftrightarrow> (\<forall>k. bit w k \<longrightarrow> k < n)"
  proof
    assume all: "\<forall>j < LENGTH('a) - n. ?P (?xs ! j)"
    show "\<forall>k. bit w k \<longrightarrow> k < n"
    proof (intro allI impI)
      fix k assume k: "bit w k"
      then have kl: "k < LENGTH('a)" using bit_imp_le_length by blast
      show "k < n"
      proof (rule ccontr)
        assume "\<not> k < n"
        with kl have j: "LENGTH('a) - 1 - k < LENGTH('a) - n" by linarith
        have "?xs ! (LENGTH('a) - 1 - k) = k" using kl by (simp add: nth)
        with all j k show False by metis
      qed
    qed
  next
    assume "\<forall>k. bit w k \<longrightarrow> k < n"
    then show "\<forall>j < LENGTH('a) - n. ?P (?xs ! j)" by (fastforce simp: nth)
  qed
  also have "\<dots> \<longleftrightarrow> take_bit n w = w"
    by (auto simp: bit_eq_iff bit_simps dest: bit_imp_le_length)
  finally show ?thesis by (simp add: take_bit_idem_iff)
qed

lemma write_leb_last: "unat v < 128 \<Longrightarrow> write_leb v = [ucast v]"
  using and_not_mask_eq_0_iff [of v 7] by (simp add: write_leb.simps [of v] mask_eq_exp_minus_1)

lemma write_leb_more:
  "\<not> unat v < 128 \<Longrightarrow>
     write_leb v = ((ucast v AND 0x7F) OR 0x80) # write_leb (drop_bit 7 v)"
  using and_not_mask_eq_0_iff [of v 7] by (simp add: write_leb.simps [of v] mask_eq_exp_minus_1)

lemma write_leb_nonempty [simp]: "write_leb v \<noteq> []"
  by (subst write_leb.simps) simp

lemma length_write_leb_pos: "0 < length (write_leb v)"
  by simp

lemma length_write_leb_le_iff: "0 < n \<Longrightarrow> length (write_leb v) \<le> n \<longleftrightarrow> unat v < 2 ^ (7 * n)"
proof (induction v arbitrary: n rule: write_leb.induct)
  case (1 v)
  show ?case
  proof (cases "unat v < 128")
    case True
    have "(2::nat) ^ 7 \<le> 2 ^ (7 * n)" using 1(2) by (intro power_increasing) auto
    with True 1(2) show ?thesis by (simp add: write_leb_last)
  next
    case False
    then have guard: "v AND NOT 0x7F \<noteq> 0"
      using and_not_mask_eq_0_iff [of v 7] by (simp add: mask_eq_exp_minus_1)
    show ?thesis
    proof (cases "n = 1")
      case True
      with False show ?thesis using length_write_leb_pos [of "drop_bit 7 v"]
        by (simp add: write_leb_more)
    next
      case n: False
      then obtain m where m: "n = Suc m" "0 < m" using 1(2) by (cases n) auto
      have "length (write_leb v) \<le> n \<longleftrightarrow> unat v div 2 ^ 7 < 2 ^ (7 * m)"
        using 1(1) [OF guard m(2)] False m by (simp add: write_leb_more unat_drop_bit_div del: power_numeral)
      also have "\<dots> \<longleftrightarrow> unat v < 2 ^ (7 * n)"
        using m by (simp add: div_less_iff_less_mult power_add mult.commute)
      finally show ?thesis .
    qed
  qed
qed

lemma length_write_leb:
  "length (write_leb v) = (LENGTH('a) - leading_zeros v - 1) div 7 + 1" for v :: "'a::len word"
proof -
  let ?b = "LENGTH('a) - leading_zeros v"
  have eq: "length (write_leb v) \<le> n \<longleftrightarrow> (?b - 1) div 7 + 1 \<le> n" if "0 < n" for n
  proof -
    have "(?b - 1) div 7 + 1 \<le> n \<longleftrightarrow> ?b \<le> 7 * n" using that by linarith
    with that show ?thesis by (simp only: length_write_leb_le_iff bit_width_le_iff)
  qed
  have "length (write_leb v) \<le> (?b - 1) div 7 + 1" using eq [of "(?b - 1) div 7 + 1"] by simp
  moreover have "(?b - 1) div 7 + 1 \<le> length (write_leb v)"
    using eq [of "length (write_leb v)"] length_write_leb_pos [of v] by simp
  ultimately show ?thesis by simp
qed

lemma varint_len_eq: "varint_len v = length (write_varint v)"
  by (simp add: varint_len_def write_varint_def length_write_leb)

lemma varlong_len_eq: "varlong_len v = length (write_varlong v)"
  by (simp add: varlong_len_def write_varlong_def length_write_leb)

lemma length_write_varint: "0 < length (write_varint v)" "length (write_varint v) \<le> 5"
proof -
  have "unat v < 2 ^ (7 * 5)" using unat_bound [of v] by simp
  then show "length (write_varint v) \<le> 5"
    unfolding write_varint_def by (subst length_write_leb_le_iff) simp_all
qed (simp add: write_varint_def)

lemma length_write_varlong: "0 < length (write_varlong v)" "length (write_varlong v) \<le> 10"
proof -
  have "unat v < 2 ^ (7 * 10)" using unat_bound [of v] by simp
  then show "length (write_varlong v) \<le> 10"
    unfolding write_varlong_def by (subst length_write_leb_le_iff) simp_all
qed (simp add: write_varlong_def)

section \<open>Decoding what was encoded\<close>

lemma read_leb_write_leb:
  "read_leb (write_leb v @ rest) acc s i = Some (acc OR push_bit s v, i + length (write_leb v))"
  for v :: "'a::len word"
proof (induction v arbitrary: acc s i rule: write_leb.induct)
  case (1 v)
  show ?case
  proof (cases "unat v < 128")
    case True
    then have low: "bit v k \<Longrightarrow> k < 7" for k using bit_bound [of v 7] by simp
    have "(ucast v :: u8) AND 0x80 = 0"
      by (auto simp: bit_eq_iff bit_simps bits_simps dest: low)
    moreover have "ucast ((ucast v :: u8) AND 0x7F) = v"
      by (auto simp: bit_eq_iff bit_simps bits_simps dest: low)
    ultimately show ?thesis using True by (simp add: write_leb_last)
  next
    case False
    then have guard: "v AND NOT 0x7F \<noteq> 0"
      using and_not_mask_eq_0_iff [of v 7] by (simp add: mask_eq_exp_minus_1)
    have "bit ((ucast v AND 0x7F OR 0x80) AND 0x80 :: u8) 7"
      by (simp add: bit_simps bits_simps)
    then have more: "((ucast v AND 0x7F OR 0x80) AND 0x80 :: u8) \<noteq> 0" by auto
    have glue: "push_bit s (ucast ((ucast v AND 0x7F OR 0x80 :: u8) AND 0x7F)) OR push_bit (s + 7) (drop_bit 7 v)
        = push_bit s v"
    proof (rule bit_word_eqI)
      fix n assume n: "n < LENGTH('a)"
      have ix: "7 + (n - (s + 7)) = n - s" if "s + 7 \<le> n" using that by simp
      show "bit (push_bit s (ucast ((ucast v AND 0x7F OR 0x80 :: u8) AND 0x7F)) OR push_bit (s + 7) (drop_bit 7 v)) n
          \<longleftrightarrow> bit (push_bit s v) n"
        using n by (cases "s + 7 \<le> n") (auto simp: ix bit_simps bits_simps)
    qed
    show ?thesis
      using 1 [OF guard, of "acc OR push_bit s (ucast ((ucast v AND 0x7F OR 0x80 :: u8) AND 0x7F))" "s + 7" "i + 1"]
        more glue False
      by (simp add: write_leb_more or.assoc)
  qed
qed

lemma read_varint_write_varint:
  "read_varint (write_varint v @ rest) = Inr (v, varint_len v)"
proof -
  have 5: "length (write_leb v) \<le> 5"
    using length_write_varint(2) [of v] by (simp add: write_varint_def)
  have "\<exists>tl. take (if length (write_leb v @ rest) < 5 then length (write_leb v @ rest) else 5) (write_leb v @ rest)
      = write_leb v @ tl"
    using 5 by simp
  then show ?thesis
    by (auto simp: read_varint_def MAX_VARINT_BYTES_def varint_len_eq write_varint_def
        read_leb_write_leb)
qed

lemma read_varlong_write_varlong:
  "read_varlong (write_varlong v @ rest) = Inr (v, varlong_len v)"
proof -
  have 10: "length (write_leb v) \<le> 10"
    using length_write_varlong(2) [of v] by (simp add: write_varlong_def)
  have "\<exists>tl. take (if length (write_leb v @ rest) < 10 then length (write_leb v @ rest) else 10) (write_leb v @ rest)
      = write_leb v @ tl"
    using 10 by simp
  then show ?thesis
    by (auto simp: read_varlong_def MAX_VARLONG_BYTES_def varlong_len_eq write_varlong_def
        read_leb_write_leb)
qed

section \<open>Reading arbitrary bytes\<close>

text \<open>A byte with its top bit set announces another one.\<close>

abbreviation continues :: "u8 \<Rightarrow> bool" where
  "continues b \<equiv> b AND 0x80 \<noteq> 0"

lemma read_leb_None_iff: "read_leb bs acc s i = None \<longleftrightarrow> (\<forall>b \<in> set bs. continues b)"
  by (induction bs acc s i rule: read_leb.induct) (auto simp: Let_def)

lemma read_leb_mono:
  "read_leb xs acc s i = Some r \<Longrightarrow> read_leb (xs @ ys) acc s i = Some r"
  by (induction xs acc s i rule: read_leb.induct) (auto simp: Let_def split: if_splits)

lemma read_leb_count:
  "read_leb xs acc s i = Some (v, n) \<Longrightarrow>
     i < n \<and> n \<le> i + length xs \<and> (\<forall>b \<in> set (take (n - i - 1) xs). continues b) \<and>
     \<not> continues (xs ! (n - i - 1))"
proof (induction xs acc s i rule: read_leb.induct)
  case (2 byte bs acc shift i)
  show ?case
  proof (cases "byte AND 0x80 = 0")
    case True
    with 2(2) show ?thesis by (auto simp: Let_def)
  next
    case False
    with 2(2) have "read_leb bs (acc OR push_bit shift (ucast (byte AND 0x7F))) (shift + 7) (i + 1)
        = Some (v, n)" by (simp add: Let_def)
    from 2(1) [OF refl False this] have IH: "i + 1 < n" "n \<le> i + 1 + length bs"
      "\<forall>b \<in> set (take (n - (i + 1) - 1) bs). continues b"
      "\<not> continues (bs ! (n - (i + 1) - 1))" by auto
    then obtain k where k: "n - i - 1 = Suc k" "n - (i + 1) - 1 = k"
      by (metis Suc_diff_Suc add.commute diff_diff_left plus_1_eq_Suc)
    have "\<forall>b \<in> set (take k bs). continues b" "\<not> continues (bs ! k)"
      using IH(3,4) unfolding k(2) .
    with IH(1,2) False show ?thesis unfolding k(1) by auto
  qed
qed simp

lemma read_varint_cases:
  obtains (complete) v n where "read_varint buf = Inr (v, n)" "0 < n" "n \<le> 5" "n \<le> length buf"
      "\<forall>b \<in> set (take (n - 1) buf). continues b" "\<not> continues (buf ! (n - 1))"
  | (eof) "read_varint buf = Inl (UnexpectedEof 1 0)" "length buf < 5" "\<forall>b \<in> set buf. continues b"
  | (too_long) "read_varint buf = Inl (VarIntTooLong 5)" "5 \<le> length buf"
      "\<forall>b \<in> set (take 5 buf). continues b"
proof (cases "read_leb (take (min (length buf) 5) buf) (0 :: i32) 0 0")
  case None
  then have c: "\<forall>b \<in> set (take (min (length buf) 5) buf). continues b"
    by (simp only: read_leb_None_iff)
  show thesis
  proof (cases "length buf < 5")
    case True
    with None c show thesis by (intro eof) (auto simp: read_varint_def MAX_VARINT_BYTES_def)
  next
    case False
    then have "min (length buf) 5 = 5" by simp
    with None c False show thesis by (intro too_long) (simp_all add: read_varint_def MAX_VARINT_BYTES_def)
  qed
next
  case (Some r)
  obtain v n where r: "r = (v, n)" by fastforce
  from read_leb_count [OF Some [unfolded r]]
  have n: "0 < n" "n \<le> min (length buf) 5"
    "\<forall>b \<in> set (take (n - 1) (take (min (length buf) 5) buf)). continues b"
    "\<not> continues (take (min (length buf) 5) buf ! (n - 1))" by auto
  show thesis
  proof (rule complete)
    show "read_varint buf = Inr (v, n)"
      using Some r by (auto simp: read_varint_def MAX_VARINT_BYTES_def min_def split: if_splits)
    show "\<forall>b \<in> set (take (n - 1) buf). continues b" using n by (simp add: min_def split: if_splits)
    have lt: "n - 1 < min (length buf) 5" using n(1,2) by linarith
    show "\<not> continues (buf ! (n - 1))" using n(4) unfolding nth_take [OF lt] .
  qed (use n in auto)
qed

lemma read_varint_mono:
  assumes "read_varint xs = Inr (v, n)"
  shows "read_varint (xs @ ys) = Inr (v, n)"
proof -
  let ?t = "\<lambda>zs. take (min (length zs) 5) zs"
  have eq: "read_varint zs = Inr (v, n) \<longleftrightarrow> read_leb (?t zs) (0 :: i32) 0 0 = Some (v, n)" for zs
    by (auto simp: read_varint_def MAX_VARINT_BYTES_def min_def split: option.splits)
  have "?t (xs @ ys) = ?t xs @ take (5 - length xs) ys"
    by (cases "length xs \<le> 5") (auto simp: min_def)
  with assms show ?thesis unfolding eq by (simp only: read_leb_mono)
qed

section \<open>Properties\<close>

text \<open>
  C21: reading a VarInt or a VarLong from the front of a buffer that starts with an encoded value
  gives the value back, and the number of bytes consumed is the predicted length, whatever follows.
\<close>

theorem varint_roundtrip:
  "read_varint (write_varint v @ rest) = Inr (v, varint_len v) \<and>
   read_varlong (write_varlong w @ rest) = Inr (w, varlong_len w)"
  by (simp add: read_varint_write_varint read_varlong_write_varlong)

text \<open>
  The length computed from the leading zeros is the length of the encoding the loop produces,
  and lies between one byte and the maximum of five (VarInt) or ten (VarLong) bytes.
\<close>

lemma varint_len_is_encoded_length:
  "varint_len v = length (write_varint v) \<and> 1 \<le> varint_len v \<and> varint_len v \<le> MAX_VARINT_BYTES \<and>
   varlong_len w = length (write_varlong w) \<and> 1 \<le> varlong_len w \<and> varlong_len w \<le> MAX_VARLONG_BYTES"
  using length_write_varint [of v] length_write_varlong [of w]
  by (simp add: varint_len_eq varlong_len_eq MAX_VARINT_BYTES_def MAX_VARLONG_BYTES_def Suc_le_eq)

text \<open>
  The three outcomes of \<open>read_varint\<close> on arbitrary bytes: a value exactly when one of the first
  five bytes has its top bit clear, the retryable \<open>UnexpectedEof\<close> exactly when fewer than five
  bytes are there and all of them announce another, \<open>VarIntTooLong\<close> exactly when five of them do.
\<close>

lemma read_varint_outcomes:
  "(\<exists>v n. read_varint buf = Inr (v, n) \<and> n \<le> length buf) = (\<not> list_all continues (take 5 buf)) \<and>
   (read_varint buf = Inl (UnexpectedEof 1 0)) = (length buf < 5 \<and> list_all continues buf) \<and>
   (read_varint buf = Inl (VarIntTooLong 5)) = (5 \<le> length buf \<and> list_all continues (take 5 buf))"
proof (cases rule: read_varint_cases [of buf])
  case (complete v n)
  have n: "n - 1 < 5" "n - 1 < length buf" using complete(2-4) by linarith+
  then have "take 5 buf ! (n - 1) \<in> set (take 5 buf)" by (intro nth_mem) simp
  then have "buf ! (n - 1) \<in> set (take 5 buf)" using n(1) by (simp only: nth_take)
  with complete(6) have a: "\<not> list_all continues (take 5 buf)" unfolding list_all_iff by blast
  then have "\<not> list_all continues buf" unfolding list_all_iff using in_set_takeD by fast
  then show ?thesis using a complete(1,4)
    by (simp only: sum.inject prod.inject sum.distinct simp_thms ex_simps) blast
next
  case eof
  have "take 5 buf = buf" using eof(2) by (intro take_all) linarith
  moreover have "list_all continues buf" using eof(3) unfolding list_all_iff .
  ultimately show ?thesis using eof(1,2)
    by (simp only: sum.distinct sum.inject protocol_error.distinct simp_thms not_le)
next
  case too_long
  have "list_all continues (take 5 buf)" using too_long(3) unfolding list_all_iff .
  then show ?thesis using too_long(1,2)
    by (simp only: sum.distinct sum.inject protocol_error.distinct simp_thms) linarith
qed

end
