(* ===== verification/Utf8.thy ===== *)
theory Utf8
  imports Prelude
begin

text \<open>
  Rust strings, as the sources use them: a \<open>String\<close> is the list of its \<open>char\<close>s, each the \<open>u32\<close>
  code point that \<open>c as u32\<close> gives; \<open>str::as_bytes\<close> is its UTF-8 encoding and
  \<open>std::str::from_utf8\<close> the strict decoder (shortest forms of Unicode scalar values only).
  The two- and three-byte groups are shared with the modified UTF-8 of the NBT component.
\<close>

section \<open>Characters and byte groups\<close>

type_synonym rchar = u32
type_synonym rstring = "rchar list"

text \<open>A string literal of the sources.\<close>

definition lit :: "string \<Rightarrow> rstring" where
  "lit s = map of_char s"

text \<open>\<open>char::from_u32\<close> succeeds exactly on the Unicode scalar values.\<close>

definition is_scalar :: "u32 \<Rightarrow> bool" where
  "is_scalar c \<longleftrightarrow> c < 0xD800 \<or> (0xE000 \<le> c \<and> c < 0x110000)"

definition char_from_u32 :: "u32 \<Rightarrow> rchar option" where
  "char_from_u32 c = (if is_scalar c then Some c else None)"

abbreviation valid_str :: "rstring \<Rightarrow> bool" where
  "valid_str s \<equiv> list_all is_scalar s"

definition is_cont :: "u8 \<Rightarrow> bool" where
  "is_cont b \<longleftrightarrow> b AND 0xC0 = 0x80"

definition group2 :: "u32 \<Rightarrow> bytes" where
  "group2 c = [0xC0 OR ucast (drop_bit 6 c), 0x80 OR ucast (c AND 0x3F)]"

definition group3 :: "u32 \<Rightarrow> bytes" where
  "group3 c = [0xE0 OR ucast (drop_bit 12 c), 0x80 OR ucast (drop_bit 6 c AND 0x3F),
     0x80 OR ucast (c AND 0x3F)]"

definition group4 :: "u32 \<Rightarrow> bytes" where
  "group4 c = [0xF0 OR ucast (drop_bit 18 c), 0x80 OR ucast (drop_bit 12 c AND 0x3F),
     0x80 OR ucast (drop_bit 6 c AND 0x3F), 0x80 OR ucast (c AND 0x3F)]"

definition join2 :: "u8 \<Rightarrow> u8 \<Rightarrow> u32" where
  "join2 b0 b1 = push_bit 6 (ucast (b0 AND 0x1F)) OR ucast (b1 AND 0x3F)"

definition join3 :: "u8 \<Rightarrow> u8 \<Rightarrow> u8 \<Rightarrow> u32" where
  "join3 b0 b1 b2 = push_bit 12 (ucast (b0 AND 0x0F)) OR push_bit 6 (ucast (b1 AND 0x3F)) OR
     ucast (b2 AND 0x3F)"

definition join4 :: "u8 \<Rightarrow> u8 \<Rightarrow> u8 \<Rightarrow> u8 \<Rightarrow> u32" where
  "join4 b0 b1 b2 b3 = push_bit 18 (ucast (b0 AND 0x07)) OR push_bit 12 (ucast (b1 AND 0x3F)) OR
     push_bit 6 (ucast (b2 AND 0x3F)) OR ucast (b3 AND 0x3F)"

lemma high_bits:
  fixes c :: u32
  shows "c < 0x80 \<Longrightarrow> 7 \<le> k \<Longrightarrow> \<not> bit c k" "c < 0x800 \<Longrightarrow> 11 \<le> k \<Longrightarrow> \<not> bit c k"
    "c < 0x10000 \<Longrightarrow> 16 \<le> k \<Longrightarrow> \<not> bit c k" "c < 0x200000 \<Longrightarrow> 21 \<le> k \<Longrightarrow> \<not> bit c k"
  using bit_bound [of c 7 k] bit_bound [of c 11 k] bit_bound [of c 16 k] bit_bound [of c 21 k]
  by (auto simp: word_less_nat_alt)

lemma join2_group2: "c < 0x800 \<Longrightarrow> join2 (0xC0 OR ucast (drop_bit 6 c)) (0x80 OR ucast (c AND 0x3F)) = c"
  unfolding join2_def
  by (rule u32_eqI) (simp add: bit_simps high_bits(2))

lemma join3_group3:
  "c < 0x10000 \<Longrightarrow> join3 (0xE0 OR ucast (drop_bit 12 c)) (0x80 OR ucast (drop_bit 6 c AND 0x3F))
     (0x80 OR ucast (c AND 0x3F)) = c"
  unfolding join3_def
  by (rule u32_eqI) (simp add: bit_simps high_bits(3))

lemma join4_group4:
  "c < 0x200000 \<Longrightarrow> join4 (0xF0 OR ucast (drop_bit 18 c)) (0x80 OR ucast (drop_bit 12 c AND 0x3F))
     (0x80 OR ucast (drop_bit 6 c AND 0x3F)) (0x80 OR ucast (c AND 0x3F)) = c"
  unfolding join4_def
  by (rule u32_eqI) (simp add: bit_simps high_bits(4))

lemma ascii_iff: "b < 0x80 \<longleftrightarrow> \<not> bit b 7" for b :: u8
proof -
  have "b < 0x80 \<longleftrightarrow> take_bit 7 b = b"
    by (simp add: take_bit_idem_iff word_less_nat_alt)
  also have "\<dots> \<longleftrightarrow> \<not> bit b 7"
  proof
    assume "take_bit 7 b = b"
    then have "bit (take_bit 7 b) 7 = bit b 7" by simp
    then show "\<not> bit b 7" by (simp add: bit_simps)
  next
    assume "\<not> bit b 7"
    then show "take_bit 7 b = b" by (intro u8_eqI) (simp add: bit_simps)
  qed
  finally show ?thesis .
qed

lemma cont_group [simp]: "is_cont (0x80 OR ucast (x AND 0x3F))" for x :: u32
  unfolding is_cont_def by (rule u8_eqI) (simp add: bit_simps)

lemma lead2:
  "c < 0x800 \<Longrightarrow> (0xC0 OR ucast (drop_bit 6 c) :: u8) AND 0xE0 = 0xC0" for c :: u32
  by (rule u8_eqI) (simp add: bit_simps high_bits(2))

lemma lead3:
  "c < 0x10000 \<Longrightarrow> (0xE0 OR ucast (drop_bit 12 c) :: u8) AND 0xF0 = 0xE0" for c :: u32
  by (rule u8_eqI) (simp add: bit_simps high_bits(3))

lemma lead4:
  "c < 0x200000 \<Longrightarrow> (0xF0 OR ucast (drop_bit 18 c) :: u8) AND 0xF8 = 0xF0" for c :: u32
  by (rule u8_eqI) (simp add: bit_simps high_bits(4))

lemma lead3_not2: "b AND 0xF0 = 0xE0 \<Longrightarrow> b AND 0xE0 \<noteq> 0xC0" for b :: u8
proof
  assume "b AND 0xF0 = 0xE0" "b AND 0xE0 = 0xC0"
  then have "bit (b AND 0xF0) 5" "\<not> bit (b AND 0xE0) 5" by simp_all
  then show False by (simp add: bit_simps)
qed

lemma lead4_not23: "b AND 0xF8 = 0xF0 \<Longrightarrow> b AND 0xE0 \<noteq> 0xC0 \<and> b AND 0xF0 \<noteq> 0xE0" for b :: u8
proof (intro conjI notI)
  assume b: "b AND 0xF8 = 0xF0"
  { assume "b AND 0xE0 = 0xC0"
    with b have "bit (b AND 0xF8) 5" "\<not> bit (b AND 0xE0) 5" by simp_all
    then show False by (simp add: bit_simps) }
  { assume "b AND 0xF0 = 0xE0"
    with b have "bit (b AND 0xF8) 4" "\<not> bit (b AND 0xF0) 4" by simp_all
    then show False by (simp add: bit_simps) }
qed

lemma lead_not_ascii [simp]:
  "\<not> (0xC0 OR x :: u8) < 0x80" "\<not> (0xE0 OR x :: u8) < 0x80" "\<not> (0xF0 OR x :: u8) < 0x80"
  by (simp_all add: ascii_iff bit_simps)

section \<open>UTF-8\<close>

definition encode_utf8 :: "rchar \<Rightarrow> bytes" where
  "encode_utf8 c =
     (if c < 0x80 then [ucast c] else if c < 0x800 then group2 c
      else if c < 0x10000 then group3 c else group4 c)"

definition as_bytes :: "rstring \<Rightarrow> bytes" where
  "as_bytes s = concat (map encode_utf8 s)"

fun from_utf8 :: "bytes \<Rightarrow> rstring option" where
  "from_utf8 [] = Some []"
| "from_utf8 (b0 # r) =
     (if b0 < 0x80 then map_option ((#) (ucast b0)) (from_utf8 r)
      else if b0 AND 0xE0 = 0xC0 then
        (case r of
           b1 # r' \<Rightarrow>
             if is_cont b1 \<and> 0x80 \<le> join2 b0 b1
             then map_option ((#) (join2 b0 b1)) (from_utf8 r') else None
         | _ \<Rightarrow> None)
      else if b0 AND 0xF0 = 0xE0 then
        (case r of
           b1 # b2 # r' \<Rightarrow>
             if is_cont b1 \<and> is_cont b2 \<and> 0x800 \<le> join3 b0 b1 b2 \<and> is_scalar (join3 b0 b1 b2)
             then map_option ((#) (join3 b0 b1 b2)) (from_utf8 r') else None
         | _ \<Rightarrow> None)
      else if b0 AND 0xF8 = 0xF0 then
        (case r of
           b1 # b2 # b3 # r' \<Rightarrow>
             if is_cont b1 \<and> is_cont b2 \<and> is_cont b3 \<and>
                0x10000 \<le> join4 b0 b1 b2 b3 \<and> is_scalar (join4 b0 b1 b2 b3)
             then map_option ((#) (join4 b0 b1 b2 b3)) (from_utf8 r') else None
         | _ \<Rightarrow> None)
      else None)"

lemma ascii_ucast: "c < 0x80 \<Longrightarrow> (ucast c :: u8) < 0x80 \<and> ucast (ucast c :: u8) = c" for c :: u32
proof
  assume c: "c < 0x80"
  show "(ucast c :: u8) < 0x80" using c by (simp add: ascii_iff bit_simps high_bits(1))
  show "ucast (ucast c :: u8) = c"
    by (rule u32_eqI) (simp add: bit_simps high_bits(1) [OF c])
qed

lemma from_utf8_encode_utf8:
  assumes c: "is_scalar c"
  shows "from_utf8 (encode_utf8 c @ bs) = map_option ((#) c) (from_utf8 bs)"
proof -
  consider "c < 0x80" | "\<not> c < 0x80" "c < 0x800" | "\<not> c < 0x800" "c < 0x10000"
    | "\<not> c < 0x10000" by blast
  then show ?thesis
  proof cases
    case 1
    then show ?thesis using ascii_ucast [OF 1] by (simp add: encode_utf8_def)
  next
    case 2
    then have "encode_utf8 c = group2 c" by (simp add: encode_utf8_def)
    with 2 show ?thesis by (simp add: group2_def lead2 join2_group2 not_less)
  next
    case 3
    then have "encode_utf8 c = group3 c" by (auto simp: encode_utf8_def word_less_nat_alt)
    with 3 c show ?thesis by (simp add: group3_def lead3 lead3_not2 join3_group3 not_less)
  next
    case 4
    have "c < 0x200000" using c by (auto simp: is_scalar_def word_less_nat_alt)
    moreover have "encode_utf8 c = group4 c"
      using 4 by (auto simp: encode_utf8_def word_less_nat_alt)
    ultimately show ?thesis
      using 4 c by (simp add: group4_def lead4 lead4_not23 join4_group4 not_less)
  qed
qed

lemma from_utf8_as_bytes [simp]: "valid_str s \<Longrightarrow> from_utf8 (as_bytes s) = Some s"
proof (induction s)
  case (Cons c s)
  then show ?case using from_utf8_encode_utf8 [of c "concat (map encode_utf8 s)"]
    by (simp add: as_bytes_def)
qed (simp add: as_bytes_def)

lemma is_scalar_small: "c < 0x800 \<Longrightarrow> is_scalar c"
  by (simp add: is_scalar_def word_less_nat_alt)

lemma ucast_u8_small: "(ucast (b :: u8) :: u32) < 0x800"
proof -
  have "unat b < 2 ^ 32" using unat_bound [of b] by simp
  then have "unat (ucast b :: u32) = unat b"
    by (simp add: unsigned_ucast_eq take_bit_nat_eq_self_iff)
  then show ?thesis using unat_bound [of b] by (simp add: word_less_nat_alt)
qed

text \<open>What \<open>from_utf8\<close> accepts is a string of scalar values.\<close>

lemma valid_str_from_utf8: "from_utf8 bs = Some s \<Longrightarrow> valid_str s"
proof (induction bs arbitrary: s rule: from_utf8.induct)
  case (2 b0 r)
  have small: "is_scalar (ucast b0)" by (rule is_scalar_small [OF ucast_u8_small])
  have two: "is_scalar (join2 b0 b1)" for b1
  proof (rule is_scalar_small)
    have "take_bit 11 (join2 b0 b1) = join2 b0 b1"
      unfolding join2_def by (rule u32_eqI) (simp add: bit_simps)
    then show "join2 b0 b1 < 0x800" by (simp add: take_bit_idem_iff word_less_nat_alt)
  qed
  show ?case
  proof (cases "b0 < 0x80")
    case True
    with 2(5) obtain s' where "from_utf8 r = Some s'" "s = ucast b0 # s'" by auto
    with 2(1) [OF True] small show ?thesis by simp
  next
    case n1: False
    show ?thesis
    proof (cases "b0 AND 0xE0 = 0xC0")
      case True
      with n1 2(5) obtain b1 r' s' where "r = b1 # r'" "is_cont b1 \<and> 0x80 \<le> join2 b0 b1"
        "from_utf8 r' = Some s'" "s = join2 b0 b1 # s'"
        by (simp split: list.split_asm if_split_asm) blast
      with 2(2) [OF n1 True] two show ?thesis by simp
    next
      case n2: False
      show ?thesis
      proof (cases "b0 AND 0xF0 = 0xE0")
        case True
        with n1 n2 2(5) obtain b1 b2 r' s' where "r = b1 # b2 # r'"
          "is_cont b1 \<and> is_cont b2 \<and> 0x800 \<le> join3 b0 b1 b2 \<and> is_scalar (join3 b0 b1 b2)"
          "from_utf8 r' = Some s'" "s = join3 b0 b1 b2 # s'"
          by (simp split: list.split_asm if_split_asm) blast
        with 2(3) [OF n1 n2 True] show ?thesis by simp
      next
        case n3: False
        show ?thesis
        proof (cases "b0 AND 0xF8 = 0xF0")
          case True
          with n1 n2 n3 2(5) obtain b1 b2 b3 r' s' where "r = b1 # b2 # b3 # r'"
            "is_cont b1 \<and> is_cont b2 \<and> is_cont b3 \<and> 0x10000 \<le> join4 b0 b1 b2 b3 \<and>
             is_scalar (join4 b0 b1 b2 b3)"
            "from_utf8 r' = Some s'" "s = join4 b0 b1 b2 b3 # s'"
            by (simp split: list.split_asm if_split_asm) blast
          with 2(4) [OF n1 n2 n3 True] show ?thesis by simp
        next
          case False
          with n1 n2 n3 2(5) show ?thesis by simp
        qed
      qed
    qed
  qed
qed simp

end
