(* ===== verification/Wire.thy ===== *)
theory Wire
  imports Varint Utf8
begin

text \<open>
  \<open>crates/rukkit-protocol/src/writer.rs\<close> and \<open>reader.rs\<close>: the two halves of the wire format.
  A writer is modelled by the bytes it appends to its \<open>BufMut\<close>, so a sequence of writes is the
  concatenation; \<open>PacketReader\<close> is its buffer and cursor, and a read is a function from the reader
  to an error or the value with the moved reader. Floats are carried as their IEEE bit patterns.
  The locale \<open>codec\<close> is the contract between the two halves: what was written is read back, and the
  cursor stops exactly behind it.
\<close>

section \<open>Big-endian integers\<close>

fun to_be :: "nat \<Rightarrow> 'a::len word \<Rightarrow> bytes" where
  "to_be 0 w = []"
| "to_be (Suc n) w = ucast (drop_bit (8 * n) w) # to_be n w"

fun from_be :: "'a::len word \<Rightarrow> bytes \<Rightarrow> 'a word" where
  "from_be acc [] = acc"
| "from_be acc (b # bs) = from_be (push_bit 8 acc OR ucast b) bs"

definition to_be_bytes :: "'a::len word \<Rightarrow> bytes" where
  "to_be_bytes w = to_be (LENGTH('a) div 8) w"

definition from_be_bytes :: "bytes \<Rightarrow> 'a::len word" where
  "from_be_bytes bs = from_be 0 bs"

lemma length_to_be [simp]: "length (to_be n w) = n"
  by (induction n) auto

lemma length_to_be_bytes [simp]: "length (to_be_bytes w) = LENGTH('a) div 8" for w :: "'a::len word"
  by (simp add: to_be_bytes_def)

lemma from_be_to_be: "from_be acc (to_be n w) = push_bit (8 * n) acc OR take_bit (8 * n) w"
  for w :: "'a::len word"
proof (induction n arbitrary: acc)
  case (Suc n)
  have "push_bit (8 * n) (push_bit 8 acc OR ucast (ucast (drop_bit (8 * n) w) :: u8)) OR take_bit (8 * n) w
      = push_bit (8 * Suc n) acc OR take_bit (8 * Suc n) w"
  proof (rule bit_word_eqI)
    fix k assume k: "k < LENGTH('a)"
    have "8 * n + (k - 8 * n) = k" if "8 * n \<le> k" using that by simp
    moreover have "k - 8 * n - 8 = k - 8 * Suc n" by simp
    ultimately show "bit (push_bit (8 * n) (push_bit 8 acc OR ucast (ucast (drop_bit (8 * n) w) :: u8)) OR
        take_bit (8 * n) w) k = bit (push_bit (8 * Suc n) acc OR take_bit (8 * Suc n) w) k"
      using k by (cases "8 * n \<le> k") (auto simp: bit_simps)
  qed
  with Suc show ?case by simp
qed simp

lemma from_be_bytes_to_be_bytes:
  "8 dvd LENGTH('a) \<Longrightarrow> from_be_bytes (to_be_bytes w) = w" for w :: "'a::len word"
  by (simp add: from_be_bytes_def to_be_bytes_def from_be_to_be)

lemma bit_from_be:
  "8 * length bs \<le> k \<Longrightarrow> bit (from_be acc bs) k \<longleftrightarrow> k < LENGTH('a) \<and> bit acc (k - 8 * length bs)"
  for acc :: "'a::len word"
proof (induction bs arbitrary: acc)
  case Nil
  then show ?case by (auto dest: bit_imp_le_length)
next
  case (Cons b bs)
  then have "8 * length bs \<le> k" "8 \<le> k - 8 * length bs" by simp_all
  with Cons.IH [OF this(1)] not_bit_ge_length [of "k - 8 * length bs" b] show ?case
    by (auto simp: bit_simps add.commute [of 8])
qed

lemma to_be_from_be:
  fixes acc :: "'a::len word"
  shows "8 * length bs \<le> LENGTH('a) \<Longrightarrow> to_be (length bs) (from_be acc bs) = bs"
proof (induction bs arbitrary: acc)
  case (Cons b bs)
  have "ucast (drop_bit (8 * length bs) (from_be (push_bit 8 acc OR ucast b) bs)) = b"
  proof (rule bit_word_eqI)
    fix i assume "i < LENGTH(8)"
    then show "bit (ucast (drop_bit (8 * length bs) (from_be (push_bit 8 acc OR ucast b) bs)) :: u8) i = bit b i"
      using Cons.prems by (simp add: bit_simps bit_from_be)
  qed
  with Cons show ?case by simp
qed simp

lemma to_be_bytes_from_be_bytes:
  assumes "8 * length bs = LENGTH('a)"
  shows "to_be_bytes (from_be_bytes bs :: 'a::len word) = bs"
proof -
  have "LENGTH('a) div 8 = length bs" using assms by simp
  then show ?thesis using to_be_from_be [of bs "0 :: 'a word"] assms
    by (simp add: to_be_bytes_def from_be_bytes_def)
qed

section \<open>Writer\<close>

definition write_u8 :: "u8 \<Rightarrow> bytes" where "write_u8 v = [v]"
definition write_i8 :: "i8 \<Rightarrow> bytes" where "write_i8 v = [v]"
definition write_bool :: "bool \<Rightarrow> bytes" where "write_bool v = [if v then 1 else 0]"
definition write_u16 :: "u16 \<Rightarrow> bytes" where "write_u16 v = to_be_bytes v"
definition write_i16 :: "i16 \<Rightarrow> bytes" where "write_i16 v = to_be_bytes v"
definition write_i32 :: "i32 \<Rightarrow> bytes" where "write_i32 v = to_be_bytes v"
definition write_i64 :: "i64 \<Rightarrow> bytes" where "write_i64 v = to_be_bytes v"
definition write_u64 :: "u64 \<Rightarrow> bytes" where "write_u64 v = to_be_bytes v"
definition write_f32 :: "u32 \<Rightarrow> bytes" where "write_f32 v = to_be_bytes v"
definition write_f64 :: "u64 \<Rightarrow> bytes" where "write_f64 v = to_be_bytes v"

definition write_string :: "rstring \<Rightarrow> bytes" where
  "write_string v = write_varint (word_of_nat (length (as_bytes v))) @ as_bytes v"

definition write_identifier :: "rstring \<Rightarrow> bytes" where
  "write_identifier v = write_string v"

definition write_uuid :: "u128 \<Rightarrow> bytes" where
  "write_uuid v = to_be_bytes v"

definition write_bytes :: "bytes \<Rightarrow> bytes" where
  "write_bytes v = v"

definition write_byte_array :: "bytes \<Rightarrow> bytes" where
  "write_byte_array v = write_varint (word_of_nat (length v)) @ v"

definition write_option :: "('a \<Rightarrow> bytes) \<Rightarrow> 'a option \<Rightarrow> bytes" where
  "write_option f v =
     (case v of Some x \<Rightarrow> write_bool True @ f x | None \<Rightarrow> write_bool False)"

definition write_array :: "('a \<Rightarrow> bytes) \<Rightarrow> 'a list \<Rightarrow> bytes" where
  "write_array f items = write_varint (word_of_nat (length items)) @ concat (map f items)"

definition write_long_array :: "i64 list \<Rightarrow> bytes" where
  "write_long_array values =
     write_varint (word_of_nat (length values)) @ concat (map write_i64 values)"

section \<open>Reader\<close>

definition DEFAULT_MAX_STRING_LEN :: usize where "DEFAULT_MAX_STRING_LEN = 32767"
definition DEFAULT_MAX_COLLECTION_LEN :: usize where "DEFAULT_MAX_COLLECTION_LEN = 2 ^ 20"

text \<open>\<open>usize\<close> arithmetic of a 64-bit target.\<close>

definition usize_checked_add :: "usize \<Rightarrow> usize \<Rightarrow> usize option" where
  "usize_checked_add a b = (if a + b < 2 ^ 64 then Some (a + b) else None)"

definition usize_saturating_mul :: "usize \<Rightarrow> usize \<Rightarrow> usize" where
  "usize_saturating_mul a b = min (a * b) (2 ^ 64 - 1)"

record packet_reader =
  rd_buf :: bytes
  rd_pos :: usize

type_synonym 'a reader = "packet_reader \<Rightarrow> ('a \<times> packet_reader) presult"

definition reader_new :: "bytes \<Rightarrow> packet_reader" where
  "reader_new b = \<lparr>rd_buf = b, rd_pos = 0\<rparr>"

definition remaining :: "packet_reader \<Rightarrow> usize" where
  "remaining r = length (rd_buf r) - rd_pos r"

definition reader_is_empty :: "packet_reader \<Rightarrow> bool" where
  "reader_is_empty r \<longleftrightarrow> remaining r = 0"

definition peek_rest :: "packet_reader \<Rightarrow> bytes" where
  "peek_rest r = drop (rd_pos r) (rd_buf r)"

text \<open>Sequencing with \<open>?\<close>, and \<open>Ok\<close> and \<open>Err\<close> inside a reading function.\<close>

definition rbind :: "'a reader \<Rightarrow> ('a \<Rightarrow> 'b reader) \<Rightarrow> 'b reader" where
  "rbind m f r = and_then (m r) (\<lambda>(a, r'). f a r')"

definition rreturn :: "'a \<Rightarrow> 'a reader" where
  "rreturn a r = Inr (a, r)"

definition rlift :: "'a presult \<Rightarrow> 'a reader" where
  "rlift m r = and_then m (\<lambda>a. Inr (a, r))"

definition take_n :: "usize \<Rightarrow> bytes reader" where
  "take_n n r =
     (case usize_checked_add (rd_pos r) n of
        None \<Rightarrow> Inl (UnexpectedEof n (remaining r))
      | Some stop \<Rightarrow>
          if length (rd_buf r) < stop then Inl (UnexpectedEof n (remaining r))
          else Inr (take (stop - rd_pos r) (drop (rd_pos r) (rd_buf r)), r\<lparr>rd_pos := stop\<rparr>))"

definition take_be :: "usize \<Rightarrow> 'a::len word reader" where
  "take_be n = rbind (take_n n) (\<lambda>s. rreturn (from_be_bytes s))"

definition read_u8 :: "u8 reader" where "read_u8 = rbind (take_n 1) (\<lambda>s. rreturn (s ! 0))"
definition read_i8 :: "i8 reader" where "read_i8 = rbind read_u8 (\<lambda>b. rreturn b)"
definition read_bool :: "bool reader" where "read_bool = rbind read_u8 (\<lambda>b. rreturn (b \<noteq> 0))"
definition read_u16 :: "u16 reader" where "read_u16 = take_be 2"
definition read_i16 :: "i16 reader" where "read_i16 = take_be 2"
definition read_i32 :: "i32 reader" where "read_i32 = take_be 4"
definition read_i64 :: "i64 reader" where "read_i64 = take_be 8"
definition read_u64 :: "u64 reader" where "read_u64 = take_be 8"
definition read_f32 :: "u32 reader" where "read_f32 = take_be 4"
definition read_f64 :: "u64 reader" where "read_f64 = take_be 8"

definition rd_varint :: "i32 reader" where
  "rd_varint r = and_then (read_varint (drop (rd_pos r) (rd_buf r)))
     (\<lambda>(value, used). Inr (value, r\<lparr>rd_pos := rd_pos r + used\<rparr>))"

definition rd_varlong :: "i64 reader" where
  "rd_varlong r = and_then (read_varlong (drop (rd_pos r) (rd_buf r)))
     (\<lambda>(value, used). Inr (value, r\<lparr>rd_pos := rd_pos r + used\<rparr>))"

definition read_length :: "usize \<Rightarrow> usize reader" where
  "read_length limit = rbind rd_varint (\<lambda>raw.
     if raw <s 0 then rlift (Inl (NegativeLength raw))
     else let len = unat raw in
       if limit < len then rlift (Inl (LengthLimitExceeded len limit))
       else rreturn len)"

definition read_string :: "usize \<Rightarrow> rstring reader" where
  "read_string max_chars =
     rbind (read_length (usize_saturating_mul max_chars 3)) (\<lambda>len.
     rbind (take_n len) (\<lambda>bs.
     case from_utf8 bs of
       None \<Rightarrow> rlift (Inl InvalidUtf8)
     | Some s \<Rightarrow>
         let chars = length s in
         if max_chars < chars then rlift (Inl (StringTooManyChars chars max_chars))
         else rreturn s))"

definition read_identifier :: "rstring reader" where
  "read_identifier = read_string DEFAULT_MAX_STRING_LEN"

definition read_uuid :: "u128 reader" where
  "read_uuid = take_be 16"

definition read_bytes :: "usize \<Rightarrow> bytes reader" where
  "read_bytes n = take_n n"

definition read_byte_array :: "usize \<Rightarrow> bytes reader" where
  "read_byte_array limit = rbind (read_length limit) (\<lambda>len. take_n len)"

definition read_remaining :: "bytes reader" where
  "read_remaining r = Inr (drop (rd_pos r) (rd_buf r), r\<lparr>rd_pos := length (rd_buf r)\<rparr>)"

definition read_option :: "'a reader \<Rightarrow> 'a option reader" where
  "read_option f =
     rbind read_bool (\<lambda>b. if b then rbind f (\<lambda>x. rreturn (Some x)) else rreturn None)"

text \<open>The loop \<open>for _ in 0..len\<close> that pushes what \<open>f\<close> reads.\<close>

fun read_n :: "nat \<Rightarrow> 'a reader \<Rightarrow> 'a list reader" where
  "read_n 0 f = rreturn []"
| "read_n (Suc n) f = rbind f (\<lambda>x. rbind (read_n n f) (\<lambda>xs. rreturn (x # xs)))"

definition read_array :: "usize \<Rightarrow> 'a reader \<Rightarrow> 'a list reader" where
  "read_array limit f = rbind (read_length limit) (\<lambda>len. read_n len f)"

definition expect_finished :: "packet_reader \<Rightarrow> string \<Rightarrow> i32 \<Rightarrow> unit presult" where
  "expect_finished r state pid =
     (if remaining r \<noteq> 0 then Inl (TrailingBytes state pid (remaining r)) else Inr ())"

section \<open>Well-formed readers and progress\<close>

text \<open>
  A reader's cursor stays inside a buffer whose length is a \<open>usize\<close>. Every reading function keeps
  the buffer, never moves the cursor back and never leaves the buffer (\<open>progressing\<close>).
\<close>

definition wf_reader :: "packet_reader \<Rightarrow> bool" where
  "wf_reader r \<longleftrightarrow> rd_pos r \<le> length (rd_buf r) \<and> length (rd_buf r) < 2 ^ 64"

definition progressing :: "'a reader \<Rightarrow> bool" where
  "progressing f \<longleftrightarrow> (\<forall>r x r'. wf_reader r \<longrightarrow> f r = Inr (x, r') \<longrightarrow>
     wf_reader r' \<and> rd_buf r' = rd_buf r \<and> rd_pos r \<le> rd_pos r')"

named_theorems progress_intros \<open>progress of the reading functions, by their structure\<close>

lemma progressingD:
  assumes "progressing f" "wf_reader r" "f r = Inr (x, r')"
  shows "wf_reader r'" "rd_buf r' = rd_buf r" "rd_pos r \<le> rd_pos r'" "remaining r' \<le> remaining r"
proof -
  from assms have *: "wf_reader r' \<and> rd_buf r' = rd_buf r \<and> rd_pos r \<le> rd_pos r'"
    unfolding progressing_def by blast
  then show "wf_reader r'" "rd_buf r' = rd_buf r" "rd_pos r \<le> rd_pos r'" by auto
  from * show "remaining r' \<le> remaining r" by (simp add: remaining_def diff_le_mono2)
qed

lemma progressing_rbind [progress_intros]:
  assumes "progressing m" "\<And>x. progressing (f x)"
  shows "progressing (rbind m f)"
  unfolding progressing_def
proof (intro allI impI)
  fix r y r' assume wf: "wf_reader r" and "rbind m f r = Inr (y, r')"
  then obtain x r1 where m: "m r = Inr (x, r1)" and f: "f x r1 = Inr (y, r')"
    by (auto simp: rbind_def and_then_Inr_iff)
  from progressingD [OF assms(1) wf m] progressingD [OF assms(2) _ f]
  show "wf_reader r' \<and> rd_buf r' = rd_buf r \<and> rd_pos r \<le> rd_pos r'" by auto
qed

lemma progressing_rreturn [progress_intros]: "progressing (rreturn x)"
  by (simp add: progressing_def rreturn_def)

lemma progressing_rlift [progress_intros]: "progressing (rlift m)"
  by (cases m) (auto simp: progressing_def rlift_def)

lemma progressing_if [progress_intros]:
  "progressing f \<Longrightarrow> progressing g \<Longrightarrow> progressing (if b then f else g)"
  by simp

lemma progressing_take_n [progress_intros]: "progressing (take_n n)"
  by (auto simp: progressing_def take_n_def wf_reader_def usize_checked_add_def
      split: option.splits if_splits)

lemma progressing_take_be [progress_intros]: "progressing (take_be n)"
  unfolding take_be_def by (intro progress_intros)

lemma progressing_rd_varint [progress_intros]: "progressing rd_varint"
  unfolding progressing_def
proof (intro allI impI)
  fix r v r' assume wf: "wf_reader r" and rd: "rd_varint r = Inr (v, r')"
  then obtain n where n: "read_varint (drop (rd_pos r) (rd_buf r)) = Inr (v, n)"
    "r' = r\<lparr>rd_pos := rd_pos r + n\<rparr>" by (auto simp: rd_varint_def and_then_Inr_iff)
  from n(1) have "n \<le> length (drop (rd_pos r) (rd_buf r))"
    by (cases rule: read_varint_cases [of "drop (rd_pos r) (rd_buf r)"]) auto
  with wf n(2) show "wf_reader r' \<and> rd_buf r' = rd_buf r \<and> rd_pos r \<le> rd_pos r'"
    by (auto simp: wf_reader_def)
qed

lemma progressing_primitives [progress_intros]:
  "progressing read_u8" "progressing read_i8" "progressing read_bool" "progressing read_u16"
  "progressing read_i16" "progressing read_i32" "progressing read_i64" "progressing read_u64"
  "progressing read_f32" "progressing read_f64" "progressing read_uuid"
  "progressing (read_bytes n)"
  unfolding read_u8_def read_i8_def read_bool_def read_u16_def read_i16_def read_i32_def
    read_i64_def read_u64_def read_f32_def read_f64_def read_uuid_def read_bytes_def
  by (intro progress_intros)+

lemma progressing_read_length [progress_intros]: "progressing (read_length limit)"
  unfolding read_length_def Let_def by (intro progress_intros)

lemma progressing_read_string [progress_intros]: "progressing (read_string max_chars)"
proof -
  have "progressing (case from_utf8 bs of None \<Rightarrow> rlift (Inl InvalidUtf8)
     | Some s \<Rightarrow> let chars = length s in
         if max_chars < chars then rlift (Inl (StringTooManyChars chars max_chars)) else rreturn s)" for bs
    by (cases "from_utf8 bs") (auto simp: Let_def intro: progress_intros)
  then show ?thesis unfolding read_string_def by (intro progress_intros)
qed

lemma progressing_read_identifier [progress_intros]: "progressing read_identifier"
  unfolding read_identifier_def by (intro progress_intros)

lemma progressing_read_byte_array [progress_intros]: "progressing (read_byte_array limit)"
  unfolding read_byte_array_def by (intro progress_intros)

lemma progressing_read_remaining [progress_intros]: "progressing read_remaining"
  by (auto simp: progressing_def read_remaining_def wf_reader_def)

lemma progressing_read_option [progress_intros]: "progressing f \<Longrightarrow> progressing (read_option f)"
  unfolding read_option_def by (intro progress_intros)

lemma progressing_read_n [progress_intros]: "progressing f \<Longrightarrow> progressing (read_n n f)"
  by (induction n) (auto intro: progress_intros)

lemma progressing_read_array [progress_intros]: "progressing f \<Longrightarrow> progressing (read_array limit f)"
  unfolding read_array_def by (intro progress_intros)

section \<open>Reading back what was written\<close>

text \<open>\<open>cursor xs ys\<close> is the reader that has consumed \<open>xs\<close> and has \<open>ys\<close> left.\<close>

definition cursor :: "bytes \<Rightarrow> bytes \<Rightarrow> packet_reader" where
  "cursor xs ys = \<lparr>rd_buf = xs @ ys, rd_pos = length xs\<rparr>"

lemma reader_new_cursor: "reader_new b = cursor [] b"
  by (simp add: reader_new_def cursor_def)

lemma remaining_cursor [simp]: "remaining (cursor xs ys) = length ys"
  by (simp add: remaining_def cursor_def)

lemma wf_cursor [simp]: "wf_reader (cursor xs ys) \<longleftrightarrow> length xs + length ys < 2 ^ 64"
  by (simp add: wf_reader_def cursor_def)

lemma wf_reader_cursor:
  assumes "wf_reader r"
  obtains xs ys where "r = cursor xs ys" "length xs + length ys < 2 ^ 64"
proof
  show "r = cursor (take (rd_pos r) (rd_buf r)) (drop (rd_pos r) (rd_buf r))"
    using assms by (simp add: cursor_def wf_reader_def)
  show "length (take (rd_pos r) (rd_buf r)) + length (drop (rd_pos r) (rd_buf r)) < 2 ^ 64"
    using assms by (simp add: wf_reader_def)
qed

lemma rbind_rreturn [simp]: "rbind (rreturn x) f = f x"
  by (rule ext) (simp add: rbind_def rreturn_def)

lemma rbind_rlift_Inl [simp]: "rbind (rlift (Inl e)) f = rlift (Inl e)"
  by (rule ext) (simp add: rbind_def rlift_def)

lemma rlift_Inl_apply [simp]: "rlift (Inl e) r = Inl e"
  by (simp add: rlift_def)

lemma rreturn_apply: "rreturn x r = Inr (x, r)"
  by (simp add: rreturn_def)

lemma rbind_step: "m r = Inr (x, r') \<Longrightarrow> rbind m f r = f x r'"
  by (simp add: rbind_def)

lemma rbind_fail: "m r = Inl e \<Longrightarrow> rbind m f r = Inl e"
  by (simp add: rbind_def)

lemma rbind_Inr_iff: "rbind m f r = Inr (y, r') \<longleftrightarrow> (\<exists>x r1. m r = Inr (x, r1) \<and> f x r1 = Inr (y, r'))"
  by (auto simp: rbind_def and_then_Inr_iff)

lemma rbind_assoc: "rbind (rbind m f) g = rbind m (\<lambda>x. rbind (f x) g)"
  by (rule ext) (auto simp: rbind_def and_then_def split: sum.splits)

text \<open>
  The contract between a writer and a reader: on a value the format can carry (\<open>ok\<close>), reading at
  the start of what was written gives the value back and consumes exactly the bytes written.
\<close>

locale codec =
  fixes wr :: "'a \<Rightarrow> bytes" and rd :: "'a reader" and ok :: "'a \<Rightarrow> bool"
  assumes rt: "ok x \<Longrightarrow> length xs + length (wr x) + length ys < 2 ^ 64 \<Longrightarrow>
    rd (cursor xs (wr x @ ys)) = Inr (x, cursor (xs @ wr x) ys)"
begin

lemma rt_end:
  "ok x \<Longrightarrow> length xs + length (wr x) < 2 ^ 64 \<Longrightarrow>
     rd (cursor xs (wr x)) = Inr (x, cursor (xs @ wr x) [])"
  using rt [of x xs "[]"] by simp

lemma rt_bind:
  "ok x \<Longrightarrow> length xs + length (wr x) + length ys < 2 ^ 64 \<Longrightarrow>
     rbind rd f (cursor xs (wr x @ ys)) = f x (cursor (xs @ wr x) ys)"
  by (rule rbind_step) (rule rt)

lemma rt_bind_end:
  "ok x \<Longrightarrow> length xs + length (wr x) < 2 ^ 64 \<Longrightarrow>
     rbind rd f (cursor xs (wr x)) = f x (cursor (xs @ wr x) [])"
  by (rule rbind_step) (rule rt_end)

lemma rt_new:
  "ok x \<Longrightarrow> length (wr x) < 2 ^ 64 \<Longrightarrow> rd (reader_new (wr x)) = Inr (x, cursor (wr x) [])"
  using rt_end [of x "[]"] by (simp add: reader_new_cursor)

text \<open>An encoding is never a proper prefix of another one, and determines its value.\<close>

lemma prefix_free:
  assumes "ok x" "ok y" "wr x @ s = wr y @ t" "length (wr x @ s) < 2 ^ 64"
  shows "x = y \<and> s = t"
proof -
  have "length (wr x) + length s < 2 ^ 64" "length (wr y) + length t < 2 ^ 64"
    using assms(3,4) by (metis length_append)+
  then have "rd (cursor [] (wr x @ s)) = Inr (x, cursor (wr x) s)"
    "rd (cursor [] (wr y @ t)) = Inr (y, cursor (wr y) t)"
    using rt [of x "[]" s] rt [of y "[]" t] assms(1,2) by simp_all
  then show ?thesis unfolding assms(3) by (auto simp: cursor_def)
qed

lemma read_n_rt:
  "list_all ok items \<Longrightarrow> length xs + length (concat (map wr items)) + length ys < 2 ^ 64 \<Longrightarrow>
     read_n (length items) rd (cursor xs (concat (map wr items) @ ys)) =
       Inr (items, cursor (xs @ concat (map wr items)) ys)"
proof (induction items arbitrary: xs)
  case (Cons i items)
  then have "read_n (length items) rd (cursor (xs @ wr i) (concat (map wr items) @ ys)) =
      Inr (items, cursor ((xs @ wr i) @ concat (map wr items)) ys)" by simp
  moreover have "rd (cursor xs (wr i @ concat (map wr items) @ ys)) =
      Inr (i, cursor (xs @ wr i) (concat (map wr items) @ ys))"
    using Cons.prems by (intro rt) auto
  ultimately show ?case by (simp add: rbind_def rreturn_def)
qed (simp add: rreturn_def)

end

lemma take_n_cursor:
  "length xs + length zs + length ys < 2 ^ 64 \<Longrightarrow>
     take_n (length zs) (cursor xs (zs @ ys)) = Inr (zs, cursor (xs @ zs) ys)"
  by (simp add: take_n_def cursor_def usize_checked_add_def)

lemma take_be_rt:
  fixes w :: "'a::len word"
  assumes "8 dvd LENGTH('a)" "n = LENGTH('a) div 8"
    and "length xs + length (to_be_bytes w) + length ys < 2 ^ 64"
  shows "take_be n (cursor xs (to_be_bytes w @ ys)) = Inr (w, cursor (xs @ to_be_bytes w) ys)"
proof -
  have "n = length (to_be_bytes w)" using assms(2) by simp
  with take_n_cursor [OF assms(3)] show ?thesis
    by (simp add: take_be_def rbind_def rreturn_def from_be_bytes_to_be_bytes [OF assms(1)])
qed

interpretation u8c: codec write_u8 read_u8 "\<lambda>_. True"
proof
  fix x :: u8 and xs ys :: bytes
  assume "length xs + length (write_u8 x) + length ys < 2 ^ 64"
  then show "read_u8 (cursor xs (write_u8 x @ ys)) = Inr (x, cursor (xs @ write_u8 x) ys)"
    using take_n_cursor [of xs "[x]" ys]
    by (simp add: read_u8_def write_u8_def rbind_def rreturn_def)
qed

interpretation i8c: codec write_i8 read_i8 "\<lambda>_. True"
proof
  fix x :: i8 and xs ys :: bytes
  assume "length xs + length (write_i8 x) + length ys < 2 ^ 64"
  then show "read_i8 (cursor xs (write_i8 x @ ys)) = Inr (x, cursor (xs @ write_i8 x) ys)"
    using u8c.rt [of xs x ys] by (simp add: read_i8_def write_i8_def write_u8_def rbind_def rreturn_def)
qed

interpretation boolc: codec write_bool read_bool "\<lambda>_. True"
proof
  fix b :: bool and xs ys :: bytes
  assume "length xs + length (write_bool b) + length ys < 2 ^ 64"
  then show "read_bool (cursor xs (write_bool b @ ys)) = Inr (b, cursor (xs @ write_bool b) ys)"
    using u8c.rt [of xs "if b then 1 else 0" ys]
    by (simp add: read_bool_def write_bool_def write_u8_def rbind_def rreturn_def)
qed

interpretation u16c: codec write_u16 read_u16 "\<lambda>_. True"
  by unfold_locales (simp add: read_u16_def write_u16_def take_be_rt)

interpretation i16c: codec write_i16 read_i16 "\<lambda>_. True"
  by unfold_locales (simp add: read_i16_def write_i16_def take_be_rt)

interpretation i32c: codec write_i32 read_i32 "\<lambda>_. True"
  by unfold_locales (simp add: read_i32_def write_i32_def take_be_rt)

interpretation i64c: codec write_i64 read_i64 "\<lambda>_. True"
  by unfold_locales (simp add: read_i64_def write_i64_def take_be_rt)

interpretation u64c: codec write_u64 read_u64 "\<lambda>_. True"
  by unfold_locales (simp add: read_u64_def write_u64_def take_be_rt)

interpretation f32c: codec write_f32 read_f32 "\<lambda>_. True"
  by unfold_locales (simp add: read_f32_def write_f32_def take_be_rt)

interpretation f64c: codec write_f64 read_f64 "\<lambda>_. True"
  by unfold_locales (simp add: read_f64_def write_f64_def take_be_rt)

interpretation uuidc: codec write_uuid read_uuid "\<lambda>_. True"
  by unfold_locales (simp add: read_uuid_def write_uuid_def take_be_rt)

interpretation varintc: codec write_varint rd_varint "\<lambda>_. True"
  by unfold_locales
    (simp add: rd_varint_def cursor_def read_varint_write_varint varint_len_eq)

interpretation varlongc: codec write_varlong rd_varlong "\<lambda>_. True"
  by unfold_locales
    (simp add: rd_varlong_def cursor_def read_varlong_write_varlong varlong_len_eq)

text \<open>A length prefix: \<open>len as i32\<close> is non-negative and exact below \<open>2 ^ 31\<close>.\<close>

lemma length_word: "n < 2 ^ 31 \<Longrightarrow> unat (word_of_nat n :: i32) = n \<and> \<not> (word_of_nat n :: i32) <s 0"
proof
  assume n: "n < 2 ^ 31"
  show u: "unat (word_of_nat n :: i32) = n"
    using n by (simp add: unsigned_of_nat take_bit_nat_eq_self_iff)
  show "\<not> (word_of_nat n :: i32) <s 0"
  proof -
    have "uint (word_of_nat n :: i32) = int n" using u by (simp add: uint_nat)
    then have "sint (word_of_nat n :: i32) = int n"
      using n by (simp add: sint_uint signed_take_bit_int_eq_self)
    then show ?thesis by (simp add: word_sless_alt)
  qed
qed

interpretation lengthc: codec "\<lambda>n. write_varint (word_of_nat n)" "read_length limit"
    "\<lambda>n. n \<le> limit \<and> n < 2 ^ 31" for limit
proof
  fix n :: nat and xs ys :: bytes
  assume "n \<le> limit \<and> n < 2 ^ 31"
    and "length xs + length (write_varint (word_of_nat n)) + length ys < 2 ^ 64"
  then show "read_length limit (cursor xs (write_varint (word_of_nat n) @ ys)) =
      Inr (n, cursor (xs @ write_varint (word_of_nat n)) ys)"
    using length_word [of n] by (simp add: read_length_def varintc.rt_bind rreturn_def)
qed

section \<open>Strings, byte arrays, options and lists\<close>

text \<open>
  A string survives \<open>write_string\<close> and \<open>read_string\<close> when it has at most \<open>max_chars\<close> characters and
  its encoding at most three bytes for each permitted character.
\<close>

definition string_fits :: "usize \<Rightarrow> rstring \<Rightarrow> bool" where
  "string_fits max_chars s \<longleftrightarrow> valid_str s \<and> length s \<le> max_chars \<and>
     length (as_bytes s) \<le> usize_saturating_mul max_chars 3 \<and> length (as_bytes s) < 2 ^ 31"

interpretation stringc: codec write_string "read_string max_chars" "string_fits max_chars" for max_chars
proof
  fix s :: rstring and xs ys :: bytes
  assume fits: "string_fits max_chars s"
    and len: "length xs + length (write_string s) + length ys < 2 ^ 64"
  let ?n = "length (as_bytes s)"
  have "read_length (usize_saturating_mul max_chars 3) (cursor xs (write_string s @ ys)) =
      Inr (?n, cursor (xs @ write_varint (word_of_nat ?n)) (as_bytes s @ ys))"
    using lengthc.rt [of ?n "usize_saturating_mul max_chars 3" xs "as_bytes s @ ys"] fits len
    by (simp add: write_string_def string_fits_def)
  moreover have "take_n ?n (cursor (xs @ write_varint (word_of_nat ?n)) (as_bytes s @ ys)) =
      Inr (as_bytes s, cursor ((xs @ write_varint (word_of_nat ?n)) @ as_bytes s) ys)"
    using len by (intro take_n_cursor) (simp add: write_string_def)
  ultimately show "read_string max_chars (cursor xs (write_string s @ ys)) =
      Inr (s, cursor (xs @ write_string s) ys)"
    using fits by (simp add: read_string_def rbind_def rreturn_def string_fits_def write_string_def)
qed

interpretation identc: codec write_identifier read_identifier "string_fits DEFAULT_MAX_STRING_LEN"
  by unfold_locales (simp add: write_identifier_def read_identifier_def stringc.rt)

interpretation bytearrayc: codec write_byte_array "read_byte_array limit"
    "\<lambda>v. length v \<le> limit \<and> length v < 2 ^ 31" for limit
proof
  fix v xs ys :: bytes
  assume fits: "length v \<le> limit \<and> length v < 2 ^ 31"
    and len: "length xs + length (write_byte_array v) + length ys < 2 ^ 64"
  have "take_n (length v) (cursor (xs @ write_varint (word_of_nat (length v))) (v @ ys)) =
      Inr (v, cursor ((xs @ write_varint (word_of_nat (length v))) @ v) ys)"
    using len by (intro take_n_cursor) (simp add: write_byte_array_def)
  with fits len lengthc.rt [of "length v" limit xs "v @ ys"]
  show "read_byte_array limit (cursor xs (write_byte_array v @ ys)) =
      Inr (v, cursor (xs @ write_byte_array v) ys)"
    by (simp add: read_byte_array_def write_byte_array_def rbind_def)
qed

context codec
begin

lemma option_codec:
  "codec (write_option wr) (read_option rd) (\<lambda>v. case v of None \<Rightarrow> True | Some x \<Rightarrow> ok x)"
proof
  fix v :: "'a option" and xs ys :: bytes
  assume ok: "case v of None \<Rightarrow> True | Some x \<Rightarrow> ok x"
    and len: "length xs + length (write_option wr v) + length ys < 2 ^ 64"
  show "read_option rd (cursor xs (write_option wr v @ ys)) = Inr (v, cursor (xs @ write_option wr v) ys)"
  proof (cases v)
    case None
    with len boolc.rt [of xs False ys] show ?thesis
      by (simp add: read_option_def write_option_def rbind_def rreturn_def)
  next
    case (Some x)
    with ok len boolc.rt [of xs True "wr x @ ys"] rt [of x "xs @ write_bool True" ys]
    show ?thesis by (simp add: read_option_def write_option_def rbind_def rreturn_def)
  qed
qed

lemma array_codec:
  "codec (write_array wr) (read_array limit rd)
     (\<lambda>items. list_all ok items \<and> length items \<le> limit \<and> length items < 2 ^ 31)"
proof
  fix items :: "'a list" and xs ys :: bytes
  assume ok: "list_all ok items \<and> length items \<le> limit \<and> length items < 2 ^ 31"
    and len: "length xs + length (write_array wr items) + length ys < 2 ^ 64"
  have "read_n (length items) rd (cursor (xs @ write_varint (word_of_nat (length items)))
      (concat (map wr items) @ ys)) =
    Inr (items, cursor ((xs @ write_varint (word_of_nat (length items))) @ concat (map wr items)) ys)"
    using ok len by (intro read_n_rt) (auto simp: write_array_def)
  with ok len lengthc.rt [of "length items" limit xs "concat (map wr items) @ ys"]
  show "read_array limit rd (cursor xs (write_array wr items @ ys)) =
      Inr (items, cursor (xs @ write_array wr items) ys)"
    by (simp add: read_array_def write_array_def rbind_def)
qed

end

interpretation longarrayc: codec write_long_array "read_array limit read_i64"
    "\<lambda>v. list_all (\<lambda>_. True) v \<and> length v \<le> limit \<and> length v < 2 ^ 31" for limit
proof -
  have "write_long_array = write_array write_i64"
    by (rule ext) (simp add: write_long_array_def write_array_def)
  then show "codec write_long_array (read_array limit read_i64)
      (\<lambda>v. list_all (\<lambda>_. True) v \<and> length v \<le> limit \<and> length v < 2 ^ 31)"
    using i64c.array_codec by simp
qed

text \<open>The reading steps of every primitive, for the packet components.\<close>

lemmas codec_steps =
  u8c.rt_bind i8c.rt_bind boolc.rt_bind u16c.rt_bind i16c.rt_bind i32c.rt_bind i64c.rt_bind
  u64c.rt_bind f32c.rt_bind f64c.rt_bind uuidc.rt_bind varintc.rt_bind varlongc.rt_bind
  stringc.rt_bind identc.rt_bind bytearrayc.rt_bind
  u8c.rt_bind_end i8c.rt_bind_end boolc.rt_bind_end u16c.rt_bind_end i16c.rt_bind_end
  i32c.rt_bind_end i64c.rt_bind_end u64c.rt_bind_end f32c.rt_bind_end f64c.rt_bind_end
  uuidc.rt_bind_end varintc.rt_bind_end varlongc.rt_bind_end stringc.rt_bind_end
  identc.rt_bind_end bytearrayc.rt_bind_end

section \<open>Properties\<close>

text \<open>
  A string written by \<open>write_string\<close> and read with a limit it respects comes back, and the
  reader stands right behind it, whatever surrounds it in the buffer.
\<close>

lemma read_string_roundtrip:
  assumes "string_fits max_chars s" "length xs + length (write_string s) + length ys < 2 ^ 64"
  shows "read_string max_chars (cursor xs (write_string s @ ys)) = Inr (s, cursor (xs @ write_string s) ys)"
  using assms by (rule stringc.rt)

lemma read_string_roundtrip_witness:
  "read_string 16 (cursor [1] (write_string [0x48, 0xE9, 0x1F600] @ [7])) =
     Inr ([0x48, 0xE9, 0x1F600], cursor ([1] @ write_string [0x48, 0xE9, 0x1F600]) [7])"
proof -
  have "write_string [0x48, 0xE9, 0x1F600] = [7, 0x48, 0xC3, 0xA9, 0xF0, 0x9F, 0x98, 0x80]"
    by (simp add: write_string_def as_bytes_def encode_utf8_def group2_def group4_def write_varint_def write_leb_last)
  moreover have "string_fits 16 [0x48, 0xE9, 0x1F600]"
    by (simp add: string_fits_def is_scalar_def as_bytes_def encode_utf8_def group2_def group4_def
        usize_saturating_mul_def)
  ultimately show ?thesis using read_string_roundtrip [of 16 "[0x48, 0xE9, 0x1F600]" "[1]" "[7]"] by simp
qed

text \<open>
  What \<open>read_string\<close> accepts from arbitrary bytes: a sequence of Unicode scalar values of at
  most \<open>max_chars\<close> characters, and the cursor moves forward and stays inside the buffer.
\<close>

lemma read_string_safe:
  assumes "wf_reader r" "read_string max_chars r = Inr (s, r')"
  shows "valid_str s \<and> length s \<le> max_chars \<and> rd_buf r' = rd_buf r \<and> rd_pos r \<le> rd_pos r' \<and>
    rd_pos r' \<le> length (rd_buf r)"
proof -
  have "valid_str s \<and> length s \<le> max_chars"
    using assms(2) valid_str_from_utf8
    by (auto simp: read_string_def rbind_def and_then_Inr_iff rlift_def rreturn_def Let_def
        split: option.splits if_splits)
  with progressingD [OF progressing_read_string assms] show ?thesis by (simp add: wf_reader_def)
qed

lemma read_string_safe_witness:
  "length [0x68 :: u32, 0x69] \<le> 16 \<and> wf_reader (reader_new [2, 0x68, 0x69, 0])"
proof -
  have "wf_reader (reader_new [2, 0x68, 0x69, 0])" by (simp add: reader_new_def wf_reader_def)
  moreover have "read_string 16 (reader_new [2, 0x68, 0x69, 0]) =
      Inr ([0x68, 0x69], \<lparr>rd_buf = [2, 0x68, 0x69, 0], rd_pos = 3\<rparr>)"
    by (simp add: read_string_def rbind_def read_length_def rd_varint_def read_varint_def
        MAX_VARINT_BYTES_def reader_new_def Let_def usize_saturating_mul_def rreturn_def take_n_def
        usize_checked_add_def word_sless_alt)
  ultimately show ?thesis using read_string_safe by blast
qed

end
