(* ===== verification/Codec.thy ===== *)
theory Codec
  imports Wire "HOL-Library.Sublist"
begin

text \<open>
  \<open>crates/rukkit-protocol/src/codec.rs\<close> and \<open>crypt.rs\<close>: splitting the byte stream of a connection
  into packets and back, with optional compression and encryption.

  The byte-wise cipher (crates \<open>aes\<close> and \<open>cfb8\<close>) and zlib (crate \<open>flate2\<close>) are not part of the
  repository: they are parameters, a step function of the cipher for one byte, and for zlib the reset
  of a stream and one call on the unread input with a given room for output. \<open>cipher_pair\<close>,
  \<open>deflates\<close> and \<open>inflates\<close> state what their documentation promises and what the results below
  rely on. \<open>total_in\<close> of a zlib object is counted by the model.
\<close>

section \<open>Ciphers\<close>

definition SHARED_SECRET_LEN :: usize where "SHARED_SECRET_LEN = 16"

definition cipher_new :: "(bytes \<Rightarrow> bytes \<Rightarrow> 'c) \<Rightarrow> bytes \<Rightarrow> usize + 'c" where
  "cipher_new new_from_slices secret =
     (if length secret \<noteq> SHARED_SECRET_LEN then Inl (length secret)
      else Inr (new_from_slices secret secret))"

text \<open>\<open>Encryptor::encrypt\<close>: one step of the cipher for each byte, in place.\<close>

fun crypt :: "('c \<Rightarrow> u8 \<Rightarrow> u8 \<times> 'c) \<Rightarrow> 'c \<Rightarrow> bytes \<Rightarrow> bytes \<times> 'c" where
  "crypt step c [] = ([], c)"
| "crypt step c (b # bs) =
     (case step c b of (x, c') \<Rightarrow> case crypt step c' bs of (xs, c'') \<Rightarrow> (x # xs, c''))"

text \<open>\<open>Decryptor\<close>, the mirror of \<open>Encryptor\<close> over the other step.\<close>

definition decryptor_new :: "(bytes \<Rightarrow> bytes \<Rightarrow> 'd) \<Rightarrow> bytes \<Rightarrow> usize + 'd" where
  "decryptor_new new_from_slices secret =
     (if length secret \<noteq> SHARED_SECRET_LEN then Inl (length secret)
      else Inr (new_from_slices secret secret))"

fun decrypt :: "('d \<Rightarrow> u8 \<Rightarrow> u8 \<times> 'd) \<Rightarrow> 'd \<Rightarrow> bytes \<Rightarrow> bytes \<times> 'd" where
  "decrypt step d [] = ([], d)"
| "decrypt step d (b # bs) =
     (case step d b of (x, d') \<Rightarrow> case decrypt step d' bs of (xs, d'') \<Rightarrow> (x # xs, d''))"

lemma decrypt_eq [simp]: "decrypt = crypt"
proof (intro ext)
  show "decrypt step d bs = crypt step d bs" for step :: "'d \<Rightarrow> u8 \<Rightarrow> u8 \<times> 'd" and d bs
    by (induction step d bs rule: decrypt.induct) (simp_all split: prod.split)
qed

section \<open>zlib\<close>

text \<open>
  One call of \<open>compress_vec\<close> or \<open>decompress_vec\<close>: an error text, or whether the stream ended, how
  many input bytes were consumed, and the bytes appended.
\<close>

type_synonym 'z zstep = "'z \<Rightarrow> bytes \<Rightarrow> usize \<Rightarrow> (string + bool \<times> usize \<times> bytes) \<times> 'z"

record 'z zlib =
  zl_reset :: "'z \<Rightarrow> 'z"
  zl_step :: "'z zstep"

text \<open>
  \<open>compress_into\<close>: \<open>out\<close> is the scratch vector with its capacity; \<open>reserve cap len additional\<close> is the
  capacity after \<open>Vec::reserve\<close>. The result is \<open>None\<close> if the loop never ends, or the slice panics.
\<close>

partial_function (option) compress_loop ::
  "'z zstep \<Rightarrow> (usize \<Rightarrow> usize \<Rightarrow> usize \<Rightarrow> usize) \<Rightarrow> bytes \<Rightarrow> 'z \<Rightarrow> usize \<Rightarrow> bytes \<Rightarrow> usize \<Rightarrow>
    (unit presult \<times> 'z \<times> bytes \<times> usize) option" where
  "compress_loop step reserve input z total_in out cap =
     (if length input < total_in then None
      else case step z (drop total_in input) (cap - length out) of
        (Inl msg, z') \<Rightarrow> Some (Inl (Compression msg), z', out, cap)
      | (Inr (stream_end, consumed, produced), z') \<Rightarrow>
          let out' = out @ take (cap - length out) produced in
          if stream_end then Some (Inr (), z', out', cap)
          else compress_loop step reserve input z' (total_in + consumed) out'
            (if length out' = length out then reserve cap (length out') (max cap 64) else cap))"

definition compress_into ::
  "'z zlib \<Rightarrow> (usize \<Rightarrow> usize \<Rightarrow> usize \<Rightarrow> usize) \<Rightarrow> 'z \<Rightarrow> bytes \<Rightarrow> usize \<Rightarrow>
    (unit presult \<times> 'z \<times> bytes \<times> usize) option" where
  "compress_into zl reserve z input cap =
     compress_loop (zl_step zl) reserve input (zl_reset zl z) 0 [] (reserve cap 0 (length input div 2 + 64))"

text \<open>
  \<open>decompress_exact\<close>: the output vector has room for exactly \<open>expected\<close> bytes, so every turn of the
  loop that does not leave it fills some of the room.
\<close>

function decompress_loop ::
  "'z zstep \<Rightarrow> bytes \<Rightarrow> usize \<Rightarrow> 'z \<Rightarrow> usize \<Rightarrow> bytes \<Rightarrow> bytes presult \<times> 'z" where
  "decompress_loop step input expected z total_in out =
     (if length input < total_in then
        (Inl (Compression ''zlib stream consumed more than was supplied''), z)
      else case step z (drop total_in input) (expected - length out) of
        (Inl msg, z') \<Rightarrow> (Inl (Compression msg), z')
      | (Inr (stream_end, consumed, produced), z') \<Rightarrow>
          let out' = out @ take (expected - length out) produced in
          if stream_end then (Inr out', z')
          else if length out' = length out then
            (Inl (Compression ''truncated zlib stream, or larger than its declared size''), z')
          else decompress_loop step input expected z' (total_in + consumed) out')"
  by pat_completeness auto
termination
  by (relation "measure (\<lambda>(_, _, expected, _, _, out). expected - length out)")
    (auto simp: min_def neq_Nil_conv split: if_splits)

declare decompress_loop.simps [simp del]

definition decompress_exact :: "'z zlib \<Rightarrow> 'z \<Rightarrow> bytes \<Rightarrow> usize \<Rightarrow> bytes presult \<times> 'z" where
  "decompress_exact zl z input expected =
     (case decompress_loop (zl_step zl) input expected (zl_reset zl z) 0 [] of
        (Inl e, z') \<Rightarrow> (Inl e, z')
      | (Inr out, z') \<Rightarrow>
          if length out \<noteq> expected then
            (Inl (Compression (''zlib stream produced '' @ show_nat (length out) @ '' bytes, declared '' @
              show_nat expected)), z')
          else (Inr out, z'))"

section \<open>Decoder\<close>

definition MAX_FRAME_LEN :: usize where "MAX_FRAME_LEN = 2 * 1024 * 1024"
definition DEFAULT_COMPRESSION_THRESHOLD :: usize where "DEFAULT_COMPRESSION_THRESHOLD = 256"

record ('d, 'z) decoder =
  dec_buffer :: bytes
  dec_compression :: "usize option"
  dec_decryptor :: "'d option"
  dec_decompressor :: 'z
  dec_max_frame :: usize

definition decoder_new :: "'z \<Rightarrow> ('d, 'z) decoder" where
  "decoder_new z = \<lparr>dec_buffer = [], dec_compression = None, dec_decryptor = None, dec_decompressor = z,
     dec_max_frame = MAX_FRAME_LEN\<rparr>"

definition dec_enable_compression :: "usize \<Rightarrow> ('d, 'z) decoder \<Rightarrow> ('d, 'z) decoder" where
  "dec_enable_compression threshold d = d\<lparr>dec_compression := Some threshold\<rparr>"

definition dec_enable_encryption :: "'d \<Rightarrow> ('d, 'z) decoder \<Rightarrow> ('d, 'z) decoder" where
  "dec_enable_encryption decryptor d = d\<lparr>dec_decryptor := Some decryptor\<rparr>"

definition dec_is_encrypted :: "('d, 'z) decoder \<Rightarrow> bool" where
  "dec_is_encrypted d \<longleftrightarrow> dec_decryptor d \<noteq> None"

definition buffered :: "('d, 'z) decoder \<Rightarrow> usize" where
  "buffered d = length (dec_buffer d)"

definition feed :: "('d \<Rightarrow> u8 \<Rightarrow> u8 \<times> 'd) \<Rightarrow> bytes \<Rightarrow> ('d, 'z) decoder \<Rightarrow> ('d, 'z) decoder" where
  "feed dec_step data d = (case dec_decryptor d of
      None \<Rightarrow> d\<lparr>dec_buffer := dec_buffer d @ data\<rparr>
    | Some c \<Rightarrow> (case decrypt dec_step c data of (data', c') \<Rightarrow>
        d\<lparr>dec_decryptor := Some c', dec_buffer := dec_buffer d @ data'\<rparr>))"

text \<open>The body of a frame, once it has been split off the buffer.\<close>

definition decode_frame :: "'z zlib \<Rightarrow> bytes \<Rightarrow> ('d, 'z) decoder \<Rightarrow> bytes option presult \<times> ('d, 'z) decoder" where
  "decode_frame zl frame d = (case dec_compression d of
      None \<Rightarrow> (Inr (Some frame), d)
    | Some threshold \<Rightarrow> (case read_varint frame of
        Inl e \<Rightarrow> (Inl e, d)
      | Inr (data_len, used) \<Rightarrow>
          if data_len = 0 then (Inr (Some (drop used frame)), d)
          else if data_len <s 0 then (Inl (NegativeLength data_len), d)
          else let data_len = unat data_len in
            if data_len < threshold then (Inl (BadlyCompressed data_len threshold), d)
            else if dec_max_frame d < data_len then (Inl (DecompressedTooLarge data_len (dec_max_frame d)), d)
            else (case decompress_exact zl (dec_decompressor d) (drop used frame) data_len of
                (Inl e, z) \<Rightarrow> (Inl e, d\<lparr>dec_decompressor := z\<rparr>)
              | (Inr out, z) \<Rightarrow> (Inr (Some out), d\<lparr>dec_decompressor := z\<rparr>))))"

definition decode :: "'z zlib \<Rightarrow> ('d, 'z) decoder \<Rightarrow> bytes option presult \<times> ('d, 'z) decoder" where
  "decode zl d = (case read_varint (dec_buffer d) of
      Inl (UnexpectedEof _ _) \<Rightarrow> (Inr None, d)
    | Inl e \<Rightarrow> (Inl e, d)
    | Inr (frame_len, header_len) \<Rightarrow>
        if frame_len <s 0 then (Inl (NegativeLength frame_len), d)
        else let frame_len = unat frame_len in
          if dec_max_frame d < frame_len then (Inl (FrameTooLarge frame_len (dec_max_frame d)), d)
          else if length (dec_buffer d) < header_len + frame_len then (Inr None, d)
          else decode_frame zl (take frame_len (drop header_len (dec_buffer d)))
            (d\<lparr>dec_buffer := drop frame_len (drop header_len (dec_buffer d))\<rparr>))"

section \<open>Encoder\<close>

record ('c, 'z) encoder =
  enc_compression :: "usize option"
  enc_encryptor :: "'c option"
  enc_compressor :: 'z
  enc_scratch :: bytes
  enc_scratch_cap :: usize
  enc_max_frame :: usize

definition encoder_new :: "'z \<Rightarrow> ('c, 'z) encoder" where
  "encoder_new z = \<lparr>enc_compression = None, enc_encryptor = None, enc_compressor = z, enc_scratch = [],
     enc_scratch_cap = 8 * 1024, enc_max_frame = MAX_FRAME_LEN\<rparr>"

definition enc_enable_compression :: "usize \<Rightarrow> ('c, 'z) encoder \<Rightarrow> ('c, 'z) encoder" where
  "enc_enable_compression threshold e = e\<lparr>enc_compression := Some threshold\<rparr>"

definition enc_enable_encryption :: "'c \<Rightarrow> ('c, 'z) encoder \<Rightarrow> ('c, 'z) encoder" where
  "enc_enable_encryption encryptor e = e\<lparr>enc_encryptor := Some encryptor\<rparr>"

definition enc_is_encrypted :: "('c, 'z) encoder \<Rightarrow> bool" where
  "enc_is_encrypted e \<longleftrightarrow> enc_encryptor e \<noteq> None"

text \<open>The bytes of the frame before encryption, which \<open>encode\<close> appends to \<open>out\<close>.\<close>

definition encode_frame ::
  "'z zlib \<Rightarrow> (usize \<Rightarrow> usize \<Rightarrow> usize \<Rightarrow> usize) \<Rightarrow> bytes \<Rightarrow> ('c, 'z) encoder \<Rightarrow>
    (bytes presult \<times> ('c, 'z) encoder) option" where
  "encode_frame zl reserve packet e = (case enc_compression e of
      None \<Rightarrow>
        if enc_max_frame e < length packet then
          Some (Inl (FrameTooLarge (length packet) (enc_max_frame e)), e)
        else Some (Inr (write_varint (word_of_nat (length packet)) @ packet), e)
    | Some threshold \<Rightarrow>
        if length packet < threshold then
          Some (Inr (write_varint (word_of_nat (1 + length packet)) @ write_varint 0 @ packet), e)
        else map_option (\<lambda>(result, z, scratch, cap).
          let e' = e\<lparr>enc_compressor := z, enc_scratch := scratch, enc_scratch_cap := cap\<rparr> in
          case result of
            Inl err \<Rightarrow> (Inl err, e')
          | Inr _ \<Rightarrow>
              let frame_len = varint_len (word_of_nat (length packet)) + length scratch in
              if enc_max_frame e < frame_len then (Inl (FrameTooLarge frame_len (enc_max_frame e)), e')
              else (Inr (write_varint (word_of_nat frame_len) @
                write_varint (word_of_nat (length packet)) @ scratch), e'))
          (compress_into zl reserve (enc_compressor e) packet (enc_scratch_cap e)))"

definition encode ::
  "('c \<Rightarrow> u8 \<Rightarrow> u8 \<times> 'c) \<Rightarrow> 'z zlib \<Rightarrow> (usize \<Rightarrow> usize \<Rightarrow> usize \<Rightarrow> usize) \<Rightarrow> bytes \<Rightarrow> bytes \<Rightarrow>
    ('c, 'z) encoder \<Rightarrow> (unit presult \<times> bytes \<times> ('c, 'z) encoder) option" where
  "encode enc_step zl reserve packet out e =
     map_option (\<lambda>(result, e').
       case result of
         Inl err \<Rightarrow> (Inl err, out, e')
       | Inr frame \<Rightarrow> (case enc_encryptor e' of
           None \<Rightarrow> (Inr (), out @ frame, e')
         | Some c \<Rightarrow> (case crypt enc_step c frame of (frame', c') \<Rightarrow>
             (Inr (), out @ frame', e'\<lparr>enc_encryptor := Some c'\<rparr>))))
       (encode_frame zl reserve packet e)"

section \<open>What the code relies on\<close>

text \<open>Deciphering undoes enciphering byte by byte, and keeps the two states in step.\<close>

definition cipher_pair ::
  "('c \<Rightarrow> u8 \<Rightarrow> u8 \<times> 'c) \<Rightarrow> ('d \<Rightarrow> u8 \<Rightarrow> u8 \<times> 'd) \<Rightarrow> ('c \<Rightarrow> 'd \<Rightarrow> bool) \<Rightarrow> bool" where
  "cipher_pair enc_step dec_step sync \<longleftrightarrow> (\<forall>c d b. sync c d \<longrightarrow>
     (case enc_step c b of (x, c') \<Rightarrow> case dec_step d x of (y, d') \<Rightarrow> y = b \<and> sync c' d'))"

text \<open>
  A finishing \<open>deflate\<close> emits the compressed stream of its input, in pieces that fit the room it is
  given, and makes progress whenever it has room. \<open>R z input rest\<close> relates the state of the stream
  to the unread input and the bytes still to come.
\<close>

definition deflates :: "'z zlib \<Rightarrow> ('z \<Rightarrow> bytes \<Rightarrow> bytes \<Rightarrow> bool) \<Rightarrow> (bytes \<Rightarrow> bytes) \<Rightarrow> bool" where
  "deflates zl R deflate \<longleftrightarrow>
     (\<forall>z input. R (zl_reset zl z) input (deflate input)) \<and>
     (\<forall>z input rest room. R z input rest \<longrightarrow> (case zl_step zl z input room of
         (Inl _, _) \<Rightarrow> False
       | (Inr (stream_end, consumed, produced), z') \<Rightarrow>
           consumed \<le> length input \<and> length produced \<le> room \<and>
           (\<exists>rest'. rest = produced @ rest' \<and>
             (if stream_end then rest' = []
              else R z' (drop consumed input) rest' \<and> (0 < room \<longrightarrow> produced \<noteq> [])))))"

text \<open>A finishing \<open>inflate\<close> with room for the whole text recovers it from the compressed stream.\<close>

definition inflates :: "'z zlib \<Rightarrow> ('z \<Rightarrow> bytes \<Rightarrow> bytes \<Rightarrow> bool) \<Rightarrow> (bytes \<Rightarrow> bytes) \<Rightarrow> bool" where
  "inflates zl R deflate \<longleftrightarrow>
     (\<forall>z plain. R (zl_reset zl z) (deflate plain) plain) \<and>
     (\<forall>z input rest room. R z input rest \<longrightarrow> length rest \<le> room \<longrightarrow> (case zl_step zl z input room of
         (Inl _, _) \<Rightarrow> False
       | (Inr (stream_end, consumed, produced), z') \<Rightarrow>
           consumed \<le> length input \<and> length produced \<le> room \<and>
           (\<exists>rest'. rest = produced @ rest' \<and>
             (if stream_end then rest' = []
              else R z' (drop consumed input) rest' \<and> produced \<noteq> []))))"

text \<open>\<open>Vec::reserve\<close> gives at least the room asked for and never shrinks.\<close>

definition reserves :: "(usize \<Rightarrow> usize \<Rightarrow> usize \<Rightarrow> usize) \<Rightarrow> bool" where
  "reserves reserve \<longleftrightarrow> (\<forall>cap len additional. cap \<le> reserve cap len additional \<and>
     len + additional \<le> reserve cap len additional)"

section \<open>Ciphers and chunks\<close>

lemma crypt_append:
  "crypt step c (xs @ ys) =
     (case crypt step c xs of (xs', c') \<Rightarrow> case crypt step c' ys of (ys', c'') \<Rightarrow> (xs' @ ys', c''))"
  by (induction xs arbitrary: c) (auto split: prod.splits)

lemma length_crypt: "length (fst (crypt step c bs)) = length bs"
  by (induction bs arbitrary: c) (auto split: prod.splits, metis fst_conv)

lemma crypt_pair:
  assumes "cipher_pair enc_step dec_step sync"
  shows "sync c d \<Longrightarrow> \<exists>d'. crypt dec_step d (fst (crypt enc_step c bs)) = (bs, d') \<and>
    sync (snd (crypt enc_step c bs)) d'"
proof (induction bs arbitrary: c d)
  case (Cons b bs)
  obtain x c1 where x: "enc_step c b = (x, c1)" by fastforce
  obtain y d1 where y: "dec_step d x = (y, d1)" by fastforce
  from assms Cons.prems x y have s: "y = b" "sync c1 d1"
    unfolding cipher_pair_def by (metis (mono_tags, lifting) case_prod_conv)+
  from Cons.IH [OF s(2)] x y s(1) show ?case by (auto split: prod.splits)
qed simp

lemma feed_append: "feed step (xs @ ys) d = feed step ys (feed step xs d)"
  by (auto simp: feed_def crypt_append split: option.splits prod.splits)

lemma feed_Nil: "feed step [] d = d"
  by (simp add: feed_def split: option.splits)

lemma feed_chunks: "fold (feed step) chunks d = feed step (concat chunks) d"
  by (induction chunks arbitrary: d) (simp_all add: feed_append feed_Nil)

section \<open>Compression\<close>

lemma deflates_step:
  assumes "deflates zl R deflate" "R z input rest"
  obtains fin consumed produced z' rest' where
    "zl_step zl z input room = (Inr (fin, consumed, produced), z')"
    "consumed \<le> length input" "length produced \<le> room" "rest = produced @ rest'"
    "if fin then rest' = [] else R z' (drop consumed input) rest' \<and> (0 < room \<longrightarrow> produced \<noteq> [])"
proof -
  obtain o1 z' where o1: "zl_step zl z input room = (o1, z')" by fastforce
  note h = assms(1) [unfolded deflates_def, THEN conjunct2, rule_format, OF assms(2), of room, unfolded o1]
  from h obtain fin consumed produced where "o1 = Inr (fin, consumed, produced)"
    by (cases o1) (auto split: prod.splits)
  with h o1 that show thesis by auto
qed

lemma inflates_step:
  assumes "inflates zl R deflate" "R z input rest" "length rest \<le> room"
  obtains fin consumed produced z' rest' where
    "zl_step zl z input room = (Inr (fin, consumed, produced), z')"
    "consumed \<le> length input" "length produced \<le> room" "rest = produced @ rest'"
    "if fin then rest' = [] else R z' (drop consumed input) rest' \<and> produced \<noteq> []"
proof -
  obtain o1 z' where o1: "zl_step zl z input room = (o1, z')" by fastforce
  note h = assms(1) [unfolded inflates_def, THEN conjunct2, rule_format, OF assms(2,3), unfolded o1]
  from h obtain fin consumed produced where "o1 = Inr (fin, consumed, produced)"
    by (cases o1) (auto split: prod.splits)
  with h o1 that show thesis by auto
qed

lemma compress_loop_eq:
  assumes z: "deflates zl R deflate" and r: "reserves reserve"
  shows "R z (drop total_in input) rest \<Longrightarrow> total_in \<le> length input \<Longrightarrow> length out \<le> cap \<Longrightarrow>
    \<exists>z' cap'. compress_loop (zl_step zl) reserve input z total_in out cap = Some (Inr (), z', out @ rest, cap')"
proof (induction "2 * length rest + (if cap \<le> length out then 1 else 0)" arbitrary: z total_in out cap rest
    rule: less_induct)
  case less
  let ?room = "cap - length out"
  obtain fin consumed produced z' rest' where
    s: "zl_step zl z (drop total_in input) ?room = (Inr (fin, consumed, produced), z')"
      "consumed \<le> length (drop total_in input)" "length produced \<le> ?room" "rest = produced @ rest'"
      "if fin then rest' = [] else R z' (drop consumed (drop total_in input)) rest' \<and> (0 < ?room \<longrightarrow> produced \<noteq> [])"
    by (rule deflates_step [OF z less.prems(1)])
  show ?case
  proof (cases fin)
    case True
    with s less.prems show ?thesis by (subst compress_loop.simps) (simp add: Let_def)
  next
    case False
    let ?out = "out @ produced"
    let ?cap = "if length ?out = length out then reserve cap (length ?out) (max cap 64) else cap"
    have cap: "length ?out \<le> ?cap" "produced = [] \<longrightarrow> length ?out < ?cap"
      using s(3) less.prems(3) r unfolding reserves_def
      by (auto intro: order_trans [of _ "length out + max cap 64"] less_le_trans [of _ "length out + max cap 64"])
    have "\<exists>z'' cap'. compress_loop (zl_step zl) reserve input z' (total_in + consumed) ?out ?cap =
        Some (Inr (), z'', ?out @ rest', cap')"
    proof (rule less.hyps)
      have "produced = [] \<longrightarrow> cap \<le> length out" using s(5) False by auto
      then show "2 * length rest' + (if ?cap \<le> length ?out then 1 else 0) <
          2 * length rest + (if cap \<le> length out then 1 else 0)"
        using cap(2) s(4) by (cases produced) auto
      show "R z' (drop (total_in + consumed) input) rest'" using s(5) False by (simp add: add.commute)
      show "total_in + consumed \<le> length input" using s(2) less.prems(2) by simp
    qed (rule cap(1))
    then show ?thesis using s(1,3,4) less.prems(2) False
      by (subst compress_loop.simps) (cases "produced = []"; simp add: Let_def)
  qed
qed

lemma compress_into_eq:
  assumes "deflates zl R deflate" "reserves reserve"
  shows "\<exists>z' cap'. compress_into zl reserve z input cap = Some (Inr (), z', deflate input, cap')"
  using compress_loop_eq [OF assms, of "zl_reset zl z" 0 input "deflate input" "[]"] assms(1)
  by (simp add: compress_into_def deflates_def)

lemma decompress_loop_eq:
  assumes z: "inflates zl R deflate"
  shows "R z (drop total_in input) rest \<Longrightarrow> total_in \<le> length input \<Longrightarrow> length out + length rest \<le> expected \<Longrightarrow>
    \<exists>z'. decompress_loop (zl_step zl) input expected z total_in out = (Inr (out @ rest), z')"
proof (induction "length rest" arbitrary: z total_in out rest rule: less_induct)
  case less
  let ?room = "expected - length out"
  have room: "length rest \<le> ?room" using less.prems(3) by linarith
  obtain fin consumed produced z' rest' where
    s: "zl_step zl z (drop total_in input) ?room = (Inr (fin, consumed, produced), z')"
      "consumed \<le> length (drop total_in input)" "length produced \<le> ?room" "rest = produced @ rest'"
      "if fin then rest' = [] else R z' (drop consumed (drop total_in input)) rest' \<and> produced \<noteq> []"
    by (rule inflates_step [OF z less.prems(1) room])
  show ?case
  proof (cases fin)
    case True
    with s less.prems show ?thesis by (subst decompress_loop.simps) (simp add: Let_def)
  next
    case False
    have "\<exists>z''. decompress_loop (zl_step zl) input expected z' (total_in + consumed) (out @ produced) =
        (Inr ((out @ produced) @ rest'), z'')"
    proof (rule less.hyps)
      show "length rest' < length rest" using s(4,5) False by (cases produced) auto
      show "R z' (drop (total_in + consumed) input) rest'" using s(5) False by (simp add: add.commute)
      show "total_in + consumed \<le> length input" using s(2) less.prems(2) by simp
      show "length (out @ produced) + length rest' \<le> expected" using s(4) less.prems(3) by simp
    qed
    moreover have "produced \<noteq> []" using s(5) False by simp
    ultimately show ?thesis using s(1,3,4) less.prems(2) False
      by (subst decompress_loop.simps) (simp add: Let_def)
  qed
qed

lemma decompress_exact_eq:
  assumes "inflates zl R deflate"
  shows "\<exists>z'. decompress_exact zl z (deflate plain) (length plain) = (Inr plain, z')"
  using decompress_loop_eq [OF assms, of "zl_reset zl z" 0 "deflate plain" plain "[]" "length plain"] assms
  by (auto simp: decompress_exact_def inflates_def)

lemma decompress_exact_length: "decompress_exact zl z input expected = (Inr out, z') \<Longrightarrow> length out = expected"
  by (auto simp: decompress_exact_def split: prod.splits sum.splits if_splits)

section \<open>Frames\<close>

text \<open>
  \<open>frame_of zl negotiated limit packet frame\<close>: a decoder with compression \<open>negotiated\<close> and frame limit \<open>limit\<close> that
  has \<open>frame\<close> at the front of its buffer pops exactly \<open>packet\<close> and leaves what follows.
\<close>

definition frame_of :: "'z zlib \<Rightarrow> usize option \<Rightarrow> usize \<Rightarrow> bytes \<Rightarrow> bytes \<Rightarrow> ('d, 'z) decoder itself \<Rightarrow> bool" where
  "frame_of zl negotiated limit packet frame _ \<longleftrightarrow> (\<forall>(d :: ('d, 'z) decoder) rest.
     dec_compression d = negotiated \<longrightarrow> dec_max_frame d = limit \<longrightarrow> dec_buffer d = frame @ rest \<longrightarrow>
     (\<exists>z. decode zl d = (Inr (Some packet), d\<lparr>dec_buffer := rest, dec_decompressor := z\<rparr>)))"

lemma decode_whole:
  assumes "length body \<le> dec_max_frame d" "dec_max_frame d < 2 ^ 31"
    and "dec_buffer d = (write_varint (word_of_nat (length body)) @ body) @ rest"
  shows "decode zl d = decode_frame zl body (d\<lparr>dec_buffer := rest\<rparr>)"
proof -
  let ?l = "word_of_nat (length body) :: i32"
  have n: "unat ?l = length body" "\<not> ?l <s 0" using length_word [of "length body"] assms(1,2) by simp_all
  have "read_varint (dec_buffer d) = Inr (?l, varint_len ?l)"
    using read_varint_write_varint [of ?l "body @ rest"] assms(3) by simp
  moreover have "drop (varint_len ?l) (dec_buffer d) = body @ rest"
    using assms(3) by (simp add: varint_len_eq)
  moreover have "length (dec_buffer d) = varint_len ?l + length body + length rest"
    using assms(3) by (simp add: varint_len_eq)
  ultimately show ?thesis using n assms(1) by (simp add: decode_def Let_def)
qed

lemma frame_plain:
  fixes d :: "('d, 'z) decoder itself"
  assumes "length packet \<le> limit" "limit < 2 ^ 31"
  shows "frame_of zl None limit packet (write_varint (word_of_nat (length packet)) @ packet) d"
  unfolding frame_of_def
proof (intro allI impI)
  fix d :: "('d, 'z) decoder" and rest
  assume "dec_compression d = None" "dec_max_frame d = limit"
    "dec_buffer d = (write_varint (word_of_nat (length packet)) @ packet) @ rest"
  with decode_whole [of packet d rest zl] assms
  show "\<exists>z. decode zl d = (Inr (Some packet), d\<lparr>dec_buffer := rest, dec_decompressor := z\<rparr>)"
    by (intro exI [of _ "dec_decompressor d"]) (simp add: decode_frame_def)
qed

lemma frame_below:
  fixes d :: "('d, 'z) decoder itself"
  assumes "length packet < limit" "limit < 2 ^ 31"
  shows "frame_of zl (Some threshold) limit packet
    (write_varint (word_of_nat (1 + length packet)) @ write_varint 0 @ packet) d"
  unfolding frame_of_def
proof (intro allI impI)
  fix d :: "('d, 'z) decoder" and rest
  assume d: "dec_compression d = Some threshold" "dec_max_frame d = limit"
    "dec_buffer d = (write_varint (word_of_nat (1 + length packet)) @ write_varint 0 @ packet) @ rest"
  have z: "length (write_varint 0) = 1" by (simp add: write_varint_def write_leb_last)
  let ?body = "write_varint 0 @ packet"
  have "decode zl d = decode_frame zl ?body (d\<lparr>dec_buffer := rest\<rparr>)"
    using d assms z by (intro decode_whole) (simp_all add: Suc_le_eq)
  moreover have "read_varint ?body = Inr (0, 1)" using read_varint_write_varint [of 0 packet] z
    by (simp add: varint_len_eq)
  ultimately show "\<exists>z. decode zl d = (Inr (Some packet), d\<lparr>dec_buffer := rest, dec_decompressor := z\<rparr>)"
    using d(1) z by (intro exI [of _ "dec_decompressor d"]) (simp add: decode_frame_def)
qed

lemma frame_compressed:
  fixes d :: "('d, 'z) decoder itself"
  assumes inf: "inflates zl R deflate" and p: "packet \<noteq> []" "threshold \<le> length packet" "length packet \<le> limit"
    and limit: "limit < 2 ^ 31"
    and f: "varint_len (word_of_nat (length packet)) + length (deflate packet) \<le> limit"
  shows "frame_of zl (Some threshold) limit packet
    (write_varint (word_of_nat (varint_len (word_of_nat (length packet)) + length (deflate packet))) @
      write_varint (word_of_nat (length packet)) @ deflate packet) d"
  unfolding frame_of_def
proof (intro allI impI)
  fix d :: "('d, 'z) decoder" and rest
  let ?n = "word_of_nat (length packet) :: i32"
  let ?body = "write_varint ?n @ deflate packet"
  assume d: "dec_compression d = Some threshold" "dec_max_frame d = limit"
    "dec_buffer d = (write_varint (word_of_nat (varint_len ?n + length (deflate packet))) @ ?body) @ rest"
  have n: "unat ?n = length packet" "\<not> ?n <s 0" using length_word [of "length packet"] p(3) limit by simp_all
  have nz: "?n \<noteq> 0" using n(1) p(1) by auto
  have "length ?body = varint_len ?n + length (deflate packet)" by (simp add: varint_len_eq)
  then have "decode zl d = decode_frame zl ?body (d\<lparr>dec_buffer := rest\<rparr>)"
    using d f limit by (intro decode_whole) simp_all
  moreover have "read_varint ?body = Inr (?n, varint_len ?n)" by (rule read_varint_write_varint)
  moreover have "drop (varint_len ?n) ?body = deflate packet" by (simp add: varint_len_eq)
  moreover obtain z where "decompress_exact zl (dec_decompressor d) (deflate packet) (length packet) = (Inr packet, z)"
    using decompress_exact_eq [OF inf] by blast
  ultimately show "\<exists>z. decode zl d = (Inr (Some packet), d\<lparr>dec_buffer := rest, dec_decompressor := z\<rparr>)"
    using d(1,2) n nz p(2,3) by (intro exI [of _ z]) (simp add: decode_frame_def Let_def)
qed

lemma encode_frame_ok:
  fixes d :: "('d, 'y) decoder itself"
  assumes def: "deflates zl R deflate" and inf: "inflates zly S deflate" and res: "reserves reserve"
    and p: "packet \<noteq> []" "length packet < limit" and limit: "enc_max_frame e \<le> limit" "limit < 2 ^ 31"
  shows "\<exists>result e'. encode_frame zl reserve packet e = Some (result, e') \<and>
    enc_compression e' = enc_compression e \<and> enc_encryptor e' = enc_encryptor e \<and>
    enc_max_frame e' = enc_max_frame e \<and>
    (\<forall>frame. result = Inr frame \<longrightarrow> frame_of zly (enc_compression e) limit packet frame d)"
proof (cases "enc_compression e")
  case None
  then show ?thesis using frame_plain [of packet limit zly d] p limit by (simp add: encode_frame_def)
next
  case (Some threshold)
  show ?thesis
  proof (cases "length packet < threshold")
    case True
    with Some show ?thesis using frame_below [of packet limit zly threshold d] p limit
      by (simp add: encode_frame_def)
  next
    case False
    obtain z' cap where c: "compress_into zl reserve (enc_compressor e) packet (enc_scratch_cap e) =
        Some (Inr (), z', deflate packet, cap)"
      using compress_into_eq [OF def res] by blast
    show ?thesis
    proof (cases "enc_max_frame e < varint_len (word_of_nat (length packet)) + length (deflate packet)")
      case True
      then show ?thesis using Some False c by (simp add: encode_frame_def Let_def)
    next
      case small: False
      then have f: "varint_len (word_of_nat (length packet)) + length (deflate packet) \<le> limit"
        using limit(1) by linarith
      have "length packet \<le> limit" "threshold \<le> length packet" using p(2) False by simp_all
      from frame_compressed [OF inf p(1) this(2,1) limit(2) f, of d] Some False c small
      show ?thesis by (simp add: encode_frame_def Let_def)
    qed
  qed
qed

section \<open>Streams of packets\<close>

text \<open>Encoding several packets in a row.\<close>

fun send_all ::
  "('c \<Rightarrow> u8 \<Rightarrow> u8 \<times> 'c) \<Rightarrow> 'z zlib \<Rightarrow> (usize \<Rightarrow> usize \<Rightarrow> usize \<Rightarrow> usize) \<Rightarrow> bytes list \<Rightarrow> bytes \<Rightarrow>
    ('c, 'z) encoder \<Rightarrow> (unit presult \<times> bytes \<times> ('c, 'z) encoder) option" where
  "send_all enc_step zl reserve [] out e = Some (Inr (), out, e)"
| "send_all enc_step zl reserve (p # ps) out e = (case encode enc_step zl reserve p out e of
      None \<Rightarrow> None
    | Some (Inl err, out', e') \<Rightarrow> Some (Inl err, out', e')
    | Some (Inr _, out', e') \<Rightarrow> send_all enc_step zl reserve ps out' e')"

text \<open>An encoder and the decoder at the other end of the stream have the same features switched on.\<close>

definition matched :: "('c \<Rightarrow> 'd \<Rightarrow> bool) \<Rightarrow> ('c, 'z) encoder \<Rightarrow> ('d, 'y) decoder \<Rightarrow> bool" where
  "matched sync e d \<longleftrightarrow> enc_compression e = dec_compression d \<and> enc_max_frame e \<le> dec_max_frame d \<and>
     dec_max_frame d < 2 ^ 31 \<and>
     (case (enc_encryptor e, dec_decryptor d) of
        (None, None) \<Rightarrow> True
      | (Some c, Some c') \<Rightarrow> sync c c'
      | _ \<Rightarrow> False)"

text \<open>The stream cipher of one direction, if it is switched on.\<close>

definition crypt_opt :: "('c \<Rightarrow> u8 \<Rightarrow> u8 \<times> 'c) \<Rightarrow> 'c option \<Rightarrow> bytes \<Rightarrow> bytes \<times> 'c option" where
  "crypt_opt step c bs = (case c of
      None \<Rightarrow> (bs, None)
    | Some c \<Rightarrow> (case crypt step c bs of (bs', c') \<Rightarrow> (bs', Some c')))"

lemma crypt_opt_append:
  "crypt_opt step c (xs @ ys) =
     (case crypt_opt step c xs of (xs', c') \<Rightarrow> case crypt_opt step c' ys of (ys', c'') \<Rightarrow> (xs' @ ys', c''))"
  by (auto simp: crypt_opt_def crypt_append split: option.splits prod.splits)

lemma crypt_opt_Nil [simp]: "crypt_opt step c [] = ([], c)"
  by (simp add: crypt_opt_def split: option.splits)

lemma crypt_opt_pair:
  assumes "cipher_pair enc_step dec_step sync"
    and "case (c, d) of (None, None) \<Rightarrow> True | (Some c, Some d) \<Rightarrow> sync c d | _ \<Rightarrow> False"
  shows "\<exists>d'. crypt_opt dec_step d (fst (crypt_opt enc_step c bs)) = (bs, d') \<and>
    (case (snd (crypt_opt enc_step c bs), d') of
       (None, None) \<Rightarrow> True | (Some c, Some d) \<Rightarrow> sync c d | _ \<Rightarrow> False)"
proof (cases c)
  case None
  with assms(2) show ?thesis by (simp add: crypt_opt_def split: option.splits)
next
  case (Some k)
  with assms(2) obtain l where l: "d = Some l" "sync k l" by (auto split: option.splits)
  obtain l' where "crypt dec_step l (fst (crypt enc_step k bs)) = (bs, l')" "sync (snd (crypt enc_step k bs)) l'"
    using crypt_pair [OF assms(1) l(2)] by blast
  with Some l show ?thesis by (auto simp: crypt_opt_def split: prod.splits)
qed

lemma encode_crypt_opt:
  "encode enc_step zl reserve packet out e =
     map_option (\<lambda>(result, e'). case result of
         Inl err \<Rightarrow> (Inl err, out, e')
       | Inr frame \<Rightarrow> (case crypt_opt enc_step (enc_encryptor e') frame of (frame', c') \<Rightarrow>
           (Inr (), out @ frame', e'\<lparr>enc_encryptor := c'\<rparr>)))
       (encode_frame zl reserve packet e)"
  by (auto simp: encode_def crypt_opt_def intro!: option.map_cong split: sum.splits option.splits prod.splits)

lemma feed_crypt_opt:
  "feed step data d = (case crypt_opt step (dec_decryptor d) data of (data', c') \<Rightarrow>
     d\<lparr>dec_decryptor := c', dec_buffer := dec_buffer d @ data'\<rparr>)"
  by (auto simp: feed_def crypt_opt_def split: option.splits prod.splits)

lemma read_varint_extend:
  "read_varint xs \<noteq> Inl (UnexpectedEof 1 0) \<Longrightarrow> read_varint (xs @ ys) = read_varint xs"
proof (cases rule: read_varint_cases [of xs])
  case too_long
  then have "read_varint (xs @ ys) = read_varint xs"
    by (simp add: read_varint_def MAX_VARINT_BYTES_def split: option.splits if_splits)
  then show ?thesis .
qed (simp_all add: read_varint_mono)

lemma decode_frame_buffer:
  "decode_frame zl frame (d\<lparr>dec_buffer := b, dec_decryptor := c\<rparr>) =
     apsnd (\<lambda>d. d\<lparr>dec_buffer := b, dec_decryptor := c\<rparr>) (decode_frame zl frame d)"
  by (simp add: decode_frame_def Let_def split: option.splits sum.splits prod.splits)

lemma decode_frame_keeps:
  "decode_frame zl frame d = (r, d') \<Longrightarrow> r \<noteq> Inr None \<and> (\<exists>z. d' = d\<lparr>dec_decompressor := z\<rparr>)"
  by (auto simp: decode_frame_def Let_def split: option.splits sum.splits prod.splits if_splits
    intro: exI [of _ "dec_decompressor d"])

lemma decode_frame_bounds:
  assumes "decode_frame zl frame d = (Inr (Some p), d')" "length frame \<le> dec_max_frame d"
  shows "length p \<le> dec_max_frame d"
  using assms decompress_exact_length
  by (fastforce simp: decode_frame_def Let_def split: option.splits sum.splits prod.splits if_splits)

text \<open>A popped packet takes at least its length prefix off the buffer.\<close>

lemma decode_consumes:
  assumes "decode zl d = (Inr (Some p), d')"
  shows "length (dec_buffer d') < length (dec_buffer d)"
proof (cases rule: read_varint_cases [of "dec_buffer d"])
  case (complete v n)
  with assms show ?thesis
    by (auto simp: decode_def Let_def split: if_splits dest!: decode_frame_keeps)
next
  case eof
  with assms show ?thesis by (simp add: decode_def)
next
  case too_long
  with assms show ?thesis by (simp add: decode_def)
qed

text \<open>Popping packets until more bytes are needed, or the stream is found to be broken.\<close>

function drain :: "'z zlib \<Rightarrow> ('d, 'z) decoder \<Rightarrow> bytes list \<times> protocol_error option \<times> ('d, 'z) decoder" where
  "drain zl d = (case decode zl d of
      (Inl e, d') \<Rightarrow> ([], Some e, d')
    | (Inr None, d') \<Rightarrow> ([], None, d')
    | (Inr (Some p), d') \<Rightarrow> (case drain zl d' of (ps, e, d'') \<Rightarrow> (p # ps, e, d'')))"
  by pat_completeness auto
termination
  by (relation "measure (\<lambda>(_, d). length (dec_buffer d))") (auto dest: decode_consumes [OF sym])

declare drain.simps [simp del]

text \<open>The reading side of a connection: feed what one read of the socket gave, pop all packets, repeat.\<close>

fun pump ::
  "('d \<Rightarrow> u8 \<Rightarrow> u8 \<times> 'd) \<Rightarrow> 'z zlib \<Rightarrow> bytes list \<Rightarrow> ('d, 'z) decoder \<Rightarrow>
    bytes list \<times> protocol_error option \<times> ('d, 'z) decoder" where
  "pump dec_step zl [] d = ([], None, d)"
| "pump dec_step zl (chunk # chunks) d = (case drain zl (feed dec_step chunk d) of
      (ps, Some e, d') \<Rightarrow> (ps, Some e, d')
    | (ps, None, d') \<Rightarrow> (case pump dec_step zl chunks d' of (qs, e, d'') \<Rightarrow> (ps @ qs, e, d'')))"

text \<open>Bytes that arrive later do not change what the decoder has already made of the earlier ones.\<close>

lemma decode_feed:
  assumes r: "decode zl d = (r, d')" "r \<noteq> Inr None"
  shows "decode zl (feed step later d) = (r, feed step later d')"
proof -
  obtain data' c' where c: "crypt_opt step (dec_decryptor d) later = (data', c')" by fastforce
  let ?d = "d\<lparr>dec_decryptor := c', dec_buffer := dec_buffer d @ data'\<rparr>"
  have f: "feed step later d = ?d" using c by (simp add: feed_crypt_opt)
  have x: "read_varint (dec_buffer d @ data') = read_varint (dec_buffer d)"
    using r by (intro read_varint_extend) (auto simp: decode_def)
  show ?thesis
  proof (cases rule: read_varint_cases [of "dec_buffer d"])
    case (complete v n)
    let ?k = "unat v"
    let ?frame = "take ?k (drop n (dec_buffer d))"
    let ?rest = "drop ?k (drop n (dec_buffer d))"
    show ?thesis
    proof (cases "v <s 0 \<or> dec_max_frame d < ?k")
      case True
      with r x complete(1) c f show ?thesis
        by (auto simp: decode_def Let_def feed_crypt_opt split: if_splits)
    next
      case False
      then have len: "n + ?k \<le> length (dec_buffer d)"
        using r complete(1) by (auto simp: decode_def Let_def split: if_splits)
      then have w: "decode zl d = decode_frame zl ?frame (d\<lparr>dec_buffer := ?rest\<rparr>)"
        "decode zl ?d = decode_frame zl ?frame (?d\<lparr>dec_buffer := ?rest @ data'\<rparr>)"
        using False complete(1) x by (simp_all add: decode_def Let_def)
      obtain z where d': "d' = d\<lparr>dec_buffer := ?rest, dec_decompressor := z\<rparr>"
        using decode_frame_keeps [OF w(1) [symmetric, unfolded r(1)]] by auto
      have "?d\<lparr>dec_buffer := ?rest @ data'\<rparr> =
          (d\<lparr>dec_buffer := ?rest\<rparr>)\<lparr>dec_buffer := ?rest @ data', dec_decryptor := c'\<rparr>" by simp
      then have "decode zl ?d = (r, d'\<lparr>dec_buffer := ?rest @ data', dec_decryptor := c'\<rparr>)"
        using w(2) by (simp only: decode_frame_buffer w(1) [symmetric, unfolded r(1)] apsnd_conv)
      with f d' c show ?thesis by (simp add: feed_crypt_opt)
    qed
  qed (use r x c f in \<open>simp_all add: decode_def feed_crypt_opt\<close>)
qed

lemma decode_more: "decode zl d = (Inr None, d') \<Longrightarrow> d' = d"
  by (auto simp: decode_def Let_def split: sum.splits protocol_error.splits prod.splits if_splits
    dest!: decode_frame_keeps)

lemma send_all_frames:
  fixes d :: "('d, 'y) decoder itself"
  assumes z: "deflates zl R deflate" "inflates zly S deflate" "reserves reserve"
    and limit: "limit < 2 ^ 31"
  shows "\<lbrakk>send_all enc_step zl reserve packets out e = Some (Inr (), wire, e'); enc_max_frame e \<le> limit;
    \<forall>p\<in>set packets. p \<noteq> [] \<and> length p < limit\<rbrakk> \<Longrightarrow>
    \<exists>frames. list_all2 (\<lambda>p f. frame_of zly (enc_compression e) limit p f d) packets frames \<and>
      enc_compression e' = enc_compression e \<and> enc_max_frame e' = enc_max_frame e \<and>
      wire = out @ fst (crypt_opt enc_step (enc_encryptor e) (concat frames)) \<and>
      enc_encryptor e' = snd (crypt_opt enc_step (enc_encryptor e) (concat frames))"
proof (induction packets arbitrary: out e)
  case (Cons p ps)
  obtain result e1 where f: "encode_frame zl reserve p e = Some (result, e1)"
    and e1: "enc_compression e1 = enc_compression e" "enc_encryptor e1 = enc_encryptor e"
      "enc_max_frame e1 = enc_max_frame e"
    and fo: "\<forall>frame. result = Inr frame \<longrightarrow> frame_of zly (enc_compression e) limit p frame d"
    using encode_frame_ok [OF z, of p limit e d] Cons.prems(2,3) limit by auto
  obtain frame where r: "result = Inr frame"
    using Cons.prems(1) f by (cases result) (simp_all add: encode_def)
  obtain frame' c' where c: "crypt_opt enc_step (enc_encryptor e) frame = (frame', c')" by fastforce
  let ?e = "e1\<lparr>enc_encryptor := c'\<rparr>"
  have "send_all enc_step zl reserve ps (out @ frame') ?e = Some (Inr (), wire, e')"
    using Cons.prems(1) f r c e1(2) by (simp add: encode_crypt_opt)
  from Cons.IH [OF this] Cons.prems(2,3) e1 obtain frames where
    i: "list_all2 (\<lambda>p f. frame_of zly (enc_compression e) limit p f d) ps frames"
      "enc_compression e' = enc_compression e" "enc_max_frame e' = enc_max_frame e"
      "wire = (out @ frame') @ fst (crypt_opt enc_step c' (concat frames))"
      "enc_encryptor e' = snd (crypt_opt enc_step c' (concat frames))" by auto
  with fo r c show ?case
    by (intro exI [of _ "frame # frames"]) (simp add: crypt_opt_append split: prod.splits)
qed (auto intro: exI [of _ "[]"])

lemma drain_feed:
  "drain zl d = (ps, e, d') \<Longrightarrow>
     (case e of
        Some _ \<Rightarrow> \<exists>d''. drain zl (feed step later d) = (ps, e, d'')
      | None \<Rightarrow> drain zl (feed step later d) =
          (case drain zl (feed step later d') of (qs, e, d'') \<Rightarrow> (ps @ qs, e, d'')))"
proof (induction zl d arbitrary: ps rule: drain.induct)
  case (1 zl d)
  obtain r d1 where r: "decode zl d = (r, d1)" by fastforce
  show ?case
  proof (cases "r = Inr None")
    case True
    with 1(2) r decode_more [of zl d d1] show ?thesis by (simp add: drain.simps [of zl d] split: prod.splits)
  next
    case nn: False
    note f = decode_feed [OF r nn, of step later]
    show ?thesis
    proof (cases r)
      case (Inl err)
      with 1(2) r f show ?thesis by (subst drain.simps) (auto simp: drain.simps [of zl d])
    next
      case (Inr x)
      with nn obtain p where p: "r = Inr (Some p)" by auto
      obtain qs e1 d2 where q: "drain zl d1 = (qs, e1, d2)" by (cases "drain zl d1")
      with 1(2) r p have e: "ps = p # qs" "e1 = e" "d2 = d'" by (simp_all add: drain.simps [of zl d])
      have s: "drain zl (feed step later d) =
          (case drain zl (feed step later d1) of (ps, e, d'') \<Rightarrow> (p # ps, e, d''))"
        using f p by (subst drain.simps) simp
      from 1(1) [OF r [symmetric] p refl, of qs] r p q e
      show ?thesis unfolding s by (auto split: option.splits prod.splits)
    qed
  qed
qed

lemma drain_frames:
  fixes d :: "('d, 'z) decoder"
  shows "list_all2 (\<lambda>p f. frame_of zl k limit p f TYPE(('d, 'z) decoder)) packets frames \<Longrightarrow>
    dec_compression d = k \<Longrightarrow> dec_max_frame d = limit \<Longrightarrow> dec_buffer d = concat frames \<Longrightarrow>
    \<exists>z. drain zl d = (packets, None, d\<lparr>dec_buffer := [], dec_decompressor := z\<rparr>)"
proof (induction packets frames arbitrary: d rule: list_all2_induct)
  case Nil
  then have "decode zl d = (Inr None, d)" by (simp add: decode_def read_varint_def MAX_VARINT_BYTES_def)
  then show ?case using Nil by (subst drain.simps) (auto intro: exI [of _ "dec_decompressor d"])
next
  case (Cons p ps f fs)
  obtain z where z: "decode zl d = (Inr (Some p), d\<lparr>dec_buffer := concat fs, dec_decompressor := z\<rparr>)"
    using Cons.hyps(1) [unfolded frame_of_def, THEN spec, THEN spec, of d "concat fs"] Cons.prems by auto
  let ?d = "d\<lparr>dec_buffer := concat fs, dec_decompressor := z\<rparr>"
  obtain z' where "drain zl ?d = (ps, None, ?d\<lparr>dec_buffer := [], dec_decompressor := z'\<rparr>)"
    using Cons.IH [of ?d] Cons.prems by auto
  with z show ?case by (subst drain.simps) auto
qed

lemma drain_stuck: "drain zl d = (ps, None, d') \<Longrightarrow> decode zl d' = (Inr None, d')"
proof (induction zl d arbitrary: ps rule: drain.induct)
  case (1 zl d)
  obtain r d1 where r: "decode zl d = (r, d1)" by fastforce
  show ?case
  proof (cases r)
    case (Inr x)
    show ?thesis
    proof (cases x)
      case None
      with 1(2) r Inr decode_more [of zl d d1] show ?thesis by (simp add: drain.simps [of zl d])
    next
      case (Some p)
      with 1(2) r Inr obtain qs where "drain zl d1 = (qs, None, d')"
        by (auto simp: drain.simps [of zl d] split: prod.splits)
      with 1(1) [OF r [symmetric] Inr Some] show ?thesis .
    qed
  qed (use 1(2) r in \<open>simp add: drain.simps [of zl d]\<close>)
qed

lemma pump_drain:
  "decode zl d = (Inr None, d) \<Longrightarrow> pump step zl chunks d = (ps, e, d') \<Longrightarrow>
     (\<exists>d''. drain zl (feed step (concat chunks) d) = (ps, e, d'') \<and> (e = None \<longrightarrow> d'' = d'))"
proof (induction chunks arbitrary: d ps)
  case Nil
  then show ?case by (subst drain.simps) (simp add: feed_Nil)
next
  case (Cons c cs)
  obtain qs e1 d1 where q: "drain zl (feed step c d) = (qs, e1, d1)" by (cases "drain zl (feed step c d)")
  note f = drain_feed [OF q, of step "concat cs"]
  show ?case
  proof (cases e1)
    case None
    obtain rs e2 d2 where p: "pump step zl cs d1 = (rs, e2, d2)" by (cases "pump step zl cs d1")
    with q None Cons.prems(2) have e: "ps = qs @ rs" "e2 = e" "d2 = d'" by simp_all
    from Cons.IH [OF drain_stuck [OF q [unfolded None]] p [unfolded e(2,3)]] q None f e show ?thesis by (auto simp: feed_append)
  next
    case (Some err)
    with q Cons.prems(2) f show ?thesis by (auto simp: feed_append)
  qed
qed

section \<open>A cipher and a compressor that keep the laws\<close>

text \<open>
  The laws can be met: a byte-wise cipher that feeds each enciphered byte back into its state, as cfb8
  does, and the stored format, which copies its input in as many calls as the room needs. They serve
  the concrete instances of the properties below.
\<close>

definition feedback_enc :: "u8 \<Rightarrow> u8 \<Rightarrow> u8 \<times> u8" where
  "feedback_enc s b = (let x = xor b (s + 1) in (x, x))"

definition feedback_dec :: "u8 \<Rightarrow> u8 \<Rightarrow> u8 \<times> u8" where
  "feedback_dec s x = (xor x (s + 1), x)"

lemma feedback_pair: "cipher_pair feedback_enc feedback_dec (=)"
  by (simp add: cipher_pair_def feedback_enc_def feedback_dec_def Let_def xor.assoc)

definition stored_step :: "unit zstep" where
  "stored_step z input room =
     (Inr (length input \<le> room, min room (length input), take room input), ())"

definition stored :: "unit zlib" where
  "stored = \<lparr>zl_reset = (\<lambda>z. z), zl_step = stored_step\<rparr>"

definition grow :: "usize \<Rightarrow> usize \<Rightarrow> usize \<Rightarrow> usize" where
  "grow cap len additional = max cap (len + additional)"

lemma stored_deflates: "deflates stored (\<lambda>_ input rest. rest = input) (\<lambda>bs. bs)"
  by (auto simp: deflates_def stored_def stored_step_def intro: exI [of _ "drop room input" for room input])

lemma stored_inflates: "inflates stored (\<lambda>_ input rest. rest = input) (\<lambda>bs. bs)"
  by (auto simp: inflates_def stored_def stored_step_def)

lemma grow_reserves: "reserves grow"
  by (simp add: reserves_def grow_def)

lemma encode_total:
  assumes "deflates zl R deflate" "reserves reserve"
  shows "\<exists>result out' e'. encode enc_step zl reserve packet out e = Some (result, out', e')"
proof -
  obtain z cap where "compress_into zl reserve (enc_compressor e) packet (enc_scratch_cap e) =
      Some (Inr (), z, deflate packet, cap)"
    using compress_into_eq [OF assms] by blast
  then have "encode enc_step zl reserve packet out e \<noteq> None"
    by (cases "enc_compression e") (simp_all add: encode_def encode_frame_def)
  then show ?thesis by (metis not_None_eq prod_cases3)
qed

section \<open>Properties\<close>

text \<open>
  C7: the decoder does not depend on how the socket cuts the stream: for any bytes whatever, in any
  chunks, feeding and popping chunk by chunk gives the same packets and the same error as feeding all
  bytes at once, and without an error ends in the same state.
\<close>

theorem decoder_ignores_chunking:
  assumes "decode zl d = (Inr None, d)" and "pump dec_step zl chunks d = (ps, e, d')"
  shows "\<exists>d''. drain zl (feed dec_step (concat chunks) d) = (ps, e, d'') \<and> (e = None \<longrightarrow> d'' = d')"
  using assms by (rule pump_drain)

lemma decoder_ignores_chunking_witness:
  "\<exists>d''. drain stored (feed feedback_dec [1, 7, 2, 8, 9] (decoder_new ())) = ([[7], [8, 9]], None, d'')"
proof -
  let ?d = "decoder_new () :: (u8, unit) decoder"
  have s: "decode stored ?d = (Inr None, ?d)"
    by (simp add: decoder_new_def decode_def read_varint_def MAX_VARINT_BYTES_def)
  have "pump feedback_dec stored [[1], [7, 2], [8, 9]] ?d = ([[7], [8, 9]], None, ?d)"
    by (simp add: decoder_new_def feed_def drain.simps decode_def read_varint_def MAX_VARINT_BYTES_def
        decode_frame_def MAX_FRAME_LEN_def word_sless_alt Let_def)
  from decoder_ignores_chunking [OF s this] show ?thesis by simp
qed

text \<open>
  C29: what the decoder hands on is never longer than the frame limit, whatever bytes it was fed; it
  takes at least one byte off the buffer for it, and while it waits for more bytes nothing changes.
\<close>

theorem decode_bounds:
  assumes "decode zl d = (r, d')"
  shows "dec_max_frame d' = dec_max_frame d \<and> dec_compression d' = dec_compression d \<and>
    dec_decryptor d' = dec_decryptor d \<and> suffix (dec_buffer d') (dec_buffer d) \<and>
    (case r of
       Inr (Some p) \<Rightarrow> length p \<le> dec_max_frame d \<and> buffered d' < buffered d
     | Inr None \<Rightarrow> d' = d
     | Inl _ \<Rightarrow> True)"
proof (cases rule: read_varint_cases [of "dec_buffer d"])
  case (complete v n)
  let ?k = "unat v"
  let ?frame = "take ?k (drop n (dec_buffer d))"
  let ?rest = "drop ?k (drop n (dec_buffer d))"
  show ?thesis
  proof (cases "v <s 0 \<or> dec_max_frame d < ?k \<or> length (dec_buffer d) < n + ?k")
    case True
    with assms complete(1) show ?thesis by (auto simp: decode_def Let_def split: if_splits)
  next
    case False
    then have w: "decode zl d = decode_frame zl ?frame (d\<lparr>dec_buffer := ?rest\<rparr>)"
      using complete(1) by (simp add: decode_def Let_def)
    obtain z where d': "d' = d\<lparr>dec_buffer := ?rest, dec_decompressor := z\<rparr>" and r: "r \<noteq> Inr None"
      using decode_frame_keeps [OF w [symmetric, unfolded assms]] by auto
    have "r = Inr (Some p) \<Longrightarrow> length p \<le> dec_max_frame d" for p
      using decode_frame_bounds [of zl ?frame "d\<lparr>dec_buffer := ?rest\<rparr>" p d'] w [symmetric, unfolded assms] False
      by (simp add: min_le_iff_disj)
    moreover have "r = Inr (Some p) \<Longrightarrow> buffered d' < buffered d" for p
      using assms decode_consumes [of zl d p d'] by (simp add: buffered_def)
    moreover have "suffix (dec_buffer d') (dec_buffer d)" using d' by (simp add: suffix_drop)
    ultimately show ?thesis using d' r by (simp split: sum.split option.split)
  qed
next
  case eof
  with assms have "r = Inr None" "d' = d" by (simp_all add: decode_def)
  then show ?thesis by simp
next
  case too_long
  with assms have "r = Inl (VarIntTooLong 5)" "d' = d" by (simp_all add: decode_def)
  then show ?thesis by simp
qed

lemma decode_bounds_witness:
  "buffered (snd (decode stored (feed feedback_dec [1, 7, 2] (decoder_new ())))) <
     buffered (feed feedback_dec [1, 7, 2] (decoder_new ()))"
proof -
  let ?d = "feed feedback_dec [1, 7, 2] (decoder_new ()) :: (u8, unit) decoder"
  have "decode stored ?d = (Inr (Some [7]), (decoder_new ())\<lparr>dec_buffer := [2]\<rparr>)"
    by (simp add: decoder_new_def feed_def decode_def read_varint_def MAX_VARINT_BYTES_def
        decode_frame_def MAX_FRAME_LEN_def word_sless_alt Let_def)
  from decode_bounds [OF this] show ?thesis by (simp add: \<open>decode stored ?d = _\<close>)
qed

text \<open>
  C6: a packet stream survives the wire. Take any sequence of packets that are not empty and shorter than the limit of the
  decoder. If the encoder accepts them, with or without compression and encryption, then feeding the bytes to a decoder at the same
  stage, in whatever chunks they arrive, gives exactly the packets, in order and without an error; the
  buffer is empty afterwards and both ends are at the same stage again.
\<close>

theorem codec_stream:
  fixes d :: "('d, 'y) decoder"
  assumes "cipher_pair enc_step dec_step sync" "deflates zl R deflate" "inflates zly S deflate" "reserves reserve"
    and "matched sync e d" "dec_buffer d = []"
    and "\<forall>p\<in>set packets. p \<noteq> [] \<and> length p < dec_max_frame d"
    and "send_all enc_step zl reserve packets [] e = Some (Inr (), wire, e')" "concat chunks = wire"
  shows "\<exists>d'. pump dec_step zly chunks d = (packets, None, d') \<and> dec_buffer d' = [] \<and> matched sync e' d'"
proof -
  let ?k = "enc_compression e" and ?limit = "dec_max_frame d"
  have m: "?k = dec_compression d" "enc_max_frame e \<le> ?limit" "?limit < 2 ^ 31"
    using assms(5) by (simp_all add: matched_def)
  obtain frames where f: "list_all2 (\<lambda>p f. frame_of zly ?k ?limit p f TYPE(('d, 'y) decoder)) packets frames"
    and e': "enc_compression e' = ?k" "enc_max_frame e' = enc_max_frame e"
      "wire = fst (crypt_opt enc_step (enc_encryptor e) (concat frames))"
      "enc_encryptor e' = snd (crypt_opt enc_step (enc_encryptor e) (concat frames))"
    using send_all_frames [OF assms(2,3,4) m(3) assms(8) m(2), of "TYPE(('d, 'y) decoder)"] assms(7) by auto
  obtain c' where c: "crypt_opt dec_step (dec_decryptor d) wire = (concat frames, c')"
    "case (enc_encryptor e', c') of (None, None) \<Rightarrow> True | (Some c, Some c') \<Rightarrow> sync c c' | _ \<Rightarrow> False"
    using crypt_opt_pair [OF assms(1), of "enc_encryptor e" "dec_decryptor d" "concat frames"] assms(5) e'(3,4)
    unfolding matched_def by auto
  let ?d = "feed dec_step wire d"
  have d: "?d = d\<lparr>dec_decryptor := c', dec_buffer := concat frames\<rparr>"
    using c(1) assms(6) by (simp add: feed_crypt_opt)
  then obtain z where z: "drain zly ?d = (packets, None, ?d\<lparr>dec_buffer := [], dec_decompressor := z\<rparr>)"
    using drain_frames [of zly ?k ?limit packets frames ?d] f m(1) by auto
  have "decode zly d = (Inr None, d)"
    using assms(6) by (simp add: decode_def read_varint_def MAX_VARINT_BYTES_def)
  moreover obtain ps err d' where p: "pump dec_step zly chunks d = (ps, err, d')"
    by (cases "pump dec_step zly chunks d")
  ultimately have "ps = packets" "err = None" "d' = ?d\<lparr>dec_buffer := [], dec_decompressor := z\<rparr>"
    using pump_drain [of zly d dec_step chunks ps err d'] z assms(9) by auto
  with p d c(2) m e' show ?thesis by (simp add: matched_def split: option.splits)
qed

lemma codec_stream_witness:
  "\<exists>d'. pump feedback_dec stored [[4, 5], [1, 6, 4, 13], [7, 2]]
      (dec_enable_encryption 5 (dec_enable_compression 2 (decoder_new ()))) =
    ([[7], [8, 9, 10]], None, d') \<and> dec_buffer d' = []"
proof -
  let ?e = "enc_enable_encryption 5 (enc_enable_compression 2 (encoder_new ())) :: (u8, unit) encoder"
  let ?d = "dec_enable_encryption 5 (dec_enable_compression 2 (decoder_new ())) :: (u8, unit) decoder"
  have m: "matched (=) ?e ?d"
    by (simp add: matched_def enc_enable_encryption_def enc_enable_compression_def encoder_new_def
        dec_enable_encryption_def dec_enable_compression_def decoder_new_def MAX_FRAME_LEN_def)
  have b: "dec_buffer ?d = []" "\<forall>p\<in>set [[7], [8, 9, 10]]. p \<noteq> [] \<and> length p < dec_max_frame ?d"
    by (simp_all add: dec_enable_encryption_def dec_enable_compression_def decoder_new_def MAX_FRAME_LEN_def)
  have s: "send_all feedback_enc stored grow [[7], [8, 9, 10]] [] ?e =
      Some (Inr (), [4, 5, 1, 6, 4, 13, 7, 2],
        ?e\<lparr>enc_encryptor := Some 2, enc_scratch := [8, 9, 10], enc_scratch_cap := 8192\<rparr>)"
    by (simp add: enc_enable_encryption_def enc_enable_compression_def encoder_new_def encode_def
        encode_frame_def MAX_FRAME_LEN_def write_varint_def write_leb_last feedback_enc_def Let_def
        compress_into_def stored_def compress_loop.simps stored_step_def grow_def varint_len_eq)
  from codec_stream [OF feedback_pair stored_deflates stored_inflates grow_reserves m b s,
      of "[[4, 5], [1, 6, 4, 13], [7, 2]]"]
  show ?thesis by simp blast
qed

text \<open>
  C30: encoding always returns, and it is settled which packets it refuses: without compression those longer than the
  limit; with compression those from the threshold on whose compressed body, with the length in front of it, is longer than the
  limit, and none below the threshold, however long. The bytes already in the output stay, and nothing is
  appended on an error.
\<close>

theorem encode_outcome:
  assumes "deflates zl R deflate" "reserves reserve"
  shows "\<exists>result out' e'. encode enc_step zl reserve packet out e = Some (result, out', e') \<and>
    enc_compression e' = enc_compression e \<and> enc_max_frame e' = enc_max_frame e \<and>
    (result = Inr () \<longleftrightarrow> (case enc_compression e of
        None \<Rightarrow> length packet \<le> enc_max_frame e
      | Some threshold \<Rightarrow> threshold \<le> length packet \<longrightarrow>
          varint_len (word_of_nat (length packet)) + length (deflate packet) \<le> enc_max_frame e)) \<and>
    prefix out out' \<and> (result \<noteq> Inr () \<longrightarrow> out' = out \<and> enc_is_encrypted e' = enc_is_encrypted e)"
proof -
  obtain z cap where c: "compress_into zl reserve (enc_compressor e) packet (enc_scratch_cap e) =
      Some (Inr (), z, deflate packet, cap)"
    using compress_into_eq [OF assms] by blast
  show ?thesis
    by (cases "enc_compression e"; cases "enc_encryptor e")
      (auto simp: encode_def encode_frame_def c Let_def enc_is_encrypted_def split: prod.splits)
qed

lemma encode_outcome_witness:
  "\<exists>out' e'. encode feedback_enc stored grow [7] [1, 2] (encoder_new ()) = Some (Inr (), out', e')"
proof -
  have "length [7 :: u8] \<le> enc_max_frame (encoder_new () :: (u8, unit) encoder)" "enc_compression (encoder_new () :: (u8, unit) encoder) = None"
    by (simp_all add: encoder_new_def MAX_FRAME_LEN_def)
  with encode_outcome [OF stored_deflates grow_reserves, of feedback_enc "[7]" "[1, 2]" "encoder_new ()"]
  show ?thesis by auto
qed

end
