(* ===== verification/Packet_Ids.thy ===== *)
theory Packet_Ids
  imports Wire
begin

text \<open>
  \<open>crates/rukkit-protocol/src/packets/ids.rs\<close>, \<open>version.rs\<close> and the connection states of \<open>lib.rs\<close>: the
  packet ids of every state and direction (\<open>sb\<close> is serverbound, \<open>cb\<close> clientbound), gathered in one
  table each, the version constants and the state names used in errors.
\<close>

section \<open>Packet ids\<close>

definition handshaking_sb_INTENTION :: i32 where "handshaking_sb_INTENTION = 0x00"
definition status_sb_STATUS_REQUEST :: i32 where "status_sb_STATUS_REQUEST = 0x00"
definition status_sb_PING_REQUEST :: i32 where "status_sb_PING_REQUEST = 0x01"
definition status_cb_STATUS_RESPONSE :: i32 where "status_cb_STATUS_RESPONSE = 0x00"
definition status_cb_PONG_RESPONSE :: i32 where "status_cb_PONG_RESPONSE = 0x01"
definition login_sb_HELLO :: i32 where "login_sb_HELLO = 0x00"
definition login_sb_ENCRYPTION_RESPONSE :: i32 where "login_sb_ENCRYPTION_RESPONSE = 0x01"
definition login_sb_PLUGIN_RESPONSE :: i32 where "login_sb_PLUGIN_RESPONSE = 0x02"
definition login_sb_LOGIN_ACKNOWLEDGED :: i32 where "login_sb_LOGIN_ACKNOWLEDGED = 0x03"
definition login_sb_COOKIE_RESPONSE :: i32 where "login_sb_COOKIE_RESPONSE = 0x04"
definition login_cb_LOGIN_DISCONNECT :: i32 where "login_cb_LOGIN_DISCONNECT = 0x00"
definition login_cb_ENCRYPTION_REQUEST :: i32 where "login_cb_ENCRYPTION_REQUEST = 0x01"
definition login_cb_LOGIN_SUCCESS :: i32 where "login_cb_LOGIN_SUCCESS = 0x02"
definition login_cb_SET_COMPRESSION :: i32 where "login_cb_SET_COMPRESSION = 0x03"
definition login_cb_PLUGIN_REQUEST :: i32 where "login_cb_PLUGIN_REQUEST = 0x04"
definition login_cb_COOKIE_REQUEST :: i32 where "login_cb_COOKIE_REQUEST = 0x05"
definition config_sb_CLIENT_INFORMATION :: i32 where "config_sb_CLIENT_INFORMATION = 0x00"
definition config_sb_COOKIE_RESPONSE :: i32 where "config_sb_COOKIE_RESPONSE = 0x01"
definition config_sb_PLUGIN_MESSAGE :: i32 where "config_sb_PLUGIN_MESSAGE = 0x02"
definition config_sb_FINISH_CONFIGURATION :: i32 where "config_sb_FINISH_CONFIGURATION = 0x03"
definition config_sb_KEEP_ALIVE :: i32 where "config_sb_KEEP_ALIVE = 0x04"
definition config_sb_PONG :: i32 where "config_sb_PONG = 0x05"
definition config_sb_RESOURCE_PACK_RESPONSE :: i32 where "config_sb_RESOURCE_PACK_RESPONSE = 0x06"
definition config_sb_SELECT_KNOWN_PACKS :: i32 where "config_sb_SELECT_KNOWN_PACKS = 0x07"
definition config_cb_COOKIE_REQUEST :: i32 where "config_cb_COOKIE_REQUEST = 0x00"
definition config_cb_PLUGIN_MESSAGE :: i32 where "config_cb_PLUGIN_MESSAGE = 0x01"
definition config_cb_DISCONNECT :: i32 where "config_cb_DISCONNECT = 0x02"
definition config_cb_FINISH_CONFIGURATION :: i32 where "config_cb_FINISH_CONFIGURATION = 0x03"
definition config_cb_KEEP_ALIVE :: i32 where "config_cb_KEEP_ALIVE = 0x04"
definition config_cb_PING :: i32 where "config_cb_PING = 0x05"
definition config_cb_RESET_CHAT :: i32 where "config_cb_RESET_CHAT = 0x06"
definition config_cb_REGISTRY_DATA :: i32 where "config_cb_REGISTRY_DATA = 0x07"
definition config_cb_REMOVE_RESOURCE_PACK :: i32 where "config_cb_REMOVE_RESOURCE_PACK = 0x08"
definition config_cb_ADD_RESOURCE_PACK :: i32 where "config_cb_ADD_RESOURCE_PACK = 0x09"
definition config_cb_STORE_COOKIE :: i32 where "config_cb_STORE_COOKIE = 0x0A"
definition config_cb_TRANSFER :: i32 where "config_cb_TRANSFER = 0x0B"
definition config_cb_UPDATE_ENABLED_FEATURES :: i32 where "config_cb_UPDATE_ENABLED_FEATURES = 0x0C"
definition config_cb_UPDATE_TAGS :: i32 where "config_cb_UPDATE_TAGS = 0x0D"
definition config_cb_SELECT_KNOWN_PACKS :: i32 where "config_cb_SELECT_KNOWN_PACKS = 0x0E"
definition config_cb_CUSTOM_REPORT_DETAILS :: i32 where "config_cb_CUSTOM_REPORT_DETAILS = 0x0F"
definition config_cb_SERVER_LINKS :: i32 where "config_cb_SERVER_LINKS = 0x10"
definition play_sb_ACCEPT_TELEPORTATION :: i32 where "play_sb_ACCEPT_TELEPORTATION = 0x00"
definition play_sb_CHAT_COMMAND :: i32 where "play_sb_CHAT_COMMAND = 0x05"
definition play_sb_CHAT :: i32 where "play_sb_CHAT = 0x07"
definition play_sb_CLIENT_TICK_END :: i32 where "play_sb_CLIENT_TICK_END = 0x0B"
definition play_sb_PLUGIN_MESSAGE :: i32 where "play_sb_PLUGIN_MESSAGE = 0x15"
definition play_sb_KEEP_ALIVE :: i32 where "play_sb_KEEP_ALIVE = 0x1A"
definition play_sb_MOVE_PLAYER_POS :: i32 where "play_sb_MOVE_PLAYER_POS = 0x1C"
definition play_sb_MOVE_PLAYER_POS_ROT :: i32 where "play_sb_MOVE_PLAYER_POS_ROT = 0x1D"
definition play_sb_MOVE_PLAYER_ROT :: i32 where "play_sb_MOVE_PLAYER_ROT = 0x1E"
definition play_sb_MOVE_PLAYER_STATUS_ONLY :: i32 where "play_sb_MOVE_PLAYER_STATUS_ONLY = 0x1F"
definition play_cb_KEEP_ALIVE :: i32 where "play_cb_KEEP_ALIVE = 0x26"
definition play_cb_CHUNK_DATA :: i32 where "play_cb_CHUNK_DATA = 0x27"
definition play_cb_GAME_EVENT :: i32 where "play_cb_GAME_EVENT = 0x22"
definition play_cb_LOGIN :: i32 where "play_cb_LOGIN = 0x2C"
definition play_cb_DISCONNECT :: i32 where "play_cb_DISCONNECT = 0x1D"
definition play_cb_PLAYER_POSITION :: i32 where "play_cb_PLAYER_POSITION = 0x42"
definition play_cb_SET_CHUNK_CACHE_CENTER :: i32 where "play_cb_SET_CHUNK_CACHE_CENTER = 0x58"
definition play_cb_SET_DEFAULT_SPAWN_POSITION :: i32 where "play_cb_SET_DEFAULT_SPAWN_POSITION = 0x5A"
definition play_cb_SYSTEM_CHAT :: i32 where "play_cb_SYSTEM_CHAT = 0x73"

text \<open>The ids of each module, in the order of the file.\<close>

definition handshaking_sb_ids :: "i32 list" where
  "handshaking_sb_ids = [handshaking_sb_INTENTION]"

definition status_sb_ids :: "i32 list" where
  "status_sb_ids = [status_sb_STATUS_REQUEST, status_sb_PING_REQUEST]"

definition status_cb_ids :: "i32 list" where
  "status_cb_ids = [status_cb_STATUS_RESPONSE, status_cb_PONG_RESPONSE]"

definition login_sb_ids :: "i32 list" where
  "login_sb_ids = [login_sb_HELLO, login_sb_ENCRYPTION_RESPONSE, login_sb_PLUGIN_RESPONSE,
     login_sb_LOGIN_ACKNOWLEDGED, login_sb_COOKIE_RESPONSE]"

definition login_cb_ids :: "i32 list" where
  "login_cb_ids = [login_cb_LOGIN_DISCONNECT, login_cb_ENCRYPTION_REQUEST, login_cb_LOGIN_SUCCESS,
     login_cb_SET_COMPRESSION, login_cb_PLUGIN_REQUEST, login_cb_COOKIE_REQUEST]"

definition config_sb_ids :: "i32 list" where
  "config_sb_ids = [config_sb_CLIENT_INFORMATION, config_sb_COOKIE_RESPONSE, config_sb_PLUGIN_MESSAGE,
     config_sb_FINISH_CONFIGURATION, config_sb_KEEP_ALIVE, config_sb_PONG,
     config_sb_RESOURCE_PACK_RESPONSE, config_sb_SELECT_KNOWN_PACKS]"

definition config_cb_ids :: "i32 list" where
  "config_cb_ids = [config_cb_COOKIE_REQUEST, config_cb_PLUGIN_MESSAGE, config_cb_DISCONNECT,
     config_cb_FINISH_CONFIGURATION, config_cb_KEEP_ALIVE, config_cb_PING, config_cb_RESET_CHAT,
     config_cb_REGISTRY_DATA, config_cb_REMOVE_RESOURCE_PACK, config_cb_ADD_RESOURCE_PACK,
     config_cb_STORE_COOKIE, config_cb_TRANSFER, config_cb_UPDATE_ENABLED_FEATURES,
     config_cb_UPDATE_TAGS, config_cb_SELECT_KNOWN_PACKS, config_cb_CUSTOM_REPORT_DETAILS,
     config_cb_SERVER_LINKS]"

definition play_sb_ids :: "i32 list" where
  "play_sb_ids = [play_sb_ACCEPT_TELEPORTATION, play_sb_CHAT_COMMAND, play_sb_CHAT, play_sb_CLIENT_TICK_END,
     play_sb_PLUGIN_MESSAGE, play_sb_KEEP_ALIVE, play_sb_MOVE_PLAYER_POS,
     play_sb_MOVE_PLAYER_POS_ROT, play_sb_MOVE_PLAYER_ROT, play_sb_MOVE_PLAYER_STATUS_ONLY]"

definition play_cb_ids :: "i32 list" where
  "play_cb_ids = [play_cb_KEEP_ALIVE, play_cb_CHUNK_DATA, play_cb_GAME_EVENT, play_cb_LOGIN, play_cb_DISCONNECT,
     play_cb_PLAYER_POSITION, play_cb_SET_CHUNK_CACHE_CENTER, play_cb_SET_DEFAULT_SPAWN_POSITION,
     play_cb_SYSTEM_CHAT]"

definition PROVISIONAL :: bool where "PROVISIONAL = True"

lemmas id_defs =
  handshaking_sb_INTENTION_def status_sb_STATUS_REQUEST_def status_sb_PING_REQUEST_def
  status_cb_STATUS_RESPONSE_def status_cb_PONG_RESPONSE_def login_sb_HELLO_def
  login_sb_ENCRYPTION_RESPONSE_def login_sb_PLUGIN_RESPONSE_def login_sb_LOGIN_ACKNOWLEDGED_def
  login_sb_COOKIE_RESPONSE_def login_cb_LOGIN_DISCONNECT_def login_cb_ENCRYPTION_REQUEST_def
  login_cb_LOGIN_SUCCESS_def login_cb_SET_COMPRESSION_def login_cb_PLUGIN_REQUEST_def
  login_cb_COOKIE_REQUEST_def config_sb_CLIENT_INFORMATION_def config_sb_COOKIE_RESPONSE_def
  config_sb_PLUGIN_MESSAGE_def config_sb_FINISH_CONFIGURATION_def config_sb_KEEP_ALIVE_def
  config_sb_PONG_def config_sb_RESOURCE_PACK_RESPONSE_def config_sb_SELECT_KNOWN_PACKS_def
  config_cb_COOKIE_REQUEST_def config_cb_PLUGIN_MESSAGE_def config_cb_DISCONNECT_def
  config_cb_FINISH_CONFIGURATION_def config_cb_KEEP_ALIVE_def config_cb_PING_def
  config_cb_RESET_CHAT_def config_cb_REGISTRY_DATA_def config_cb_REMOVE_RESOURCE_PACK_def
  config_cb_ADD_RESOURCE_PACK_def config_cb_STORE_COOKIE_def config_cb_TRANSFER_def
  config_cb_UPDATE_ENABLED_FEATURES_def config_cb_UPDATE_TAGS_def config_cb_SELECT_KNOWN_PACKS_def
  config_cb_CUSTOM_REPORT_DETAILS_def config_cb_SERVER_LINKS_def play_sb_ACCEPT_TELEPORTATION_def
  play_sb_CHAT_COMMAND_def play_sb_CHAT_def play_sb_CLIENT_TICK_END_def play_sb_PLUGIN_MESSAGE_def
  play_sb_KEEP_ALIVE_def play_sb_MOVE_PLAYER_POS_def play_sb_MOVE_PLAYER_POS_ROT_def
  play_sb_MOVE_PLAYER_ROT_def play_sb_MOVE_PLAYER_STATUS_ONLY_def play_cb_KEEP_ALIVE_def
  play_cb_CHUNK_DATA_def play_cb_GAME_EVENT_def play_cb_LOGIN_def play_cb_DISCONNECT_def
  play_cb_PLAYER_POSITION_def play_cb_SET_CHUNK_CACHE_CENTER_def
  play_cb_SET_DEFAULT_SPAWN_POSITION_def play_cb_SYSTEM_CHAT_def

section \<open>Versions and states\<close>

definition PROTOCOL_VERSION :: i32 where "PROTOCOL_VERSION = 776"
definition MINECRAFT_VERSION :: rstring where "MINECRAFT_VERSION = lit ''26.2''"
definition DATA_VERSION :: i32 where "DATA_VERSION = 4903"
definition SERVER_BRAND :: rstring where "SERVER_BRAND = lit ''Rukkit''"

definition is_supported :: "i32 \<Rightarrow> bool" where
  "is_supported protocol \<longleftrightarrow> protocol = PROTOCOL_VERSION"

datatype conn_state = Handshaking | Status | Login | Configuration | Play

fun state_name :: "conn_state \<Rightarrow> string" where
  "state_name Handshaking = ''handshaking''"
| "state_name Status = ''status''"
| "state_name Login = ''login''"
| "state_name Configuration = ''configuration''"
| "state_name Play = ''play''"

section \<open>Properties\<close>

text \<open>
  No two packets of one state and direction share an id, so each id selects at most one packet; the
  exact protocol version is the only one that is accepted.
\<close>

lemma packet_ids_unique:
  "distinct handshaking_sb_ids \<and> distinct status_sb_ids \<and> distinct status_cb_ids \<and>
   distinct login_sb_ids \<and> distinct login_cb_ids \<and> distinct config_sb_ids \<and> distinct config_cb_ids \<and>
   distinct play_sb_ids \<and> distinct play_cb_ids \<and>
   {v. is_supported v} = {776}"
  by (auto simp: handshaking_sb_ids_def status_sb_ids_def status_cb_ids_def login_sb_ids_def login_cb_ids_def
      config_sb_ids_def config_cb_ids_def play_sb_ids_def play_cb_ids_def id_defs is_supported_def
      PROTOCOL_VERSION_def)

end
