(* ===== verification/Packets.thy ===== *)
theory Packets
  imports Packet_Ids
begin

text \<open>
  \<open>crates/rukkit-protocol/src/packets/mod.rs\<close>, \<open>handshake.rs\<close>, \<open>status.rs\<close> and \<open>login.rs\<close>: the packets of
  the first three connection states. A clientbound packet is its id and the bytes its \<open>encode_body\<close>
  appends, a serverbound one its id and its reading function \<open>decode_body\<close>. Every packet that has both
  directions in the sources is an interpretation of the locale \<open>codec\<close>.
\<close>

section \<open>Framing a packet\<close>

text \<open>\<open>encode\<close> clears the scratch buffer, so the result does not depend on what it held.\<close>

definition encode_packet :: "i32 \<Rightarrow> bytes \<Rightarrow> bytes \<Rightarrow> bytes" where
  "encode_packet pid body out = (let out = [] in out @ write_varint pid @ body)"

definition decode_exact :: "'a reader \<Rightarrow> i32 \<Rightarrow> bytes \<Rightarrow> string \<Rightarrow> 'a presult" where
  "decode_exact decode_body pid body state =
     and_then (decode_body (reader_new body)) (\<lambda>(packet, r).
     and_then (expect_finished r state pid) (\<lambda>_. Inr packet))"

text \<open>\<open>split_id\<close> of \<open>connection.rs\<close>: the id of a packet and the rest.\<close>

definition split_id :: "bytes \<Rightarrow> (i32 \<times> bytes) presult" where
  "split_id packet = and_then (read_varint packet) (\<lambda>(pid, used). Inr (pid, drop used packet))"

lemma split_id_encode: "split_id (encode_packet pid body out) = Inr (pid, body)"
  by (simp add: split_id_def encode_packet_def read_varint_write_varint varint_len_eq)

lemma decode_exact_progress:
  assumes "progressing rd" "length body < 2 ^ 64" "decode_exact rd pid body state = Inr p"
  shows "\<exists>r'. rd (reader_new body) = Inr (p, r') \<and> rd_pos r' = length body"
proof -
  obtain r' where r: "rd (reader_new body) = Inr (p, r')" "remaining r' = 0"
    using assms(3) by (auto simp: decode_exact_def and_then_Inr_iff expect_finished_def split: if_splits)
  have "wf_reader (reader_new body)" using assms(2) by (simp add: reader_new_cursor)
  from progressingD [OF assms(1) this r(1)] r show ?thesis
    by (auto simp: wf_reader_def remaining_def reader_new_def)
qed

context codec
begin

lemma decode_exact_rt:
  "ok x \<Longrightarrow> length (wr x) < 2 ^ 64 \<Longrightarrow> decode_exact rd pid (wr x) state = Inr x"
  by (simp add: decode_exact_def rt_new expect_finished_def)

lemma decode_exact_trailing:
  assumes "ok x" "length (wr x) + length extra < 2 ^ 64" "extra \<noteq> []"
  shows "decode_exact rd pid (wr x @ extra) state = Inl (TrailingBytes state pid (length extra))"
  using rt [of x "[]" extra] assms by (simp add: decode_exact_def reader_new_cursor expect_finished_def)

end

section \<open>Handshake\<close>

definition MAX_ADDRESS_LEN :: usize where "MAX_ADDRESS_LEN = 255"

datatype next_state = NextStatus | NextLogin | NextTransfer

definition next_state_from_id :: "i32 \<Rightarrow> next_state presult" where
  "next_state_from_id n =
     (if n = 1 then Inr NextStatus else if n = 2 then Inr NextLogin else if n = 3 then Inr NextTransfer
      else Inl (InvalidEnum ''NextState'' (scast n)))"

fun next_state_id :: "next_state \<Rightarrow> i32" where
  "next_state_id NextStatus = 1"
| "next_state_id NextLogin = 2"
| "next_state_id NextTransfer = 3"

record intention =
  in_protocol_version :: i32
  in_server_address :: rstring
  in_server_port :: u16
  in_next_state :: next_state

definition intention_encode :: "intention \<Rightarrow> bytes" where
  "intention_encode p = write_varint (in_protocol_version p) @ write_string (in_server_address p) @
     write_u16 (in_server_port p) @ write_varint (next_state_id (in_next_state p))"

definition intention_decode :: "intention reader" where
  "intention_decode =
     rbind rd_varint (\<lambda>protocol_version.
     rbind (read_string MAX_ADDRESS_LEN) (\<lambda>server_address.
     rbind read_u16 (\<lambda>server_port.
     rbind rd_varint (\<lambda>n.
     rbind (rlift (next_state_from_id n)) (\<lambda>next_state.
     rreturn \<lparr>in_protocol_version = protocol_version, in_server_address = server_address,
       in_server_port = server_port, in_next_state = next_state\<rparr>)))))"

section \<open>Status\<close>

text \<open>\<open>StatusRequest\<close>, \<open>LoginAcknowledged\<close> and \<open>FinishConfigurationAck\<close> have no fields.\<close>

definition status_request_decode :: "unit reader" where
  "status_request_decode = rreturn ()"

record ping_request =
  ping_payload :: i64

definition ping_request_decode :: "ping_request reader" where
  "ping_request_decode = rbind read_i64 (\<lambda>payload. rreturn \<lparr>ping_payload = payload\<rparr>)"

record status_response =
  sr_json :: rstring

definition status_response_encode :: "status_response \<Rightarrow> bytes" where
  "status_response_encode p = write_string (sr_json p)"

record pong_response =
  pong_payload :: i64

definition pong_response_encode :: "pong_response \<Rightarrow> bytes" where
  "pong_response_encode p = write_i64 (pong_payload p)"

section \<open>Login\<close>

definition MAX_USERNAME_LEN :: usize where "MAX_USERNAME_LEN = 16"
definition MAX_SERVER_ID_LEN :: usize where "MAX_SERVER_ID_LEN = 20"
definition MAX_KEY_LEN :: usize where "MAX_KEY_LEN = 1024"

record hello =
  hello_name :: rstring
  hello_profile_id :: u128

definition hello_encode :: "hello \<Rightarrow> bytes" where
  "hello_encode p = write_string (hello_name p) @ write_uuid (hello_profile_id p)"

definition hello_decode :: "hello reader" where
  "hello_decode =
     rbind (read_string MAX_USERNAME_LEN) (\<lambda>name.
     rbind read_uuid (\<lambda>profile_id.
     rreturn \<lparr>hello_name = name, hello_profile_id = profile_id\<rparr>))"

record encryption_response =
  er_shared_secret :: bytes
  er_verify_token :: bytes

definition encryption_response_decode :: "encryption_response reader" where
  "encryption_response_decode =
     rbind (read_byte_array MAX_KEY_LEN) (\<lambda>shared_secret.
     rbind (read_byte_array MAX_KEY_LEN) (\<lambda>verify_token.
     rreturn \<lparr>er_shared_secret = shared_secret, er_verify_token = verify_token\<rparr>))"

definition login_acknowledged_decode :: "unit reader" where
  "login_acknowledged_decode = rreturn ()"

record login_disconnect =
  ld_reason_json :: rstring

definition login_disconnect_encode :: "login_disconnect \<Rightarrow> bytes" where
  "login_disconnect_encode p = write_string (ld_reason_json p)"

record encryption_request =
  eq_server_id :: rstring
  eq_public_key :: bytes
  eq_verify_token :: bytes
  eq_should_authenticate :: bool

definition encryption_request_encode :: "encryption_request \<Rightarrow> bytes" where
  "encryption_request_encode p = write_string (eq_server_id p) @ write_byte_array (eq_public_key p) @
     write_byte_array (eq_verify_token p) @ write_bool (eq_should_authenticate p)"

record profile_property =
  pp_name :: rstring
  pp_value :: rstring
  pp_signature :: "rstring option"

record login_finished =
  lf_profile_id :: u128
  lf_username :: rstring
  lf_properties :: "profile_property list"
  lf_strict_error_handling :: "bool option"

definition login_finished_new :: "u128 \<Rightarrow> rstring \<Rightarrow> bool option \<Rightarrow> login_finished" where
  "login_finished_new profile_id username strict_error_handling =
     \<lparr>lf_profile_id = profile_id, lf_username = username, lf_properties = [],
      lf_strict_error_handling = strict_error_handling\<rparr>"

definition login_finished_encode :: "login_finished \<Rightarrow> bytes" where
  "login_finished_encode p = write_uuid (lf_profile_id p) @ write_string (lf_username p) @
     write_varint (word_of_nat (length (lf_properties p))) @
     concat (map (\<lambda>property. write_string (pp_name property) @ write_string (pp_value property) @
       write_option write_string (pp_signature property)) (lf_properties p)) @
     (case lf_strict_error_handling p of Some strict \<Rightarrow> write_bool strict | None \<Rightarrow> [])"

record set_compression =
  sc_threshold :: i32

definition set_compression_encode :: "set_compression \<Rightarrow> bytes" where
  "set_compression_encode p = write_varint (sc_threshold p)"

section \<open>Round trips\<close>

lemma next_state_roundtrip: "next_state_from_id (next_state_id s) = Inr s"
  by (cases s) (simp_all add: next_state_from_id_def)

lemma rlift_Inr_bind: "rbind (rlift (Inr x)) f = f x"
  by (rule ext) (simp add: rbind_def rlift_def)

interpretation intentionc: codec intention_encode intention_decode
  "\<lambda>p. string_fits MAX_ADDRESS_LEN (in_server_address p)"
  by unfold_locales
    (simp add: intention_encode_def intention_decode_def codec_steps next_state_roundtrip rlift_Inr_bind rreturn_apply)

interpretation helloc: codec hello_encode hello_decode
  "\<lambda>p. string_fits MAX_USERNAME_LEN (hello_name p)"
  by unfold_locales
    (simp add: hello_encode_def hello_decode_def codec_steps rreturn_apply)

interpretation pingc: codec "\<lambda>p. pong_response_encode \<lparr>pong_payload = ping_payload p\<rparr>" ping_request_decode "\<lambda>_. True"
  by unfold_locales
    (simp add: pong_response_encode_def ping_request_decode_def codec_steps rreturn_apply)

lemma progressing_packets [progress_intros]:
  "progressing intention_decode" "progressing status_request_decode" "progressing ping_request_decode"
  "progressing hello_decode" "progressing encryption_response_decode" "progressing login_acknowledged_decode"
  unfolding intention_decode_def status_request_decode_def ping_request_decode_def hello_decode_def
    encryption_response_decode_def login_acknowledged_decode_def
  by (intro progress_intros)+

lemma length_write_varint_5: "length (write_varint v) \<le> 5"
  by (simp add: varint_len_eq [symmetric] varint_len_def)

lemma length_write_string: "string_fits n s \<Longrightarrow> length (write_string s) < 5 + 2 ^ 31"
  using length_write_varint_5 [of "word_of_nat (length (as_bytes s))"]
  by (simp add: string_fits_def write_string_def)

lemma length_intention: "string_fits n (in_server_address p) \<Longrightarrow> length (intention_encode p) < 2 ^ 32"
  using length_write_string [of n "in_server_address p"] length_write_varint_5 [of "in_protocol_version p"]
    length_write_varint_5 [of "next_state_id (in_next_state p)"]
  by (simp add: intention_encode_def write_u16_def)

lemma length_hello: "string_fits n (hello_name p) \<Longrightarrow> length (hello_encode p) < 2 ^ 32"
  using length_write_string [of n "hello_name p"] by (simp add: hello_encode_def write_uuid_def)

lemma read_string_bounds:
  assumes "read_string n r = Inr (s, r')"
  shows "valid_str s \<and> length s \<le> n"
  using assms valid_str_from_utf8
  by (auto simp: read_string_def rbind_def and_then_Inr_iff rlift_def rreturn_def Let_def
      split: option.splits if_splits)

lemma read_byte_array_bounds: "read_byte_array n r = Inr (v, r') \<Longrightarrow> length v \<le> n"
  by (auto simp: read_byte_array_def rbind_Inr_iff read_length_def take_n_def usize_checked_add_def Let_def
      rlift_def rreturn_apply split: if_splits)

lemma string_fits_ascii:
  "list_all (\<lambda>c. c < 0x80) s \<Longrightarrow> length s \<le> n \<Longrightarrow> n < 2 ^ 31 \<Longrightarrow> string_fits n s"
proof -
  assume s: "list_all (\<lambda>c. c < 0x80) s" "length s \<le> n" "n < 2 ^ 31"
  have "valid_str s"
    using s(1) by (induction s) (auto simp: is_scalar_def word_less_nat_alt)
  moreover have "length (as_bytes s) = length s"
    using s(1) by (induction s) (auto simp: as_bytes_def encode_utf8_def)
  ultimately show ?thesis using s(2,3) by (simp add: string_fits_def usize_saturating_mul_def)
qed

section \<open>Properties\<close>

text \<open>
  C32: the packets that open a connection are understood as they were sent: splitting off the id of an
  encoded \<open>Intention\<close> or \<open>Hello\<close> and decoding the rest gives the packet back, whatever the scratch
  buffer held before, and one byte too many is reported with the state and the number of bytes left.
\<close>

theorem opening_packets_roundtrip:
  assumes "string_fits MAX_ADDRESS_LEN (in_server_address i)" "string_fits MAX_USERNAME_LEN (hello_name h)"
    and "extra \<noteq> []" "length extra < 2 ^ 32"
  shows "and_then (split_id (encode_packet pid (intention_encode i) out)) (\<lambda>(j, body).
      and_then (decode_exact intention_decode j body state) (\<lambda>q. Inr (j, q))) = Inr (pid, i) \<and>
    and_then (split_id (encode_packet pid (hello_encode h) out)) (\<lambda>(j, body).
      and_then (decode_exact hello_decode j body state) (\<lambda>q. Inr (j, q))) = Inr (pid, h) \<and>
    decode_exact intention_decode pid (intention_encode i @ extra) state =
      Inl (TrailingBytes state pid (length extra)) \<and>
    decode_exact hello_decode pid (hello_encode h @ extra) state =
      Inl (TrailingBytes state pid (length extra))"
  using length_intention [OF assms(1)] length_hello [OF assms(2)] assms
  by (simp add: split_id_encode intentionc.decode_exact_rt helloc.decode_exact_rt
      intentionc.decode_exact_trailing helloc.decode_exact_trailing)

lemma opening_packets_roundtrip_witness:
  "decode_exact hello_decode 0 (hello_encode \<lparr>hello_name = [0x41], hello_profile_id = 7\<rparr> @ [9]) ''login'' =
     Inl (TrailingBytes ''login'' 0 1)"
proof -
  have "string_fits MAX_ADDRESS_LEN [0x41]" "string_fits MAX_USERNAME_LEN [0x41]"
    by (simp_all add: string_fits_def MAX_ADDRESS_LEN_def MAX_USERNAME_LEN_def is_scalar_def as_bytes_def
        encode_utf8_def usize_saturating_mul_def)
  with opening_packets_roundtrip [where extra = "[9]" and pid = 0 and state = "''login''" and
      h = "\<lparr>hello_name = [0x41], hello_profile_id = 7\<rparr>" and i = "\<lparr>in_protocol_version = 0,
        in_server_address = [0x41], in_server_port = 0, in_next_state = NextLogin\<rparr>"]
  show ?thesis by simp
qed

text \<open>
  Whatever bytes a client sends, an accepted \<open>Intention\<close> has an address of at most 255 characters, an
  accepted \<open>Hello\<close> a name of at most 16, an accepted \<open>EncryptionResponse\<close> two arrays of at most 1024
 
  bytes each, and all strings are valid.
\<close>

lemma accepted_packets_bounded:
  "(case decode_exact intention_decode pid body state of
      Inr p \<Rightarrow> valid_str (in_server_address p) \<and> length (in_server_address p) \<le> 255 | Inl _ \<Rightarrow> True) \<and>
   (case decode_exact hello_decode pid body state of
      Inr p \<Rightarrow> valid_str (hello_name p) \<and> length (hello_name p) \<le> 16 | Inl _ \<Rightarrow> True) \<and>
   (case decode_exact encryption_response_decode pid body state of
      Inr p \<Rightarrow> length (er_shared_secret p) \<le> 1024 \<and> length (er_verify_token p) \<le> 1024 | Inl _ \<Rightarrow> True)"
proof (intro conjI)
  show "case decode_exact intention_decode pid body state of
      Inr p \<Rightarrow> valid_str (in_server_address p) \<and> length (in_server_address p) \<le> 255 | Inl _ \<Rightarrow> True"
    by (auto simp: decode_exact_def and_then_Inr_iff intention_decode_def rbind_Inr_iff rreturn_apply
        MAX_ADDRESS_LEN_def split: sum.split dest!: read_string_bounds)
  show "case decode_exact hello_decode pid body state of
      Inr p \<Rightarrow> valid_str (hello_name p) \<and> length (hello_name p) \<le> 16 | Inl _ \<Rightarrow> True"
    by (auto simp: decode_exact_def and_then_Inr_iff hello_decode_def rbind_Inr_iff rreturn_apply
        MAX_USERNAME_LEN_def split: sum.split dest!: read_string_bounds)
  show "case decode_exact encryption_response_decode pid body state of
      Inr p \<Rightarrow> length (er_shared_secret p) \<le> 1024 \<and> length (er_verify_token p) \<le> 1024 | Inl _ \<Rightarrow> True"
    by (auto simp: decode_exact_def and_then_Inr_iff encryption_response_decode_def rbind_Inr_iff rreturn_apply
        MAX_KEY_LEN_def split: sum.split dest!: read_byte_array_bounds)
qed

end
