(* ===== verification/Nbt.thy ===== *)
theory Nbt
  imports Wire
begin

text \<open>
  \<open>crates/rukkit-protocol/src/nbt.rs\<close>: NBT tags, Java's modified UTF-8, and the network and file
  encodings with their decoders. Floats are their bit patterns. The decoder recurses on the nesting
  depth as the code does; the loop that reads the entries of a compound runs with the number of
  unread bytes as fuel, which never runs out because each entry consumes one
  (\<open>read_compound_unfold\<close>).
\<close>

section \<open>Tags\<close>

definition TAG_END :: u8 where "TAG_END = 0"
definition TAG_BYTE :: u8 where "TAG_BYTE = 1"
definition TAG_SHORT :: u8 where "TAG_SHORT = 2"
definition TAG_INT :: u8 where "TAG_INT = 3"
definition TAG_LONG :: u8 where "TAG_LONG = 4"
definition TAG_FLOAT :: u8 where "TAG_FLOAT = 5"
definition TAG_DOUBLE :: u8 where "TAG_DOUBLE = 6"
definition TAG_BYTE_ARRAY :: u8 where "TAG_BYTE_ARRAY = 7"
definition TAG_STRING :: u8 where "TAG_STRING = 8"
definition TAG_LIST :: u8 where "TAG_LIST = 9"
definition TAG_COMPOUND :: u8 where "TAG_COMPOUND = 10"
definition TAG_INT_ARRAY :: u8 where "TAG_INT_ARRAY = 11"
definition TAG_LONG_ARRAY :: u8 where "TAG_LONG_ARRAY = 12"

lemmas tag_defs = TAG_END_def TAG_BYTE_def TAG_SHORT_def TAG_INT_def TAG_LONG_def TAG_FLOAT_def
  TAG_DOUBLE_def TAG_BYTE_ARRAY_def TAG_STRING_def TAG_LIST_def TAG_COMPOUND_def TAG_INT_ARRAY_def
  TAG_LONG_ARRAY_def

definition MAX_DEPTH :: usize where "MAX_DEPTH = 512"
definition MAX_ARRAY_LEN :: usize where "MAX_ARRAY_LEN = 2 ^ 24"

text \<open>A list is its element type and its items, a compound its entries in insertion order.\<close>

datatype nbt_tag =
    NByte i8
  | NShort i16
  | NInt i32
  | NLong i64
  | NFloat u32
  | NDouble u64
  | NByteArray "i8 list"
  | NString rstring
  | NList u8 "nbt_tag list"
  | NCompound "(rstring \<times> nbt_tag) list"
  | NIntArray "i32 list"
  | NLongArray "i64 list"

type_synonym nbt_compound = "(rstring \<times> nbt_tag) list"

fun type_id :: "nbt_tag \<Rightarrow> u8" where
  "type_id (NByte _) = TAG_BYTE"
| "type_id (NShort _) = TAG_SHORT"
| "type_id (NInt _) = TAG_INT"
| "type_id (NLong _) = TAG_LONG"
| "type_id (NFloat _) = TAG_FLOAT"
| "type_id (NDouble _) = TAG_DOUBLE"
| "type_id (NByteArray _) = TAG_BYTE_ARRAY"
| "type_id (NString _) = TAG_STRING"
| "type_id (NList _ _) = TAG_LIST"
| "type_id (NCompound _) = TAG_COMPOUND"
| "type_id (NIntArray _) = TAG_INT_ARRAY"
| "type_id (NLongArray _) = TAG_LONG_ARRAY"

fun as_compound :: "nbt_tag \<Rightarrow> nbt_compound option" where
  "as_compound (NCompound c) = Some c"
| "as_compound _ = None"

fun as_str :: "nbt_tag \<Rightarrow> rstring option" where
  "as_str (NString s) = Some s"
| "as_str _ = None"

fun as_i64 :: "nbt_tag \<Rightarrow> i64 option" where
  "as_i64 (NByte v) = Some (scast v)"
| "as_i64 (NShort v) = Some (scast v)"
| "as_i64 (NInt v) = Some (scast v)"
| "as_i64 (NLong v) = Some v"
| "as_i64 _ = None"

text \<open>The \<open>From\<close> conversions behind \<open>impl Into<NbtTag>\<close>.\<close>

definition nbt_from_i8 :: "i8 \<Rightarrow> nbt_tag" where "nbt_from_i8 v = NByte v"
definition nbt_from_bool :: "bool \<Rightarrow> nbt_tag" where "nbt_from_bool v = NByte (if v then 1 else 0)"
definition nbt_from_i16 :: "i16 \<Rightarrow> nbt_tag" where "nbt_from_i16 v = NShort v"
definition nbt_from_i32 :: "i32 \<Rightarrow> nbt_tag" where "nbt_from_i32 v = NInt v"
definition nbt_from_i64 :: "i64 \<Rightarrow> nbt_tag" where "nbt_from_i64 v = NLong v"
definition nbt_from_f32 :: "u32 \<Rightarrow> nbt_tag" where "nbt_from_f32 v = NFloat v"
definition nbt_from_f64 :: "u64 \<Rightarrow> nbt_tag" where "nbt_from_f64 v = NDouble v"
definition nbt_from_string :: "rstring \<Rightarrow> nbt_tag" where "nbt_from_string v = NString v"
definition nbt_from_compound :: "nbt_compound \<Rightarrow> nbt_tag" where "nbt_from_compound v = NCompound v"
definition nbt_from_list :: "u8 \<times> nbt_tag list \<Rightarrow> nbt_tag" where "nbt_from_list v = NList (fst v) (snd v)"

text \<open>An \<open>NbtList\<close> is the pair of its element type and its items.\<close>

definition list_element_type :: "u8 \<times> nbt_tag list \<Rightarrow> u8" where "list_element_type l = fst l"
definition list_items :: "u8 \<times> nbt_tag list \<Rightarrow> nbt_tag list" where "list_items l = snd l"
definition list_len :: "u8 \<times> nbt_tag list \<Rightarrow> usize" where "list_len l = length (snd l)"
definition list_is_empty :: "u8 \<times> nbt_tag list \<Rightarrow> bool" where "list_is_empty l \<longleftrightarrow> snd l = []"

definition list_empty :: "u8 \<times> nbt_tag list" where
  "list_empty = (TAG_END, [])"

definition list_new :: "nbt_tag list \<Rightarrow> (u8 \<times> nbt_tag list) option" where
  "list_new items = (case items of
      [] \<Rightarrow> Some list_empty
    | first # _ \<Rightarrow>
        let element_type = type_id first in
        if list_ex (\<lambda>t. type_id t \<noteq> element_type) items then None else Some (element_type, items))"

fun compound_insert :: "nbt_compound \<Rightarrow> rstring \<Rightarrow> nbt_tag \<Rightarrow> nbt_compound" where
  "compound_insert [] key v = [(key, v)]"
| "compound_insert ((k, old) # entries) key v =
     (if k = key then (k, v) # entries else (k, old) # compound_insert entries key v)"

definition compound_get :: "nbt_compound \<Rightarrow> rstring \<Rightarrow> nbt_tag option" where
  "compound_get entries key = map_option snd (find (\<lambda>(k, _). k = key) entries)"

definition contains_key :: "nbt_compound \<Rightarrow> rstring \<Rightarrow> bool" where
  "contains_key entries key \<longleftrightarrow> compound_get entries key \<noteq> None"

definition compound_new :: nbt_compound where "compound_new = []"
definition compound_iter :: "nbt_compound \<Rightarrow> (rstring \<times> nbt_tag) list" where "compound_iter entries = map (\<lambda>(k, v). (k, v)) entries"
definition compound_len :: "nbt_compound \<Rightarrow> usize" where "compound_len entries = length entries"
definition compound_is_empty :: "nbt_compound \<Rightarrow> bool" where "compound_is_empty entries \<longleftrightarrow> entries = []"

section \<open>Modified UTF-8\<close>

definition mutf8_char_len :: "rchar \<Rightarrow> usize" where
  "mutf8_char_len cp =
     (if cp = 0 then 2 else if cp < 0x80 then 1 else if cp < 0x800 then 2
      else if cp < 0x10000 then 3 else 6)"

definition modified_utf8_len :: "rstring \<Rightarrow> usize" where
  "modified_utf8_len s = sum_list (map mutf8_char_len s)"

text \<open>The truncation loop: the characters that fit in 65535 bytes, and how many bytes they take.\<close>

fun mutf8_cut :: "usize \<Rightarrow> rstring \<Rightarrow> rstring \<times> usize" where
  "mutf8_cut used [] = ([], used)"
| "mutf8_cut used (c # cs) =
     (let need = modified_utf8_len [c] in
      if 65535 < used + need then ([], used)
      else case mutf8_cut (used + need) cs of (s, u) \<Rightarrow> (c # s, u))"

definition mutf8_char :: "rchar \<Rightarrow> bytes" where
  "mutf8_char cp =
     (if cp \<noteq> 0 \<and> cp < 0x80 then [ucast cp]
      else if cp = 0 \<or> cp < 0x800 then group2 cp
      else if cp < 0x10000 then group3 cp
      else let v = cp - 0x10000 in
        group3 (0xD800 + drop_bit 10 v) @ group3 (0xDC00 + (v AND 0x3FF)))"

definition write_modified_utf8 :: "rstring \<Rightarrow> bytes" where
  "write_modified_utf8 s =
     (let len = modified_utf8_len s;
          (s, len) = (if 65535 < len then mutf8_cut 0 s else (s, len))
      in write_u16 (word_of_nat len) @ concat (map mutf8_char s))"

definition continuation :: "bytes \<Rightarrow> usize \<Rightarrow> u32 presult" where
  "continuation bs i =
     (if length bs \<le> i then Inl (Nbt ''truncated modified UTF-8 sequence'')
      else if bs ! i AND 0xC0 \<noteq> 0x80 then Inl (Nbt ''bad continuation byte'')
      else Inr (ucast (bs ! i AND 0x3F)))"

definition code_point :: "u32 \<Rightarrow> rchar presult" where
  "code_point cp = (case char_from_u32 cp of
      None \<Rightarrow> Inl (Nbt ''invalid code point'') | Some c \<Rightarrow> Inr c)"

text \<open>
  The decoding loop, on the bytes from index \<open>i\<close> on. A three-byte sequence that starts at index
  \<open>j\<close> with lead byte \<open>lead\<close> gives a UTF-16 unit.
\<close>

definition three_byte_unit :: "bytes \<Rightarrow> u8 \<Rightarrow> usize \<Rightarrow> u32 presult" where
  "three_byte_unit bs lead j =
     and_then (continuation bs (j + 1)) (\<lambda>c1.
     and_then (continuation bs (j + 2)) (\<lambda>c2.
     Inr (push_bit 12 (ucast (lead AND 0x0F)) OR push_bit 6 c1 OR c2)))"

fun decode_modified_utf8 :: "bytes \<Rightarrow> rstring presult" where
  "decode_modified_utf8 [] = Inr []"
| "decode_modified_utf8 (b # rest) =
     (if b < 0x80 then
        and_then (decode_modified_utf8 rest) (\<lambda>s. Inr (ucast b # s))
      else if b AND 0xE0 = 0xC0 then
        and_then (continuation (b # rest) 1) (\<lambda>c1.
        and_then (code_point (push_bit 6 (ucast (b AND 0x1F)) OR c1)) (\<lambda>c.
        and_then (decode_modified_utf8 (drop 1 rest)) (\<lambda>s. Inr (c # s))))
      else if b AND 0xF0 = 0xE0 then
        and_then (three_byte_unit (b # rest) b 0) (\<lambda>unit.
        if 0xD800 \<le> unit \<and> unit < 0xDC00 then
          if length (b # rest) \<le> 3 then Inl (Nbt ''unpaired high surrogate'')
          else if (b # rest) ! 3 AND 0xF0 \<noteq> 0xE0 then Inl (Nbt ''unpaired high surrogate'')
          else
            and_then (three_byte_unit (b # rest) ((b # rest) ! 3) 3) (\<lambda>low.
            if \<not> (0xDC00 \<le> low \<and> low < 0xE000) then Inl (Nbt ''unpaired high surrogate'')
            else
              and_then (code_point (0x10000 + push_bit 10 (unit - 0xD800) + (low - 0xDC00))) (\<lambda>c.
              and_then (decode_modified_utf8 (drop 5 rest)) (\<lambda>s. Inr (c # s))))
        else if 0xDC00 \<le> unit \<and> unit < 0xE000 then Inl (Nbt ''unpaired low surrogate'')
        else
          and_then (code_point unit) (\<lambda>c.
          and_then (decode_modified_utf8 (drop 2 rest)) (\<lambda>s. Inr (c # s))))
      else Inl (Nbt ''invalid modified UTF-8 lead byte''))"

declare decode_modified_utf8.simps(2) [simp del]

definition read_modified_utf8 :: "rstring reader" where
  "read_modified_utf8 =
     rbind read_u16 (\<lambda>len.
     rbind (read_bytes (unat len)) (\<lambda>bs.
     rlift (decode_modified_utf8 bs)))"

section \<open>Encoding\<close>

fun write_payload :: "nbt_tag \<Rightarrow> bytes" where
  "write_payload (NByte v) = write_i8 v"
| "write_payload (NShort v) = write_i16 v"
| "write_payload (NInt v) = write_i32 v"
| "write_payload (NLong v) = write_i64 v"
| "write_payload (NFloat v) = write_f32 v"
| "write_payload (NDouble v) = write_f64 v"
| "write_payload (NByteArray v) = write_i32 (word_of_nat (length v)) @ concat (map write_i8 v)"
| "write_payload (NString v) = write_modified_utf8 v"
| "write_payload (NList element_type items) =
     write_u8 element_type @ write_i32 (word_of_nat (length items)) @ concat (map write_payload items)"
| "write_payload (NCompound entries) =
     concat (map (\<lambda>e. write_u8 (type_id (snd e)) @ write_modified_utf8 (fst e) @ write_payload (snd e))
       entries) @ write_u8 TAG_END"
| "write_payload (NIntArray v) = write_i32 (word_of_nat (length v)) @ concat (map write_i32 v)"
| "write_payload (NLongArray v) = write_i32 (word_of_nat (length v)) @ concat (map write_i64 v)"

definition write_network :: "nbt_tag \<Rightarrow> bytes" where
  "write_network t = write_u8 (type_id t) @ write_payload t"

definition write_named :: "rstring \<Rightarrow> nbt_tag \<Rightarrow> bytes" where
  "write_named name t = write_u8 (type_id t) @ write_modified_utf8 name @ write_payload t"

section \<open>Decoding\<close>

definition read_len :: "usize reader" where
  "read_len = rbind read_i32 (\<lambda>len.
     if len <s 0 then rlift (Inl (NegativeLength len))
     else let len = unat len in
       if MAX_ARRAY_LEN < len then rlift (Inl (LengthLimitExceeded len MAX_ARRAY_LEN))
       else rreturn len)"

text \<open>The loop over the entries of a compound; \<open>value_of\<close> reads a payload of the given type.\<close>

fun read_entries :: "nat \<Rightarrow> (u8 \<Rightarrow> nbt_tag reader) \<Rightarrow> nbt_compound \<Rightarrow> nbt_compound reader" where
  "read_entries 0 value_of compound = rlift (Inl (UnexpectedEof 1 0))"
| "read_entries (Suc fuel) value_of compound =
     rbind read_u8 (\<lambda>entry_type.
     if entry_type = TAG_END then rreturn compound
     else
       rbind read_modified_utf8 (\<lambda>name.
       rbind (value_of entry_type) (\<lambda>v.
       read_entries fuel value_of (compound_insert compound name v))))"

definition read_compound :: "(u8 \<Rightarrow> nbt_tag reader) \<Rightarrow> nbt_compound \<Rightarrow> nbt_compound reader" where
  "read_compound value_of compound r = read_entries (remaining r) value_of compound r"

function read_payload :: "u8 \<Rightarrow> usize \<Rightarrow> nbt_tag reader" where
  "read_payload ty depth =
     (if MAX_DEPTH < depth then rlift (Inl (NbtTooDeep MAX_DEPTH))
      else if ty = TAG_BYTE then rbind read_i8 (\<lambda>v. rreturn (NByte v))
      else if ty = TAG_SHORT then rbind read_i16 (\<lambda>v. rreturn (NShort v))
      else if ty = TAG_INT then rbind read_i32 (\<lambda>v. rreturn (NInt v))
      else if ty = TAG_LONG then rbind read_i64 (\<lambda>v. rreturn (NLong v))
      else if ty = TAG_FLOAT then rbind read_f32 (\<lambda>v. rreturn (NFloat v))
      else if ty = TAG_DOUBLE then rbind read_f64 (\<lambda>v. rreturn (NDouble v))
      else if ty = TAG_BYTE_ARRAY then
        rbind read_len (\<lambda>len. rbind (read_bytes len) (\<lambda>bs. rreturn (NByteArray bs)))
      else if ty = TAG_STRING then rbind read_modified_utf8 (\<lambda>s. rreturn (NString s))
      else if ty = TAG_LIST then
        rbind read_u8 (\<lambda>element_type.
        rbind read_len (\<lambda>len.
        if element_type = TAG_END \<and> 0 < len then rlift (Inl (Nbt ''non-empty list of TAG_End''))
        else rbind (read_n len (read_payload element_type (depth + 1))) (\<lambda>items.
          rreturn (NList element_type items))))
      else if ty = TAG_COMPOUND then
        rbind (read_compound (\<lambda>entry_typepe. read_payload entry_typepe (depth + 1)) []) (\<lambda>compound.
        rreturn (NCompound compound))
      else if ty = TAG_INT_ARRAY then
        rbind read_len (\<lambda>len. rbind (read_n len read_i32) (\<lambda>v. rreturn (NIntArray v)))
      else if ty = TAG_LONG_ARRAY then
        rbind read_len (\<lambda>len. rbind (read_n len read_i64) (\<lambda>v. rreturn (NLongArray v)))
      else rlift (Inl (InvalidEnum ''NBT tag type'' (ucast ty))))"
  by pat_completeness auto
termination by (relation "measure (\<lambda>(_, depth). MAX_DEPTH + 1 - depth)") (auto simp: MAX_DEPTH_def)

declare read_payload.simps [simp del]

definition read_network :: "nbt_tag reader" where
  "read_network = rbind read_u8 (\<lambda>type_id.
     if type_id = TAG_END then rlift (Inl (Nbt ''root tag is TAG_End''))
     else read_payload type_id 0)"

definition read_named :: "(rstring \<times> nbt_tag) reader" where
  "read_named = rbind read_u8 (\<lambda>type_id.
     if type_id = TAG_END then rlift (Inl (Nbt ''root tag is TAG_End''))
     else
       rbind read_modified_utf8 (\<lambda>name.
       rbind (read_payload type_id 0) (\<lambda>t. rreturn (name, t))))"

section \<open>Modified UTF-8, written and read\<close>

lemma length_mutf8_char: "length (mutf8_char c) = mutf8_char_len c"
  by (simp add: mutf8_char_def mutf8_char_len_def group2_def group3_def Let_def)

lemma length_mutf8: "length (concat (map mutf8_char s)) = modified_utf8_len s"
  by (induction s) (simp_all add: modified_utf8_len_def length_mutf8_char)

lemma modified_utf8_len_Cons: "modified_utf8_len (c # s) = mutf8_char_len c + modified_utf8_len s"
  by (simp add: modified_utf8_len_def)

lemma mutf8_cut_fits: "used + modified_utf8_len s \<le> 65535 \<Longrightarrow> mutf8_cut used s = (s, used + modified_utf8_len s)"
  by (induction s arbitrary: used) (auto simp: modified_utf8_len_def)

text \<open>The part of a string that is written: the longest prefix of whole characters that fits.\<close>

definition mutf8_fit :: "rstring \<Rightarrow> rstring" where
  "mutf8_fit s = fst (mutf8_cut 0 s)"

lemma mutf8_cut_spec:
  "used \<le> 65535 \<Longrightarrow> mutf8_cut used s = (p, u) \<Longrightarrow>
     u = used + modified_utf8_len p \<and> u \<le> 65535 \<and>
     (\<exists>q. s = p @ q \<and> (q = [] \<or> 65535 < u + mutf8_char_len (hd q)))"
proof (induction s arbitrary: used p u)
  case (Cons c cs)
  show ?case
  proof (cases "65535 < used + modified_utf8_len [c]")
    case True
    with Cons.prems show ?thesis by (auto simp: modified_utf8_len_def)
  next
    case False
    obtain p' u' where r: "mutf8_cut (used + modified_utf8_len [c]) cs = (p', u')" by fastforce
    with False Cons.prems have "p = c # p'" "u = u'" by auto
    with Cons.IH [OF _ r] False show ?thesis by (auto simp: modified_utf8_len_def)
  qed
qed (auto simp: modified_utf8_len_def)

lemma mutf8_fit_spec:
  "modified_utf8_len (mutf8_fit s) \<le> 65535"
  "\<exists>q. s = mutf8_fit s @ q \<and> (q = [] \<or> 65535 < modified_utf8_len (mutf8_fit s) + mutf8_char_len (hd q))"
  "modified_utf8_len s \<le> 65535 \<Longrightarrow> mutf8_fit s = s"
proof -
  obtain p u where pu: "mutf8_cut 0 s = (p, u)" by fastforce
  note S = mutf8_cut_spec [OF _ pu, simplified]
  show "modified_utf8_len (mutf8_fit s) \<le> 65535"
    "\<exists>q. s = mutf8_fit s @ q \<and> (q = [] \<or> 65535 < modified_utf8_len (mutf8_fit s) + mutf8_char_len (hd q))"
    using S by (auto simp: mutf8_fit_def pu)
  show "modified_utf8_len s \<le> 65535 \<Longrightarrow> mutf8_fit s = s"
    using mutf8_cut_fits [of 0 s] by (simp add: mutf8_fit_def)
qed

lemma write_modified_utf8_eq:
  "write_modified_utf8 s = write_u16 (word_of_nat (modified_utf8_len (mutf8_fit s))) @
     concat (map mutf8_char (mutf8_fit s))"
proof (cases "65535 < modified_utf8_len s")
  case True
  obtain p u where pu: "mutf8_cut 0 s = (p, u)" by fastforce
  then show ?thesis using True mutf8_cut_spec [OF _ pu] by (simp add: write_modified_utf8_def mutf8_fit_def)
next
  case False
  then show ?thesis using mutf8_fit_spec(3) [of s] by (simp add: write_modified_utf8_def)
qed

lemma three_byte_unit_group3:
  assumes "u < 0x10000"
  shows "three_byte_unit (pre @ group3 u @ post) (hd (group3 u)) (length pre) = Inr u"
proof -
  have j: "push_bit 12 (ucast ((0xE0 OR ucast (drop_bit 12 u) :: u8) AND 0x0F)) OR
      push_bit 6 (ucast ((0x80 OR ucast (drop_bit 6 u AND 0x3F) :: u8) AND 0x3F)) OR
      ucast ((0x80 OR ucast (u AND 0x3F) :: u8) AND 0x3F) = u"
    using join3_group3 [OF assms] unfolding join3_def .
  have "continuation (pre @ group3 u @ post) (length pre + 1) =
      Inr (ucast ((0x80 OR ucast (drop_bit 6 u AND 0x3F) :: u8) AND 0x3F))"
    "continuation (pre @ group3 u @ post) (length pre + 2) = Inr (ucast ((0x80 OR ucast (u AND 0x3F) :: u8) AND 0x3F))"
    using cont_group unfolding is_cont_def
    by (simp_all add: continuation_def group3_def nth_append)
  then show ?thesis using j by (simp only: three_byte_unit_def and_then_simps) (simp add: group3_def)
qed

text \<open>A supplementary character is its two surrogates.\<close>

lemma surrogates:
  fixes c :: u32
  assumes "0x10000 \<le> c" "c < 0x110000"
  defines "v \<equiv> c - 0x10000"
  shows "0xD800 \<le> 0xD800 + drop_bit 10 v" "0xD800 + drop_bit 10 v < 0xDC00"
    "0xDC00 \<le> 0xDC00 + (v AND 0x3FF)" "0xDC00 + (v AND 0x3FF) < 0xE000"
    "0x10000 + push_bit 10 (drop_bit 10 v) + (v AND 0x3FF) = c"
proof -
  have uv: "unat v = unat c - 0x10000" using assms by (simp add: v_def unat_sub word_le_nat_alt)
  have c: "unat c < 0x110000" "0x10000 \<le> unat c" using assms by (simp_all add: word_less_nat_alt word_le_nat_alt)
  have d: "unat (drop_bit 10 v) < 0x400" using uv c by (simp add: unat_drop_bit_div less_mult_imp_div_less)
  have a: "v AND 0x3FF = take_bit 10 v" by (simp add: take_bit_eq_mask mask_eq_exp_minus_1)
  have m: "unat (v AND 0x3FF) < 0x400" unfolding a unsigned_take_bit_eq by (rule less_le_trans [OF take_bit_nat_less_exp]) simp
  show "0xD800 \<le> 0xD800 + drop_bit 10 v" "0xD800 + drop_bit 10 v < 0xDC00"
    using d by (simp_all add: word_le_nat_alt word_less_nat_alt unat_word_ariths)
  show "0xDC00 \<le> 0xDC00 + (v AND 0x3FF)" "0xDC00 + (v AND 0x3FF) < 0xE000"
    using m by (simp_all add: word_le_nat_alt word_less_nat_alt unat_word_ariths)
  have "push_bit 10 (drop_bit 10 v) + (v AND 0x3FF) = v"
    unfolding a by (simp add: bits_ident)
  then show "0x10000 + push_bit 10 (drop_bit 10 v) + (v AND 0x3FF) = c" by (simp add: v_def add.assoc)
qed

lemma decode_group3:
  assumes u: "u < 0x10000" and ns: "u < 0xD800 \<or> 0xE000 \<le> u"
  shows "decode_modified_utf8 (group3 u @ bs) = and_then (decode_modified_utf8 bs) (\<lambda>s. Inr (u # s))"
proof -
  let ?b = "0xE0 OR ucast (drop_bit 12 u) :: u8"
  obtain b1 b2 where g: "group3 u = [?b, b1, b2]" by (simp add: group3_def)
  have "three_byte_unit (?b # b1 # b2 # bs) ?b 0 = Inr u"
    using three_byte_unit_group3 [OF u, of "[]" bs] by (simp add: g)
  moreover have "is_scalar u" using u ns by (auto simp: is_scalar_def word_less_nat_alt)
  moreover have f: "(0xD800 \<le> u \<and> u < 0xDC00) = False" "(0xDC00 \<le> u \<and> u < 0xE000) = False"
    using ns by (auto simp: word_less_nat_alt word_le_nat_alt)
  ultimately show ?thesis using lead3 [OF u] lead3_not2 [OF lead3 [OF u]]
    by (simp only: g append.simps decode_modified_utf8.simps(2) lead_not_ascii if_False if_True and_then_simps f simp_thms)
      (simp add: code_point_def char_from_u32_def)
qed

lemma decode_pair:
  assumes hi: "0xD800 \<le> hi" "hi < 0xDC00" and lo: "0xDC00 \<le> lo" "lo < 0xE000"
    and c: "0x10000 + push_bit 10 (hi - 0xD800) + (lo - 0xDC00) = c" "is_scalar c"
  shows "decode_modified_utf8 (group3 hi @ group3 lo @ bs) = and_then (decode_modified_utf8 bs) (\<lambda>s. Inr (c # s))"
proof -
  have u: "hi < 0x10000" "lo < 0x10000" using hi lo by (auto simp: word_less_nat_alt)
  let ?b = "0xE0 OR ucast (drop_bit 12 hi) :: u8" and ?d = "0xE0 OR ucast (drop_bit 12 lo) :: u8"
  obtain b1 b2 where g: "group3 hi = [?b, b1, b2]" by (simp add: group3_def)
  obtain d1 d2 where h: "group3 lo = [?d, d1, d2]" by (simp add: group3_def)
  have "three_byte_unit (?b # b1 # b2 # ?d # d1 # d2 # bs) ?b 0 = Inr hi"
    using three_byte_unit_group3 [OF u(1), of "[]" "group3 lo @ bs"] by (simp add: g h)
  moreover have "three_byte_unit (?b # b1 # b2 # ?d # d1 # d2 # bs) ?d 3 = Inr lo"
    using three_byte_unit_group3 [OF u(2), of "group3 hi" bs] by (simp add: g h numeral_3_eq_3)
  ultimately show ?thesis using lead3 [OF u(1)] lead3_not2 [OF lead3 [OF u(1)]] lead3 [OF u(2)] hi lo c
    by (simp add: g h decode_modified_utf8.simps(2) code_point_def char_from_u32_def)
qed

lemma decode_char:
  assumes c: "is_scalar c"
  shows "decode_modified_utf8 (mutf8_char c @ bs) = and_then (decode_modified_utf8 bs) (\<lambda>s. Inr (c # s))"
proof -
  consider "c \<noteq> 0" "c < 0x80" | "c = 0 \<or> \<not> c < 0x80" "c < 0x800" | "\<not> c < 0x800" "c < 0x10000"
    | "\<not> c < 0x10000" by auto
  then show ?thesis
  proof cases
    case 1
    then show ?thesis using ascii_ucast [OF 1(2)] by (simp add: mutf8_char_def decode_modified_utf8.simps(2))
  next
    case 2
    then have "mutf8_char c = group2 c" by (auto simp: mutf8_char_def)
    moreover have "continuation ((0xC0 OR ucast (drop_bit 6 c) :: u8) # (0x80 OR ucast (c AND 0x3F)) # bs) 1 =
        Inr (ucast ((0x80 OR ucast (c AND 0x3F) :: u8) AND 0x3F))"
      using cont_group unfolding is_cont_def by (simp add: continuation_def)
    moreover have "push_bit 6 (ucast ((0xC0 OR ucast (drop_bit 6 c) :: u8) AND 0x1F)) OR
        ucast ((0x80 OR ucast (c AND 0x3F) :: u8) AND 0x3F) = c"
      using join2_group2 [OF 2(2)] unfolding join2_def .
    ultimately show ?thesis using 2 c lead2 [OF 2(2)]
      by (simp only: group2_def append.simps decode_modified_utf8.simps(2) lead_not_ascii if_False if_True
          and_then_simps One_nat_def)
        (simp add: code_point_def char_from_u32_def)
  next
    case 3
    have "\<not> c < 0x80" using 3 by (auto simp: word_less_nat_alt)
    then have "mutf8_char c = group3 c" using 3 by (auto simp: mutf8_char_def)
    moreover have "c < 0xD800 \<or> 0xE000 \<le> c" using c by (auto simp: is_scalar_def)
    ultimately show ?thesis using decode_group3 [OF 3(2)] by simp
  next
    case 4
    have b: "0x10000 \<le> c" "c < 0x110000" using 4 c by (auto simp: is_scalar_def word_less_nat_alt word_le_nat_alt)
    have n: "\<not> c < 0x80" "\<not> c < 0x800" "c \<noteq> 0" using b by (auto simp: word_less_nat_alt word_le_nat_alt)
    have "mutf8_char c = group3 (0xD800 + drop_bit 10 (c - 0x10000)) @
        group3 (0xDC00 + ((c - 0x10000) AND 0x3FF))"
      using n 4 by (simp add: mutf8_char_def Let_def)
    then show ?thesis using surrogates [OF b] c by (simp add: decode_pair)
  qed
qed

lemma decode_mutf8: "valid_str s \<Longrightarrow> decode_modified_utf8 (concat (map mutf8_char s)) = Inr s"
  by (induction s) (simp_all add: decode_char)

lemma read_write_mutf8:
  assumes "valid_str s" "length xs + length (write_modified_utf8 s) + length ys < 2 ^ 64"
  shows "read_modified_utf8 (cursor xs (write_modified_utf8 s @ ys)) =
    Inr (mutf8_fit s, cursor (xs @ write_modified_utf8 s) ys)"
proof -
  let ?s = "mutf8_fit s"
  let ?n = "modified_utf8_len ?s" and ?bs = "concat (map mutf8_char ?s)"
  have "unat (word_of_nat ?n :: u16) = ?n" using mutf8_fit_spec(1) [of s]
    by (simp add: unsigned_of_nat take_bit_nat_eq_self_iff)
  then have n: "unat (word_of_nat ?n :: u16) = length ?bs" by (simp add: length_mutf8)
  obtain q where "s = ?s @ q" using mutf8_fit_spec(2) [of s] by blast
  with assms(1) have v: "valid_str ?s" by (metis list_all_append)
  have len: "length xs + length (write_u16 (word_of_nat ?n)) + length (?bs @ ys) < 2 ^ 64"
    using assms(2) by (simp add: write_modified_utf8_eq)
  have "read_u16 (cursor xs (write_u16 (word_of_nat ?n) @ ?bs @ ys)) =
      Inr (word_of_nat ?n, cursor (xs @ write_u16 (word_of_nat ?n)) (?bs @ ys))"
    by (rule u16c.rt [OF TrueI len])
  moreover have "take_n (length ?bs) (cursor (xs @ write_u16 (word_of_nat ?n)) (?bs @ ys)) =
      Inr (?bs, cursor ((xs @ write_u16 (word_of_nat ?n)) @ ?bs) ys)"
    using len by (intro take_n_cursor) simp
  ultimately show ?thesis
    by (simp add: read_modified_utf8_def write_modified_utf8_eq rbind_def read_bytes_def n decode_mutf8 [OF v] rlift_def)
qed

text \<open>The strings NBT can carry whole.\<close>

definition nbt_string :: "rstring \<Rightarrow> bool" where
  "nbt_string s \<longleftrightarrow> valid_str s \<and> modified_utf8_len s \<le> 65535"

interpretation mutf8c: codec write_modified_utf8 read_modified_utf8 nbt_string
  by unfold_locales (simp add: nbt_string_def read_write_mutf8 mutf8_fit_spec(3))

interpretation lenc: codec "\<lambda>n. write_i32 (word_of_nat n)" read_len "\<lambda>n. n \<le> MAX_ARRAY_LEN"
proof
  fix n :: nat and xs ys :: bytes
  assume n: "n \<le> MAX_ARRAY_LEN" and len: "length xs + length (write_i32 (word_of_nat n)) + length ys < 2 ^ 64"
  have "n < 2 ^ 31" using n by (simp add: MAX_ARRAY_LEN_def)
  with n len length_word [of n] i32c.rt [of xs "word_of_nat n" ys]
  show "read_len (cursor xs (write_i32 (word_of_nat n) @ ys)) =
      Inr (n, cursor (xs @ write_i32 (word_of_nat n)) ys)"
    by (simp add: read_len_def rbind_def rreturn_def)
qed

section \<open>The loop over the entries of a compound\<close>

lemma progressing_read_mutf8 [progress_intros]: "progressing read_modified_utf8"
  unfolding read_modified_utf8_def by (intro progress_intros)

lemma progressing_read_len [progress_intros]: "progressing read_len"
  unfolding read_len_def Let_def by (intro progress_intros)

lemma progressing_read_entries [progress_intros]:
  "(\<And>t. progressing (f t)) \<Longrightarrow> progressing (read_entries n f acc)"
proof (induction n arbitrary: acc)
  case (Suc n)
  then show ?case unfolding read_entries.simps by (intro progress_intros) auto
qed (auto intro: progress_intros)

lemma progressing_read_compound [progress_intros]:
  "(\<And>t. progressing (f t)) \<Longrightarrow> progressing (read_compound f acc)"
  using progressing_read_entries [of f] unfolding progressing_def read_compound_def by blast

lemma read_u8_cursor:
  "length xs + length ys < 2 ^ 64 \<Longrightarrow> read_u8 (cursor xs ys) =
     (case ys of [] \<Rightarrow> Inl (UnexpectedEof 1 0) | b # ys' \<Rightarrow> Inr (b, cursor (xs @ [b]) ys'))"
  by (auto simp: read_u8_def rbind_def take_n_def cursor_def usize_checked_add_def rreturn_def remaining_def
      split: list.splits)

lemma read_u8_cases:
  assumes "wf_reader r"
  obtains (eof) "remaining r = 0" "read_u8 r = Inl (UnexpectedEof 1 0)"
  | (byte) b r' where "read_u8 r = Inr (b, r')" "wf_reader r'" "Suc (remaining r') = remaining r"
proof -
  from wf_reader_cursor [OF assms] obtain xs ys where r: "r = cursor xs ys" "length xs + length ys < 2 ^ 64" .
  show thesis
  proof (cases ys)
    case Nil
    with r read_u8_cursor [OF r(2)] show thesis by (intro eof) simp_all
  next
    case (Cons b ys')
    with r read_u8_cursor [OF r(2)] show thesis by (intro byte [of b "cursor (xs @ [b]) ys'"]) simp_all
  qed
qed

lemma read_entries_fuel:
  assumes f: "\<And>t. progressing (f t)"
  shows "wf_reader r \<Longrightarrow> remaining r \<le> n \<Longrightarrow> remaining r \<le> m \<Longrightarrow>
    read_entries n f acc r = read_entries m f acc r"
proof (induction n arbitrary: m acc r)
  case 0
  then show ?case by (cases rule: read_u8_cases [OF 0(1)]; cases m) (simp_all add: rbind_def rlift_def)
next
  case (Suc n)
  show ?case
  proof (cases rule: read_u8_cases [OF Suc.prems(1)])
    case 1
    then show ?thesis by (cases m) (simp_all add: rbind_def rlift_def)
  next
    case (2 b r1)
    then obtain m' where m: "m = Suc m'" using Suc.prems(3) by (cases m) auto
    have "read_entries n f (compound_insert acc name v) r3 = read_entries m' f (compound_insert acc name v) r3"
      if "read_modified_utf8 r1 = Inr (name, r2)" "f b r2 = Inr (v, r3)" for name r2 v r3
    proof (rule Suc.IH)
      note p = progressingD [OF progressing_read_mutf8 2(2) that(1)]
      note q = progressingD [OF f p(1) that(2)]
      show "wf_reader r3" "remaining r3 \<le> n" "remaining r3 \<le> m'" using p q 2(3) Suc.prems(2,3) m by linarith+
    qed
    then show ?thesis using 2(1) m
      by (auto simp: rbind_def and_then_def split: sum.splits)
  qed
qed

lemma read_compound_unfold:
  assumes f: "\<And>t. progressing (f t)" and r: "wf_reader r"
  shows "read_compound f acc r = rbind read_u8 (\<lambda>entry_type.
     if entry_type = TAG_END then rreturn acc
     else
       rbind read_modified_utf8 (\<lambda>name.
       rbind (f entry_type) (\<lambda>v.
       read_compound f (compound_insert acc name v)))) r"
proof (cases rule: read_u8_cases [OF r])
  case 1
  then show ?thesis by (simp add: read_compound_def rbind_def rlift_def)
next
  case (2 b r1)
  have "read_entries (remaining r1) f (compound_insert acc name v) r3 =
      read_entries (remaining r3) f (compound_insert acc name v) r3"
    if "read_modified_utf8 r1 = Inr (name, r2)" "f b r2 = Inr (v, r3)" for name r2 v r3
  proof (rule read_entries_fuel [OF f])
    note p = progressingD [OF progressing_read_mutf8 2(2) that(1)]
    note q = progressingD [OF f p(1) that(2)]
    show "wf_reader r3" "remaining r3 \<le> remaining r1" "remaining r3 \<le> remaining r3" using p q by linarith+
  qed
  then show ?thesis using 2(1) unfolding read_compound_def 2(3) [symmetric]
    by (auto simp: rbind_def and_then_def read_compound_def split: sum.splits)
qed

section \<open>Tags, written and read\<close>

text \<open>
  The tags at nesting depth \<open>d\<close> whose strings satisfy \<open>ok\<close>: arrays and lists within the limit, lists of one type, compounds without duplicate keys, and no deeper nesting than
  the decoder accepts.
\<close>

fun wf_nbt :: "(rstring \<Rightarrow> bool) \<Rightarrow> usize \<Rightarrow> nbt_tag \<Rightarrow> bool" where
  "wf_nbt ok d (NByteArray v) \<longleftrightarrow> d \<le> MAX_DEPTH \<and> length v \<le> MAX_ARRAY_LEN"
| "wf_nbt ok d (NString s) \<longleftrightarrow> d \<le> MAX_DEPTH \<and> ok s"
| "wf_nbt ok d (NList element_type items) \<longleftrightarrow> d \<le> MAX_DEPTH \<and> length items \<le> MAX_ARRAY_LEN \<and>
     (element_type = TAG_END \<longrightarrow> items = []) \<and>
     list_all (\<lambda>t. type_id t = element_type \<and> wf_nbt ok (d + 1) t) items"
| "wf_nbt ok d (NCompound entries) \<longleftrightarrow> d \<le> MAX_DEPTH \<and> distinct (map fst entries) \<and>
     list_all (\<lambda>e. ok (fst e) \<and> wf_nbt ok (d + 1) (snd e)) entries"
| "wf_nbt ok d (NIntArray v) \<longleftrightarrow> d \<le> MAX_DEPTH \<and> length v \<le> MAX_ARRAY_LEN"
| "wf_nbt ok d (NLongArray v) \<longleftrightarrow> d \<le> MAX_DEPTH \<and> length v \<le> MAX_ARRAY_LEN"
| "wf_nbt ok d _ \<longleftrightarrow> d \<le> MAX_DEPTH"

lemma wf_nbt_depth: "wf_nbt ok d t \<Longrightarrow> d \<le> MAX_DEPTH"
  by (cases t) auto

lemma read_payload_too_deep: "MAX_DEPTH < d \<Longrightarrow> read_payload ty d r = Inl (NbtTooDeep MAX_DEPTH)"
  by (simp add: read_payload.simps)

lemma read_payload_at:
  assumes "d \<le> MAX_DEPTH"
  shows "read_payload TAG_BYTE d = rbind read_i8 (\<lambda>v. rreturn (NByte v))"
    "read_payload TAG_SHORT d = rbind read_i16 (\<lambda>v. rreturn (NShort v))"
    "read_payload TAG_INT d = rbind read_i32 (\<lambda>v. rreturn (NInt v))"
    "read_payload TAG_LONG d = rbind read_i64 (\<lambda>v. rreturn (NLong v))"
    "read_payload TAG_FLOAT d = rbind read_f32 (\<lambda>v. rreturn (NFloat v))"
    "read_payload TAG_DOUBLE d = rbind read_f64 (\<lambda>v. rreturn (NDouble v))"
    "read_payload TAG_BYTE_ARRAY d = rbind read_len (\<lambda>len. rbind (read_bytes len) (\<lambda>bs. rreturn (NByteArray bs)))"
    "read_payload TAG_STRING d = rbind read_modified_utf8 (\<lambda>s. rreturn (NString s))"
    "read_payload TAG_LIST d = rbind read_u8 (\<lambda>element_type. rbind read_len (\<lambda>len.
        if element_type = TAG_END \<and> 0 < len then rlift (Inl (Nbt ''non-empty list of TAG_End''))
        else rbind (read_n len (read_payload element_type (d + 1))) (\<lambda>items.
          rreturn (NList element_type items))))"
    "read_payload TAG_COMPOUND d =
       rbind (read_compound (\<lambda>entry_type. read_payload entry_type (d + 1)) []) (\<lambda>compound.
       rreturn (NCompound compound))"
    "read_payload TAG_INT_ARRAY d = rbind read_len (\<lambda>len. rbind (read_n len read_i32) (\<lambda>v. rreturn (NIntArray v)))"
    "read_payload TAG_LONG_ARRAY d = rbind read_len (\<lambda>len. rbind (read_n len read_i64) (\<lambda>v. rreturn (NLongArray v)))"
  using assms by (subst read_payload.simps, simp add: tag_defs not_less [symmetric])+

lemma progressing_read_payload [progress_intros]: "progressing (read_payload ty d)"
proof (induction "MAX_DEPTH + 1 - d" arbitrary: ty d rule: less_induct)
  case less
  show ?case
  proof (cases "MAX_DEPTH < d")
    case True
    then show ?thesis by (subst read_payload.simps) (simp add: progressing_rlift)
  next
    case False
    then have IH: "progressing (read_payload t (d + 1))" for t by (intro less) simp
    show ?thesis by (subst read_payload.simps) (intro progress_intros IH)
  qed
qed

text \<open>The entries of a compound, read into what has been read before.\<close>

lemma compound_insert_new: "key \<notin> set (map fst es) \<Longrightarrow> compound_insert es key v = es @ [(key, v)]"
  by (induction es key v rule: compound_insert.induct) auto

lemma type_id_not_end [simp]: "type_id t \<noteq> TAG_END"
  by (cases t) (simp_all add: tag_defs)

definition write_entry :: "rstring \<times> nbt_tag \<Rightarrow> bytes" where
  "write_entry e = write_u8 (type_id (snd e)) @ write_modified_utf8 (fst e) @ write_payload (snd e)"

lemma write_entries: "write_payload (NCompound es) = concat (map write_entry es) @ write_u8 TAG_END"
  by (simp add: write_entry_def [abs_def])

lemma read_compound_rt:
  assumes prog: "\<And>t. progressing (f t)"
    and vals: "\<And>e xs ys. e \<in> set es \<Longrightarrow> length xs + length (write_payload (snd e)) + length ys < 2 ^ 64 \<Longrightarrow>
      f (type_id (snd e)) (cursor xs (write_payload (snd e) @ ys)) =
        Inr (snd e, cursor (xs @ write_payload (snd e)) ys)"
  shows "distinct (map fst (acc @ es)) \<Longrightarrow> list_all (\<lambda>e. nbt_string (fst e)) es \<Longrightarrow>
    length xs + length (concat (map write_entry es) @ write_u8 TAG_END) + length ys < 2 ^ 64 \<Longrightarrow>
    read_compound f acc (cursor xs ((concat (map write_entry es) @ write_u8 TAG_END) @ ys)) =
      Inr (acc @ es, cursor (xs @ concat (map write_entry es) @ write_u8 TAG_END) ys)"
  using vals
proof (induction es arbitrary: acc xs)
  case Nil
  then show ?case
    using u8c.rt [of xs TAG_END ys]
    by (subst read_compound_unfold [OF prog]) (simp_all add: rbind_def rreturn_def)
next
  case (Cons e es)
  let ?tl = "concat (map write_entry es) @ write_u8 TAG_END"
  let ?t = "write_u8 (type_id (snd e))" and ?n = "write_modified_utf8 (fst e)" and ?v = "write_payload (snd e)"
  have len: "length xs + (length ?t + (length ?n + (length ?v + (length ?tl + length ys)))) < 2 ^ 64"
    using Cons.prems(3) by (simp add: write_entry_def [of e])
  have 1: "read_u8 (cursor xs (?t @ ?n @ ?v @ ?tl @ ys)) =
      Inr (type_id (snd e), cursor (xs @ ?t) (?n @ ?v @ ?tl @ ys))"
    using len by (intro u8c.rt) simp_all
  have 2: "read_modified_utf8 (cursor (xs @ ?t) (?n @ ?v @ ?tl @ ys)) =
      Inr (fst e, cursor ((xs @ ?t) @ ?n) (?v @ ?tl @ ys))"
    using len Cons.prems(2) by (intro mutf8c.rt) simp_all
  have 3: "f (type_id (snd e)) (cursor ((xs @ ?t) @ ?n) (?v @ ?tl @ ys)) =
      Inr (snd e, cursor (((xs @ ?t) @ ?n) @ ?v) (?tl @ ys))"
    using len by (intro Cons.prems(4)) simp_all
  have ins: "compound_insert acc (fst e) (snd e) = acc @ [e]"
    using Cons.prems(1) by (subst compound_insert_new) auto
  have 4: "read_compound f (acc @ [e]) (cursor (((xs @ ?t) @ ?n) @ ?v) (?tl @ ys)) =
      Inr ((acc @ [e]) @ es, cursor ((((xs @ ?t) @ ?n) @ ?v) @ ?tl) ys)"
    using Cons.prems len by (intro Cons.IH) simp_all
  have "read_compound f acc (cursor xs (?t @ ?n @ ?v @ ?tl @ ys)) =
      Inr (acc @ e # es, cursor (xs @ ?t @ ?n @ ?v @ ?tl) ys)"
    using len 1 2 3 4 ins by (subst read_compound_unfold [OF prog]) (simp_all add: rbind_def)
  then show ?case by (simp add: write_entry_def [of e])
qed

context codec
begin

lemma counted_rt:
  assumes "list_all ok v" "length v \<le> MAX_ARRAY_LEN"
    and "length xs + length (write_i32 (word_of_nat (length v)) @ concat (map wr v)) + length ys < 2 ^ 64"
  shows "rbind read_len (\<lambda>len. rbind (read_n len rd) (\<lambda>v. rreturn (F v)))
      (cursor xs ((write_i32 (word_of_nat (length v)) @ concat (map wr v)) @ ys)) =
    Inr (F v, cursor (xs @ write_i32 (word_of_nat (length v)) @ concat (map wr v)) ys)"
proof -
  let ?l = "write_i32 (word_of_nat (length v))"
  have "read_len (cursor xs (?l @ concat (map wr v) @ ys)) =
      Inr (length v, cursor (xs @ ?l) (concat (map wr v) @ ys))"
    using assms(2,3) by (intro lenc.rt) simp_all
  moreover have "read_n (length v) rd (cursor (xs @ ?l) (concat (map wr v) @ ys)) =
      Inr (v, cursor ((xs @ ?l) @ concat (map wr v)) ys)"
    using assms(1,3) by (intro read_n_rt) simp_all
  ultimately show ?thesis by (simp add: rbind_def rreturn_def)
qed

end

lemma concat_map_i8: "concat (map write_i8 v) = v"
  by (induction v) (simp_all add: write_i8_def)

lemma read_payload_list_rt:
  assumes d: "d \<le> MAX_DEPTH" and wf: "wf_nbt nbt_string d (NList et items)"
    and IH: "\<And>t xs ys. t \<in> set items \<Longrightarrow> length xs + length (write_payload t) + length ys < 2 ^ 64 \<Longrightarrow>
      read_payload (type_id t) (d + 1) (cursor xs (write_payload t @ ys)) = Inr (t, cursor (xs @ write_payload t) ys)"
    and len: "length xs + length (write_payload (NList et items)) + length ys < 2 ^ 64"
  shows "read_payload TAG_LIST d (cursor xs (write_payload (NList et items) @ ys)) =
    Inr (NList et items, cursor (xs @ write_payload (NList et items)) ys)"
proof -
  let ?l = "write_i32 (word_of_nat (length items)) @ concat (map write_payload items)"
  have c: "codec write_payload (read_payload et (d + 1)) (\<lambda>t. t \<in> set items)"
  proof
    fix t and xs ys :: bytes assume t: "t \<in> set items" and l: "length xs + length (write_payload t) + length ys < 2 ^ 64"
    have "type_id t = et" using wf t by (simp add: list_all_iff)
    with IH [OF t l] show "read_payload et (d + 1) (cursor xs (write_payload t @ ys)) =
        Inr (t, cursor (xs @ write_payload t) ys)" by simp
  qed
  have "read_u8 (cursor xs (write_u8 et @ ?l @ ys)) = Inr (et, cursor (xs @ write_u8 et) (?l @ ys))"
    using len by (intro u8c.rt) simp_all
  moreover have "rbind read_len (\<lambda>n. rbind (read_n n (read_payload et (d + 1))) (\<lambda>v. rreturn (NList et v)))
      (cursor (xs @ write_u8 et) (?l @ ys)) = Inr (NList et items, cursor ((xs @ write_u8 et) @ ?l) ys)"
    using wf len by (intro codec.counted_rt [OF c]) (simp_all add: list_all_iff)
  moreover have "read_len (cursor (xs @ write_u8 et) (?l @ ys)) =
      Inr (length items, cursor ((xs @ write_u8 et) @ write_i32 (word_of_nat (length items)))
        (concat (map write_payload items) @ ys))"
    using lenc.rt [of "length items" "xs @ write_u8 et" "concat (map write_payload items) @ ys"] wf len by simp
  moreover have "\<not> (et = TAG_END \<and> 0 < length items)" using wf by auto
  ultimately show ?thesis by (simp add: read_payload_at [OF d] rbind_def)
qed

lemma read_payload_rt:
  "wf_nbt nbt_string d t \<Longrightarrow> length xs + length (write_payload t) + length ys < 2 ^ 64 \<Longrightarrow>
     read_payload (type_id t) d (cursor xs (write_payload t @ ys)) = Inr (t, cursor (xs @ write_payload t) ys)"
proof (induction t arbitrary: d xs ys)
  case (NByteArray v)
  then have d: "d \<le> MAX_DEPTH" by simp
  let ?l = "write_i32 (word_of_nat (length v))"
  have "read_len (cursor xs (?l @ v @ ys)) = Inr (length v, cursor (xs @ ?l) (v @ ys))"
    using NByteArray by (intro lenc.rt) (simp_all add: concat_map_i8)
  moreover have "take_n (length v) (cursor (xs @ ?l) (v @ ys)) = Inr (v, cursor ((xs @ ?l) @ v) ys)"
    using NByteArray by (intro take_n_cursor) (simp add: concat_map_i8)
  ultimately show ?case by (simp add: read_payload_at [OF d] rbind_def rreturn_def concat_map_i8 read_bytes_def)
next
  case (NList et items)
  then have d: "d \<le> MAX_DEPTH" by simp
  have "read_payload TAG_LIST d (cursor xs (write_payload (NList et items) @ ys)) =
    Inr (NList et items, cursor (xs @ write_payload (NList et items)) ys)"
    using NList.prems NList.IH by (intro read_payload_list_rt [OF d]) (auto simp: list_all_iff)
  then show ?case by simp
next
  case (NCompound es)
  then have d: "d \<le> MAX_DEPTH" by simp
  have "read_compound (\<lambda>ty. read_payload ty (d + 1)) []
      (cursor xs ((concat (map write_entry es) @ write_u8 TAG_END) @ ys)) =
    Inr ([] @ es, cursor (xs @ concat (map write_entry es) @ write_u8 TAG_END) ys)"
  proof (rule read_compound_rt [OF progressing_read_payload])
    show "distinct (map fst ([] @ es))" "list_all (\<lambda>e. nbt_string (fst e)) es"
      using NCompound.prems(1) by (simp_all add: list_all_iff)
    show "length xs + length (concat (map write_entry es) @ write_u8 TAG_END) + length ys < 2 ^ 64"
      using NCompound.prems(2) unfolding write_entries .
    fix e and xs ys :: bytes assume e: "e \<in> set es" and l: "length xs + length (write_payload (snd e)) + length ys < 2 ^ 64"
    have "wf_nbt nbt_string (d + 1) (snd e)" using NCompound.prems(1) e by (simp add: list_all_iff)
    then show "read_payload (type_id (snd e)) (d + 1) (cursor xs (write_payload (snd e) @ ys)) =
        Inr (snd e, cursor (xs @ write_payload (snd e)) ys)"
      using NCompound.IH [OF e _ _ l] by (simp add: snds.simps)
  qed
  then have "read_payload TAG_COMPOUND d (cursor xs (write_payload (NCompound es) @ ys)) =
      Inr (NCompound es, cursor (xs @ write_payload (NCompound es)) ys)"
    unfolding write_entries by (simp add: read_payload_at [OF d] rbind_def rreturn_def)
  then show ?case by simp
next
  case (NString s)
  then have d: "d \<le> MAX_DEPTH" and s: "nbt_string s" by simp_all
  then show ?case using NString.prems(2) mutf8c.rt [OF s, of xs ys]
    by (simp add: read_payload_at [OF d] rbind_def rreturn_def)
next
  case (NIntArray v)
  then have d: "d \<le> MAX_DEPTH" by simp
  show ?case using NIntArray i32c.counted_rt [of v xs ys NIntArray] by (simp add: read_payload_at [OF d] list_all_iff)
next
  case (NLongArray v)
  then have d: "d \<le> MAX_DEPTH" by simp
  show ?case using NLongArray i64c.counted_rt [of v xs ys NLongArray] by (simp add: read_payload_at [OF d] list_all_iff)
next
  case (NByte v)
  then have d: "d \<le> MAX_DEPTH" by simp
  show ?case using NByte i8c.rt [of xs v ys] by (simp add: read_payload_at [OF d] rbind_def rreturn_def)
next
  case (NShort v)
  then have d: "d \<le> MAX_DEPTH" by simp
  show ?case using NShort i16c.rt [of xs v ys] by (simp add: read_payload_at [OF d] rbind_def rreturn_def)
next
  case (NInt v)
  then have d: "d \<le> MAX_DEPTH" by simp
  show ?case using NInt i32c.rt [of xs v ys] by (simp add: read_payload_at [OF d] rbind_def rreturn_def)
next
  case (NLong v)
  then have d: "d \<le> MAX_DEPTH" by simp
  show ?case using NLong i64c.rt [of xs v ys] by (simp add: read_payload_at [OF d] rbind_def rreturn_def)
next
  case (NFloat v)
  then have d: "d \<le> MAX_DEPTH" by simp
  show ?case using NFloat f32c.rt [of xs v ys] by (simp add: read_payload_at [OF d] rbind_def rreturn_def)
next
  case (NDouble v)
  then have d: "d \<le> MAX_DEPTH" by simp
  show ?case using NDouble f64c.rt [of xs v ys] by (simp add: read_payload_at [OF d] rbind_def rreturn_def)
qed

text \<open>The network encoding as a codec, for the packets that carry NBT.\<close>

interpretation nbtc: codec write_network read_network "wf_nbt nbt_string 0"
proof
  fix t :: nbt_tag and xs ys :: bytes
  assume wf: "wf_nbt nbt_string 0 t" and len: "length xs + length (write_network t) + length ys < 2 ^ 64"
  have "read_u8 (cursor xs (write_u8 (type_id t) @ write_payload t @ ys)) =
      Inr (type_id t, cursor (xs @ write_u8 (type_id t)) (write_payload t @ ys))"
    using len by (intro u8c.rt) (simp_all add: write_network_def)
  moreover have "read_payload (type_id t) 0 (cursor (xs @ write_u8 (type_id t)) (write_payload t @ ys)) =
      Inr (t, cursor ((xs @ write_u8 (type_id t)) @ write_payload t) ys)"
    using len by (intro read_payload_rt wf) (simp add: write_network_def)
  ultimately show "read_network (cursor xs (write_network t @ ys)) = Inr (t, cursor (xs @ write_network t) ys)"
    by (simp add: read_network_def write_network_def rbind_def)
qed

lemma progressing_read_network [progress_intros]: "progressing read_network"
  unfolding read_network_def by (intro progress_intros)

section \<open>What the decoder accepts\<close>

lemma valid_str_decode: "decode_modified_utf8 bs = Inr s \<Longrightarrow> valid_str s"
proof (induction "length bs" arbitrary: bs s rule: less_induct)
  case less
  have cp: "is_scalar c" if "code_point n = Inr c" for n c
    using that by (auto simp: code_point_def char_from_u32_def split: if_splits option.splits)
  have a: "is_scalar (ucast b)" for b :: u8 by (rule is_scalar_small [OF ucast_u8_small])
  show ?case
  proof (cases bs)
    case (Cons b rest)
    have IH: "valid_str s'" if "decode_modified_utf8 (drop k rest) = Inr s'" for k s'
      by (rule less.hyps [OF _ that]) (simp add: Cons)
    from less.prems IH [of 0] show ?thesis unfolding Cons
      by (auto simp: decode_modified_utf8.simps(2) and_then_Inr_iff a split: if_splits dest: cp IH)
  qed (use less.prems in simp)
qed

lemma read_modified_utf8_valid: "read_modified_utf8 r = Inr (s, r') \<Longrightarrow> valid_str s"
  by (auto simp: read_modified_utf8_def rbind_def rlift_def and_then_Inr_iff intro: valid_str_decode)

lemma read_len_bound: "read_len r = Inr (n, r') \<Longrightarrow> n \<le> MAX_ARRAY_LEN"
  by (auto simp: read_len_def rbind_def rlift_def rreturn_def and_then_Inr_iff Let_def split: if_splits)

lemma take_n_length: "take_n n r = Inr (bs, r') \<Longrightarrow> length bs = n"
  by (auto simp: take_n_def usize_checked_add_def split: if_splits option.splits)

lemma read_n_all:
  "read_n n f r = Inr (xs, r') \<Longrightarrow> (\<And>r x r'. f r = Inr (x, r') \<Longrightarrow> P x) \<Longrightarrow> length xs = n \<and> list_all P xs"
proof (induction n arbitrary: r xs)
  case (Suc n)
  from Suc.prems(1) obtain x r1 ys where "f r = Inr (x, r1)" "read_n n f r1 = Inr (ys, r')" "xs = x # ys"
    by (auto simp: rbind_def rreturn_def and_then_Inr_iff)
  with Suc.IH [of r1 ys] Suc.prems(2) show ?case by auto
qed (simp add: rreturn_def)

lemma set_compound_insert: "e \<in> set (compound_insert es k v) \<Longrightarrow> e \<in> set es \<or> e = (k, v)"
  by (induction es k v rule: compound_insert.induct) (auto split: if_splits)

lemma keys_compound_insert:
  "map fst (compound_insert es k v) = map fst es @ (if k \<in> set (map fst es) then [] else [k])"
  by (induction es k v rule: compound_insert.induct) auto

lemma read_entries_all:
  "read_entries n f acc r = Inr (es, r') \<Longrightarrow> (\<And>t r x r'. f t r = Inr (x, r') \<Longrightarrow> P x) \<Longrightarrow>
     distinct (map fst acc) \<Longrightarrow> list_all (\<lambda>e. valid_str (fst e) \<and> P (snd e)) acc \<Longrightarrow>
     distinct (map fst es) \<and> list_all (\<lambda>e. valid_str (fst e) \<and> P (snd e)) es"
proof (induction n arbitrary: acc r)
  case (Suc n)
  from Suc.prems(1) obtain ty r1 where ty: "read_u8 r = Inr (ty, r1)"
    and rest: "(if ty = TAG_END then rreturn acc else rbind read_modified_utf8 (\<lambda>name. rbind (f ty) (\<lambda>v.
      read_entries n f (compound_insert acc name v)))) r1 = Inr (es, r')"
    by (auto simp: rbind_def [of read_u8] and_then_Inr_iff)
  show ?case
  proof (cases "ty = TAG_END")
    case True
    with rest Suc.prems show ?thesis by (simp add: rreturn_def)
  next
    case False
    with rest obtain name r2 v r3 where s: "read_modified_utf8 r1 = Inr (name, r2)" "f ty r2 = Inr (v, r3)"
      "read_entries n f (compound_insert acc name v) r3 = Inr (es, r')"
      by (auto simp: rbind_def and_then_Inr_iff)
    show ?thesis
    proof (rule Suc.IH [OF s(3) Suc.prems(2)])
      show "f t r = Inr (x, r') \<Longrightarrow> f t r = Inr (x, r')" for t r x r' .
      show "distinct (map fst (compound_insert acc name v))"
        using Suc.prems(3) by (simp add: keys_compound_insert)
      show "list_all (\<lambda>e. valid_str (fst e) \<and> P (snd e)) (compound_insert acc name v)"
        using Suc.prems(2,4) s read_modified_utf8_valid [OF s(1)]
        by (auto simp: list_all_iff dest!: set_compound_insert)
    qed
  qed
qed (simp add: rlift_def)

lemma read_payload_type:
  assumes "read_payload ty d r = Inr (t, r')" "d \<le> MAX_DEPTH"
  shows "ty = TAG_BYTE \<or> ty = TAG_SHORT \<or> ty = TAG_INT \<or> ty = TAG_LONG \<or> ty = TAG_FLOAT \<or> ty = TAG_DOUBLE \<or>
    ty = TAG_BYTE_ARRAY \<or> ty = TAG_STRING \<or> ty = TAG_LIST \<or> ty = TAG_COMPOUND \<or> ty = TAG_INT_ARRAY \<or>
    ty = TAG_LONG_ARRAY"
proof (rule ccontr)
  assume n: "\<not> ?thesis"
  have "read_payload ty d = rlift (Inl (InvalidEnum ''NBT tag type'' (ucast ty)))"
    using n assms(2) by (subst read_payload.simps) (simp add: not_less [symmetric])
  with assms(1) show False by simp
qed

lemma read_payload_sound:
  "read_payload ty d r = Inr (t, r') \<Longrightarrow> type_id t = ty \<and> wf_nbt valid_str d t"
proof (induction "MAX_DEPTH + 1 - d" arbitrary: ty d r t r' rule: less_induct)
  case less
  show ?case
  proof (cases "MAX_DEPTH < d")
    case True
    with less.prems show ?thesis by (simp add: read_payload_too_deep)
  next
    case False
    then have d: "d \<le> MAX_DEPTH" by simp
    have IH: "type_id x = ty' \<and> wf_nbt valid_str (d + 1) x" if "read_payload ty' (d + 1) r1 = Inr (x, r2)" for ty' x r1 r2
      using less.hyps [OF _ that] d by simp
    have items: "length xs = n \<and> list_all (\<lambda>x. type_id x = ty' \<and> wf_nbt valid_str (d + 1) x) xs"
      if "read_n n (read_payload ty' (d + 1)) r1 = Inr (xs, r2)" for n ty' xs r1 r2
      by (rule read_n_all [OF that]) (rule IH)
    have entries: "distinct (map fst es) \<and> list_all (\<lambda>e. valid_str (fst e) \<and> wf_nbt valid_str (d + 1) (snd e)) es"
      if "read_compound (\<lambda>ty'. read_payload ty' (d + 1)) [] r1 = Inr (es, r2)" for es r1 r2
      using that unfolding read_compound_def
      by (rule read_entries_all [where P = "wf_nbt valid_str (d + 1)"]) (rule conjunct2 [OF IH], assumption, simp_all)
    have fixed: "length xs \<le> MAX_ARRAY_LEN" if "read_len r1 = Inr (n, r2)" "read_n n f r2 = Inr (xs, r3)"
      for n xs r1 r2 r3 and f :: "'a reader"
      using read_len_bound [OF that(1)] read_n_all [OF that(2), of "\<lambda>_. True"] by simp
    note at = read_payload_at [OF d]
    note step = rbind_Inr_iff rreturn_def
    from read_payload_type [OF less.prems d] show ?thesis
    proof (elim disjE)
      assume "ty = TAG_BYTE_ARRAY"
      with less.prems d show ?thesis
        by (auto simp: at step read_bytes_def dest!: read_len_bound take_n_length)
    next
      assume "ty = TAG_STRING"
      with less.prems d show ?thesis by (auto simp: at step dest!: read_modified_utf8_valid)
    next
      assume "ty = TAG_LIST"
      with less.prems obtain et n r1 r2 xs where l: "read_len r1 = Inr (n, r2)"
        "read_n n (read_payload et (d + 1)) r2 = Inr (xs, r')" "\<not> (et = TAG_END \<and> 0 < n)" "t = NList et xs"
        by (auto simp: at step rlift_def split: if_splits)
      with items [OF l(2)] read_len_bound [OF l(1)] d \<open>ty = TAG_LIST\<close> show ?thesis by auto
    next
      assume "ty = TAG_COMPOUND"
      with less.prems obtain es where es: "read_compound (\<lambda>ty'. read_payload ty' (d + 1)) [] r = Inr (es, r')"
        "t = NCompound es" by (auto simp: at step)
      with entries [OF es(1)] d \<open>ty = TAG_COMPOUND\<close> show ?thesis by simp
    next
      assume "ty = TAG_INT_ARRAY"
      with less.prems d show ?thesis by (auto simp: at step dest: fixed)
    next
      assume "ty = TAG_LONG_ARRAY"
      with less.prems d show ?thesis by (auto simp: at step dest: fixed)
    qed (use less.prems d in \<open>auto simp: at step\<close>)
  qed
qed

section \<open>Compounds as maps\<close>

lemma compound_get_insert:
  "compound_get (compound_insert es k v) k' = (if k' = k then Some v else compound_get es k')"
  by (induction es k v rule: compound_insert.induct) (auto simp: compound_get_def)

interpretation compound_store: keyed_store compound_get compound_insert "\<lambda>es. distinct (map fst es)"
  by unfold_locales (simp_all add: compound_get_insert keys_compound_insert)

lemma read_named_rt:
  assumes "wf_nbt nbt_string 0 t" "nbt_string name"
    and "length xs + length (write_named name t) + length ys < 2 ^ 64"
  shows "read_named (cursor xs (write_named name t @ ys)) = Inr ((name, t), cursor (xs @ write_named name t) ys)"
proof -
  let ?t = "write_u8 (type_id t)" and ?n = "write_modified_utf8 name"
  have "read_u8 (cursor xs (?t @ ?n @ write_payload t @ ys)) =
      Inr (type_id t, cursor (xs @ ?t) (?n @ write_payload t @ ys))"
    using assms(3) by (intro u8c.rt) (simp_all add: write_named_def)
  moreover have "read_modified_utf8 (cursor (xs @ ?t) (?n @ write_payload t @ ys)) =
      Inr (name, cursor ((xs @ ?t) @ ?n) (write_payload t @ ys))"
    using assms(2,3) by (intro mutf8c.rt) (simp_all add: write_named_def)
  moreover have "read_payload (type_id t) 0 (cursor ((xs @ ?t) @ ?n) (write_payload t @ ys)) =
      Inr (t, cursor (((xs @ ?t) @ ?n) @ write_payload t) ys)"
    using assms(3) by (intro read_payload_rt assms(1)) (simp add: write_named_def)
  ultimately show ?thesis
    by (simp add: read_named_def write_named_def rbind_def rreturn_def)
qed

section \<open>Properties\<close>

text \<open>
  C15: a tag written in the network or the file encoding is read back unchanged, with its root name
  where it has one, whatever surrounds it, provided its strings and arrays fit the format, its lists
  are homogeneous, its compounds have no duplicate key and it nests at most 512 deep.
\<close>

theorem nbt_roundtrip:
  assumes "wf_nbt nbt_string 0 t" "nbt_string name"
    and "length xs + length (write_named name t) + length ys < 2 ^ 64"
  shows "read_network (cursor xs (write_network t @ ys)) = Inr (t, cursor (xs @ write_network t) ys) \<and>
    read_named (cursor xs (write_named name t @ ys)) = Inr ((name, t), cursor (xs @ write_named name t) ys)"
proof
  have len: "length xs + length (write_network t) + length ys < 2 ^ 64"
    using assms(3) by (simp add: write_named_def write_network_def)
  show "read_network (cursor xs (write_network t @ ys)) = Inr (t, cursor (xs @ write_network t) ys)"
    by (rule nbtc.rt [OF assms(1) len])
  show "read_named (cursor xs (write_named name t @ ys)) =
      Inr ((name, t), cursor (xs @ write_named name t) ys)"
    using assms by (rule read_named_rt)
qed

text \<open>A nested tag with a supplementary character, for the witnesses.\<close>

definition sample_tag :: nbt_tag where
  "sample_tag = NCompound [([0x61], NList TAG_STRING [NString [0x1F600], NString []]), ([0x62], NShort 7)]"

lemma sample_wf: "wf_nbt nbt_string 0 sample_tag" "nbt_string [0x61]"
  by (simp_all add: sample_tag_def MAX_DEPTH_def MAX_ARRAY_LEN_def nbt_string_def is_scalar_def
      modified_utf8_len_def mutf8_char_len_def) (simp_all add: tag_defs)

lemma sample_length: "length (write_named [0x61] sample_tag) < 100"
proof -
  have f: "mutf8_fit [0x61] = [0x61]" "mutf8_fit [0x62] = [0x62]" "mutf8_fit [0x1F600] = [0x1F600]" "mutf8_fit [] = []"
    by (rule mutf8_fit_spec(3), simp add: modified_utf8_len_def mutf8_char_len_def)+
  show ?thesis
    by (simp add: write_named_def sample_tag_def write_modified_utf8_eq f length_mutf8_char mutf8_char_len_def
        write_u8_def write_u16_def write_i16_def write_i32_def)
qed

lemma nbt_roundtrip_witness:
  "read_network (cursor [] (write_network sample_tag @ [9])) = Inr (sample_tag, cursor (write_network sample_tag) [9])"
  using nbt_roundtrip [OF sample_wf, of "[]" "[9]"] sample_length by simp

text \<open>
  C28: whatever bytes the decoder accepts, the tag it returns has only valid strings, arrays and lists
  within the allocation limit, homogeneous lists, no duplicate key in a compound and at most 512
  levels of nesting; the reader has moved forward and stays in the buffer.
\<close>

theorem nbt_decoder_sound:
  assumes "wf_reader r" "read_network r = Inr (t, r')"
  shows "wf_nbt valid_str 0 t \<and> wf_reader r' \<and> rd_buf r' = rd_buf r \<and> rd_pos r \<le> rd_pos r'"
proof -
  obtain ty r1 where "read_payload ty 0 r1 = Inr (t, r')"
    using assms(2) by (auto simp: read_network_def rbind_Inr_iff rlift_def split: if_splits)
  then have "wf_nbt valid_str 0 t" using read_payload_sound by blast
  with progressingD [OF progressing_read_network assms] show ?thesis by simp
qed

lemma nbt_decoder_sound_witness: "wf_nbt valid_str 0 sample_tag"
proof -
  have l: "length (write_network sample_tag) < 2 ^ 64"
    using sample_length by (simp add: write_named_def write_network_def)
  with nbtc.rt_new [OF sample_wf(1)] have
    "read_network (reader_new (write_network sample_tag)) = Inr (sample_tag, cursor (write_network sample_tag) [])"
    by simp
  moreover have "wf_reader (reader_new (write_network sample_tag))" using l by (simp add: reader_new_cursor)
  ultimately show ?thesis using nbt_decoder_sound by blast
qed

text \<open>
  Every Unicode string, written in modified UTF-8 with its 16-bit length, is read back as the
  longest prefix of whole characters that takes at most 65535 bytes; a string that fits comes back
  whole, supplementary characters and \<open>U+0000\<close> included.
\<close>

lemma mutf8_truncates_at_character:
  assumes "valid_str s" "length xs + length (write_modified_utf8 s) + length ys < 2 ^ 64"
  shows "\<exists>p q. s = p @ q \<and> modified_utf8_len p \<le> 65535 \<and>
    (q = [] \<or> 65535 < modified_utf8_len (p @ [hd q])) \<and>
    read_modified_utf8 (cursor xs (write_modified_utf8 s @ ys)) = Inr (p, cursor (xs @ write_modified_utf8 s) ys)"
proof -
  obtain q where "s = mutf8_fit s @ q" "q = [] \<or> 65535 < modified_utf8_len (mutf8_fit s) + mutf8_char_len (hd q)"
    using mutf8_fit_spec(2) [of s] by blast
  with read_write_mutf8 [OF assms] mutf8_fit_spec(1) [of s] show ?thesis
    by (intro exI [of _ "mutf8_fit s"] exI [of _ q]) (auto simp: modified_utf8_len_def)
qed

lemma mutf8_truncates_at_character_witness:
  "\<exists>p q. [0, 0x41, 0x1F600] = p @ q \<and> modified_utf8_len p \<le> 65535 \<and>
     read_modified_utf8 (cursor [] (write_modified_utf8 [0, 0x41, 0x1F600] @ [])) =
       Inr (p, cursor (write_modified_utf8 [0, 0x41, 0x1F600]) [])"
proof -
  have f: "mutf8_fit [0, 0x41, 0x1F600] = [0, 0x41, 0x1F600]"
    by (rule mutf8_fit_spec(3)) (simp add: modified_utf8_len_def mutf8_char_len_def)
  have "length (write_modified_utf8 [0, 0x41, 0x1F600]) = 11"
    by (simp add: write_modified_utf8_eq f length_mutf8_char mutf8_char_len_def write_u16_def)
  with mutf8_truncates_at_character [of "[0, 0x41, 0x1F600]" "[]" "[]"] show ?thesis
    by (auto simp: is_scalar_def)
qed

text \<open>
  A compound behaves as a map under a sequence of inserts: a lookup returns the value of the last
  insert of its key, keys stay distinct, and an empty compound has none.
\<close>

lemma compound_last_insert_wins:
  "compound_get (fold (\<lambda>(k, v) es. compound_insert es k v) kvs []) key = map_of (rev kvs) key \<and>
   distinct (map fst (fold (\<lambda>(k, v) es. compound_insert es k v) kvs []))"
proof -
  have "compound_get [] key = None" by (simp add: compound_get_def)
  then show ?thesis using compound_store.ins_all [of "[]" kvs key] by (auto split: option.splits)
qed

text \<open>
  Reading the entries of a compound is the code's loop: it stops at \<open>TAG_End\<close> or at the first
  error, and otherwise reads a name and a value, inserts them and goes on; the fuel of the model never
  decides the outcome, so the loop always terminates.
\<close>

lemma compound_loop_unfolds:
  assumes "wf_reader r"
  shows "read_compound (\<lambda>ty. read_payload ty d) acc r = rbind read_u8 (\<lambda>ty.
     if ty = TAG_END then rreturn acc
     else
       rbind read_modified_utf8 (\<lambda>name.
       rbind (read_payload ty d) (\<lambda>v.
       read_compound (\<lambda>ty. read_payload ty d) (compound_insert acc name v)))) r"
  using read_compound_unfold [OF progressing_read_payload assms] .

lemma compound_loop_unfolds_witness:
  "read_compound (\<lambda>ty. read_payload ty 1) [] (reader_new [0, 5]) = Inr ([], cursor [0] [5])"
proof -
  have "wf_reader (reader_new [0, 5])" by (simp add: reader_new_cursor)
  moreover have "read_u8 (reader_new [0, 5]) = Inr (0, cursor [0] [5])"
    using read_u8_cursor [of "[]" "[0, 5]"] by (simp add: reader_new_cursor)
  ultimately show ?thesis by (subst compound_loop_unfolds) (simp_all add: rbind_def rreturn_def TAG_END_def)
qed

end
