(* ===== verification/Text.thy ===== *)
theory Text
  imports Nbt
begin

text \<open>
  \<open>crates/rukkit-protocol/src/text.rs\<close>: chat components, their network NBT form and their plain text.
  A component is a datatype because it contains its children; the builder methods return it changed.
  The JSON form is produced by \<open>serde_json\<close> and is a parameter where the server sends it.
\<close>

section \<open>Components\<close>

datatype named_color =
    Black | DarkBlue | DarkGreen | DarkAqua | DarkRed | DarkPurple | Gold | Gray
  | DarkGray | Blue | Green | Aqua | Red | LightPurple | Yellow | White

fun color_as_str :: "named_color \<Rightarrow> rstring" where
  "color_as_str Black = lit ''black''"
| "color_as_str DarkBlue = lit ''dark_blue''"
| "color_as_str DarkGreen = lit ''dark_green''"
| "color_as_str DarkAqua = lit ''dark_aqua''"
| "color_as_str DarkRed = lit ''dark_red''"
| "color_as_str DarkPurple = lit ''dark_purple''"
| "color_as_str Gold = lit ''gold''"
| "color_as_str Gray = lit ''gray''"
| "color_as_str DarkGray = lit ''dark_gray''"
| "color_as_str Blue = lit ''blue''"
| "color_as_str Green = lit ''green''"
| "color_as_str Aqua = lit ''aqua''"
| "color_as_str Red = lit ''red''"
| "color_as_str LightPurple = lit ''light_purple''"
| "color_as_str Yellow = lit ''yellow''"
| "color_as_str White = lit ''white''"

datatype component = Component
  (comp_text: "rstring option") (comp_translate: "rstring option") (comp_color: "rstring option")
  (comp_bold: "bool option") (comp_italic: "bool option") (comp_underlined: "bool option")
  (comp_strikethrough: "bool option") (comp_obfuscated: "bool option") (comp_extra: "component list")

definition component_default :: component where
  "component_default = Component None None None None None None None None []"

definition component_text :: "rstring \<Rightarrow> component" where
  "component_text t = Component (Some t) None None None None None None None []"

definition component_translate :: "rstring \<Rightarrow> component" where
  "component_translate key = Component None (Some key) None None None None None None []"

fun with_color :: "component \<Rightarrow> named_color \<Rightarrow> component" where
  "with_color (Component t tr c b i u s ob ex) color = Component t tr (Some (color_as_str color)) b i u s ob ex"

text \<open>\<open>format!("#{:06X}", rgb & 0xFF_FFFF)\<close>: six upper-case hexadecimal digits.\<close>

definition hex_digit :: "nat \<Rightarrow> rchar" where
  "hex_digit n = (if n < 10 then of_nat (48 + n) else of_nat (55 + n))"

definition format_06X :: "u32 \<Rightarrow> rstring" where
  "format_06X w = map (\<lambda>i. hex_digit (unat w div 16 ^ i mod 16)) [5, 4, 3, 2, 1, 0]"

fun hex_color :: "component \<Rightarrow> u32 \<Rightarrow> component" where
  "hex_color (Component t tr c b i u s ob ex) rgb =
     Component t tr (Some (lit ''#'' @ format_06X (rgb AND 0xFFFFFF))) b i u s ob ex"

fun with_bold :: "component \<Rightarrow> bool \<Rightarrow> component" where
  "with_bold (Component t tr c b i u s ob ex) v = Component t tr c (Some v) i u s ob ex"

fun with_italic :: "component \<Rightarrow> bool \<Rightarrow> component" where
  "with_italic (Component t tr c b i u s ob ex) v = Component t tr c b (Some v) u s ob ex"

fun with_underlined :: "component \<Rightarrow> bool \<Rightarrow> component" where
  "with_underlined (Component t tr c b i u s ob ex) v = Component t tr c b i (Some v) s ob ex"

fun with_strikethrough :: "component \<Rightarrow> bool \<Rightarrow> component" where
  "with_strikethrough (Component t tr c b i u s ob ex) v = Component t tr c b i u (Some v) ob ex"

fun with_obfuscated :: "component \<Rightarrow> bool \<Rightarrow> component" where
  "with_obfuscated (Component t tr c b i u s ob ex) v = Component t tr c b i u s (Some v) ex"

fun append_child :: "component \<Rightarrow> component \<Rightarrow> component" where
  "append_child (Component t tr c b i u s ob ex) child = Component t tr c b i u s ob (ex @ [child])"

section \<open>Network NBT\<close>

definition insert_some :: "string \<Rightarrow> ('a \<Rightarrow> nbt_tag) \<Rightarrow> 'a option \<Rightarrow> nbt_compound \<Rightarrow> nbt_compound" where
  "insert_some key into v c = (case v of Some x \<Rightarrow> compound_insert c (lit key) (into x) | None \<Rightarrow> c)"

fun to_nbt :: "component \<Rightarrow> nbt_tag" where
  "to_nbt (Component txt translate color bold italic underlined strikethrough obfuscated extra) =
     (let c = [];
          c = insert_some ''text'' NString txt c;
          c = insert_some ''translate'' NString translate c;
          c = insert_some ''color'' NString color c;
          c = fold (\<lambda>(key, v) c. insert_some key nbt_from_bool v c)
                [(''bold'', bold), (''italic'', italic), (''underlined'', underlined),
                 (''strikethrough'', strikethrough), (''obfuscated'', obfuscated)] c;
          c = (if extra \<noteq> [] then
                 (case list_new (map to_nbt extra) of
                    Some (element_type, items) \<Rightarrow> compound_insert c (lit ''extra'') (NList element_type items)
                  | None \<Rightarrow> c)
               else c)
      in NCompound c)"

section \<open>Plain text\<close>

fun write_plain :: "component \<Rightarrow> rstring \<Rightarrow> rstring" where
  "write_plain (Component txt translate color bold italic underlined strikethrough obfuscated extra) out =
     (let out = (case txt of
            Some t \<Rightarrow> out @ t
          | None \<Rightarrow> (case translate of Some key \<Rightarrow> out @ key | None \<Rightarrow> out))
      in fold write_plain extra out)"

definition plain_text :: "component \<Rightarrow> rstring" where
  "plain_text c = write_plain c []"

text \<open>\<open>to_json\<close>: the serialiser (crate \<open>serde_json\<close>) is a parameter, and the text shown when it fails is not.\<close>

definition component_to_json :: "(component \<Rightarrow> rstring option) \<Rightarrow> component \<Rightarrow> rstring" where
  "component_to_json to_string c = (case to_string c of Some j \<Rightarrow> j | None \<Rightarrow> lit ''{\"text\":\"\"}'')"

section \<open>The shape of the NBT form\<close>

lemma keys_distinct:
  "distinct (map lit [''text'', ''translate'', ''color'', ''bold'', ''italic'', ''underlined'',
     ''strikethrough'', ''obfuscated'', ''extra''])"
  by (simp add: lit_def)

definition opt_entry :: "string \<Rightarrow> ('a \<Rightarrow> nbt_tag) \<Rightarrow> 'a option \<Rightarrow> nbt_compound" where
  "opt_entry key into v = (case v of Some x \<Rightarrow> [(lit key, into x)] | None \<Rightarrow> [])"

definition extra_entry :: "nbt_tag list \<Rightarrow> nbt_compound" where
  "extra_entry items = (if items = [] then [] else [(lit ''extra'', NList TAG_COMPOUND items)])"

lemma in_opt_entry: "(k, x) \<in> set (opt_entry key into v) \<Longrightarrow> k = lit key"
  by (cases v) (simp_all add: opt_entry_def)

lemma insert_some_new:
  "lit key \<notin> fst ` set c \<Longrightarrow> insert_some key into v c = c @ opt_entry key into v"
  by (cases v) (simp_all add: insert_some_def opt_entry_def compound_insert_new)

lemma type_id_to_nbt [simp]: "type_id (to_nbt c) = TAG_COMPOUND"
  by (cases c) (simp add: Let_def)

lemma list_new_to_nbt: "extra \<noteq> [] \<Longrightarrow> list_new (map to_nbt extra) = Some (TAG_COMPOUND, map to_nbt extra)"
  by (cases extra) (auto simp: list_new_def Let_def list_ex_iff)

lemma lit_neq:
  "lit ''text'' \<noteq> lit ''translate''" "lit ''text'' \<noteq> lit ''color''" "lit ''text'' \<noteq> lit ''bold''"
  "lit ''text'' \<noteq> lit ''italic''" "lit ''text'' \<noteq> lit ''underlined''" "lit ''text'' \<noteq> lit ''strikethrough''"
  "lit ''text'' \<noteq> lit ''obfuscated''" "lit ''text'' \<noteq> lit ''extra''" "lit ''translate'' \<noteq> lit ''color''"
  "lit ''translate'' \<noteq> lit ''bold''" "lit ''translate'' \<noteq> lit ''italic''" "lit ''translate'' \<noteq> lit ''underlined''"
  "lit ''translate'' \<noteq> lit ''strikethrough''" "lit ''translate'' \<noteq> lit ''obfuscated''"
  "lit ''translate'' \<noteq> lit ''extra''" "lit ''color'' \<noteq> lit ''bold''" "lit ''color'' \<noteq> lit ''italic''"
  "lit ''color'' \<noteq> lit ''underlined''" "lit ''color'' \<noteq> lit ''strikethrough''" "lit ''color'' \<noteq> lit ''obfuscated''"
  "lit ''color'' \<noteq> lit ''extra''" "lit ''bold'' \<noteq> lit ''italic''" "lit ''bold'' \<noteq> lit ''underlined''"
  "lit ''bold'' \<noteq> lit ''strikethrough''" "lit ''bold'' \<noteq> lit ''obfuscated''" "lit ''bold'' \<noteq> lit ''extra''"
  "lit ''italic'' \<noteq> lit ''underlined''" "lit ''italic'' \<noteq> lit ''strikethrough''"
  "lit ''italic'' \<noteq> lit ''obfuscated''" "lit ''italic'' \<noteq> lit ''extra''"
  "lit ''underlined'' \<noteq> lit ''strikethrough''" "lit ''underlined'' \<noteq> lit ''obfuscated''"
  "lit ''underlined'' \<noteq> lit ''extra''" "lit ''strikethrough'' \<noteq> lit ''obfuscated''"
  "lit ''strikethrough'' \<noteq> lit ''extra''" "lit ''obfuscated'' \<noteq> lit ''extra''"
  using keys_distinct by (simp_all only: list.map distinct.simps list.set insert_iff empty_iff de_Morgan_disj simp_thms)

text \<open>Inserting optional entries in turn: the keys seen so far are all different from the next one.\<close>

definition fresh :: "nbt_compound \<Rightarrow> string list \<Rightarrow> bool" where
  "fresh c keys \<longleftrightarrow> (\<forall>key\<in>set keys. lit key \<notin> fst ` set c) \<and> distinct (map lit keys)"

lemma insert_some_fresh:
  assumes "fresh c (key # keys)"
  shows "insert_some key into v c = c @ opt_entry key into v" "fresh (c @ opt_entry key into v) keys"
  using assms by (auto simp: fresh_def intro: insert_some_new dest!: in_opt_entry) (metis imageI)

definition entries :: "component \<Rightarrow> nbt_compound" where
  "entries c = opt_entry ''text'' NString (comp_text c) @ opt_entry ''translate'' NString (comp_translate c) @
     opt_entry ''color'' NString (comp_color c) @ opt_entry ''bold'' nbt_from_bool (comp_bold c) @
     opt_entry ''italic'' nbt_from_bool (comp_italic c) @ opt_entry ''underlined'' nbt_from_bool (comp_underlined c) @
     opt_entry ''strikethrough'' nbt_from_bool (comp_strikethrough c) @
     opt_entry ''obfuscated'' nbt_from_bool (comp_obfuscated c) @ extra_entry (map to_nbt (comp_extra c))"

lemma to_nbt_entries: "to_nbt c = NCompound (entries c)"
proof (cases c)
  case (Component t tr co b i u s ob ex)
  have 0: "fresh [] [''text'', ''translate'', ''color'', ''bold'', ''italic'', ''underlined'',
     ''strikethrough'', ''obfuscated'', ''extra'']"
    using keys_distinct by (simp add: fresh_def)
  note 1 = insert_some_fresh [OF 0, of NString t]
  note 2 = insert_some_fresh [OF 1(2), of NString tr]
  note 3 = insert_some_fresh [OF 2(2), of NString co]
  note 4 = insert_some_fresh [OF 3(2), of nbt_from_bool b]
  note 5 = insert_some_fresh [OF 4(2), of nbt_from_bool i]
  note 6 = insert_some_fresh [OF 5(2), of nbt_from_bool u]
  note 7 = insert_some_fresh [OF 6(2), of nbt_from_bool s]
  note 8 = insert_some_fresh [OF 7(2), of nbt_from_bool ob]
  have 9: "fresh c [''extra''] \<Longrightarrow> compound_insert c (lit ''extra'') v = c @ [(lit ''extra'', v)]" for c v
    by (simp add: fresh_def compound_insert_new)
  show ?thesis
    unfolding Component to_nbt.simps Let_def fold_simps comp_def id_apply case_prod_conv 1(1) 2(1) 3(1) 4(1) 5(1) 6(1) 7(1) 8(1)
    using 9 [OF 8(2), of "NList TAG_COMPOUND (map to_nbt ex)"]
    by (simp add: entries_def extra_entry_def list_new_to_nbt)
qed

lemma map_of_opt_entry: "map_of (opt_entry key into v) k = (if k = lit key then map_option into v else None)"
  by (cases v) (simp_all add: opt_entry_def)

lemma map_of_extra_entry:
  "map_of (extra_entry items) k = (if k = lit ''extra'' \<and> items \<noteq> [] then Some (NList TAG_COMPOUND items) else None)"
  by (simp add: extra_entry_def)

lemma map_of_skip:
  "map_of xs k = None \<Longrightarrow> map_of (xs @ ys) k = map_of ys k"
  "map_of ys k = None \<Longrightarrow> map_of (xs @ ys) k = map_of xs k"
  by (simp_all add: map_add_def split: option.split)

lemma map_of_entries:
  "map_of (entries c) (lit ''text'') = map_option NString (comp_text c)"
  "map_of (entries c) (lit ''translate'') = map_option NString (comp_translate c)"
  "map_of (entries c) (lit ''color'') = map_option NString (comp_color c)"
  "map_of (entries c) (lit ''bold'') = map_option nbt_from_bool (comp_bold c)"
  "map_of (entries c) (lit ''italic'') = map_option nbt_from_bool (comp_italic c)"
  "map_of (entries c) (lit ''underlined'') = map_option nbt_from_bool (comp_underlined c)"
  "map_of (entries c) (lit ''strikethrough'') = map_option nbt_from_bool (comp_strikethrough c)"
  "map_of (entries c) (lit ''obfuscated'') = map_option nbt_from_bool (comp_obfuscated c)"
  "map_of (entries c) (lit ''extra'') =
     (if comp_extra c = [] then None else Some (NList TAG_COMPOUND (map to_nbt (comp_extra c))))"
  by (simp_all add: entries_def map_of_skip map_of_opt_entry map_of_extra_entry lit_neq lit_neq [symmetric]
      del: map_of_append)

lemma inj_nbt_from_bool: "inj nbt_from_bool"
  by (auto simp: inj_def nbt_from_bool_def)

lemma inj_NString: "inj NString"
  by (simp add: inj_def)

lemma to_nbt_inj: "to_nbt c = to_nbt c' \<Longrightarrow> c = c'"
proof (induction c arbitrary: c')
  case (Component t tr co b i u s ob ex)
  let ?c = "Component t tr co b i u s ob ex"
  have e: "entries ?c = entries c'" using Component.prems unfolding to_nbt_entries by (simp only: nbt_tag.inject)
  note m = map_of_entries [of ?c, unfolded e, unfolded map_of_entries component.sel]
  have st: "map_option NString x = map_option NString y \<Longrightarrow> x = y" for x y
    using option.inj_map [OF inj_NString] by (auto dest: injD)
  have bo: "map_option nbt_from_bool x = map_option nbt_from_bool y \<Longrightarrow> x = y" for x y
    using option.inj_map [OF inj_nbt_from_bool] by (auto dest: injD)
  have "map to_nbt ex = map to_nbt (comp_extra c')" using m(9) by (auto split: if_splits)
  then have "ex = comp_extra c'"
    by (rule list.inj_map_strong [rotated]) (simp add: Component.IH)
  moreover from m(1-3) [THEN st] m(4-8) [THEN bo]
  have "t = comp_text c'" "tr = comp_translate c'" "co = comp_color c'" "b = comp_bold c'" "i = comp_italic c'"
    "u = comp_underlined c'" "s = comp_strikethrough c'" "ob = comp_obfuscated c'" by simp_all
  ultimately show ?case by simp
qed

text \<open>
  The components that fit the format at nesting depth \<open>d\<close>: each level of children takes a list and
  a compound.
\<close>

fun component_fits :: "usize \<Rightarrow> component \<Rightarrow> bool" where
  "component_fits d (Component t tr co b i u s ob ex) \<longleftrightarrow>
     d + 1 \<le> MAX_DEPTH \<and> (\<forall>x\<in>set_option t. nbt_string x) \<and> (\<forall>x\<in>set_option tr. nbt_string x) \<and>
     (\<forall>x\<in>set_option co. nbt_string x) \<and> length ex \<le> MAX_ARRAY_LEN \<and> list_all (component_fits (d + 2)) ex"

lemma nbt_string_lit:
  "nbt_string (lit ''text'')" "nbt_string (lit ''translate'')" "nbt_string (lit ''color'')"
  "nbt_string (lit ''bold'')" "nbt_string (lit ''italic'')" "nbt_string (lit ''underlined'')"
  "nbt_string (lit ''strikethrough'')" "nbt_string (lit ''obfuscated'')" "nbt_string (lit ''extra'')"
  by (simp_all add: nbt_string_def lit_def is_scalar_def modified_utf8_len_def mutf8_char_len_def)

lemma distinct_entries: "distinct (map fst (entries c))"
proof -
  have k: "map fst (opt_entry key into v) = (if v = None then [] else [lit key])" for key into and v :: "'a option"
    by (cases v) (simp_all add: opt_entry_def)
  have x: "map fst (extra_entry items) = (if items = [] then [] else [lit ''extra''])" for items
    by (simp add: extra_entry_def)
  show ?thesis unfolding entries_def map_append k x using keys_distinct by (simp split: if_split)
qed

lemma wf_opt_entry:
  "nbt_string (lit key) \<Longrightarrow> (\<And>x. v = Some x \<Longrightarrow> wf_nbt nbt_string d (into x)) \<Longrightarrow>
     list_all (\<lambda>e. nbt_string (fst e) \<and> wf_nbt nbt_string d (snd e)) (opt_entry key into v)"
  by (cases v) (simp_all add: opt_entry_def)

lemma wf_to_nbt: "component_fits d c \<Longrightarrow> wf_nbt nbt_string d (to_nbt c)"
proof (induction c arbitrary: d)
  case (Component t tr co b i u s ob ex)
  let ?ok = "list_all (\<lambda>e. nbt_string (fst e) \<and> wf_nbt nbt_string (d + 1) (snd e))"
  have x: "?ok (extra_entry (map to_nbt ex))"
    using Component by (auto simp: extra_entry_def list_all_iff nbt_string_lit tag_defs)
  have bo: "wf_nbt nbt_string (d + 1) (nbt_from_bool v)" for v
    using Component.prems by (simp add: nbt_from_bool_def)
  have st: "nbt_string x \<Longrightarrow> wf_nbt nbt_string (d + 1) (NString x)" for x
    using Component.prems by simp
  have "?ok (entries (Component t tr co b i u s ob ex))"
    unfolding entries_def list_all_append component.sel
    using Component.prems by (intro conjI x wf_opt_entry nbt_string_lit bo st) auto
  then show ?case using Component.prems distinct_entries unfolding to_nbt_entries by simp
qed

section \<open>Plain text\<close>

lemma write_plain_append: "write_plain c out = out @ plain_text c"
proof -
  have "write_plain c out = out @ write_plain c []" for c out
  proof (induction c arbitrary: out)
    case (Component t tr co b i u s ob ex)
    have *: "fold write_plain ex out = out @ fold write_plain ex []" for out
      using Component.IH
    proof (induction ex arbitrary: out)
      case (Cons e ex)
      have e: "write_plain e o1 = o1 @ write_plain e []" for o1 by (rule Cons.prems) simp
      have i: "fold write_plain ex o1 = o1 @ fold write_plain ex []" for o1
        by (rule Cons.IH) (rule Cons.prems, simp)
      have "fold write_plain (e # ex) out = out @ write_plain e [] @ fold write_plain ex []"
        using i [of "write_plain e out"] e [of out] by (metis append_assoc fold_simps(2))
      then show ?case using i [of "write_plain e []"] by (metis fold_simps(2))
    qed simp
    let ?own = "case t of Some x \<Rightarrow> x | None \<Rightarrow> (case tr of Some x \<Rightarrow> x | None \<Rightarrow> [])"
    have w: "write_plain (Component t tr co b i u s ob ex) o1 = fold write_plain ex (o1 @ ?own)" for o1
      by (cases t; cases tr; simp add: Let_def)
    have "write_plain (Component t tr co b i u s ob ex) out = out @ ?own @ fold write_plain ex []"
      unfolding w by (subst *) (rule append_assoc)
    moreover have "write_plain (Component t tr co b i u s ob ex) [] = ?own @ fold write_plain ex []"
      unfolding w append_Nil by (rule *)
    ultimately show ?case by (simp only:)
  qed
  then show ?thesis unfolding plain_text_def .
qed

lemma plain_text_eq:
  "plain_text c = (case comp_text c of Some t \<Rightarrow> t | None \<Rightarrow> (case comp_translate c of Some k \<Rightarrow> k | None \<Rightarrow> [])) @
     concat (map plain_text (comp_extra c))"
proof -
  have f: "fold write_plain cs out = out @ concat (map plain_text cs)" for cs out
    by (induction cs arbitrary: out) (simp_all add: write_plain_append)
  show ?thesis by (cases c) (simp add: plain_text_def f Let_def split: option.split)
qed

section \<open>Properties\<close>

text \<open>
  C31: a component travels as network NBT without loss: what \<open>to_nbt\<close> builds is read back by the NBT
  decoder, whatever surrounds it, for every component within the format's limits, and it determines
  the component with its whole styling and all children in order; an absent field is not written.
\<close>

theorem component_nbt_faithful:
  assumes "component_fits 0 c" "length xs + length (write_network (to_nbt c)) + length ys < 2 ^ 64"
  shows "read_network (cursor xs (write_network (to_nbt c) @ ys)) =
      Inr (to_nbt c, cursor (xs @ write_network (to_nbt c)) ys) \<and>
    (\<forall>c'. to_nbt c' = to_nbt c \<longrightarrow> c' = c)"
  using nbtc.rt [OF wf_to_nbt [OF assms(1)] assms(2)] to_nbt_inj by blast

lemma component_nbt_faithful_witness:
  "read_network (cursor [] (write_network (to_nbt (append_child (component_text [0x41]) (component_text [0x42]))) @ [])) =
     Inr (to_nbt (append_child (component_text [0x41]) (component_text [0x42])),
       cursor ([] @ write_network (to_nbt (append_child (component_text [0x41]) (component_text [0x42])))) [])"
proof -
  let ?c = "append_child (component_text [0x41]) (component_text [0x42])"
  have "component_fits 0 ?c"
    by (simp add: component_text_def nbt_string_def is_scalar_def modified_utf8_len_def mutf8_char_len_def
        MAX_DEPTH_def MAX_ARRAY_LEN_def)
  moreover have "length (write_network (to_nbt ?c)) < 2 ^ 64"
  proof -
    have f: "mutf8_fit (lit ''text'') = lit ''text''" "mutf8_fit (lit ''extra'') = lit ''extra''"
      "mutf8_fit [0x41] = [0x41]" "mutf8_fit [0x42] = [0x42]"
      by (rule mutf8_fit_spec(3), simp add: lit_def modified_utf8_len_def mutf8_char_len_def)+
    have l: "lit ''text'' = [0x74, 0x65, 0x78, 0x74]" "lit ''extra'' = [0x65, 0x78, 0x74, 0x72, 0x61]"
      by (simp_all add: lit_def)
    show ?thesis unfolding to_nbt_entries
      by (simp add: component_text_def entries_def opt_entry_def extra_entry_def to_nbt_entries write_network_def
          write_modified_utf8_eq f)
        (simp add: l length_mutf8_char mutf8_char_len_def write_u8_def write_u16_def write_i16_def write_i32_def)
  qed
  ultimately show ?thesis using component_nbt_faithful [of ?c "[]" "[]"] by simp
qed

end
