(* ===== verification/Packets_Config.thy ===== *)
theory Packets_Config
  imports Packets Text
begin

text \<open>
  \<open>crates/rukkit-protocol/src/packets/config.rs\<close>: the packets of the configuration state. The registries
  and the disconnect reason travel as NBT; a plugin message has no length prefix and runs to the end of
  the packet, so it is no \<open>codec\<close> and has its own round trip.
\<close>

section \<open>Client settings\<close>

definition MAX_LOCALE_LEN :: usize where "MAX_LOCALE_LEN = 16"
definition MAX_REGISTRY_ENTRIES :: usize where "MAX_REGISTRY_ENTRIES = 2 ^ 16"
definition MAX_KNOWN_PACKS :: usize where "MAX_KNOWN_PACKS = 1024"

datatype chat_mode = ChatEnabled | ChatCommandsOnly | ChatHidden

definition chat_mode_from_id :: "i32 \<Rightarrow> chat_mode presult" where
  "chat_mode_from_id n =
     (if n = 0 then Inr ChatEnabled else if n = 1 then Inr ChatCommandsOnly else if n = 2 then Inr ChatHidden
      else Inl (InvalidEnum ''ChatMode'' (scast n)))"

fun chat_mode_id :: "chat_mode \<Rightarrow> i32" where
  "chat_mode_id ChatEnabled = 0"
| "chat_mode_id ChatCommandsOnly = 1"
| "chat_mode_id ChatHidden = 2"

record client_information =
  ci_locale :: rstring
  ci_view_distance :: i8
  ci_chat_mode :: chat_mode
  ci_chat_colors :: bool
  ci_displayed_skin_parts :: u8
  ci_main_hand :: i32
  ci_text_filtering_enabled :: bool
  ci_allows_listing :: bool
  ci_particle_status :: i32

definition client_information_encode :: "client_information \<Rightarrow> bytes" where
  "client_information_encode p =
     write_string (ci_locale p) @ write_i8 (ci_view_distance p) @
     write_varint (chat_mode_id (ci_chat_mode p)) @ write_bool (ci_chat_colors p) @
     write_u8 (ci_displayed_skin_parts p) @ write_varint (ci_main_hand p) @
     write_bool (ci_text_filtering_enabled p) @ write_bool (ci_allows_listing p) @
     write_varint (ci_particle_status p)"

definition client_information_decode :: "client_information reader" where
  "client_information_decode =
     rbind (read_string MAX_LOCALE_LEN) (\<lambda>locale.
     rbind read_i8 (\<lambda>view_distance.
     rbind rd_varint (\<lambda>mode.
     rbind (rlift (chat_mode_from_id mode)) (\<lambda>chat_mode.
     rbind read_bool (\<lambda>chat_colors.
     rbind read_u8 (\<lambda>displayed_skin_parts.
     rbind rd_varint (\<lambda>main_hand.
     rbind read_bool (\<lambda>text_filtering_enabled.
     rbind read_bool (\<lambda>allows_listing.
     rbind rd_varint (\<lambda>particle_status.
     rreturn \<lparr>ci_locale = locale, ci_view_distance = view_distance, ci_chat_mode = chat_mode,
       ci_chat_colors = chat_colors, ci_displayed_skin_parts = displayed_skin_parts,
       ci_main_hand = main_hand, ci_text_filtering_enabled = text_filtering_enabled,
       ci_allows_listing = allows_listing, ci_particle_status = particle_status\<rparr>))))))))))"

section \<open>Finishing, keep-alive and disconnect\<close>

definition finish_configuration_ack_decode :: "unit reader" where
  "finish_configuration_ack_decode = rreturn ()"

definition finish_configuration_encode :: "unit \<Rightarrow> bytes" where
  "finish_configuration_encode _ = []"

record keep_alive =
  ka_id :: i64

definition keep_alive_encode :: "keep_alive \<Rightarrow> bytes" where
  "keep_alive_encode p = write_i64 (ka_id p)"

definition keep_alive_decode :: "keep_alive reader" where
  "keep_alive_decode = rbind read_i64 (\<lambda>n. rreturn \<lparr>ka_id = n\<rparr>)"

record disconnect =
  dc_reason :: component

definition disconnect_encode :: "disconnect \<Rightarrow> bytes" where
  "disconnect_encode p = write_network (to_nbt (dc_reason p))"

section \<open>Registries\<close>

record registry_entry =
  re_entry_id :: rstring
  re_data :: "nbt_tag option"

record registry_data =
  rg_registry_id :: rstring
  rg_entries :: "registry_entry list"

definition registry_entry_encode :: "registry_entry \<Rightarrow> bytes" where
  "registry_entry_encode entry = write_identifier (re_entry_id entry) @
     (case re_data entry of
        Some tag \<Rightarrow> write_bool True @ write_network tag
      | None \<Rightarrow> write_bool False)"

definition registry_data_encode :: "registry_data \<Rightarrow> bytes" where
  "registry_data_encode p = write_identifier (rg_registry_id p) @
     write_varint (word_of_nat (length (rg_entries p))) @ concat (map registry_entry_encode (rg_entries p))"

definition registry_entry_decode :: "registry_entry reader" where
  "registry_entry_decode =
     rbind read_identifier (\<lambda>entry_id.
     rbind read_bool (\<lambda>present.
     rbind (if present then rbind read_network (\<lambda>tag. rreturn (Some tag)) else rreturn None) (\<lambda>data.
     rreturn \<lparr>re_entry_id = entry_id, re_data = data\<rparr>)))"

definition registry_data_decode :: "registry_data reader" where
  "registry_data_decode =
     rbind read_identifier (\<lambda>registry_id.
     rbind (read_array MAX_REGISTRY_ENTRIES registry_entry_decode) (\<lambda>entries.
     rreturn \<lparr>rg_registry_id = registry_id, rg_entries = entries\<rparr>))"

section \<open>Known packs\<close>

record known_pack =
  kp_namespace :: rstring
  kp_id :: rstring
  kp_version :: rstring

record select_known_packs =
  kp_packs :: "known_pack list"

definition known_packs_vanilla :: select_known_packs where
  "known_packs_vanilla = \<lparr>kp_packs = [\<lparr>kp_namespace = lit ''minecraft'', kp_id = lit ''core'',
     kp_version = MINECRAFT_VERSION\<rparr>]\<rparr>"

definition known_pack_encode :: "known_pack \<Rightarrow> bytes" where
  "known_pack_encode pack = write_string (kp_namespace pack) @ write_string (kp_id pack) @
     write_string (kp_version pack)"

definition select_known_packs_encode :: "select_known_packs \<Rightarrow> bytes" where
  "select_known_packs_encode p =
     write_varint (word_of_nat (length (kp_packs p))) @ concat (map known_pack_encode (kp_packs p))"

definition known_pack_decode :: "known_pack reader" where
  "known_pack_decode =
     rbind (read_string DEFAULT_MAX_STRING_LEN) (\<lambda>namespace.
     rbind (read_string DEFAULT_MAX_STRING_LEN) (\<lambda>pack_id.
     rbind (read_string DEFAULT_MAX_STRING_LEN) (\<lambda>version.
     rreturn \<lparr>kp_namespace = namespace, kp_id = pack_id, kp_version = version\<rparr>)))"

definition select_known_packs_decode :: "select_known_packs reader" where
  "select_known_packs_decode =
     rbind (read_array MAX_KNOWN_PACKS known_pack_decode) (\<lambda>packs. rreturn \<lparr>kp_packs = packs\<rparr>)"

section \<open>Plugin messages\<close>

record plugin_message =
  pm_channel :: rstring
  pm_data :: bytes

definition brand_message :: "rstring \<Rightarrow> plugin_message" where
  "brand_message brand = \<lparr>pm_channel = lit ''minecraft:brand'', pm_data = write_string brand\<rparr>"

definition plugin_message_encode :: "plugin_message \<Rightarrow> bytes" where
  "plugin_message_encode p = write_identifier (pm_channel p) @ write_bytes (pm_data p)"

definition plugin_message_decode :: "plugin_message reader" where
  "plugin_message_decode =
     rbind read_identifier (\<lambda>channel.
     rbind read_remaining (\<lambda>data.
     rreturn \<lparr>pm_channel = channel, pm_data = data\<rparr>))"

section \<open>Round trips\<close>

lemma chat_mode_roundtrip: "chat_mode_from_id (chat_mode_id m) = Inr m"
  by (cases m) (simp_all add: chat_mode_from_id_def)

interpretation client_informationc: codec client_information_encode client_information_decode
  "\<lambda>p. string_fits MAX_LOCALE_LEN (ci_locale p)"
  by unfold_locales
    (simp add: client_information_encode_def client_information_decode_def codec_steps chat_mode_roundtrip
      rlift_Inr_bind rreturn_apply)

interpretation keep_alivec: codec keep_alive_encode keep_alive_decode "\<lambda>_. True"
  by unfold_locales (simp add: keep_alive_encode_def keep_alive_decode_def codec_steps rreturn_apply)

definition entry_fits :: "registry_entry \<Rightarrow> bool" where
  "entry_fits e \<longleftrightarrow> string_fits DEFAULT_MAX_STRING_LEN (re_entry_id e) \<and>
     (case re_data e of Some t \<Rightarrow> wf_nbt nbt_string 0 t | None \<Rightarrow> True)"

interpretation registry_entryc: codec registry_entry_encode registry_entry_decode entry_fits
proof
  fix e :: registry_entry and xs ys :: bytes
  assume e: "entry_fits e" "length xs + length (registry_entry_encode e) + length ys < 2 ^ 64"
  then show "registry_entry_decode (cursor xs (registry_entry_encode e @ ys)) =
      Inr (e, cursor (xs @ registry_entry_encode e) ys)"
    by (cases "re_data e")
      (simp_all add: registry_entry_encode_def registry_entry_decode_def entry_fits_def codec_steps nbtc.rt_bind
        rbind_assoc rreturn_apply)
qed

definition registry_fits :: "registry_data \<Rightarrow> bool" where
  "registry_fits p \<longleftrightarrow> string_fits DEFAULT_MAX_STRING_LEN (rg_registry_id p) \<and>
     list_all entry_fits (rg_entries p) \<and> length (rg_entries p) \<le> MAX_REGISTRY_ENTRIES"

interpretation entriesc: codec "write_array registry_entry_encode" "read_array MAX_REGISTRY_ENTRIES registry_entry_decode"
  "\<lambda>items. list_all entry_fits items \<and> length items \<le> MAX_REGISTRY_ENTRIES \<and> length items < 2 ^ 31"
  by (rule registry_entryc.array_codec)

interpretation registryc: codec registry_data_encode registry_data_decode registry_fits
proof
  fix p :: registry_data and xs ys :: bytes
  assume p: "registry_fits p" "length xs + length (registry_data_encode p) + length ys < 2 ^ 64"
  have e: "registry_data_encode p = write_identifier (rg_registry_id p) @ write_array registry_entry_encode (rg_entries p)"
    by (simp add: registry_data_encode_def write_array_def)
  have "length (rg_entries p) < 2 ^ 31" using p(1) by (simp add: registry_fits_def MAX_REGISTRY_ENTRIES_def)
  with p show "registry_data_decode (cursor xs (registry_data_encode p @ ys)) =
      Inr (p, cursor (xs @ registry_data_encode p) ys)"
    unfolding e by (simp add: registry_data_decode_def registry_fits_def codec_steps entriesc.rt_bind rreturn_apply)
qed

definition pack_fits :: "known_pack \<Rightarrow> bool" where
  "pack_fits k \<longleftrightarrow> list_all (string_fits DEFAULT_MAX_STRING_LEN) [kp_namespace k, kp_id k, kp_version k]"

interpretation known_packc: codec known_pack_encode known_pack_decode pack_fits
  by unfold_locales
    (simp add: known_pack_encode_def known_pack_decode_def pack_fits_def codec_steps rreturn_apply)

interpretation packsc: codec "write_array known_pack_encode" "read_array MAX_KNOWN_PACKS known_pack_decode"
  "\<lambda>items. list_all pack_fits items \<and> length items \<le> MAX_KNOWN_PACKS \<and> length items < 2 ^ 31"
  by (rule known_packc.array_codec)

definition packs_fit :: "select_known_packs \<Rightarrow> bool" where
  "packs_fit p \<longleftrightarrow> list_all pack_fits (kp_packs p) \<and> length (kp_packs p) \<le> MAX_KNOWN_PACKS"

interpretation known_packsc: codec select_known_packs_encode select_known_packs_decode packs_fit
proof
  fix p :: select_known_packs and xs ys :: bytes
  assume p: "packs_fit p" "length xs + length (select_known_packs_encode p) + length ys < 2 ^ 64"
  have e: "select_known_packs_encode p = write_array known_pack_encode (kp_packs p)"
    by (simp add: select_known_packs_encode_def write_array_def)
  have "length (kp_packs p) < 2 ^ 31" using p(1) by (simp add: packs_fit_def MAX_KNOWN_PACKS_def)
  with p show "select_known_packs_decode (cursor xs (select_known_packs_encode p @ ys)) =
      Inr (p, cursor (xs @ select_known_packs_encode p) ys)"
    unfolding e by (simp add: select_known_packs_decode_def packs_fit_def packsc.rt_bind rreturn_apply)
qed

text \<open>A plugin message takes everything that follows its channel.\<close>

lemma plugin_message_rt:
  assumes "string_fits DEFAULT_MAX_STRING_LEN (pm_channel p)" "length (plugin_message_encode p) < 2 ^ 64"
  shows "decode_exact plugin_message_decode pid (plugin_message_encode p) state = Inr p"
proof -
  have r: "rbind read_remaining f (cursor xs ys) = f ys (cursor (xs @ ys) [])"
    for xs ys :: bytes and f :: "bytes \<Rightarrow> plugin_message reader"
    by (simp add: rbind_def read_remaining_def cursor_def)
  have len: "length (write_identifier (pm_channel p)) + length (pm_data p) < 2 ^ 64"
    using assms(2) by (simp add: plugin_message_encode_def write_bytes_def)
  have "plugin_message_decode (cursor [] (write_identifier (pm_channel p) @ pm_data p)) =
      Inr (p, cursor (write_identifier (pm_channel p) @ pm_data p) [])"
    unfolding plugin_message_decode_def
    using len by (subst identc.rt_bind) (simp_all add: assms(1) r rreturn_apply)
  then show ?thesis
    by (simp add: decode_exact_def reader_new_cursor plugin_message_encode_def write_bytes_def expect_finished_def)
qed

section \<open>Properties\<close>

text \<open>
  C33: the packets of the configuration state survive the wire: client settings, a whole registry with
  its NBT data, the known packs, a keep-alive and a plugin message are decoded as they were encoded,
  with nothing left over, within the limits the reader enforces; the channel data may be anything.
\<close>

theorem configuration_packets_roundtrip:
  assumes "string_fits MAX_LOCALE_LEN (ci_locale ci)" "length (client_information_encode ci) < 2 ^ 64"
    and "registry_fits rg" "length (registry_data_encode rg) < 2 ^ 64"
    and "packs_fit kp" "length (select_known_packs_encode kp) < 2 ^ 64"
    and "string_fits DEFAULT_MAX_STRING_LEN (pm_channel pm)" "length (plugin_message_encode pm) < 2 ^ 64"
  shows "decode_exact client_information_decode pid (client_information_encode ci) state = Inr ci \<and>
    decode_exact registry_data_decode pid (registry_data_encode rg) state = Inr rg \<and>
    decode_exact select_known_packs_decode pid (select_known_packs_encode kp) state = Inr kp \<and>
    decode_exact keep_alive_decode pid (keep_alive_encode ka) state = Inr ka \<and>
    decode_exact plugin_message_decode pid (plugin_message_encode pm) state = Inr pm"
proof -
  have "length (keep_alive_encode ka) < 2 ^ 64" by (simp add: keep_alive_encode_def write_i64_def)
  with assms show ?thesis
    by (simp add: client_informationc.decode_exact_rt registryc.decode_exact_rt known_packsc.decode_exact_rt
        keep_alivec.decode_exact_rt plugin_message_rt)
qed

definition sample_settings :: client_information where
  "sample_settings = \<lparr>ci_locale = [0x65, 0x6E], ci_view_distance = 12, ci_chat_mode = ChatEnabled,
     ci_chat_colors = True, ci_displayed_skin_parts = 127, ci_main_hand = 1,
     ci_text_filtering_enabled = False, ci_allows_listing = True, ci_particle_status = 0\<rparr>"

lemma configuration_packets_roundtrip_witness:
  "decode_exact select_known_packs_decode config_sb_SELECT_KNOWN_PACKS
     (select_known_packs_encode known_packs_vanilla) ''configuration'' = Inr known_packs_vanilla \<and>
   decode_exact plugin_message_decode config_sb_PLUGIN_MESSAGE
     (plugin_message_encode (brand_message SERVER_BRAND)) ''configuration'' = Inr (brand_message SERVER_BRAND)"
proof -
  let ?rg = "\<lparr>rg_registry_id = [0x61], rg_entries = [\<lparr>re_entry_id = [0x62], re_data = None\<rparr>]\<rparr>"
  have f: "string_fits n (lit ''minecraft'')" "string_fits n (lit ''core'')" "string_fits n MINECRAFT_VERSION"
    "string_fits n (lit ''minecraft:brand'')" "string_fits n [0x61]" "string_fits n [0x62]" "string_fits n [0x65, 0x6E]"
    if "15 \<le> n" "n < 2 ^ 31" for n
    using that by (auto intro!: string_fits_ascii simp: lit_def MINECRAFT_VERSION_def)
  note f1 = f [of DEFAULT_MAX_STRING_LEN, simplified DEFAULT_MAX_STRING_LEN_def, simplified]
  note f2 = f [of MAX_LOCALE_LEN, simplified MAX_LOCALE_LEN_def, simplified]
  note v = length_write_varint_5
  have l1: "length (client_information_encode sample_settings) < 2 ^ 64"
    using length_write_string [OF f2(7)] v [of 0] v [of 1]
    by (simp add: client_information_encode_def sample_settings_def write_i8_def write_bool_def write_u8_def)
  have l2: "length (registry_data_encode ?rg) < 2 ^ 64"
    using length_write_string [OF f1(5)] length_write_string [OF f1(6)] v [of 1]
    by (simp add: registry_data_encode_def registry_entry_encode_def write_identifier_def write_bool_def)
  have l3: "length (select_known_packs_encode known_packs_vanilla) < 2 ^ 64"
    using length_write_string [OF f1(1)] length_write_string [OF f1(2)] length_write_string [OF f1(3)] v [of 1]
    by (simp add: select_known_packs_encode_def known_pack_encode_def known_packs_vanilla_def)
  have l4: "length (plugin_message_encode (brand_message SERVER_BRAND)) < 2 ^ 64"
  proof -
    have "string_fits 16 SERVER_BRAND" by (rule string_fits_ascii) (simp_all add: SERVER_BRAND_def lit_def)
    from length_write_string [OF f1(4)] length_write_string [OF this] show ?thesis
      by (simp add: plugin_message_encode_def brand_message_def write_identifier_def write_bytes_def)
  qed
  have "registry_fits ?rg" "packs_fit known_packs_vanilla"
    using f1 by (simp_all add: registry_fits_def entry_fits_def MAX_REGISTRY_ENTRIES_def packs_fit_def
        pack_fits_def known_packs_vanilla_def MAX_KNOWN_PACKS_def DEFAULT_MAX_STRING_LEN_def)
  with configuration_packets_roundtrip [OF _ l1 _ l2 _ l3 _ l4] f1 f2 show ?thesis
    by (simp add: sample_settings_def brand_message_def DEFAULT_MAX_STRING_LEN_def MAX_LOCALE_LEN_def)
qed

end
