(* ===== verification/Floats.thy ===== *)
theory Floats
  imports Prelude "HOL-Library.Log_Nat"
begin

text \<open>
  The floating-point numbers of Rust, \<open>f32\<close> and \<open>f64\<close>, as far as the code computes with them: IEEE 754
  binary formats with rounding to nearest, ties to even, subnormal numbers and overflow to infinity. A finite number is
  the rational it stands for; the two zeros are one, since nothing in the code tells them apart.
\<close>

section \<open>Rounding\<close>

datatype fp = Num rat | PosInf | NegInf | NaN

text \<open>
  A format: the bits of the significand, the exponent of the smallest positive number, and the exponent at which
  it overflows.
\<close>

record float_format =
  ff_precision :: nat
  ff_min :: int
  ff_top :: int

definition f32_format :: float_format where
  "f32_format = \<lparr>ff_precision = 24, ff_min = - 149, ff_top = 128\<rparr>"

definition f64_format :: float_format where
  "f64_format = \<lparr>ff_precision = 53, ff_min = - 1074, ff_top = 1024\<rparr>"

definition round_even :: "rat \<Rightarrow> int" where
  "round_even x = (let n = \<lfloor>x\<rfloor>; d = x - of_int n in
     if d < 1 / 2 then n else if 1 / 2 < d then n + 1 else if even n then n else n + 1)"

text \<open>The binary exponent of a number: \<open>2 ^ e \<le> \<bar>x\<bar> < 2 ^ (e + 1)\<close>.\<close>

definition exponent_of :: "rat \<Rightarrow> int" where
  "exponent_of x = (let (a, b) = quotient_of \<bar>x\<bar>;
       e = int (floorlog 2 (nat a)) - int (floorlog 2 (nat b))
     in if \<bar>x\<bar> < 2 powi e then e - 1 else e)"

definition ulp_exponent :: "float_format \<Rightarrow> rat \<Rightarrow> int" where
  "ulp_exponent f x = max (ff_min f) (exponent_of x - int (ff_precision f) + 1)"

definition round_to :: "float_format \<Rightarrow> rat \<Rightarrow> rat" where
  "round_to f x = (if x = 0 then 0 else
     (let q = ulp_exponent f x in of_int (round_even (x / 2 powi q)) * 2 powi q))"

definition fp_round :: "float_format \<Rightarrow> rat \<Rightarrow> fp" where
  "fp_round f x = (let y = round_to f x in
     if 2 powi ff_top f \<le> y then PosInf else if y \<le> - (2 powi ff_top f) then NegInf else Num y)"

section \<open>Operations\<close>

definition fp_signed_inf :: "bool \<Rightarrow> fp" where
  "fp_signed_inf negative = (if negative then NegInf else PosInf)"

fun fp_negative :: "fp \<Rightarrow> bool" where
  "fp_negative (Num x) \<longleftrightarrow> x < 0"
| "fp_negative NegInf \<longleftrightarrow> True"
| "fp_negative _ \<longleftrightarrow> False"

fun fp_add :: "float_format \<Rightarrow> fp \<Rightarrow> fp \<Rightarrow> fp" where
  "fp_add f (Num x) (Num y) = fp_round f (x + y)"
| "fp_add f NaN _ = NaN"
| "fp_add f _ NaN = NaN"
| "fp_add f PosInf NegInf = NaN"
| "fp_add f NegInf PosInf = NaN"
| "fp_add f (Num _) y = y"
| "fp_add f x _ = x"

fun fp_mul :: "float_format \<Rightarrow> fp \<Rightarrow> fp \<Rightarrow> fp" where
  "fp_mul f (Num x) (Num y) = fp_round f (x * y)"
| "fp_mul f NaN _ = NaN"
| "fp_mul f _ NaN = NaN"
| "fp_mul f x y = (if x = Num 0 \<or> y = Num 0 then NaN else fp_signed_inf (fp_negative x \<noteq> fp_negative y))"

text \<open>A divisor that is zero is the positive one: the code divides by nothing that could be \<open>-0.0\<close>.\<close>

fun fp_div :: "float_format \<Rightarrow> fp \<Rightarrow> fp \<Rightarrow> fp" where
  "fp_div f (Num x) (Num y) =
     (if y \<noteq> 0 then fp_round f (x / y) else if x = 0 then NaN else fp_signed_inf (x < 0))"
| "fp_div f NaN _ = NaN"
| "fp_div f _ NaN = NaN"
| "fp_div f (Num _) _ = Num 0"
| "fp_div f x (Num y) = fp_signed_inf (fp_negative x \<noteq> (y < 0))"
| "fp_div f _ _ = NaN"

fun fp_le :: "fp \<Rightarrow> fp \<Rightarrow> bool" where
  "fp_le (Num x) (Num y) \<longleftrightarrow> x \<le> y"
| "fp_le NaN _ \<longleftrightarrow> False"
| "fp_le _ NaN \<longleftrightarrow> False"
| "fp_le NegInf _ \<longleftrightarrow> True"
| "fp_le _ PosInf \<longleftrightarrow> True"
| "fp_le _ _ \<longleftrightarrow> False"

text \<open>\<open>min\<close> of a number and \<open>NaN\<close> is the number; \<open>clamp\<close> leaves \<open>NaN\<close> alone.\<close>

definition fp_min :: "fp \<Rightarrow> fp \<Rightarrow> fp" where
  "fp_min x y = (if x = NaN then y else if y = NaN then x else if fp_le x y then x else y)"

definition fp_clamp :: "rat \<Rightarrow> rat \<Rightarrow> fp \<Rightarrow> fp" where
  "fp_clamp lo hi x = (if x = NaN then NaN else if fp_le (Num hi) x then Num hi else if fp_le x (Num lo) then Num lo else x)"

text \<open>\<open>round\<close> (half away from zero), \<open>ceil\<close>, and the casts \<open>as i32\<close> and \<open>as usize\<close>, which saturate and take \<open>NaN\<close> to 0.\<close>

definition round_away :: "rat \<Rightarrow> int" where
  "round_away x = (if x < 0 then - \<lfloor>1 / 2 - x\<rfloor> else \<lfloor>x + 1 / 2\<rfloor>)"

fun fp_map :: "(rat \<Rightarrow> int) \<Rightarrow> fp \<Rightarrow> fp" where
  "fp_map g (Num x) = Num (of_int (g x))"
| "fp_map g x = x"

definition fp_to_int :: "int \<Rightarrow> int \<Rightarrow> fp \<Rightarrow> int" where
  "fp_to_int lo hi x = (case x of
      NaN \<Rightarrow> 0 | NegInf \<Rightarrow> lo | PosInf \<Rightarrow> hi
    | Num r \<Rightarrow> max lo (min hi (if r < 0 then \<lceil>r\<rceil> else \<lfloor>r\<rfloor>)))"

section \<open>Rounding to an integer\<close>

lemma round_even_error: "\<bar>of_int (round_even x) - x\<bar> \<le> 1 / 2"
proof -
  have "0 \<le> x - of_int \<lfloor>x\<rfloor>" "x - of_int \<lfloor>x\<rfloor> < 1" by linarith+
  then show ?thesis by (auto simp: round_even_def Let_def abs_le_iff)
qed

lemma round_even_of_int [simp]: "round_even (of_int n) = n"
  by (simp add: round_even_def)

lemma round_even_le: "x \<le> of_int n \<Longrightarrow> round_even x \<le> n"
proof -
  assume "x \<le> of_int n"
  moreover have "of_int (round_even x) \<le> x + 1 / 2" using round_even_error [of x] by linarith
  ultimately have "of_int (round_even x) < (of_int (n + 1) :: rat)" by simp
  then show ?thesis by linarith
qed

lemma round_even_ge: "of_int n \<le> x \<Longrightarrow> n \<le> round_even x"
proof -
  assume "of_int n \<le> x"
  moreover have "x - 1 / 2 \<le> of_int (round_even x)" using round_even_error [of x] by linarith
  ultimately have "of_int (n - 1) < (of_int (round_even x) :: rat)" by simp
  then show ?thesis by linarith
qed

lemma round_away_error: "\<bar>of_int (round_away x) - x\<bar> \<le> 1 / 2"
proof (cases "x < 0")
  case True
  then have r: "of_int (round_away x) = (- of_int \<lfloor>1 / 2 - x\<rfloor> :: rat)" by (simp add: round_away_def)
  have "of_int \<lfloor>1 / 2 - x\<rfloor> \<le> 1 / 2 - x" "1 / 2 - x < of_int \<lfloor>1 / 2 - x\<rfloor> + 1" by linarith+
  then show ?thesis unfolding r by linarith
next
  case False
  then have r: "of_int (round_away x) = (of_int \<lfloor>x + 1 / 2\<rfloor> :: rat)" by (simp add: round_away_def)
  have "of_int \<lfloor>x + 1 / 2\<rfloor> \<le> x + 1 / 2" "x + 1 / 2 < of_int \<lfloor>x + 1 / 2\<rfloor> + 1" by linarith+
  then show ?thesis unfolding r by linarith
qed

lemma near_unique:
  assumes "\<bar>of_int m - x\<bar> \<le> (1 / 2 :: rat)" "\<bar>x - of_int n\<bar> < 1 / 2"
  shows "m = n"
proof -
  have "\<bar>of_int (m - n)\<bar> < (1 :: rat)" using assms unfolding of_int_diff by linarith
  then show ?thesis by linarith
qed

lemma round_even_near: "\<bar>x - of_int n\<bar> < 1 / 2 \<Longrightarrow> round_even x = n"
  using round_even_error by (rule near_unique)

lemma round_away_near: "\<bar>x - of_int n\<bar> < 1 / 2 \<Longrightarrow> round_away x = n"
  using round_away_error by (rule near_unique)

section \<open>The exponent\<close>

lemma powi_mult: "(2 :: rat) powi a * 2 powi b = 2 powi (a + b)"
  by (simp add: power_int_add)

lemma powi_le_iff: "(2 :: rat) powi a \<le> 2 powi b \<longleftrightarrow> a \<le> b"
proof
  assume "a \<le> b"
  then show "(2 :: rat) powi a \<le> 2 powi b" by (intro power_int_increasing) simp_all
next
  assume l: "(2 :: rat) powi a \<le> 2 powi b"
  show "a \<le> b"
  proof (rule ccontr)
    assume "\<not> a \<le> b"
    then have "(2 :: rat) powi b < 2 powi a" by (intro power_int_strict_increasing) simp_all
    with l show False by simp
  qed
qed

lemma powi_less_iff: "(2 :: rat) powi a < 2 powi b \<longleftrightarrow> a < b"
  by (simp add: powi_le_iff flip: not_le)

lemma floorlog_powi:
  assumes "0 < a"
  shows "2 powi (int (floorlog 2 (nat a)) - 1) \<le> (of_int a :: rat)" "(of_int a :: rat) < 2 powi int (floorlog 2 (nat a))"
proof -
  let ?m = "floorlog 2 (nat a)"
  have m: "2 ^ (?m - 1) \<le> nat a" "nat a < 2 ^ ?m" "0 < ?m"
    using floorlog_bounds [of "nat a" 2] assms by (auto simp: floorlog_def)
  have a: "(of_int a :: rat) = of_nat (nat a)" using assms by simp
  have "int ?m - 1 = int (?m - 1)" using m(3) by simp
  then have p: "2 powi (int ?m - 1) = (of_nat (2 ^ (?m - 1)) :: rat)" "2 powi int ?m = (of_nat (2 ^ ?m) :: rat)"
    by (simp_all only: power_int_of_nat of_nat_power of_nat_numeral)
  show "2 powi (int ?m - 1) \<le> (of_int a :: rat)" "(of_int a :: rat) < 2 powi int ?m"
    unfolding p a of_nat_le_iff of_nat_less_iff by (rule m)+
qed

lemma exponent_bounds:
  assumes "x \<noteq> 0"
  shows "2 powi exponent_of x \<le> \<bar>x\<bar>" "\<bar>x\<bar> < 2 powi (exponent_of x + 1)"
proof -
  obtain a b where q: "quotient_of \<bar>x\<bar> = (a, b)" by fastforce
  have x: "\<bar>x\<bar> = of_int a / of_int b" and b: "0 < b" using quotient_of_div [OF q] quotient_of_denom_pos [OF q] by simp_all
  have a: "0 < a" using x b assms by (metis abs_le_zero_iff not_less of_int_0_less_iff zero_less_abs_iff
        of_int_le_0_iff divide_nonpos_pos)
  define m n where "m = floorlog 2 (nat a)" and "n = floorlog 2 (nat b)"
  have A: "2 powi (int m - 1) \<le> (of_int a :: rat)" "(of_int a :: rat) < 2 powi int m"
    using floorlog_powi [of a] a by (simp_all add: m_def)
  have B: "2 powi (int n - 1) \<le> (of_int b :: rat)" "(of_int b :: rat) < 2 powi int n"
    using floorlog_powi [of b] b by (simp_all add: n_def)
  let ?e = "int m - int n"
  have p: "(0 :: rat) < 2 powi k" for k by simp
  have "2 powi (?e - 1) * of_int b < (2 powi (?e - 1) * 2 powi int n :: rat)" using B(2) p by (intro mult_strict_left_mono) simp_all
  also have "\<dots> = 2 powi (int m - 1)" by (simp only: powi_mult) simp
  finally have lo: "2 powi (?e - 1) < \<bar>x\<bar>" using A(1) b by (simp add: x less_divide_eq)
  have "(of_int a :: rat) < 2 powi (?e + 1) * 2 powi (int n - 1)" using A(2) by (simp only: powi_mult) simp
  also have "\<dots> \<le> 2 powi (?e + 1) * of_int b" using B(1) p by (intro mult_left_mono) (simp_all add: less_imp_le)
  finally have hi: "\<bar>x\<bar> < 2 powi (?e + 1)" using b by (simp add: x divide_less_eq)
  have e: "exponent_of x = (if \<bar>x\<bar> < 2 powi ?e then ?e - 1 else ?e)" by (simp add: exponent_of_def q m_def n_def Let_def)
  show "2 powi exponent_of x \<le> \<bar>x\<bar>" "\<bar>x\<bar> < 2 powi (exponent_of x + 1)"
    using lo hi by (simp_all add: e)
qed

lemma exponent_less:
  assumes "x \<noteq> 0" "\<bar>x\<bar> < 2 powi k"
  shows "exponent_of x < k"
proof -
  have "2 powi exponent_of x < (2 powi k :: rat)" using exponent_bounds(1) [OF assms(1)] assms(2) by (rule le_less_trans)
  then show ?thesis by (simp only: powi_less_iff)
qed

lemma exponent_ge:
  assumes "x \<noteq> 0" "2 powi k \<le> \<bar>x\<bar>"
  shows "k \<le> exponent_of x"
proof -
  have "2 powi k < (2 powi (exponent_of x + 1) :: rat)" using assms(2) exponent_bounds(2) [OF assms(1)] by (rule le_less_trans)
  then show ?thesis unfolding powi_less_iff by simp
qed

section \<open>What rounding does\<close>

text \<open>The numbers of a format.\<close>

definition representable :: "float_format \<Rightarrow> rat \<Rightarrow> bool" where
  "representable f x \<longleftrightarrow> (\<exists>m k. x = of_int m * 2 powi k \<and> \<bar>m\<bar> < 2 ^ ff_precision f \<and> ff_min f \<le> k)"

lemma round_to_multiple:
  "x \<noteq> 0 \<Longrightarrow> round_to f x = of_int (round_even (x / 2 powi ulp_exponent f x)) * 2 powi ulp_exponent f x"
  by (simp add: round_to_def Let_def)

lemma round_to_error: "\<bar>round_to f x - x\<bar> \<le> 2 powi ulp_exponent f x / 2"
proof (cases "x = 0")
  case False
  let ?u = "2 powi ulp_exponent f x :: rat"
  have u: "0 < ?u" by simp
  have "round_to f x - x = (of_int (round_even (x / ?u)) - x / ?u) * ?u"
    using False by (simp add: round_to_multiple left_diff_distrib)
  then have "\<bar>round_to f x - x\<bar> = \<bar>of_int (round_even (x / ?u)) - x / ?u\<bar> * ?u" using u by (simp add: abs_mult)
  also have "\<dots> \<le> 1 / 2 * ?u" using round_even_error u by (intro mult_right_mono) simp_all
  finally show ?thesis by simp
qed (simp add: round_to_def)

lemma ulp_of_multiple:
  assumes "x \<noteq> 0" "\<bar>x\<bar> < 2 powi (k + int (ff_precision f))" "ff_min f \<le> k"
  shows "ulp_exponent f x \<le> k"
  using exponent_less [OF assms(1,2)] assms(3) by (simp add: ulp_exponent_def)

lemma round_to_exact:
  assumes "representable f x"
  shows "round_to f x = x"
proof (cases "x = 0")
  case False
  obtain m k where x: "x = of_int m * 2 powi k" and m: "\<bar>m\<bar> < 2 ^ ff_precision f" and k: "ff_min f \<le> k"
    using assms by (auto simp: representable_def)
  have "\<bar>of_int m\<bar> < (2 powi int (ff_precision f) :: rat)"
    using m by (metis of_int_abs of_int_less_iff of_int_numeral of_int_power power_int_of_nat)
  then have "\<bar>of_int m\<bar> * 2 powi k < 2 powi int (ff_precision f) * (2 powi k :: rat)"
    by (intro mult_strict_right_mono) simp_all
  then have "\<bar>x\<bar> < 2 powi (k + int (ff_precision f))" unfolding x powi_mult by (simp add: abs_mult add.commute)
  from ulp_of_multiple [OF False this k] obtain n where n: "k = ulp_exponent f x + int n"
    using zle_iff_zadd by blast
  define u :: rat where "u = 2 powi ulp_exponent f x"
  have u: "u \<noteq> 0" by (simp add: u_def)
  have xu: "x = of_int (m * 2 ^ n) * u" by (subst x, subst n) (simp add: u_def power_int_add)
  have "round_to f x = of_int (round_even (x / u)) * u" unfolding u_def by (rule round_to_multiple [OF False])
  also have "x / u = of_int (m * 2 ^ n)" using u by (subst xu) simp
  finally show ?thesis by (simp only: round_even_of_int xu [symmetric])
qed (simp add: round_to_def)

text \<open>Rounding does not pass a multiple of its last place.\<close>

lemma round_to_le:
  assumes "x \<le> of_int n * 2 powi k" "x \<noteq> 0" "ulp_exponent f x \<le> k"
  shows "round_to f x \<le> of_int n * 2 powi k"
proof -
  let ?u = "2 powi ulp_exponent f x :: rat"
  obtain j where j: "k = ulp_exponent f x + int j" using assms(3) zle_iff_zadd by blast
  have e: "of_int n * 2 powi k = of_int (n * 2 ^ j) * ?u" by (simp add: j power_int_add)
  have "x / ?u \<le> of_int (n * 2 ^ j)" using assms(1) unfolding e by (simp add: divide_le_eq)
  then have "of_int (round_even (x / ?u)) \<le> (of_int (n * 2 ^ j) :: rat)" unfolding of_int_le_iff by (rule round_even_le)
  then have "of_int (round_even (x / ?u)) * ?u \<le> of_int (n * 2 ^ j) * ?u" by (rule mult_right_mono) simp
  then show ?thesis unfolding e round_to_multiple [OF assms(2)] .
qed

lemma round_to_ge:
  assumes "of_int n * 2 powi k \<le> x" "x \<noteq> 0" "ulp_exponent f x \<le> k"
  shows "of_int n * 2 powi k \<le> round_to f x"
proof -
  let ?u = "2 powi ulp_exponent f x :: rat"
  obtain j where j: "k = ulp_exponent f x + int j" using assms(3) zle_iff_zadd by blast
  have e: "of_int n * 2 powi k = of_int (n * 2 ^ j) * ?u" by (simp add: j power_int_add)
  have "of_int (n * 2 ^ j) \<le> x / ?u" using assms(1) unfolding e by (simp add: le_divide_eq)
  then have "(of_int (n * 2 ^ j) :: rat) \<le> of_int (round_even (x / ?u))" unfolding of_int_le_iff by (rule round_even_ge)
  then have "of_int (n * 2 ^ j) * ?u \<le> of_int (round_even (x / ?u)) * ?u" by (rule mult_right_mono) simp
  then show ?thesis unfolding e round_to_multiple [OF assms(2)] .
qed

text \<open>The relative error in the range of normal numbers.\<close>

lemma round_to_relative:
  assumes "x = 0 \<or> 2 powi (ff_min f + int (ff_precision f) - 1) \<le> \<bar>x\<bar>"
  shows "\<bar>round_to f x - x\<bar> \<le> \<bar>x\<bar> * 2 powi (- int (ff_precision f))"
proof (cases "x = 0")
  case False
  have "ff_min f + int (ff_precision f) - 1 \<le> exponent_of x" using False assms by (intro exponent_ge) simp_all
  then have q: "ulp_exponent f x = exponent_of x + (1 - int (ff_precision f))" by (simp add: ulp_exponent_def)
  have "2 powi ulp_exponent f x / 2 = (2 powi ulp_exponent f x * 2 powi - 1 :: rat)" by simp
  also have "\<dots> = 2 powi exponent_of x * 2 powi (- int (ff_precision f))"
    unfolding q powi_mult by (simp add: algebra_simps)
  also have "\<dots> \<le> \<bar>x\<bar> * 2 powi (- int (ff_precision f))"
    using exponent_bounds(1) [OF False] by (intro mult_right_mono) simp_all
  finally show ?thesis using round_to_error [of f x] by linarith
qed (simp add: round_to_def)

lemma round_to_close:
  assumes "\<bar>x\<bar> < 2 powi k" "ff_min f + int (ff_precision f) \<le> k"
  shows "\<bar>round_to f x - x\<bar> \<le> 2 powi (k - int (ff_precision f) - 1)"
proof (cases "x = 0")
  case False
  have "ulp_exponent f x \<le> k - int (ff_precision f)"
    using assms False by (intro ulp_of_multiple) simp_all
  then have "2 powi ulp_exponent f x \<le> (2 powi (k - int (ff_precision f)) :: rat)" unfolding powi_le_iff .
  moreover have "2 powi (k - int (ff_precision f) - 1) = (2 powi (k - int (ff_precision f)) / 2 :: rat)"
    by (simp add: power_int_diff)
  ultimately show ?thesis using round_to_error [of f x] by linarith
qed (simp add: round_to_def)

lemma round_to_bounded:
  assumes "\<bar>x\<bar> \<le> 2 powi k" "ff_min f \<le> k" "0 < ff_precision f"
  shows "\<bar>round_to f x\<bar> \<le> 2 powi k"
proof (cases "x = 0")
  case False
  have "2 powi k < (2 powi (k + int (ff_precision f)) :: rat)" using assms(3) by (simp add: powi_less_iff)
  then have u: "ulp_exponent f x \<le> k" using assms False by (intro ulp_of_multiple) linarith+
  have "x \<le> of_int 1 * 2 powi k" "of_int (- 1) * 2 powi k \<le> x" using assms(1) by (simp_all add: abs_le_iff)
  from round_to_le [OF this(1) False u] round_to_ge [OF this(2) False u] show ?thesis by (simp add: abs_le_iff)
qed (simp add: round_to_def)

lemma fp_round_Num:
  assumes "\<bar>x\<bar> \<le> 2 powi k" "ff_min f \<le> k" "0 < ff_precision f" "k < ff_top f"
  shows "fp_round f x = Num (round_to f x)"
proof -
  have "2 powi k < (2 powi ff_top f :: rat)" using assms(4) by (simp add: powi_less_iff)
  with round_to_bounded [OF assms(1-3)] have "round_to f x < 2 powi ff_top f" "- (2 powi ff_top f) < round_to f x"
    by linarith+
  then show ?thesis by (simp add: fp_round_def Let_def)
qed

lemma fp_round_exact:
  assumes "representable f x" "\<bar>x\<bar> < 2 powi ff_top f"
  shows "fp_round f x = Num x"
proof -
  have "x < 2 powi ff_top f" "- (2 powi ff_top f) < x" using assms(2) by linarith+
  then show ?thesis by (simp add: fp_round_def round_to_exact [OF assms(1)])
qed

text \<open>The two formats.\<close>

lemma formats [simp]:
  "ff_precision f32_format = 24" "ff_min f32_format = - 149" "ff_top f32_format = 128"
  "ff_precision f64_format = 53" "ff_min f64_format = - 1074" "ff_top f64_format = 1024"
  by (simp_all add: f32_format_def f64_format_def)

lemma fp_to_int_of_int [simp]: "fp_to_int lo hi (Num (of_int n)) = max lo (min hi n)"
  by (simp add: fp_to_int_def)

lemma representable_of_int:
  assumes "\<bar>n\<bar> < 2 ^ ff_precision f" "ff_min f \<le> 0"
  shows "representable f (of_int n)"
  unfolding representable_def using assms by (intro exI [of _ n] exI [of _ 0]) simp

text \<open>Evaluating a rounding.\<close>

lemma floor_rat [simp]:
  "\<lfloor>numeral a / numeral b :: rat\<rfloor> = numeral a div numeral b" "\<lfloor>1 / numeral b :: rat\<rfloor> = 1 div numeral b"
  using floor_divide_of_int_eq [of "numeral a" "numeral b", where 'a = rat] floor_divide_of_int_eq [of 1 "numeral b", where 'a = rat]
  by simp_all

lemma ulp_exponent_eq:
  assumes "2 powi e \<le> \<bar>x\<bar>" "\<bar>x\<bar> < 2 powi (e + 1)"
  shows "ulp_exponent f x = max (ff_min f) (e - int (ff_precision f) + 1)"
proof -
  have "(0 :: rat) < 2 powi e" by simp
  then have "0 < \<bar>x\<bar>" using assms(1) by (rule less_le_trans)
  then have x: "x \<noteq> 0" by simp
  have "exponent_of x = e" using exponent_less [OF x assms(2)] exponent_ge [OF x assms(1)] by simp
  then show ?thesis by (simp add: ulp_exponent_def)
qed

lemma round_to_keeps_above:
  assumes "2 powi k \<le> x" "ff_min f \<le> k" "0 < ff_precision f"
  shows "2 powi k \<le> round_to f x"
proof -
  have "(0 :: rat) < 2 powi k" by simp
  then have x: "0 < x" using assms(1) by (rule less_le_trans)
  have k: "k \<le> exponent_of x" using x assms(1) by (intro exponent_ge) simp_all
  then have u: "ulp_exponent f x \<le> exponent_of x" using assms(2,3) by (simp add: ulp_exponent_def)
  have "of_int 1 * 2 powi exponent_of x \<le> x" using exponent_bounds(1) [of x] x by simp
  from round_to_ge [OF this _ u] x have "2 powi exponent_of x \<le> round_to f x" by simp
  moreover have "(2 :: rat) powi k \<le> 2 powi exponent_of x" using k by (simp only: powi_le_iff)
  ultimately show ?thesis by simp
qed

lemma round_to_eq:
  assumes "2 powi e \<le> \<bar>x\<bar>" "\<bar>x\<bar> < 2 powi (e + 1)" "q = max (ff_min f) (e - int (ff_precision f) + 1)"
    "round_even (x / 2 powi q) = m"
  shows "round_to f x = of_int m * 2 powi q"
proof -
  have "(0 :: rat) < 2 powi e" by simp
  then have "0 < \<bar>x\<bar>" using assms(1) by (rule less_le_trans)
  then have x: "x \<noteq> 0" by simp
  show ?thesis using assms(3,4) ulp_exponent_eq [OF assms(1,2), of f] by (simp add: round_to_multiple [OF x])
qed

lemma round_to_f64:
  assumes "2 powi - 1022 \<le> x"
  shows "\<bar>round_to f64_format x - x\<bar> \<le> x / 2 ^ 53"
proof -
  have "(0 :: rat) \<le> 2 powi - 1022" by (rule zero_le_power_int) simp
  then have x: "\<bar>x\<bar> = x" using assms by linarith
  have e: "ff_min f64_format + int (ff_precision f64_format) - 1 = - 1022" "- int (ff_precision f64_format) = - 53" by simp_all
  have "(2 :: rat) powi - 53 = 1 / 2 ^ 53" by (simp add: power_int_minus)
  with round_to_relative [of x f64_format, unfolded e x] assms show ?thesis by (simp only: times_divide_eq_right mult_1_right simp_thms)
qed

lemma fp_round_not_NaN [simp]: "fp_round f x \<noteq> NaN"
  by (simp add: fp_round_def Let_def)

lemma fp_le_refl: "x \<noteq> NaN \<Longrightarrow> fp_le x x"
  by (cases x) simp_all

lemma fp_min_le: "x \<noteq> NaN \<Longrightarrow> y \<noteq> NaN \<Longrightarrow> fp_le (fp_min x y) y"
  by (simp add: fp_min_def fp_le_refl)

section \<open>Durations\<close>

text \<open>
  A \<open>Duration\<close> is its number of nanoseconds, less than \<open>2 ^ 64\<close> seconds. \<open>from_secs_f64\<close> takes the nearest
  nanosecond, ties to even, and panics (\<open>None\<close>) on what is negative, too large or not a number.
\<close>

type_synonym duration = nat

definition NANOS_PER_SEC :: nat where "NANOS_PER_SEC = 1000000000"

definition from_secs_f64 :: "fp \<Rightarrow> duration option" where
  "from_secs_f64 s = (case s of
      Num x \<Rightarrow> if x < 0 \<or> 2 ^ 64 \<le> x then None else Some (nat (round_even (x * of_nat NANOS_PER_SEC)))
    | _ \<Rightarrow> None)"

definition as_secs_f64 :: "duration \<Rightarrow> fp" where
  "as_secs_f64 d = fp_add f64_format (fp_round f64_format (of_nat (d div NANOS_PER_SEC)))
     (fp_div f64_format (Num (of_nat (d mod NANOS_PER_SEC))) (Num (of_nat NANOS_PER_SEC)))"

section \<open>Accumulated errors\<close>

text \<open>\<open>close k x y\<close>: \<open>y\<close> is the number \<open>x\<close> after at most \<open>k\<close> roundings of an \<open>f64\<close>.\<close>

definition close :: "nat \<Rightarrow> rat \<Rightarrow> rat \<Rightarrow> bool" where
  "close k x y \<longleftrightarrow> \<bar>y - x\<bar> \<le> x * (of_nat k / 2 ^ 52)"

lemma close_refl: "0 \<le> x \<Longrightarrow> close k x x"
  by (simp add: close_def)

lemma close_mono: "close k x y \<Longrightarrow> 0 \<le> x \<Longrightarrow> k \<le> l \<Longrightarrow> close l x y"
  unfolding close_def by (erule order_trans) (intro mult_left_mono divide_right_mono, simp_all)

lemma close_add: "close k x y \<Longrightarrow> close k x' y' \<Longrightarrow> close k (x + x') (y + y')"
  unfolding close_def distrib_right by linarith

lemma close_scale:
  assumes "close k x y" "0 \<le> c"
  shows "close k (x * c) (y * c)"
proof -
  have "\<bar>y * c - x * c\<bar> = \<bar>y - x\<bar> * c" using assms(2) by (simp add: abs_mult flip: left_diff_distrib)
  also have "\<dots> \<le> x * (of_nat k / 2 ^ 52) * c" using assms unfolding close_def by (intro mult_right_mono)
  finally show ?thesis unfolding close_def by (simp only: mult.commute mult.left_commute)
qed

lemma close_pos: "close k x y \<Longrightarrow> 0 \<le> x \<Longrightarrow> k \<le> 2 ^ 50 \<Longrightarrow> x / 2 \<le> y \<and> y \<le> 2 * x"
proof -
  assume c: "close k x y" "0 \<le> x" "k \<le> 2 ^ 50"
  have "(of_nat k :: rat) \<le> of_nat (2 ^ 50)" using c(3) by (simp only: of_nat_le_iff)
  then have "of_nat k / 2 ^ 52 \<le> (1 / 2 :: rat)" by simp
  then have "x * (of_nat k / 2 ^ 52) \<le> x * (1 / 2)" using c(2) by (rule mult_left_mono)
  then have "\<bar>y - x\<bar> \<le> x / 2" using c(1) by (simp add: close_def)
  then show ?thesis by linarith
qed

lemma close_round:
  assumes "close k x y" "0 \<le> x" "k \<le> 2 ^ 50" "y = 0 \<or> 2 powi - 1022 \<le> y"
  shows "close (k + 1) x (round_to f64_format y)"
proof -
  have y: "0 \<le> y" "y \<le> 2 * x" using close_pos [OF assms(1-3)] assms(2) by linarith+
  have "\<bar>round_to f64_format y - y\<bar> \<le> \<bar>y\<bar> * 2 powi (- int (ff_precision f64_format))"
    by (rule round_to_relative) (use assms(4) y in auto)
  also have "\<dots> = y * (1 / 2 ^ 53)" using y(1) by (simp add: power_int_minus)
  also have "\<dots> \<le> 2 * x * (1 / 2 ^ 53)" using y(2) by (rule mult_right_mono) simp
  also have "\<dots> = x * (1 / 2 ^ 52)" by simp
  finally have "\<bar>round_to f64_format y - y\<bar> \<le> x * (1 / 2 ^ 52)" .
  then have "\<bar>round_to f64_format y - x\<bar> \<le> x * (1 / 2 ^ 52) + x * (of_nat k / 2 ^ 52)"
    using assms(1) unfolding close_def by linarith
  also have "\<dots> = x * (of_nat (k + 1) / 2 ^ 52)" unfolding of_nat_add add_divide_distrib distrib_left by (simp only: of_nat_1 add.commute)
  finally show ?thesis unfolding close_def .
qed

text \<open>The range in which nothing overflows and nothing becomes subnormal.\<close>

definition moderate :: "rat \<Rightarrow> bool" where
  "moderate x \<longleftrightarrow> x = 0 \<or> 2 powi - 100 \<le> x \<and> x \<le> 2 powi 200"

definition fp_close :: "nat \<Rightarrow> rat \<Rightarrow> fp \<Rightarrow> bool" where
  "fp_close k x v \<longleftrightarrow> (\<exists>y. v = Num y \<and> close k x y) \<and> 0 \<le> x"

lemma fp_close_mono: "fp_close k x v \<Longrightarrow> k \<le> l \<Longrightarrow> fp_close l x v"
  by (auto simp: fp_close_def intro: close_mono)

lemma fp_close_Num: "0 \<le> x \<Longrightarrow> fp_close k x (Num x)"
  by (simp add: fp_close_def close_refl)

lemma fp_close_round:
  assumes "close k x y" "moderate x" "k \<le> 2 ^ 50"
  shows "fp_close (k + 1) x (fp_round f64_format y)"
proof -
  have p: "(2 :: rat) powi - 101 = 2 powi - 100 / 2" "(2 :: rat) powi 201 = 2 * 2 powi 200"
    by (simp_all add: power_int_minus)
  have x: "0 \<le> x" using assms(2) zero_le_power_int [of "2 :: rat" "- 100"] by (auto simp: moderate_def)
  from close_pos [OF assms(1) x assms(3)] have y: "x / 2 \<le> y" "y \<le> 2 * x" by simp_all
  have "y = 0 \<or> 2 powi - 101 \<le> y \<and> y \<le> 2 powi 201"
    using assms(2) y unfolding moderate_def p by (elim disjE) linarith+
  moreover have "(2 :: rat) powi - 1022 \<le> 2 powi - 101" "(0 :: rat) \<le> 2 powi 201" "(0 :: rat) \<le> 2 powi - 101"
    by (simp_all add: powi_le_iff)
  ultimately have r: "y = 0 \<or> 2 powi - 1022 \<le> y" "\<bar>y\<bar> \<le> 2 powi 201" by linarith+
  have "fp_round f64_format y = Num (round_to f64_format y)" by (rule fp_round_Num [OF r(2)]) simp_all
  with close_round [OF assms(1) x assms(3) r(1)] x show ?thesis by (simp add: fp_close_def)
qed

lemma fp_close_add:
  assumes "fp_close k x u" "fp_close k x' v" "moderate (x + x')" "k \<le> 2 ^ 50"
  shows "fp_close (k + 1) (x + x') (fp_add f64_format u v)"
  using assms fp_close_round [OF close_add assms(3,4)] by (auto simp: fp_close_def)

lemma fp_close_mul:
  assumes "fp_close k x u" "0 \<le> c" "moderate (x * c)" "k \<le> 2 ^ 50"
  shows "fp_close (k + 1) (x * c) (fp_mul f64_format u (Num c))"
  using assms fp_close_round [OF close_scale [OF _ assms(2)] assms(3,4)] by (auto simp: fp_close_def)

lemma fp_close_div:
  assumes "fp_close k x u" "0 < c" "moderate (x / c)" "k \<le> 2 ^ 50"
  shows "fp_close (k + 1) (x / c) (fp_div f64_format u (Num c))"
proof -
  obtain y where y: "u = Num y" "close k x y" using assms(1) by (auto simp: fp_close_def)
  have "close k (x / c) (y / c)" using close_scale [OF y(2), of "1 / c"] assms(2) by simp
  from fp_close_round [OF this assms(3,4)] y(1) assms(2) show ?thesis by simp
qed

lemma fp_round_of_nat:
  assumes "n < 2 ^ 53"
  shows "fp_round f64_format (of_nat n) = Num (of_nat n)"
proof -
  have "representable f64_format (of_int (int n))" using assms by (intro representable_of_int) simp_all
  moreover have "(of_nat n :: rat) < 2 ^ 53" using assms by (metis of_nat_less_iff of_nat_numeral of_nat_power)
  then have "\<bar>of_nat n :: rat\<bar> < 2 powi ff_top f64_format" by simp
  ultimately show ?thesis using fp_round_exact by simp
qed

lemma moderate_ratio:
  assumes "0 < b" "b < 2 ^ 50" "a < 2 ^ 199"
  shows "moderate (of_nat a / of_nat b)"
proof (cases "a = 0")
  case False
  have b: "(1 :: rat) \<le> of_nat b" "(of_nat b :: rat) \<le> 2 ^ 50" and a: "(1 :: rat) \<le> of_nat a" "(of_nat a :: rat) \<le> 2 ^ 199"
    using assms False by (metis One_nat_def Suc_leI less_imp_le neq0_conv of_nat_1 of_nat_le_iff of_nat_numeral of_nat_power)+
  have "of_nat a / of_nat b \<le> (of_nat a / 1 :: rat)" using a b by (intro divide_left_mono) simp_all
  moreover have "(1 / 2 ^ 50 :: rat) \<le> of_nat a / of_nat b" using a b by (intro frac_le) simp_all
  moreover have "(2 :: rat) powi - 100 \<le> 1 / 2 ^ 50" "(2 :: rat) ^ 199 \<le> 2 powi 200" by (simp_all add: power_int_minus)
  ultimately show ?thesis using a(2) unfolding moderate_def by linarith
qed (simp add: moderate_def)

text \<open>The seconds of a duration, after two roundings.\<close>

lemma as_secs_close:
  assumes "d < 2 ^ 64 * NANOS_PER_SEC"
  shows "fp_close 2 (of_nat d / of_nat NANOS_PER_SEC) (as_secs_f64 d)"
proof -
  let ?n = "NANOS_PER_SEC"
  have n: "0 < ?n" "?n < 2 ^ 50" by (simp_all add: NANOS_PER_SEC_def)
  have s: "d div ?n < 2 ^ 64" using assms n by (simp add: less_mult_imp_div_less)
  have s: "fp_close 1 (of_nat (d div ?n)) (fp_round f64_format (of_nat (d div ?n)))"
    using fp_close_round [OF close_refl [of _ 0]] moderate_ratio [of 1 "d div ?n"] s by simp
  have "d mod ?n < 2 ^ 199" using mod_less_divisor [OF n(1), of d] n(2) by (simp add: NANOS_PER_SEC_def)
  then have f: "fp_close 1 (of_nat (d mod ?n) / of_nat ?n) (fp_div f64_format (Num (of_nat (d mod ?n))) (Num (of_nat ?n)))"
    using fp_close_div [OF fp_close_Num [of _ 0], of "of_nat (d mod ?n)" "of_nat ?n"] moderate_ratio [OF n, of "d mod ?n"] n
    by simp
  have e: "of_nat (d div ?n) + of_nat (d mod ?n) / of_nat ?n = (of_nat d / of_nat ?n :: rat)"
  proof -
    have "(of_nat d :: rat) = of_nat (d div ?n) * of_nat ?n + of_nat (d mod ?n)"
      by (metis div_mult_mod_eq of_nat_add of_nat_mult)
    then show ?thesis using n by (simp add: add_divide_distrib)
  qed
  have "moderate (of_nat d / of_nat ?n)"
    using assms n by (intro moderate_ratio) (simp_all add: NANOS_PER_SEC_def)
  with fp_close_add [OF s f] show ?thesis by (simp add: e as_secs_f64_def numeral_2_eq_2)
qed

end
