(* ===== verification/Config.thy ===== *)
theory Config
  imports Wire Floats
begin

text \<open>
  \<open>crates/rukkit-server/src/config.rs\<close>: the settings of the server, their validation and how they are
  loaded. Parsing an address (\<open>std::net\<close>), TOML (crate \<open>toml\<close>) and the file system are parameters;
  \<open>None\<close> is the panic of \<open>expect\<close>. \<open>tick_duration\<close> computes in \<open>f64\<close>.
\<close>

section \<open>Settings\<close>

datatype login_finished_flag = SendFalse | SendTrue | Omit

fun flag_value :: "login_finished_flag \<Rightarrow> bool option" where
  "flag_value SendFalse = Some False"
| "flag_value SendTrue = Some True"
| "flag_value Omit = None"

record server_config =
  cfg_bind :: rstring
  cfg_motd :: rstring
  cfg_max_players :: i32
  cfg_view_distance :: u8
  cfg_simulation_distance :: u8
  cfg_compression_threshold :: i32
  cfg_online_mode :: bool
  cfg_login_finished_flag :: login_finished_flag
  cfg_tick_rate :: u32
  cfg_keepalive_interval_secs :: u64
  cfg_keepalive_timeout_secs :: u64
  cfg_flat_world :: bool

definition config_default :: server_config where
  "config_default = \<lparr>cfg_bind = lit ''0.0.0.0:25565'', cfg_motd = lit ''A Rukkit server'',
     cfg_max_players = 20, cfg_view_distance = 10, cfg_simulation_distance = 10,
     cfg_compression_threshold = 256, cfg_online_mode = False, cfg_login_finished_flag = SendFalse,
     cfg_tick_rate = 20, cfg_keepalive_interval_secs = 15, cfg_keepalive_timeout_secs = 30,
     cfg_flat_world = True\<rparr>"

datatype ('io, 'toml) config_error =
    ConfigRead rstring 'io
  | ConfigWrite rstring 'io
  | ConfigParse rstring 'toml
  | ConfigInvalid rstring

section \<open>Validation\<close>

definition socket_addr :: "(rstring \<Rightarrow> 'a option) \<Rightarrow> server_config \<Rightarrow> ('io, 'toml) config_error + 'a" where
  "socket_addr parse_addr c = (case parse_addr (cfg_bind c) of
      None \<Rightarrow> Inl (ConfigInvalid (lit ''`'' @ cfg_bind c @ lit ''` is not a valid address''))
    | Some a \<Rightarrow> Inr a)"

definition validate :: "(rstring \<Rightarrow> 'a option) \<Rightarrow> server_config \<Rightarrow> ('io, 'toml) config_error + unit" where
  "validate parse_addr c =
     and_then (socket_addr parse_addr c) (\<lambda>_.
     if cfg_tick_rate c = 0 then Inl (ConfigInvalid (lit ''tick_rate must be at least 1''))
     else if cfg_view_distance c < 2 then Inl (ConfigInvalid (lit ''view_distance must be at least 2''))
     else if cfg_max_players c <s 0 then Inl (ConfigInvalid (lit ''max_players cannot be negative''))
     else if cfg_keepalive_timeout_secs c \<le> cfg_keepalive_interval_secs c then
       Inl (ConfigInvalid (lit ''keepalive_timeout_secs must exceed keepalive_interval_secs''))
     else Inr ())"

definition effective_simulation_distance :: "server_config \<Rightarrow> u8" where
  "effective_simulation_distance c = min (cfg_simulation_distance c) (cfg_view_distance c)"

definition compression :: "server_config \<Rightarrow> usize option" where
  "compression c = (if cfg_compression_threshold c <s 0 then None
     else Some (unat (cfg_compression_threshold c)))"

text \<open>\<open>None\<close> is the panic of \<open>Duration::from_secs_f64\<close>.\<close>

definition tick_duration :: "server_config \<Rightarrow> duration option" where
  "tick_duration c = from_secs_f64 (fp_div f64_format (Num 1) (Num (of_nat (unat (max (cfg_tick_rate c) 1)))))"

section \<open>Loading\<close>

datatype 'io file_content = FileText rstring | FileNotFound | FileError 'io

text \<open>
  \<open>write\<close> is the outcome of writing the text of a new file; the second component of the result is what
  was written, if anything.
\<close>

definition load_or_create ::
  "(rstring \<Rightarrow> 'a option) \<Rightarrow> (rstring \<Rightarrow> 'toml + server_config) \<Rightarrow> (server_config \<Rightarrow> rstring option) \<Rightarrow>
    rstring \<Rightarrow> 'io file_content \<Rightarrow> (rstring \<Rightarrow> 'io + unit) \<Rightarrow>
    ((('io, 'toml) config_error + server_config) \<times> rstring option) option" where
  "load_or_create parse_addr from_str to_string_pretty display content write = (case content of
      FileText t \<Rightarrow> Some (case from_str t of
          Inl e \<Rightarrow> Inl (ConfigParse display e)
        | Inr config \<Rightarrow> and_then (validate parse_addr config) (\<lambda>_. Inr config), None)
    | FileNotFound \<Rightarrow>
        let config = config_default in
        (case to_string_pretty config of
           None \<Rightarrow> None
         | Some t \<Rightarrow> Some (case write t of
               Inl e \<Rightarrow> Inl (ConfigWrite display e)
             | Inr _ \<Rightarrow> Inr config, Some t))
    | FileError e \<Rightarrow> Some (Inl (ConfigRead display e), None))"

section \<open>Properties\<close>

lemma unat_nonneg:
  fixes x :: i32
  assumes "\<not> sint x < 0"
  shows "unat x = nat (sint x)"
proof -
  have "sint x < 2 ^ 31" using sint_lt [of x] by simp
  then have "uint x = sint x" using assms by (simp add: uint_sint take_bit_int_eq_self)
  then show ?thesis by (simp flip: nat_uint_eq)
qed

text \<open>
  Validation accepts a configuration exactly when its address parses, it ticks at least once a
  second, it shows at least two chunks, its player limit is not negative as a signed number, and a
  client is dropped later than it is probed; it never answers with an input-output error. The player
  limit and the compression threshold it hands on are then the configured numbers.
\<close>

lemma validate_exact:
  "((validate parse_addr c :: ('io, 'toml) config_error + unit) = Inr ()) =
     (parse_addr (cfg_bind c) \<noteq> None \<and> 1 \<le> unat (cfg_tick_rate c) \<and> 2 \<le> unat (cfg_view_distance c) \<and>
      0 \<le> sint (cfg_max_players c) \<and>
      unat (cfg_keepalive_interval_secs c) < unat (cfg_keepalive_timeout_secs c)) \<and>
   ((validate parse_addr c :: ('io, 'toml) config_error + unit) = Inr () \<or>
     (\<exists>why. (validate parse_addr c :: ('io, 'toml) config_error + unit) = Inl (ConfigInvalid why))) \<and>
   compression c = (if sint (cfg_compression_threshold c) < 0 then None
     else Some (nat (sint (cfg_compression_threshold c))))"
proof (intro conjI)
  let ?v = "validate parse_addr c :: ('io, 'toml) config_error + unit"
  have r: "cfg_tick_rate c = 0 \<longleftrightarrow> \<not> 1 \<le> unat (cfg_tick_rate c)"
    by (simp add: unat_eq_0 not_le less_Suc_eq_le [symmetric])
  have d: "cfg_view_distance c < 2 \<longleftrightarrow> \<not> 2 \<le> unat (cfg_view_distance c)"
    by (simp add: word_less_nat_alt not_le)
  have m: "cfg_max_players c <s 0 \<longleftrightarrow> \<not> 0 \<le> sint (cfg_max_players c)"
    by (simp add: word_sless_alt not_le)
  have k: "cfg_keepalive_timeout_secs c \<le> cfg_keepalive_interval_secs c \<longleftrightarrow>
      \<not> unat (cfg_keepalive_interval_secs c) < unat (cfg_keepalive_timeout_secs c)"
    by (simp add: word_le_nat_alt not_less)
  show "(?v = Inr ()) = (parse_addr (cfg_bind c) \<noteq> None \<and> 1 \<le> unat (cfg_tick_rate c) \<and>
      2 \<le> unat (cfg_view_distance c) \<and> 0 \<le> sint (cfg_max_players c) \<and>
      unat (cfg_keepalive_interval_secs c) < unat (cfg_keepalive_timeout_secs c))"
    unfolding validate_def socket_addr_def r d m k
    by (cases "parse_addr (cfg_bind c)") (simp_all split: if_split)
  show "?v = Inr () \<or> (\<exists>why. ?v = Inl (ConfigInvalid why))"
    unfolding validate_def socket_addr_def
    by (cases "parse_addr (cfg_bind c)") (simp_all split: if_split)
  show "compression c = (if sint (cfg_compression_threshold c) < 0 then None
     else Some (nat (sint (cfg_compression_threshold c))))"
    by (simp add: compression_def word_sless_alt unat_nonneg)
qed

text \<open>
  A configuration that loads is valid: the one read from the file because it is validated, the
  default one because its own address parses; a missing file is created with exactly the default
  settings, and nothing is written in any other case.
\<close>

lemma loaded_config_valid:
  fixes read_content :: "'io file_content"
  assumes "parse_addr (lit ''0.0.0.0:25565'') \<noteq> None"
    and "load_or_create parse_addr from_str to_string_pretty display read_content write =
      Some ((result :: ('io, 'toml) config_error + server_config), written)"
  shows "(\<forall>config. result = Inr config \<longrightarrow>
      (validate parse_addr config :: ('io, 'toml) config_error + unit) = Inr ()) \<and>
    (written \<noteq> None \<longrightarrow> read_content = FileNotFound \<and> written = to_string_pretty config_default) \<and>
    (read_content = FileNotFound \<longrightarrow> result = Inr config_default \<or>
      (\<exists>e. result = Inl (ConfigWrite display e)))"
proof (cases read_content)
  case (FileText t)
  with assms(2) show ?thesis
    by (auto simp: load_or_create_def and_then_Inr_iff split: sum.splits)
next
  case FileNotFound
  have "(validate parse_addr config_default :: ('io, 'toml) config_error + unit) = Inr ()"
    using assms(1) by (auto simp: validate_def socket_addr_def config_default_def word_sless_alt)
  with FileNotFound assms(2) show ?thesis
    by (auto simp: load_or_create_def Let_def split: sum.splits option.splits)
next
  case (FileError e)
  with assms(2) show ?thesis by (auto simp: load_or_create_def)
qed

lemma loaded_config_valid_witness:
  "(validate (\<lambda>s. Some s) config_default :: (unit, unit) config_error + unit) = Inr ()"
  using loaded_config_valid [of "\<lambda>s. Some s" "\<lambda>_. Inl ()" "\<lambda>_. Some []" "[]" "FileNotFound :: unit file_content"
      "\<lambda>_. Inr ()" "Inr config_default" "Some []"]
  by (simp add: load_or_create_def)

section \<open>The length of a tick\<close>

text \<open>The nanoseconds of one tick before they are rounded: off by at most a millionth.\<close>

lemma tick_nanos:
  assumes "n = unat (max (cfg_tick_rate c) 1)"
  obtains y where "tick_duration c = Some (nat (round_even y))" "1 \<le> n" "n < 2 ^ 32" "0 < y"
    "\<bar>y - 10 ^ 9 / of_nat n\<bar> \<le> 10 ^ 9 / of_nat n / 2 ^ 53"
proof
  have "1 \<le> max (cfg_tick_rate c) 1" by simp
  then have "unat (1 :: u32) \<le> n" unfolding assms word_le_nat_alt .
  then show n: "1 \<le> n" by simp
  show n32: "n < 2 ^ 32" using unsigned_less [of "max (cfg_tick_rate c) 1", where 'a = nat] by (simp add: assms)
  let ?x = "1 / of_nat n :: rat" let ?y = "round_to f64_format ?x"
  have N: "1 \<le> (of_nat n :: rat)" "(of_nat n :: rat) \<le> 2 ^ 32"
    using n n32 by (metis of_nat_1 of_nat_le_iff, metis less_imp_le of_nat_le_iff of_nat_numeral of_nat_power)
  have x: "0 < ?x" "?x \<le> 1" using N by simp_all
  have "1 / 2 ^ 32 \<le> ?x" using N by (intro frac_le) simp_all
  then have low: "2 powi - 32 \<le> ?x" by (simp add: power_int_minus)
  have "(2 :: rat) powi - 1022 \<le> 2 powi - 32" by (simp add: powi_le_iff)
  then have e: "\<bar>?y - ?x\<bar> \<le> ?x / 2 ^ 53" using low by (intro round_to_f64) (rule order_trans)
  have "2 powi - 32 \<le> ?y" using low by (rule round_to_keeps_above) simp_all
  then have pos: "0 < ?y" using zero_less_power_int [of "2 :: rat" "- 32"] by linarith
  have "?x / 2 ^ 53 \<le> ?x / 1" using x(1) by (intro divide_left_mono) simp_all
  then have "?y \<le> 2" using e x(2) unfolding div_by_1 by linarith
  then have lim: "\<not> ?y < 0" "\<not> 2 ^ 64 \<le> ?y" using pos by simp_all
  have "fp_div f64_format (Num 1) (Num (of_nat n)) = Num ?y"
    using fp_round_Num [of ?x 0 f64_format] x n by simp
  then show "tick_duration c = Some (nat (round_even (?y * 10 ^ 9)))"
    unfolding tick_duration_def assms [symmetric] from_secs_f64_def using lim by (simp add: NANOS_PER_SEC_def)
  show "0 < ?y * 10 ^ 9" using pos by simp
  have "?y * 10 ^ 9 - 10 ^ 9 / of_nat n = (?y - ?x) * 10 ^ 9" by (simp only: left_diff_distrib) simp
  then have "\<bar>?y * 10 ^ 9 - 10 ^ 9 / of_nat n\<bar> = \<bar>?y - ?x\<bar> * 10 ^ 9" by (simp only: abs_mult) simp
  also have "\<dots> \<le> ?x / 2 ^ 53 * 10 ^ 9" using e by (rule mult_right_mono) simp
  also have "\<dots> = 10 ^ 9 / of_nat n / 2 ^ 53" by simp
  finally show "\<bar>?y * 10 ^ 9 - 10 ^ 9 / of_nat n\<bar> \<le> 10 ^ 9 / of_nat n / 2 ^ 53" .
qed

lemma tick_duration_facts:
  assumes "n = unat (max (cfg_tick_rate c) 1)"
  shows "\<exists>d. tick_duration c = Some d \<and> \<bar>of_nat d - 10 ^ 9 / of_nat n\<bar> \<le> (1 / 2 + 1 / 1000000 :: rat) \<and>
    (n dvd 10 ^ 9 \<longrightarrow> d * n = 10 ^ 9) \<and> (n < 2000000000 \<longrightarrow> 0 < d) \<and> (2000000000 < n \<longrightarrow> d = 0)"
proof -
  obtain y where y: "tick_duration c = Some (nat (round_even y))" "1 \<le> n" "n < 2 ^ 32" "0 < y"
    "\<bar>y - 10 ^ 9 / of_nat n\<bar> \<le> 10 ^ 9 / of_nat n / 2 ^ 53" by (rule tick_nanos [OF assms])
  let ?t = "10 ^ 9 / of_nat n :: rat" let ?r = "round_even y"
  have N: "1 \<le> (of_nat n :: rat)" using y(2) by (metis of_nat_1 of_nat_le_iff)
  have t: "0 < ?t" "?t \<le> 10 ^ 9" using N by (simp_all add: divide_le_eq)
  have "?t / 2 ^ 53 \<le> 10 ^ 9 / 2 ^ 53" using t(2) by (rule divide_right_mono) simp
  then have e: "\<bar>y - ?t\<bar> \<le> 1 / 1000000" using y(5) by simp
  have r0: "0 \<le> ?r" using y(4) by (intro round_even_ge) simp
  then have d: "(of_nat (nat ?r) :: rat) = of_int ?r" by simp
  have 1: "\<bar>of_nat (nat ?r) - ?t\<bar> \<le> 1 / 2 + 1 / 1000000"
    using round_even_error [of y] e unfolding d by linarith
  have 2: "nat ?r * n = 10 ^ 9" if dvd: "n dvd 10 ^ 9"
  proof -
    obtain q where q: "10 ^ 9 = n * q" using dvd by (rule dvdE)
    then have "(10 ^ 9 :: rat) = of_nat n * of_nat q" by (metis of_nat_mult of_nat_numeral of_nat_power)
    then have "?t = of_int (int q)" using N by (simp add: divide_eq_eq mult.commute)
    then have "\<bar>y - of_int (int q)\<bar> < 1 / 2" using e by linarith
    then have "?r = int q" by (rule round_even_near)
    with q show ?thesis by (simp add: mult.commute)
  qed
  have 3: "0 < nat ?r" if "n < 2000000000"
  proof -
    have "(of_nat n :: rat) \<le> of_nat 1999999999" using that by (simp only: of_nat_le_iff)
    then have "10 ^ 9 / 1999999999 \<le> ?t" using N by (intro divide_left_mono) simp_all
    moreover have "?t / 2 ^ 53 \<le> ?t / 10 ^ 12" using t by (intro divide_left_mono) simp_all
    ultimately have "1 / 2 < y" using y(5) by (simp add: abs_le_iff)
    then have "(0 :: rat) < of_int ?r" using round_even_error [of y] by linarith
    then show ?thesis by simp
  qed
  have 4: "nat ?r = 0" if "2000000000 < n"
  proof -
    have "(of_nat 2000000001 :: rat) \<le> of_nat n" using that by (simp only: of_nat_le_iff)
    then have "?t \<le> 10 ^ 9 / 2000000001" using N by (intro divide_left_mono) simp_all
    moreover have "?t / 2 ^ 53 \<le> ?t / 10 ^ 12" using t by (intro divide_left_mono) simp_all
    ultimately have "y < 1 / 2" using y(5) by (simp add: abs_le_iff)
    then have "\<bar>y - of_int 0\<bar> < 1 / 2" using y(4) by simp
    then have "?r = 0" by (rule round_even_near)
    then show ?thesis by simp
  qed
  show ?thesis using y(1) 1 2 3 4 by blast
qed

lemma tick_duration_positive:
  "unat (max (cfg_tick_rate c) 1) < 2000000000 \<Longrightarrow> \<exists>d. tick_duration c = Some d \<and> 0 < d"
  using tick_duration_facts [OF refl] by blast

text \<open>
  C38: for a configuration that validates, the length of a tick never panics and is one second divided by the rate to
  within half a nanosecond and the error of the division; it is exact for every rate that divides a second into whole
  nanoseconds, like the default. But validation accepts rates above two thousand million, and for those it is zero.
\<close>

theorem tick_duration_accuracy:
  assumes "(validate parse_addr c :: ('io, 'toml) config_error + unit) = Inr ()" "n = unat (cfg_tick_rate c)"
  shows "\<exists>d. tick_duration c = Some d \<and> \<bar>of_nat d - 10 ^ 9 / of_nat n\<bar> \<le> (1 / 2 + 1 / 1000000 :: rat) \<and>
    (n dvd 10 ^ 9 \<longrightarrow> d * n = 10 ^ 9) \<and> (n < 2000000000 \<longrightarrow> 0 < d) \<and> (2000000000 < n \<longrightarrow> d = 0)"
proof (rule tick_duration_facts)
  have "cfg_tick_rate c \<noteq> 0" using assms(1) by (auto simp: validate_def and_then_Inr_iff split: if_splits)
  then have "1 \<le> cfg_tick_rate c" by (simp add: word_le_nat_alt unat_gt_0 Suc_le_eq)
  then show "n = unat (max (cfg_tick_rate c) 1)" by (simp add: assms(2) max_def)
qed

lemma tick_duration_accuracy_witness:
  "tick_duration config_default = Some 50000000"
  using tick_duration_accuracy [of "\<lambda>_. Some ()" config_default 20]
  by (auto simp: config_default_def validate_def socket_addr_def word_sless_alt)

lemma fast_rate_tick_duration:
  "2000000000 < unat (cfg_tick_rate c) \<Longrightarrow> tick_duration c = Some 0"
  using tick_duration_facts [of "unat (cfg_tick_rate c)" c] by (auto simp: max_def word_le_nat_alt)

end
