(* ===== verification/Players.thy ===== *)
theory Players
  imports Wire "HOL-Library.AList" "HOL-Library.Multiset"
begin

text \<open>
  \<open>crates/rukkit-server/src/player.rs\<close>: the registry of connected players and the offline UUID. The
  \<open>HashMap\<close> is an association list with distinct keys; the order in which it is iterated is not
  specified, so the two operations that show it take that order as the parameter \<open>iter\<close>, a
  permutation of the entries. Every method of the registry takes the lock once, so each is one atomic
  operation here; \<open>Connection\<close> says where the tasks of the server interleave them. MD5 (crate \<open>md5\<close>) is a parameter.
\<close>

section \<open>The registry\<close>

record 'a player_info =
  pi_uuid :: u128
  pi_name :: rstring
  pi_addr :: 'a

datatype join_error = Full | NameTaken

type_synonym 'a registry = "(u128 \<times> 'a player_info) list"

definition registry_new :: "'a registry" where
  "registry_new = []"

definition try_insert :: "'a player_info \<Rightarrow> usize \<Rightarrow> 'a registry \<Rightarrow> (join_error + unit) \<times> 'a registry" where
  "try_insert info max_players players =
     (if max_players \<le> length players then (Inl Full, players)
      else if list_ex (\<lambda>(_, p). pi_name p = pi_name info) players then (Inl NameTaken, players)
      else (Inr (), AList.update (pi_uuid info) info players))"

definition registry_remove :: "u128 \<Rightarrow> 'a registry \<Rightarrow> 'a player_info option \<times> 'a registry" where
  "registry_remove uuid players = (map_of players uuid, AList.delete uuid players)"

definition registry_count :: "'a registry \<Rightarrow> usize" where
  "registry_count players = length players"

definition registry_is_empty :: "'a registry \<Rightarrow> bool" where
  "registry_is_empty players \<longleftrightarrow> players = []"

definition registry_get :: "u128 \<Rightarrow> 'a registry \<Rightarrow> 'a player_info option" where
  "registry_get uuid players = map_of players uuid"

definition contains_name :: "rstring \<Rightarrow> 'a registry \<Rightarrow> bool" where
  "contains_name name players \<longleftrightarrow> list_ex (\<lambda>(_, p). pi_name p = name) players"

definition snapshot :: "('a registry \<Rightarrow> 'a registry) \<Rightarrow> 'a registry \<Rightarrow> 'a player_info list" where
  "snapshot iter players = map snd (iter players)"

definition sample_names :: "('a registry \<Rightarrow> 'a registry) \<Rightarrow> usize \<Rightarrow> 'a registry \<Rightarrow> rstring list" where
  "sample_names iter limit players = map (\<lambda>(_, p). pi_name p) (take limit (iter players))"

section \<open>Offline UUIDs\<close>

definition offline_uuid :: "(bytes \<Rightarrow> bytes) \<Rightarrow> rstring \<Rightarrow> u128" where
  "offline_uuid md5 name =
     (let b = md5 (as_bytes (lit ''OfflinePlayer:'' @ name));
          b = b[6 := b ! 6 AND 0x0F OR 0x30];
          b = b[8 := b ! 8 AND 0x3F OR 0x80]
      in from_be_bytes b)"

text \<open>A digest has 16 bytes.\<close>

definition digest_size :: "(bytes \<Rightarrow> bytes) \<Rightarrow> bool" where
  "digest_size md5 \<longleftrightarrow> (\<forall>bs. length (md5 bs) = 16)"

text \<open>Iterating a map shows every entry once.\<close>

definition iterates :: "('a registry \<Rightarrow> 'a registry) \<Rightarrow> bool" where
  "iterates iter \<longleftrightarrow> (\<forall>players. mset (iter players) = mset players)"

section \<open>Well-formed registries\<close>

text \<open>
  Each entry is under its own UUID, no UUID twice, no name twice, and no more than \<open>max_players\<close>
  entries.
\<close>

definition wf_registry :: "usize \<Rightarrow> 'a registry \<Rightarrow> bool" where
  "wf_registry max_players players \<longleftrightarrow> distinct (map fst players) \<and>
     list_all (\<lambda>(k, p). pi_uuid p = k) players \<and> distinct (map (\<lambda>(_, p). pi_name p) players) \<and>
     length players \<le> max_players"

lemma set_update:
  "distinct (map fst ps) \<Longrightarrow> set (AList.update k v ps) = insert (k, v) {x \<in> set ps. fst x \<noteq> k}"
proof (induction ps)
  case (Cons p ps)
  then show ?case by (cases p) (auto simp: image_iff)
qed simp

lemma map_fst_update:
  "map fst (AList.update k v ps) = (if k \<in> fst ` set ps then map fst ps else map fst ps @ [k])"
  by (induction ps) auto

lemma length_update: "length (AList.update k v ps) = (if k \<in> fst ` set ps then length ps else Suc (length ps))"
  using arg_cong [OF map_fst_update [of k v ps], of length] by (simp split: if_splits)

interpretation registry_store: keyed_store "\<lambda>s k. map_of s k" "\<lambda>s k v. AList.update k v s" "\<lambda>s. distinct (map fst s)"
  by unfold_locales (simp_all add: update_conv distinct_update)

lemma names_update:
  assumes "distinct (map fst ps)" "distinct (map (\<lambda>(_, p). pi_name p) ps)"
    and "\<forall>(l, q) \<in> set ps. pi_name q \<noteq> pi_name v"
  shows "distinct (map (\<lambda>(_, p). pi_name p) (AList.update k v ps))"
  using assms
proof (induction ps)
  case (Cons p ps)
  have "(\<lambda>(_, p). pi_name p) ` set (AList.update k v ps) \<subseteq> insert (pi_name v) ((\<lambda>(_, p). pi_name p) ` set ps)"
    using Cons.prems(1) by (auto simp: set_update)
  with Cons show ?case by (cases p) (auto simp: set_update)
qed simp

lemma try_insert_wf:
  assumes "wf_registry max_players players" "try_insert info max_players players = (r, players')"
  shows "wf_registry max_players players'"
proof (cases "players' = players")
  case False
  with assms(2) have i: "length players < max_players" "players' = AList.update (pi_uuid info) info players"
    "\<forall>(l, q) \<in> set players. pi_name q \<noteq> pi_name info"
    by (auto simp: try_insert_def list_ex_iff split: if_splits)
  with assms(1) show ?thesis
    by (auto simp: wf_registry_def list_all_iff set_update names_update length_update distinct_update
        intro!: names_update)
qed (use assms(1) in simp)

lemma remove_wf: "wf_registry max_players players \<Longrightarrow> wf_registry max_players (AList.delete uuid players)"
  by (auto simp: wf_registry_def AList.delete_eq distinct_map_filter list_all_iff intro: le_trans [OF length_filter_le]
      simp flip: filter_map)

section \<open>Sessions\<close>

text \<open>
  The tasks of all connections share the registry. What each does to it is in \<open>login_phase\<close>
  (\<open>crates/rukkit-server/src/connection.rs\<close>): one \<open>try_insert\<close> under the offline UUID of the name, and,
  if that admitted the player, one \<open>remove\<close> of the same UUID when the configuration phase is over,
  however it ended. \<open>sn_joined\<close> holds for each task that is between the two the name it logged in
  with. The steps of different tasks come in any order; \<open>names\<close> are the names in use.
\<close>

record 'a sessions =
  sn_players :: "'a registry"
  sn_joined :: "nat \<Rightarrow> rstring option"

inductive session_step :: "(bytes \<Rightarrow> bytes) \<Rightarrow> rstring set \<Rightarrow> usize \<Rightarrow> 'a sessions \<Rightarrow> 'a sessions \<Rightarrow> bool"
  for md5 names max_players where
  admit: "sn_joined s t = None \<Longrightarrow> name \<in> names \<Longrightarrow>
    try_insert \<lparr>pi_uuid = offline_uuid md5 name, pi_name = name, pi_addr = addr\<rparr> max_players (sn_players s) =
      (Inr (), players) \<Longrightarrow>
    session_step md5 names max_players s (s\<lparr>sn_players := players, sn_joined := (sn_joined s)(t \<mapsto> name)\<rparr>)"
| refuse: "sn_joined s t = None \<Longrightarrow> name \<in> names \<Longrightarrow>
    try_insert \<lparr>pi_uuid = offline_uuid md5 name, pi_name = name, pi_addr = addr\<rparr> max_players (sn_players s) =
      (Inl why, players) \<Longrightarrow>
    session_step md5 names max_players s (s\<lparr>sn_players := players\<rparr>)"
| leave: "sn_joined s t = Some name \<Longrightarrow>
    registry_remove (offline_uuid md5 name) (sn_players s) = (gone, players) \<Longrightarrow>
    session_step md5 names max_players s (s\<lparr>sn_players := players, sn_joined := (sn_joined s)(t := None)\<rparr>)"

inductive session_reachable :: "(bytes \<Rightarrow> bytes) \<Rightarrow> rstring set \<Rightarrow> usize \<Rightarrow> 'a sessions \<Rightarrow> bool"
  for md5 names max_players where
  start: "session_reachable md5 names max_players \<lparr>sn_players = registry_new, sn_joined = Map.empty\<rparr>"
| step: "session_reachable md5 names max_players s \<Longrightarrow> session_step md5 names max_players s s' \<Longrightarrow>
    session_reachable md5 names max_players s'"

text \<open>The registry holds exactly the players of the sessions, each under the UUID of its name.\<close>

definition session_inv :: "(bytes \<Rightarrow> bytes) \<Rightarrow> rstring set \<Rightarrow> usize \<Rightarrow> 'a sessions \<Rightarrow> bool" where
  "session_inv md5 names max_players s \<longleftrightarrow> wf_registry max_players (sn_players s) \<and>
     list_all (\<lambda>(k, p). k = offline_uuid md5 (pi_name p)) (sn_players s) \<and>
     (\<lambda>(_, p). pi_name p) ` set (sn_players s) = ran (sn_joined s) \<and>
     ran (sn_joined s) \<subseteq> names \<and> inj_on (sn_joined s) (dom (sn_joined s))"

lemma session_inv_start:
  "session_inv md5 names max_players \<lparr>sn_players = registry_new, sn_joined = Map.empty\<rparr>"
  by (simp add: session_inv_def registry_new_def wf_registry_def)

lemma try_insert_Inr:
  assumes "try_insert info max_players players = (Inr (), players')"
  shows "length players < max_players" "pi_name info \<notin> (\<lambda>(_, p). pi_name p) ` set players"
    "players' = AList.update (pi_uuid info) info players"
  using assms by (auto simp: try_insert_def list_ex_iff split: if_splits)

lemma try_insert_Inl: "try_insert info max_players players = (Inl why, players') \<Longrightarrow> players' = players"
  by (auto simp: try_insert_def split: if_splits)

lemma session_inv_admit:
  assumes inj: "inj_on (offline_uuid md5) names" and inv: "session_inv md5 names max_players s"
    and t: "sn_joined s t = None" and n: "name \<in> names"
    and ins: "try_insert \<lparr>pi_uuid = offline_uuid md5 name, pi_name = name, pi_addr = addr\<rparr> max_players
      (sn_players s) = (Inr (), players)"
  shows "session_inv md5 names max_players (s\<lparr>sn_players := players, sn_joined := (sn_joined s)(t \<mapsto> name)\<rparr>)"
proof -
  let ?info = "\<lparr>pi_uuid = offline_uuid md5 name, pi_name = name, pi_addr = addr\<rparr>"
  note i = try_insert_Inr [OF ins, simplified]
  have wf: "wf_registry max_players (sn_players s)" "wf_registry max_players players"
    using inv try_insert_wf [OF _ ins] by (simp_all add: session_inv_def)
  have new: "name \<notin> ran (sn_joined s)" using i(2) inv by (simp add: session_inv_def)
  have k: "fst x \<noteq> offline_uuid md5 name" if x: "x \<in> set (sn_players s)" for x
  proof -
    obtain l p where lp: "x = (l, p)" by fastforce
    with x inv have l: "l = offline_uuid md5 (pi_name p)" by (auto simp: session_inv_def list_all_iff)
    have "pi_name p \<in> ran (sn_joined s)" using x lp inv unfolding session_inv_def by force
    then have "pi_name p \<in> names" "pi_name p \<noteq> name" using inv new by (auto simp: session_inv_def)
    with l lp inj n show ?thesis by (auto dest: inj_onD)
  qed
  then have set: "set players = insert (offline_uuid md5 name, ?info) (set (sn_players s))"
    using wf(1) by (auto simp: i(3) set_update wf_registry_def)
  have ran: "ran ((sn_joined s)(t \<mapsto> name)) = insert name (ran (sn_joined s))" using t by simp
  have "inj_on ((sn_joined s)(t \<mapsto> name)) (dom ((sn_joined s)(t \<mapsto> name)))"
    using inv new by (auto simp: session_inv_def inj_on_def ran_def)
  moreover have "list_all (\<lambda>(k, p). k = offline_uuid md5 (pi_name p)) players"
    using inv by (auto simp: session_inv_def list_all_iff set)
  moreover have "(\<lambda>(_, p). pi_name p) ` set players = ran ((sn_joined s)(t \<mapsto> name))"
    using inv unfolding set ran session_inv_def by simp
  moreover have "ran ((sn_joined s)(t \<mapsto> name)) \<subseteq> names"
    using inv n unfolding ran session_inv_def by simp
  ultimately show ?thesis using wf(2) unfolding session_inv_def by simp
qed

lemma session_inv_leave:
  assumes inj: "inj_on (offline_uuid md5) names" and inv: "session_inv md5 names max_players s"
    and t: "sn_joined s t = Some name"
  shows "session_inv md5 names max_players
    (s\<lparr>sn_players := AList.delete (offline_uuid md5 name) (sn_players s), sn_joined := (sn_joined s)(t := None)\<rparr>)"
proof -
  let ?ps = "AList.delete (offline_uuid md5 name) (sn_players s)"
  have n: "name \<in> ran (sn_joined s)" using t by (rule ranI)
  have r: "ran ((sn_joined s)(t := None)) = ran (sn_joined s) - {name}"
  proof (rule set_eqI)
    fix x
    have "x \<in> ran ((sn_joined s)(t := None)) \<longleftrightarrow> (\<exists>a. a \<noteq> t \<and> sn_joined s a = Some x)"
      by (auto simp: ran_def)
    moreover have "inj_on (sn_joined s) (dom (sn_joined s))" using inv by (simp add: session_inv_def)
    then have "a = t" if "sn_joined s a = Some name" for a
      by (rule inj_onD) (use t that in auto)
    moreover have "x \<in> ran (sn_joined s) \<longleftrightarrow> (\<exists>a. sn_joined s a = Some x)" by (simp add: ran_def)
    ultimately show "x \<in> ran ((sn_joined s)(t := None)) \<longleftrightarrow> x \<in> ran (sn_joined s) - {name}"
      using t by (metis Diff_iff singleton_iff option.inject)
  qed
  have set: "set ?ps = {x \<in> set (sn_players s). pi_name (snd x) \<noteq> name}"
  proof -
    have *: "fst x = offline_uuid md5 name \<longleftrightarrow> pi_name (snd x) = name" if x: "x \<in> set (sn_players s)" for x
    proof -
      have "fst x = offline_uuid md5 (pi_name (snd x))"
        using x inv by (auto simp: session_inv_def list_all_iff)
      moreover have "pi_name (snd x) \<in> (\<lambda>(_, p). pi_name p) ` set (sn_players s)"
        using x by (auto simp: case_prod_unfold)
      then have "pi_name (snd x) \<in> names" using inv by (auto simp: session_inv_def)
      moreover have "name \<in> names" using inv n by (auto simp: session_inv_def)
      ultimately show ?thesis using inj by (auto dest: inj_onD)
    qed
    have "set ?ps = {x \<in> set (sn_players s). fst x \<noteq> offline_uuid md5 name}"
      by (auto simp: AList.delete_eq)
    with * show ?thesis by blast
  qed
  have "(\<lambda>(_, p). pi_name p) ` set ?ps = (\<lambda>(_, p). pi_name p) ` set (sn_players s) - {name}"
    unfolding set by (auto simp: image_iff)
  then have img: "(\<lambda>(_, p). pi_name p) ` set ?ps = ran ((sn_joined s)(t := None))"
    using inv unfolding r session_inv_def by simp
  have i1: "inj_on ((sn_joined s)(t := None)) (dom ((sn_joined s)(t := None)))"
    using inv by (auto simp: session_inv_def inj_on_def dom_def split: if_splits)
  have l1: "list_all (\<lambda>(k, p). k = offline_uuid md5 (pi_name p)) ?ps"
    using inv by (auto simp: session_inv_def list_all_iff AList.delete_eq)
  have w1: "wf_registry max_players ?ps" using inv by (intro remove_wf) (simp add: session_inv_def)
  have s1: "ran ((sn_joined s)(t := None)) \<subseteq> names" using inv unfolding r session_inv_def by blast
  show ?thesis unfolding session_inv_def using i1 l1 w1 s1 img by simp
qed

inductive_cases session_stepE: "session_step md5 names max_players s s'"

lemma session_step_inv:
  assumes step: "session_step md5 names max_players s s'" and inj: "inj_on (offline_uuid md5) names"
    and inv: "session_inv md5 names max_players s"
  shows "session_inv md5 names max_players s'"
  using step
proof (rule session_stepE)
  fix t name addr players
  assume "s' = s\<lparr>sn_players := players, sn_joined := (sn_joined s)(t \<mapsto> name)\<rparr>" "sn_joined s t = None" "name \<in> names"
    "try_insert \<lparr>pi_uuid = offline_uuid md5 name, pi_name = name, pi_addr = addr\<rparr> max_players (sn_players s) = (Inr (), players)"
  then show ?thesis by (simp add: session_inv_admit [OF inj inv])
qed (use inv session_inv_leave [OF inj inv] try_insert_Inl in \<open>fastforce simp: registry_remove_def\<close>)+

lemma session_reachable_inv:
  "session_reachable md5 names max_players s \<Longrightarrow> inj_on (offline_uuid md5) names \<Longrightarrow>
     session_inv md5 names max_players s"
  by (induction rule: session_reachable.induct) (auto intro: session_inv_start session_step_inv)

section \<open>The bytes of an offline UUID\<close>

lemma offline_uuid_bytes:
  assumes "digest_size md5"
  shows "to_be_bytes (offline_uuid md5 name) =
    (let b = md5 (as_bytes (lit ''OfflinePlayer:'' @ name)) in
     b[6 := b ! 6 AND 0x0F OR 0x30, 8 := b ! 8 AND 0x3F OR 0x80])"
proof -
  let ?b = "md5 (as_bytes (lit ''OfflinePlayer:'' @ name))"
  have "length ?b = 16" using assms by (simp add: digest_size_def)
  then show ?thesis
    by (simp add: offline_uuid_def Let_def to_be_bytes_from_be_bytes)
qed

section \<open>Properties\<close>

text \<open>
  Whatever the order in which the connections of the server log in, are refused and leave, the
  registry never exceeds the player limit and holds exactly one entry for each session, under the UUID
  of its name; no name is logged in twice and no session's departure removes another's entry. The
  names in use must not collide under MD5.
\<close>

lemma registry_matches_sessions:
  assumes "inj_on (offline_uuid md5) names" "session_reachable md5 names max_players s"
  shows "registry_count (sn_players s) \<le> max_players \<and> distinct (map fst (sn_players s)) \<and>
    distinct (map (\<lambda>(_, p). pi_name p) (sn_players s)) \<and> inj_on (sn_joined s) (dom (sn_joined s)) \<and>
    (\<forall>name. contains_name name (sn_players s) \<longleftrightarrow> (\<exists>t. sn_joined s t = Some name)) \<and>
    (\<forall>t name. sn_joined s t = Some name \<longrightarrow>
      (\<exists>p. registry_get (offline_uuid md5 name) (sn_players s) = Some p \<and> pi_name p = name))"
proof -
  note inv = session_reachable_inv [OF assms(2,1)]
  have wf: "wf_registry max_players (sn_players s)" using inv by (simp add: session_inv_def)
  have names: "contains_name name (sn_players s) \<longleftrightarrow> name \<in> ran (sn_joined s)" for name
  proof -
    have "contains_name name (sn_players s) \<longleftrightarrow> name \<in> (\<lambda>(_, p). pi_name p) ` set (sn_players s)"
      by (auto simp: contains_name_def list_ex_iff)
    with inv show ?thesis by (simp add: session_inv_def)
  qed
  have "\<exists>p. registry_get (offline_uuid md5 name) (sn_players s) = Some p \<and> pi_name p = name"
    if "sn_joined s t = Some name" for t name
  proof -
    have "contains_name name (sn_players s)" using names that by (auto intro: ranI)
    then obtain k p where "(k, p) \<in> set (sn_players s)" "pi_name p = name"
      by (auto simp: contains_name_def list_ex_iff)
    moreover from this inv have "k = offline_uuid md5 name" by (auto simp: session_inv_def list_all_iff)
    ultimately show ?thesis using wf by (auto simp: registry_get_def wf_registry_def)
  qed
  with wf inv names show ?thesis by (auto simp: registry_count_def wf_registry_def session_inv_def ran_def)
qed

definition sample_sessions :: "unit sessions" where
  "sample_sessions = \<lparr>sn_players = [(offline_uuid (\<lambda>_. replicate 16 0) [0x41],
     \<lparr>pi_uuid = offline_uuid (\<lambda>_. replicate 16 0) [0x41], pi_name = [0x41], pi_addr = ()\<rparr>)],
     sn_joined = [7 \<mapsto> [0x41]]\<rparr>"

lemma sample_sessions_reachable: "session_reachable (\<lambda>_. replicate 16 0) {[0x41]} 1 sample_sessions"
proof -
  let ?s = "\<lparr>sn_players = registry_new, sn_joined = Map.empty\<rparr> :: unit sessions"
  have "session_step (\<lambda>_. replicate 16 0) {[0x41]} 1 ?s
      (?s\<lparr>sn_players := sn_players sample_sessions, sn_joined := (sn_joined ?s)(7 \<mapsto> [0x41])\<rparr>)"
    by (rule session_step.admit [where addr = "()"])
      (simp_all add: sample_sessions_def try_insert_def registry_new_def)
  then show ?thesis
    using session_reachable.step [OF session_reachable.start] by (simp add: sample_sessions_def)
qed

lemma registry_matches_sessions_witness:
  "registry_count (sn_players sample_sessions) \<le> 1 \<and> contains_name [0x41] (sn_players sample_sessions)"
  using registry_matches_sessions [OF _ sample_sessions_reachable] by (auto simp: sample_sessions_def)

text \<open>
  The offline UUID is the MD5 digest of \<open>OfflinePlayer:\<close> and the name with the version nibble forced
  to 3 and the variant bits to the IETF ones: every other bit of the digest is kept.
\<close>

lemma offline_uuid_is_version_3:
  assumes "digest_size md5"
  shows "to_be_bytes (offline_uuid md5 name) ! 6 AND 0xF0 = 0x30 \<and>
    to_be_bytes (offline_uuid md5 name) ! 8 AND 0xC0 = 0x80 \<and>
    to_be_bytes (offline_uuid md5 name) ! 6 AND 0x0F = md5 (as_bytes (lit ''OfflinePlayer:'' @ name)) ! 6 AND 0x0F \<and>
    to_be_bytes (offline_uuid md5 name) ! 8 AND 0x3F = md5 (as_bytes (lit ''OfflinePlayer:'' @ name)) ! 8 AND 0x3F \<and>
    (\<forall>i < 16. i \<noteq> 6 \<longrightarrow> i \<noteq> 8 \<longrightarrow>
      to_be_bytes (offline_uuid md5 name) ! i = md5 (as_bytes (lit ''OfflinePlayer:'' @ name)) ! i)"
proof -
  let ?b = "md5 (as_bytes (lit ''OfflinePlayer:'' @ name))"
  have len: "length ?b = 16" using assms by (simp add: digest_size_def)
  have b: "(x AND 0x0F OR 0x30) AND 0xF0 = 0x30" "(x AND 0x3F OR 0x80) AND 0xC0 = 0x80"
    "(x AND 0x0F OR 0x30) AND 0x0F = x AND 0x0F" "(x AND 0x3F OR 0x80) AND 0x3F = x AND 0x3F" for x :: u8
    by (rule u8_eqI, simp add: bit_simps)+
  show ?thesis unfolding offline_uuid_bytes [OF assms] Let_def
    using len by (simp add: nth_list_update b)
qed

lemma offline_uuid_is_version_3_witness:
  "to_be_bytes (offline_uuid (\<lambda>_. replicate 16 0xFF) [0x41]) ! 6 AND 0xF0 = 0x30"
  using offline_uuid_is_version_3 [of "\<lambda>_. replicate 16 0xFF" "[0x41]"] by (simp add: digest_size_def)

end
