(* ===== verification/Status_Cache.thy ===== *)
theory Status_Cache
  imports Players Text Packet_Ids
begin

text \<open>
  \<open>crates/rukkit-server/src/status.rs\<close> and the status document of
  \<open>crates/rukkit-protocol/src/packets/status.rs\<close>: the server-list response with its one-entry cache, and
  the favicon in base64. The JSON text of a document (crate \<open>serde_json\<close>) and the text of a UUID (crate
  \<open>uuid\<close>) are parameters. A \<open>json\<close> call takes the
  read lock for a first lookup and, on a miss, the write lock for a second one and the rebuild; alone, it is
  one step on the cache, and \<open>Connection\<close> takes the two halves apart.
\<close>

section \<open>The status document\<close>

record version_info =
  vi_name :: rstring
  vi_protocol :: i32

definition version_info_default :: version_info where
  "version_info_default = \<lparr>vi_name = MINECRAFT_VERSION, vi_protocol = PROTOCOL_VERSION\<rparr>"

record sample_player =
  sp_name :: rstring
  sp_id :: rstring

record players_info =
  pin_max :: i32
  pin_online :: i32
  pin_sample :: "sample_player list"

record server_status =
  ss_version :: version_info
  ss_players :: players_info
  ss_description :: component
  ss_favicon :: "rstring option"
  ss_enforces_secure_chat :: bool

definition server_status_new :: "component \<Rightarrow> i32 \<Rightarrow> i32 \<Rightarrow> server_status" where
  "server_status_new description online mx =
     \<lparr>ss_version = version_info_default,
      ss_players = \<lparr>pin_max = mx, pin_online = online, pin_sample = []\<rparr>,
      ss_description = description, ss_favicon = None, ss_enforces_secure_chat = False\<rparr>"

text \<open>\<open>to_json\<close>: \<open>serde_json::to_string\<close> may fail, and then the document is empty.\<close>

definition status_to_json :: "(server_status \<Rightarrow> rstring option) \<Rightarrow> server_status \<Rightarrow> rstring" where
  "status_to_json to_string s = (case to_string s of Some j \<Rightarrow> j | None \<Rightarrow> lit ''{}'')"

section \<open>The cache\<close>

definition SAMPLE_LIMIT :: usize where "SAMPLE_LIMIT = 12"

record cached =
  ca_online :: i32
  ca_sample :: "rstring list"
  ca_json :: rstring

record status_cache =
  stc_description :: component
  stc_max_players :: i32
  stc_favicon :: "rstring option"
  stc_enforces_secure_chat :: bool
  stc_cached :: "cached option"
  stc_rebuilds :: u64

definition status_cache_new :: "component \<Rightarrow> i32 \<Rightarrow> status_cache" where
  "status_cache_new description max_players =
     \<lparr>stc_description = description, stc_max_players = max_players, stc_favicon = None,
      stc_enforces_secure_chat = False, stc_cached = None, stc_rebuilds = 0\<rparr>"

definition with_favicon :: "rstring option \<Rightarrow> status_cache \<Rightarrow> status_cache" where
  "with_favicon favicon c = c\<lparr>stc_favicon := favicon\<rparr>"

definition rebuild_count :: "status_cache \<Rightarrow> u64" where
  "rebuild_count c = stc_rebuilds c"

definition build_status ::
  "(bytes \<Rightarrow> bytes) \<Rightarrow> (u128 \<Rightarrow> rstring) \<Rightarrow> i32 \<Rightarrow> rstring list \<Rightarrow> status_cache \<Rightarrow> server_status" where
  "build_status md5 uuid_string online sample c =
     \<lparr>ss_version = version_info_default,
      ss_players = \<lparr>pin_max = stc_max_players c, pin_online = online,
        pin_sample = map (\<lambda>name. \<lparr>sp_name = name, sp_id = uuid_string (offline_uuid md5 name)\<rparr>)
          (take SAMPLE_LIMIT sample)\<rparr>,
      ss_description = stc_description c, ss_favicon = stc_favicon c,
      ss_enforces_secure_chat = stc_enforces_secure_chat c\<rparr>"

definition cache_hit :: "i32 \<Rightarrow> rstring list \<Rightarrow> status_cache \<Rightarrow> rstring option" where
  "cache_hit online sample c = (case stc_cached c of
      Some e \<Rightarrow> if ca_online e = online \<and> ca_sample e = sample then Some (ca_json e) else None
    | None \<Rightarrow> None)"

text \<open>
  The half of \<open>json\<close> that holds the write lock: another task may have rebuilt the document between the two
  locks, so the cache is looked up again.
\<close>

definition status_rebuild ::
  "(bytes \<Rightarrow> bytes) \<Rightarrow> (u128 \<Rightarrow> rstring) \<Rightarrow> (server_status \<Rightarrow> rstring option) \<Rightarrow> i32 \<Rightarrow> rstring list \<Rightarrow>
    status_cache \<Rightarrow> rstring \<times> status_cache" where
  "status_rebuild md5 uuid_string to_string online sample c = (case cache_hit online sample c of
      Some json \<Rightarrow> (json, c)
    | None \<Rightarrow>
        let json = status_to_json to_string (build_status md5 uuid_string online sample c) in
        (json, c\<lparr>stc_rebuilds := stc_rebuilds c + 1,
          stc_cached := Some \<lparr>ca_online = online, ca_sample = sample, ca_json = json\<rparr>\<rparr>))"

definition status_json ::
  "(bytes \<Rightarrow> bytes) \<Rightarrow> (u128 \<Rightarrow> rstring) \<Rightarrow> (server_status \<Rightarrow> rstring option) \<Rightarrow> i32 \<Rightarrow> rstring list \<Rightarrow>
    status_cache \<Rightarrow> rstring \<times> status_cache" where
  "status_json md5 uuid_string to_string online sample c = (case cache_hit online sample c of
      Some json \<Rightarrow> (json, c)
    | None \<Rightarrow> status_rebuild md5 uuid_string to_string online sample c)"

text \<open>Without another task in between, the second lookup is the first.\<close>

lemma status_json_rebuild: "status_json = status_rebuild"
  by (simp add: fun_eq_iff status_json_def status_rebuild_def split: option.split)

section \<open>Base64\<close>

definition ALPHABET :: bytes where
  "ALPHABET = map of_char ''ABCDEFGHIJKLMNOPQRSTUVWXYZabcdefghijklmnopqrstuvwxyz0123456789+/''"

definition base64_group :: "u8 \<Rightarrow> u8 \<Rightarrow> u8 \<Rightarrow> u32" where
  "base64_group b0 b1 b2 = push_bit 16 (ucast b0) OR push_bit 8 (ucast b1) OR ucast b2"

definition base64_char :: "u32 \<Rightarrow> rchar" where
  "base64_char n = ucast (ALPHABET ! (unat n AND 0x3F))"

fun base64_encode :: "bytes \<Rightarrow> rstring" where
  "base64_encode [] = []"
| "base64_encode [b0] =
     (let n = base64_group b0 0 0 in
      [base64_char (drop_bit 18 n), base64_char (drop_bit 12 n), of_char CHR ''='', of_char CHR ''=''])"
| "base64_encode [b0, b1] =
     (let n = base64_group b0 b1 0 in
      [base64_char (drop_bit 18 n), base64_char (drop_bit 12 n), base64_char (drop_bit 6 n), of_char CHR ''=''])"
| "base64_encode (b0 # b1 # b2 # rest) =
     (let n = base64_group b0 b1 b2 in
      [base64_char (drop_bit 18 n), base64_char (drop_bit 12 n), base64_char (drop_bit 6 n), base64_char n] @
      base64_encode rest)"

definition favicon_data_uri :: "bytes \<Rightarrow> rstring option" where
  "favicon_data_uri png =
     (if take 8 png \<noteq> [0x89, 0x50, 0x4E, 0x47, 0x0D, 0x0A, 0x1A, 0x0A] then None
      else Some (lit ''data:image/png;base64,'' @ base64_encode png))"

definition sample_id :: "(bytes \<Rightarrow> bytes) \<Rightarrow> rstring \<Rightarrow> u128" where
  "sample_id md5 name = offline_uuid md5 name"

section \<open>Decoding base64, for the specification\<close>

text \<open>
  The value of a character is that of the table of RFC 4648, by ranges of code points: \<open>A\<close> to \<open>Z\<close>, \<open>a\<close> to \<open>z\<close>,
  \<open>0\<close> to \<open>9\<close>, then \<open>+\<close> and \<open>/\<close>. The decoder is strict: it wants the padding, and nothing in the bits that are padded away.
\<close>

definition sextet :: "rchar \<Rightarrow> u32 option" where
  "sextet c =
     (if 0x41 \<le> c \<and> c \<le> 0x5A then Some (c - 0x41)
      else if 0x61 \<le> c \<and> c \<le> 0x7A then Some (c - 0x61 + 26)
      else if 0x30 \<le> c \<and> c \<le> 0x39 then Some (c - 0x30 + 52)
      else if c = 0x2B then Some 62
      else if c = 0x2F then Some 63
      else None)"

definition join64 :: "u32 \<Rightarrow> u32 \<Rightarrow> u32 \<Rightarrow> u32 \<Rightarrow> u32" where
  "join64 a b c d = push_bit 18 a OR push_bit 12 b OR push_bit 6 c OR d"

definition group_bytes :: "u32 \<Rightarrow> bytes" where
  "group_bytes n = [ucast (drop_bit 16 n), ucast (drop_bit 8 n), ucast n]"

fun base64_decode :: "rstring \<Rightarrow> bytes option" where
  "base64_decode [] = Some []"
| "base64_decode (a # b # c # d # rest) =
     (if c = of_char CHR ''='' then
        (case (sextet a, sextet b) of
           (Some a, Some b) \<Rightarrow> if d = of_char CHR ''='' \<and> rest = [] \<and> take_bit 4 b = 0 then Some (take 1 (group_bytes (join64 a b 0 0))) else None
         | _ \<Rightarrow> None)
      else if d = of_char CHR ''='' then
        (case (sextet a, sextet b, sextet c) of
           (Some a, Some b, Some c) \<Rightarrow> if rest = [] \<and> take_bit 2 c = 0 then Some (take 2 (group_bytes (join64 a b c 0))) else None
         | _ \<Rightarrow> None)
      else
        (case (sextet a, sextet b, sextet c, sextet d) of
           (Some a, Some b, Some c, Some d) \<Rightarrow> map_option (\<lambda>bs. group_bytes (join64 a b c d) @ bs) (base64_decode rest)
         | _ \<Rightarrow> None))"
| "base64_decode _ = None"

lemma length_ALPHABET: "length ALPHABET = 64"
  by (simp add: ALPHABET_def)

lemma no_padding: "of_char CHR ''='' \<notin> (ucast ` set ALPHABET :: u32 set)"
  by (simp add: ALPHABET_def)

lemma and_63: "unat n AND 0x3F = unat (take_bit 6 n)" "unat (take_bit 6 n) < 64" "n AND 0x3F = take_bit 6 n" for n :: u32
proof -
  show t: "n AND 0x3F = take_bit 6 n" by (simp add: take_bit_eq_mask mask_eq_exp_minus_1)
  have "(0x3F :: nat) = mask 6" by (simp add: mask_eq_exp_minus_1)
  then have "unat n AND 0x3F = take_bit 6 (unat n)" by (simp only: take_bit_eq_mask)
  then show u: "unat n AND 0x3F = unat (take_bit 6 n)" by (simp add: unsigned_take_bit_eq)
  show "unat (take_bit 6 n) < 64"
    using take_bit_nat_less_exp [of 6 "unat n"] by (simp add: unsigned_take_bit_eq)
qed

text \<open>The table of the code is that of the RFC.\<close>

lemma sextet_ALPHABET: "k < 64 \<Longrightarrow> sextet (ucast (ALPHABET ! k)) = Some (of_nat k)"
proof -
  have "list_all (\<lambda>(k, a). sextet (ucast a) = Some (of_nat k)) (enumerate 0 ALPHABET)"
    by (simp add: ALPHABET_def sextet_def)
  then show "k < 64 \<Longrightarrow> sextet (ucast (ALPHABET ! k)) = Some (of_nat k)"
    by (simp add: list_all_length length_ALPHABET nth_enumerate_eq)
qed

lemma sextet_char: "sextet (base64_char n) = Some (n AND 0x3F)"
  using sextet_ALPHABET [OF and_63(2), of n] by (simp add: base64_char_def and_63)

lemma padded_bits:
  "take_bit 4 (drop_bit 12 (base64_group b0 0 0) AND 0x3F) = 0" "take_bit 2 (drop_bit 6 (base64_group b0 b1 0) AND 0x3F) = 0"
  by (rule bit_word_eqI; auto simp: base64_group_def bit_simps)+

lemma base64_char_not_padding: "base64_char n \<noteq> 61"
proof
  assume "base64_char n = 61"
  then have "base64_char n = of_char CHR ''=''" by simp
  moreover have "ALPHABET ! unat (take_bit 6 n) \<in> set ALPHABET"
    using and_63(2) [of n] by (intro nth_mem) (simp add: length_ALPHABET)
  ultimately show False using no_padding by (auto simp: base64_char_def and_63(1))
qed

lemma group_roundtrip:
  defines "g \<equiv> base64_group"
  shows "group_bytes (join64 (drop_bit 18 (g b0 b1 b2) AND 0x3F) (drop_bit 12 (g b0 b1 b2) AND 0x3F)
      (drop_bit 6 (g b0 b1 b2) AND 0x3F) (g b0 b1 b2 AND 0x3F)) = [b0, b1, b2]"
    "take 2 (group_bytes (join64 (drop_bit 18 (g b0 b1 0) AND 0x3F) (drop_bit 12 (g b0 b1 0) AND 0x3F)
      (drop_bit 6 (g b0 b1 0) AND 0x3F) 0)) = [b0, b1]"
    "take 1 (group_bytes (join64 (drop_bit 18 (g b0 0 0) AND 0x3F) (drop_bit 12 (g b0 0 0) AND 0x3F) 0 0)) = [b0]"
proof -
  have b: "\<not> bit b 8" "\<not> bit b 9" "\<not> bit b 10" "\<not> bit b 11" "\<not> bit b 12" "\<not> bit b 13" "\<not> bit b 14"
    "\<not> bit b 15" "\<not> bit b 16" "\<not> bit b 17" "\<not> bit b 18" "\<not> bit b 19" "\<not> bit b 20" "\<not> bit b 21"
    "\<not> bit b 22" "\<not> bit b 23" for b :: u8
    by (simp_all add: not_bit_ge_length)
  note simps = bit_simps b
  have 1: "ucast (drop_bit 16 (join64 (drop_bit 18 (g b0 b1 b2) AND 0x3F) (drop_bit 12 (g b0 b1 b2) AND 0x3F) c d)) = b0"
    if "c = 0 \<or> c = drop_bit 6 (g b0 b1 b2) AND 0x3F" "d = 0 \<or> d = g b0 b1 b2 AND 0x3F" for b1 b2 c d
    using that unfolding g_def join64_def base64_group_def
    by (elim disjE; hypsubst; intro u8_eqI; simp add: simps; simp add: numeral_2_eq_2 numeral_3_eq_3)
  have 2: "ucast (drop_bit 8 (join64 (drop_bit 18 (g b0 b1 b2) AND 0x3F) (drop_bit 12 (g b0 b1 b2) AND 0x3F)
      (drop_bit 6 (g b0 b1 b2) AND 0x3F) d)) = b1"
    if "d = 0 \<or> d = g b0 b1 b2 AND 0x3F" for b2 d
    using that unfolding g_def join64_def base64_group_def
    by (elim disjE; hypsubst; intro u8_eqI; simp add: simps; simp add: numeral_2_eq_2 numeral_3_eq_3)
  have 3: "ucast (join64 (drop_bit 18 (g b0 b1 b2) AND 0x3F) (drop_bit 12 (g b0 b1 b2) AND 0x3F)
      (drop_bit 6 (g b0 b1 b2) AND 0x3F) (g b0 b1 b2 AND 0x3F)) = b2"
    unfolding g_def join64_def base64_group_def by (intro u8_eqI; simp add: simps; simp add: numeral_2_eq_2 numeral_3_eq_3)
  show "group_bytes (join64 (drop_bit 18 (g b0 b1 b2) AND 0x3F) (drop_bit 12 (g b0 b1 b2) AND 0x3F)
      (drop_bit 6 (g b0 b1 b2) AND 0x3F) (g b0 b1 b2 AND 0x3F)) = [b0, b1, b2]"
    unfolding group_bytes_def by (intro list.inject [THEN iffD2] conjI 1 2 3 refl disjI1 disjI2)
  show "take 2 (group_bytes (join64 (drop_bit 18 (g b0 b1 0) AND 0x3F) (drop_bit 12 (g b0 b1 0) AND 0x3F)
      (drop_bit 6 (g b0 b1 0) AND 0x3F) 0)) = [b0, b1]"
    unfolding group_bytes_def numeral_2_eq_2 take_Suc_Cons take_0
    by (intro list.inject [THEN iffD2] conjI 1 2 refl disjI1 disjI2)
  show "take 1 (group_bytes (join64 (drop_bit 18 (g b0 0 0) AND 0x3F) (drop_bit 12 (g b0 0 0) AND 0x3F) 0 0)) = [b0]"
    unfolding group_bytes_def One_nat_def take_Suc_Cons take_0
    by (intro list.inject [THEN iffD2] conjI 1 refl disjI1)
qed

lemma base64_roundtrip: "base64_decode (base64_encode bs) = Some bs"
proof (induction bs rule: base64_encode.induct)
  case (4 b0 b1 b2 rest)
  then show ?case
    using group_roundtrip(1) [of b0 b1 b2] by (simp add: Let_def sextet_char base64_char_not_padding)
qed (simp_all add: Let_def sextet_char base64_char_not_padding padded_bits [simplified] group_roundtrip [unfolded One_nat_def])

lemma base64_length: "length (base64_encode bs) = 4 * ((length bs + 2) div 3)"
proof (induction bs rule: base64_encode.induct)
  case (4 b0 b1 b2 rest)
  have "(length (b0 # b1 # b2 # rest) + 2) div 3 = (length rest + 2) div 3 + 1" by simp
  with 4 show ?case by (simp add: Let_def)
qed (simp_all add: Let_def)

section \<open>Sequences of requests\<close>

text \<open>The answers to a sequence of requests, in the order in which their tasks take the lock.\<close>

fun status_run ::
  "(bytes \<Rightarrow> bytes) \<Rightarrow> (u128 \<Rightarrow> rstring) \<Rightarrow> (server_status \<Rightarrow> rstring option) \<Rightarrow> (i32 \<times> rstring list) list \<Rightarrow>
    status_cache \<Rightarrow> rstring list \<times> status_cache" where
  "status_run md5 uuid_string to_string [] c = ([], c)"
| "status_run md5 uuid_string to_string ((online, sample) # rs) c =
     (let (j, c) = status_json md5 uuid_string to_string online sample c;
          (js, c) = status_run md5 uuid_string to_string rs c
      in (j # js, c))"

text \<open>The cache after the last request: everything but the entry and the counter is as it was.\<close>

definition holding ::
  "(i32 \<times> rstring list \<Rightarrow> rstring) \<Rightarrow> i32 \<times> rstring list \<Rightarrow> u64 \<Rightarrow> status_cache \<Rightarrow> status_cache" where
  "holding doc r n c = c\<lparr>stc_rebuilds := n,
     stc_cached := Some \<lparr>ca_online = fst r, ca_sample = snd r, ca_json = doc r\<rparr>\<rparr>"

definition status_doc ::
  "(bytes \<Rightarrow> bytes) \<Rightarrow> (u128 \<Rightarrow> rstring) \<Rightarrow> (server_status \<Rightarrow> rstring option) \<Rightarrow> status_cache \<Rightarrow>
    i32 \<times> rstring list \<Rightarrow> rstring" where
  "status_doc md5 uuid_string to_string c r =
     status_to_json to_string (build_status md5 uuid_string (fst r) (snd r) c)"

lemma status_doc_holding [simp]:
  "status_doc md5 uuid_string to_string (holding doc r n c) = status_doc md5 uuid_string to_string c"
  by (simp add: fun_eq_iff status_doc_def holding_def build_status_def)

lemma holding_holding [simp]: "holding doc r n (holding doc' r' n' c) = holding doc r n c"
  by (simp add: holding_def)

lemma status_json_step:
  assumes "doc = status_doc md5 uuid_string to_string c"
  shows "status_json md5 uuid_string to_string online sample (holding doc r n c) =
    (doc (online, sample), holding doc (online, sample) (if r = (online, sample) then n else n + 1) c)"
  using assms by (cases r)
    (auto simp: status_json_rebuild status_rebuild_def cache_hit_def holding_def status_doc_def build_status_def Let_def)

lemma status_run_holding:
  assumes "doc = status_doc md5 uuid_string to_string c"
  shows "status_run md5 uuid_string to_string rs (holding doc r n c) =
    (map doc rs, holding doc (last (r # rs)) (n + (of_nat (length (remdups_adj (r # rs))) - 1)) c)"
proof (induction rs arbitrary: r n)
  case (Cons q rs)
  obtain online sample where q: "q = (online, sample)" by (cases q)
  show ?case
    unfolding q by (auto simp: status_json_step [OF assms] Cons.IH [of "(online, sample)"] algebra_simps)
qed simp

section \<open>Properties\<close>

text \<open>
  C34: the cache is invisible: whatever requests a fresh cache has answered, every answer is the document
  of its own player count and sample, and the document is serialised once for each run of equal requests.
\<close>

theorem status_cache_transparent:
  "let c = with_favicon favicon (status_cache_new description max_players);
       (js, c') = status_run md5 uuid_string to_string rs c
   in js = map (\<lambda>(online, sample). status_to_json to_string (build_status md5 uuid_string online sample c)) rs \<and>
      rebuild_count c' = of_nat (length (remdups_adj rs))"
proof (cases rs)
  case (Cons r qs)
  define c where "c = with_favicon favicon (status_cache_new description max_players)"
  define doc where "doc = status_doc md5 uuid_string to_string c"
  obtain online sample where r: "r = (online, sample)" by (cases r)
  have 1: "status_json md5 uuid_string to_string online sample c = (doc r, holding doc r 1 c)"
    by (simp add: r status_json_rebuild status_rebuild_def cache_hit_def holding_def doc_def status_doc_def c_def with_favicon_def
        status_cache_new_def Let_def)
  have "status_run md5 uuid_string to_string rs c = (map doc rs,
      holding doc (last rs) (of_nat (length (remdups_adj rs))) c)"
    using 1 status_run_holding [OF doc_def] unfolding Cons r by simp
  then show ?thesis
    by (simp add: c_def [symmetric] Let_def doc_def status_doc_def holding_def rebuild_count_def case_prod_unfold)
qed (simp add: rebuild_count_def with_favicon_def status_cache_new_def)

text \<open>
  C35: a favicon is offered exactly when the file starts with the PNG signature; the data URI then carries
  every byte of the file in canonical padded base64: a strict decoder, whose table is that of RFC 4648, gets the file back, and the
  length is that of the padded form.
\<close>

theorem favicon_lossless:
  "(case favicon_data_uri png of
      None \<Rightarrow> take 8 png \<noteq> [0x89, 0x50, 0x4E, 0x47, 0x0D, 0x0A, 0x1A, 0x0A]
    | Some uri \<Rightarrow> take 8 png = [0x89, 0x50, 0x4E, 0x47, 0x0D, 0x0A, 0x1A, 0x0A] \<and>
        take 22 uri = lit ''data:image/png;base64,'' \<and> base64_decode (drop 22 uri) = Some png \<and>
        length uri = 22 + 4 * ((length png + 2) div 3))"
proof -
  have "length (lit ''data:image/png;base64,'') = 22" by (simp add: lit_def)
  then show ?thesis by (simp add: favicon_data_uri_def base64_roundtrip base64_length)
qed

end
