(* ===== verification/Connection.thy ===== *)
theory Connection
  imports Codec Packets_Config Config Status_Cache
begin

text \<open>
  \<open>crates/rukkit-server/src/connection.rs\<close>: one connection, from its first byte to its end. Every
  \<open>async fn\<close> is an action: a function from the state of the task to the outcome and the new state,
  or \<open>None\<close> if it never returns although its socket never kept it waiting. What happens at the socket is a script: the
  things that reading from it gives and the outcomes of writing to it, up to some moment. A client may go on sending
  forever and may stop reading forever; every moment of such a connection is the end of a script, where
  the task is \<open>Suspended\<close> with what it has done so far. The bytes written so far are kept. MD5, the text
  of a UUID, the JSON texts, the order in which the registry is iterated, the ciphers, zlib and the growth
  of a \<open>Vec\<close> are parameters, gathered in \<open>host\<close>. Logging is left out, and with it the effective view
  distance, which is only logged.
\<close>

section \<open>The socket and the state of a task\<close>

text \<open>
  \<open>Data []\<close> is the end of the stream; \<open>Elapsed\<close> is the deadline of the handshake passing before more
  bytes arrive, and a client that has nothing more to send stays silent until then. \<open>Awaited\<close> is the moment the script
  is taken at: the task is in the read, the deadline has not passed, and nothing is said of what comes. A read of the
  code gives at most 16 KiB; the pieces here may have any length.
\<close>

datatype 'io read_event = Data bytes | ReadError 'io | Elapsed | Awaited

text \<open>
  \<open>write_all\<close> has no deadline: if the peer stops reading, it has written some of the bytes and never returns (\<open>Stalled\<close>).
  A failed one has written some of the bytes as well.
\<close>

datatype 'io write_event = Written | WriteError usize 'io | Stalled usize

text \<open>
  \<open>Suspended\<close> is no error of the code: it is the outcome of a task that is still in an \<open>await\<close> on its socket. Nothing
  behind that \<open>await\<close> has happened.
\<close>

datatype 'io conn_error =
    Suspended
  | Io 'io
  | Protocol protocol_error
  | Closed
  | TimedOut
  | UnsupportedVersion i32 i32
  | UnexpectedPacket string i32
  | Rejected rstring

record ('a, 'c, 'd, 'y, 'z, 'io) connection =
  cn_addr :: 'a
  cn_decoder :: "('d, 'y) decoder"
  cn_encoder :: "('c, 'z) encoder"
  cn_scratch :: bytes
  cn_out :: bytes
  cn_inbox :: "'io read_event list"
  cn_writes :: "'io write_event list"
  cn_wire :: bytes

text \<open>
  What a task shares with the others: the two mutable parts of \<open>ServerContext\<close>, each behind a lock. The
  tasks run in parallel, and what they do to each other happens where one of them takes a lock: \<open>access\<close> has
  one constructor for each place of this file that does, in the order of the code. \<open>Lookup\<close> and \<open>Rebuild\<close> are
  the read and the write lock of \<open>StatusCache::json\<close>.
\<close>

datatype 'a access =
    Count
  | SampleNames
  | Lookup i32 "rstring list"
  | Rebuild i32 "rstring list"
  | TryInsert "'a player_info"
  | Remove u128

type_synonym 'a shared = "'a registry \<times> status_cache"

text \<open>
  \<open>ctx_others\<close> is what the other tasks have made of the shared state each time this one takes a lock; once it is used
  up, they have done nothing more. \<open>ctx_log\<close> is for the specification: the accesses of the task so far, each with the
  state it found.
\<close>

record ('a, 'c, 'd, 'y, 'z, 'io) task = "('a, 'c, 'd, 'y, 'z, 'io) connection" +
  ctx_players :: "'a registry"
  ctx_status :: status_cache
  ctx_others :: "'a shared list"
  ctx_log :: "('a access \<times> 'a shared) list"

record ('a, 'c, 'd, 'y, 'z) host =
  h_config :: server_config
  h_md5 :: "bytes \<Rightarrow> bytes"
  h_uuid_string :: "u128 \<Rightarrow> rstring"
  h_status_string :: "server_status \<Rightarrow> rstring option"
  h_component_string :: "component \<Rightarrow> rstring option"
  h_iter :: "'a registry \<Rightarrow> 'a registry"
  h_enc_step :: "'c \<Rightarrow> u8 \<Rightarrow> u8 \<times> 'c"
  h_dec_step :: "'d \<Rightarrow> u8 \<Rightarrow> u8 \<times> 'd"
  h_deflate :: "'z zlib"
  h_inflate :: "'y zlib"
  h_reserve :: "usize \<Rightarrow> usize \<Rightarrow> usize \<Rightarrow> usize"

definition connection_new ::
  "'y \<Rightarrow> 'z \<Rightarrow> 'io read_event list \<Rightarrow> 'io write_event list \<Rightarrow> 'a \<Rightarrow> ('a, 'c, 'd, 'y, 'z, 'io) connection" where
  "connection_new inflater deflater inbox writes addr =
     \<lparr>cn_addr = addr, cn_decoder = decoder_new inflater, cn_encoder = encoder_new deflater, cn_scratch = [],
      cn_out = [], cn_inbox = inbox, cn_writes = writes, cn_wire = []\<rparr>"

definition connection_addr ::
  "('a, 'c, 'd, 'y, 'z, 'io, 'm) connection_scheme \<Rightarrow> 'a \<times> ('a, 'c, 'd, 'y, 'z, 'io, 'm) connection_scheme" where
  "connection_addr s = (cn_addr s, s)"

section \<open>Actions\<close>

type_synonym ('s, 'io, 'v) action = "'s \<Rightarrow> (('io conn_error + 'v) \<times> 's) option"

definition areturn :: "'v \<Rightarrow> ('s, 'io, 'v) action" where
  "areturn v s = Some (Inr v, s)"

definition afail :: "'io conn_error \<Rightarrow> ('s, 'io, 'v) action" where
  "afail e s = Some (Inl e, s)"

text \<open>Going on with the outcome of an action, error or not, unless it is suspended.\<close>

definition resume :: "('io conn_error + 'u \<Rightarrow> ('s, 'io, 'v) action) \<Rightarrow> 'io conn_error + 'u \<Rightarrow> ('s, 'io, 'v) action" where
  "resume k r = (case r of Inl Suspended \<Rightarrow> afail Suspended | _ \<Rightarrow> k r)"

definition attempt :: "('s, 'io, 'u) action \<Rightarrow> ('io conn_error + 'u \<Rightarrow> ('s, 'io, 'v) action) \<Rightarrow> ('s, 'io, 'v) action" where
  "attempt m k s = Option.bind (m s) (\<lambda>(r, s'). resume k r s')"

text \<open>The \<open>?\<close> operator, and its conversion of a protocol error.\<close>

definition abind :: "('s, 'io, 'u) action \<Rightarrow> ('u \<Rightarrow> ('s, 'io, 'v) action) \<Rightarrow> ('s, 'io, 'v) action" where
  "abind m k s = attempt m (\<lambda>r. case r of Inl e \<Rightarrow> afail e | Inr v \<Rightarrow> k v) s"

definition alift :: "'v presult \<Rightarrow> ('s, 'io, 'v) action" where
  "alift r = (case r of Inl e \<Rightarrow> afail (Protocol e) | Inr v \<Rightarrow> areturn v)"

definition adone :: "('io conn_error + 'v) \<Rightarrow> ('s, 'io, 'v) action" where
  "adone r s = Some (r, s)"

definition amodify :: "('s \<Rightarrow> 'v \<times> 's) \<Rightarrow> ('s, 'io, 'v) action" where
  "amodify f s = (case f s of (v, s') \<Rightarrow> Some (Inr v, s'))"

lemma attempt_mono [partial_function_mono]:
  assumes "\<And>s. mono_option (\<lambda>f. m f s)" "\<And>r s. mono_option (\<lambda>f. k f r s)"
  shows "mono_option (\<lambda>f. attempt (m f) (k f) s)"
proof -
  have "mono_option (\<lambda>f. resume (k f) r s)" for r s
    using assms(2) by (cases r; cases "projl r") (simp_all add: resume_def option.const_mono split: sum.split conn_error.split)
  then show ?thesis unfolding attempt_def using assms(1) by (intro bind_mono) (auto simp: case_prod_unfold)
qed

lemma abind_mono [partial_function_mono]:
  assumes "\<And>s. mono_option (\<lambda>f. m f s)" "\<And>v s. mono_option (\<lambda>f. k f v s)"
  shows "mono_option (\<lambda>f. abind (m f) (k f) s)"
proof -
  have "mono_option (\<lambda>f. (case r of Inl e \<Rightarrow> afail e | Inr v \<Rightarrow> k f v) s)" for r s
    using assms(2) by (cases r) (simp_all add: option.const_mono)
  then show ?thesis unfolding abind_def by (intro attempt_mono assms(1))
qed

lemma if_action_mono [partial_function_mono]:
  assumes "\<And>s. mono_option (\<lambda>f. k f s)" "\<And>s. mono_option (\<lambda>f. l f s)"
  shows "mono_option (\<lambda>f. (if b then k f else l f) s)"
  using assms by (cases b) simp_all

lemma case_prod_action_mono [partial_function_mono]:
  assumes "\<And>a b s. mono_option (\<lambda>f. k f a b s)"
  shows "mono_option (\<lambda>f. (case p of (a, b) \<Rightarrow> k f a b) s)"
  using assms by (cases p) simp

section \<open>Reading\<close>

text \<open>
  The loop of \<open>read_packet\<close>, with what is left of the decoder and of the socket. A socket that has
  nothing more to give until the deadline leaves it pending, which is \<open>None\<close>.
\<close>

fun read_packet ::
  "('d \<Rightarrow> u8 \<Rightarrow> u8 \<times> 'd) \<Rightarrow> 'y zlib \<Rightarrow> 'io read_event list \<Rightarrow> ('d, 'y) decoder \<Rightarrow>
    ('io conn_error + bytes) option \<times> 'io read_event list \<times> ('d, 'y) decoder" where
  "read_packet dec_step zl inbox d = (case decode zl d of
      (Inl e, d') \<Rightarrow> (Some (Inl (Protocol e)), inbox, d')
    | (Inr (Some packet), d') \<Rightarrow> (Some (Inr packet), inbox, d')
    | (Inr None, d') \<Rightarrow> (case inbox of
        [] \<Rightarrow> (None, [], d')
      | Elapsed # inbox' \<Rightarrow> (None, inbox', d')
      | Awaited # inbox' \<Rightarrow> (Some (Inl Suspended), inbox', d')
      | ReadError e # inbox' \<Rightarrow> (Some (Inl (Io e)), inbox', d')
      | Data data # inbox' \<Rightarrow>
          if data = [] then (Some (Inl Closed), inbox', d')
          else read_packet dec_step zl inbox' (feed dec_step data d')))"

declare read_packet.simps [simp del]

definition read_packet_timeout ::
  "('a, 'c, 'd, 'y, 'z) host \<Rightarrow> (('a, 'c, 'd, 'y, 'z, 'io, 'm) connection_scheme, 'io, bytes) action" where
  "read_packet_timeout h s =
     (case read_packet (h_dec_step h) (h_inflate h) (cn_inbox s) (cn_decoder s) of (result, inbox, d) \<Rightarrow>
        Some (case result of Some r \<Rightarrow> r | None \<Rightarrow> Inl TimedOut, s\<lparr>cn_inbox := inbox, cn_decoder := d\<rparr>))"

section \<open>Writing\<close>

definition write_all ::
  "bytes \<Rightarrow> ('a, 'c, 'd, 'y, 'z, 'io, 'm) connection_scheme \<Rightarrow>
    ('io conn_error + unit) \<times> ('a, 'c, 'd, 'y, 'z, 'io, 'm) connection_scheme" where
  "write_all data s = (case cn_writes s of
      WriteError n e # ws \<Rightarrow> (Inl (Io e), s\<lparr>cn_writes := ws, cn_wire := cn_wire s @ take n data\<rparr>)
    | Stalled n # ws \<Rightarrow> (Inl Suspended, s\<lparr>cn_writes := ws, cn_wire := cn_wire s @ take n data\<rparr>)
    | ws \<Rightarrow> (Inr (), s\<lparr>cn_writes := tl ws, cn_wire := cn_wire s @ data\<rparr>))"

text \<open>A packet is its id and the bytes of its body.\<close>

definition send ::
  "('a, 'c, 'd, 'y, 'z) host \<Rightarrow> i32 \<Rightarrow> bytes \<Rightarrow>
    (('a, 'c, 'd, 'y, 'z, 'io, 'm) connection_scheme, 'io, unit) action" where
  "send h pid body s =
     (let scratch = encode_packet pid body (cn_scratch s) in
      case encode (h_enc_step h) (h_deflate h) (h_reserve h) scratch [] (cn_encoder s) of
        None \<Rightarrow> None
      | Some (result, out, e) \<Rightarrow>
          let s = s\<lparr>cn_scratch := scratch, cn_out := out, cn_encoder := e\<rparr> in
          Some (case result of Inl err \<Rightarrow> (Inl (Protocol err), s) | Inr _ \<Rightarrow> write_all out s))"

definition enable_compression ::
  "usize \<Rightarrow> ('a, 'c, 'd, 'y, 'z, 'io, 'm) connection_scheme \<Rightarrow>
    unit \<times> ('a, 'c, 'd, 'y, 'z, 'io, 'm) connection_scheme" where
  "enable_compression threshold s =
     ((), s\<lparr>cn_encoder := enc_enable_compression threshold (cn_encoder s),
        cn_decoder := dec_enable_compression threshold (cn_decoder s)\<rparr>)"

section \<open>Taking a lock\<close>

definition take_lock ::
  "'a access \<Rightarrow> ('a, 'c, 'd, 'y, 'z, 'io) task \<Rightarrow> ('a, 'c, 'd, 'y, 'z, 'io) task" where
  "take_lock op s =
     (let (players, status) = (case ctx_others s of [] \<Rightarrow> (ctx_players s, ctx_status s) | found # _ \<Rightarrow> found) in
      s\<lparr>ctx_players := players, ctx_status := status, ctx_others := tl (ctx_others s),
        ctx_log := ctx_log s @ [(op, players, status)]\<rparr>)"

section \<open>The status phase\<close>

text \<open>The count, the sample and the document come from different moments: each takes its own lock.\<close>

definition status_document ::
  "('a, 'c, 'd, 'y, 'z) host \<Rightarrow> ('a, 'c, 'd, 'y, 'z, 'io) task \<Rightarrow> rstring \<times> ('a, 'c, 'd, 'y, 'z, 'io) task" where
  "status_document h s =
     (let s = take_lock Count s;
          online = word_of_nat (registry_count (ctx_players s));
          s = take_lock SampleNames s;
          sample = sample_names (h_iter h) 12 (ctx_players s);
          s = take_lock (Lookup online sample) s
      in case cache_hit online sample (ctx_status s) of
          Some json \<Rightarrow> (json, s)
        | None \<Rightarrow>
            let s = take_lock (Rebuild online sample) s;
                (json, status) = status_rebuild (h_md5 h) (h_uuid_string h) (h_status_string h) online sample (ctx_status s)
            in (json, s\<lparr>ctx_status := status\<rparr>))"

partial_function (option) status_phase ::
  "('a, 'c, 'd, 'y, 'z) host \<Rightarrow> ('a, 'c, 'd, 'y, 'z, 'io) task \<Rightarrow>
    (('io conn_error + unit) \<times> ('a, 'c, 'd, 'y, 'z, 'io) task) option" where
  "status_phase h s = attempt (read_packet_timeout h) (\<lambda>r.
     if r = Inl Closed then areturn () else abind (adone r) (\<lambda>packet.
     abind (alift (split_id packet)) (\<lambda>(pid, body).
     if pid = status_sb_STATUS_REQUEST then
       abind (alift (decode_exact status_request_decode status_sb_STATUS_REQUEST body (state_name Status))) (\<lambda>_.
       abind (amodify (status_document h)) (\<lambda>json.
       abind (send h status_cb_STATUS_RESPONSE (status_response_encode \<lparr>sr_json = json\<rparr>)) (\<lambda>_.
       status_phase h)))
     else if pid = status_sb_PING_REQUEST then
       abind (alift (decode_exact ping_request_decode status_sb_PING_REQUEST body (state_name Status))) (\<lambda>ping.
       send h status_cb_PONG_RESPONSE (pong_response_encode \<lparr>pong_payload = ping_payload ping\<rparr>))
     else afail (UnexpectedPacket (state_name Status) pid)))) s"

section \<open>The configuration phase\<close>

definition NO_REGISTRIES :: rstring where
  "NO_REGISTRIES = lit (''Rukkit can accept your login, but cannot yet enter the world: the 26.2 registry data '' @
     ''is not loaded. Server-list ping and login work; see the README roadmap.'')"

partial_function (option) configuration_loop ::
  "('a, 'c, 'd, 'y, 'z) host \<Rightarrow> ('a, 'c, 'd, 'y, 'z, 'io) task \<Rightarrow>
    (('io conn_error + unit) \<times> ('a, 'c, 'd, 'y, 'z, 'io) task) option" where
  "configuration_loop h s = abind (read_packet_timeout h) (\<lambda>packet.
     abind (alift (split_id packet)) (\<lambda>(pid, body).
     if pid = config_sb_CLIENT_INFORMATION then
       abind (alift (decode_exact client_information_decode config_sb_CLIENT_INFORMATION body (state_name Configuration)))
         (\<lambda>info. configuration_loop h)
     else if pid = config_sb_SELECT_KNOWN_PACKS then
       abind (alift (decode_exact select_known_packs_decode config_sb_SELECT_KNOWN_PACKS body (state_name Configuration)))
         (\<lambda>packs.
       abind (send h config_cb_DISCONNECT
         (disconnect_encode \<lparr>dc_reason = with_color (component_text NO_REGISTRIES) Gold\<rparr>)) (\<lambda>_.
       afail (Rejected (lit ''registry data not loaded''))))
     else if pid = config_sb_PLUGIN_MESSAGE then
       abind (alift (decode_exact plugin_message_decode config_sb_PLUGIN_MESSAGE body (state_name Configuration)))
         (\<lambda>message. configuration_loop h)
     else if pid = config_sb_KEEP_ALIVE then
       abind (alift (decode_exact keep_alive_decode config_sb_KEEP_ALIVE body (state_name Configuration)))
         (\<lambda>_. configuration_loop h)
     else if pid = config_sb_FINISH_CONFIGURATION then
       abind (alift (decode_exact finish_configuration_ack_decode config_sb_FINISH_CONFIGURATION body
         (state_name Configuration))) (\<lambda>_. areturn ())
     else configuration_loop h)) s"

definition configuration_phase ::
  "('a, 'c, 'd, 'y, 'z) host \<Rightarrow> (('a, 'c, 'd, 'y, 'z, 'io) task, 'io, unit) action" where
  "configuration_phase h =
     abind (send h config_cb_PLUGIN_MESSAGE (plugin_message_encode (brand_message SERVER_BRAND))) (\<lambda>_.
     abind (send h config_cb_SELECT_KNOWN_PACKS (select_known_packs_encode known_packs_vanilla)) (\<lambda>_.
     configuration_loop h))"

section \<open>The login phase\<close>

fun join_error_text :: "join_error \<Rightarrow> rstring" where
  "join_error_text Full = lit ''The server is full''"
| "join_error_text NameTaken = lit ''A player with that name is already connected''"

fun join_error_reason :: "join_error \<Rightarrow> component" where
  "join_error_reason Full = with_color (component_text (lit ''The server is full'')) Red"
| "join_error_reason NameTaken =
     with_color (component_text (lit ''Someone is already playing under that name'')) Red"

definition admit_player ::
  "'a player_info \<Rightarrow> usize \<Rightarrow> ('a, 'c, 'd, 'y, 'z, 'io) task \<Rightarrow>
    (join_error + unit) \<times> ('a, 'c, 'd, 'y, 'z, 'io) task" where
  "admit_player info max_players s =
     (let s = take_lock (TryInsert info) s in
      case try_insert info max_players (ctx_players s) of (r, players) \<Rightarrow> (r, s\<lparr>ctx_players := players\<rparr>))"

definition remove_player ::
  "u128 \<Rightarrow> ('a, 'c, 'd, 'y, 'z, 'io) task \<Rightarrow> 'a player_info option \<times> ('a, 'c, 'd, 'y, 'z, 'io) task" where
  "remove_player uuid s =
     (let s = take_lock (Remove uuid) s in
      case registry_remove uuid (ctx_players s) of (p, players) \<Rightarrow> (p, s\<lparr>ctx_players := players\<rparr>))"

definition player_limit :: "server_config \<Rightarrow> usize" where
  "player_limit cfg = (if cfg_max_players cfg <s 0 then 0 else unat (cfg_max_players cfg))"

text \<open>The second half of \<open>login_phase\<close>: from the registry to the end of the connection.\<close>

definition login_join ::
  "('a, 'c, 'd, 'y, 'z) host \<Rightarrow> hello \<Rightarrow> u128 \<Rightarrow> (('a, 'c, 'd, 'y, 'z, 'io) task, 'io, unit) action" where
  "login_join h hello uuid =
     abind (amodify connection_addr) (\<lambda>addr.
     let info = \<lparr>pi_uuid = uuid, pi_name = hello_name hello, pi_addr = addr\<rparr> in
     abind (amodify (admit_player info (player_limit (h_config h)))) (\<lambda>joined.
     case joined of
       Inl why \<Rightarrow>
         abind (send h config_cb_DISCONNECT (disconnect_encode \<lparr>dc_reason = join_error_reason why\<rparr>)) (\<lambda>_.
         afail (Rejected (join_error_text why)))
     | Inr _ \<Rightarrow>
         attempt (configuration_phase h) (\<lambda>result.
         abind (amodify (remove_player uuid)) (\<lambda>_.
         adone result))))"

definition ONLINE_MODE :: rstring where
  "ONLINE_MODE = lit ''This server has online-mode enabled, which this build does not yet support.''"

definition login_phase ::
  "('a, 'c, 'd, 'y, 'z) host \<Rightarrow> (('a, 'c, 'd, 'y, 'z, 'io) task, 'io, unit) action" where
  "login_phase h =
     abind (read_packet_timeout h) (\<lambda>packet.
     abind (alift (split_id packet)) (\<lambda>(pid, body).
     if pid \<noteq> login_sb_HELLO then afail (UnexpectedPacket (state_name Login) pid)
     else
       abind (alift (decode_exact hello_decode login_sb_HELLO body (state_name Login))) (\<lambda>hello.
       if cfg_online_mode (h_config h) then
         abind (send h login_cb_LOGIN_DISCONNECT (login_disconnect_encode \<lparr>ld_reason_json =
           component_to_json (h_component_string h) (with_color (component_text ONLINE_MODE) Red)\<rparr>)) (\<lambda>_.
         afail (Rejected (lit ''online mode is not implemented'')))
       else
         let uuid = offline_uuid (h_md5 h) (hello_name hello) in
         abind (case compression (h_config h) of
             Some threshold \<Rightarrow>
               abind (send h login_cb_SET_COMPRESSION
                 (set_compression_encode \<lparr>sc_threshold = word_of_nat threshold\<rparr>)) (\<lambda>_.
               amodify (enable_compression threshold))
           | None \<Rightarrow> areturn ()) (\<lambda>_.
         let trailing = flag_value (cfg_login_finished_flag (h_config h)) in
         abind (send h login_cb_LOGIN_SUCCESS
           (login_finished_encode (login_finished_new uuid (hello_name hello) trailing))) (\<lambda>_.
         abind (read_packet_timeout h) (\<lambda>packet.
         abind (alift (split_id packet)) (\<lambda>(pid, body).
         if pid \<noteq> login_sb_LOGIN_ACKNOWLEDGED then afail (UnexpectedPacket (state_name Login) pid)
         else
           abind (alift (decode_exact login_acknowledged_decode login_sb_LOGIN_ACKNOWLEDGED body (state_name Login)))
             (\<lambda>_. login_join h hello uuid))))))))"

section \<open>The connection\<close>

text \<open>\<open>{}\<close> of an \<open>i32\<close>.\<close>

definition display_i32 :: "i32 \<Rightarrow> rstring" where
  "display_i32 n = lit (if n <s 0 then ''-'' @ show_nat (nat (- sint n)) else show_nat (nat (sint n)))"

definition version_mismatch :: "i32 \<Rightarrow> component" where
  "version_mismatch protocol = with_color (component_text
     (lit ''This server is running Minecraft '' @ MINECRAFT_VERSION @ lit '' (protocol '' @
      display_i32 PROTOCOL_VERSION @ lit ''). Your client speaks protocol '' @ display_i32 protocol @ lit ''.'')) Red"

definition run :: "('a, 'c, 'd, 'y, 'z) host \<Rightarrow> (('a, 'c, 'd, 'y, 'z, 'io) task, 'io, unit) action" where
  "run h =
     abind (read_packet_timeout h) (\<lambda>packet.
     abind (alift (split_id packet)) (\<lambda>(pid, body).
     if pid \<noteq> handshaking_sb_INTENTION then afail (UnexpectedPacket (state_name Handshaking) pid)
     else
       abind (alift (decode_exact intention_decode handshaking_sb_INTENTION body (state_name Handshaking)))
         (\<lambda>intention.
       if in_next_state intention = NextStatus then status_phase h
       else if \<not> is_supported (in_protocol_version intention) then
         attempt (send h login_cb_LOGIN_DISCONNECT (login_disconnect_encode \<lparr>ld_reason_json =
           component_to_json (h_component_string h) (version_mismatch (in_protocol_version intention))\<rparr>)) (\<lambda>_.
         afail (UnsupportedVersion (in_protocol_version intention) PROTOCOL_VERSION))
       else login_phase h)))"

text \<open>The task of a new connection.\<close>

definition task_new ::
  "('a, 'c, 'd, 'y, 'z, 'io) connection \<Rightarrow> 'a shared \<Rightarrow> 'a shared list \<Rightarrow> ('a, 'c, 'd, 'y, 'z, 'io) task" where
  "task_new conn ctx others = connection.extend conn (task.fields (fst ctx) (snd ctx) others [])"

text \<open>
  \<open>handle\<close>: a new connection, run to its end; the outcome is logged and the socket shut down. It is \<open>None\<close> as long as the
  task is suspended. This is the task when it has
  the server to itself; what it does among others is \<open>run\<close> from a \<open>task_new\<close> with their doings.
\<close>

definition handle ::
  "('a, 'c, 'd, 'y, 'z) host \<Rightarrow> ('a, 'c, 'd, 'y, 'z, 'io) connection \<Rightarrow> 'a registry \<Rightarrow> status_cache \<Rightarrow>
    (bytes \<times> 'a registry \<times> status_cache) option" where
  "handle h conn players status =
     Option.bind (run h (task_new conn (players, status) [])) (\<lambda>(r, s).
     case r of
       Inl Suspended \<Rightarrow> None
     | _ \<Rightarrow> Some (cn_wire s, ctx_players s, ctx_status s))"

end
