(* ===== verification/Connection_Correct.thy ===== *)
theory Connection_Correct
  imports Connection
begin

text \<open>
  Total correctness of the actions of \<open>Connection\<close>: a calculus of weakest preconditions that includes that
  the action returns, the rules of reading and sending, and from them what a whole connection does, for
  any client whatever and for two clients that follow the protocol.
\<close>

section \<open>Weakest preconditions\<close>

definition awp ::
  "('s, 'io, 'v) action \<Rightarrow> ('io conn_error + 'v \<Rightarrow> 's \<Rightarrow> bool) \<Rightarrow> 's \<Rightarrow> bool" where
  "awp m Q s \<longleftrightarrow> (case m s of Some (r, s') \<Rightarrow> Q r s' | None \<Rightarrow> False)"

named_theorems awp_simps \<open>weakest preconditions of the building blocks\<close>

lemma awp_iff: "awp m Q s \<longleftrightarrow> (\<exists>r s'. m s = Some (r, s') \<and> Q r s')"
  by (auto simp: awp_def split: option.splits)

lemma awp_conseq: "awp m P s \<Longrightarrow> (\<And>r s'. P r s' \<Longrightarrow> Q r s') \<Longrightarrow> awp m Q s"
  by (auto simp: awp_iff)

lemma awp_blocks [awp_simps]:
  "awp (areturn v) Q s \<longleftrightarrow> Q (Inr v) s"
  "awp (afail e) Q s \<longleftrightarrow> Q (Inl e) s"
  "awp (adone r) Q s \<longleftrightarrow> Q r s"
  "awp (amodify f) Q s \<longleftrightarrow> Q (Inr (fst (f s))) (snd (f s))"
  "awp (alift p) Q s \<longleftrightarrow> (case p of Inl e \<Rightarrow> Q (Inl (Protocol e)) s | Inr v \<Rightarrow> Q (Inr v) s)"
  by (simp_all add: awp_def areturn_def afail_def adone_def amodify_def alift_def case_prod_unfold split: sum.splits)

lemma awp_resume [awp_simps]: "awp (resume k r) Q s \<longleftrightarrow> (if r = Inl Suspended then Q (Inl Suspended) s else awp (k r) Q s)"
  by (auto simp: resume_def awp_blocks split: sum.splits conn_error.splits)

lemma awp_attempt [awp_simps]: "awp (attempt m k) Q s \<longleftrightarrow> awp m (\<lambda>r. awp (resume k r) Q) s"
  by (simp add: awp_def attempt_def split: option.splits)

lemma awp_abind [awp_simps]:
  "awp (abind m k) Q s \<longleftrightarrow> awp m (\<lambda>r. case r of Inl e \<Rightarrow> Q (Inl e) | Inr v \<Rightarrow> awp (k v) Q) s"
proof -
  have "abind m k = attempt m (\<lambda>r. case r of Inl e \<Rightarrow> afail e | Inr v \<Rightarrow> k v)" by (simp add: abind_def fun_eq_iff)
  moreover have "awp (resume (\<lambda>r. case r of Inl e \<Rightarrow> afail e | Inr v \<Rightarrow> k v) r) Q =
      (case r of Inl e \<Rightarrow> Q (Inl e) | Inr v \<Rightarrow> awp (k v) Q)" for r
    by (rule ext) (cases r; simp add: awp_blocks awp_resume)
  ultimately show ?thesis by (simp only: awp_attempt)
qed

section \<open>Reading and sending\<close>

text \<open>The bytes a task has received and not yet consumed, and those still on their way.\<close>

fun event_bytes :: "'io read_event \<Rightarrow> bytes" where
  "event_bytes (Data data) = data"
| "event_bytes _ = []"

definition unread_in :: "'io read_event list \<Rightarrow> ('d, 'y) decoder \<Rightarrow> nat" where
  "unread_in inbox d = length (dec_buffer d) + length (concat (map event_bytes inbox))"

definition unread :: "('a, 'c, 'd, 'y, 'z, 'io, 'm) connection_scheme \<Rightarrow> nat" where
  "unread s = unread_in (cn_inbox s) (cn_decoder s)"

text \<open>A socket that may keep the task waiting: the client is still silent at the end of the script, or a write never ends.\<close>

definition may_wait :: "('a, 'c, 'd, 'y, 'z, 'io, 'm) connection_scheme \<Rightarrow> bool" where
  "may_wait s \<longleftrightarrow> Awaited \<in> set (cn_inbox s) \<or> (\<exists>n. Stalled n \<in> set (cn_writes s))"

text \<open>A step that takes no lock, only adds to the wire and only consumes from the socket.\<close>

definition quiet :: "('a, 'c, 'd, 'y, 'z, 'io) task \<Rightarrow> ('a, 'c, 'd, 'y, 'z, 'io) task \<Rightarrow> bool" where
  "quiet s s' \<longleftrightarrow> ctx_players s' = ctx_players s \<and> ctx_status s' = ctx_status s \<and> ctx_others s' = ctx_others s \<and>
     ctx_log s' = ctx_log s \<and> cn_addr s' = cn_addr s \<and> unread s' \<le> unread s \<and> (may_wait s' \<longrightarrow> may_wait s) \<and>
     prefix (cn_wire s) (cn_wire s')"

lemma quiet_refl [simp]: "quiet s s"
  by (simp add: quiet_def)

lemma quiet_waits: "quiet s t \<Longrightarrow> may_wait t \<Longrightarrow> may_wait s"
  by (simp add: quiet_def)

lemma quiet_trans [trans]: "quiet s t \<Longrightarrow> quiet t u \<Longrightarrow> quiet s u"
  by (auto simp: quiet_def)

text \<open>An outcome after a step \<open>R\<close>: it is suspended only by its socket.\<close>

definition settles ::
  "(('a, 'c, 'd, 'y, 'z, 'io) task \<Rightarrow> ('a, 'c, 'd, 'y, 'z, 'io) task \<Rightarrow> bool) \<Rightarrow> ('a, 'c, 'd, 'y, 'z, 'io) task \<Rightarrow>
    'io conn_error + 'v \<Rightarrow> ('a, 'c, 'd, 'y, 'z, 'io) task \<Rightarrow> bool" where
  "settles R s r s' \<longleftrightarrow> R s s' \<and> (r = Inl Suspended \<longrightarrow> may_wait s)"

lemma settles_done: "R s t \<Longrightarrow> r \<noteq> Inl Suspended \<Longrightarrow> settles R s r t"
  by (simp add: settles_def)

lemma settles_step: "settles R s r t \<Longrightarrow> R s t"
  by (simp add: settles_def)

lemma settles_error: "settles R s (Inl e :: 'io conn_error + 'u) t \<Longrightarrow> settles R s (Inl e :: 'io conn_error + 'v) t"
  by (simp add: settles_def)

lemma quiet_settled: "quiet s t \<Longrightarrow> settles quiet t r u \<Longrightarrow> quiet s u"
  by (auto simp: settles_def quiet_def)

lemma settles_quiet: "quiet s t \<Longrightarrow> settles quiet t r u \<Longrightarrow> settles quiet s r u"
  by (auto simp: settles_def quiet_def)

lemma length_feed: "length (dec_buffer (feed step data d)) = length (dec_buffer d) + length data"
  using length_crypt [of step _ data] by (auto simp: feed_def split: option.splits prod.splits) (metis fst_conv)

lemma decode_shrinks: "decode zl d = (r, d') \<Longrightarrow> length (dec_buffer d') \<le> length (dec_buffer d)"
  by (auto simp: decode_def Let_def split: sum.splits protocol_error.splits prod.splits if_splits
    dest!: decode_frame_keeps)

lemma read_packet_unread:
  "read_packet step zl inbox d = (r, inbox', d') \<Longrightarrow>
     unread_in inbox' d' \<le> unread_in inbox d \<and> ((\<exists>p. r = Some (Inr p)) \<longrightarrow> unread_in inbox' d' < unread_in inbox d)"
proof (induction step zl inbox d arbitrary: r inbox' d' rule: read_packet.induct)
  case (1 step zl inbox d)
  obtain o1 d1 where o1: "decode zl d = (o1, d1)" by fastforce
  note shrink = decode_shrinks [OF o1]
  show ?case
  proof (cases "o1 = Inr None")
    case True
    then have "d1 = d" using o1 decode_more by fastforce
    note step = "1.prems" [unfolded read_packet.simps [of step zl inbox d]]
    show ?thesis
    proof (cases inbox)
      case (Cons ev evs)
      show ?thesis
      proof (cases "\<exists>data. ev = Data data \<and> data \<noteq> []")
        case more: True
        then obtain data where d: "ev = Data data" "data \<noteq> []" by blast
        have "read_packet step zl evs (feed step data d1) = (r, inbox', d')"
          using step o1 True Cons d by simp
        from "1.IH" [OF o1 [symmetric] True refl Cons d(1) d(2) this] Cons d \<open>d1 = d\<close>
        show ?thesis by (auto simp: unread_in_def length_feed)
      next
        case False
        with step o1 True Cons \<open>d1 = d\<close> show ?thesis
          by (cases ev) (auto simp: unread_in_def)
      qed
    qed (use step o1 True \<open>d1 = d\<close> in \<open>auto simp: unread_in_def\<close>)
  next
    case False
    with "1.prems" o1 show ?thesis
      using decode_consumes [of zl d _ d1] shrink
      by (subst (asm) read_packet.simps) (auto simp: unread_in_def split: sum.splits option.splits)
  qed
qed

lemma read_packet_waits:
  "read_packet step zl inbox d = (r, inbox', d') \<Longrightarrow>
     set inbox' \<subseteq> set inbox \<and> (r = Some (Inl Suspended) \<longrightarrow> Awaited \<in> set inbox)"
proof (induction step zl inbox d arbitrary: r inbox' d' rule: read_packet.induct)
  case (1 step zl inbox d)
  obtain o1 d1 where o1: "decode zl d = (o1, d1)" by fastforce
  note step = "1.prems" [unfolded read_packet.simps [of step zl inbox d]]
  show ?case
  proof (cases "\<exists>data evs. o1 = Inr None \<and> inbox = Data data # evs \<and> data \<noteq> []")
    case True
    then obtain data evs where d: "o1 = Inr None" "inbox = Data data # evs" "data \<noteq> []" by blast
    then have "read_packet step zl evs (feed step data d1) = (r, inbox', d')" using step o1 by simp
    from "1.IH" [OF o1 [symmetric] d(1) refl d(2) refl d(3) this] d(2) show ?thesis by auto
  next
    case False
    with step o1 show ?thesis
      by (auto split: sum.splits option.splits list.splits read_event.splits if_splits)
  qed
qed

lemma awp_read:
  assumes "\<And>r s'. settles quiet s r s' \<Longrightarrow> (\<And>p. r = Inr p \<Longrightarrow> unread s' < unread s) \<Longrightarrow> Q r s'"
  shows "awp (read_packet_timeout h) Q s"
proof -
  obtain r inbox d where r: "read_packet (h_dec_step h) (h_inflate h) (cn_inbox s) (cn_decoder s) = (r, inbox, d)"
    by (metis prod_cases3)
  let ?s = "s\<lparr>cn_inbox := inbox, cn_decoder := d\<rparr>"
  have "Q (case r of Some r \<Rightarrow> r | None \<Rightarrow> Inl TimedOut) ?s"
    using read_packet_unread [OF r] read_packet_waits [OF r]
    by (intro assms) (auto simp: settles_def quiet_def unread_def may_wait_def split: option.splits)
  then show ?thesis by (simp add: awp_def read_packet_timeout_def r)
qed

text \<open>The hypotheses under which every action returns: \<open>deflate\<close> ends and a \<open>Vec\<close> grows when asked to.\<close>

definition host_ok :: "('a, 'c, 'd, 'y, 'z) host \<Rightarrow> bool" where
  "host_ok h \<longleftrightarrow> (\<exists>R deflate. deflates (h_deflate h) R deflate) \<and> reserves (h_reserve h)"

text \<open>What a write may do.\<close>

lemma write_all_settles:
  assumes "write_all data s = (r, t)"
  shows "settles quiet s r t"
proof (cases "cn_writes s")
  case Nil
  with assms show ?thesis by (auto simp: write_all_def settles_def quiet_def unread_def may_wait_def)
next
  case (Cons w ws)
  with assms show ?thesis
    by (cases w) (auto simp: write_all_def settles_def quiet_def unread_def may_wait_def)
qed

lemma awp_send:
  assumes "host_ok h" "\<And>r s'. settles quiet s r s' \<Longrightarrow> Q r s'"
  shows "awp (send h pid body) Q s"
proof -
  let ?p = "encode_packet pid body (cn_scratch s)"
  obtain R deflate where "deflates (h_deflate h) R deflate" "reserves (h_reserve h)"
    using assms(1) by (auto simp: host_ok_def)
  from encode_total [OF this, of "h_enc_step h" ?p "[]" "cn_encoder s"]
  obtain result out e where e: "encode (h_enc_step h) (h_deflate h) (h_reserve h) ?p [] (cn_encoder s) =
      Some (result, out, e)" by blast
  let ?s = "s\<lparr>cn_scratch := ?p, cn_out := out, cn_encoder := e\<rparr>"
  have q: "quiet s ?s" by (simp add: quiet_def unread_def may_wait_def)
  obtain w t where w: "write_all out ?s = (w, t)" by (cases "write_all out ?s")
  have "Q w t" using settles_quiet [OF q write_all_settles [OF w]] by (rule assms(2))
  moreover have "Q (Inl (Protocol err)) ?s" for err by (intro assms(2) settles_done q) simp
  ultimately show ?thesis by (auto simp: awp_def send_def Let_def e w split: sum.splits)
qed

text \<open>The rules by which a handler is taken apart, one for each construct of its code.\<close>

named_theorems awp_intros \<open>introduction rules for the constructs of a handler\<close>

lemma awp_resume_intro [awp_intros]:
  "\<lbrakk>r = Inl Suspended \<Longrightarrow> Q (Inl Suspended) s; r \<noteq> Inl Suspended \<Longrightarrow> awp (k r) Q s\<rbrakk> \<Longrightarrow> awp (resume k r) Q s"
  by (simp add: awp_resume)

lemma awp_constructs [awp_intros]:
  "Q (Inr v) s \<Longrightarrow> awp (areturn v) Q s"
  "Q (Inl e) s \<Longrightarrow> awp (afail e) Q s"
  "\<lbrakk>b \<Longrightarrow> awp k Q s; \<not> b \<Longrightarrow> awp l Q s\<rbrakk> \<Longrightarrow> awp (if b then k else l) Q s"
  "\<lbrakk>\<And>a b. p = (a, b) \<Longrightarrow> awp (kp a b) Q s\<rbrakk> \<Longrightarrow> awp (case p of (a, b) \<Rightarrow> kp a b) Q s"
  "\<lbrakk>\<And>e. Q (Inl (Protocol e)) s; \<And>v. r = Inr v \<Longrightarrow> awp (kl v) Q s\<rbrakk> \<Longrightarrow> awp (abind (alift r) kl) Q s"
  "awp (km (fst (f s))) Q (snd (f s)) \<Longrightarrow> awp (abind (amodify f) km) Q s"
  "\<lbrakk>\<And>a. x = Inl a \<Longrightarrow> awp (kx a) Q s; \<And>b. x = Inr b \<Longrightarrow> awp (lx b) Q s\<rbrakk> \<Longrightarrow>
    awp (case x of Inl a \<Rightarrow> kx a | Inr b \<Rightarrow> lx b) Q s"
  by (simp_all add: awp_simps split: prod.splits sum.splits)

lemma awp_done_bind [awp_intros]:
  "\<lbrakk>\<And>e. r = Inl e \<Longrightarrow> Q (Inl e) s; \<And>v. r = Inr v \<Longrightarrow> awp (k v) Q s\<rbrakk> \<Longrightarrow> awp (abind (adone r) k) Q s"
  by (simp add: awp_simps split: sum.splits)

lemma awp_read_bind [awp_intros]:
  fixes Q :: "'io conn_error + 'v \<Rightarrow> ('a, 'c, 'd, 'y, 'z, 'io) task \<Rightarrow> bool"
  assumes "\<And>e t. settles quiet s (Inl e :: 'io conn_error + 'v) t \<Longrightarrow> Q (Inl e) t"
    and "\<And>p t. quiet s t \<Longrightarrow> unread t < unread s \<Longrightarrow> awp (k p) Q t"
  shows "awp (abind (read_packet_timeout h) k) Q s"
  unfolding awp_simps using assms by (intro awp_read) (auto simp: settles_def split: sum.splits)

lemma awp_send_bind [awp_intros]:
  fixes Q :: "'io conn_error + 'v \<Rightarrow> ('a, 'c, 'd, 'y, 'z, 'io) task \<Rightarrow> bool"
  assumes "host_ok h" "\<And>e t. settles quiet s (Inl e :: 'io conn_error + 'v) t \<Longrightarrow> Q (Inl e) t" "\<And>t. quiet s t \<Longrightarrow> awp (k ()) Q t"
  shows "awp (abind (send h pid body) k) Q s"
  unfolding awp_simps using assms by (intro awp_send) (auto simp: settles_def split: sum.splits)

section \<open>Accesses to the shared state\<close>

text \<open>What an access does to the shared state, and what a sequence of them does when nobody interferes.\<close>

fun perform :: "('a, 'c, 'd, 'y, 'z) host \<Rightarrow> 'a access \<Rightarrow> 'a shared \<Rightarrow> 'a shared" where
  "perform h (TryInsert info) (players, status) =
     (snd (try_insert info (player_limit (h_config h)) players), status)"
| "perform h (Remove uuid) (players, status) = (snd (registry_remove uuid players), status)"
| "perform h (Rebuild online sample) (players, status) =
     (players, snd (status_rebuild (h_md5 h) (h_uuid_string h) (h_status_string h) online sample status))"
| "perform h _ ctx = ctx"

type_synonym 'a trail = "('a access \<times> 'a shared) list"

fun executes :: "('a, 'c, 'd, 'y, 'z) host \<Rightarrow> 'a shared \<Rightarrow> 'a trail \<Rightarrow> 'a shared \<Rightarrow> bool" where
  "executes h ctx [] ctx' \<longleftrightarrow> ctx' = ctx"
| "executes h ctx ((op, found) # trail) ctx' \<longleftrightarrow> found = ctx \<and> executes h (perform h op found) trail ctx'"

lemma executes_append:
  "executes h ctx (xs @ ys) ctx' \<longleftrightarrow> (\<exists>mid. executes h ctx xs mid \<and> executes h mid ys ctx')"
proof (induction xs arbitrary: ctx)
  case (Cons a xs)
  then show ?case by (cases a) (simp del: perform.simps)
qed simp

fun reading :: "'a access \<Rightarrow> bool" where
  "reading (TryInsert _) = False"
| "reading (Remove _) = False"
| "reading _ = True"

abbreviation shared :: "('a, 'c, 'd, 'y, 'z, 'io) task \<Rightarrow> 'a shared" where
  "shared s \<equiv> (ctx_players s, ctx_status s)"

text \<open>
  A step of a task that makes the accesses \<open>trail\<close>. It takes its script off \<open>ctx_others\<close>, one entry for each
  access, and once the script is used up it finds what it left.
\<close>

definition does ::
  "('a, 'c, 'd, 'y, 'z) host \<Rightarrow> 'a trail \<Rightarrow> ('a, 'c, 'd, 'y, 'z, 'io) task \<Rightarrow> ('a, 'c, 'd, 'y, 'z, 'io) task \<Rightarrow> bool" where
  "does h trail s s' \<longleftrightarrow> cn_addr s' = cn_addr s \<and> unread s' \<le> unread s \<and> (may_wait s' \<longrightarrow> may_wait s) \<and> prefix (cn_wire s) (cn_wire s') \<and>
     ctx_log s' = ctx_log s @ trail \<and> ctx_others s' = drop (length trail) (ctx_others s) \<and>
     (length (ctx_others s) \<le> length trail \<longrightarrow>
        executes h (last (shared s # ctx_others s)) (drop (length (ctx_others s) - 1) trail) (shared s'))"

lemma does_alone:
  "does h trail s s' \<Longrightarrow> ctx_others s = [] \<Longrightarrow> executes h (shared s) trail (shared s')"
  by (simp add: does_def)

lemma does_quiet: "quiet s t \<Longrightarrow> does h [] s t"
  by (auto simp: does_def quiet_def)

lemma does_trans:
  assumes "does h xs s t" "does h ys t u"
  shows "does h (xs @ ys) s u"
proof -
  let ?script = "ctx_others s"
  have "executes h (last (shared s # ?script)) (drop (length ?script - 1) (xs @ ys)) (shared u)"
    if "length ?script \<le> length (xs @ ys)"
  proof (cases "length ?script \<le> length xs")
    case True
    then have "length ?script - 1 - length xs = 0" by simp
    then show ?thesis
      unfolding drop_append executes_append
      using True assms by (intro exI [of _ "shared t"]) (auto simp: does_def)
  next
    case False
    then have "drop (length xs) ?script \<noteq> []" "?script \<noteq> []" "drop (length ?script - 1) xs = []" by auto
    moreover have "length ?script - length xs - 1 = length ?script - 1 - length xs" by simp
    ultimately show ?thesis
      using assms that by (simp add: does_def last_drop)
  qed
  with assms show ?thesis by (auto simp: does_def add.commute intro: prefix_order.trans)
qed

lemma does_after: "quiet s t \<Longrightarrow> does h trail t u \<Longrightarrow> does h trail s u"
  using does_trans [OF does_quiet] by fastforce

lemma does_then: "does h trail s t \<Longrightarrow> quiet t u \<Longrightarrow> does h trail s u"
  using does_trans [OF _ does_quiet] by fastforce

lemma take_lock_keeps [simp]:
  "unread (take_lock op s) = unread s" "may_wait (take_lock op s) = may_wait s" "cn_addr (take_lock op s) = cn_addr s" "cn_wire (take_lock op s) = cn_wire s"
  "ctx_others (take_lock op s) = tl (ctx_others s)"
  "ctx_log (take_lock op s) = ctx_log s @ [(op, shared (take_lock op s))]"
  "cn_inbox (take_lock op s) = cn_inbox s" "cn_decoder (take_lock op s) = cn_decoder s"
  "cn_encoder (take_lock op s) = cn_encoder s" "cn_writes (take_lock op s) = cn_writes s"
  by (simp_all add: take_lock_def unread_def may_wait_def split: list.split prod.split)

lemma take_lock_alone:
  assumes "ctx_others s = []"
  shows "ctx_players (take_lock op s) = ctx_players s" "ctx_status (take_lock op s) = ctx_status s"
  using assms by (simp_all add: take_lock_def)

text \<open>One access: the lock, and what is done under it.\<close>

lemma does_access:
  assumes "(players, status) = perform h op (shared (take_lock op s))"
  shows "does h [(op, shared (take_lock op s))] s (take_lock op s\<lparr>ctx_players := players, ctx_status := status\<rparr>)"
  using assms
  by (cases "ctx_others s"; cases "tl (ctx_others s)")
    (auto simp: does_def unread_def may_wait_def take_lock_alone take_lock_def split: prod.splits)

section \<open>Whole connections, any client\<close>

text \<open>A step whose accesses leave the registry alone.\<close>

definition watches ::
  "('a, 'c, 'd, 'y, 'z) host \<Rightarrow> ('a, 'c, 'd, 'y, 'z, 'io) task \<Rightarrow> ('a, 'c, 'd, 'y, 'z, 'io) task \<Rightarrow> bool" where
  "watches h s s' \<longleftrightarrow> (\<exists>trail. does h trail s s' \<and> list_all (reading \<circ> fst) trail)"

lemma watches_trans: "watches h s t \<Longrightarrow> watches h t u \<Longrightarrow> watches h s u"
  unfolding watches_def using does_trans list_all_append by blast

lemma watches_quiet: "quiet s t \<Longrightarrow> watches h s t"
  unfolding watches_def by (intro exI [of _ "[]"]) (simp add: does_quiet)

lemma watches_read:
  assumes "op = Count \<or> op = SampleNames \<or> (\<exists>online sample. op = Lookup online sample)"
  shows "watches h s (take_lock op s)"
proof -
  have "does h [(op, shared (take_lock op s))] s
      (take_lock op s\<lparr>ctx_players := ctx_players (take_lock op s), ctx_status := ctx_status (take_lock op s)\<rparr>)"
    by (rule does_access) (use assms in auto)
  then show ?thesis
    unfolding watches_def using assms by (intro exI [of _ "[(op, shared (take_lock op s))]"]) auto
qed

lemma watches_unread: "watches h s t \<Longrightarrow> unread s < n \<Longrightarrow> unread t < n"
  by (auto simp: watches_def does_def)

lemma watches_document: "watches h s (snd (status_document h s))"
proof -
  let ?s1 = "take_lock Count s"
  let ?online = "word_of_nat (registry_count (ctx_players ?s1)) :: i32"
  let ?s2 = "take_lock SampleNames ?s1"
  let ?sample = "sample_names (h_iter h) 12 (ctx_players ?s2)"
  let ?s3 = "take_lock (Lookup ?online ?sample) ?s2"
  let ?s4 = "take_lock (Rebuild ?online ?sample) ?s3"
  have 1: "watches h s ?s1" "watches h ?s1 ?s2" "watches h ?s2 ?s3"
    by (rule watches_read, simp)+
  let ?c = "snd (status_rebuild (h_md5 h) (h_uuid_string h) (h_status_string h) ?online ?sample (ctx_status ?s4))"
  have "does h [(Rebuild ?online ?sample, shared ?s4)] ?s3 (?s4\<lparr>ctx_players := ctx_players ?s4, ctx_status := ?c\<rparr>)"
    by (rule does_access) simp
  then have "watches h ?s3 (?s4\<lparr>ctx_status := ?c\<rparr>)" by (auto simp: watches_def)
  with 1 have "watches h s ?s3" "watches h s (?s4\<lparr>ctx_status := ?c\<rparr>)" by (blast intro: watches_trans)+
  then show ?thesis
    by (simp add: status_document_def Let_def case_prod_unfold split: option.split)
qed

lemma quiet_unread: "quiet s t \<Longrightarrow> unread s < n \<Longrightarrow> unread t < n"
  by (simp add: quiet_def)

lemma settles_watches:
  "watches h s t \<Longrightarrow> settles (watches h) t r u \<Longrightarrow> settles (watches h) s r u"
  "settles quiet s r t \<Longrightarrow> settles (watches h) s r t"
  by (auto simp: settles_def intro: watches_trans watches_quiet) (auto simp: watches_def does_def)

lemma status_phase_unfold:
  "status_phase h = (\<lambda>s. (attempt (read_packet_timeout h) (\<lambda>r.
     if r = Inl Closed then areturn () else abind (adone r) (\<lambda>packet.
     abind (alift (split_id packet)) (\<lambda>(pid, body).
     if pid = status_sb_STATUS_REQUEST then
       abind (alift (decode_exact status_request_decode status_sb_STATUS_REQUEST body (state_name Status))) (\<lambda>_.
       abind (amodify (status_document h)) (\<lambda>json.
       abind (send h status_cb_STATUS_RESPONSE (status_response_encode \<lparr>sr_json = json\<rparr>)) (\<lambda>_.
       status_phase h)))
     else if pid = status_sb_PING_REQUEST then
       abind (alift (decode_exact ping_request_decode status_sb_PING_REQUEST body (state_name Status))) (\<lambda>ping.
       send h status_cb_PONG_RESPONSE (pong_response_encode \<lparr>pong_payload = ping_payload ping\<rparr>))
     else afail (UnexpectedPacket (state_name Status) pid))))) s)"
  by (rule ext) (rule status_phase.simps)

lemma awp_status_phase:
  assumes "host_ok h"
  shows "awp (status_phase h) (settles (watches h) s) s"
proof (induction "unread s" arbitrary: s rule: less_induct)
  case less
  have again: "awp (status_phase h) (settles (watches h) s) t" if "watches h s t" "unread t < unread s" for t
    using less [OF that(2)] by (rule awp_conseq) (rule settles_watches(1) [OF that(1)])
  have seen: "watches h s (snd (status_document h t))" if "quiet s t" for t
    using that by (blast intro: watches_trans watches_quiet watches_document)
  have answered: "watches h s u" if "quiet s t" "quiet (snd (status_document h t)) u" for t u
    using seen [OF that(1)] that(2) by (blast intro: watches_trans watches_quiet)
  note ponged = settles_watches(2) [OF settles_quiet]
  note unanswered = settles_watches(1) [OF seen settles_watches(2)]
  have answered_unread: "unread u < n" if "unread t < n" "quiet (snd (status_document h t)) u" for t u n
    using that(1) by (intro quiet_unread [OF that(2)] watches_unread [OF watches_document])
  show ?case
    by (subst status_phase_unfold, unfold awp_attempt, rule awp_read, intro awp_intros again awp_send assms)
      (auto dest: settles_step intro: settles_done watches_quiet settles_watches(2) settles_error ponged unanswered
        answered answered_unread)
qed

lemma configuration_loop_unfold:
  "configuration_loop h = (\<lambda>s. (abind (read_packet_timeout h) (\<lambda>packet.
     abind (alift (split_id packet)) (\<lambda>(pid, body).
     if pid = config_sb_CLIENT_INFORMATION then
       abind (alift (decode_exact client_information_decode config_sb_CLIENT_INFORMATION body (state_name Configuration)))
         (\<lambda>info. configuration_loop h)
     else if pid = config_sb_SELECT_KNOWN_PACKS then
       abind (alift (decode_exact select_known_packs_decode config_sb_SELECT_KNOWN_PACKS body (state_name Configuration)))
         (\<lambda>packs.
       abind (send h config_cb_DISCONNECT
         (disconnect_encode \<lparr>dc_reason = with_color (component_text NO_REGISTRIES) Gold\<rparr>)) (\<lambda>_.
       afail (Rejected (lit ''registry data not loaded''))))
     else if pid = config_sb_PLUGIN_MESSAGE then
       abind (alift (decode_exact plugin_message_decode config_sb_PLUGIN_MESSAGE body (state_name Configuration)))
         (\<lambda>message. configuration_loop h)
     else if pid = config_sb_KEEP_ALIVE then
       abind (alift (decode_exact keep_alive_decode config_sb_KEEP_ALIVE body (state_name Configuration)))
         (\<lambda>_. configuration_loop h)
     else if pid = config_sb_FINISH_CONFIGURATION then
       abind (alift (decode_exact finish_configuration_ack_decode config_sb_FINISH_CONFIGURATION body
         (state_name Configuration))) (\<lambda>_. areturn ())
     else configuration_loop h))) s)"
  by (rule ext) (rule configuration_loop.simps)

lemma awp_configuration_loop:
  assumes "host_ok h"
  shows "awp (configuration_loop h) (settles quiet s) s"
proof (induction "unread s" arbitrary: s rule: less_induct)
  case less
  have again: "awp (configuration_loop h) (settles quiet s) t" if "quiet s t" "unread t < unread s" for t
    using less [OF that(2)] by (rule awp_conseq) (rule settles_quiet [OF that(1)])
  show ?case
    by (subst configuration_loop_unfold, intro awp_intros again assms) (auto intro: quiet_trans settles_quiet settles_done)
qed

lemma awp_configuration_phase:
  assumes "host_ok h"
  shows "awp (configuration_phase h) (settles quiet s) s"
  unfolding configuration_phase_def
  by (intro awp_intros assms awp_conseq [OF awp_configuration_loop]) (blast intro: quiet_trans settles_quiet)+

text \<open>
  What the accesses of one connection may be: any number of reads, or one login, refused or served.
\<close>

definition offline_info :: "('a, 'c, 'd, 'y, 'z) host \<Rightarrow> 'a player_info \<Rightarrow> bool" where
  "offline_info h info \<longleftrightarrow> pi_uuid info = offline_uuid (h_md5 h) (pi_name info)"

definition admission ::
  "('a, 'c, 'd, 'y, 'z) host \<Rightarrow> 'a player_info \<Rightarrow> 'a shared \<Rightarrow> join_error + unit" where
  "admission h info found = fst (try_insert info (player_limit (h_config h)) (fst found))"

inductive session_log :: "('a, 'c, 'd, 'y, 'z) host \<Rightarrow> 'a trail \<Rightarrow> bool" for h where
  watched: "list_all (reading \<circ> fst) trail \<Longrightarrow> session_log h trail"
| refused: "offline_info h info \<Longrightarrow> admission h info found = Inl why \<Longrightarrow> session_log h [(TryInsert info, found)]"
| served: "offline_info h info \<Longrightarrow> admission h info found = Inr () \<Longrightarrow>
    session_log h [(TryInsert info, found), (Remove (pi_uuid info), found')]"

text \<open>A task that is suspended has made a part of them.\<close>

definition session_part :: "('a, 'c, 'd, 'y, 'z) host \<Rightarrow> bool \<Rightarrow> 'a trail \<Rightarrow> bool" where
  "session_part h suspended trail \<longleftrightarrow> (if suspended then \<exists>rest. session_log h (trail @ rest) else session_log h trail)"

lemma session_log_part: "session_log h trail \<Longrightarrow> session_part h suspended trail"
  by (auto simp: session_part_def intro: exI [of _ "[]"])

definition plays ::
  "('a, 'c, 'd, 'y, 'z) host \<Rightarrow> ('a, 'c, 'd, 'y, 'z, 'io) task \<Rightarrow> 'io conn_error + unit \<Rightarrow> ('a, 'c, 'd, 'y, 'z, 'io) task \<Rightarrow> bool" where
  "plays h s r s' \<longleftrightarrow> (\<exists>trail. does h trail s s' \<and> session_part h (r = Inl Suspended) trail) \<and> (r = Inl Suspended \<longrightarrow> may_wait s)"

lemma plays_watches: "settles (watches h) s r t \<Longrightarrow> plays h s r t"
  by (auto simp: plays_def watches_def settles_def intro: session_log_part session_log.watched)

lemma plays_settles: "settles quiet s r t \<Longrightarrow> plays h s r t"
  by (rule plays_watches) (rule settles_watches)

lemma plays_quiet: "quiet s t \<Longrightarrow> r \<noteq> Inl Suspended \<Longrightarrow> plays h s r t"
  by (intro plays_settles settles_done)

lemma plays_later: "quiet s t \<Longrightarrow> settles quiet t r u \<Longrightarrow> plays h s r u"
  by (rule plays_settles) (rule settles_quiet)

lemma plays_after: "quiet s t \<Longrightarrow> plays h t r u \<Longrightarrow> plays h s r u"
  unfolding plays_def using does_after by (blast intro: quiet_waits)

lemma admit_player_does:
  assumes "admit_player info (player_limit (h_config h)) s = (r, t)"
  shows "does h [(TryInsert info, shared (take_lock (TryInsert info) s))] s t"
    "admission h info (shared (take_lock (TryInsert info) s)) = r"
proof -
  let ?s = "take_lock (TryInsert info) s"
  obtain players where p: "try_insert info (player_limit (h_config h)) (ctx_players ?s) = (r, players)"
    "t = ?s\<lparr>ctx_players := players, ctx_status := ctx_status ?s\<rparr>"
    using assms by (auto simp: admit_player_def Let_def split: prod.splits)
  show "does h [(TryInsert info, shared ?s)] s t"
    unfolding p(2) by (rule does_access) (simp add: p(1))
  show "admission h info (shared ?s) = r" by (simp add: admission_def p(1))
qed

lemma remove_player_does:
  "does h [(Remove uuid, shared (take_lock (Remove uuid) s))] s (snd (remove_player uuid s))"
proof -
  let ?s = "take_lock (Remove uuid) s"
  obtain gone players where p: "registry_remove uuid (ctx_players ?s) = (gone, players)" by fastforce
  have "does h [(Remove uuid, shared ?s)] s (?s\<lparr>ctx_players := players, ctx_status := ctx_status ?s\<rparr>)"
    by (rule does_access) (simp add: p)
  then show ?thesis by (simp add: remove_player_def Let_def p)
qed

lemma awp_login_join:
  fixes s :: "('a, 'c, 'd, 'y, 'z, 'io) task"
  assumes h: "host_ok h" and uuid: "uuid = offline_uuid (h_md5 h) (hello_name hello)"
  shows "awp (login_join h hello uuid) (plays h s) s"
proof -
  let ?info = "\<lparr>pi_uuid = uuid, pi_name = hello_name hello, pi_addr = cn_addr s\<rparr>"
  obtain r t where r: "admit_player ?info (player_limit (h_config h)) s = (r, t)" by fastforce
  have i: "offline_info h ?info" using uuid by (simp add: offline_info_def)
  note d = admit_player_does [OF r]
  have waits: "may_wait t \<Longrightarrow> may_wait s" using d(1) by (simp add: does_def)
  have refused: "plays h s v u" if "r = Inl why" "settles quiet t v u" for why v u
    using session_log_part [OF session_log.refused [OF i d(2) [unfolded that(1)]]]
      does_then [OF d(1) settles_step [OF that(2)]] waits that(2)
    unfolding plays_def settles_def by blast
  have served: "plays h s v (snd (remove_player uuid u))" if "r = Inr ()" "quiet t u" "v \<noteq> Inl Suspended" for v u
    using session_log_part [OF session_log.served [OF i d(2) [unfolded that(1)]]]
      does_trans [OF does_then [OF d(1) that(2)] remove_player_does [of h uuid u]] that(3) by (auto simp: plays_def)
  have held: "plays h s (Inl Suspended) u" if "r = Inr ()" "settles quiet t (Inl Suspended :: 'io conn_error + unit) u" for u
  proof -
    have "\<exists>rest. session_log h ([(TryInsert ?info, shared (take_lock (TryInsert ?info) s))] @ rest)"
      using session_log.served [OF i d(2) [unfolded that(1)]] by auto
    then show ?thesis
      using does_then [OF d(1) settles_step [OF that(2)]] waits that(2)
      unfolding plays_def session_part_def settles_def
      by (intro conjI exI [of _ "[(TryInsert ?info, shared (take_lock (TryInsert ?info) s))]"]) simp_all
  qed
  have config: "awp (attempt (configuration_phase h) (\<lambda>result. abind (amodify (remove_player uuid)) (\<lambda>_. adone result))) (plays h s) t"
    if "r = Inr ()"
    unfolding awp_attempt
  proof (rule awp_conseq [OF awp_configuration_phase [OF h]])
    fix v :: "'io conn_error + unit" and u
    assume "settles quiet t v u"
    then show "awp (resume (\<lambda>result. abind (amodify (remove_player uuid)) (\<lambda>_. adone result)) v) (plays h s) u"
      using held [OF that, of u] served [OF that settles_step [of quiet t v u], of v] by (auto simp: awp_simps)
  qed
  have refuse: "awp (abind (send h config_cb_DISCONNECT (disconnect_encode \<lparr>dc_reason = join_error_reason why\<rparr>)) (\<lambda>_.
      afail (Rejected (join_error_text why)))) (plays h s) t" if "r = Inl why" for why
    by (intro awp_send_bind h awp_constructs(2)) (auto intro: refused [OF that] settles_done)
  show ?thesis
    unfolding login_join_def Let_def
    unfolding awp_abind awp_blocks(4) connection_addr_def fst_conv snd_conv sum.case r
  proof (cases r)
    case (Inl why)
    with refuse show "awp (case r of
        Inl why \<Rightarrow> abind (send h config_cb_DISCONNECT (disconnect_encode \<lparr>dc_reason = join_error_reason why\<rparr>)) (\<lambda>_.
          afail (Rejected (join_error_text why)))
      | Inr _ \<Rightarrow> attempt (configuration_phase h) (\<lambda>result. abind (amodify (remove_player uuid)) (\<lambda>_. adone result)))
      (plays h s) t" by simp
  next
    case (Inr u)
    then have "r = Inr ()" by simp
    with config show "awp (case r of
        Inl why \<Rightarrow> abind (send h config_cb_DISCONNECT (disconnect_encode \<lparr>dc_reason = join_error_reason why\<rparr>)) (\<lambda>_.
          afail (Rejected (join_error_text why)))
      | Inr _ \<Rightarrow> attempt (configuration_phase h) (\<lambda>result. abind (amodify (remove_player uuid)) (\<lambda>_. adone result)))
      (plays h s) t" by simp
  qed
qed

lemma awp_login_phase:
  assumes h: "host_ok h"
  shows "awp (login_phase h) (plays h s) s"
proof -
  have join: "awp (login_join h hello (offline_uuid (h_md5 h) (hello_name hello))) (plays h s) u"
    if "quiet s u" for hello u
    using awp_login_join [OF h refl] by (rule awp_conseq) (rule plays_after [OF that])
  have compress: "awp (abind (case c of
        Some threshold \<Rightarrow> abind (send h login_cb_SET_COMPRESSION
          (set_compression_encode \<lparr>sc_threshold = word_of_nat threshold\<rparr>)) (\<lambda>_. amodify (enable_compression threshold))
      | None \<Rightarrow> areturn ()) k) (plays h s) u"
    if q: "quiet s u" and k: "\<And>v. quiet s v \<Longrightarrow> awp (k ()) (plays h s) v" for c k u
  proof -
    have e: "quiet w (snd (enable_compression threshold w))" for threshold w
      by (simp add: enable_compression_def quiet_def unread_def unread_in_def dec_enable_compression_def may_wait_def)
    show ?thesis
      by (cases c)
        (auto simp: awp_simps q split: sum.splits intro!: awp_send [OF h] k
          intro: plays_later [OF q] quiet_trans [OF quiet_settled [OF q] e])
  qed
  show ?thesis
    unfolding login_phase_def Let_def
    by (intro awp_intros h compress join) (auto intro: quiet_trans plays_quiet plays_settles plays_later)
qed

lemma awp_run:
  assumes h: "host_ok h"
  shows "awp (run h) (plays h s) s"
proof -
  have "awp (login_phase h) (plays h s) u" if "quiet s u" for u
    using awp_login_phase [OF h] by (rule awp_conseq) (rule plays_after [OF that])
  moreover have "awp (status_phase h) (plays h s) u" if "quiet s u" for u
    using awp_status_phase [OF h]
    by (rule awp_conseq) (rule plays_after [OF that plays_watches])
  ultimately show ?thesis
    unfolding run_def
    by (intro awp_intros awp_attempt [THEN iffD2] awp_send h)
      (auto intro: quiet_trans plays_quiet plays_settles plays_later quiet_settled)
qed

lemma run_returns:
  assumes "host_ok h"
  obtains r s' trail where "run h s = Some (r, s')" "does h trail s s'" "session_part h (r = Inl Suspended) trail"
    "r = Inl Suspended \<longrightarrow> may_wait s"
  using awp_run [OF assms, of s] by (auto simp: awp_iff plays_def)

section \<open>One session\<close>

text \<open>Alone, the accesses of a connection are steps that \<open>session_step\<close> allows.\<close>

lemma reading_executes:
  "list_all (reading \<circ> fst) trail \<Longrightarrow> executes h ctx trail ctx' \<Longrightarrow> fst ctx' = fst ctx"
proof (induction trail arbitrary: ctx)
  case (Cons a trail)
  obtain op found where a: "a = (op, found)" by (cases a)
  have "fst (perform h op found) = fst found" using Cons.prems(1) a by (cases op; cases found) auto
  moreover have "found = ctx" "fst ctx' = fst (perform h op found)"
    using Cons.IH [of "perform h op found"] Cons.prems a by (auto simp del: perform.simps)
  ultimately show ?case by simp
qed simp

lemma delete_update: "AList.delete k (AList.update k v ps) = AList.delete k ps"
  by (induction ps) auto

lemma session_log_executes:
  assumes "session_log h trail" "executes h ctx trail ctx'" "joined t = None"
  shows "(session_step (h_md5 h) UNIV (player_limit (h_config h)))\<^sup>*\<^sup>*
      \<lparr>sn_players = fst ctx, sn_joined = joined\<rparr> \<lparr>sn_players = fst ctx', sn_joined = joined\<rparr> \<and>
    (fst ctx' = fst ctx \<or>
       (\<exists>name. \<not> contains_name name (fst ctx) \<and> fst ctx' = AList.delete (offline_uuid (h_md5 h) name) (fst ctx)))"
  using assms(1)
proof cases
  case watched
  with reading_executes [OF _ assms(2)] show ?thesis by simp
next
  case (refused info found why)
  obtain players status where c: "ctx = (players, status)" by fastforce
  have "fst ctx' = fst ctx"
    using refused assms(2) c try_insert_Inl [of info _ players why] by (auto simp: admission_def) (metis prod.collapse)
  then show ?thesis by simp
next
  case (served info found found')
  let ?limit = "player_limit (h_config h)" and ?step = "session_step (h_md5 h) UNIV (player_limit (h_config h))"
  obtain players status where c: "ctx = (players, status)" by fastforce
  obtain admitted where w: "try_insert info ?limit players = (Inr (), admitted)"
    using served assms(2) c by (auto simp: admission_def) (metis prod.collapse)
  have i: "info = \<lparr>pi_uuid = offline_uuid (h_md5 h) (pi_name info), pi_name = pi_name info, pi_addr = pi_addr info\<rparr>"
    using served by (simp add: offline_info_def)
  have left: "fst ctx' = AList.delete (pi_uuid info) admitted"
    using served assms(2) c w by (auto simp: registry_remove_def)
  note ins = try_insert_Inr [OF w]
  have "?step \<lparr>sn_players = players, sn_joined = joined\<rparr> \<lparr>sn_players = admitted, sn_joined = joined(t \<mapsto> pi_name info)\<rparr>"
    using session_step.admit [of "\<lparr>sn_players = players, sn_joined = joined\<rparr>" t "pi_name info" UNIV "h_md5 h"
        "pi_addr info" ?limit admitted] assms(3) w i by simp
  moreover have "?step \<lparr>sn_players = admitted, sn_joined = joined(t \<mapsto> pi_name info)\<rparr> \<lparr>sn_players = fst ctx', sn_joined = joined\<rparr>"
    using session_step.leave [of "\<lparr>sn_players = admitted, sn_joined = joined(t \<mapsto> pi_name info)\<rparr>" t "pi_name info" "h_md5 h"
        "map_of admitted (pi_uuid info)" "fst ctx'" UNIV ?limit] assms(3) left served
    by (simp add: fun_upd_idem registry_remove_def offline_info_def)
  moreover have "\<not> contains_name (pi_name info) players"
    using ins(2) by (force simp: contains_name_def list_ex_iff)
  moreover have "fst ctx' = AList.delete (offline_uuid (h_md5 h) (pi_name info)) players"
    using left ins(3) served by (simp add: delete_update offline_info_def)
  ultimately show ?thesis unfolding c by auto
qed

section \<open>A concrete host\<close>

text \<open>Stored blocks for zlib, a feedback cipher, and fixed texts for what other crates format.\<close>

definition sample_host :: "server_config \<Rightarrow> (unit, u8, u8, unit, unit) host" where
  "sample_host config = \<lparr>h_config = config, h_md5 = (\<lambda>_. replicate 16 0), h_uuid_string = (\<lambda>_. lit ''0''),
     h_status_string = (\<lambda>_. Some (lit ''{}'')), h_component_string = (\<lambda>_. None), h_iter = (\<lambda>players. players),
     h_enc_step = feedback_enc, h_dec_step = feedback_dec, h_deflate = stored, h_inflate = stored, h_reserve = grow\<rparr>"

lemma sample_host_ok:
  "deflates (h_deflate (sample_host config)) (\<lambda>_ input rest. rest = input) (\<lambda>bs. bs)" "reserves (h_reserve (sample_host config))"
  "inflates (h_inflate (sample_host config)) (\<lambda>_ input rest. rest = input) (\<lambda>bs. bs)"
  using stored_deflates stored_inflates grow_reserves by (simp_all add: sample_host_def)

section \<open>Properties\<close>

text \<open>
  C2: what one connection does to the registry is what \<open>session_step\<close> allows, on every path through the
  three phases, errors and time-outs included, and whatever the other tasks do between its accesses: it only reads, or
  makes one refused login, or one admission under the offline UUID of the name followed by the removal of
  the same UUID; a task that is suspended by its socket has made a part of that. A connection that has ended and was alone
  therefore leaves nothing behind: the registry is the one it found, less at most the
  entry under the UUID of a name that nobody had.
\<close>

theorem connection_refines_sessions:
  assumes "deflates (h_deflate h) R deflate" "reserves (h_reserve h)"
    and "run h s = Some (r, s')" and "joined t = None"
  shows "\<exists>trail. ctx_log s' = ctx_log s @ trail \<and> (\<exists>rest. session_log h (trail @ rest)) \<and>
    (r \<noteq> Inl Suspended \<longrightarrow> session_log h trail \<and>
      (ctx_others s = [] \<longrightarrow>
        (session_step (h_md5 h) UNIV (player_limit (h_config h)))\<^sup>*\<^sup>*
          \<lparr>sn_players = ctx_players s, sn_joined = joined\<rparr> \<lparr>sn_players = ctx_players s', sn_joined = joined\<rparr> \<and>
        (ctx_players s' = ctx_players s \<or>
           (\<exists>name. \<not> contains_name name (ctx_players s) \<and>
             ctx_players s' = AList.delete (offline_uuid (h_md5 h) name) (ctx_players s)))))"
proof -
  have "host_ok h" using assms(1,2) by (auto simp: host_ok_def)
  from run_returns [OF this, of s] assms(3) obtain trail where
    l: "does h trail s s'" "session_part h (r = Inl Suspended) trail" by auto
  have log: "ctx_log s' = ctx_log s @ trail" using l(1) by (simp add: does_def)
  show ?thesis
  proof (cases "r = Inl Suspended")
    case True
    with log l(2) show ?thesis by (auto simp: session_part_def)
  next
    case False
    with l(2) have e: "session_log h trail" by (simp add: session_part_def)
    from session_log_executes [where joined = joined and t = t, OF e _ assms(4), of "shared s" "shared s'"] does_alone [OF l(1)] log e
    show ?thesis by (intro exI [of _ trail]) (auto intro: exI [of _ "[]"])
  qed
qed

definition sample_client :: "(unit, u8, u8, unit, unit, nat) connection" where
  "sample_client = connection_new () () [Data [1], ReadError 7] [] ()"

lemma connection_refines_sessions_witness:
  "\<exists>r s'. run (sample_host config_default) (task_new sample_client ([], status_cache_new component_default 20) []) = Some (r, s') \<and>
    (session_step (\<lambda>_. replicate 16 0) UNIV 20)\<^sup>*\<^sup>*
      \<lparr>sn_players = [], sn_joined = Map.empty\<rparr> \<lparr>sn_players = ctx_players s', sn_joined = Map.empty\<rparr>"
proof -
  let ?s = "task_new sample_client ([], status_cache_new component_default 20) []"
  have "host_ok (sample_host config_default)" using sample_host_ok by (auto simp: host_ok_def)
  from run_returns [OF this, of ?s] obtain r s' where "run (sample_host config_default) ?s = Some (r, s')" by blast
  moreover have "h_md5 (sample_host config_default) = (\<lambda>_. replicate 16 0)"
    "player_limit (h_config (sample_host config_default)) = 20" "ctx_players ?s = []" "ctx_others ?s = []"
    by (simp_all add: sample_host_def player_limit_def config_default_def word_sless_alt task_new_def connection.defs task.defs)
  moreover have "\<not> may_wait ?s"
    by (simp add: may_wait_def sample_client_def connection_new_def task_new_def connection.defs task.defs)
  with run_returns [OF \<open>host_ok (sample_host config_default)\<close>, of ?s] \<open>run (sample_host config_default) ?s = Some (r, s')\<close>
  have "r \<noteq> Inl Suspended" by auto
  ultimately show ?thesis using connection_refines_sessions [OF sample_host_ok(1,2), of config_default ?s r s' Map.empty 0]
    by auto
qed

end
