(* ===== verification/Exchange.thy ===== *)
theory Exchange
  imports Connection_Correct
begin

text \<open>
  The connection against a client that follows the protocol: what the server reads is what the client sent,
  however the network cuts it, and what it writes is what the client must see. Sending and receiving are
  reduced to whole packets; the frames of the client are those that \<open>frame_of\<close> describes, and those of
  the server are shown to be such frames again.
\<close>

section \<open>Receiving\<close>

text \<open>
  \<open>arriving k bs\<close>: the decoder has compression \<open>k\<close> and no cipher, and its buffer together with the chunks
  still to come is \<open>bs\<close>.
\<close>

definition arriving :: "usize option \<Rightarrow> bytes \<Rightarrow> 'io read_event list \<Rightarrow> ('d, 'y) decoder \<Rightarrow> bool" where
  "arriving k bs inbox d \<longleftrightarrow> dec_compression d = k \<and> dec_decryptor d = None \<and> dec_max_frame d = MAX_FRAME_LEN \<and>
     (\<exists>chunks. inbox = map Data chunks \<and> [] \<notin> set chunks \<and> dec_buffer d @ concat chunks = bs)"

lemma feed_plain: "dec_decryptor d = None \<Longrightarrow> feed step data d = d\<lparr>dec_buffer := dec_buffer d @ data\<rparr>"
  by (simp add: feed_def)

lemma decode_arriving:
  fixes d :: "('d, 'y) decoder"
  assumes f: "frame_of zl k MAX_FRAME_LEN p f TYPE(('d, 'y) decoder)"
    and d: "dec_compression d = k" "dec_decryptor d = None" "dec_max_frame d = MAX_FRAME_LEN"
      "dec_buffer d @ later = f @ rest"
  shows "decode zl d = (Inr None, d) \<and> later \<noteq> [] \<or>
    (\<exists>buffer z. decode zl d = (Inr (Some p), d\<lparr>dec_buffer := buffer, dec_decompressor := z\<rparr>) \<and> buffer @ later = rest)"
proof -
  let ?step = "\<lambda>c b. (b, c)"
  obtain r d1 where r: "decode zl d = (r, d1)" by fastforce
  from f d obtain z where z: "decode zl (feed ?step later d) =
      (Inr (Some p), d\<lparr>dec_buffer := rest, dec_decompressor := z\<rparr>)"
    using f [unfolded frame_of_def, rule_format, of "d\<lparr>dec_buffer := f @ rest\<rparr>" rest] by (auto simp: feed_plain)
  show ?thesis
  proof (cases "r = Inr None")
    case True
    with r decode_more have "d1 = d" by fastforce
    moreover from True r z have "later \<noteq> []" by (auto simp: feed_Nil)
    ultimately show ?thesis using r True by simp
  next
    case False
    from decode_feed [OF r False, of ?step later] z
    have q: "r = Inr (Some p)" "feed ?step later d1 = d\<lparr>dec_buffer := rest, dec_decompressor := z\<rparr>" by simp_all
    have "dec_decryptor d1 = None"
      using arg_cong [OF q(2), of dec_decryptor] d(2) by (auto simp: feed_def split: option.splits prod.splits)
    with q(2) have e: "d1\<lparr>dec_buffer := dec_buffer d1 @ later\<rparr> = d\<lparr>dec_buffer := rest, dec_decompressor := z\<rparr>"
      by (simp add: feed_plain)
    from arg_cong [OF e, of dec_buffer] have b: "dec_buffer d1 @ later = rest" by simp
    have "d1 = d1\<lparr>dec_buffer := dec_buffer d1 @ later\<rparr>\<lparr>dec_buffer := dec_buffer d1\<rparr>" by simp
    also have "\<dots> = d\<lparr>dec_buffer := dec_buffer d1, dec_decompressor := z\<rparr>" unfolding e by simp
    finally have d1: "d1 = d\<lparr>dec_buffer := dec_buffer d1, dec_decompressor := z\<rparr>" .
    show ?thesis
    proof (intro disjI2 exI conjI)
      show "decode zl d = (Inr (Some p), d\<lparr>dec_buffer := dec_buffer d1, dec_decompressor := z\<rparr>)"
        unfolding r q(1) prod.inject by (intro conjI refl d1)
    qed (rule b)
  qed
qed

lemma read_packet_arriving:
  fixes d :: "('d, 'y) decoder"
  assumes f: "frame_of zl k MAX_FRAME_LEN p f TYPE(('d, 'y) decoder)"
  shows "arriving k (f @ rest) inbox d \<Longrightarrow>
    \<exists>inbox' d'. read_packet step zl inbox d = (Some (Inr p), inbox', d') \<and> arriving k rest inbox' d'"
proof (induction inbox arbitrary: d)
  case Nil
  then have "dec_compression d = k" "dec_decryptor d = None" "dec_max_frame d = MAX_FRAME_LEN"
    "dec_buffer d @ [] = f @ rest" by (auto simp: arriving_def)
  from decode_arriving [OF f this] show ?case
    using Nil by (subst read_packet.simps) (auto simp: arriving_def)
next
  case (Cons ev inbox)
  then obtain c cs where c: "ev = Data c" "c \<noteq> []" "inbox = map Data cs" "[] \<notin> set cs"
    and d: "dec_compression d = k" "dec_decryptor d = None" "dec_max_frame d = MAX_FRAME_LEN"
      "dec_buffer d @ concat (c # cs) = f @ rest"
    by (auto simp: arriving_def Cons_eq_map_conv)
  from decode_arriving [OF f d] show ?case
  proof (elim disjE conjE exE)
    assume n: "decode zl d = (Inr None, d)"
    have "arriving k (f @ rest) inbox (feed step c d)"
      using c d by (auto simp: arriving_def feed_plain intro!: exI [of _ cs])
    from Cons.IH [OF this] show ?thesis using n c by (subst read_packet.simps) simp
  next
    fix buffer z
    assume "decode zl d = (Inr (Some p), d\<lparr>dec_buffer := buffer, dec_decompressor := z\<rparr>)" "buffer @ concat (c # cs) = rest"
    then show ?thesis using c d
      by (subst read_packet.simps) (auto simp: arriving_def intro!: exI [of _ "c # cs"])
  qed
qed

section \<open>Sending\<close>

definition sending :: "usize option \<Rightarrow> ('c, 'z) encoder \<Rightarrow> 'io write_event list \<Rightarrow> bool" where
  "sending k e writes \<longleftrightarrow> enc_compression e = k \<and> enc_encryptor e = None \<and> enc_max_frame e = MAX_FRAME_LEN \<and>
     list_all (\<lambda>w. w = Written) writes"

text \<open>A packet as the code hands it to the encoder, and its frame before compression is switched on.\<close>

definition packet_bytes :: "i32 \<Rightarrow> bytes \<Rightarrow> bytes" where
  "packet_bytes pid body = write_varint pid @ body"

definition framed :: "bytes \<Rightarrow> bytes" where
  "framed p = write_varint (word_of_nat (length p)) @ p"

lemma encode_packet_bytes: "encode_packet pid body out = packet_bytes pid body"
  by (simp add: encode_packet_def packet_bytes_def)

lemma split_packet_bytes: "split_id (packet_bytes pid body) = Inr (pid, body)"
  using split_id_encode [of pid body "[]"] by (simp add: encode_packet_bytes)

lemma packet_bytes_not_Nil: "packet_bytes pid body \<noteq> []"
  using write_leb_nonempty by (simp add: packet_bytes_def write_varint_def)

text \<open>What one task holds, read side and write side together.\<close>

definition idle :: "usize option \<Rightarrow> bytes \<Rightarrow> ('a, 'c, 'd, 'y, 'z, 'io) task \<Rightarrow> bool" where
  "idle k bs s \<longleftrightarrow> arriving k bs (cn_inbox s) (cn_decoder s) \<and> sending k (cn_encoder s) (cn_writes s)"

definition same_context :: "('a, 'c, 'd, 'y, 'z, 'io) task \<Rightarrow> ('a, 'c, 'd, 'y, 'z, 'io) task \<Rightarrow> bool" where
  "same_context s t \<longleftrightarrow> ctx_players t = ctx_players s \<and> ctx_status t = ctx_status s \<and>
     ctx_others t = ctx_others s \<and> ctx_log t = ctx_log s \<and> cn_addr t = cn_addr s"

lemma read_step:
  fixes s :: "('a, 'c, 'd, 'y, 'z, 'io) task"
  assumes "frame_of (h_inflate h) k MAX_FRAME_LEN p f TYPE(('d, 'y) decoder)" "idle k (f @ rest) s"
  shows "\<exists>t. read_packet_timeout h s = Some (Inr p, t) \<and> idle k rest t \<and> same_context s t \<and> cn_wire t = cn_wire s"
proof -
  from assms(2) have "arriving k (f @ rest) (cn_inbox s) (cn_decoder s)" by (simp add: idle_def)
  from read_packet_arriving [OF assms(1) this, of "h_dec_step h"] obtain inbox d where
    r: "read_packet (h_dec_step h) (h_inflate h) (cn_inbox s) (cn_decoder s) = (Some (Inr p), inbox, d)"
      "arriving k rest inbox d" by blast
  then show ?thesis
    using assms(2) by (simp add: read_packet_timeout_def idle_def same_context_def)
qed

text \<open>The bodies the encoder accepts: the frame fits, also after compression.\<close>

definition sendable :: "(bytes \<Rightarrow> bytes) \<Rightarrow> usize option \<Rightarrow> bytes \<Rightarrow> bool" where
  "sendable deflate k p \<longleftrightarrow> length p < MAX_FRAME_LEN \<and> (case k of
      None \<Rightarrow> True
    | Some threshold \<Rightarrow> threshold \<le> length p \<longrightarrow>
        varint_len (word_of_nat (length p)) + length (deflate p) \<le> MAX_FRAME_LEN)"

lemma encode_idle:
  fixes client :: "('d2, 'y2) decoder itself"
  assumes z: "deflates zl R deflate" "inflates zly S deflate" "reserves reserve"
    and e: "sending k e ws" and p: "p \<noteq> []" "sendable deflate k p"
  shows "\<exists>f e'. encode step zl reserve p [] e = Some (Inr (), f, e') \<and> sending k e' ws \<and>
    frame_of zly k MAX_FRAME_LEN p f client \<and> (k = None \<longrightarrow> f = framed p)"
proof -
  have lim: "length p < MAX_FRAME_LEN" "enc_max_frame e \<le> MAX_FRAME_LEN" "(MAX_FRAME_LEN :: nat) < 2 ^ 31"
    using p(2) e by (simp_all add: sendable_def sending_def MAX_FRAME_LEN_def)
  obtain result e' where r: "encode_frame zl reserve p e = Some (result, e')"
    "enc_compression e' = enc_compression e" "enc_encryptor e' = enc_encryptor e" "enc_max_frame e' = enc_max_frame e"
    "\<And>frame. result = Inr frame \<Longrightarrow> frame_of zly (enc_compression e) MAX_FRAME_LEN p frame client"
    using encode_frame_ok [OF z p(1) lim, of client] by blast
  obtain z' cap where c: "compress_into zl reserve (enc_compressor e) p (enc_scratch_cap e) = Some (Inr (), z', deflate p, cap)"
    using compress_into_eq [OF z(1,3)] by blast
  have "\<exists>f. result = Inr f \<and> (k = None \<longrightarrow> f = framed p)"
    using r(1) c p(2) e
    by (cases k) (auto simp: encode_frame_def sending_def sendable_def Let_def framed_def split: if_splits)
  with r e show ?thesis by (auto simp: encode_def sending_def)
qed

lemma encode_plain:
  assumes "sending None e ws" "length p < MAX_FRAME_LEN"
  shows "encode step zl reserve p [] e = Some (Inr (), framed p, e)"
  using assms by (simp add: encode_def encode_frame_def sending_def framed_def)

lemma send_encoded:
  fixes s :: "('a, 'c, 'd, 'y, 'z, 'io) task"
  assumes s: "idle k bs s"
    and f: "encode (h_enc_step h) (h_deflate h) (h_reserve h) (packet_bytes pid body) [] (cn_encoder s) = Some (Inr (), f, e')"
      "sending k e' (cn_writes s)"
  shows "\<exists>t. send h pid body s = Some (Inr (), t) \<and> idle k bs t \<and> same_context s t \<and> cn_wire t = cn_wire s @ f"
proof -
  let ?s = "s\<lparr>cn_scratch := packet_bytes pid body, cn_out := f, cn_encoder := e'\<rparr>"
  have w: "write_all f ?s = (Inr (), ?s\<lparr>cn_writes := tl (cn_writes s), cn_wire := cn_wire s @ f\<rparr>)"
    using f(2) by (cases "cn_writes s") (auto simp: write_all_def sending_def)
  have "sending k e' (tl (cn_writes s))" using f(2) by (cases "cn_writes s") (simp_all add: sending_def)
  then show ?thesis
    using f s w by (simp add: send_def encode_packet_bytes idle_def same_context_def)
qed

section \<open>Handlers against a client that follows the protocol\<close>

lemma awp_fun:
  "awp (amodify f) Q = (\<lambda>t. Q (Inr (fst (f t))) (snd (f t)))"
  "awp (adone r) Q = Q r"
  "awp (afail e) Q = Q (Inl e)"
  "awp (abind m k) Q = awp m (\<lambda>r. case r of Inl e \<Rightarrow> Q (Inl e) | Inr v \<Rightarrow> awp (k v) Q)"
  by (simp_all add: fun_eq_iff awp_blocks awp_abind)

lemma awp_receive:
  fixes s :: "('a, 'c, 'd, 'y, 'z, 'io) task"
  assumes "idle k (f @ rest) s" "frame_of (h_inflate h) k MAX_FRAME_LEN p f TYPE(('d, 'y) decoder)"
    and "\<And>t. idle k rest t \<Longrightarrow> same_context s t \<Longrightarrow> cn_wire t = cn_wire s \<Longrightarrow> awp (kk p) Q t"
  shows "awp (abind (read_packet_timeout h) kk) Q s"
  using read_step [OF assms(2,1)] assms(3) unfolding awp_simps by (auto simp: awp_def)

lemma awp_send_plain:
  assumes "idle None bs s" "length (packet_bytes pid body) < MAX_FRAME_LEN"
    and "\<And>t. idle None bs t \<Longrightarrow> same_context s t \<Longrightarrow> cn_wire t = cn_wire s @ framed (packet_bytes pid body) \<Longrightarrow>
      Q (Inr ()) t"
  shows "awp (send h pid body) Q s"
proof -
  have e: "sending None (cn_encoder s) (cn_writes s)" using assms(1) by (simp add: idle_def)
  from send_encoded [where h = h, OF assms(1) encode_plain [OF e assms(2)] e] assms(3) show ?thesis by (auto simp: awp_def)
qed

lemma awp_send_frame:
  fixes s :: "('a, 'c, 'd, 'y, 'z, 'io) task" and client :: "('d2, 'y2) decoder itself"
  assumes z: "deflates (h_deflate h) R deflate" "inflates zly S deflate" "reserves (h_reserve h)"
    and s: "idle k bs s" and p: "sendable deflate k (packet_bytes pid body)"
    and Q: "\<And>t f. idle k bs t \<Longrightarrow> same_context s t \<Longrightarrow> cn_wire t = cn_wire s @ f \<Longrightarrow>
      frame_of zly k MAX_FRAME_LEN (packet_bytes pid body) f client \<Longrightarrow> Q (Inr ()) t"
  shows "awp (send h pid body) Q s"
proof -
  have e: "sending k (cn_encoder s) (cn_writes s)" using s by (simp add: idle_def)
  from encode_idle [OF z e packet_bytes_not_Nil p, of "h_enc_step h" client] obtain f e' where
    f: "encode (h_enc_step h) (h_deflate h) (h_reserve h) (packet_bytes pid body) [] (cn_encoder s) = Some (Inr (), f, e')"
      "sending k e' (cn_writes s)" "frame_of zly k MAX_FRAME_LEN (packet_bytes pid body) f client" by blast
  from send_encoded [OF s f(1,2)] Q f(3) show ?thesis by (auto simp: awp_def)
qed

lemma awp_lift_Inr: "r = Inr v \<Longrightarrow> awp (kk v) Q s \<Longrightarrow> awp (abind (alift r) kk) Q s"
  by (simp add: awp_simps)

lemma same_context_refl [simp]: "same_context s s"
  by (simp add: same_context_def)

lemma same_context_trans: "same_context s t \<Longrightarrow> same_context t u \<Longrightarrow> same_context s u"
  by (simp add: same_context_def)

section \<open>What the client sends\<close>

lemma framed_frame: "length p \<le> MAX_FRAME_LEN \<Longrightarrow> frame_of zl None MAX_FRAME_LEN p (framed p) d"
  by (simp add: framed_def frame_plain MAX_FRAME_LEN_def)

lemma length_string: "string_fits n s \<Longrightarrow> 3 * n < 2 ^ 31 \<Longrightarrow> length (write_string s) \<le> 5 + 3 * n"
  using length_write_varint_5 [of "word_of_nat (length (as_bytes s))"]
  by (auto simp: string_fits_def write_string_def usize_saturating_mul_def mult.commute split: if_splits)

lemma intention_frame:
  assumes "string_fits MAX_ADDRESS_LEN (in_server_address i)"
  shows "frame_of zl None MAX_FRAME_LEN (packet_bytes handshaking_sb_INTENTION (intention_encode i))
    (framed (packet_bytes handshaking_sb_INTENTION (intention_encode i))) d"
    "decode_exact intention_decode handshaking_sb_INTENTION (intention_encode i) state = Inr i"
proof -
  note l = length_string [OF assms] length_write_varint_5 [of "in_protocol_version i"]
    length_write_varint_5 [of "next_state_id (in_next_state i)"] length_write_varint_5 [of handshaking_sb_INTENTION]
  show "frame_of zl None MAX_FRAME_LEN (packet_bytes handshaking_sb_INTENTION (intention_encode i))
    (framed (packet_bytes handshaking_sb_INTENTION (intention_encode i))) d"
    using l by (intro framed_frame) (simp add: packet_bytes_def intention_encode_def write_u16_def MAX_FRAME_LEN_def
        MAX_ADDRESS_LEN_def)
  show "decode_exact intention_decode handshaking_sb_INTENTION (intention_encode i) state = Inr i"
    using intentionc.decode_exact_rt [OF assms] length_intention [OF assms] by simp
qed

lemma awp_run_intention:
  fixes s :: "('a, 'c, 'd, 'y, 'z, 'io) task"
  assumes s: "idle None (framed (packet_bytes handshaking_sb_INTENTION (intention_encode i)) @ rest) s"
    and i: "string_fits MAX_ADDRESS_LEN (in_server_address i)"
    and k: "\<And>t. idle None rest t \<Longrightarrow> same_context s t \<Longrightarrow> cn_wire t = cn_wire s \<Longrightarrow>
      awp (if in_next_state i = NextStatus then status_phase h
       else if \<not> is_supported (in_protocol_version i) then
         attempt (send h login_cb_LOGIN_DISCONNECT (login_disconnect_encode \<lparr>ld_reason_json =
           component_to_json (h_component_string h) (version_mismatch (in_protocol_version i))\<rparr>)) (\<lambda>_.
         afail (UnsupportedVersion (in_protocol_version i) PROTOCOL_VERSION))
       else login_phase h) Q t"
  shows "awp (run h) Q s"
  unfolding run_def
  by (rule awp_receive [OF s intention_frame(1) [OF i]], rule awp_lift_Inr [OF split_packet_bytes])
    (simp, rule awp_lift_Inr [OF intention_frame(2) [OF i]], rule k)

lemma new_task_idle:
  assumes "concat chunks = bs" "[] \<notin> set chunks"
  shows "idle None bs (task_new (connection_new inflater deflater (map Data chunks) [] addr) ctx others)"
  using assms
  by (auto simp: idle_def arriving_def sending_def connection_new_def decoder_new_def encoder_new_def
      task_new_def connection.defs task.defs)

lemma new_task_context [simp]:
  "ctx_players (task_new conn ctx others) = fst ctx" "ctx_status (task_new conn ctx others) = snd ctx"
  "ctx_others (task_new conn ctx others) = others" "ctx_log (task_new conn ctx others) = []" "cn_wire (task_new conn ctx others) = cn_wire conn"
  "cn_addr (task_new conn ctx others) = cn_addr conn"
  "cn_wire (connection_new inflater deflater inbox writes addr) = []"
  "cn_addr (connection_new inflater deflater inbox writes addr) = addr"
  by (simp_all add: task_new_def connection_new_def connection.defs task.defs)

lemma handle_run:
  "run h (task_new conn (players, status) []) = Some (r, s') \<Longrightarrow> r \<noteq> Inl Suspended \<Longrightarrow>
    handle h conn players status = Some (cn_wire s', ctx_players s', ctx_status s')"
  by (auto simp: handle_def split: sum.split conn_error.split)

lemma handle_awp:
  assumes "awp (run h) (\<lambda>r s'. r \<noteq> Inl Suspended \<and> cn_wire s' = wire \<and> ctx_players s' = players' \<and> ctx_status s' = status')
    (task_new conn (players, status) [])"
  shows "handle h conn players status = Some (wire, players', status')"
  using assms by (auto simp: awp_iff handle_run)

lemma status_request_frame:
  "frame_of zl None MAX_FRAME_LEN (packet_bytes status_sb_STATUS_REQUEST []) (framed (packet_bytes status_sb_STATUS_REQUEST [])) d"
  "decode_exact status_request_decode status_sb_STATUS_REQUEST [] state = Inr ()"
proof -
  have "length (packet_bytes status_sb_STATUS_REQUEST []) \<le> MAX_FRAME_LEN"
    using length_write_varint_5 [of status_sb_STATUS_REQUEST] by (simp add: packet_bytes_def MAX_FRAME_LEN_def)
  then show "frame_of zl None MAX_FRAME_LEN (packet_bytes status_sb_STATUS_REQUEST [])
      (framed (packet_bytes status_sb_STATUS_REQUEST [])) d" by (rule framed_frame)
  show "decode_exact status_request_decode status_sb_STATUS_REQUEST [] state = Inr ()"
    by (simp add: decode_exact_def status_request_decode_def rreturn_apply expect_finished_def remaining_def reader_new_def)
qed

lemma ping_request_frame:
  "frame_of zl None MAX_FRAME_LEN (packet_bytes status_sb_PING_REQUEST (write_i64 n))
    (framed (packet_bytes status_sb_PING_REQUEST (write_i64 n))) d"
  "decode_exact ping_request_decode status_sb_PING_REQUEST (write_i64 n) state = Inr \<lparr>ping_payload = n\<rparr>"
proof -
  have "length (packet_bytes status_sb_PING_REQUEST (write_i64 n)) \<le> 13"
    using length_write_varint_5 [of status_sb_PING_REQUEST] by (simp add: packet_bytes_def write_i64_def)
  then show "frame_of zl None MAX_FRAME_LEN (packet_bytes status_sb_PING_REQUEST (write_i64 n))
    (framed (packet_bytes status_sb_PING_REQUEST (write_i64 n))) d"
    by (intro framed_frame) (simp add: MAX_FRAME_LEN_def)
  show "decode_exact ping_request_decode status_sb_PING_REQUEST (write_i64 n) state = Inr \<lparr>ping_payload = n\<rparr>"
    using pingc.decode_exact_rt [of "\<lparr>ping_payload = n\<rparr>"] by (simp add: pong_response_encode_def write_i64_def)
qed

lemma awp_status_receive:
  fixes s :: "('a, 'c, 'd, 'y, 'z, 'io) task"
  assumes "idle None (f @ rest) s" "frame_of (h_inflate h) None MAX_FRAME_LEN (packet_bytes pid body) f TYPE(('d, 'y) decoder)"
    and "\<And>t. idle None rest t \<Longrightarrow> same_context s t \<Longrightarrow> cn_wire t = cn_wire s \<Longrightarrow>
      awp (if pid = status_sb_STATUS_REQUEST then
          abind (alift (decode_exact status_request_decode status_sb_STATUS_REQUEST body (state_name Status))) (\<lambda>_.
          abind (amodify (status_document h)) (\<lambda>json.
          abind (send h status_cb_STATUS_RESPONSE (status_response_encode \<lparr>sr_json = json\<rparr>)) (\<lambda>_.
          status_phase h)))
        else if pid = status_sb_PING_REQUEST then
          abind (alift (decode_exact ping_request_decode status_sb_PING_REQUEST body (state_name Status))) (\<lambda>ping.
          send h status_cb_PONG_RESPONSE (pong_response_encode \<lparr>pong_payload = ping_payload ping\<rparr>))
        else afail (UnexpectedPacket (state_name Status) pid)) Q t"
  shows "awp (status_phase h) Q s"
proof -
  from read_step [OF assms(2,1)] obtain t where t: "read_packet_timeout h s = Some (Inr (packet_bytes pid body), t)"
    "idle None rest t" "same_context s t" "cn_wire t = cn_wire s" by blast
  show ?thesis
    by (subst status_phase_unfold, unfold awp_attempt, unfold awp_def [of "read_packet_timeout h"] t(1))
      (use assms(3) [OF t(2,3,4)] in \<open>simp add: awp_resume awp_abind awp_blocks(3,5) split_packet_bytes del: state_name.simps\<close>)
qed

lemma status_document_alone:
  assumes "ctx_others s = []"
    and "status_json (h_md5 h) (h_uuid_string h) (h_status_string h) (word_of_nat (registry_count (ctx_players s)))
      (sample_names (h_iter h) 12 (ctx_players s)) (ctx_status s) = (json, status')"
  shows "\<exists>t. status_document h s = (json, t) \<and> ctx_players t = ctx_players s \<and> ctx_status t = status' \<and>
    ctx_others t = [] \<and> cn_wire t = cn_wire s \<and> (\<forall>k bs. idle k bs t \<longleftrightarrow> idle k bs s)"
  using assms
  by (auto simp: status_document_def Let_def take_lock_alone status_json_def status_rebuild_def idle_def
      split: option.splits)

lemma awp_status_request:
  fixes s :: "('a, 'c, 'd, 'y, 'z, 'io) task"
  assumes s: "idle None (framed (packet_bytes status_sb_STATUS_REQUEST []) @ rest) s" "ctx_others s = []"
    and json: "status_json (h_md5 h) (h_uuid_string h) (h_status_string h) (word_of_nat (registry_count (ctx_players s)))
      (sample_names (h_iter h) 12 (ctx_players s)) (ctx_status s) = (json, status')"
    and len: "length (packet_bytes status_cb_STATUS_RESPONSE (write_string json)) < MAX_FRAME_LEN"
    and k: "\<And>t. idle None rest t \<Longrightarrow> ctx_players t = ctx_players s \<Longrightarrow> ctx_status t = status' \<Longrightarrow>
      ctx_others t = [] \<Longrightarrow> cn_wire t = cn_wire s @ framed (packet_bytes status_cb_STATUS_RESPONSE (write_string json)) \<Longrightarrow>
      awp (status_phase h) Q t"
  shows "awp (status_phase h) Q s"
proof (rule awp_status_receive [OF s(1) status_request_frame(1)])
  fix t assume t: "idle None rest t" "same_context s t" "cn_wire t = cn_wire s"
  from status_document_alone [of t h json status'] json s(2) t(2) obtain u where
    d: "status_document h t = (json, u)" "ctx_players u = ctx_players s" "ctx_status u = status'" "ctx_others u = []"
      "cn_wire u = cn_wire t" "idle None rest u" using t(1) by (auto simp: same_context_def)
  have "awp (send h status_cb_STATUS_RESPONSE (write_string json))
      (\<lambda>r. case r of Inl e \<Rightarrow> Q (Inl e) | Inr _ \<Rightarrow> awp (status_phase h) Q) u"
    using t d by (intro awp_send_plain [of rest] len) (simp_all add: same_context_def k)
  then show "awp (if status_sb_STATUS_REQUEST = status_sb_STATUS_REQUEST then
          abind (alift (decode_exact status_request_decode status_sb_STATUS_REQUEST [] (state_name Status))) (\<lambda>_.
          abind (amodify (status_document h)) (\<lambda>json.
          abind (send h status_cb_STATUS_RESPONSE (status_response_encode \<lparr>sr_json = json\<rparr>)) (\<lambda>_.
          status_phase h)))
        else if status_sb_STATUS_REQUEST = status_sb_PING_REQUEST then
          abind (alift (decode_exact ping_request_decode status_sb_PING_REQUEST [] (state_name Status))) (\<lambda>ping.
          send h status_cb_PONG_RESPONSE (pong_response_encode \<lparr>pong_payload = ping_payload ping\<rparr>))
        else afail (UnexpectedPacket (state_name Status) status_sb_STATUS_REQUEST)) Q t"
    by (simp add: awp_abind awp_blocks(4,5) status_request_frame(2) d status_response_encode_def del: state_name.simps)
qed

lemma awp_status_ping:
  fixes s :: "('a, 'c, 'd, 'y, 'z, 'io) task"
  assumes s: "idle None (framed (packet_bytes status_sb_PING_REQUEST (write_i64 n)) @ rest) s"
    and k: "\<And>t. idle None rest t \<Longrightarrow> same_context s t \<Longrightarrow>
      cn_wire t = cn_wire s @ framed (packet_bytes status_cb_PONG_RESPONSE (write_i64 n)) \<Longrightarrow> Q (Inr ()) t"
  shows "awp (status_phase h) Q s"
proof (rule awp_status_receive [OF s ping_request_frame(1)])
  fix t assume t: "idle None rest t" "same_context s t" "cn_wire t = cn_wire s"
  have "length (packet_bytes status_cb_PONG_RESPONSE (write_i64 n)) < MAX_FRAME_LEN"
    using length_write_varint_5 [of status_cb_PONG_RESPONSE] by (simp add: packet_bytes_def write_i64_def MAX_FRAME_LEN_def)
  then have "awp (send h status_cb_PONG_RESPONSE (write_i64 n)) Q t"
    using t by (intro awp_send_plain [OF t(1)] k) (simp_all add: same_context_trans)
  moreover have "status_sb_PING_REQUEST \<noteq> status_sb_STATUS_REQUEST" by (simp add: id_defs)
  ultimately show "awp (if status_sb_PING_REQUEST = status_sb_STATUS_REQUEST then
          abind (alift (decode_exact status_request_decode status_sb_STATUS_REQUEST (write_i64 n) (state_name Status))) (\<lambda>_.
          abind (amodify (status_document h)) (\<lambda>json.
          abind (send h status_cb_STATUS_RESPONSE (status_response_encode \<lparr>sr_json = json\<rparr>)) (\<lambda>_.
          status_phase h)))
        else if status_sb_PING_REQUEST = status_sb_PING_REQUEST then
          abind (alift (decode_exact ping_request_decode status_sb_PING_REQUEST (write_i64 n) (state_name Status))) (\<lambda>ping.
          send h status_cb_PONG_RESPONSE (pong_response_encode \<lparr>pong_payload = ping_payload ping\<rparr>))
        else afail (UnexpectedPacket (state_name Status) status_sb_PING_REQUEST)) Q t"
    by (simp add: awp_abind awp_blocks(5) ping_request_frame(2) pong_response_encode_def del: state_name.simps)
qed

text \<open>
  A client that asks again and again: the document is built once, every request is answered, and a silent client is
  dropped at the deadline.
\<close>

lemma status_json_again:
  assumes "status_json md5 uuid_string to_string online sample c = (json, c')"
  shows "status_json md5 uuid_string to_string online sample c' = (json, c')"
proof (cases "cache_hit online sample c")
  case None
  with assms have "cache_hit online sample c' = Some json"
    by (auto simp: status_json_rebuild status_rebuild_def Let_def) (simp add: cache_hit_def)
  then show ?thesis by (simp add: status_json_def)
qed (use assms in \<open>simp add: status_json_def\<close>)

lemma awp_status_silence:
  fixes s :: "('a, 'c, 'd, 'y, 'z, 'io) task"
  assumes "idle None [] s"
    and "\<And>t. same_context s t \<Longrightarrow> cn_wire t = cn_wire s \<Longrightarrow> Q (Inl TimedOut) t"
  shows "awp (status_phase h) Q s"
proof -
  have d: "dec_buffer (cn_decoder s) = []" "cn_inbox s = []" "dec_compression (cn_decoder s) = None"
    using assms(1) by (auto simp: idle_def arriving_def) (metis list.set_intros(1) neq_Nil_conv)
  then have "decode (h_inflate h) (cn_decoder s) = (Inr None, cn_decoder s)"
    by (simp add: decode_def read_varint_def MAX_VARINT_BYTES_def)
  with d have "read_packet_timeout h s = Some (Inl TimedOut, s\<lparr>cn_inbox := [], cn_decoder := cn_decoder s\<rparr>)"
    by (simp add: read_packet_timeout_def read_packet.simps)
  moreover have "Q (Inl TimedOut) (s\<lparr>cn_inbox := [], cn_decoder := cn_decoder s\<rparr>)"
    by (rule assms(2)) (simp_all add: same_context_def)
  ultimately show ?thesis
    by (subst status_phase_unfold) (simp add: awp_attempt awp_def [of "read_packet_timeout h"] awp_resume awp_abind awp_blocks(3))
qed

lemma awp_status_requests:
  fixes s :: "('a, 'c, 'd, 'y, 'z, 'io) task"
  assumes "idle None (concat (replicate n (framed (packet_bytes status_sb_STATUS_REQUEST [])))) s" "ctx_others s = []"
    and "status_json (h_md5 h) (h_uuid_string h) (h_status_string h) (word_of_nat (registry_count (ctx_players s)))
      (sample_names (h_iter h) 12 (ctx_players s)) (ctx_status s) = (json, status')"
    and len: "length (packet_bytes status_cb_STATUS_RESPONSE (write_string json)) < MAX_FRAME_LEN"
    and Q: "\<And>t. ctx_players t = ctx_players s \<Longrightarrow> ctx_status t = (if n = 0 then ctx_status s else status') \<Longrightarrow>
      cn_wire t = cn_wire s @ concat (replicate n (framed (packet_bytes status_cb_STATUS_RESPONSE (write_string json)))) \<Longrightarrow>
      Q (Inl TimedOut) t"
  shows "awp (status_phase h) Q s"
  using assms
proof (induction n arbitrary: s)
  case 0
  show ?case by (rule awp_status_silence) (use 0 in \<open>auto simp: same_context_def\<close>)
next
  case (Suc n)
  from Suc.prems(1) have "idle None (framed (packet_bytes status_sb_STATUS_REQUEST []) @
      concat (replicate n (framed (packet_bytes status_sb_STATUS_REQUEST [])))) s" by simp
  then show ?case
  proof (rule awp_status_request [OF _ Suc.prems(2,3) len])
    fix t :: "('a, 'c, 'd, 'y, 'z, 'io) task"
    assume t: "idle None (concat (replicate n (framed (packet_bytes status_sb_STATUS_REQUEST [])))) t"
      "ctx_players t = ctx_players s" "ctx_status t = status'" "ctx_others t = []"
      "cn_wire t = cn_wire s @ framed (packet_bytes status_cb_STATUS_RESPONSE (write_string json))"
    show "awp (status_phase h) Q t"
      by (rule Suc.IH [OF t(1,4) _ len]) (use Suc.prems(3,5) t status_json_again in \<open>auto split: if_splits\<close>)
  qed
qed

section \<open>Logging in\<close>

lemma awp_if_True: "b \<Longrightarrow> awp k Q s \<Longrightarrow> awp (if b then k else l) Q s"
  by simp

lemma awp_if_False: "\<not> b \<Longrightarrow> awp l Q s \<Longrightarrow> awp (if b then k else l) Q s"
  by simp

lemma awp_split: "awp (kp a b) Q s \<Longrightarrow> awp (case (a, b) of (a, b) \<Rightarrow> kp a b) Q s"
  by simp

lemma hello_frame:
  assumes "string_fits MAX_USERNAME_LEN (hello_name p)"
  shows "frame_of zl None MAX_FRAME_LEN (packet_bytes login_sb_HELLO (hello_encode p))
    (framed (packet_bytes login_sb_HELLO (hello_encode p))) d"
    "decode_exact hello_decode login_sb_HELLO (hello_encode p) state = Inr p"
proof -
  have "length (packet_bytes login_sb_HELLO (hello_encode p)) \<le> MAX_FRAME_LEN"
    using length_string [OF assms] length_write_varint_5 [of login_sb_HELLO]
    by (simp add: packet_bytes_def hello_encode_def write_uuid_def MAX_FRAME_LEN_def MAX_USERNAME_LEN_def)
  then show "frame_of zl None MAX_FRAME_LEN (packet_bytes login_sb_HELLO (hello_encode p))
    (framed (packet_bytes login_sb_HELLO (hello_encode p))) d" by (rule framed_frame)
  show "decode_exact hello_decode login_sb_HELLO (hello_encode p) state = Inr p"
    using helloc.decode_exact_rt [OF assms] length_hello [OF assms] by simp
qed

text \<open>The one frame the server sends before compression is on, if the configuration asks for it.\<close>

definition compression_notice :: "usize option \<Rightarrow> bytes" where
  "compression_notice k = (case k of
      Some threshold \<Rightarrow> framed (packet_bytes login_cb_SET_COMPRESSION (write_varint (word_of_nat threshold)))
    | None \<Rightarrow> [])"

lemma awp_negotiate:
  assumes s: "idle None bs s"
    and k: "\<And>t. idle k bs t \<Longrightarrow> same_context s t \<Longrightarrow> cn_wire t = cn_wire s @ compression_notice k \<Longrightarrow> awp (kk ()) Q t"
  shows "awp (abind (case k of
      Some threshold \<Rightarrow> abind (send h login_cb_SET_COMPRESSION
        (set_compression_encode \<lparr>sc_threshold = word_of_nat threshold\<rparr>)) (\<lambda>_. amodify (enable_compression threshold))
    | None \<Rightarrow> areturn ()) kk) Q s"
proof (cases k)
  case None
  with s k [of s] show ?thesis by (simp add: awp_abind awp_blocks(1) compression_notice_def)
next
  case (Some threshold)
  have len: "length (packet_bytes login_cb_SET_COMPRESSION (write_varint n)) < MAX_FRAME_LEN" for n
    using length_write_varint_5 [of login_cb_SET_COMPRESSION] length_write_varint_5 [of n]
    by (simp add: packet_bytes_def MAX_FRAME_LEN_def)
  have e: "idle (Some threshold) bs (snd (enable_compression threshold t))" if "idle None bs t" for t
    using that by (simp add: enable_compression_def idle_def arriving_def sending_def enc_enable_compression_def
        dec_enable_compression_def)
  have "awp (send h login_cb_SET_COMPRESSION (write_varint (word_of_nat threshold)))
      (\<lambda>r. case r of Inl e \<Rightarrow> Q (Inl e) | Inr _ \<Rightarrow> \<lambda>t. awp (kk ()) Q (snd (enable_compression threshold t))) s"
  proof (rule awp_send_plain [OF s len])
    fix t assume t: "idle None bs t" "same_context s t"
      "cn_wire t = cn_wire s @ framed (packet_bytes login_cb_SET_COMPRESSION (write_varint (word_of_nat threshold)))"
    have "same_context s (snd (enable_compression threshold t))" "cn_wire (snd (enable_compression threshold t)) = cn_wire t"
      using t(2) by (simp_all add: same_context_def enable_compression_def)
    with k [OF e [OF t(1), folded Some]] t(3)
    show "(case Inr () of Inl e \<Rightarrow> Q (Inl e) | Inr _ \<Rightarrow> \<lambda>t. awp (kk ()) Q (snd (enable_compression threshold t))) t"
      by (simp add: compression_notice_def Some)
  qed
  then show ?thesis
    by (simp add: Some awp_fun set_compression_encode_def cong: sum.case_cong)
qed

lemma acknowledged_decode: "decode_exact login_acknowledged_decode login_sb_LOGIN_ACKNOWLEDGED [] state = Inr ()"
  by (simp add: decode_exact_def login_acknowledged_decode_def rreturn_apply expect_finished_def remaining_def reader_new_def)

lemma awp_send_bind_frame:
  fixes s :: "('a, 'c, 'd, 'y, 'z, 'io) task" and client :: "('d2, 'y2) decoder itself"
  assumes "deflates (h_deflate h) R deflate" "inflates zly S deflate" "reserves (h_reserve h)"
    and "idle k bs s" and "sendable deflate k (packet_bytes pid body)"
    and "\<And>t f. idle k bs t \<Longrightarrow> same_context s t \<Longrightarrow> cn_wire t = cn_wire s @ f \<Longrightarrow>
      frame_of zly k MAX_FRAME_LEN (packet_bytes pid body) f client \<Longrightarrow> awp (kk ()) Q t"
  shows "awp (abind (send h pid body) kk) Q s"
  unfolding awp_abind by (rule awp_send_frame [OF assms(1-5), where client = client]) (simp add: assms(6))

text \<open>The packets the server sends once compression is settled, up to the end of the connection.\<close>

definition login_replies :: "('a, 'c, 'd, 'y, 'z) host \<Rightarrow> hello \<Rightarrow> bytes list" where
  "login_replies h hello =
     [packet_bytes login_cb_LOGIN_SUCCESS (login_finished_encode (login_finished_new
        (offline_uuid (h_md5 h) (hello_name hello)) (hello_name hello) (flag_value (cfg_login_finished_flag (h_config h))))),
      packet_bytes config_cb_PLUGIN_MESSAGE (plugin_message_encode (brand_message SERVER_BRAND)),
      packet_bytes config_cb_SELECT_KNOWN_PACKS (select_known_packs_encode known_packs_vanilla),
      packet_bytes config_cb_DISCONNECT (disconnect_encode
        \<lparr>dc_reason = with_color (component_text NO_REGISTRIES) Gold\<rparr>)]"

lemma awp_login_join_exchange:
  fixes s :: "('a, 'c, 'd, 'y, 'z, 'io) task" and client :: "('d2, 'y2) decoder itself"
  assumes z: "deflates (h_deflate h) R deflate" "inflates zly S deflate" "reserves (h_reserve h)"
    and s: "idle k (fp @ rest) s"
    and fp: "frame_of (h_inflate h) k MAX_FRAME_LEN (packet_bytes config_sb_SELECT_KNOWN_PACKS
        (select_known_packs_encode packs)) fp TYPE(('d, 'y) decoder)"
    and packs: "packs_fit packs" "length (select_known_packs_encode packs) < 2 ^ 64"
    and info: "info = \<lparr>pi_uuid = uuid, pi_name = hello_name hello, pi_addr = cn_addr s\<rparr>"
    and ins: "try_insert info (player_limit (h_config h)) (ctx_players (take_lock (TryInsert info) s)) = (Inr (), players')"
    and small: "list_all (sendable deflate k) (login_replies h hello)"
    and Q: "\<And>t fs. list_all2 (\<lambda>p f. frame_of zly k MAX_FRAME_LEN p f client) (tl (login_replies h hello)) fs \<Longrightarrow>
      cn_wire t = cn_wire s @ concat fs \<Longrightarrow> same_context (take_lock (TryInsert info) s\<lparr>ctx_players := players'\<rparr>) t \<Longrightarrow>
      Q (Inl (Rejected (lit ''registry data not loaded''))) (snd (remove_player uuid t))"
  shows "awp (login_join h hello uuid) Q s"
proof -
  have small': "sendable deflate k (packet_bytes config_cb_PLUGIN_MESSAGE (plugin_message_encode (brand_message SERVER_BRAND)))"
    "sendable deflate k (packet_bytes config_cb_SELECT_KNOWN_PACKS (select_known_packs_encode known_packs_vanilla))"
    "sendable deflate k (packet_bytes config_cb_DISCONNECT (disconnect_encode
        \<lparr>dc_reason = with_color (component_text NO_REGISTRIES) Gold\<rparr>))"
    using small by (simp_all add: login_replies_def)
  note send = awp_send_bind_frame [OF z, where client = client]
  have dec: "decode_exact select_known_packs_decode config_sb_SELECT_KNOWN_PACKS (select_known_packs_encode packs) state
      = Inr packs" for state
    using known_packsc.decode_exact_rt [OF packs] .
  have ne: "config_sb_SELECT_KNOWN_PACKS \<noteq> config_sb_CLIENT_INFORMATION" by (simp add: id_defs)
  let ?s = "take_lock (TryInsert info) s\<lparr>ctx_players := players'\<rparr>"
  have s1: "idle k (fp @ rest) ?s" using s by (simp add: idle_def)
  have a: "admit_player \<lparr>pi_uuid = uuid, pi_name = hello_name hello, pi_addr = cn_addr s\<rparr> (player_limit (h_config h)) s =
      (Inr (), ?s)" by (simp add: admit_player_def Let_def ins [unfolded info] info)
  let ?W = "\<lambda>r u. \<exists>fs. r = Inl (Rejected (lit ''registry data not loaded'')) \<and>
      list_all2 (\<lambda>p f. frame_of zly k MAX_FRAME_LEN p f client) (tl (login_replies h hello)) fs \<and>
      cn_wire u = cn_wire s @ concat fs \<and> same_context ?s u"
  have "awp (configuration_phase h) ?W ?s"
    unfolding configuration_phase_def
  proof (rule send [OF s1 small'(1)], rule send [OF _ small'(2)], assumption)
    fix t f1 u f2
    assume t: "same_context ?s t" "cn_wire t = cn_wire ?s @ f1"
      "frame_of zly k MAX_FRAME_LEN (packet_bytes config_cb_PLUGIN_MESSAGE (plugin_message_encode (brand_message SERVER_BRAND))) f1 client"
      and u: "idle k (fp @ rest) u" "same_context t u" "cn_wire u = cn_wire t @ f2"
      "frame_of zly k MAX_FRAME_LEN (packet_bytes config_cb_SELECT_KNOWN_PACKS (select_known_packs_encode known_packs_vanilla)) f2 client"
    show "awp (configuration_loop h) ?W u"
    proof (subst configuration_loop_unfold, rule awp_receive [OF u(1) fp], rule awp_lift_Inr [OF split_packet_bytes],
        rule awp_split, rule awp_if_False [OF ne], rule awp_if_True [OF refl], rule awp_lift_Inr [OF dec],
        rule send [OF _ small'(3)], assumption, unfold awp_blocks)
      fix v w f3
      assume "same_context u v" "cn_wire v = cn_wire u" "same_context v w" "cn_wire w = cn_wire v @ f3"
        "frame_of zly k MAX_FRAME_LEN (packet_bytes config_cb_DISCONNECT (disconnect_encode
          \<lparr>dc_reason = with_color (component_text NO_REGISTRIES) Gold\<rparr>)) f3 client"
      with t u show "?W (Inl (Rejected (lit ''registry data not loaded''))) w"
        by (intro exI [of _ "[f1, f2, f3]"]) (simp add: login_replies_def same_context_def)
    qed
  qed
  then have "awp (configuration_phase h) (\<lambda>r u. r \<noteq> Inl Suspended \<and> Q r (snd (remove_player uuid u))) ?s"
    by (rule awp_conseq) (auto intro: Q)
  then have "awp (configuration_phase h) (\<lambda>r. awp (resume (\<lambda>result.
      abind (amodify (remove_player uuid)) (\<lambda>_. adone result)) r) Q) ?s"
    by (rule awp_conseq) (simp add: awp_resume awp_fun)
  then show ?thesis
    unfolding login_join_def Let_def
    by (simp add: awp_attempt awp_fun connection_addr_def a)
qed

lemma awp_login_phase_exchange:
  fixes s :: "('a, 'c, 'd, 'y, 'z, 'io) task" and client :: "('d2, 'y2) decoder itself"
  assumes z: "deflates (h_deflate h) R deflate" "inflates zly S deflate" "reserves (h_reserve h)"
    and k: "compression (h_config h) = k" and offline: "\<not> cfg_online_mode (h_config h)"
    and s: "idle None (framed (packet_bytes login_sb_HELLO (hello_encode hello)) @ fa @ rest) s"
    and name: "string_fits MAX_USERNAME_LEN (hello_name hello)"
    and fa: "frame_of (h_inflate h) k MAX_FRAME_LEN (packet_bytes login_sb_LOGIN_ACKNOWLEDGED []) fa TYPE(('d, 'y) decoder)"
    and small: "sendable deflate k (hd (login_replies h hello))"
    and Q: "\<And>t f. idle k rest t \<Longrightarrow> same_context s t \<Longrightarrow> cn_wire t = cn_wire s @ compression_notice k @ f \<Longrightarrow>
      frame_of zly k MAX_FRAME_LEN (hd (login_replies h hello)) f client \<Longrightarrow>
      awp (login_join h hello (offline_uuid (h_md5 h) (hello_name hello))) Q t"
  shows "awp (login_phase h) Q s"
  unfolding login_phase_def Let_def k
proof (rule awp_receive [OF s hello_frame(1) [OF name]], rule awp_lift_Inr [OF split_packet_bytes], rule awp_split,
    rule awp_if_False, simp, rule awp_lift_Inr [OF hello_frame(2) [OF name]], rule awp_if_False [OF offline],
    rule awp_negotiate, assumption, rule awp_send_bind_frame [OF z, where client = client], assumption,
    rule small [unfolded login_replies_def list.sel], rule awp_receive [OF _ fa], assumption,
    rule awp_lift_Inr [OF split_packet_bytes], rule awp_split, rule awp_if_False, simp,
    rule awp_lift_Inr [OF acknowledged_decode])
  fix t u v f w
  assume "idle k rest w" "same_context s t" "cn_wire t = cn_wire s" "same_context t u"
    "cn_wire u = cn_wire t @ compression_notice k" "same_context u v" "cn_wire v = cn_wire u @ f"
    "same_context v w" "cn_wire w = cn_wire v"
    "frame_of zly k MAX_FRAME_LEN (packet_bytes login_cb_LOGIN_SUCCESS (login_finished_encode
      (login_finished_new (offline_uuid (h_md5 h) (hello_name hello)) (hello_name hello)
        (flag_value (cfg_login_finished_flag (h_config h)))))) f client"
  then show "awp (login_join h hello (offline_uuid (h_md5 h) (hello_name hello))) Q w"
    by (intro Q [of w f]) (simp_all add: same_context_def login_replies_def)
qed

text \<open>A login from its first byte to the registry.\<close>

lemma awp_login_run:
  fixes s :: "('a, 'c, 'd, 'y, 'z, 'io) task" and client :: "('d2, 'y2) decoder itself"
  assumes z: "deflates (h_deflate h) R deflate" "inflates zly S deflate" "reserves (h_reserve h)"
    and k: "compression (h_config h) = k" and offline: "\<not> cfg_online_mode (h_config h)"
    and s: "idle None (framed (packet_bytes handshaking_sb_INTENTION (intention_encode i)) @
      framed (packet_bytes login_sb_HELLO (hello_encode hello)) @ fa @ rest) s"
    and i: "in_next_state i \<noteq> NextStatus" "string_fits MAX_ADDRESS_LEN (in_server_address i)" "in_protocol_version i = 776"
    and name: "string_fits MAX_USERNAME_LEN (hello_name hello)"
    and fa: "frame_of (h_inflate h) k MAX_FRAME_LEN (packet_bytes login_sb_LOGIN_ACKNOWLEDGED []) fa TYPE(('d, 'y) decoder)"
    and small: "sendable deflate k (hd (login_replies h hello))"
    and Q: "\<And>t f. idle k rest t \<Longrightarrow> same_context s t \<Longrightarrow> cn_wire t = cn_wire s @ compression_notice k @ f \<Longrightarrow>
      frame_of zly k MAX_FRAME_LEN (hd (login_replies h hello)) f client \<Longrightarrow>
      awp (login_join h hello (offline_uuid (h_md5 h) (hello_name hello))) Q t"
  shows "awp (run h) Q s"
proof (rule awp_run_intention [OF s i(2)])
  fix t :: "('a, 'c, 'd, 'y, 'z, 'io) task"
  assume t: "idle None (framed (packet_bytes login_sb_HELLO (hello_encode hello)) @ fa @ rest) t"
    "same_context s t" "cn_wire t = cn_wire s"
  have "awp (login_phase h) Q t"
    by (rule awp_login_phase_exchange [OF z k offline t(1) name fa small, where client = client])
      (use t(2,3) in \<open>auto intro: Q same_context_trans\<close>)
  then show "awp (if in_next_state i = NextStatus then status_phase h
     else if \<not> is_supported (in_protocol_version i) then
       attempt (send h login_cb_LOGIN_DISCONNECT (login_disconnect_encode \<lparr>ld_reason_json =
         component_to_json (h_component_string h) (version_mismatch (in_protocol_version i))\<rparr>)) (\<lambda>_.
       afail (UnsupportedVersion (in_protocol_version i) PROTOCOL_VERSION))
     else login_phase h) Q t"
    using i(1,3) by (simp add: is_supported_def PROTOCOL_VERSION_def)
qed

section \<open>Properties\<close>

text \<open>
  C11: a server-list ping works end to end: to a client that sends a status handshake, a status request and
  a ping, cut into any non-empty pieces, the server answers with exactly two frames, the status document
  for the players now online and a pong with the payload of the ping, and ends; the registry is not touched.
\<close>

theorem status_exchange:
  fixes h :: "('a, 'c, 'd, 'y, 'z) host"
  assumes "concat chunks = framed (packet_bytes handshaking_sb_INTENTION (intention_encode i)) @
      framed (packet_bytes status_sb_STATUS_REQUEST []) @ framed (packet_bytes status_sb_PING_REQUEST (write_i64 n))"
    and "[] \<notin> set chunks" "in_next_state i = NextStatus" "string_fits MAX_ADDRESS_LEN (in_server_address i)"
    and "status_json (h_md5 h) (h_uuid_string h) (h_status_string h) (word_of_nat (registry_count players))
      (sample_names (h_iter h) 12 players) status = (json, status')"
    and "length (packet_bytes status_cb_STATUS_RESPONSE (write_string json)) < MAX_FRAME_LEN"
  shows "handle h (connection_new inflater deflater (map Data chunks :: 'io read_event list) [] addr) players status =
    Some (framed (packet_bytes status_cb_STATUS_RESPONSE (write_string json)) @
        framed (packet_bytes status_cb_PONG_RESPONSE (write_i64 n)), players, status')"
proof -
  let ?s = "task_new (connection_new inflater deflater (map Data chunks) [] addr) (players, status) []
    :: ('a, 'c, 'd, 'y, 'z, 'io) task"
  let ?reply = "packet_bytes status_cb_STATUS_RESPONSE (write_string json)"
  let ?pong = "packet_bytes status_cb_PONG_RESPONSE (write_i64 n)"
  have s: "ctx_players ?s = players" "ctx_status ?s = status" "cn_wire ?s = []"
    by simp_all
  note first = new_task_idle [OF assms(1,2), where inflater = inflater and deflater = deflater and addr = addr
      and ctx = "(players, status)" and others = "[]"]
  show ?thesis
  proof (rule handle_awp, rule awp_run_intention [OF first assms(4)])
    fix t :: "('a, 'c, 'd, 'y, 'z, 'io) task" assume t: "idle None (framed (packet_bytes status_sb_STATUS_REQUEST []) @
      framed (packet_bytes status_sb_PING_REQUEST (write_i64 n))) t" "same_context ?s t" "cn_wire t = cn_wire ?s"
    have "awp (status_phase h) (\<lambda>r s'. r \<noteq> Inl Suspended \<and> cn_wire s' = framed ?reply @ framed ?pong \<and> ctx_players s' = players \<and>
        ctx_status s' = status') t"
    proof (rule awp_status_request [OF t(1) _ _ assms(6)])
      show "ctx_others t = []" using t(2) by (simp add: same_context_def)
    next
      show "status_json (h_md5 h) (h_uuid_string h) (h_status_string h) (word_of_nat (registry_count (ctx_players t)))
          (sample_names (h_iter h) 12 (ctx_players t)) (ctx_status t) = (json, status')"
        using assms(5) t(2) s by (simp add: same_context_def)
    next
      fix u :: "('a, 'c, 'd, 'y, 'z, 'io) task" assume u: "idle None (framed (packet_bytes status_sb_PING_REQUEST (write_i64 n))) u"
        "ctx_players u = ctx_players t" "ctx_status u = status'" "cn_wire u = cn_wire t @ framed ?reply"
      from awp_status_ping [of n "[]" u] u t(2,3) s
      show "awp (status_phase h) (\<lambda>r s'. r \<noteq> Inl Suspended \<and> cn_wire s' = framed ?reply @ framed ?pong \<and> ctx_players s' = players \<and>
          ctx_status s' = status') u" by (simp add: same_context_def)
    qed
    then show "awp (if in_next_state i = NextStatus then status_phase h
       else if \<not> is_supported (in_protocol_version i) then
         attempt (send h login_cb_LOGIN_DISCONNECT (login_disconnect_encode \<lparr>ld_reason_json =
           component_to_json (h_component_string h) (version_mismatch (in_protocol_version i))\<rparr>)) (\<lambda>_.
         afail (UnsupportedVersion (in_protocol_version i) PROTOCOL_VERSION))
       else login_phase h) (\<lambda>r s'. r \<noteq> Inl Suspended \<and> cn_wire s' = framed ?reply @ framed ?pong \<and> ctx_players s' = players \<and>
        ctx_status s' = status') t" using assms(3) by simp
  qed
qed

text \<open>
  C3: a connection lasts as long as its socket makes it last, and no longer. If its script ends, whatever the client sends, in
  whatever pieces, however reading and writing fail, and whatever the other tasks do meanwhile, no loop of any phase runs on: the
  task ends, or it is suspended in a read whose deadline has not passed or in a write whose peer has stopped reading; if neither
  occurs, \<open>handle\<close> returns. What was once written stays. And nothing else bounds it: a client of the
  server list that asks \<open>n\<close> times, for any \<open>n\<close>, is answered \<open>n\<close> times and dropped only when it falls silent.
\<close>

theorem connection_lasts:
  fixes h :: "('a, 'c, 'd, 'y, 'z) host"
  assumes "deflates (h_deflate h) R deflate" "reserves (h_reserve h)"
  shows "(\<exists>r s'. run h (task_new conn ctx others) = Some (r, s') \<and> prefix (cn_wire conn) (cn_wire s') \<and>
      (r = Inl Suspended \<longrightarrow> may_wait conn)) \<and>
    (\<not> may_wait conn \<longrightarrow> (\<exists>wire players' status'. handle h conn players status = Some (wire, players', status') \<and>
      prefix (cn_wire conn) wire)) \<and>
    (concat chunks = framed (packet_bytes handshaking_sb_INTENTION (intention_encode i)) @
        concat (replicate n (framed (packet_bytes status_sb_STATUS_REQUEST []))) \<and>
      [] \<notin> set chunks \<and> in_next_state i = NextStatus \<and> string_fits MAX_ADDRESS_LEN (in_server_address i) \<and>
      status_json (h_md5 h) (h_uuid_string h) (h_status_string h) (word_of_nat (registry_count players))
        (sample_names (h_iter h) 12 players) status = (json, status') \<and>
      length (packet_bytes status_cb_STATUS_RESPONSE (write_string json)) < MAX_FRAME_LEN \<longrightarrow>
      handle h (connection_new inflater deflater (map Data chunks :: 'io read_event list) [] addr) players status =
        Some (concat (replicate n (framed (packet_bytes status_cb_STATUS_RESPONSE (write_string json)))), players,
          if n = 0 then status else status'))"
proof (intro conjI impI)
  have h: "host_ok h" using assms by (auto simp: host_ok_def)
  have w: "may_wait (task_new conn ctx others) = may_wait conn" for ctx others
    by (simp add: may_wait_def task_new_def connection.defs task.defs)
  have runs: "\<exists>r s'. run h (task_new conn ctx others) = Some (r, s') \<and> prefix (cn_wire conn) (cn_wire s') \<and>
      (r = Inl Suspended \<longrightarrow> may_wait conn)" for ctx others
    by (rule run_returns [OF h, of "task_new conn ctx others"]) (auto simp: does_def w)
  then show "\<exists>r s'. run h (task_new conn ctx others) = Some (r, s') \<and> prefix (cn_wire conn) (cn_wire s') \<and>
      (r = Inl Suspended \<longrightarrow> may_wait conn)" .
  assume "\<not> may_wait conn"
  with runs [of "(players, status)" "[]"] show "\<exists>wire players' status'. handle h conn players status = Some (wire, players', status') \<and>
      prefix (cn_wire conn) wire" using handle_run by fast
next
  let ?s = "task_new (connection_new inflater deflater (map Data chunks) [] addr) (players, status) []
    :: ('a, 'c, 'd, 'y, 'z, 'io) task"
  let ?reply = "framed (packet_bytes status_cb_STATUS_RESPONSE (write_string json))"
  assume a: "concat chunks = framed (packet_bytes handshaking_sb_INTENTION (intention_encode i)) @
      concat (replicate n (framed (packet_bytes status_sb_STATUS_REQUEST []))) \<and>
    [] \<notin> set chunks \<and> in_next_state i = NextStatus \<and> string_fits MAX_ADDRESS_LEN (in_server_address i) \<and>
    status_json (h_md5 h) (h_uuid_string h) (h_status_string h) (word_of_nat (registry_count players))
      (sample_names (h_iter h) 12 players) status = (json, status') \<and>
    length (packet_bytes status_cb_STATUS_RESPONSE (write_string json)) < MAX_FRAME_LEN"
  then have i: "string_fits MAX_ADDRESS_LEN (in_server_address i)"
    and first: "idle None (framed (packet_bytes handshaking_sb_INTENTION (intention_encode i)) @
      concat (replicate n (framed (packet_bytes status_sb_STATUS_REQUEST [])))) ?s" by (simp_all add: new_task_idle)
  show "handle h (connection_new inflater deflater (map Data chunks :: 'io read_event list) [] addr) players status =
      Some (concat (replicate n ?reply), players, if n = 0 then status else status')"
  proof (rule handle_awp, rule awp_run_intention [OF first i], subst if_P)
    fix t :: "('a, 'c, 'd, 'y, 'z, 'io) task"
    assume t: "idle None (concat (replicate n (framed (packet_bytes status_sb_STATUS_REQUEST [])))) t" "same_context ?s t"
      "cn_wire t = cn_wire ?s"
    show "awp (status_phase h) (\<lambda>r s'. r \<noteq> Inl Suspended \<and> cn_wire s' = concat (replicate n ?reply) \<and> ctx_players s' = players \<and>
        ctx_status s' = (if n = 0 then status else status')) t"
      by (rule awp_status_requests [OF t(1), where json = json and status' = status']) (use a t in \<open>auto simp: same_context_def\<close>)
  qed (use a in simp)
qed

text \<open>
  C12: a client of another version is told so: whatever follows its login handshake, and however the
  bytes are cut, the server sends exactly one \<open>LoginDisconnect\<close> naming both versions, and admits nobody.
\<close>

theorem wrong_version_refused:
  fixes h :: "('a, 'c, 'd, 'y, 'z) host"
  assumes "concat chunks = framed (packet_bytes handshaking_sb_INTENTION (intention_encode i)) @ rest"
    and "[] \<notin> set chunks" "in_next_state i \<noteq> NextStatus" "string_fits MAX_ADDRESS_LEN (in_server_address i)"
    and "in_protocol_version i \<noteq> 776"
    and "component_to_json (h_component_string h) (version_mismatch (in_protocol_version i)) = json"
    and "length (packet_bytes login_cb_LOGIN_DISCONNECT (write_string json)) < MAX_FRAME_LEN"
  shows "handle h (connection_new inflater deflater (map Data chunks :: 'io read_event list) [] addr) players status =
    Some (framed (packet_bytes login_cb_LOGIN_DISCONNECT (write_string json)), players, status)"
proof -
  let ?s = "task_new (connection_new inflater deflater (map Data chunks) [] addr) (players, status) []
    :: ('a, 'c, 'd, 'y, 'z, 'io) task"
  have s: "ctx_players ?s = players" "ctx_status ?s = status" "cn_wire ?s = []"
    by simp_all
  note first = new_task_idle [OF assms(1,2), where inflater = inflater and deflater = deflater and addr = addr
      and ctx = "(players, status)" and others = "[]"]
  let ?Q = "\<lambda>r s'. r \<noteq> Inl Suspended \<and> cn_wire s' = framed (packet_bytes login_cb_LOGIN_DISCONNECT (write_string json)) \<and>
    ctx_players s' = players \<and> ctx_status s' = status"
  show ?thesis
  proof (rule handle_awp, rule awp_run_intention [OF first assms(4)])
    fix t :: "('a, 'c, 'd, 'y, 'z, 'io) task"
    assume t: "idle None rest t" "same_context ?s t" "cn_wire t = cn_wire ?s"
    have "awp (send h login_cb_LOGIN_DISCONNECT (write_string json)) (\<lambda>r s'. r = Inr () \<and> ?Q (Inr ()) s') t"
      by (rule awp_send_plain [OF t(1) assms(7)]) (use t s in \<open>simp add: same_context_def\<close>)
    then show "awp (if in_next_state i = NextStatus then status_phase h
       else if \<not> is_supported (in_protocol_version i) then
         attempt (send h login_cb_LOGIN_DISCONNECT (login_disconnect_encode \<lparr>ld_reason_json =
           component_to_json (h_component_string h) (version_mismatch (in_protocol_version i))\<rparr>)) (\<lambda>_.
         afail (UnsupportedVersion (in_protocol_version i) PROTOCOL_VERSION))
       else login_phase h) ?Q t"
      using assms(3,5,6)
      by (auto simp: is_supported_def PROTOCOL_VERSION_def awp_attempt awp_resume awp_fun login_disconnect_encode_def
          elim: awp_conseq)
  qed
qed

text \<open>
  C5: a login works end to end as far as the code takes it: to a client of the right version that sends a
  handshake, its name, the acknowledgement and its known packs, cut into any pieces, the server sends the
  compression notice in the clear, if compression is configured, and then, under that compression, frames from
  which any zlib decoder of the client gets exactly the login success, the brand, the known packs and the
  disconnect reason. The player is removed from the registry again.
\<close>

theorem login_exchange:
  fixes h :: "('a, 'c, 'd, 'y, 'z) host" and zly :: "'y2 zlib"
  assumes z: "deflates (h_deflate h) R deflate" "inflates zly S deflate" "reserves (h_reserve h)"
    and k: "compression (h_config h) = k" and offline: "\<not> cfg_online_mode (h_config h)"
    and i: "in_next_state i \<noteq> NextStatus" "string_fits MAX_ADDRESS_LEN (in_server_address i)" "in_protocol_version i = 776"
    and name: "string_fits MAX_USERNAME_LEN (hello_name hello)"
    and fa: "frame_of (h_inflate h) k MAX_FRAME_LEN (packet_bytes login_sb_LOGIN_ACKNOWLEDGED []) fa TYPE(('d, 'y) decoder)"
    and fp: "frame_of (h_inflate h) k MAX_FRAME_LEN (packet_bytes config_sb_SELECT_KNOWN_PACKS
        (select_known_packs_encode packs)) fp TYPE(('d, 'y) decoder)"
    and packs: "packs_fit packs" "length (select_known_packs_encode packs) < 2 ^ 64"
    and chunks: "concat chunks = framed (packet_bytes handshaking_sb_INTENTION (intention_encode i)) @
      framed (packet_bytes login_sb_HELLO (hello_encode hello)) @ fa @ fp @ rest" "[] \<notin> set chunks"
    and uuid: "offline_uuid (h_md5 h) (hello_name hello) = uuid"
    and room: "try_insert \<lparr>pi_uuid = uuid, pi_name = hello_name hello, pi_addr = addr\<rparr>
        (player_limit (h_config h)) players = (Inr (), players')"
    and small: "list_all (sendable deflate k) (login_replies h hello)"
  shows "\<exists>bytes. handle h (connection_new inflater deflater (map Data chunks :: 'io read_event list) [] addr) players status =
      Some (compression_notice k @ bytes, snd (registry_remove uuid players'), status) \<and>
    (\<forall>d :: ('d2, 'y2) decoder. dec_compression d = k \<longrightarrow> dec_max_frame d = MAX_FRAME_LEN \<longrightarrow> dec_buffer d = bytes \<longrightarrow>
      (\<exists>d'. drain zly d = (login_replies h hello, None, d')))"
proof -
  let ?s = "task_new (connection_new inflater deflater (map Data chunks) [] addr) (players, status) []
    :: ('a, 'c, 'd, 'y, 'z, 'io) task"
  let ?client = "TYPE(('d2, 'y2) decoder)"
  have s: "ctx_players ?s = players" "ctx_status ?s = status" "cn_wire ?s = []" "cn_addr ?s = addr"
    by simp_all
  note first = new_task_idle [OF chunks, where inflater = inflater and deflater = deflater and addr = addr
      and ctx = "(players, status)" and others = "[]"]
  let ?Q = "\<lambda>r s'. r \<noteq> Inl Suspended \<and> (\<exists>fs. list_all2 (\<lambda>p f. frame_of zly k MAX_FRAME_LEN p f ?client) (login_replies h hello) fs \<and>
    cn_wire s' = compression_notice k @ concat fs \<and> ctx_players s' = snd (registry_remove uuid players') \<and> ctx_status s' = status)"
  let ?info = "\<lparr>pi_uuid = uuid, pi_name = hello_name hello, pi_addr = addr\<rparr>"
  have "awp (run h) ?Q ?s"
  proof (rule awp_login_run [OF z k offline first i name fa, where client = ?client, unfolded uuid])
    show "sendable deflate k (hd (login_replies h hello))" using small by (simp add: login_replies_def)
  next
    fix t :: "('a, 'c, 'd, 'y, 'z, 'io) task" and f
    assume t: "idle k (fp @ rest) t" "same_context ?s t" "cn_wire t = cn_wire ?s @ compression_notice k @ f"
      "frame_of zly k MAX_FRAME_LEN (hd (login_replies h hello)) f ?client"
    have alone: "ctx_others t = []" "ctx_players t = players" "cn_addr t = addr" "ctx_status t = status"
      using t(2) s by (simp_all add: same_context_def)
    show "awp (login_join h hello uuid) ?Q t"
    proof (rule awp_login_join_exchange [OF z t(1) fp packs _ _ small, where client = ?client])
      show "?info = \<lparr>pi_uuid = uuid, pi_name = hello_name hello, pi_addr = cn_addr t\<rparr>" by (simp add: alone)
      show "try_insert ?info (player_limit (h_config h)) (ctx_players (take_lock (TryInsert ?info) t)) = (Inr (), players')"
        using room by (simp add: take_lock_alone alone)
    next
      fix u :: "('a, 'c, 'd, 'y, 'z, 'io) task" and fs
      assume u: "list_all2 (\<lambda>p f. frame_of zly k MAX_FRAME_LEN p f ?client) (tl (login_replies h hello)) fs"
        "cn_wire u = cn_wire t @ concat fs" "same_context (take_lock (TryInsert ?info) t\<lparr>ctx_players := players'\<rparr>) u"
      have "list_all2 (\<lambda>p f. frame_of zly k MAX_FRAME_LEN p f ?client)
          (hd (login_replies h hello) # tl (login_replies h hello)) (f # fs)"
        using u(1) t(4) by simp
      moreover have "hd (login_replies h hello) # tl (login_replies h hello) = login_replies h hello"
        by (simp add: login_replies_def)
      moreover have "ctx_others u = []" "ctx_players u = players'" "ctx_status u = status"
        using u(3) by (simp_all add: same_context_def take_lock_alone alone)
      ultimately show "?Q (Inl (Rejected (lit ''registry data not loaded''))) (snd (remove_player uuid u))"
        using u(2) t(3) by (intro conjI exI [of _ "f # fs"])
          (simp_all add: remove_player_def Let_def take_lock_alone case_prod_unfold)
    qed
  qed
  then obtain r s' fs where r: "run h ?s = Some (r, s')"
    "r \<noteq> Inl Suspended"
    "list_all2 (\<lambda>p f. frame_of zly k MAX_FRAME_LEN p f ?client) (login_replies h hello) fs"
    "cn_wire s' = compression_notice k @ concat fs" "ctx_players s' = snd (registry_remove uuid players')" "ctx_status s' = status"
    by (auto simp: awp_iff)
  show ?thesis
    using r drain_frames [OF r(3)] by (intro exI [of _ "concat fs"]) (auto simp: handle_run)
qed

section \<open>Witnesses\<close>

lemma length_modified_utf8: "length (write_modified_utf8 s) \<le> 65537"
  using mutf8_fit_spec(1) [of s] by (simp add: write_modified_utf8_eq length_mutf8 write_u16_def)

lemma length_disconnect:
  "length (disconnect_encode \<lparr>dc_reason = with_color (component_text t) c\<rparr>) \<le> 4 * 65537 + 10"
proof -
  have "to_nbt (with_color (component_text t) c) =
      NCompound [(lit ''text'', NString t), (lit ''color'', NString (color_as_str c))]"
    by (simp add: to_nbt_entries entries_def component_text_def opt_entry_def extra_entry_def)
  then show ?thesis
    using length_modified_utf8 [of t] length_modified_utf8 [of "lit ''text''"] length_modified_utf8 [of "lit ''color''"]
      length_modified_utf8 [of "color_as_str c"]
    by (simp add: disconnect_encode_def write_network_def write_u8_def)
qed

lemma length_ascii:
  assumes "list_all (\<lambda>c. c < 0x80) s" "length s \<le> 100"
  shows "length (write_string s) \<le> 305"
  using length_string [OF string_fits_ascii [OF assms]] by simp

lemma small_sendable:
  assumes "length body + 20 \<le> MAX_FRAME_LEN"
  shows "sendable (\<lambda>bs. bs) k (packet_bytes pid body)"
proof -
  have n: "length (packet_bytes pid body) \<le> 5 + length body"
    using length_write_varint_5 [of pid] by (simp add: packet_bytes_def)
  moreover have v: "varint_len w \<le> 5" for w using length_write_varint_5 [of w] by (simp add: varint_len_eq)
  ultimately have "length (packet_bytes pid body) < MAX_FRAME_LEN"
    "varint_len (word_of_nat (length (packet_bytes pid body))) + length (packet_bytes pid body) \<le> MAX_FRAME_LEN"
    using assms v [of "word_of_nat (length (packet_bytes pid body))"] by linarith+
  then show ?thesis by (simp add: sendable_def split: option.split)
qed

text \<open>A client for \<open>sample_host\<close>: its handshake in the two flavours, and the chunks of its bytes.\<close>

definition sample_intention :: "i32 \<Rightarrow> next_state \<Rightarrow> intention" where
  "sample_intention version next = \<lparr>in_protocol_version = version, in_server_address = lit ''localhost'',
     in_server_port = 25565, in_next_state = next\<rparr>"

lemma sample_intention_fits: "string_fits MAX_ADDRESS_LEN (in_server_address (sample_intention version next))"
  by (rule string_fits_ascii) (simp_all add: sample_intention_def lit_def MAX_ADDRESS_LEN_def)

lemma framed_not_Nil: "framed p \<noteq> []"
  using write_leb_nonempty by (simp add: framed_def write_varint_def)

lemma status_exchange_witness:
  "\<exists>status'. handle (sample_host config_default)
     (connection_new () () (map Data [framed (packet_bytes handshaking_sb_INTENTION
         (intention_encode (sample_intention 4 NextStatus))),
       framed (packet_bytes status_sb_STATUS_REQUEST []) @ framed (packet_bytes status_sb_PING_REQUEST (write_i64 7))]
       :: nat read_event list) [] ()) [] (status_cache_new component_default 20) =
   Some (framed (packet_bytes status_cb_STATUS_RESPONSE (write_string (lit ''{}''))) @
     framed (packet_bytes status_cb_PONG_RESPONSE (write_i64 7)), [], status')"
proof -
  let ?h = "sample_host config_default"
  obtain status' where j: "status_json (h_md5 ?h) (h_uuid_string ?h) (h_status_string ?h) (word_of_nat (registry_count ([] :: unit registry)))
      (sample_names (h_iter ?h) 12 []) (status_cache_new component_default 20) = (lit ''{}'', status')"
    by (simp add: sample_host_def status_json_rebuild status_rebuild_def cache_hit_def status_cache_new_def Let_def status_to_json_def)
  have len: "length (packet_bytes status_cb_STATUS_RESPONSE (write_string (lit ''{}''))) < MAX_FRAME_LEN"
    using length_ascii [of "lit ''{}''"] length_write_varint_5 [of status_cb_STATUS_RESPONSE]
    by (simp add: packet_bytes_def MAX_FRAME_LEN_def lit_def)
  show ?thesis
    by (intro exI [of _ status'] status_exchange [where i = "sample_intention 4 NextStatus"] j len sample_intention_fits)
      (simp_all add: framed_not_Nil framed_not_Nil [symmetric] sample_intention_def)
qed

lemma connection_lasts_witness:
  "\<exists>status'. handle (sample_host config_default)
     (connection_new () () (map Data (framed (packet_bytes handshaking_sb_INTENTION (intention_encode (sample_intention 4 NextStatus))) #
         replicate 100 (framed (packet_bytes status_sb_STATUS_REQUEST []))) :: nat read_event list) [] ())
     [] (status_cache_new component_default 20) =
   Some (concat (replicate 100 (framed (packet_bytes status_cb_STATUS_RESPONSE (write_string (lit ''{}''))))), [], status')"
proof -
  let ?h = "sample_host config_default"
  obtain status' where j: "status_json (h_md5 ?h) (h_uuid_string ?h) (h_status_string ?h) (word_of_nat (registry_count ([] :: unit registry)))
      (sample_names (h_iter ?h) 12 []) (status_cache_new component_default 20) = (lit ''{}'', status')"
    by (simp add: sample_host_def status_json_rebuild status_rebuild_def cache_hit_def status_cache_new_def Let_def status_to_json_def)
  have len: "length (packet_bytes status_cb_STATUS_RESPONSE (write_string (lit ''{}''))) < MAX_FRAME_LEN"
    using length_ascii [of "lit ''{}''"] length_write_varint_5 [of status_cb_STATUS_RESPONSE]
    by (simp add: packet_bytes_def MAX_FRAME_LEN_def lit_def)
  have "in_next_state (sample_intention 4 NextStatus) = NextStatus" by (simp add: sample_intention_def)
  moreover have "[] \<notin> set (framed (packet_bytes handshaking_sb_INTENTION (intention_encode (sample_intention 4 NextStatus))) #
      replicate 100 (framed (packet_bytes status_sb_STATUS_REQUEST [])))"
    by (simp add: framed_not_Nil framed_not_Nil [symmetric])
  ultimately show ?thesis
    using connection_lasts [OF sample_host_ok(1,2) [of config_default], THEN conjunct2, THEN conjunct2, rule_format, where
      chunks = "framed (packet_bytes handshaking_sb_INTENTION (intention_encode (sample_intention 4 NextStatus))) #
        replicate 100 (framed (packet_bytes status_sb_STATUS_REQUEST []))" and i = "sample_intention 4 NextStatus" and n = 100
      and players = "[]" and status = "status_cache_new component_default 20" and json = "lit ''{}''" and status' = status'
      and addr = "()"] j len sample_intention_fits
    by (intro exI [of _ status']) simp
qed

lemma wrong_version_refused_witness:
  "handle (sample_host config_default)
     (connection_new () () (map Data [framed (packet_bytes handshaking_sb_INTENTION
         (intention_encode (sample_intention 47 NextLogin))), [1, 2, 3]] :: nat read_event list) [] ())
     [] (status_cache_new component_default 20) =
   Some (framed (packet_bytes login_cb_LOGIN_DISCONNECT (write_string (lit ''{\"text\":\"\"}''))), [],
     status_cache_new component_default 20)"
proof -
  let ?json = "lit ''{\"text\":\"\"}''"
  have len: "length (packet_bytes login_cb_LOGIN_DISCONNECT (write_string ?json)) < MAX_FRAME_LEN"
    using length_ascii [of ?json] length_write_varint_5 [of login_cb_LOGIN_DISCONNECT]
    by (simp add: packet_bytes_def MAX_FRAME_LEN_def lit_def)
  show ?thesis
    by (rule wrong_version_refused [where i = "sample_intention 47 NextLogin" and rest = "[1, 2, 3]"])
      (use len in \<open>simp_all add: framed_not_Nil framed_not_Nil [symmetric] sample_intention_fits [unfolded sample_intention_def, simplified] sample_intention_def
        component_to_json_def sample_host_def\<close>)
qed

text \<open>A packet below the compression threshold, on a compressed connection.\<close>

definition framed_below :: "bytes \<Rightarrow> bytes" where
  "framed_below p = write_varint (word_of_nat (1 + length p)) @ write_varint 0 @ p"

lemma vanilla_packs:
  "packs_fit known_packs_vanilla" "length (select_known_packs_encode known_packs_vanilla) \<le> 1000"
proof -
  have f: "string_fits n (lit ''minecraft'')" "string_fits n (lit ''core'')" "string_fits n MINECRAFT_VERSION"
    if "15 \<le> n" "n < 2 ^ 31" for n
    using that by (auto intro!: string_fits_ascii simp: lit_def MINECRAFT_VERSION_def)
  from f [of DEFAULT_MAX_STRING_LEN] show "packs_fit known_packs_vanilla"
    by (simp add: packs_fit_def pack_fits_def known_packs_vanilla_def MAX_KNOWN_PACKS_def DEFAULT_MAX_STRING_LEN_def)
  show "length (select_known_packs_encode known_packs_vanilla) \<le> 1000"
    using length_ascii [of "lit ''minecraft''"] length_ascii [of "lit ''core''"] length_ascii [of MINECRAFT_VERSION]
      length_write_varint_5 [of 1]
    by (simp add: select_known_packs_encode_def known_pack_encode_def known_packs_vanilla_def lit_def MINECRAFT_VERSION_def)
qed

definition sample_hello :: hello where
  "sample_hello = \<lparr>hello_name = [0x41], hello_profile_id = 0\<rparr>"

lemma sample_replies_small: "list_all (sendable (\<lambda>bs. bs) k) (login_replies (sample_host config_default) sample_hello)"
proof -
  have 1: "length (login_finished_encode (login_finished_new u [0x41] flag)) \<le> 1000" for u flag
    using length_ascii [of "[0x41]"] length_write_varint_5 [of 0]
    by (simp add: login_finished_encode_def login_finished_new_def write_uuid_def write_bool_def split: option.split)
  have 2: "length (plugin_message_encode (brand_message SERVER_BRAND)) \<le> 1000"
    using length_ascii [of "lit ''minecraft:brand''"] length_ascii [of SERVER_BRAND]
    by (simp add: plugin_message_encode_def brand_message_def write_identifier_def write_bytes_def SERVER_BRAND_def lit_def)
  have a: "sendable (\<lambda>bs. bs) k (packet_bytes pid body)" if "length body \<le> 4 * 65537 + 10" for pid body
    using that by (intro small_sendable) (simp add: MAX_FRAME_LEN_def)
  show ?thesis
    using a [OF le_trans [OF 1]] a [OF le_trans [OF 2]] a [OF le_trans [OF vanilla_packs(2)]] a [OF length_disconnect]
    by (simp add: login_replies_def sample_hello_def)
qed

lemma login_exchange_witness:
  "\<exists>bytes. handle (sample_host config_default) (connection_new () () (map Data
      [framed (packet_bytes handshaking_sb_INTENTION (intention_encode (sample_intention 776 NextLogin))),
       framed (packet_bytes login_sb_HELLO (hello_encode sample_hello)) @
         framed_below (packet_bytes login_sb_LOGIN_ACKNOWLEDGED []) @
         framed_below (packet_bytes config_sb_SELECT_KNOWN_PACKS (select_known_packs_encode known_packs_vanilla)) @ [1]]
       :: nat read_event list) [] ()) [] (status_cache_new component_default 20) =
     Some (compression_notice (Some 256) @ bytes, [], status_cache_new component_default 20) \<and>
   (\<forall>d :: (u8, unit) decoder. dec_compression d = Some 256 \<longrightarrow> dec_max_frame d = MAX_FRAME_LEN \<longrightarrow> dec_buffer d = bytes \<longrightarrow>
     (\<exists>d'. drain stored d = (login_replies (sample_host config_default) sample_hello, None, d')))"
proof -
  let ?h = "sample_host config_default"
  have k: "compression (h_config ?h) = Some 256" "\<not> cfg_online_mode (h_config ?h)"
    by (simp_all add: sample_host_def compression_def config_default_def word_sless_alt)
  have frame: "frame_of (h_inflate ?h) (Some 256) MAX_FRAME_LEN p (framed_below p) d" if "length p < 2000"
    for p and d :: "(u8, unit) decoder itself"
    using that unfolding framed_below_def by (intro frame_below) (simp_all add: MAX_FRAME_LEN_def)
  have ack: "length (packet_bytes login_sb_LOGIN_ACKNOWLEDGED []) < 2000"
    "length (packet_bytes config_sb_SELECT_KNOWN_PACKS (select_known_packs_encode known_packs_vanilla)) < 2000"
    using vanilla_packs(2) length_write_varint_5 [of login_sb_LOGIN_ACKNOWLEDGED]
      length_write_varint_5 [of config_sb_SELECT_KNOWN_PACKS] by (simp_all add: packet_bytes_def)
  have name: "string_fits MAX_USERNAME_LEN (hello_name sample_hello)"
    by (rule string_fits_ascii) (simp_all add: sample_hello_def MAX_USERNAME_LEN_def)
  let ?uuid = "offline_uuid (h_md5 ?h) (hello_name sample_hello)"
  let ?info = "\<lparr>pi_uuid = ?uuid, pi_name = hello_name sample_hello, pi_addr = ()\<rparr>"
  have room: "try_insert ?info (player_limit (h_config ?h)) [] = (Inr (), [(?uuid, ?info)])"
    by (simp add: try_insert_def player_limit_def sample_host_def config_default_def word_sless_alt)
  have gone: "snd (registry_remove ?uuid [(?uuid, ?info)]) = []" by (simp add: registry_remove_def)
  show ?thesis
    by (rule login_exchange [OF sample_host_ok(1) stored_inflates sample_host_ok(2) k _ sample_intention_fits _ name frame [OF ack(1)] frame [OF ack(2)]
          vanilla_packs(1) _ _ _ refl room sample_replies_small, where rest = "[1]", unfolded gone])
      (use vanilla_packs(2) in \<open>simp_all add: sample_intention_def framed_not_Nil framed_not_Nil [symmetric]\<close>)
qed

end
