(* ===== verification/Refusals.thy ===== *)
theory Refusals
  imports Exchange
begin

text \<open>
  The refusals of \<open>login_phase\<close> (\<open>crates/rukkit-server/src/connection.rs\<close>) from the first byte of the client to
  the last of the server: a server in online mode, a full server, and a name that is taken.
\<close>

section \<open>Refused by the registry\<close>

text \<open>The packets a refused client gets once compression is settled.\<close>

definition refusal_replies :: "('a, 'c, 'd, 'y, 'z) host \<Rightarrow> hello \<Rightarrow> join_error \<Rightarrow> bytes list" where
  "refusal_replies h hello why =
     [hd (login_replies h hello),
      packet_bytes config_cb_DISCONNECT (disconnect_encode \<lparr>dc_reason = join_error_reason why\<rparr>)]"

lemma awp_login_join_refused:
  fixes s :: "('a, 'c, 'd, 'y, 'z, 'io) task" and client :: "('d2, 'y2) decoder itself"
  assumes z: "deflates (h_deflate h) R deflate" "inflates zly S deflate" "reserves (h_reserve h)"
    and s: "idle k rest s"
    and info: "info = \<lparr>pi_uuid = uuid, pi_name = hello_name hello, pi_addr = cn_addr s\<rparr>"
    and ins: "try_insert info (player_limit (h_config h)) (ctx_players (take_lock (TryInsert info) s)) = (Inl why, players')"
    and small: "sendable deflate k (packet_bytes config_cb_DISCONNECT (disconnect_encode \<lparr>dc_reason = join_error_reason why\<rparr>))"
    and Q: "\<And>t f. frame_of zly k MAX_FRAME_LEN
        (packet_bytes config_cb_DISCONNECT (disconnect_encode \<lparr>dc_reason = join_error_reason why\<rparr>)) f client \<Longrightarrow>
      cn_wire t = cn_wire s @ f \<Longrightarrow> same_context (take_lock (TryInsert info) s) t \<Longrightarrow>
      Q (Inl (Rejected (join_error_text why))) t"
  shows "awp (login_join h hello uuid) Q s"
proof -
  let ?s = "take_lock (TryInsert info) s"
  have "players' = ctx_players ?s" using try_insert_Inl [OF ins] .
  then have a: "admit_player \<lparr>pi_uuid = uuid, pi_name = hello_name hello, pi_addr = cn_addr s\<rparr> (player_limit (h_config h)) s =
      (Inl why, ?s)" by (simp add: admit_player_def Let_def ins [unfolded info] info)
  have s1: "idle k rest ?s" using s by (simp add: idle_def)
  have "awp (abind (send h config_cb_DISCONNECT (disconnect_encode \<lparr>dc_reason = join_error_reason why\<rparr>)) (\<lambda>_.
      afail (Rejected (join_error_text why)))) Q ?s"
    by (rule awp_send_bind_frame [OF z s1 small, where client = client]) (simp add: awp_blocks(2) Q)
  then show ?thesis
    unfolding login_join_def Let_def by (simp add: awp_fun connection_addr_def a)
qed

section \<open>Properties\<close>

text \<open>
  C9: a client that logs in under a name that is taken, or on a full server, is told so and nothing else: after the
  compression notice, any zlib decoder of the client gets exactly the login success and the disconnect that
  names the reason, and the registry is as it was.
\<close>

theorem login_refused:
  fixes h :: "('a, 'c, 'd, 'y, 'z) host" and zly :: "'y2 zlib"
  assumes z: "deflates (h_deflate h) R deflate" "inflates zly S deflate" "reserves (h_reserve h)"
    and k: "compression (h_config h) = k" and offline: "\<not> cfg_online_mode (h_config h)"
    and i: "in_next_state i \<noteq> NextStatus" "string_fits MAX_ADDRESS_LEN (in_server_address i)" "in_protocol_version i = 776"
    and name: "string_fits MAX_USERNAME_LEN (hello_name hello)"
    and fa: "frame_of (h_inflate h) k MAX_FRAME_LEN (packet_bytes login_sb_LOGIN_ACKNOWLEDGED []) fa TYPE(('d, 'y) decoder)"
    and chunks: "concat chunks = framed (packet_bytes handshaking_sb_INTENTION (intention_encode i)) @
      framed (packet_bytes login_sb_HELLO (hello_encode hello)) @ fa @ rest" "[] \<notin> set chunks"
    and full: "player_limit (h_config h) \<le> length players \<and> why = Full \<or>
      length players < player_limit (h_config h) \<and> contains_name (hello_name hello) players \<and> why = NameTaken"
    and small: "list_all (sendable deflate k) (refusal_replies h hello why)"
  shows "\<exists>bytes. handle h (connection_new inflater deflater (map Data chunks :: 'io read_event list) [] addr) players status =
      Some (compression_notice k @ bytes, players, status) \<and>
    (\<forall>d :: ('d2, 'y2) decoder. dec_compression d = k \<longrightarrow> dec_max_frame d = MAX_FRAME_LEN \<longrightarrow> dec_buffer d = bytes \<longrightarrow>
      (\<exists>d'. drain zly d = (refusal_replies h hello why, None, d')))"
proof -
  let ?uuid = "offline_uuid (h_md5 h) (hello_name hello)"
  let ?s = "task_new (connection_new inflater deflater (map Data chunks) [] addr) (players, status) []
    :: ('a, 'c, 'd, 'y, 'z, 'io) task"
  let ?client = "TYPE(('d2, 'y2) decoder)"
  note first = new_task_idle [OF chunks, where inflater = inflater and deflater = deflater and addr = addr
      and ctx = "(players, status)" and others = "[]"]
  let ?Q = "\<lambda>r s'. r \<noteq> Inl Suspended \<and> (\<exists>fs. list_all2 (\<lambda>p f. frame_of zly k MAX_FRAME_LEN p f ?client) (refusal_replies h hello why) fs \<and>
    cn_wire s' = compression_notice k @ concat fs \<and> ctx_players s' = players \<and> ctx_status s' = status)"
  let ?info = "\<lparr>pi_uuid = ?uuid, pi_name = hello_name hello, pi_addr = addr\<rparr>"
  have ins: "try_insert ?info (player_limit (h_config h)) players = (Inl why, players)"
    using full by (auto simp: try_insert_def contains_name_def)
  have sm: "sendable deflate k (hd (login_replies h hello))"
    "sendable deflate k (packet_bytes config_cb_DISCONNECT (disconnect_encode \<lparr>dc_reason = join_error_reason why\<rparr>))"
    using small by (simp_all add: refusal_replies_def)
  have "awp (run h) ?Q ?s"
  proof (rule awp_login_run [OF z k offline first i name fa sm(1), where client = ?client])
    fix t :: "('a, 'c, 'd, 'y, 'z, 'io) task" and f
    assume t: "idle k rest t" "same_context ?s t" "cn_wire t = cn_wire ?s @ compression_notice k @ f"
      "frame_of zly k MAX_FRAME_LEN (hd (login_replies h hello)) f ?client"
    have alone: "ctx_others t = []" "ctx_players t = players" "cn_addr t = addr" "ctx_status t = status"
      using t(2) by (simp_all add: same_context_def)
    show "awp (login_join h hello ?uuid) ?Q t"
      by (rule awp_login_join_refused [OF z t(1) _ _ sm(2), where client = ?client and info = ?info and players' = players])
        (use t ins in \<open>auto simp: alone take_lock_alone same_context_def refusal_replies_def intro: exI [of _ "[f, g]" for g]\<close>)
  qed
  then obtain r s' fs where r: "run h ?s = Some (r, s')"
    "r \<noteq> Inl Suspended"
    "list_all2 (\<lambda>p f. frame_of zly k MAX_FRAME_LEN p f ?client) (refusal_replies h hello why) fs"
    "cn_wire s' = compression_notice k @ concat fs" "ctx_players s' = players" "ctx_status s' = status"
    by (auto simp: awp_iff)
  show ?thesis
    using r drain_frames [OF r(3)] by (intro exI [of _ "concat fs"]) (auto simp: handle_run)
qed

text \<open>
  C13: a server in online mode refuses every login in the clear, before it settles compression or looks at the
  registry: a client of the right version that sends its name gets exactly one \<open>LoginDisconnect\<close>.
\<close>

theorem online_mode_refused:
  fixes h :: "('a, 'c, 'd, 'y, 'z) host"
  assumes online: "cfg_online_mode (h_config h)"
    and i: "in_next_state i \<noteq> NextStatus" "string_fits MAX_ADDRESS_LEN (in_server_address i)" "in_protocol_version i = 776"
    and name: "string_fits MAX_USERNAME_LEN (hello_name hello)"
    and chunks: "concat chunks = framed (packet_bytes handshaking_sb_INTENTION (intention_encode i)) @
      framed (packet_bytes login_sb_HELLO (hello_encode hello)) @ rest" "[] \<notin> set chunks"
    and json: "component_to_json (h_component_string h) (with_color (component_text ONLINE_MODE) Red) = json"
    and len: "length (packet_bytes login_cb_LOGIN_DISCONNECT (write_string json)) < MAX_FRAME_LEN"
  shows "handle h (connection_new inflater deflater (map Data chunks :: 'io read_event list) [] addr) players status =
    Some (framed (packet_bytes login_cb_LOGIN_DISCONNECT (write_string json)), players, status)"
proof -
  let ?s = "task_new (connection_new inflater deflater (map Data chunks) [] addr) (players, status) []
    :: ('a, 'c, 'd, 'y, 'z, 'io) task"
  note first = new_task_idle [OF chunks, where inflater = inflater and deflater = deflater and addr = addr
      and ctx = "(players, status)" and others = "[]"]
  let ?Q = "\<lambda>r s'. r \<noteq> Inl Suspended \<and> cn_wire s' = framed (packet_bytes login_cb_LOGIN_DISCONNECT (write_string json)) \<and>
    ctx_players s' = players \<and> ctx_status s' = status"
  show ?thesis
  proof (rule handle_awp, rule awp_run_intention [OF first i(2)])
    fix t :: "('a, 'c, 'd, 'y, 'z, 'io) task"
    assume t: "idle None (framed (packet_bytes login_sb_HELLO (hello_encode hello)) @ rest) t" "same_context ?s t"
      "cn_wire t = cn_wire ?s"
    have "awp (login_phase h) ?Q t"
      unfolding login_phase_def Let_def
    proof (rule awp_receive [OF t(1) hello_frame(1) [OF name]], rule awp_lift_Inr [OF split_packet_bytes], rule awp_split,
        rule awp_if_False, simp, rule awp_lift_Inr [OF hello_frame(2) [OF name]], rule awp_if_True [OF online])
      fix u :: "('a, 'c, 'd, 'y, 'z, 'io) task"
      assume u: "idle None rest u" "same_context t u" "cn_wire u = cn_wire t"
      have "awp (abind (send h login_cb_LOGIN_DISCONNECT (write_string json)) (\<lambda>_.
          afail (Rejected (lit ''online mode is not implemented'')))) ?Q u"
        unfolding awp_abind by (rule awp_send_plain [OF u(1) len]) (use t u in \<open>simp add: awp_fun same_context_def\<close>)
      then show "awp (abind (send h login_cb_LOGIN_DISCONNECT (login_disconnect_encode \<lparr>ld_reason_json =
          component_to_json (h_component_string h) (with_color (component_text ONLINE_MODE) Red)\<rparr>)) (\<lambda>_.
          afail (Rejected (lit ''online mode is not implemented'')))) ?Q u"
        by (simp add: login_disconnect_encode_def json)
    qed
    then show "awp (if in_next_state i = NextStatus then status_phase h
       else if \<not> is_supported (in_protocol_version i) then
         attempt (send h login_cb_LOGIN_DISCONNECT (login_disconnect_encode \<lparr>ld_reason_json =
           component_to_json (h_component_string h) (version_mismatch (in_protocol_version i))\<rparr>)) (\<lambda>_.
         afail (UnsupportedVersion (in_protocol_version i) PROTOCOL_VERSION))
       else login_phase h) ?Q t"
      using i(1,3) by (simp add: is_supported_def PROTOCOL_VERSION_def)
  qed
qed

section \<open>Witnesses\<close>

text \<open>The handshake, the name and the acknowledgement of \<open>sample_hello\<close>, in two pieces.\<close>

definition login_chunks :: "bytes list" where
  "login_chunks = [framed (packet_bytes handshaking_sb_INTENTION (intention_encode (sample_intention 776 NextLogin))),
     framed (packet_bytes login_sb_HELLO (hello_encode sample_hello)) @
       framed_below (packet_bytes login_sb_LOGIN_ACKNOWLEDGED []) @ [1, 2]]"

definition taken_player :: "unit player_info" where
  "taken_player = \<lparr>pi_uuid = 5, pi_name = [0x41], pi_addr = ()\<rparr>"

lemma sample_refusal_small: "list_all (sendable (\<lambda>bs. bs) k) (refusal_replies (sample_host config_default) sample_hello NameTaken)"
proof -
  have "length (disconnect_encode \<lparr>dc_reason = join_error_reason NameTaken\<rparr>) \<le> 4 * 65537 + 10"
    unfolding join_error_reason.simps by (rule length_disconnect)
  then have "sendable (\<lambda>bs. bs) k (packet_bytes config_cb_DISCONNECT (disconnect_encode \<lparr>dc_reason = join_error_reason NameTaken\<rparr>))"
    by (intro small_sendable) (simp add: MAX_FRAME_LEN_def del: join_error_reason.simps)
  with sample_replies_small show ?thesis by (simp add: refusal_replies_def login_replies_def)
qed

lemma login_refused_witness:
  "\<exists>bytes. handle (sample_host config_default) (connection_new () () (map Data login_chunks :: nat read_event list) [] ())
      [(5, taken_player)] (status_cache_new component_default 20) =
    Some (compression_notice (Some 256) @ bytes, [(5, taken_player)], status_cache_new component_default 20) \<and>
   (\<forall>d :: (u8, unit) decoder. dec_compression d = Some 256 \<longrightarrow> dec_max_frame d = MAX_FRAME_LEN \<longrightarrow> dec_buffer d = bytes \<longrightarrow>
     (\<exists>d'. drain stored d = (refusal_replies (sample_host config_default) sample_hello NameTaken, None, d')))"
proof -
  let ?h = "sample_host config_default"
  have k: "compression (h_config ?h) = Some 256" "\<not> cfg_online_mode (h_config ?h)" "player_limit (h_config ?h) = 20"
    by (simp_all add: sample_host_def compression_def config_default_def player_limit_def word_sless_alt)
  have "length (packet_bytes login_sb_LOGIN_ACKNOWLEDGED []) < 2000"
    using length_write_varint_5 [of login_sb_LOGIN_ACKNOWLEDGED] by (simp add: packet_bytes_def)
  then have frame: "frame_of (h_inflate ?h) (Some 256) MAX_FRAME_LEN (packet_bytes login_sb_LOGIN_ACKNOWLEDGED [])
      (framed_below (packet_bytes login_sb_LOGIN_ACKNOWLEDGED [])) d" for d :: "(u8, unit) decoder itself"
    unfolding framed_below_def
    by (intro frame_below) (use packet_bytes_not_Nil in \<open>simp_all add: MAX_FRAME_LEN_def\<close>)
  have name: "string_fits MAX_USERNAME_LEN (hello_name sample_hello)"
    by (rule string_fits_ascii) (simp_all add: sample_hello_def MAX_USERNAME_LEN_def)
  show ?thesis
    by (rule login_refused [OF sample_host_ok(1) stored_inflates sample_host_ok(2) k(1,2) _ sample_intention_fits _ name frame
          _ _ _ sample_refusal_small, where rest = "[1, 2]"])
      (simp_all add: login_chunks_def sample_intention_def framed_not_Nil framed_not_Nil [symmetric] k(3) contains_name_def
        taken_player_def sample_hello_def)
qed

lemma online_mode_refused_witness:
  "handle (sample_host (config_default\<lparr>cfg_online_mode := True\<rparr>))
      (connection_new () () (map Data login_chunks :: nat read_event list) [] ()) [] (status_cache_new component_default 20) =
    Some (framed (packet_bytes login_cb_LOGIN_DISCONNECT (write_string (lit ''{\"text\":\"\"}''))), [],
      status_cache_new component_default 20)"
proof -
  let ?json = "lit ''{\"text\":\"\"}''"
  have len: "length (packet_bytes login_cb_LOGIN_DISCONNECT (write_string ?json)) < MAX_FRAME_LEN"
    using length_ascii [of ?json] length_write_varint_5 [of login_cb_LOGIN_DISCONNECT]
    by (simp add: packet_bytes_def MAX_FRAME_LEN_def lit_def)
  have name: "string_fits MAX_USERNAME_LEN (hello_name sample_hello)"
    by (rule string_fits_ascii) (simp_all add: sample_hello_def MAX_USERNAME_LEN_def)
  show ?thesis
    by (rule online_mode_refused [where i = "sample_intention 776 NextLogin" and hello = sample_hello
          and rest = "framed_below (packet_bytes login_sb_LOGIN_ACKNOWLEDGED []) @ [1, 2]"])
      (use len name in \<open>simp_all add: login_chunks_def framed_not_Nil framed_not_Nil [symmetric] sample_intention_fits
        [unfolded sample_intention_def, simplified] sample_intention_def component_to_json_def sample_host_def\<close>)
qed

end
