(* ===== verification/Interleaving.thy ===== *)
theory Interleaving
  imports Refusals
begin

text \<open>
  The tasks of the server side by side (\<open>Server::run\<close> spawns one per connection). They meet only where they take the
  locks of \<open>PlayerRegistry\<close> and \<open>StatusCache\<close>, so a run of the whole server is a sequence of accesses, each made by one
  of the tasks on the state the previous one left. A task sees the others through \<open>ctx_others\<close>: for every such sequence
  there is a script under which each task, run on its own by \<open>run\<close>, makes exactly its part of it.
\<close>

section \<open>Histories\<close>

text \<open>An access, the task that made it, and the state it found.\<close>

type_synonym 'a history = "(nat \<times> 'a access \<times> 'a shared) list"

definition part_of :: "nat \<Rightarrow> 'a history \<Rightarrow> 'a trail" where
  "part_of t history = map snd (filter (\<lambda>e. fst e = t) history)"

lemma part_of_simps [simp]:
  "part_of t [] = []"
  "part_of t (history @ [(u, e)]) = (if u = t then part_of t history @ [e] else part_of t history)"
  by (simp_all add: part_of_def)

text \<open>The name under which a task is in the registry after the accesses \<open>trail\<close>.\<close>

fun joined_as :: "('a, 'c, 'd, 'y, 'z) host \<Rightarrow> rstring option \<Rightarrow> 'a trail \<Rightarrow> rstring option" where
  "joined_as h name [] = name"
| "joined_as h name ((op, found) # trail) = joined_as h
     (case op of
        TryInsert info \<Rightarrow> (case admission h info found of Inr _ \<Rightarrow> Some (pi_name info) | Inl _ \<Rightarrow> name)
      | Remove _ \<Rightarrow> None
      | _ \<Rightarrow> name) trail"

lemma joined_as_append: "joined_as h name (xs @ ys) = joined_as h (joined_as h name xs) ys"
  by (induction h name xs rule: joined_as.induct) simp_all

text \<open>The names that logged in, or tried to.\<close>

definition names_in :: "'a history \<Rightarrow> rstring set" where
  "names_in history = (\<Union>(t, op, found) \<in> set history. case op of TryInsert info \<Rightarrow> {pi_name info} | _ \<Rightarrow> {})"

text \<open>What may come next in the accesses of one connection.\<close>

lemma session_log_reads:
  "list_all (reading \<circ> fst) trail \<Longrightarrow> joined_as h name trail = name"
proof (induction trail)
  case (Cons e trail)
  then show ?case by (cases e; cases "fst e") auto
qed simp

lemma session_log_next:
  assumes "session_log h (xs @ (op, found) # ys)"
  shows "(case op of
      TryInsert info \<Rightarrow> offline_info h info \<and> joined_as h None xs = None
    | Remove uuid \<Rightarrow> (\<exists>name. joined_as h None xs = Some name \<and> uuid = offline_uuid (h_md5 h) name)
    | _ \<Rightarrow> True)"
  using assms
proof cases
  case watched
  then show ?thesis by (cases op) auto
next
  case (refused info found' why)
  then show ?thesis by (cases xs) auto
next
  case (served info found1 found2)
  then consider "xs = []" "op = TryInsert info" | "xs = [(TryInsert info, found1)]" "op = Remove (pi_uuid info)"
    by (cases xs; cases "tl xs") auto
  then show ?thesis using served by cases (auto simp: offline_info_def)
qed

lemma session_log_end: "session_log h trail \<Longrightarrow> joined_as h None trail = None"
  by (induction rule: session_log.induct) (auto simp: session_log_reads)

section \<open>From histories to sessions\<close>

definition sessions_after :: "('a, 'c, 'd, 'y, 'z) host \<Rightarrow> 'a history \<Rightarrow> 'a shared \<Rightarrow> 'a sessions" where
  "sessions_after h history ctx =
     \<lparr>sn_players = fst ctx, sn_joined = (\<lambda>t. joined_as h None (part_of t history))\<rparr>"

lemma sessions_after_snoc:
  "sessions_after h (history @ [(t, op, found)]) ctx =
     \<lparr>sn_players = fst ctx, sn_joined = (\<lambda>u. joined_as h None (part_of u history))
       (t := joined_as h None (part_of t history @ [(op, found)]))\<rparr>"
  by (auto simp: sessions_after_def fun_eq_iff)

lemma history_step:
  assumes ctx'_def: "ctx' = perform h op ctx"
    and more: "\<exists>rest. session_log h (part_of t history @ (op, ctx) # rest)"
    and names: "names_in (history @ [(t, op, ctx)]) \<subseteq> names"
  shows "(session_step (h_md5 h) names (player_limit (h_config h)))\<^sup>=\<^sup>=
    (sessions_after h history ctx) (sessions_after h (history @ [(t, op, ctx)]) ctx')"
proof -
  let ?step = "session_step (h_md5 h) names (player_limit (h_config h))"
  let ?S = "sessions_after h history ctx"
  let ?joined = "\<lambda>u. joined_as h None (part_of u history)"
  obtain players status where c: "ctx = (players, status)" by fastforce
  from more session_log_next obtain next_ok: "(case op of
      TryInsert info \<Rightarrow> offline_info h info \<and> ?joined t = None
    | Remove uuid \<Rightarrow> (\<exists>name. ?joined t = Some name \<and> uuid = offline_uuid (h_md5 h) name)
    | _ \<Rightarrow> True)" by blast
  have stays: "sessions_after h (history @ [(t, op, ctx)]) ctx' = ?S"
    if "joined_as h (?joined t) [(op, ctx)] = ?joined t" "fst ctx' = fst ctx"
    unfolding sessions_after_snoc joined_as_append using that by (simp add: sessions_after_def fun_upd_idem)
  show ?thesis
  proof (cases op)
    case (TryInsert info)
    then have i: "offline_info h info" "?joined t = None" "pi_name info \<in> names"
      using next_ok names by (auto simp: names_in_def)
    then have info: "info = \<lparr>pi_uuid = offline_uuid (h_md5 h) (pi_name info), pi_name = pi_name info, pi_addr = pi_addr info\<rparr>"
      by (simp add: offline_info_def)
    obtain r after where r: "try_insert info (player_limit (h_config h)) players = (r, after)" by fastforce
    have ctx': "ctx' = (after, status)" by (simp add: ctx'_def TryInsert c r)
    have adm: "admission h info ctx = r" by (simp add: admission_def c r)
    show ?thesis
    proof (cases r)
      case (Inl why)
      have "?step ?S (?S\<lparr>sn_players := after\<rparr>)"
        by (rule session_step.refuse [where t = t and name = "pi_name info" and addr = "pi_addr info" and why = why])
          (use i info r Inl c in \<open>simp_all add: sessions_after_def\<close>)
      moreover have "?S\<lparr>sn_players := after\<rparr> = sessions_after h (history @ [(t, op, ctx)]) ctx'"
        unfolding sessions_after_snoc using i adm Inl
        by (simp add: TryInsert ctx' joined_as_append sessions_after_def fun_upd_idem)
      ultimately show ?thesis by simp
    next
      case (Inr u)
      have "?step ?S (?S\<lparr>sn_players := after, sn_joined := (sn_joined ?S)(t \<mapsto> pi_name info)\<rparr>)"
        by (rule session_step.admit [where addr = "pi_addr info"]) (use i info r Inr c in \<open>simp_all add: sessions_after_def\<close>)
      moreover have "?S\<lparr>sn_players := after, sn_joined := (sn_joined ?S)(t \<mapsto> pi_name info)\<rparr> =
          sessions_after h (history @ [(t, op, ctx)]) ctx'"
        unfolding sessions_after_snoc using i adm Inr
        by (simp add: TryInsert ctx' joined_as_append sessions_after_def)
      ultimately show ?thesis by simp
    qed
  next
    case (Remove uuid)
    then obtain name where n: "?joined t = Some name" "uuid = offline_uuid (h_md5 h) name" using next_ok by auto
    obtain gone after where r: "registry_remove uuid players = (gone, after)" by fastforce
    have "?step ?S (?S\<lparr>sn_players := after, sn_joined := (sn_joined ?S)(t := None)\<rparr>)"
      by (rule session_step.leave [where name = name and gone = gone]) (use n r c in \<open>simp_all add: sessions_after_def\<close>)
    moreover have "?S\<lparr>sn_players := after, sn_joined := (sn_joined ?S)(t := None)\<rparr> =
        sessions_after h (history @ [(t, op, ctx)]) ctx'"
      unfolding sessions_after_snoc using r c
      by (simp add: Remove ctx'_def joined_as_append sessions_after_def)
    ultimately show ?thesis by simp
  qed (insert stays, simp_all add: ctx'_def c)
qed

lemma history_sessions:
  assumes "\<And>t. \<exists>rest. session_log h (part_of t history @ rest)" "names_in history \<subseteq> names"
    and "executes h (registry_new, status) (map snd history) ctx"
  shows "session_reachable (h_md5 h) names (player_limit (h_config h)) (sessions_after h history ctx)"
  using assms
proof (induction history arbitrary: ctx rule: rev_induct)
  case Nil
  then show ?case using session_reachable.start by (simp add: sessions_after_def)
next
  case (snoc e history)
  obtain t op found where e: "e = (t, op, found)" by (cases e)
  obtain mid where m: "executes h (registry_new, status) (map snd history) mid" "found = mid" "ctx = perform h op mid"
    using snoc.prems(3) by (auto simp: e executes_append simp del: perform.simps)
  have "\<exists>rest. session_log h (part_of u history @ rest)" for u
    using snoc.prems(1) [of u] by (auto simp: e split: if_splits)
  moreover have "names_in history \<subseteq> names" using snoc.prems(2) by (auto simp: names_in_def)
  ultimately have "session_reachable (h_md5 h) names (player_limit (h_config h)) (sessions_after h history mid)"
    using m(1) by (rule snoc.IH)
  moreover have "\<exists>rest. session_log h (part_of t history @ (op, mid) # rest)"
    using snoc.prems(1) [of t] by (simp add: e m(2))
  from history_step [OF m(3) this] snoc.prems(2) have "(session_step (h_md5 h) names (player_limit (h_config h)))\<^sup>=\<^sup>=
      (sessions_after h history mid) (sessions_after h (history @ [e]) ctx)" by (simp add: e m)
  ultimately show ?case by (auto intro: session_reachable.step)
qed

section \<open>The status cache\<close>

text \<open>The document for a count and a sample, and a cache that holds nothing else.\<close>

definition document_for :: "('a, 'c, 'd, 'y, 'z) host \<Rightarrow> status_cache \<Rightarrow> i32 \<Rightarrow> rstring list \<Rightarrow> rstring" where
  "document_for h cache online sample =
     status_to_json (h_status_string h) (build_status (h_md5 h) (h_uuid_string h) online sample cache)"

definition coherent :: "('a, 'c, 'd, 'y, 'z) host \<Rightarrow> status_cache \<Rightarrow> status_cache \<Rightarrow> bool" where
  "coherent h cache c \<longleftrightarrow> document_for h c = document_for h cache \<and>
     (case stc_cached c of Some e \<Rightarrow> ca_json e = document_for h cache (ca_online e) (ca_sample e) | None \<Rightarrow> True)"

lemma document_for_update [simp]:
  "document_for h (c\<lparr>stc_rebuilds := n, stc_cached := e\<rparr>) = document_for h c"
  by (simp add: fun_eq_iff document_for_def build_status_def)

lemma coherent_lookup:
  "coherent h cache c \<Longrightarrow> cache_hit online sample c = Some json \<Longrightarrow> json = document_for h cache online sample"
  by (auto simp: coherent_def cache_hit_def split: option.splits if_splits)

lemma coherent_rebuild:
  assumes "coherent h cache c"
    and "status_rebuild (h_md5 h) (h_uuid_string h) (h_status_string h) online sample c = (json, c')"
  shows "json = document_for h cache online sample" "coherent h cache c'"
proof -
  have d: "status_to_json (h_status_string h) (build_status (h_md5 h) (h_uuid_string h) online sample c) =
      document_for h cache online sample"
    using assms(1) by (metis coherent_def document_for_def)
  show "json = document_for h cache online sample"
    using assms coherent_lookup [OF assms(1)] by (auto simp: status_rebuild_def Let_def d split: option.splits)
  show "coherent h cache c'"
    using assms by (auto simp: status_rebuild_def Let_def d coherent_def split: option.splits)
qed

lemma coherent_perform: "coherent h cache (snd ctx) \<Longrightarrow> coherent h cache (snd (perform h op ctx))"
  by (cases op; cases ctx) (auto intro: coherent_rebuild(2) [OF _ prod.collapse [symmetric]])

lemma history_coherent:
  "executes h ctx trail ctx' \<Longrightarrow> coherent h cache (snd ctx) \<Longrightarrow> (op, found) \<in> set trail \<Longrightarrow> coherent h cache (snd found)"
proof (induction trail arbitrary: ctx)
  case (Cons e trail)
  show ?case
  proof (cases "e = (op, found)")
    case True
    with Cons.prems show ?thesis by simp
  next
    case False
    obtain op' where e: "e = (op', ctx)" "executes h (perform h op' ctx) trail ctx'" using Cons.prems(1) by (cases e) (auto simp del: perform.simps)
    with False Cons.prems have "(op, found) \<in> set trail" by auto
    with Cons.IH [OF e(2)] Cons.prems(2) show ?thesis by (simp add: coherent_perform)
  qed
qed simp

section \<open>Schedules\<close>

text \<open>
  A run of the server with the connections \<open>conns\<close>: each access finds what the previous one left, and each connection
  makes its own accesses in its own order. At the end of \<open>history\<close> the connections may be anywhere in their code.
\<close>

definition scheduled ::
  "('a, 'c, 'd, 'y, 'z) host \<Rightarrow> ('a, 'c, 'd, 'y, 'z, 'io) connection list \<Rightarrow> 'a shared \<Rightarrow> 'a history \<Rightarrow> 'a shared \<Rightarrow> bool" where
  "scheduled h conns start history ctx \<longleftrightarrow> executes h start (map snd history) ctx \<and>
     (\<forall>e \<in> set history. fst e < length conns) \<and>
     (\<forall>t < length conns. \<exists>others r s'. run h (task_new (conns ! t) start others) = Some (r, s') \<and>
        prefix (part_of t history) (ctx_log s'))"

text \<open>The connections have all come to their ends, or to where their sockets suspend them.\<close>

definition settled ::
  "('a, 'c, 'd, 'y, 'z) host \<Rightarrow> ('a, 'c, 'd, 'y, 'z, 'io) connection list \<Rightarrow> 'a shared \<Rightarrow> 'a history \<Rightarrow> bool" where
  "settled h conns start history \<longleftrightarrow>
     (\<forall>t < length conns. \<exists>others r s'. run h (task_new (conns ! t) start others) = Some (r, s') \<and>
        part_of t history = ctx_log s')"

text \<open>The connections have all come to their ends.\<close>

definition finished ::
  "('a, 'c, 'd, 'y, 'z) host \<Rightarrow> ('a, 'c, 'd, 'y, 'z, 'io) connection list \<Rightarrow> 'a shared \<Rightarrow> 'a history \<Rightarrow> bool" where
  "finished h conns start history \<longleftrightarrow>
     (\<forall>t < length conns. \<exists>others r s'. run h (task_new (conns ! t) start others) = Some (r, s') \<and> r \<noteq> Inl Suspended \<and>
        part_of t history = ctx_log s')"

lemma run_log:
  assumes "host_ok h" "run h (task_new conn start others) = Some (r, s')"
  shows "\<exists>rest. session_log h (ctx_log s' @ rest)" "r \<noteq> Inl Suspended \<Longrightarrow> session_log h (ctx_log s')"
  by (rule run_returns [OF assms(1), of "task_new conn start others"];
    auto simp: assms(2) does_def session_part_def split: if_splits intro: exI [of _ "[]"])+

lemma part_of_none: "(\<forall>e \<in> set history. fst e < n) \<Longrightarrow> \<not> t < n \<Longrightarrow> part_of t history = []"
  by (auto simp: part_of_def filter_empty_conv)

lemma interleaved_connections:
  assumes h: "host_ok h" and sched: "scheduled h conns (registry_new, status) history ctx"
    and inj: "inj_on (offline_uuid (h_md5 h)) (names_in history)"
  shows "registry_count (fst ctx) \<le> player_limit (h_config h) \<and>
    distinct (map (\<lambda>(_, p). pi_name p) (fst ctx)) \<and>
    (\<forall>name. contains_name name (fst ctx) \<longleftrightarrow> (\<exists>t. joined_as h None (part_of t history) = Some name)) \<and>
    (\<forall>t u name. joined_as h None (part_of t history) = Some name \<longrightarrow> joined_as h None (part_of u history) = Some name \<longrightarrow> t = u) \<and>
    (finished h conns (registry_new, status) history \<longrightarrow> fst ctx = registry_new)"
proof -
  let ?start = "(registry_new, status)"
  have exec: "executes h ?start (map snd history) ctx" and ids: "\<forall>e \<in> set history. fst e < length conns"
    using sched by (auto simp: scheduled_def)
  have "\<exists>rest. session_log h (part_of t history @ rest)" for t
  proof (cases "t < length conns")
    case True
    then obtain others r s' where r: "run h (task_new (conns ! t) ?start others) = Some (r, s')"
      "prefix (part_of t history) (ctx_log s')" using sched by (auto simp: scheduled_def)
    then show ?thesis using run_log(1) [OF h r(1)] by (auto simp: prefix_def)
  next
    case False
    then show ?thesis using part_of_none [OF ids] session_log.watched [of "[]" h] by (intro exI [of _ "[]"]) simp
  qed
  from history_sessions [OF this subset_refl exec] have "session_reachable (h_md5 h) (names_in history)
      (player_limit (h_config h)) (sessions_after h history ctx)" .
  note sessions = registry_matches_sessions [OF inj this]
  have "fst ctx = registry_new" if f: "finished h conns ?start history"
  proof (rule ccontr)
    assume "fst ctx \<noteq> registry_new"
    then obtain k p ps where "fst ctx = (k, p) # ps" by (cases "fst ctx") (auto simp: registry_new_def)
    then have "contains_name (pi_name p) (fst ctx)" by (simp add: contains_name_def)
    with sessions obtain t where "joined_as h None (part_of t history) = Some (pi_name p)"
      by (auto simp: sessions_after_def)
    moreover have "joined_as h None (part_of t history) = None"
    proof (cases "t < length conns")
      case True
      then obtain others r s' where "run h (task_new (conns ! t) ?start others) = Some (r, s')" "r \<noteq> Inl Suspended"
        "part_of t history = ctx_log s'" using f by (auto simp: finished_def)
      then show ?thesis using session_log_end [OF run_log(2) [OF h]] by simp
    qed (use part_of_none [OF ids] in simp)
    ultimately show False by simp
  qed
  moreover have "t = u" if "joined_as h None (part_of t history) = Some name" "joined_as h None (part_of u history) = Some name"
    for t u name
    using sessions that by (auto simp: sessions_after_def dest: inj_onD [of _ _ t u])
  ultimately show ?thesis using sessions by (simp add: sessions_after_def)
qed

section \<open>Properties\<close>

text \<open>
  C10: a status client never gets another's document: under every interleaving, a document handed out of the
  cache, after the read lock or after the write lock, is the one built for the very count and sample it
  was asked for.
\<close>

theorem interleaved_documents:
  assumes "executes h (players, with_favicon favicon (status_cache_new motd max_players)) (map snd history) ctx"
    and "(t, op, found) \<in> set history"
  shows "let doc = document_for h (with_favicon favicon (status_cache_new motd max_players)) in
    case op of
      Lookup online sample \<Rightarrow> cache_hit online sample (snd found) \<in> {None, Some (doc online sample)}
    | Rebuild online sample \<Rightarrow>
        fst (status_rebuild (h_md5 h) (h_uuid_string h) (h_status_string h) online sample (snd found)) = doc online sample
    | _ \<Rightarrow> True"
proof -
  let ?c = "with_favicon favicon (status_cache_new motd max_players)"
  have "coherent h ?c (snd (players, ?c))" by (simp add: coherent_def with_favicon_def status_cache_new_def)
  from history_coherent [OF assms(1) this, of op found] have c: "coherent h ?c (snd found)" using assms(2) by force
  show ?thesis
    using coherent_lookup [OF c] coherent_rebuild(1) [OF c prod.collapse [symmetric]]
    by (auto simp: Let_def split: access.split) (metis option.exhaust)
qed

section \<open>Witnesses\<close>

text \<open>
  Two clients with the same name: the first is admitted, and while it is in its configuration phase the second is
  refused.
\<close>

definition sample_cache :: status_cache where
  "sample_cache = status_cache_new (component_text (cfg_motd config_default)) 20"

definition sample_info :: "unit player_info" where
  "sample_info = \<lparr>pi_uuid = offline_uuid (\<lambda>_. replicate 16 0) (hello_name sample_hello), pi_name = hello_name sample_hello,
     pi_addr = ()\<rparr>"

definition sample_joined :: "unit shared" where
  "sample_joined = ([(pi_uuid sample_info, sample_info)], sample_cache)"

definition served_chunks :: "bytes list" where
  "served_chunks = [framed (packet_bytes handshaking_sb_INTENTION (intention_encode (sample_intention 776 NextLogin))),
     framed (packet_bytes login_sb_HELLO (hello_encode sample_hello)) @
       framed_below (packet_bytes login_sb_LOGIN_ACKNOWLEDGED []) @
       framed_below (packet_bytes config_sb_SELECT_KNOWN_PACKS (select_known_packs_encode known_packs_vanilla))]"

definition sample_conns :: "(unit, u8, u8, unit, unit, nat) connection list" where
  "sample_conns = [connection_new () () (map Data served_chunks) [] (), connection_new () () (map Data login_chunks) [] ()]"

definition sample_others :: "nat \<Rightarrow> unit shared list" where
  "sample_others t = (if t = 0 then [([], sample_cache), sample_joined] else [sample_joined])"

definition sample_history :: "unit history" where
  "sample_history = [(0, TryInsert sample_info, ([], sample_cache)), (1, TryInsert sample_info, sample_joined)]"

lemma sample_try_insert:
  "try_insert sample_info (player_limit (h_config (sample_host config_default))) [] = (Inr (), fst sample_joined)"
  "try_insert sample_info (player_limit (h_config (sample_host config_default))) (fst sample_joined) =
    (Inl NameTaken, fst sample_joined)"
  by (simp_all add: try_insert_def player_limit_def sample_host_def config_default_def word_sless_alt sample_joined_def)

lemma sample_login_log:
  assumes "concat chunks = framed (packet_bytes handshaking_sb_INTENTION (intention_encode (sample_intention 776 NextLogin))) @
      framed (packet_bytes login_sb_HELLO (hello_encode sample_hello)) @
      framed_below (packet_bytes login_sb_LOGIN_ACKNOWLEDGED []) @ rest" "[] \<notin> set chunks"
    and join: "\<And>t. idle (Some 256) rest t \<Longrightarrow> ctx_others t = others \<Longrightarrow> ctx_log t = [] \<Longrightarrow>
      awp (login_join (sample_host config_default) sample_hello (pi_uuid sample_info)) Q t"
  shows "awp (run (sample_host config_default))
    Q (task_new (connection_new () () (map Data chunks :: nat read_event list) [] ()) ctx others)"
proof -
  let ?h = "sample_host config_default"
  have k: "compression (h_config ?h) = Some 256" "\<not> cfg_online_mode (h_config ?h)"
    by (simp_all add: sample_host_def compression_def config_default_def word_sless_alt)
  have "length (packet_bytes login_sb_LOGIN_ACKNOWLEDGED []) < 2000"
    using length_write_varint_5 [of login_sb_LOGIN_ACKNOWLEDGED] by (simp add: packet_bytes_def)
  then have frame: "frame_of (h_inflate ?h) (Some 256) MAX_FRAME_LEN (packet_bytes login_sb_LOGIN_ACKNOWLEDGED [])
      (framed_below (packet_bytes login_sb_LOGIN_ACKNOWLEDGED [])) d" for d :: "(u8, unit) decoder itself"
    unfolding framed_below_def by (intro frame_below) (use packet_bytes_not_Nil in \<open>simp_all add: MAX_FRAME_LEN_def\<close>)
  have name: "string_fits MAX_USERNAME_LEN (hello_name sample_hello)"
    by (rule string_fits_ascii) (simp_all add: sample_hello_def MAX_USERNAME_LEN_def)
  have u: "offline_uuid (h_md5 ?h) (hello_name sample_hello) = pi_uuid sample_info"
    by (simp add: sample_info_def sample_host_def)
  have small: "sendable (\<lambda>bs. bs) (Some 256) (hd (login_replies ?h sample_hello))"
    using sample_replies_small by (simp add: login_replies_def)
  show ?thesis
    by (rule awp_login_run [OF sample_host_ok(1) stored_inflates sample_host_ok(2) k new_task_idle [OF assms(1,2)] _
          sample_intention_fits _ name frame small, unfolded u, where client = "TYPE((u8, unit) decoder)"])
      (auto simp: sample_intention_def same_context_def intro: join)
qed

lemma take_lock_found:
  assumes "ctx_others s = found # others"
  shows "ctx_players (take_lock op s) = fst found" "ctx_status (take_lock op s) = snd found"
  using assms by (simp_all add: take_lock_def split: prod.split)

lemma sample_log_0:
  "awp (run (sample_host config_default)) (\<lambda>_ s'. prefix (part_of 0 sample_history) (ctx_log s'))
    (task_new (sample_conns ! 0) ctx (sample_others 0))"
proof -
  let ?h = "sample_host config_default"
  let ?rest = "framed_below (packet_bytes config_sb_SELECT_KNOWN_PACKS (select_known_packs_encode known_packs_vanilla))"
  have "length (packet_bytes config_sb_SELECT_KNOWN_PACKS (select_known_packs_encode known_packs_vanilla)) < 2000"
    using vanilla_packs(2) length_write_varint_5 [of config_sb_SELECT_KNOWN_PACKS] by (simp add: packet_bytes_def)
  then have frame: "frame_of (h_inflate ?h) (Some 256) MAX_FRAME_LEN
      (packet_bytes config_sb_SELECT_KNOWN_PACKS (select_known_packs_encode known_packs_vanilla)) ?rest d"
    for d :: "(u8, unit) decoder itself"
    unfolding framed_below_def by (intro frame_below) (use packet_bytes_not_Nil in \<open>simp_all add: MAX_FRAME_LEN_def\<close>)
  have packs: "length (select_known_packs_encode known_packs_vanilla) < 2 ^ 64" using vanilla_packs(2) by simp
  have conn: "sample_conns ! 0 = connection_new () () (map Data served_chunks) [] ()" by (simp add: sample_conns_def)
  show ?thesis
    unfolding conn
  proof (rule sample_login_log [where rest = ?rest])
    fix t :: "(unit, u8, u8, unit, unit, nat) task"
    assume t: "idle (Some 256) ?rest t" "ctx_others t = sample_others 0" "ctx_log t = []"
    have o: "ctx_others t = ([], sample_cache) # [sample_joined]" using t(2) by (simp add: sample_others_def)
    have "idle (Some 256) (?rest @ []) t" using t(1) by simp
    then show "awp (login_join ?h sample_hello (pi_uuid sample_info)) (\<lambda>_ s'. prefix (part_of 0 sample_history) (ctx_log s')) t"
    proof (rule awp_login_join_exchange [OF sample_host_ok(1) stored_inflates sample_host_ok(2) _ frame vanilla_packs(1) packs _ _
        sample_replies_small, where client = "TYPE((u8, unit) decoder)"])
      show "sample_info = \<lparr>pi_uuid = pi_uuid sample_info, pi_name = hello_name sample_hello, pi_addr = cn_addr t\<rparr>"
        by (simp add: sample_info_def)
      show "try_insert sample_info (player_limit (h_config ?h)) (ctx_players (take_lock (TryInsert sample_info) t)) =
          (Inr (), fst sample_joined)" by (simp add: take_lock_found [OF o] sample_try_insert)
      fix u :: "(unit, u8, u8, unit, unit, nat) task"
      assume "same_context (take_lock (TryInsert sample_info) t\<lparr>ctx_players := fst sample_joined\<rparr>) u"
      then show "prefix (part_of 0 sample_history) (ctx_log (snd (remove_player (pi_uuid sample_info) u)))"
        by (simp add: same_context_def remove_player_def Let_def case_prod_unfold take_lock_found [OF o] t(3) part_of_def
            sample_history_def)
    qed
  qed (simp_all add: served_chunks_def framed_not_Nil framed_not_Nil [symmetric])
qed

lemma sample_log_1:
  "awp (run (sample_host config_default)) (\<lambda>_ s'. prefix (part_of 1 sample_history) (ctx_log s'))
    (task_new (sample_conns ! 1) ctx (sample_others 1))"
proof -
  let ?h = "sample_host config_default"
  have conn: "sample_conns ! 1 = connection_new () () (map Data login_chunks) [] ()" by (simp add: sample_conns_def)
  have small: "sendable (\<lambda>bs. bs) (Some 256)
      (packet_bytes config_cb_DISCONNECT (disconnect_encode \<lparr>dc_reason = join_error_reason NameTaken\<rparr>))"
    using sample_refusal_small [of "Some 256"] by (simp add: refusal_replies_def)
  show ?thesis
    unfolding conn
  proof (rule sample_login_log [where rest = "[1, 2]"])
    fix t :: "(unit, u8, u8, unit, unit, nat) task"
    assume t: "idle (Some 256) [1, 2] t" "ctx_others t = sample_others 1" "ctx_log t = []"
    have o: "ctx_others t = [sample_joined]" using t(2) by (simp add: sample_others_def)
    show "awp (login_join ?h sample_hello (pi_uuid sample_info)) (\<lambda>_ s'. prefix (part_of 1 sample_history) (ctx_log s')) t"
    proof (rule awp_login_join_refused [OF sample_host_ok(1) stored_inflates sample_host_ok(2) t(1) _ _ small,
        where client = "TYPE((u8, unit) decoder)"])
      show "sample_info = \<lparr>pi_uuid = pi_uuid sample_info, pi_name = hello_name sample_hello, pi_addr = cn_addr t\<rparr>"
        by (simp add: sample_info_def)
      show "try_insert sample_info (player_limit (h_config ?h)) (ctx_players (take_lock (TryInsert sample_info) t)) =
          (Inl NameTaken, fst sample_joined)" by (simp add: take_lock_found [OF o] sample_try_insert)
      fix u :: "(unit, u8, u8, unit, unit, nat) task"
      assume "same_context (take_lock (TryInsert sample_info) t) u"
      then show "prefix (part_of 1 sample_history) (ctx_log u)"
        by (simp add: same_context_def take_lock_found [OF o] t(3) part_of_def sample_history_def)
    qed
  qed (simp_all add: login_chunks_def framed_not_Nil framed_not_Nil [symmetric])
qed

lemma sample_scheduled:
  "scheduled (sample_host config_default) sample_conns (registry_new, sample_cache) sample_history sample_joined"
  "inj_on (offline_uuid (h_md5 (sample_host config_default))) (names_in sample_history)"
proof -
  let ?h = "sample_host config_default" let ?start = "(registry_new, sample_cache)"
  have "\<exists>others r s'. run ?h (task_new (sample_conns ! t) ?start others) = Some (r, s') \<and> prefix (part_of t sample_history) (ctx_log s')"
    if "t < length sample_conns" for t
  proof -
    from that consider "t = 0" | "t = 1" by (auto simp: sample_conns_def less_Suc_eq)
    then show ?thesis using sample_log_0 [of ?start] sample_log_1 [of ?start] by cases (auto simp: awp_iff)
  qed
  moreover have "executes ?h ?start (map snd sample_history) sample_joined"
    using sample_try_insert by (simp add: sample_history_def registry_new_def sample_joined_def)
  ultimately show "scheduled ?h sample_conns ?start sample_history sample_joined"
    by (simp add: scheduled_def) (simp add: sample_history_def sample_conns_def)
  show "inj_on (offline_uuid (h_md5 ?h)) (names_in sample_history)"
    by (simp add: names_in_def sample_history_def)
qed

lemma interleaved_documents_witness:
  "fst (status_rebuild (h_md5 (sample_host config_default)) (h_uuid_string (sample_host config_default))
      (h_status_string (sample_host config_default)) 3 [] (with_favicon None sample_cache)) =
    document_for (sample_host config_default) (with_favicon None sample_cache) 3 []"
  using interleaved_documents [of "sample_host config_default" "[] :: unit registry" None "component_text (cfg_motd config_default)" 20
      "[(4, Rebuild 3 [], [], with_favicon None sample_cache)]" _ 4 "Rebuild 3 []" "([], with_favicon None sample_cache)"]
  by (simp add: sample_cache_def)

end
