(* ===== verification/Bit_Storage.thy ===== *)
theory Bit_Storage
  imports Prelude
begin

text \<open>
  \<open>crates/rukkit-world/src/bitstorage.rs\<close>: fixed-width entries packed into \<open>u64\<close> cells, none of
  them straddling two cells, located by multiplication with a reciprocal instead of a division.
  Every assertion and every checked operation (a slice index, a \<open>usize\<close> subtraction, a shift
  amount) that can panic is a \<open>None\<close> of the model. \<open>contents\<close> is the abstraction: the list of the
  logical entries. The locale \<open>indexed_store\<close> is the array contract that the storage, and later the
  paletted container, provide.
\<close>

section \<open>The code\<close>

definition MAX_BITS :: nat where "MAX_BITS = 32"

record bit_storage =
  bs_data :: "u64 list"
  bs_len :: usize
  bs_bits :: nat
  bs_values_per_long :: nat
  bs_magic :: u64
  bs_mask :: u64

text \<open>\<open>usize::div_ceil\<close> and \<open>u64::div_ceil\<close>; the division by zero is the panic.\<close>

definition div_ceil :: "nat \<Rightarrow> nat \<Rightarrow> nat option" where
  "div_ceil a b = (if b = 0 then None else Some (a div b + (if a mod b = 0 then 0 else 1)))"

definition cells_required :: "usize \<Rightarrow> nat \<Rightarrow> usize option" where
  "cells_required len bits = (if bits = 0 then Some 0 else div_ceil len (64 div bits))"

definition reciprocal :: "nat \<Rightarrow> u64 option" where
  "reciprocal divisor = map_option word_of_nat (div_ceil (2 ^ 32) divisor)"

definition storage_new :: "usize \<Rightarrow> nat \<Rightarrow> bit_storage option" where
  "storage_new len bits =
     (if \<not> (0 < bits \<and> bits \<le> MAX_BITS) then None
      else if \<not> len < 2 ^ 26 then None
      else let values_per_long = 64 div bits in
        Option.bind (cells_required len bits) (\<lambda>n.
        Option.bind (reciprocal values_per_long) (\<lambda>magic.
        Some \<lparr>bs_data = replicate n 0, bs_len = len, bs_bits = bits,
              bs_values_per_long = values_per_long, bs_magic = magic,
              bs_mask = push_bit bits 1 - 1\<rparr>)))"

text \<open>\<open>from_data\<close> returns an option itself: the outer one is the panic, which never happens.\<close>

definition storage_from_data :: "usize \<Rightarrow> nat \<Rightarrow> u64 list \<Rightarrow> bit_storage option option" where
  "storage_from_data len bits data =
     (if bits = 0 \<or> MAX_BITS < bits \<or> 2 ^ 26 \<le> len then Some None
      else Option.bind (cells_required len bits) (\<lambda>n.
        if length data \<noteq> n then Some None
        else let values_per_long = 64 div bits in
          Option.bind (reciprocal values_per_long) (\<lambda>magic.
          Some (Some \<lparr>bs_data = data, bs_len = len, bs_bits = bits,
              bs_values_per_long = values_per_long, bs_magic = magic,
              bs_mask = push_bit bits 1 - 1\<rparr>))))"

definition storage_is_empty :: "bit_storage \<Rightarrow> bool" where
  "storage_is_empty s \<longleftrightarrow> bs_len s = 0"

definition cell_of :: "bit_storage \<Rightarrow> usize \<Rightarrow> usize" where
  "cell_of s index = unat (drop_bit 32 (word_of_nat index * bs_magic s))"

text \<open>The cell and bit offset of an entry, as \<open>get\<close> and \<open>set\<close> compute them.\<close>

definition locate :: "bit_storage \<Rightarrow> usize \<Rightarrow> (usize \<times> nat) option" where
  "locate s index =
     (let cell = cell_of s index in
      if index < cell * bs_values_per_long s then None
      else let offset = (index - cell * bs_values_per_long s) * bs_bits s in
        if 64 \<le> offset \<or> length (bs_data s) \<le> cell then None else Some (cell, offset))"

definition storage_get :: "bit_storage \<Rightarrow> usize \<Rightarrow> u32 option" where
  "storage_get s index =
     (if \<not> index < bs_len s then None
      else Option.bind (locate s index) (\<lambda>(cell, offset).
        Some (ucast (drop_bit offset (bs_data s ! cell) AND bs_mask s))))"

definition storage_set :: "bit_storage \<Rightarrow> usize \<Rightarrow> u32 \<Rightarrow> (u32 \<times> bit_storage) option" where
  "storage_set s index v =
     (if \<not> index < bs_len s then None
      else let val = (ucast v :: u64) in
        if \<not> val \<le> bs_mask s then None
        else Option.bind (locate s index) (\<lambda>(cell, offset).
          let w = bs_data s ! cell;
              previous = drop_bit offset w AND bs_mask s
          in Some (ucast previous,
               s\<lparr>bs_data := (bs_data s)[cell :=
                  (w AND NOT (push_bit offset (bs_mask s))) OR push_bit offset val]\<rparr>)))"

text \<open>
  \<open>for_each\<close>: the inner loop decodes one cell by shifting it, and leaves the function at \<open>len\<close>
  (first component \<open>True\<close>); the callback threads a state and may panic.
\<close>

fun each_in_cell :: "nat \<Rightarrow> bit_storage \<Rightarrow> (usize \<Rightarrow> u32 \<Rightarrow> 's \<Rightarrow> 's option) \<Rightarrow>
    u64 \<Rightarrow> usize \<Rightarrow> 's \<Rightarrow> (bool \<times> usize \<times> 's) option" where
  "each_in_cell 0 s f w index st = Some (False, index, st)"
| "each_in_cell (Suc n) s f w index st =
     (if bs_len s \<le> index then Some (True, index, st)
      else Option.bind (f index (ucast (w AND bs_mask s)) st) (\<lambda>st'.
        each_in_cell n s f (drop_bit (bs_bits s) w) (index + 1) st'))"

fun each_cell :: "u64 list \<Rightarrow> bit_storage \<Rightarrow> (usize \<Rightarrow> u32 \<Rightarrow> 's \<Rightarrow> 's option) \<Rightarrow>
    usize \<Rightarrow> 's \<Rightarrow> 's option" where
  "each_cell [] s f index st = Some st"
| "each_cell (cell # cells) s f index st =
     Option.bind (each_in_cell (bs_values_per_long s) s f cell index st) (\<lambda>(return, index', st').
       if return then Some st' else each_cell cells s f index' st')"

definition storage_for_each :: "bit_storage \<Rightarrow> (usize \<Rightarrow> u32 \<Rightarrow> 's \<Rightarrow> 's option) \<Rightarrow> 's \<Rightarrow> 's option" where
  "storage_for_each s f st = each_cell (bs_data s) s f 0 st"

definition storage_remap :: "bit_storage \<Rightarrow> nat \<Rightarrow> (u32 \<Rightarrow> u32 option) \<Rightarrow> bit_storage option" where
  "storage_remap s new_bits f =
     Option.bind (storage_new (bs_len s) new_bits) (\<lambda>out.
       storage_for_each s (\<lambda>index v out.
         Option.bind (f v) (\<lambda>v'. map_option snd (storage_set out index v'))) out)"

section \<open>The array contract\<close>

text \<open>Reading and writing by index, against the list of the entries.\<close>

locale indexed_store =
  fixes sget :: "'s \<Rightarrow> nat \<Rightarrow> u32 option"
    and sset :: "'s \<Rightarrow> nat \<Rightarrow> u32 \<Rightarrow> (u32 \<times> 's) option"
    and entries :: "'s \<Rightarrow> u32 list"
    and inv :: "'s \<Rightarrow> bool"
    and fits :: "'s \<Rightarrow> u32 \<Rightarrow> bool"
  assumes get_entry: "inv s \<Longrightarrow> i < length (entries s) \<Longrightarrow> sget s i = Some (entries s ! i)"
    and set_entry: "inv s \<Longrightarrow> i < length (entries s) \<Longrightarrow> fits s v \<Longrightarrow>
      \<exists>s'. sset s i v = Some (entries s ! i, s') \<and> inv s' \<and> entries s' = (entries s)[i := v] \<and>
        fits s' = fits s"
begin

lemma get_after_set:
  assumes "inv s" "i < length (entries s)" "j < length (entries s)" "fits s v"
    and "sset s i v = Some (p, s')"
  shows "sget s' j = Some (if j = i then v else entries s ! j)"
  using set_entry [OF assms(1,2,4)] assms(3,5) get_entry [of s' j] by auto

text \<open>A loop that writes consecutive entries.\<close>

lemma write_run:
  "inv s \<Longrightarrow> k + length xs \<le> length (entries s) \<Longrightarrow> \<forall>x \<in> set xs. fits s (g x) \<Longrightarrow>
     \<exists>s'. iterate (\<lambda>(i, x) s. map_option snd (sset s i (g x))) (enumerate k xs) s = Some s' \<and> inv s' \<and>
       fits s' = fits s \<and> entries s' = take k (entries s) @ map g xs @ drop (k + length xs) (entries s)"
proof (induction xs arbitrary: s k)
  case (Cons x xs)
  with set_entry [of s k "g x"] obtain s1 where
    s1: "sset s k (g x) = Some (entries s ! k, s1)" "inv s1" "entries s1 = (entries s)[k := g x]"
      "fits s1 = fits s" by auto
  with Cons.IH [of s1 "Suc k"] Cons.prems obtain s' where
    s': "iterate (\<lambda>(i, x) s. map_option snd (sset s i (g x))) (enumerate (Suc k) xs) s1 = Some s'" "inv s'"
      "fits s' = fits s" "entries s' = take (Suc k) (entries s1) @ map g xs @ drop (Suc k + length xs) (entries s1)"
    by auto
  moreover have "take (Suc k) (entries s1) = take k (entries s) @ [g x]"
    using s1(3) Cons.prems(2) by (simp add: take_Suc_conv_app_nth)
  ultimately show ?case using s1 by simp
qed simp

end

section \<open>Reciprocal division\<close>

lemma div_ceil_bounds:
  assumes "div_ceil a b = Some m"
  shows "a \<le> m * b" "m * b < a + b"
proof -
  from assms have b: "0 < b" and m: "m = a div b + (if a mod b = 0 then 0 else 1)"
    by (auto simp: div_ceil_def split: if_splits)
  have a: "a = a div b * b + a mod b" by simp
  have r: "a mod b < b" using b by simp
  show "a \<le> m * b"
  proof (cases "a mod b = 0")
    case False
    then have "m * b = a div b * b + b" using m by simp
    with a r show ?thesis by linarith
  qed (use m a in simp)
  show "m * b < a + b"
  proof (cases "a mod b = 0")
    case False
    then have "m * b = a div b * b + b" using m by simp
    with a False show ?thesis by linarith
  next
    case True
    then have "m * b = a" using m a by simp
    then show ?thesis using b by linarith
  qed
qed

lemma reciprocal_div:
  fixes d i m :: nat
  assumes d: "0 < d" "d \<le> 64" and i: "i < 2 ^ 26" and m: "2 ^ 32 \<le> m * d" "m * d < 2 ^ 32 + d"
  shows "i * m div 2 ^ 32 = i div d"
proof -
  define q r e where "q = i div d" and "r = i mod d" and "e = m * d - 2 ^ 32"
  have i_eq: "i = q * d + r" and r: "r < d" using d by (simp_all add: q_def r_def)
  have md: "m * d = 2 ^ 32 + e" and e: "e < d" using m by (simp_all add: e_def)
  have "2 ^ 26 \<le> m"
  proof (rule ccontr)
    assume "\<not> 2 ^ 26 \<le> m"
    then have "m * d < 2 ^ 26 * 64" using d by (intro mult_less_le_imp_less) auto
    with m show False by simp
  qed
  moreover have "(q + 1) * e < 2 ^ 26"
  proof (cases "q < 64")
    case True
    then have "(q + 1) * e \<le> 64 * 64" using e d by (intro mult_le_mono) auto
    then show ?thesis by simp
  next
    case False
    have "(q + 1) * e + q + 1 \<le> (q + 1) * d"
      using mult_le_mono2 [of "e + 1" d "q + 1"] e by simp
    also have "\<dots> \<le> i + d" using i_eq by simp
    finally show ?thesis using False d i by linarith
  qed
  ultimately have qe: "q * e + e < m" by (simp add: distrib_right)
  have "r * m + m \<le> d * m" using mult_le_mono1 [of "r + 1" d m] r by simp
  then have small: "q * e + r * m < 2 ^ 32" using qe md by (simp add: mult.commute)
  have "i * m = q * (m * d) + r * m" unfolding i_eq by (simp add: algebra_simps)
  also have "\<dots> = q * 2 ^ 32 + (q * e + r * m)" unfolding md by (simp add: algebra_simps)
  finally have "i * m = (q * e + r * m) + q * 2 ^ 32" by simp
  then have "i * m div 2 ^ 32 = q" using small by simp
  then show ?thesis by (simp add: q_def)
qed

section \<open>Well-formed storages and their contents\<close>

definition wf_storage :: "bit_storage \<Rightarrow> bool" where
  "wf_storage s \<longleftrightarrow> 0 < bs_bits s \<and> bs_bits s \<le> 32 \<and> bs_len s < 2 ^ 26 \<and>
     bs_values_per_long s = 64 div bs_bits s \<and>
     reciprocal (bs_values_per_long s) = Some (bs_magic s) \<and> bs_mask s = mask (bs_bits s) \<and>
     div_ceil (bs_len s) (bs_values_per_long s) = Some (length (bs_data s))"

definition entry :: "bit_storage \<Rightarrow> nat \<Rightarrow> u32" where
  "entry s i = ucast (drop_bit (i mod bs_values_per_long s * bs_bits s)
     (bs_data s ! (i div bs_values_per_long s)) AND bs_mask s)"

definition contents :: "bit_storage \<Rightarrow> u32 list" where
  "contents s = map (entry s) [0..<bs_len s]"

lemma length_contents [simp]: "length (contents s) = bs_len s"
  by (simp add: contents_def)

lemma nth_contents [simp]: "i < bs_len s \<Longrightarrow> contents s ! i = entry s i"
  by (simp add: contents_def)

lemma values_per_long_bounds:
  fixes bits :: nat
  assumes "0 < bits" "bits \<le> 32"
  shows "2 \<le> 64 div bits" "64 div bits \<le> 64" "64 div bits * bits \<le> 64"
proof -
  have "64 div 32 \<le> 64 div bits" using assms by (intro div_le_mono2) auto
  then show "2 \<le> 64 div bits" by simp
  show "64 div bits \<le> 64" by simp
  show "64 div bits * bits \<le> 64" by simp
qed

lemma offset_bound:
  fixes bits i :: nat
  assumes "0 < bits" "bits \<le> 32"
  shows "i mod (64 div bits) * bits + bits \<le> 64"
proof -
  have "i mod (64 div bits) < 64 div bits" using values_per_long_bounds [OF assms] by simp
  then have "(i mod (64 div bits) + 1) * bits \<le> 64 div bits * bits" by (intro mult_le_mono1) simp
  also have "\<dots> \<le> 64" by (rule values_per_long_bounds(3) [OF assms])
  finally show ?thesis by (simp add: add.commute)
qed

lemma reciprocal_Some:
  assumes "reciprocal d = Some w" "0 < d" "d \<le> 64"
  shows "2 ^ 32 \<le> unat w * d" "unat w * d < 2 ^ 32 + d"
proof -
  from assms(1) obtain m where m: "div_ceil (2 ^ 32) d = Some m" "w = word_of_nat m"
    by (auto simp: reciprocal_def)
  from div_ceil_bounds [OF m(1)] have b: "2 ^ 32 \<le> m * d" "m * d < 2 ^ 32 + d" by simp_all
  have "m \<le> m * d" using assms(2) by simp
  with b(2) assms(3) have "m < 2 ^ 32 + 65" by linarith
  then have "m < 2 ^ 64" by simp
  then have "unat w = m" using m(2) by (simp add: unsigned_of_nat take_bit_nat_eq_self_iff)
  with b show "2 ^ 32 \<le> unat w * d" "unat w * d < 2 ^ 32 + d" by simp_all
qed

lemma reciprocal_shift:
  assumes r: "reciprocal d = Some magic" and d: "0 < d" "d \<le> 64" and i: "i < 2 ^ 26"
  shows "unat (drop_bit 32 (word_of_nat i * magic)) = i div d"
proof -
  note m = reciprocal_Some [OF r d]
  have "unat magic * 1 \<le> unat magic * d" using d(1) by (intro mult_le_mono2) linarith
  then have "unat magic < 2 ^ 32 + 64" using m(2) d(2) by linarith
  then have "unat magic \<le> 2 ^ 33" by simp
  with i have "i * unat magic \<le> 2 ^ 26 * 2 ^ 33" by (intro mult_le_mono) auto
  then have small: "i * unat magic < 2 ^ 64" by simp
  have "unat (word_of_nat i :: u64) = i"
    using i by (simp add: unsigned_of_nat take_bit_nat_eq_self_iff)
  then have "unat (word_of_nat i * magic) = i * unat magic"
    using small by (simp add: unat_word_ariths)
  then have "unat (drop_bit 32 (word_of_nat i * magic)) = i * unat magic div 2 ^ 32"
    by (simp add: unat_drop_bit_div del: drop_bit_of_nat)
  then show ?thesis using reciprocal_div [OF d i m] by simp
qed

lemma cell_of_div:
  assumes s: "wf_storage s" and i: "i < 2 ^ 26"
  shows "cell_of s i = i div bs_values_per_long s"
proof -
  let ?d = "bs_values_per_long s"
  have bits: "0 < bs_bits s" "bs_bits s \<le> 32" "?d = 64 div bs_bits s"
    using s by (auto simp: wf_storage_def)
  have d: "0 < ?d" "?d \<le> 64" using values_per_long_bounds [OF bits(1,2)] bits(3) by auto
  have r: "reciprocal ?d = Some (bs_magic s)" using s unfolding wf_storage_def by blast
  show ?thesis unfolding cell_of_def by (rule reciprocal_shift [OF r d i])
qed

lemma locate_eq:
  assumes s: "wf_storage s" and i: "i < bs_len s"
  shows "locate s i = Some (i div bs_values_per_long s, i mod bs_values_per_long s * bs_bits s)"
    and "i div bs_values_per_long s < length (bs_data s)"
proof -
  let ?d = "bs_values_per_long s"
  from s have bits: "0 < bs_bits s" "bs_bits s \<le> 32" "?d = 64 div bs_bits s"
    and len: "div_ceil (bs_len s) ?d = Some (length (bs_data s))" "bs_len s < 2 ^ 26"
    by (auto simp: wf_storage_def)
  have d: "0 < ?d" using values_per_long_bounds [OF bits(1,2)] bits(3) by simp
  show c: "i div ?d < length (bs_data s)"
    using i div_ceil_bounds(1) [OF len(1)] d by (simp add: less_mult_imp_div_less)
  have "i - i div ?d * ?d = i mod ?d" by (simp add: minus_div_mult_eq_mod)
  moreover have "\<not> i < i div ?d * ?d" by (simp add: not_less)
  moreover have "\<not> 64 \<le> i mod ?d * bs_bits s"
    using offset_bound [OF bits(1,2), of i] bits by simp
  ultimately show "locate s i = Some (i div ?d, i mod ?d * bs_bits s)"
    using cell_of_div [OF s, of i] i len(2) c by (simp add: locate_def Let_def)
qed

lemma storage_get_eq:
  "wf_storage s \<Longrightarrow> storage_get s i = (if i < bs_len s then Some (entry s i) else None)"
  by (simp add: storage_get_def locate_eq entry_def)

section \<open>Updating a field of a cell\<close>

definition field :: "nat \<Rightarrow> nat \<Rightarrow> u64 \<Rightarrow> u32" where
  "field offset bits w = ucast (drop_bit offset w AND mask bits)"

lemma unat_mask:
  assumes "n \<le> LENGTH('a)"
  shows "unat (mask n :: 'a::len word) = 2 ^ n - 1"
proof -
  have "unat (mask n :: 'a word) = take_bit n (unat (- 1 :: 'a word))"
    by (simp only: mask_eq_take_bit_minus_one unsigned_take_bit_eq)
  also have "unat (- 1 :: 'a word) = mask LENGTH('a)"
    by (simp add: unsigned_minus_1_eq_mask)
  also have "take_bit n (mask LENGTH('a) :: nat) = mask n"
    using assms by (simp add: take_bit_of_mask min_def)
  finally show ?thesis by (simp only: mask_eq_exp_minus_1)
qed

lemma unat_le_mask:
  fixes x :: "'a::len word"
  shows "x \<le> mask n \<Longrightarrow> unat x < 2 ^ n"
proof -
  assume "x \<le> mask n"
  then have "unat x \<le> unat (mask n :: 'a word)" by (simp add: word_le_nat_alt)
  also have "unat (mask n :: 'a word) = take_bit n (unat (- 1 :: 'a word))"
    by (simp only: mask_eq_take_bit_minus_one unsigned_take_bit_eq)
  also have "\<dots> < 2 ^ n" by simp
  finally show ?thesis .
qed

lemma le_mask_bit_False:
  fixes x :: "'a::len word"
  assumes "x \<le> mask n" "n \<le> k"
  shows "\<not> bit x k"
proof -
  have "take_bit n (unat x) = unat x" using unat_le_mask [OF assms(1)] by (simp add: take_bit_nat_eq_self_iff)
  then have "take_bit n x = x" by (simp add: word_unat_eq_iff unsigned_take_bit_eq)
  then have "bit x k = bit (take_bit n x) k" by simp
  then show ?thesis using assms(2) by (simp add: bit_simps)
qed

lemma field_update_same:
  fixes x w :: u64
  assumes "x \<le> mask bits" "offset + bits \<le> 64" "bits \<le> 32"
  shows "field offset bits ((w AND NOT (push_bit offset (mask bits))) OR push_bit offset x) = ucast x"
proof (rule bit_word_eqI)
  fix n assume n: "n < LENGTH(32)"
  then show "bit (field offset bits ((w AND NOT (push_bit offset (mask bits))) OR
      push_bit offset x)) n = bit (ucast x :: u32) n"
    using assms(2,3) le_mask_bit_False [OF assms(1), of n]
    by (cases "bits \<le> n") (simp_all add: field_def bit_simps)
qed

lemma field_update_other:
  fixes x w :: u64
  assumes "x \<le> mask bits" "o' + bits \<le> offset \<or> offset + bits \<le> o'"
    and "offset + bits \<le> 64" "o' + bits \<le> 64"
  shows "field o' bits ((w AND NOT (push_bit offset (mask bits))) OR push_bit offset x) =
    field o' bits w"
proof (rule bit_word_eqI)
  fix n assume n: "n < LENGTH(32)"
  show "bit (field o' bits ((w AND NOT (push_bit offset (mask bits))) OR
      push_bit offset x)) n = bit (field o' bits w) n"
  proof (cases "n < bits")
    case True
    have "\<not> bit x (o' + n - offset)" if "offset + bits \<le> o'"
      using le_mask_bit_False [OF assms(1), of "o' + n - offset"] that by linarith
    then show ?thesis using assms(2-) n True by (auto simp: field_def bit_simps)
  qed (auto simp: field_def bit_simps)
qed

lemma entry_field:
  "wf_storage s \<Longrightarrow> entry s i =
     field (i mod bs_values_per_long s * bs_bits s) (bs_bits s) (bs_data s ! (i div bs_values_per_long s))"
  by (simp add: entry_def field_def wf_storage_def)

lemma fields_disjoint:
  fixes a b bits :: nat
  assumes "a \<noteq> b"
  shows "a * bits + bits \<le> b * bits \<or> b * bits + bits \<le> a * bits"
proof (cases "a < b")
  case True
  then have "(a + 1) * bits \<le> b * bits" by (intro mult_le_mono1) simp
  then show ?thesis by (simp add: add.commute)
next
  case False
  then have "(b + 1) * bits \<le> a * bits" using assms by (intro mult_le_mono1) simp
  then show ?thesis by (simp add: add.commute)
qed

definition storage_fits :: "bit_storage \<Rightarrow> u32 \<Rightarrow> bool" where
  "storage_fits s v \<longleftrightarrow> (ucast v :: u64) \<le> bs_mask s"

lemma storage_fits_iff:
  assumes "wf_storage s"
  shows "storage_fits s v \<longleftrightarrow> unat v < 2 ^ bs_bits s"
proof -
  have m: "bs_mask s = mask (bs_bits s)" "bs_bits s \<le> 32" using assms by (simp_all add: wf_storage_def)
  have "unat (mask (bs_bits s) :: u64) = 2 ^ bs_bits s - 1"
    using m(2) by (intro unat_mask) simp
  then have "storage_fits s v \<longleftrightarrow> unat (ucast v :: u64) \<le> 2 ^ bs_bits s - 1"
    by (simp add: storage_fits_def m word_le_nat_alt)
  also have "unat (ucast v :: u64) = unat v" by (simp add: unsigned_ucast_eq take_bit_nat_eq_self_iff unat_bound [THEN less_trans])
  finally show ?thesis using zero_less_power [of "2 :: nat" "bs_bits s"] by linarith
qed

lemma entry_bound:
  assumes "wf_storage s"
  shows "unat (entry s i) < 2 ^ bs_bits s"
proof -
  let ?w = "drop_bit (i mod bs_values_per_long s * bs_bits s) (bs_data s ! (i div bs_values_per_long s))"
  have b: "bs_bits s \<le> 32" using assms by (simp add: wf_storage_def)
  have "entry s i = take_bit (bs_bits s) (ucast ?w)"
    by (rule bit_word_eqI) (auto simp: entry_field [OF assms] field_def bit_simps)
  then show ?thesis by (simp add: unsigned_take_bit_eq)
qed

section \<open>Operations on the contents\<close>

lemma wf_storage_update: "wf_storage s \<Longrightarrow> length xs = length (bs_data s) \<Longrightarrow> wf_storage (s\<lparr>bs_data := xs\<rparr>)"
  by (cases s) (auto simp: wf_storage_def)

lemma ucast_u64_u32 [simp]: "ucast (ucast v :: u64) = v" for v :: u32
  by (rule bit_word_eqI) (simp add: bit_simps)

lemma entry_update:
  assumes s: "wf_storage s" and i: "i < bs_len s" and v: "storage_fits s v"
  defines "c \<equiv> i div bs_values_per_long s" and "offset \<equiv> i mod bs_values_per_long s * bs_bits s"
  defines "s' \<equiv> s\<lparr>bs_data := (bs_data s)[c :=
    (bs_data s ! c AND NOT (push_bit offset (bs_mask s))) OR push_bit offset (ucast v)]\<rparr>"
  shows "entry s' j = (if j = i then v else entry s j)"
proof -
  let ?d = "bs_values_per_long s" and ?b = "bs_bits s"
  have b: "0 < ?b" "?b \<le> 32" "?d = 64 div ?b" and m: "bs_mask s = mask ?b"
    using s by (auto simp: wf_storage_def)
  have c: "c < length (bs_data s)" using locate_eq(2) [OF s i] by (simp add: c_def)
  have s': "wf_storage s'" unfolding s'_def by (intro wf_storage_update s) simp
  have v: "(ucast v :: u64) \<le> mask ?b" using v by (simp add: storage_fits_def m)
  have o: "k mod ?d * ?b + ?b \<le> 64" for k using offset_bound [OF b(1,2), of k] b(3) by simp
  show ?thesis
  proof (cases "j div ?d = c")
    case False
    then have "j \<noteq> i" by (auto simp: c_def)
    then show ?thesis using False by (simp add: entry_field [OF s'] entry_field [OF s]) (simp add: s'_def)
  next
    case True
    have other: "j mod ?d * ?b + ?b \<le> offset \<or> offset + ?b \<le> j mod ?d * ?b" if "j \<noteq> i"
    proof -
      have "j mod ?d \<noteq> i mod ?d" using that True div_mod_decomp [of j ?d] div_mod_decomp [of i ?d]
        unfolding c_def by metis
      then show ?thesis unfolding offset_def by (rule fields_disjoint)
    qed
    have e: "entry s' j = field (j mod ?d * ?b) ?b
        ((bs_data s ! c AND NOT (push_bit offset (mask ?b))) OR push_bit offset (ucast v))"
      using True c by (simp add: entry_field [OF s']) (simp add: s'_def m)
    show ?thesis
    proof (cases "j = i")
      case True
      then show ?thesis using field_update_same [OF v o b(2), of i] e by (simp add: offset_def)
    next
      case False
      then show ?thesis
        using field_update_other [OF v other [OF False] o [of i, folded offset_def] o] e \<open>j div ?d = c\<close>
        by (simp add: entry_field [OF s])
    qed
  qed
qed

lemma storage_set_eq:
  assumes s: "wf_storage s" and i: "i < bs_len s" and v: "storage_fits s v"
  shows "\<exists>s'. storage_set s i v = Some (entry s i, s') \<and> wf_storage s' \<and>
    contents s' = (contents s)[i := v] \<and> bs_bits s' = bs_bits s \<and> bs_mask s' = bs_mask s \<and>
    bs_len s' = bs_len s"
proof -
  let ?c = "i div bs_values_per_long s" and ?o = "i mod bs_values_per_long s * bs_bits s"
  let ?s = "s\<lparr>bs_data := (bs_data s)[?c :=
    (bs_data s ! ?c AND NOT (push_bit ?o (bs_mask s))) OR push_bit ?o (ucast v)]\<rparr>"
  have "storage_set s i v = Some (entry s i, ?s)"
    using v i by (simp add: storage_set_def locate_eq [OF s i] storage_fits_def Let_def entry_def)
  moreover have "contents ?s = (contents s)[i := v]"
    by (intro nth_equalityI) (simp_all add: entry_update [OF s i v] nth_list_update)
  ultimately show ?thesis using wf_storage_update [OF s, of "bs_data ?s"] by auto
qed

lemma storage_set_ok:
  assumes "wf_storage s" "i < bs_len s" "unat v < 2 ^ bs_bits s"
  obtains s' where "storage_set s i v = Some (contents s ! i, s')" "wf_storage s'"
    "contents s' = (contents s)[i := v]" "bs_bits s' = bs_bits s" "bs_len s' = bs_len s"
  using storage_set_eq [of s i v] storage_fits_iff [of s v] assms by auto

lemma storage_set_None:
  "wf_storage s \<Longrightarrow> \<not> (i < bs_len s \<and> storage_fits s v) \<Longrightarrow> storage_set s i v = None"
  by (auto simp: storage_set_def storage_fits_def Let_def)

lemma storage_fits_cong: "bs_mask s' = bs_mask s \<Longrightarrow> storage_fits s' = storage_fits s"
  by (simp add: storage_fits_def fun_eq_iff)

interpretation storage_store: indexed_store storage_get storage_set contents
    "\<lambda>s. wf_storage s \<and> bs_bits s = b" storage_fits for b
proof
  fix s i assume "wf_storage s \<and> bs_bits s = b" "i < length (contents s)"
  then show "storage_get s i = Some (contents s ! i)" by (simp add: storage_get_eq)
next
  fix s i v assume a: "wf_storage s \<and> bs_bits s = b" "i < length (contents s)" "storage_fits s v"
  then obtain s' where "storage_set s i v = Some (entry s i, s')" "wf_storage s'"
    "contents s' = (contents s)[i := v]" "bs_mask s' = bs_mask s" "bs_bits s' = bs_bits s"
    using storage_set_eq [of s i v] by auto
  with a storage_fits_cong [of s' s]
  show "\<exists>s'. storage_set s i v = Some (contents s ! i, s') \<and> (wf_storage s' \<and> bs_bits s' = b) \<and>
      contents s' = (contents s)[i := v] \<and> storage_fits s' = storage_fits s"
    by (intro exI [of _ s']) simp
qed

section \<open>Construction\<close>

lemma mask_u64 [simp]: "2 ^ n - 1 = (mask n :: u64)"
  by (simp add: mask_eq_exp_minus_1)

lemma cells_required_eq:
  "0 < bits \<Longrightarrow> bits \<le> 32 \<Longrightarrow> \<exists>n. cells_required len bits = Some n \<and> div_ceil len (64 div bits) = Some n"
  using values_per_long_bounds [of bits] by (auto simp: cells_required_def div_ceil_def)

lemma reciprocal_defined: "0 < d \<Longrightarrow> \<exists>m. reciprocal d = Some m"
  by (simp add: reciprocal_def div_ceil_def)

lemma storage_new_eq:
  assumes "0 < bits" "bits \<le> 32" "len < 2 ^ 26"
  shows "\<exists>s. storage_new len bits = Some s \<and> wf_storage s \<and> bs_bits s = bits \<and> bs_len s = len \<and>
    contents s = replicate len 0"
proof -
  obtain n where n: "cells_required len bits = Some n" "div_ceil len (64 div bits) = Some n"
    using cells_required_eq [OF assms(1,2)] by blast
  have d: "0 < 64 div bits" using values_per_long_bounds [OF assms(1,2)] by linarith
  obtain m where m: "reciprocal (64 div bits) = Some m" using reciprocal_defined [OF d] by blast
  let ?s = "\<lparr>bs_data = replicate n 0, bs_len = len, bs_bits = bits,
    bs_values_per_long = 64 div bits, bs_magic = m, bs_mask = mask bits\<rparr>"
  have "storage_new len bits = Some ?s" using assms n m by (simp add: storage_new_def MAX_BITS_def Let_def)
  moreover have wf: "wf_storage ?s" using assms n m by (simp add: wf_storage_def)
  moreover have "contents ?s = replicate len 0"
    using locate_eq(2) [OF wf] by (intro nth_equalityI) (simp_all add: entry_def)
  ultimately show ?thesis by (intro exI [of _ ?s]) simp
qed

lemma storage_new_None: "\<not> (0 < bits \<and> bits \<le> 32 \<and> len < 2 ^ 26) \<Longrightarrow> storage_new len bits = None"
  by (auto simp: storage_new_def MAX_BITS_def)

lemma storage_from_data_eq:
  "storage_from_data len bits data \<noteq> None"
  "storage_from_data len bits data = Some (Some s) \<longleftrightarrow>
     wf_storage s \<and> bs_len s = len \<and> bs_bits s = bits \<and> bs_data s = data"
proof -
  show "storage_from_data len bits data \<noteq> None"
  proof (cases "0 < bits \<and> bits \<le> 32")
    case True
    then show ?thesis
      using cells_required_eq [of bits len] reciprocal_defined [of "64 div bits"] values_per_long_bounds [of bits]
      by (auto simp: storage_from_data_def Let_def)
  qed (auto simp: storage_from_data_def MAX_BITS_def)
  show "storage_from_data len bits data = Some (Some s) \<longleftrightarrow>
     wf_storage s \<and> bs_len s = len \<and> bs_bits s = bits \<and> bs_data s = data" (is "?l = ?r")
  proof
    assume ?l
    then show ?r by (auto simp: storage_from_data_def MAX_BITS_def wf_storage_def cells_required_def Let_def
        split: if_splits bind_splits)
  next
    assume r: ?r
    then have "0 < bits" "bits \<le> 32" by (auto simp: wf_storage_def)
    with r show ?l
      by (cases s) (auto simp: storage_from_data_def MAX_BITS_def wf_storage_def cells_required_def Let_def)
  qed
qed

section \<open>Whole-storage loops\<close>

lemma each_in_cell_eq:
  assumes "\<forall>k < n. i + k < bs_len s \<longrightarrow> ucast (drop_bit (k * bs_bits s) w AND bs_mask s) = entry s (i + k)"
  shows "each_in_cell n s f w i st =
     (let m = min n (bs_len s - i) in
        map_option (\<lambda>st'. (m < n, i + m, st')) (iterate (\<lambda>j. f j (entry s j)) [i..<i + m] st))"
  using assms
proof (induction n arbitrary: w i st)
  case (Suc n)
  show ?case
  proof (cases "bs_len s \<le> i")
    case False
    have e: "ucast (w AND bs_mask s) = entry s i" using Suc.prems [rule_format, of 0] False by simp
    have "\<forall>k < n. Suc i + k < bs_len s \<longrightarrow>
        ucast (drop_bit (k * bs_bits s) (drop_bit (bs_bits s) w) AND bs_mask s) = entry s (Suc i + k)"
      using Suc.prems [rule_format, of "Suc _"] by (simp add: drop_bit_drop_bit add.commute)
    note IH = Suc.IH [OF this]
    have m: "min (Suc n) (bs_len s - i) = Suc (min n (bs_len s - Suc i))" using False by simp
    show ?thesis
      using False by (simp add: e IH m Let_def upt_conv_Cons del: upt_Suc split: bind_splits)
  qed simp
qed simp

lemma each_cell_eq:
  assumes s: "wf_storage s" and c: "c \<le> length (bs_data s)"
  shows "each_cell (drop c (bs_data s)) s f (c * bs_values_per_long s) st =
    iterate (\<lambda>j. f j (entry s j)) [c * bs_values_per_long s..<bs_len s] st"
  using c
proof (induction "length (bs_data s) - c" arbitrary: c st)
  case 0
  let ?d = "bs_values_per_long s"
  have "bs_len s \<le> length (bs_data s) * ?d" using s by (auto simp: wf_storage_def dest: div_ceil_bounds)
  with 0 show ?case by simp
next
  case (Suc l)
  let ?d = "bs_values_per_long s"
  from Suc.hyps(2) have c: "c < length (bs_data s)" by simp
  have "\<forall>k < ?d. c * ?d + k < bs_len s \<longrightarrow>
      ucast (drop_bit (k * bs_bits s) (bs_data s ! c) AND bs_mask s) = entry s (c * ?d + k)"
    by (simp add: entry_def)
  note cell = each_in_cell_eq [OF this, of f st]
  let ?m = "min ?d (bs_len s - c * ?d)"
  have run: "each_cell (drop c (bs_data s)) s f (c * ?d) st =
      Option.bind (iterate (\<lambda>j. f j (entry s j)) [c * ?d..<c * ?d + ?m] st) (\<lambda>st'.
        if ?m < ?d then Some st' else each_cell (drop (Suc c) (bs_data s)) s f (c * ?d + ?m) st')"
    using c by (simp add: Cons_nth_drop_Suc [symmetric] cell Let_def Option.bind_map_option comp_def)
  show ?case
  proof (cases "?m < ?d")
    case True
    then have "bs_len s \<le> c * ?d + ?d" "?m = bs_len s - c * ?d" by linarith+
    then have u: "[c * ?d..<c * ?d + ?m] = [c * ?d..<bs_len s]" by (cases "c * ?d \<le> bs_len s") simp_all
    show ?thesis unfolding run u by (simp only: True if_True Option.bind_runit)
  next
    case False
    then have m: "?m = ?d" "Suc c * ?d \<le> bs_len s \<or> ?d = 0" by auto
    have "each_cell (drop (Suc c) (bs_data s)) s f (Suc c * ?d) st' =
        iterate (\<lambda>j. f j (entry s j)) [Suc c * ?d..<bs_len s] st'" for st'
      using Suc.hyps c by (intro Suc.hyps(1)) simp_all
    then have "each_cell (drop c (bs_data s)) s f (c * ?d) st =
        Option.bind (iterate (\<lambda>j. f j (entry s j)) [c * ?d..<Suc c * ?d] st)
          (iterate (\<lambda>j. f j (entry s j)) [Suc c * ?d..<bs_len s])"
      unfolding run m(1) by (simp add: add.commute)
    also have "\<dots> = iterate (\<lambda>j. f j (entry s j)) ([c * ?d..<Suc c * ?d] @ [Suc c * ?d..<bs_len s]) st"
      by simp
    also have "[c * ?d..<Suc c * ?d] @ [Suc c * ?d..<bs_len s] = [c * ?d..<bs_len s]"
      using m(2) upt_add_eq_append [of "c * ?d" "Suc c * ?d" "bs_len s - Suc c * ?d"] by auto
    finally show ?thesis .
  qed
qed

lemma storage_for_each_upt:
  "wf_storage s \<Longrightarrow> storage_for_each s f st = iterate (\<lambda>i. f i (entry s i)) [0..<bs_len s] st"
  using each_cell_eq [of s 0 f st] by (simp add: storage_for_each_def)

lemma storage_for_each_eq:
  assumes "wf_storage s"
  shows "storage_for_each s f st = iterate (\<lambda>(i, v). f i v) (enumerate 0 (contents s)) st"
proof -
  have "iterate (\<lambda>i. f i (entry s i)) [0..<bs_len s] st =
      iterate (\<lambda>i. f i (contents s ! i)) [0..<bs_len s] st"
    by (rule iterate_cong) simp_all
  then show ?thesis using storage_for_each_upt [OF assms, of f st]
    by (simp add: enumerate_as_upt iterate_map)
qed

lemma in_set_enumerate_snd: "(i, x) \<in> set (enumerate k xs) \<Longrightarrow> x \<in> set xs"
  using in_set_zip [of "(i, x)" "[k..<k + length xs]" xs] by (auto simp: enumerate_eq_zip set_conv_nth)

lemma storage_remap_eq:
  assumes s: "wf_storage s" and b: "0 < new_bits" "new_bits \<le> 32"
    and f: "\<forall>v \<in> set (contents s). \<exists>v'. f v = Some v' \<and> unat v' < 2 ^ new_bits"
  shows "\<exists>s'. storage_remap s new_bits f = Some s' \<and> wf_storage s' \<and> bs_bits s' = new_bits \<and>
    bs_len s' = bs_len s \<and> contents s' = map (the \<circ> f) (contents s)"
proof -
  let ?g = "the \<circ> f"
  have "bs_len s < 2 ^ 26" using s by (simp add: wf_storage_def)
  from storage_new_eq [OF b this] obtain out where
    out: "storage_new (bs_len s) new_bits = Some out" "wf_storage out" "bs_bits out = new_bits"
      "bs_len out = bs_len s" by blast
  have "\<forall>v \<in> set (contents s). storage_fits out (?g v)"
    using f by (fastforce simp: storage_fits_iff [OF out(2)] out(3))
  with storage_store.write_run [of out new_bits 0 "contents s" ?g] out
  obtain s' where s': "iterate (\<lambda>(i, v) s. map_option snd (storage_set s i (?g v)))
        (enumerate 0 (contents s)) out = Some s'"
    "wf_storage s'" "bs_bits s' = new_bits" "contents s' = map ?g (contents s)" by auto
  have "iterate (\<lambda>(i, v) out. Option.bind (f v) (\<lambda>v'. map_option snd (storage_set out i v')))
      (enumerate 0 (contents s)) out = Some s'"
    unfolding s'(1) [symmetric] using f
    by (intro iterate_cong) (auto dest!: in_set_enumerate_snd)
  then have "storage_remap s new_bits f = Some s'"
    by (simp add: storage_remap_def out(1) storage_for_each_eq [OF s])
  moreover have "bs_len s' = bs_len s" using arg_cong [OF s'(4), of length] by simp
  ultimately show ?thesis using s' by blast
qed

section \<open>Properties\<close>

text \<open>
  C19: the multiplication by the reciprocal and the shift by 32 locate the cell of every index below
  \<open>2 ^ 26\<close> exactly as the division by \<open>values_per_long\<close> would, at every entry width.
\<close>

theorem cell_of_is_division:
  assumes "wf_storage s" "i < 2 ^ 26"
  shows "cell_of s i = i div bs_values_per_long s"
  using assms by (rule cell_of_div)

lemma cell_of_is_division_witness:
  "\<exists>s. storage_new 4096 5 = Some s \<and> cell_of s 67108863 = 5592405"
proof -
  obtain s where s: "storage_new 4096 5 = Some s" "wf_storage s" "bs_bits s = 5"
    using storage_new_eq [of 5 4096] by auto
  then have "bs_values_per_long s = 12" by (auto simp: wf_storage_def)
  with cell_of_is_division [OF s(2), of 67108863] s(1) show ?thesis by simp
qed

text \<open>
  C20: a write to a storage with an index in range and a value of the entry width succeeds, returns
  the previous entry, keeps the storage well-formed at its width and length, and afterwards every
  read gives the written value at that index and the old value at every other one.
\<close>

theorem storage_write_read:
  assumes "wf_storage s" "i < bs_len s" "unat v < 2 ^ bs_bits s"
  shows "\<exists>s'. storage_set s i v = Some (the (storage_get s i), s') \<and> wf_storage s' \<and>
    bs_bits s' = bs_bits s \<and> bs_len s' = bs_len s \<and>
    storage_get s' j = (if j = i then Some v else storage_get s j)"
proof -
  obtain s' where s': "storage_set s i v = Some (contents s ! i, s')" "wf_storage s'"
    "contents s' = (contents s)[i := v]" "bs_bits s' = bs_bits s" "bs_len s' = bs_len s"
    using storage_set_ok [OF assms] .
  have "entry s' j = (if j = i then v else entry s j)" if "j < bs_len s"
    using s'(3,5) that nth_contents [of j s'] assms(2) by (auto simp: nth_list_update split: if_splits)
  with s' assms show ?thesis by (intro exI [of _ s']) (auto simp: storage_get_eq)
qed

lemma storage_write_read_witness:
  "\<exists>s s'. storage_new 20 5 = Some s \<and> storage_set s 13 9 = Some (0, s') \<and> storage_get s' 13 = Some 9 \<and>
     storage_get s' 12 = Some 0"
proof -
  obtain s where s: "storage_new 20 5 = Some s" "wf_storage s" "bs_bits s = 5" "bs_len s = 20"
    "contents s = replicate 20 0"
    using storage_new_eq [of 5 20] by auto
  have z: "storage_get s 13 = Some 0" "storage_get s 12 = Some 0"
    using s nth_contents [of 13 s] nth_contents [of 12 s] by (simp_all add: storage_get_eq)
  obtain s' where "storage_set s 13 9 = Some (0, s')" "storage_get s' 12 = Some 0"
    using storage_write_read [OF s(2), of 13 9 12] s z by auto
  moreover from this have "storage_get s' 13 = Some 9"
    using storage_write_read [OF s(2), of 13 9 13] s z by auto
  ultimately show ?thesis using s(1) by blast
qed

text \<open>
  Out of range, or with a value wider than an entry, reads and writes panic: an index is never
  resolved to another entry and a value never spills into its neighbour.
\<close>

lemma storage_access_panics_iff:
  assumes "wf_storage s"
  shows "(storage_get s i = None) = (bs_len s \<le> i) \<and>
    (storage_set s i v = None) = (bs_len s \<le> i \<or> 2 ^ bs_bits s \<le> unat v)"
proof (cases "i < bs_len s \<and> unat v < 2 ^ bs_bits s")
  case True
  with storage_set_ok [OF assms, of i v] obtain s' where "storage_set s i v = Some (contents s ! i, s')"
    by blast
  then show ?thesis using True by (auto simp: storage_get_eq [OF assms])
next
  case False
  then have "storage_set s i v = None"
    using storage_set_None [OF assms] storage_fits_iff [OF assms] by blast
  then show ?thesis using False by (auto simp: storage_get_eq [OF assms])
qed

lemma storage_access_panics_iff_witness:
  "\<exists>s. storage_new 20 5 = Some s \<and> storage_set s 20 1 = None \<and> storage_set s 19 32 = None"
proof -
  obtain s where "storage_new 20 5 = Some s" "wf_storage s" "bs_bits s = 5" "bs_len s = 20"
    using storage_new_eq [of 5 20] by auto
  then show ?thesis using storage_access_panics_iff [of s 20 1] storage_access_panics_iff [of s 19 32]
    by auto
qed

text \<open>
  \<open>for_each\<close>, which shifts each cell instead of locating each entry, calls the callback with every
  index in order and with what \<open>get\<close> returns there, and with nothing from the unused tail of a cell.
\<close>

lemma storage_for_each_visits_gets:
  assumes "wf_storage s"
  shows "storage_for_each s f st = iterate (\<lambda>i. f i (the (storage_get s i))) [0..<bs_len s] st"
  unfolding storage_for_each_upt [OF assms]
  by (rule iterate_cong) (simp_all add: storage_get_eq [OF assms])

lemma storage_for_each_visits_gets_witness:
  "\<exists>s. storage_from_data 3 32 [0x200000001, 0xFF00000003] = Some (Some s) \<and>
     storage_for_each s (\<lambda>i v xs. Some (xs @ [v])) [] = Some [1, 2, 3]"
proof -
  let ?s = "\<lparr>bs_data = [0x200000001, 0xFF00000003], bs_len = 3, bs_bits = 32, bs_values_per_long = 2,
    bs_magic = 2147483648, bs_mask = 4294967295\<rparr>"
  have s: "storage_from_data 3 32 [0x200000001, 0xFF00000003] = Some (Some ?s)"
    by (simp add: storage_from_data_def MAX_BITS_def cells_required_def div_ceil_def reciprocal_def
        del: mask_u64)
  then have wf: "wf_storage ?s" by (simp only: storage_from_data_eq)
  have "storage_for_each ?s (\<lambda>i v xs. Some (xs @ [v])) [] = Some [1, 2, 3]"
    unfolding storage_for_each_visits_gets [OF wf]
    by (simp add: upt_rec storage_get_def locate_def cell_of_def)
  with s show ?thesis by blast
qed

text \<open>
  \<open>remap\<close> rebuilds the storage at a new width with every entry mapped, when the mapped entries
  fit the new width.
\<close>

lemma storage_remap_maps:
  assumes "wf_storage s" "0 < new_bits" "new_bits \<le> MAX_BITS"
    and "\<forall>v \<in> set (contents s). unat (f v) < 2 ^ new_bits"
  shows "\<exists>s'. storage_remap s new_bits (\<lambda>v. Some (f v)) = Some s' \<and> wf_storage s' \<and>
    bs_bits s' = new_bits \<and> contents s' = map f (contents s)"
  using storage_remap_eq [of s new_bits "\<lambda>v. Some (f v)"] assms by (auto simp: MAX_BITS_def comp_def)

lemma storage_remap_maps_witness:
  "\<exists>s s'. storage_new 20 4 = Some s \<and> storage_remap s 5 (\<lambda>v. Some (v + 17)) = Some s' \<and>
     contents s' = replicate 20 17"
proof -
  obtain s where s: "storage_new 20 4 = Some s" "wf_storage s" "contents s = replicate 20 0"
    using storage_new_eq [of 4 20] by auto
  with storage_remap_maps [OF s(2), of 5 "\<lambda>v. v + 17"] show ?thesis by (auto simp: MAX_BITS_def)
qed

text \<open>
  \<open>from_data\<close> never panics; it accepts cells exactly when the width and length are supported and
  the number of cells is the one \<open>new\<close> would allocate, and wraps them unchanged.
\<close>

lemma storage_from_data_accepts:
  "storage_from_data len bits data \<noteq> None \<and>
   (storage_from_data len bits data = Some (Some s)) =
     (wf_storage s \<and> bs_len s = len \<and> bs_bits s = bits \<and> bs_data s = data)"
  using storage_from_data_eq by blast

end
