(* ===== verification/Palette.thy ===== *)
theory Palette
  imports Bit_Storage Wire
begin

text \<open>
  \<open>crates/rukkit-world/src/palette.rs\<close>: the paletted container of a chunk section, with its three
  representations, the promotion on write, \<open>shrink\<close>, the block counts and the wire format.
  \<open>ids\<close> is the abstraction (the list of the registry ids), \<open>wf_container\<close> the invariant, and the
  container provides the array contract \<open>indexed_store\<close>. A \<open>None\<close> is a panic;
  \<open>debug_assert!\<close> is checked, as in a debug build.
\<close>

section \<open>The code\<close>

datatype container_kind = Blocks | Biomes

fun kind_volume :: "container_kind \<Rightarrow> usize" where
  "kind_volume Blocks = 16 * 16 * 16"
| "kind_volume Biomes = 4 * 4 * 4"

fun min_indirect_bits :: "container_kind \<Rightarrow> nat" where
  "min_indirect_bits Blocks = 4"
| "min_indirect_bits Biomes = 1"

fun max_indirect_bits :: "container_kind \<Rightarrow> nat" where
  "max_indirect_bits Blocks = 8"
| "max_indirect_bits Biomes = 3"

datatype repr =
    Single u32
  | Indirect "u32 list" bit_storage
  | Direct bit_storage

record paletted_container =
  pc_kind :: container_kind
  pc_direct_bits :: nat
  pc_repr :: repr

definition filled :: "container_kind \<Rightarrow> nat \<Rightarrow> u32 \<Rightarrow> paletted_container" where
  "filled kind direct_bits v = \<lparr>pc_kind = kind, pc_direct_bits = direct_bits, pc_repr = Single v\<rparr>"

definition container_volume :: "paletted_container \<Rightarrow> usize" where
  "container_volume c = kind_volume (pc_kind c)"

definition bits_per_entry :: "paletted_container \<Rightarrow> nat" where
  "bits_per_entry c = (case pc_repr c of
      Single v \<Rightarrow> 0
    | Indirect palette storage \<Rightarrow> bs_bits storage
    | Direct storage \<Rightarrow> bs_bits storage)"

definition palette_len :: "paletted_container \<Rightarrow> usize" where
  "palette_len c = (case pc_repr c of
      Single v \<Rightarrow> 1
    | Indirect palette storage \<Rightarrow> length palette
    | Direct storage \<Rightarrow> 2 ^ pc_direct_bits c)"

definition container_get :: "paletted_container \<Rightarrow> usize \<Rightarrow> u32 option" where
  "container_get c index =
     (if \<not> index < container_volume c then None
      else case pc_repr c of
        Single v \<Rightarrow> Some v
      | Indirect palette storage \<Rightarrow>
          Option.bind (storage_get storage index) (\<lambda>slot. nth_opt palette (unat slot))
      | Direct storage \<Rightarrow> storage_get storage index)"

text \<open>The slow paths of \<open>set\<close>: the representation has to change.\<close>

definition container_set_slow :: "paletted_container \<Rightarrow> usize \<Rightarrow> u32 \<Rightarrow> (u32 \<times> paletted_container) option" where
  "container_set_slow c index v = (case pc_repr c of
      Single previous \<Rightarrow>
        Option.bind (storage_new (kind_volume (pc_kind c)) (min_indirect_bits (pc_kind c))) (\<lambda>storage.
        Option.bind (storage_set storage index 1) (\<lambda>(_, storage).
        Some (previous, c\<lparr>pc_repr := Indirect [previous, v] storage\<rparr>)))
    | Indirect palette storage \<Rightarrow>
        let wider = bs_bits storage + 1 in
        if wider \<le> max_indirect_bits (pc_kind c) then
          Option.bind (storage_remap storage wider Some) (\<lambda>grown.
          let palette = palette @ [v] in
          Option.bind (storage_set grown index (word_of_nat (length palette - 1))) (\<lambda>(previous_slot, grown).
          Option.bind (nth_opt palette (unat previous_slot)) (\<lambda>previous.
          Some (previous, c\<lparr>pc_repr := Indirect palette grown\<rparr>))))
        else
          Option.bind (storage_remap storage (pc_direct_bits c) (\<lambda>slot. nth_opt palette (unat slot))) (\<lambda>direct.
          Option.bind (storage_set direct index v) (\<lambda>(previous, direct).
          Some (previous, c\<lparr>pc_repr := Direct direct\<rparr>)))
    | Direct storage \<Rightarrow> None)"

definition container_set :: "paletted_container \<Rightarrow> usize \<Rightarrow> u32 \<Rightarrow> (u32 \<times> paletted_container) option" where
  "container_set c index v =
     (if \<not> index < container_volume c then None
      else case pc_repr c of
        Single existing \<Rightarrow> if existing = v then Some (existing, c) else container_set_slow c index v
      | Direct storage \<Rightarrow>
          map_option (\<lambda>(previous, storage). (previous, c\<lparr>pc_repr := Direct storage\<rparr>))
            (storage_set storage index v)
      | Indirect palette storage \<Rightarrow> (case position (\<lambda>id. id = v) palette of
            Some slot \<Rightarrow>
              Option.bind (storage_set storage index (word_of_nat slot)) (\<lambda>(previous, storage).
              map_option (\<lambda>id. (id, c\<lparr>pc_repr := Indirect palette storage\<rparr>))
                (nth_opt palette (unat previous)))
          | None \<Rightarrow>
              if length palette < 2 ^ bs_bits storage then
                let palette = palette @ [v] in
                Option.bind (storage_set storage index (word_of_nat (length palette - 1))) (\<lambda>(previous, storage).
                map_option (\<lambda>id. (id, c\<lparr>pc_repr := Indirect palette storage\<rparr>))
                  (nth_opt palette (unat previous)))
              else container_set_slow c index v))"

definition container_fill :: "paletted_container \<Rightarrow> u32 \<Rightarrow> paletted_container" where
  "container_fill c v = c\<lparr>pc_repr := Single v\<rparr>"

definition container_for_each :: "paletted_container \<Rightarrow> (usize \<Rightarrow> u32 \<Rightarrow> 's \<Rightarrow> 's option) \<Rightarrow> 's \<Rightarrow> 's option" where
  "container_for_each c f st = (case pc_repr c of
      Single v \<Rightarrow> iterate (\<lambda>index. f index v) [0..<container_volume c] st
    | Indirect palette storage \<Rightarrow>
        storage_for_each storage (\<lambda>index slot st.
          Option.bind (nth_opt palette (unat slot)) (\<lambda>id. f index id st)) st
    | Direct storage \<Rightarrow> storage_for_each storage f st)"

definition container_count :: "paletted_container \<Rightarrow> (u32 \<Rightarrow> bool) \<Rightarrow> usize option" where
  "container_count c predicate = (case pc_repr c of
      Single v \<Rightarrow> Some (if predicate v then container_volume c else 0)
    | Indirect palette storage \<Rightarrow>
        let matching = map predicate palette in
        storage_for_each storage (\<lambda>_ slot total.
          map_option (\<lambda>m. if m then total + 1 else total) (nth_opt matching (unat slot))) 0
    | Direct storage \<Rightarrow>
        storage_for_each storage (\<lambda>_ id total. Some (if predicate id then total + 1 else total)) 0)"

definition bits_for :: "usize \<Rightarrow> nat" where
  "bits_for count = (if count \<le> 1 then 1 else 64 - leading_zeros (word_of_nat (count - 1) :: u64))"

text \<open>\<open>shrink\<close>: the distinct ids in the order of their first appearance, then the narrowest width.\<close>

definition container_distinct :: "paletted_container \<Rightarrow> u32 list option" where
  "container_distinct c = container_for_each c (\<lambda>_ id distinct.
     Some (if id \<in> set distinct then distinct else distinct @ [id])) []"

definition container_shrink :: "paletted_container \<Rightarrow> paletted_container option" where
  "container_shrink c = (case pc_repr c of
      Single v \<Rightarrow> Some c
    | _ \<Rightarrow>
        Option.bind (container_distinct c) (\<lambda>distinct.
        if length distinct = 1 then Some (c\<lparr>pc_repr := Single (distinct ! 0)\<rparr>)
        else let bits = max (bits_for (length distinct)) (min_indirect_bits (pc_kind c)) in
          if max_indirect_bits (pc_kind c) < bits then Some c
          else
            Option.bind (storage_new (kind_volume (pc_kind c)) bits) (\<lambda>storage.
            Option.bind (container_for_each c (\<lambda>index id storage.
                Option.bind (position (\<lambda>d. d = id) distinct) (\<lambda>slot.
                map_option snd (storage_set storage index (word_of_nat slot)))) storage) (\<lambda>storage.
            Some (c\<lparr>pc_repr := Indirect distinct storage\<rparr>)))))"

definition write_cells :: "bit_storage \<Rightarrow> bytes" where
  "write_cells storage = write_varint (word_of_nat (length (bs_data storage))) @
     concat (map write_i64 (bs_data storage))"

definition container_write :: "paletted_container \<Rightarrow> bytes" where
  "container_write c = (case pc_repr c of
      Single v \<Rightarrow> write_u8 0 @ write_varint v @ write_varint 0
    | Indirect palette storage \<Rightarrow>
        write_u8 (word_of_nat (bs_bits storage)) @ write_varint (word_of_nat (length palette)) @
        concat (map write_varint palette) @ write_cells storage
    | Direct storage \<Rightarrow> write_u8 (word_of_nat (bs_bits storage)) @ write_cells storage)"

definition container_wire_len :: "paletted_container \<Rightarrow> usize" where
  "container_wire_len c = (case pc_repr c of
      Single v \<Rightarrow> 1 + varint_len v + 1
    | Indirect palette storage \<Rightarrow>
        1 + varint_len (word_of_nat (length palette)) + sum_list (map varint_len palette) +
        varint_len (word_of_nat (length (bs_data storage))) + length (bs_data storage) * 8
    | Direct storage \<Rightarrow>
        1 + varint_len (word_of_nat (length (bs_data storage))) + length (bs_data storage) * 8)"

section \<open>The invariant and the abstraction\<close>

definition ids :: "paletted_container \<Rightarrow> u32 list" where
  "ids c = (case pc_repr c of
      Single v \<Rightarrow> replicate (container_volume c) v
    | Indirect palette storage \<Rightarrow> map (\<lambda>slot. palette ! unat slot) (contents storage)
    | Direct storage \<Rightarrow> contents storage)"

definition id_fits :: "paletted_container \<Rightarrow> u32 \<Rightarrow> bool" where
  "id_fits c v \<longleftrightarrow> unat v < 2 ^ pc_direct_bits c"

definition wf_indirect :: "paletted_container \<Rightarrow> u32 list \<Rightarrow> bit_storage \<Rightarrow> bool" where
  "wf_indirect c palette storage \<longleftrightarrow> wf_storage storage \<and> bs_len storage = container_volume c \<and>
     min_indirect_bits (pc_kind c) \<le> bs_bits storage \<and> bs_bits storage \<le> max_indirect_bits (pc_kind c) \<and>
     length palette \<le> 2 ^ bs_bits storage \<and> distinct palette \<and> list_all (id_fits c) palette \<and>
     list_all (\<lambda>slot. unat slot < length palette) (contents storage)"

definition wf_container :: "paletted_container \<Rightarrow> bool" where
  "wf_container c \<longleftrightarrow> 0 < pc_direct_bits c \<and> pc_direct_bits c \<le> 32 \<and> (case pc_repr c of
      Single v \<Rightarrow> id_fits c v
    | Indirect palette storage \<Rightarrow> wf_indirect c palette storage
    | Direct storage \<Rightarrow> wf_storage storage \<and> bs_len storage = container_volume c \<and>
        bs_bits storage = pc_direct_bits c)"

section \<open>Single steps\<close>

lemma kind_bounds [simp]:
  "0 < min_indirect_bits k" "min_indirect_bits k \<le> max_indirect_bits k" "max_indirect_bits k \<le> 8"
  "0 < kind_volume k" "kind_volume k < 67108864"
  by (cases k; simp)+

lemma container_volume_update [simp]: "container_volume (c\<lparr>pc_repr := r\<rparr>) = container_volume c"
  by (simp add: container_volume_def)

lemma id_fits_update [simp]: "id_fits (c\<lparr>pc_repr := r\<rparr>) = id_fits c"
  by (simp add: id_fits_def fun_eq_iff)

lemma wf_indirect_update [simp]: "wf_indirect (c\<lparr>pc_repr := r\<rparr>) = wf_indirect c"
  by (simp add: wf_indirect_def fun_eq_iff)

lemma unat_slot: "n < 2 ^ 32 \<Longrightarrow> unat (word_of_nat n :: u32) = n"
  by (simp add: unsigned_of_nat take_bit_nat_eq_self_iff)

lemma length_ids [simp]: "wf_container c \<Longrightarrow> length (ids c) = container_volume c"
  by (auto simp: ids_def wf_container_def wf_indirect_def split: repr.splits)

lemma wf_indirectD:
  assumes "wf_indirect c palette s"
  shows "wf_storage s" "bs_len s = container_volume c" "length palette \<le> 2 ^ bs_bits s" "distinct palette"
    "bs_bits s \<le> 8" "length palette \<le> 256" "i < bs_len s \<Longrightarrow> unat (contents s ! i) < length palette"
proof -
  from assms have a: "bs_bits s \<le> max_indirect_bits (pc_kind c)" "length palette \<le> 2 ^ bs_bits s"
    by (simp_all add: wf_indirect_def)
  with kind_bounds(3) [of "pc_kind c"] show b: "bs_bits s \<le> 8" by linarith
  then have "(2 :: nat) ^ bs_bits s \<le> 2 ^ 8" by (intro power_increasing) simp_all
  with a show "length palette \<le> 256" by simp
  show "wf_storage s" "bs_len s = container_volume c" "length palette \<le> 2 ^ bs_bits s" "distinct palette"
    using assms by (simp_all add: wf_indirect_def)
  show "i < bs_len s \<Longrightarrow> unat (contents s ! i) < length palette"
    using assms by (simp add: wf_indirect_def list_all_length)
qed

lemma list_all_update: "list_all P xs \<Longrightarrow> P v \<Longrightarrow> list_all P (xs[i := v])"
  using set_update_subset_insert [of xs i v] by (auto simp: list_all_iff)

lemma list_all_replicate [simp]: "list_all P (replicate n x) \<longleftrightarrow> n = 0 \<or> P x"
  by (induction n) auto

text \<open>The three ways a value gets its slot: it is in the palette, it is pushed, or the storage grew.\<close>

lemma indirect_existing:
  assumes w: "wf_indirect c palette s" and i: "i < container_volume c"
    and p: "position (\<lambda>id. id = v) palette = Some slot"
  shows "\<exists>s'. storage_set s i (word_of_nat slot) = Some (contents s ! i, s') \<and> wf_indirect c palette s' \<and>
    map (\<lambda>slot. palette ! unat slot) (contents s') = (map (\<lambda>slot. palette ! unat slot) (contents s))[i := v] \<and>
    bs_bits s' = bs_bits s"
proof -
  note W = wf_indirectD [OF w]
  from p have slot: "slot < length palette" "palette ! slot = v" by (simp_all add: position_Some)
  with W(6) have u: "unat (word_of_nat slot :: u32) = slot" by (intro unat_slot) simp
  obtain s' where s': "storage_set s i (word_of_nat slot) = Some (contents s ! i, s')" "wf_storage s'"
    "contents s' = (contents s)[i := word_of_nat slot]" "bs_bits s' = bs_bits s" "bs_len s' = bs_len s"
    using storage_set_ok [of s i "word_of_nat slot"] W slot i u by auto
  have "wf_indirect c palette s'"
    using w s' slot u by (auto simp: wf_indirect_def intro!: list_all_update)
  with s' slot u show ?thesis by (auto simp: map_update)
qed

lemma indirect_push:
  assumes w: "wf_indirect c palette s" and i: "i < container_volume c"
    and p: "position (\<lambda>id. id = v) palette = None" and v: "id_fits c v"
    and room: "length palette < 2 ^ bs_bits s"
  shows "\<exists>s'. storage_set s i (word_of_nat (length palette)) = Some (contents s ! i, s') \<and>
    wf_indirect c (palette @ [v]) s' \<and>
    map (\<lambda>slot. (palette @ [v]) ! unat slot) (contents s') =
      (map (\<lambda>slot. palette ! unat slot) (contents s))[i := v] \<and> bs_bits s' = bs_bits s"
proof -
  note W = wf_indirectD [OF w]
  let ?n = "length palette"
  from W(6) have u: "unat (word_of_nat ?n :: u32) = ?n" by (intro unat_slot) simp
  obtain s' where s': "storage_set s i (word_of_nat ?n) = Some (contents s ! i, s')" "wf_storage s'"
    "contents s' = (contents s)[i := word_of_nat ?n]" "bs_bits s' = bs_bits s" "bs_len s' = bs_len s"
    using storage_set_ok [of s i "word_of_nat ?n"] W room i u by auto
  have "v \<notin> set palette" using p by (auto simp: position_None)
  moreover have "list_all (\<lambda>slot. unat slot < Suc ?n) (contents s)"
    using w by (auto simp: wf_indirect_def list_all_iff less_SucI)
  ultimately have "wf_indirect c (palette @ [v]) s'"
    using w s' room u v by (auto simp: wf_indirect_def intro!: list_all_update)
  moreover have eq: "map (\<lambda>slot. (palette @ [v]) ! unat slot) (contents s) =
      map (\<lambda>slot. palette ! unat slot) (contents s)"
    using w by (auto simp: wf_indirect_def list_all_iff nth_append)
  have "map (\<lambda>slot. (palette @ [v]) ! unat slot) (contents s') =
      (map (\<lambda>slot. palette ! unat slot) (contents s))[i := v]"
    by (simp only: s'(3) map_update eq u nth_append_length)
  ultimately show ?thesis using s' by blast
qed

lemma indirect_widen:
  assumes w: "wf_indirect c palette s" and b: "bs_bits s + 1 \<le> max_indirect_bits (pc_kind c)"
  shows "\<exists>s'. storage_remap s (bs_bits s + 1) Some = Some s' \<and> wf_indirect c palette s' \<and>
    contents s' = contents s \<and> bs_bits s' = bs_bits s + 1"
proof -
  note W = wf_indirectD [OF w]
  have "\<forall>v \<in> set (contents s). \<exists>v'. Some v = Some v' \<and> unat v' < 2 ^ (bs_bits s + 1)"
    using w W(3) by (fastforce simp: wf_indirect_def list_all_iff)
  then obtain s' where "storage_remap s (bs_bits s + 1) Some = Some s'" "wf_storage s'"
    "bs_bits s' = bs_bits s + 1" "bs_len s' = bs_len s" "contents s' = contents s"
    using storage_remap_eq [OF W(1), of "bs_bits s + 1" Some] W(5) by (auto simp: comp_def)
  then show ?thesis using w b by (auto simp: wf_indirect_def)
qed

lemma indirect_to_direct:
  assumes w: "wf_indirect c palette s" and d: "0 < pc_direct_bits c" "pc_direct_bits c \<le> 32"
  shows "\<exists>s'. storage_remap s (pc_direct_bits c) (\<lambda>slot. nth_opt palette (unat slot)) = Some s' \<and>
    wf_storage s' \<and> bs_len s' = container_volume c \<and> bs_bits s' = pc_direct_bits c \<and>
    contents s' = map (\<lambda>slot. palette ! unat slot) (contents s)"
proof -
  note W = wf_indirectD [OF w]
  have "\<forall>v \<in> set (contents s). \<exists>v'. nth_opt palette (unat v) = Some v' \<and> unat v' < 2 ^ pc_direct_bits c"
    using w by (auto simp: wf_indirect_def list_all_iff id_fits_def)
  from storage_remap_eq [OF W(1) d this] obtain s' where
    s': "storage_remap s (pc_direct_bits c) (\<lambda>slot. nth_opt palette (unat slot)) = Some s'" "wf_storage s'"
    "bs_bits s' = pc_direct_bits c" "bs_len s' = bs_len s"
    "contents s' = map (the \<circ> (\<lambda>slot. nth_opt palette (unat slot))) (contents s)" by blast
  moreover have "map (the \<circ> (\<lambda>slot. nth_opt palette (unat slot))) (contents s) =
      map (\<lambda>slot. palette ! unat slot) (contents s)"
    using w by (auto simp: wf_indirect_def list_all_iff)
  ultimately show ?thesis using W(2) by metis
qed

section \<open>Reads and writes\<close>

lemma container_get_eq:
  assumes "wf_container c"
  shows "container_get c i = (if i < container_volume c then Some (ids c ! i) else None)"
proof (cases "pc_repr c")
  case (Indirect palette s)
  with assms have w: "wf_indirect c palette s" by (simp add: wf_container_def)
  from wf_indirectD(1,2) [OF w] wf_indirectD(7) [OF w, of i] Indirect show ?thesis
    by (auto simp: container_get_def ids_def storage_get_eq)
qed (use assms in \<open>auto simp: container_get_def ids_def wf_container_def storage_get_eq\<close>)

lemma new_indirect:
  assumes "i < container_volume c" "v \<noteq> w" "id_fits c v" "id_fits c w"
  shows "\<exists>s s'. storage_new (kind_volume (pc_kind c)) (min_indirect_bits (pc_kind c)) = Some s \<and>
    storage_set s i 1 = Some (0, s') \<and> wf_indirect c [v, w] s' \<and>
    map (\<lambda>slot. [v, w] ! unat slot) (contents s') = (replicate (container_volume c) v)[i := w]"
proof -
  let ?k = "pc_kind c" and ?b = "min_indirect_bits (pc_kind c)"
  have b: "0 < ?b" "?b \<le> 32" "kind_volume ?k < 2 ^ 26" by (cases ?k; simp)+
  have "2 ^ 1 \<le> (2 :: nat) ^ ?b" using b(1) by (intro power_increasing) linarith+
  then have b2: "2 \<le> (2 :: nat) ^ ?b" by simp
  from storage_new_eq [OF b] obtain s where
    s: "storage_new (kind_volume ?k) ?b = Some s" "wf_storage s" "bs_bits s = ?b"
      "bs_len s = container_volume c" "contents s = replicate (container_volume c) 0"
    by (auto simp: container_volume_def)
  then obtain s' where s': "storage_set s i 1 = Some (0, s')" "wf_storage s'" "bs_bits s' = ?b"
      "bs_len s' = container_volume c" "contents s' = (replicate (container_volume c) 0)[i := 1]"
    using storage_set_ok [of s i 1] assms(1) b2 by auto
  have "wf_indirect c [v, w] s'" using s' assms b2 by (auto simp: wf_indirect_def intro!: list_all_update)
  then show ?thesis using s(1) s'(1,5) by (auto simp: map_update)
qed

lemma container_set_spec:
  assumes wf: "wf_container c" and i: "i < container_volume c" and v: "id_fits c v"
  shows "\<exists>c'. container_set c i v = Some (ids c ! i, c') \<and> wf_container c' \<and>
    ids c' = (ids c)[i := v] \<and> pc_kind c' = pc_kind c \<and> pc_direct_bits c' = pc_direct_bits c"
proof (cases "pc_repr c")
  case (Single w)
  with wf have d: "0 < pc_direct_bits c" "pc_direct_bits c \<le> 32" "id_fits c w"
    by (simp_all add: wf_container_def)
  show ?thesis
  proof (cases "w = v")
    case True
    then show ?thesis using Single i wf
      by (auto simp: container_set_def ids_def intro!: nth_equalityI simp: nth_list_update)
  next
    case False
    with new_indirect [OF i False d(3) v] Single i d show ?thesis
      by (auto simp: container_set_def container_set_slow_def ids_def wf_container_def)
  qed
next
  case (Direct s)
  with wf have s: "wf_storage s" "bs_len s = container_volume c" "bs_bits s = pc_direct_bits c"
    "0 < pc_direct_bits c" "pc_direct_bits c \<le> 32" by (simp_all add: wf_container_def)
  with storage_set_ok [of s i v] i v obtain s' where "storage_set s i v = Some (contents s ! i, s')"
    "wf_storage s'" "contents s' = (contents s)[i := v]" "bs_bits s' = bs_bits s" "bs_len s' = bs_len s"
    by (auto simp: id_fits_def)
  with Direct s i show ?thesis by (simp add: container_set_def ids_def wf_container_def)
next
  case (Indirect palette s)
  with wf have w: "wf_indirect c palette s" and d: "0 < pc_direct_bits c" "pc_direct_bits c \<le> 32"
    by (simp_all add: wf_container_def)
  note W = wf_indirectD [OF w] and wi = wf_indirectD(7) [OF w, of i]
  have old: "nth_opt palette (unat (contents s ! i)) = Some (ids c ! i)"
      "nth_opt (palette @ [v]) (unat (contents s ! i)) = Some (ids c ! i)"
    using wi W(2) i Indirect by (simp_all add: ids_def nth_append)
  show ?thesis
  proof (cases "position (\<lambda>id. id = v) palette")
    case (Some slot)
    with indirect_existing [OF w i Some] Indirect i d old show ?thesis
      by (auto simp: container_set_def ids_def wf_container_def)
  next
    case None
    show ?thesis
    proof (cases "length palette < 2 ^ bs_bits s")
      case True
      with indirect_push [OF w i None v True] Indirect i d None old show ?thesis
        by (auto simp: container_set_def ids_def wf_container_def Let_def)
    next
      case full: False
      show ?thesis
      proof (cases "bs_bits s + 1 \<le> max_indirect_bits (pc_kind c)")
        case True
        from indirect_widen [OF w True] obtain s1 where
          s1: "storage_remap s (bs_bits s + 1) Some = Some s1" "wf_indirect c palette s1"
            "contents s1 = contents s" "bs_bits s1 = bs_bits s + 1" by blast
        have "(0 :: nat) < 2 ^ bs_bits s" by simp
        with W(3) have "length palette < 2 * 2 ^ bs_bits s" by linarith
        then have "length palette < 2 ^ bs_bits s1" using s1(4) by simp
        from indirect_push [OF s1(2) i None v this] s1 Indirect i d None old full True show ?thesis
          by (auto simp: container_set_def container_set_slow_def ids_def wf_container_def Let_def)
      next
        case False
        from indirect_to_direct [OF w d] obtain s1 where
          s1: "storage_remap s (pc_direct_bits c) (\<lambda>slot. nth_opt palette (unat slot)) = Some s1"
            "wf_storage s1" "bs_len s1 = container_volume c" "bs_bits s1 = pc_direct_bits c"
            "contents s1 = ids c" using Indirect by (auto simp: ids_def)
        with storage_set_ok [of s1 i v] i v obtain s' where
          "storage_set s1 i v = Some (ids c ! i, s')" "wf_storage s'" "contents s' = (ids c)[i := v]"
          "bs_bits s' = bs_bits s1" "bs_len s' = bs_len s1" by (auto simp: id_fits_def)
        with s1 Indirect i d None full False show ?thesis
          by (simp add: container_set_def container_set_slow_def ids_def [of "_\<lparr>pc_repr := _\<rparr>"]
              wf_container_def Let_def)
      qed
    qed
  qed
qed

interpretation container_store: indexed_store container_get container_set ids
    "\<lambda>c. wf_container c \<and> pc_kind c = k \<and> pc_direct_bits c = d" id_fits for k d
proof
  fix c i assume "wf_container c \<and> pc_kind c = k \<and> pc_direct_bits c = d" "i < length (ids c)"
  then show "container_get c i = Some (ids c ! i)" by (simp add: container_get_eq)
next
  fix c i v assume a: "wf_container c \<and> pc_kind c = k \<and> pc_direct_bits c = d" "i < length (ids c)" "id_fits c v"
  then obtain c' where "container_set c i v = Some (ids c ! i, c')" "wf_container c'"
    "ids c' = (ids c)[i := v]" "pc_kind c' = k" "pc_direct_bits c' = d"
    using container_set_spec [of c i v] by auto
  with a show "\<exists>c'. container_set c i v = Some (ids c ! i, c') \<and>
      (wf_container c' \<and> pc_kind c' = k \<and> pc_direct_bits c' = d) \<and>
      ids c' = (ids c)[i := v] \<and> id_fits c' = id_fits c"
    by (intro exI [of _ c']) (simp add: id_fits_def fun_eq_iff)
qed

lemma container_set_None: "\<not> i < container_volume c \<Longrightarrow> container_set c i v = None"
  by (simp add: container_set_def)

lemma filled_spec:
  "0 < d \<Longrightarrow> d \<le> 32 \<Longrightarrow> unat v < 2 ^ d \<Longrightarrow> wf_container (filled k d v)"
  "ids (filled k d v) = replicate (kind_volume k) v"
  by (simp_all add: filled_def wf_container_def id_fits_def ids_def container_volume_def)

lemma fill_spec:
  "wf_container c \<Longrightarrow> id_fits c v \<Longrightarrow> wf_container (container_fill c v)"
  "ids (container_fill c v) = replicate (container_volume c) v"
  by (auto simp: container_fill_def wf_container_def id_fits_def ids_def container_volume_def)

section \<open>Visits, counts and shrinking\<close>

lemma enumerate_map: "enumerate k (map f xs) = map (\<lambda>(i, x). (i, f x)) (enumerate k xs)"
  by (induction xs arbitrary: k) auto

lemma container_for_each_eq:
  assumes "wf_container c"
  shows "container_for_each c f st = iterate (\<lambda>(i, id). f i id) (enumerate 0 (ids c)) st"
proof (cases "pc_repr c")
  case (Single v)
  have "iterate (\<lambda>i. f i v) [0..<container_volume c] st =
      iterate (\<lambda>i. f i (replicate (container_volume c) v ! i)) [0..<container_volume c] st"
    by (rule iterate_cong) simp_all
  then show ?thesis by (simp add: Single container_for_each_def ids_def enumerate_as_upt iterate_map)
next
  case (Direct s)
  then show ?thesis using assms
    by (simp add: container_for_each_def ids_def storage_for_each_eq wf_container_def)
next
  case (Indirect palette s)
  with assms have w: "wf_indirect c palette s" by (simp add: wf_container_def)
  have "iterate (\<lambda>(i, slot) st. Option.bind (nth_opt palette (unat slot)) (\<lambda>id. f i id st))
      (enumerate 0 (contents s)) st =
    iterate (\<lambda>(i, slot). f i (palette ! unat slot)) (enumerate 0 (contents s)) st"
    using w by (intro iterate_cong) (auto simp: wf_indirect_def list_all_iff dest!: in_set_enumerate_snd)
  then show ?thesis using Indirect wf_indirectD(1) [OF w]
    by (simp add: container_for_each_def ids_def storage_for_each_eq enumerate_map iterate_map
        case_prod_unfold)
qed

lemma count_loop:
  "iterate (\<lambda>(i, x) total. Some (if P x then total + 1 else total)) (enumerate k xs) n =
     Some (n + length (filter P xs))"
  by (induction xs arbitrary: k n) auto

lemma container_count_eq:
  assumes "wf_container c"
  shows "container_count c P = Some (length (filter P (ids c)))"
proof (cases "pc_repr c")
  case (Indirect palette s)
  with assms have w: "wf_indirect c palette s" by (simp add: wf_container_def)
  have "iterate (\<lambda>(i, slot) total. map_option (\<lambda>m. if m then total + 1 else total)
        (nth_opt (map P palette) (unat slot))) (enumerate 0 (contents s)) 0 =
      iterate (\<lambda>(i, slot) total. Some (if P (palette ! unat slot) then total + 1 else total))
        (enumerate 0 (contents s)) (0 :: nat)"
    using w by (intro iterate_cong) (auto simp: wf_indirect_def list_all_iff dest!: in_set_enumerate_snd)
  also have "\<dots> = Some (length (filter (\<lambda>slot. P (palette ! unat slot)) (contents s)))"
    using count_loop [of "\<lambda>slot. P (palette ! unat slot)" 0 "contents s" 0] by simp
  finally show ?thesis using Indirect wf_indirectD(1) [OF w]
    by (simp add: container_count_def ids_def storage_for_each_eq filter_map comp_def)
next
  case (Direct s)
  then show ?thesis using assms count_loop [of P 0 "contents s" 0]
    by (simp add: container_count_def ids_def storage_for_each_eq wf_container_def)
qed (simp add: container_count_def ids_def)

lemma distinct_loop:
  "\<exists>ds. iterate (\<lambda>(i, x) ds. Some (if x \<in> set ds then ds else ds @ [x])) (enumerate k xs) acc = Some ds \<and>
     set ds = set acc \<union> set xs \<and> (distinct acc \<longrightarrow> distinct ds)"
proof (induction xs arbitrary: k acc)
  case (Cons x xs)
  show ?case using Cons.IH [of "Suc k" "if x \<in> set acc then acc else acc @ [x]"] by auto
qed simp

lemma container_distinct_eq:
  assumes "wf_container c"
  shows "\<exists>ds. container_distinct c = Some ds \<and> set ds = set (ids c) \<and> distinct ds"
  using distinct_loop [of 0 "ids c" "[]"] by (simp add: container_distinct_def container_for_each_eq [OF assms])

lemma bits_for_le_iff:
  assumes "count < 2 ^ 64"
  shows "bits_for count \<le> b \<longleftrightarrow> 0 < b \<and> count \<le> 2 ^ b"
proof (cases "count \<le> 1")
  case True
  then show ?thesis by (auto simp: bits_for_def intro: order_trans [OF True])
next
  case False
  then have "unat (word_of_nat (count - 1) :: u64) = count - 1"
    using assms by (simp add: unsigned_of_nat take_bit_nat_eq_self_iff del: of_nat_diff)
  moreover have "0 < b" if "count \<le> 2 ^ b" using that False by (cases b) auto
  ultimately show ?thesis using False bit_width_le_iff [of "word_of_nat (count - 1) :: u64" b]
    by (auto simp: bits_for_def)
qed

lemma ids_fit:
  assumes "wf_container c" "v \<in> set (ids c)"
  shows "id_fits c v"
proof (cases "pc_repr c")
  case (Direct s)
  then show ?thesis using assms entry_bound [of s]
    by (auto simp: ids_def wf_container_def id_fits_def contents_def)
next
  case (Indirect palette s)
  then show ?thesis using assms by (auto simp: ids_def wf_container_def wf_indirect_def list_all_iff)
qed (use assms in \<open>auto simp: ids_def wf_container_def\<close>)

text \<open>The rebuilding loop of \<open>shrink\<close> writes the slot of each id.\<close>

lemma shrink_loop:
  assumes wf: "wf_container c" and ds: "set ds = set (ids c)" "distinct ds" "length ds \<le> 2 ^ bits"
    and b: "min_indirect_bits (pc_kind c) \<le> bits" "bits \<le> max_indirect_bits (pc_kind c)"
  shows "\<exists>s s'. storage_new (kind_volume (pc_kind c)) bits = Some s \<and>
    container_for_each c (\<lambda>index id storage. Option.bind (position (\<lambda>d. d = id) ds) (\<lambda>slot.
      map_option snd (storage_set storage index (word_of_nat slot)))) s = Some s' \<and>
    wf_indirect c ds s' \<and> bs_bits s' = bits \<and> map (\<lambda>slot. ds ! unat slot) (contents s') = ids c"
proof -
  have bits: "0 < bits" "bits \<le> 8" "bits \<le> 32"
    using b kind_bounds(1,3) [of "pc_kind c"] by linarith+
  have "(2 :: nat) ^ bits \<le> 2 ^ 8" using bits by (intro power_increasing) simp_all
  with ds(3) have l: "length ds \<le> 256" by simp
  obtain s where s: "storage_new (kind_volume (pc_kind c)) bits = Some s" "wf_storage s" "bs_bits s = bits"
    "bs_len s = container_volume c"
    using storage_new_eq [OF bits(1,3), of "kind_volume (pc_kind c)"] by (auto simp: container_volume_def)
  let ?slot = "\<lambda>id. the (position (\<lambda>d. d = id) ds)"
  have pos: "\<exists>i. position (\<lambda>d. d = id) ds = Some i" if "id \<in> set (ids c)" for id
    using that ds(1) by (cases "position (\<lambda>d. d = id) ds") (auto simp: position_None)
  have slot: "?slot id < length ds" "ds ! ?slot id = id" "position (\<lambda>d. d = id) ds = Some (?slot id)"
    "unat (word_of_nat (?slot id) :: u32) = ?slot id" if "id \<in> set (ids c)" for id
  proof -
    from pos [OF that] obtain i where i: "position (\<lambda>d. d = id) ds = Some i" by blast
    then show "?slot id < length ds" "ds ! ?slot id = id" "position (\<lambda>d. d = id) ds = Some (?slot id)"
      using position_Some [of "\<lambda>d. d = id" ds i] by simp_all
    with l show "unat (word_of_nat (?slot id) :: u32) = ?slot id" by (intro unat_slot) simp
  qed
  have "\<forall>id \<in> set (ids c). storage_fits s (word_of_nat (?slot id))"
    using slot ds(3) by (fastforce simp: storage_fits_iff [OF s(2)] s(3))
  with storage_store.write_run [of s bits 0 "ids c" "\<lambda>id. word_of_nat (?slot id)"] s wf
  obtain s' where s': "iterate (\<lambda>(i, id) s. map_option snd (storage_set s i (word_of_nat (?slot id))))
        (enumerate 0 (ids c)) s = Some s'"
    "wf_storage s'" "bs_bits s' = bits" "contents s' = map (\<lambda>id. word_of_nat (?slot id)) (ids c)"
    by auto
  have "iterate (\<lambda>(i, id) s. Option.bind (position (\<lambda>d. d = id) ds) (\<lambda>slot.
        map_option snd (storage_set s i (word_of_nat slot)))) (enumerate 0 (ids c)) s = Some s'"
    unfolding s'(1) [symmetric]
    by (intro iterate_cong) (auto dest!: in_set_enumerate_snd pos)
  moreover have "bs_len s' = container_volume c" using arg_cong [OF s'(4), of length] wf by simp
  then have "wf_indirect c ds s'"
    using s' b ds slot wf by (auto simp: wf_indirect_def list_all_iff ids_fit)
  moreover have "map (\<lambda>slot. ds ! unat slot) (contents s') = ids c"
    using slot(2,4) by (auto simp: s'(4) intro: map_idI)
  ultimately show ?thesis using s s'(3) by (auto simp: container_for_each_eq [OF wf])
qed

text \<open>
  \<open>shrink\<close> keeps the ids, and reaches the width of the number \<open>n\<close> of distinct ids: none for one id,
  the palette width when it is allowed, the old representation otherwise.
\<close>

lemma container_shrink_spec:
  assumes wf: "wf_container c"
  defines "n \<equiv> card (set (ids c))"
  defines "b \<equiv> max (bits_for n) (min_indirect_bits (pc_kind c))"
  shows "\<exists>c'. container_shrink c = Some c' \<and> wf_container c' \<and> ids c' = ids c \<and>
    pc_kind c' = pc_kind c \<and> pc_direct_bits c' = pc_direct_bits c \<and>
    bits_per_entry c' = (if n = 1 then 0 else if b \<le> max_indirect_bits (pc_kind c) then b
      else bits_per_entry c)"
proof (cases "\<exists>v. pc_repr c = Single v")
  case True
  then obtain v where v: "pc_repr c = Single v" by blast
  then have "set (ids c) = {v}" by (simp add: ids_def container_volume_def)
  then have "n = 1" by (simp add: n_def)
  with v wf show ?thesis by (simp add: container_shrink_def bits_per_entry_def)
next
  case multi: False
  obtain ds where ds: "container_distinct c = Some ds" "set ds = set (ids c)" "distinct ds"
    using container_distinct_eq [OF wf] by blast
  have n: "length ds = n" using distinct_card [OF ds(3)] ds(2) by (simp add: n_def)
  have "n \<le> length (ids c)" unfolding n_def by (rule card_length)
  then have "n \<le> kind_volume (pc_kind c)" using wf by (simp add: container_volume_def)
  then have n64: "n < 2 ^ 64" by (cases "pc_kind c") simp_all
  have d: "0 < pc_direct_bits c" "pc_direct_bits c \<le> 32" using wf by (simp_all add: wf_container_def)
  have shrink: "container_shrink c =
      (if n = 1 then Some (c\<lparr>pc_repr := Single (ds ! 0)\<rparr>)
       else if max_indirect_bits (pc_kind c) < b then Some c
       else Option.bind (storage_new (kind_volume (pc_kind c)) b) (\<lambda>storage.
         Option.bind (container_for_each c (\<lambda>index id storage.
           Option.bind (position (\<lambda>d. d = id) ds) (\<lambda>slot.
           map_option snd (storage_set storage index (word_of_nat slot)))) storage) (\<lambda>storage.
         Some (c\<lparr>pc_repr := Indirect ds storage\<rparr>))))"
    using multi ds(1) by (cases "pc_repr c") (simp_all add: container_shrink_def n b_def Let_def)
  show ?thesis
  proof (cases "n = 1")
    case True
    then obtain v where v: "ds = [v]" using n by (auto simp: length_Suc_conv)
    then have s: "set (ids c) = {v}" using ds(2) by simp
    then have "ids c = replicate (container_volume c) v"
      using wf by (intro replicate_eqI) auto
    moreover have "id_fits c v" using ids_fit [OF wf] s by simp
    ultimately show ?thesis using shrink True v d
      by (simp add: wf_container_def ids_def [of "_\<lparr>pc_repr := _\<rparr>"] bits_per_entry_def)
  next
    case many: False
    show ?thesis
    proof (cases "max_indirect_bits (pc_kind c) < b")
      case True
      with shrink many wf show ?thesis by simp
    next
      case False
      have "bits_for n \<le> b" by (simp add: b_def)
      then have l: "length ds \<le> 2 ^ b" using bits_for_le_iff [OF n64] n by simp
      have b: "min_indirect_bits (pc_kind c) \<le> b" "b \<le> max_indirect_bits (pc_kind c)"
        using False by (simp_all add: b_def)
      from shrink_loop [OF wf ds(2,3) l b] obtain s s' where "storage_new (kind_volume (pc_kind c)) b = Some s"
        "container_for_each c (\<lambda>index id storage. Option.bind (position (\<lambda>d. d = id) ds) (\<lambda>slot.
          map_option snd (storage_set storage index (word_of_nat slot)))) s = Some s'"
        "wf_indirect c ds s'" "bs_bits s' = b" "map (\<lambda>slot. ds ! unat slot) (contents s') = ids c" by blast
      with shrink many False d show ?thesis
        by (simp add: wf_container_def ids_def [of "_\<lparr>pc_repr := _\<rparr>"] bits_per_entry_def)
    qed
  qed
qed

text \<open>No container with the same ids and the same thresholds is narrower than that.\<close>

lemma bits_per_entry_lower_bound:
  assumes wf: "wf_container c" and d: "max_indirect_bits (pc_kind c) \<le> pc_direct_bits c"
  defines "n \<equiv> card (set (ids c))"
  defines "b \<equiv> max (bits_for n) (min_indirect_bits (pc_kind c))"
  shows "(if n = 1 then 0 else if b \<le> max_indirect_bits (pc_kind c) then b
    else pc_direct_bits c) \<le> bits_per_entry c"
proof (cases "pc_repr c")
  case (Single v)
  then have "set (ids c) = {v}" by (simp add: ids_def container_volume_def)
  then show ?thesis by (simp add: n_def)
next
  case (Direct s)
  then show ?thesis using wf d by (auto simp: bits_per_entry_def wf_container_def)
next
  case (Indirect palette s)
  with wf have w: "wf_indirect c palette s" by (simp add: wf_container_def)
  note W = wf_indirectD [OF w]
  have "set (ids c) \<subseteq> set palette"
    using w by (auto simp: ids_def Indirect wf_indirect_def list_all_iff)
  then have "n \<le> length palette" unfolding n_def by (meson List.finite_set card_length card_mono le_trans)
  then have "n \<le> 2 ^ bs_bits s" "n \<le> 256" using W(3,6) by linarith+
  moreover have "0 < bs_bits s" using W(1) by (simp add: wf_storage_def)
  ultimately have "bits_for n \<le> bs_bits s" by (simp add: bits_for_le_iff)
  then have "b \<le> bs_bits s" "bs_bits s \<le> max_indirect_bits (pc_kind c)"
    using w by (simp_all add: b_def wf_indirect_def)
  then show ?thesis by (simp add: bits_per_entry_def Indirect)
qed

section \<open>The wire format\<close>

lemma length_concat_i64: "length (concat (map write_i64 xs)) = length xs * 8"
  by (induction xs) (auto simp: write_i64_def)

lemma length_concat_varint: "length (concat (map write_varint xs)) = sum_list (map varint_len xs)"
  by (induction xs) (auto simp: varint_len_eq)

lemma length_write_cells:
  "length (write_cells s) = varint_len (word_of_nat (length (bs_data s))) + length (bs_data s) * 8"
  by (simp add: write_cells_def length_concat_i64 varint_len_eq)

lemma length_container_write: "length (container_write c) = container_wire_len c"
  by (simp add: container_write_def container_wire_len_def length_write_cells length_concat_varint
      varint_len_eq write_u8_def write_leb_last write_varint_def split: repr.splits)

section \<open>Properties\<close>

text \<open>
  C16: writing an id to a paletted container, whatever its representation and whichever promotion the
  write forces, succeeds for an index in range and an id of the registry, returns the id that was
  there, keeps the invariant, and changes exactly that entry.
\<close>

theorem palette_set_correct:
  assumes "wf_container c" "i < container_volume c" "unat v < 2 ^ pc_direct_bits c"
  shows "\<exists>c'. container_set c i v = Some (the (container_get c i), c') \<and> wf_container c' \<and>
    ids c' = (ids c)[i := v]"
  using container_set_spec [OF assms(1,2)] assms by (auto simp: id_fits_def container_get_eq)

lemma palette_set_correct_witness:
  "\<exists>c'. container_set (filled Blocks 15 0) 4095 7 = Some (0, c') \<and> ids c' = replicate 4095 0 @ [7]"
proof -
  let ?c = "filled Blocks 15 0"
  have c: "wf_container ?c" "ids ?c = replicate 4096 0" "container_volume ?c = 4096" "pc_direct_bits ?c = 15"
    using filled_spec(1) [of 15 0 Blocks] filled_spec(2) [of Blocks 15 0]
    by (simp_all add: filled_def container_volume_def)
  obtain c' where c': "container_set ?c 4095 7 = Some (0, c')" "ids c' = (replicate 4096 0)[4095 := 7]"
    using palette_set_correct [OF c(1), of 4095 7] c by (auto simp: container_get_eq)
  have "replicate 4096 (0 :: u32) = replicate 4095 0 @ [0]"
    using replicate_app_Cons_same [of 4095 "0 :: u32" "[]"] replicate_add [of 4095 1 "0 :: u32"] by simp
  with c' show ?thesis by (simp add: list_update_append)
qed

text \<open>
  C17: a whole sequence of writes to a fresh container never panics, and reads back as the last write
  to each index, or the fill value.
\<close>

theorem palette_write_sequence:
  assumes "0 < d" "d \<le> 32" "unat fill < 2 ^ d"
    and "list_all (\<lambda>(i, v). i < kind_volume k \<and> unat v < 2 ^ d) ws"
  shows "\<exists>c. iterate (\<lambda>(i, v) c. map_option snd (container_set c i v)) ws (filled k d fill) = Some c \<and>
    wf_container c \<and> ids c = fold (\<lambda>(i, v) xs. xs[i := v]) ws (replicate (kind_volume k) fill)"
proof -
  have "\<exists>c'. iterate (\<lambda>(i, v) c. map_option snd (container_set c i v)) ws c = Some c' \<and>
      wf_container c' \<and> ids c' = fold (\<lambda>(i, v) xs. xs[i := v]) ws (ids c)"
    if "wf_container c" "pc_kind c = k" "pc_direct_bits c = d" for c
    using assms(4) that
  proof (induction ws arbitrary: c)
    case (Cons w ws)
    obtain i v where w: "w = (i, v)" by fastforce
    with Cons.prems container_set_spec [of c i v] obtain c1 where
      "container_set c i v = Some (ids c ! i, c1)" "wf_container c1" "ids c1 = (ids c)[i := v]"
      "pc_kind c1 = k" "pc_direct_bits c1 = d" by (auto simp: container_volume_def id_fits_def)
    with Cons.IH [of c1] Cons.prems(1) w show ?case by auto
  qed simp
  from this [of "filled k d fill"] filled_spec(1) [OF assms(1-3), of k] filled_spec(2) [of k d fill]
  show ?thesis by (simp add: filled_def)
qed

lemma palette_write_sequence_witness:
  "\<exists>c. iterate (\<lambda>(i, v) c. map_option snd (container_set c i v)) [(0, 3), (63, 9), (0, 4)]
      (filled Biomes 6 1) = Some c \<and> ids c ! 0 = 4"
  using palette_write_sequence [of 6 1 Biomes "[(0, 3), (63, 9), (0, 4)]"] by auto

text \<open>
  \<open>count\<close>, which evaluates the predicate once for each palette entry, counts the entries that
  satisfy it in every representation, and never panics.
\<close>

lemma palette_count_correct:
  assumes "wf_container c"
  shows "container_count c p = Some (length (filter p (ids c)))"
  using assms by (rule container_count_eq)

lemma palette_count_correct_witness:
  "container_count (filled Blocks 15 3) (\<lambda>v. v \<noteq> 0) = Some 4096"
proof -
  have "wf_container (filled Blocks 15 3)" by (rule filled_spec) simp_all
  then show ?thesis by (subst palette_count_correct) (simp_all add: filled_spec(2))
qed

text \<open>
  \<open>shrink\<close> never panics, keeps every entry, and reaches the narrowest representation: no
  well-formed container of the same kind and registry with the same entries uses fewer bits per
  entry, provided the direct width is at least the widest palette width.
\<close>

lemma palette_shrink_minimal:
  assumes "wf_container c" "max_indirect_bits (pc_kind c) \<le> pc_direct_bits c"
    and "wf_container c2" "pc_kind c2 = pc_kind c" "pc_direct_bits c2 = pc_direct_bits c" "ids c2 = ids c"
  shows "\<exists>c'. container_shrink c = Some c' \<and> wf_container c' \<and> ids c' = ids c \<and>
    bits_per_entry c' \<le> bits_per_entry c2"
proof -
  let ?n = "card (set (ids c))"
  let ?b = "max (bits_for ?n) (min_indirect_bits (pc_kind c))"
  obtain c' where c': "container_shrink c = Some c'" "wf_container c'" "ids c' = ids c"
    "bits_per_entry c' = (if ?n = 1 then 0 else if ?b \<le> max_indirect_bits (pc_kind c) then ?b
      else bits_per_entry c)"
    using container_shrink_spec [OF assms(1)] by auto
  have "(if ?n = 1 then 0 else if ?b \<le> max_indirect_bits (pc_kind c) then ?b else pc_direct_bits c)
      \<le> bits_per_entry c2"
    using bits_per_entry_lower_bound [OF assms(3)] assms(2) unfolding assms(4-6) by blast
  moreover have "bits_per_entry c \<le> pc_direct_bits c" using assms(1,2)
    by (auto simp: bits_per_entry_def wf_container_def wf_indirect_def split: repr.splits)
  ultimately show ?thesis using c' by (intro exI [of _ c']) (auto split: if_splits)
qed

lemma palette_shrink_minimal_witness:
  "\<exists>c'. container_shrink (filled Blocks 15 3) = Some c' \<and> bits_per_entry c' = 0"
proof -
  have c: "wf_container (filled Blocks 15 3)" by (rule filled_spec) simp_all
  have "bits_per_entry (filled Blocks 15 3) = 0" by (simp add: filled_def bits_per_entry_def)
  moreover have "pc_kind (filled Blocks 15 3) = Blocks" "pc_direct_bits (filled Blocks 15 3) = 15"
    by (simp_all add: filled_def)
  ultimately show ?thesis using palette_shrink_minimal [OF c _ c] by auto
qed

text \<open>\<open>wire_len\<close> is the number of bytes \<open>write\<close> produces, in every representation.\<close>

lemma palette_wire_len_exact: "length (container_write c) = container_wire_len c"
  by (rule length_container_write)

end
