(* ===== verification/Positions.thy ===== *)
theory Positions
  imports Wire
begin

text \<open>
  \<open>crates/rukkit-protocol/src/types.rs\<close>: block and chunk positions with their packed wire forms,
  game modes and difficulties. Signed shifts are \<open>signed_drop_bit\<close>, the cast \<open>as i64\<close> of an \<open>i32\<close> is
  sign extension (\<open>scast\<close>) and \<open>as i32\<close> keeps the low bits (\<open>ucast\<close>). \<open>ChunkPos\<close> derives \<open>Ord\<close>, which
  compares \<open>x\<close> and then \<open>z\<close> as signed integers; that order is the \<open>linorder\<close> instance below.
  The conversions of angles are in \<open>Angles\<close>.
\<close>

section \<open>Block positions\<close>

record block_pos =
  bp_x :: i32
  bp_y :: i32
  bp_z :: i32

definition block_pos_new :: "i32 \<Rightarrow> i32 \<Rightarrow> i32 \<Rightarrow> block_pos" where
  "block_pos_new x y z = \<lparr>bp_x = x, bp_y = y, bp_z = z\<rparr>"

definition block_pos_encode :: "block_pos \<Rightarrow> i64" where
  "block_pos_encode p =
     push_bit 38 (scast (bp_x p) AND 0x3FFFFFF) OR push_bit 12 (scast (bp_z p) AND 0x3FFFFFF) OR
     (scast (bp_y p) AND 0xFFF)"

definition block_pos_decode :: "i64 \<Rightarrow> block_pos" where
  "block_pos_decode packed =
     \<lparr>bp_x = ucast (signed_drop_bit 38 packed),
      bp_y = ucast (signed_drop_bit 52 (push_bit 52 packed)),
      bp_z = ucast (signed_drop_bit 38 (push_bit 26 packed))\<rparr>"

section \<open>Chunk positions\<close>

lemma sint_inject: "sint a = sint b \<longleftrightarrow> a = b" for a b :: "'a::len word"
  by (auto intro: signed_word_eqI)

datatype chunk_pos = ChunkPos (cp_x: i32) (cp_z: i32)

instantiation chunk_pos :: linorder
begin

definition less_eq_chunk_pos :: "chunk_pos \<Rightarrow> chunk_pos \<Rightarrow> bool" where
  "p \<le> q \<longleftrightarrow> cp_x p <s cp_x q \<or> (cp_x p = cp_x q \<and> cp_z p \<le>s cp_z q)"

definition less_chunk_pos :: "chunk_pos \<Rightarrow> chunk_pos \<Rightarrow> bool" where
  "p < q \<longleftrightarrow> cp_x p <s cp_x q \<or> (cp_x p = cp_x q \<and> cp_z p <s cp_z q)"

instance
  by standard
    (auto simp: less_eq_chunk_pos_def less_chunk_pos_def word_sless_alt word_sle_eq
      sint_inject intro: chunk_pos.expand)

end

definition block_pos_chunk :: "block_pos \<Rightarrow> chunk_pos" where
  "block_pos_chunk p = ChunkPos (signed_drop_bit 4 (bp_x p)) (signed_drop_bit 4 (bp_z p))"

definition to_long :: "chunk_pos \<Rightarrow> i64" where
  "to_long p = (scast (cp_x p) AND 0xFFFFFFFF) OR push_bit 32 (scast (cp_z p) AND 0xFFFFFFFF)"

definition from_long :: "i64 \<Rightarrow> chunk_pos" where
  "from_long packed = ChunkPos (ucast packed) (ucast (signed_drop_bit 32 packed))"

text \<open>\<open>i32\<close> subtraction and \<open>abs\<close> with the overflow checks of a debug build: \<open>None\<close> is the panic.\<close>

definition i32_checked :: "int \<Rightarrow> i32 option" where
  "i32_checked n = (if - (2 ^ 31) \<le> n \<and> n < 2 ^ 31 then Some (word_of_int n) else None)"

definition i32_abs_diff :: "i32 \<Rightarrow> i32 \<Rightarrow> i32 option" where
  "i32_abs_diff a b =
     Option.bind (i32_checked (sint a - sint b)) (\<lambda>e. i32_checked \<bar>sint e\<bar>)"

definition chebyshev_distance :: "chunk_pos \<Rightarrow> chunk_pos \<Rightarrow> i32 option" where
  "chebyshev_distance p q =
     Option.bind (i32_abs_diff (cp_x p) (cp_x q)) (\<lambda>dx.
     Option.bind (i32_abs_diff (cp_z p) (cp_z q)) (\<lambda>dz.
     Some (if dz <s dx then dx else dz)))"

section \<open>Game modes and difficulties\<close>

datatype game_mode = Survival | Creative | Adventure | Spectator

definition game_mode_from_id :: "i32 \<Rightarrow> game_mode presult" where
  "game_mode_from_id n =
     (if n = 0 then Inr Survival else if n = 1 then Inr Creative
      else if n = 2 then Inr Adventure else if n = 3 then Inr Spectator
      else Inl (InvalidEnum ''GameMode'' (scast n)))"

fun game_mode_id :: "game_mode \<Rightarrow> u8" where
  "game_mode_id Survival = 0"
| "game_mode_id Creative = 1"
| "game_mode_id Adventure = 2"
| "game_mode_id Spectator = 3"

fun game_mode_name :: "game_mode \<Rightarrow> string" where
  "game_mode_name Survival = ''survival''"
| "game_mode_name Creative = ''creative''"
| "game_mode_name Adventure = ''adventure''"
| "game_mode_name Spectator = ''spectator''"

datatype difficulty = Peaceful | Easy | Normal | Hard

definition difficulty_from_id :: "u8 \<Rightarrow> difficulty presult" where
  "difficulty_from_id n =
     (if n = 0 then Inr Peaceful else if n = 1 then Inr Easy
      else if n = 2 then Inr Normal else if n = 3 then Inr Hard
      else Inl (InvalidEnum ''Difficulty'' (ucast n)))"

fun difficulty_id :: "difficulty \<Rightarrow> u8" where
  "difficulty_id Peaceful = 0"
| "difficulty_id Easy = 1"
| "difficulty_id Normal = 2"
| "difficulty_id Hard = 3"

section \<open>Positions on the wire\<close>

definition write_position :: "block_pos \<Rightarrow> bytes" where
  "write_position v = to_be_bytes (block_pos_encode v)"

definition read_position :: "block_pos reader" where
  "read_position = rbind read_i64 (\<lambda>n. rreturn (block_pos_decode n))"

definition write_chunk_pos :: "chunk_pos \<Rightarrow> bytes" where
  "write_chunk_pos v = to_be_bytes (to_long v)"

definition read_chunk_pos :: "chunk_pos reader" where
  "read_chunk_pos = rbind read_i64 (\<lambda>n. rreturn (from_long n))"

section \<open>Lemmas\<close>

lemma to_long_from_long: "to_long (from_long k) = k"
  unfolding to_long_def from_long_def
  by (rule u64_eqI) (simp add: bit_simps)

lemma from_long_to_long: "from_long (to_long p) = p"
proof (rule chunk_pos.expand, intro conjI)
  show "cp_x (from_long (to_long p)) = cp_x p"
    unfolding to_long_def from_long_def chunk_pos.sel by (rule u32_eqI) (simp add: bit_simps)
  show "cp_z (from_long (to_long p)) = cp_z p"
    unfolding to_long_def from_long_def chunk_pos.sel by (rule u32_eqI) (simp add: bit_simps)
qed

lemma block_pos_encode_decode: "block_pos_encode (block_pos_decode k) = k"
  unfolding block_pos_encode_def block_pos_decode_def
  by (rule u64_eqI) (simp add: bit_simps)

text \<open>Packing keeps the low 26, 12 and 26 bits of the coordinates, sign-extended back.\<close>

lemma block_pos_decode_encode:
  "block_pos_decode (block_pos_encode p) =
     \<lparr>bp_x = signed_take_bit 25 (bp_x p), bp_y = signed_take_bit 11 (bp_y p),
      bp_z = signed_take_bit 25 (bp_z p)\<rparr>"
proof -
  have "ucast (signed_drop_bit 38 (block_pos_encode p)) = signed_take_bit 25 (bp_x p)"
    unfolding block_pos_encode_def by (rule u32_eqI) (simp add: bit_simps)
  moreover have "ucast (signed_drop_bit 52 (push_bit 52 (block_pos_encode p))) = signed_take_bit 11 (bp_y p)"
    unfolding block_pos_encode_def by (rule u32_eqI) (simp add: bit_simps)
  moreover have "ucast (signed_drop_bit 38 (push_bit 26 (block_pos_encode p))) = signed_take_bit 25 (bp_z p)"
    unfolding block_pos_encode_def by (rule u32_eqI) (simp add: bit_simps)
  ultimately show ?thesis by (simp add: block_pos_decode_def)
qed

lemma sint_signed_take_bit:
  fixes w :: "'a::len word"
  assumes "n < LENGTH('a)"
  shows "sint (signed_take_bit n w) = signed_take_bit n (sint w)"
proof (rule bit_eqI)
  fix k
  show "bit (sint (signed_take_bit n w)) k = bit (signed_take_bit n (sint w)) k"
    using assms by (cases "n = LENGTH('a) - 1") (auto simp: bit_simps min_def)
qed

lemma signed_take_bit_eq_iff:
  "n < LENGTH('a) \<Longrightarrow> signed_take_bit n w = w \<longleftrightarrow> - (2 ^ n) \<le> sint w \<and> sint w < 2 ^ n"
  for w :: "'a::len word"
  by (metis signed_take_bit_int_eq_self_iff signed_word_eqI sint_signed_take_bit)

text \<open>The positions the packed form can carry: 26-bit \<open>x\<close> and \<open>z\<close>, 12-bit \<open>y\<close>, all signed.\<close>

definition packable :: "block_pos \<Rightarrow> bool" where
  "packable p \<longleftrightarrow> - (2 ^ 25) \<le> sint (bp_x p) \<and> sint (bp_x p) < 2 ^ 25 \<and>
     - (2 ^ 11) \<le> sint (bp_y p) \<and> sint (bp_y p) < 2 ^ 11 \<and>
     - (2 ^ 25) \<le> sint (bp_z p) \<and> sint (bp_z p) < 2 ^ 25"

lemma block_pos_roundtrip_iff: "block_pos_decode (block_pos_encode p) = p \<longleftrightarrow> packable p"
proof -
  have "block_pos_decode (block_pos_encode p) = p \<longleftrightarrow>
      signed_take_bit 25 (bp_x p) = bp_x p \<and> signed_take_bit 11 (bp_y p) = bp_y p \<and>
      signed_take_bit 25 (bp_z p) = bp_z p"
    by (cases p) (simp add: block_pos_decode_encode)
  then show ?thesis by (auto simp: packable_def signed_take_bit_eq_iff)
qed

lemma sint_signed_drop_bit_div: "sint (signed_drop_bit n w) = sint w div 2 ^ n" for w :: "'a::len word"
  by (simp add: sint_signed_drop_bit_eq drop_bit_eq_div)

lemma sint_i32_bounds: "- (2 ^ 31) \<le> sint w" "sint w < 2 ^ 31" for w :: i32
  using sint_greater_eq [of w] sint_less [of w] by simp_all

lemma i32_checked_Some: "i32_checked n = Some w \<longleftrightarrow> - (2 ^ 31) \<le> n \<and> n < 2 ^ 31 \<and> w = word_of_int n"
  by (auto simp: i32_checked_def)

lemma sint_word_of_int_i32: "- (2 ^ 31) \<le> n \<Longrightarrow> n < 2 ^ 31 \<Longrightarrow> sint (word_of_int n :: i32) = n"
  by (simp add: signed_of_int signed_take_bit_int_eq_self)

lemma i32_checked_abs:
  "Option.bind (i32_checked n) (\<lambda>e. i32_checked \<bar>sint e\<bar>) =
     (if \<bar>n\<bar> < 2 ^ 31 then Some (word_of_int \<bar>n\<bar>) else None)"
proof (cases "- (2 ^ 31) \<le> n \<and> n < 2 ^ 31")
  case True
  then have "sint (word_of_int n :: i32) = n" by (intro sint_word_of_int_i32) auto
  with True show ?thesis by (auto simp: i32_checked_def)
next
  case False
  then show ?thesis by (auto simp: i32_checked_def)
qed

lemma i32_abs_diff_eq:
  "i32_abs_diff a b = (if \<bar>sint a - sint b\<bar> < 2 ^ 31 then Some (word_of_int \<bar>sint a - sint b\<bar>) else None)"
  unfolding i32_abs_diff_def by (rule i32_checked_abs)

lemma chebyshev_distance_eq:
  assumes "\<bar>sint (cp_x p) - sint (cp_x q)\<bar> < 2 ^ 31" "\<bar>sint (cp_z p) - sint (cp_z q)\<bar> < 2 ^ 31"
  shows "\<exists>d. chebyshev_distance p q = Some d \<and>
    sint d = max \<bar>sint (cp_x p) - sint (cp_x q)\<bar> \<bar>sint (cp_z p) - sint (cp_z q)\<bar>"
proof -
  have max_word: "sint (if word_of_int n <s (word_of_int m :: i32) then word_of_int m else word_of_int n :: i32) = max m n"
    if "0 \<le> m" "m < 2 ^ 31" "0 \<le> n" "n < 2 ^ 31" for m n
    using that by (simp add: word_sless_alt sint_word_of_int_i32)
  show ?thesis unfolding chebyshev_distance_def i32_abs_diff_eq
    using assms max_word [OF _ assms(1) _ assms(2)] by (simp only: if_True bind.bind_lunit) simp
qed

lemma chebyshev_distance_overflow:
  assumes "2 ^ 31 \<le> \<bar>sint (cp_x p) - sint (cp_x q)\<bar> \<or> 2 ^ 31 \<le> \<bar>sint (cp_z p) - sint (cp_z q)\<bar>"
  shows "chebyshev_distance p q = None"
  using assms unfolding chebyshev_distance_def i32_abs_diff_eq by auto

interpretation positionc: codec write_position read_position packable
proof
  fix p :: block_pos and xs ys :: bytes
  assume "packable p" "length xs + length (write_position p) + length ys < 2 ^ 64"
  then show "read_position (cursor xs (write_position p @ ys)) = Inr (p, cursor (xs @ write_position p) ys)"
    using i64c.rt [of xs "block_pos_encode p" ys]
    by (simp add: read_position_def write_position_def write_i64_def rbind_def rreturn_def
        block_pos_roundtrip_iff)
qed

interpretation chunkposc: codec write_chunk_pos read_chunk_pos "\<lambda>_. True"
proof
  fix p :: chunk_pos and xs ys :: bytes
  assume "length xs + length (write_chunk_pos p) + length ys < 2 ^ 64"
  then show "read_chunk_pos (cursor xs (write_chunk_pos p @ ys)) = Inr (p, cursor (xs @ write_chunk_pos p) ys)"
    using i64c.rt [of xs "to_long p" ys]
    by (simp add: read_chunk_pos_def write_chunk_pos_def write_i64_def rbind_def rreturn_def
        from_long_to_long)
qed

lemma progressing_positions [progress_intros]:
  "progressing read_position" "progressing read_chunk_pos"
  unfolding read_position_def read_chunk_pos_def by (intro progress_intros)+

lemma game_mode_roundtrip: "game_mode_from_id (ucast (game_mode_id m)) = Inr m"
  by (cases m) (simp_all add: game_mode_from_id_def)

lemma game_mode_from_id_Inr: "game_mode_from_id n = Inr m \<longleftrightarrow> n = ucast (game_mode_id m)"
  by (cases m) (auto simp: game_mode_from_id_def)

lemma difficulty_from_id_Inr: "difficulty_from_id n = Inr d \<longleftrightarrow> n = difficulty_id d"
  by (cases d) (auto simp: difficulty_from_id_def)

section \<open>Properties\<close>

text \<open>
  The packed long of a block position: decoding an encoded position gives it back exactly when
  \<open>x\<close> and \<open>z\<close> fit in 26 and \<open>y\<close> in 12 signed bits, and encoding any decoded long gives the long.
\<close>

lemma block_pos_pack_roundtrip:
  "(block_pos_decode (block_pos_encode p) = p) = packable p \<and> block_pos_encode (block_pos_decode k) = k"
  by (simp add: block_pos_roundtrip_iff block_pos_encode_decode)

text \<open>\<open>to_long\<close> and \<open>from_long\<close> are mutually inverse, so the packed long identifies a chunk.\<close>

lemma chunk_pos_long_bijection: "from_long (to_long p) = p \<and> to_long (from_long k) = k"
  by (simp add: from_long_to_long to_long_from_long)

text \<open>
  C40: \<open>chebyshev_distance\<close> is the larger coordinate difference when both differences fit in an
  \<open>i32\<close>, and an overflow panic otherwise.
\<close>

theorem chebyshev_distance_exact:
  "chebyshev_distance p q =
     (let dx = \<bar>sint (cp_x p) - sint (cp_x q)\<bar>; dz = \<bar>sint (cp_z p) - sint (cp_z q)\<bar> in
      if dx < 2 ^ 31 \<and> dz < 2 ^ 31 then Some (word_of_int (max dx dz)) else None)"
proof (cases "\<bar>sint (cp_x p) - sint (cp_x q)\<bar> < 2 ^ 31 \<and> \<bar>sint (cp_z p) - sint (cp_z q)\<bar> < 2 ^ 31")
  case True
  then obtain d where "chebyshev_distance p q = Some d"
    "sint d = max \<bar>sint (cp_x p) - sint (cp_x q)\<bar> \<bar>sint (cp_z p) - sint (cp_z q)\<bar>"
    using chebyshev_distance_eq [of p q] by auto
  moreover have "word_of_int (sint d) = d" for d :: i32 by simp
  ultimately have "chebyshev_distance p q =
      Some (word_of_int (max \<bar>sint (cp_x p) - sint (cp_x q)\<bar> \<bar>sint (cp_z p) - sint (cp_z q)\<bar>))"
    by metis
  with True show ?thesis by (simp only: Let_def if_True simp_thms)
next
  case False
  then show ?thesis using chebyshev_distance_overflow [of p q] by (auto simp: Let_def not_less)
qed

end
