(* ===== verification/Chunk.thy ===== *)
theory Chunk
  imports Palette Positions Nbt
begin

text \<open>
  \<open>crates/rukkit-world/src/block.rs\<close>, \<open>chunk.rs\<close> and \<open>generator.rs\<close>: block-state registries, the
  height limits of a world, 16x16x16 sections, chunk columns with their heightmaps, and the void and
  superflat generators. \<open>None\<close> is a panic; integer arithmetic is checked, as in a debug build.
  \<open>block_id\<close> is the abstraction of a column: the block at a local column and a height above the
  bottom of the world.
\<close>

section \<open>Block states\<close>

record block_states =
  bst_air :: u32
  bst_stone :: u32
  bst_dirt :: u32
  bst_grass_block :: u32
  bst_bedrock :: u32
  bst_total_states :: u32

definition placeholder :: block_states where
  "placeholder = \<lparr>bst_air = 0, bst_stone = 1, bst_dirt = 2, bst_grass_block = 3, bst_bedrock = 4,
     bst_total_states = 27000\<rparr>"

definition direct_bits :: "block_states \<Rightarrow> nat" where
  "direct_bits states = bits_for (unat (bst_total_states states))"

definition is_air :: "block_states \<Rightarrow> u32 \<Rightarrow> bool" where
  "is_air states state \<longleftrightarrow> state = bst_air states"

section \<open>Height limits\<close>

definition SECTION_SIZE :: usize where "SECTION_SIZE = 16"
definition SECTION_VOLUME :: usize where "SECTION_VOLUME = SECTION_SIZE * SECTION_SIZE * SECTION_SIZE"
definition COLUMNS :: usize where "COLUMNS = SECTION_SIZE * SECTION_SIZE"

record height_limits =
  hl_min_y :: i32
  hl_height :: u32

definition OVERWORLD :: height_limits where
  "OVERWORLD = \<lparr>hl_min_y = - 64, hl_height = 384\<rparr>"

definition section_count :: "height_limits \<Rightarrow> usize" where
  "section_count l = unat (hl_height l) div 16"

definition limits_max_y :: "height_limits \<Rightarrow> i32 option" where
  "limits_max_y l = Option.bind (i32_checked (sint (hl_min_y l) + sint (hl_height l)))
     (\<lambda>s. i32_checked (sint s - 1))"

definition limits_contains :: "height_limits \<Rightarrow> i32 \<Rightarrow> bool option" where
  "limits_contains l y = (if y <s hl_min_y l then Some False
     else map_option (\<lambda>m. y \<le>s m) (limits_max_y l))"

definition heightmap_bits :: "height_limits \<Rightarrow> nat" where
  "heightmap_bits l = bits_for (unat (hl_height l) + 1)"

definition section_index :: "usize \<Rightarrow> usize \<Rightarrow> usize \<Rightarrow> usize" where
  "section_index x y z = take_bit 64 (push_bit 8 y) OR take_bit 64 (push_bit 4 z) OR x"

section \<open>Sections\<close>

record chunk_section =
  cs_block_states :: paletted_container
  cs_biomes :: paletted_container

definition section_filled :: "block_states \<Rightarrow> u32 \<Rightarrow> u32 \<Rightarrow> chunk_section" where
  "section_filled states block biome =
     \<lparr>cs_block_states = filled Blocks (direct_bits states) block, cs_biomes = filled Biomes 6 biome\<rparr>"

definition section_block :: "chunk_section \<Rightarrow> usize \<Rightarrow> usize \<Rightarrow> usize \<Rightarrow> u32 option" where
  "section_block s x y z = container_get (cs_block_states s) (section_index x y z)"

definition section_set_block ::
  "chunk_section \<Rightarrow> usize \<Rightarrow> usize \<Rightarrow> usize \<Rightarrow> u32 \<Rightarrow> (u32 \<times> chunk_section) option" where
  "section_set_block s x y z state =
     map_option (\<lambda>(previous, c). (previous, s\<lparr>cs_block_states := c\<rparr>))
       (container_set (cs_block_states s) (section_index x y z) state)"

definition section_fill_blocks :: "chunk_section \<Rightarrow> u32 \<Rightarrow> chunk_section" where
  "section_fill_blocks s state = s\<lparr>cs_block_states := container_fill (cs_block_states s) state\<rparr>"

definition non_air_count :: "block_states \<Rightarrow> chunk_section \<Rightarrow> u16 option" where
  "non_air_count states s =
     map_option word_of_nat (container_count (cs_block_states s) (\<lambda>id. \<not> is_air states id))"

definition section_is_empty :: "block_states \<Rightarrow> chunk_section \<Rightarrow> bool option" where
  "section_is_empty states s = map_option (\<lambda>n. n = 0) (non_air_count states s)"

definition section_shrink :: "chunk_section \<Rightarrow> chunk_section option" where
  "section_shrink s =
     Option.bind (container_shrink (cs_block_states s)) (\<lambda>b.
     Option.bind (container_shrink (cs_biomes s)) (\<lambda>m.
     Some (s\<lparr>cs_block_states := b, cs_biomes := m\<rparr>)))"

definition section_write :: "block_states \<Rightarrow> chunk_section \<Rightarrow> bytes option" where
  "section_write states s = map_option (\<lambda>n. write_i16 n @ container_write (cs_block_states s) @
     container_write (cs_biomes s)) (non_air_count states s)"

definition section_wire_len :: "chunk_section \<Rightarrow> usize" where
  "section_wire_len s = 2 + container_wire_len (cs_block_states s) + container_wire_len (cs_biomes s)"

section \<open>Columns\<close>

record heightmaps =
  hm_motion_blocking :: bit_storage
  hm_world_surface :: bit_storage

definition heightmaps_new :: "height_limits \<Rightarrow> heightmaps option" where
  "heightmaps_new l = (let bits = heightmap_bits l in
     Option.bind (storage_new COLUMNS bits) (\<lambda>mb.
     Option.bind (storage_new COLUMNS bits) (\<lambda>ws.
     Some \<lparr>hm_motion_blocking = mb, hm_world_surface = ws\<rparr>)))"

text \<open>\<open>c as i64\<close> reinterprets the bits: the cells are the same words.\<close>

definition heightmaps_to_nbt :: "heightmaps \<Rightarrow> nbt_tag" where
  "heightmaps_to_nbt hm =
     (let compound = [];
          compound = compound_insert compound (lit ''MOTION_BLOCKING'')
            (NLongArray (bs_data (hm_motion_blocking hm)));
          compound = compound_insert compound (lit ''WORLD_SURFACE'')
            (NLongArray (bs_data (hm_world_surface hm)))
      in NCompound compound)"

record chunk =
  ch_pos :: chunk_pos
  ch_limits :: height_limits
  ch_sections :: "chunk_section list"
  ch_heightmaps :: heightmaps

definition chunk_empty :: "chunk_pos \<Rightarrow> height_limits \<Rightarrow> block_states \<Rightarrow> chunk option" where
  "chunk_empty pos l states = map_option (\<lambda>hm.
     \<lparr>ch_pos = pos, ch_limits = l,
      ch_sections = replicate (section_count l) (section_filled states (bst_air states) 0),
      ch_heightmaps = hm\<rparr>) (heightmaps_new l)"

definition section_of :: "chunk \<Rightarrow> i32 \<Rightarrow> usize option option" where
  "section_of c y = Option.bind (limits_contains (ch_limits c) y) (\<lambda>inside.
     if \<not> inside then Some None
     else map_option (\<lambda>d. Some (nat (sint (signed_drop_bit 4 d))))
       (i32_checked (sint y - sint (hl_min_y (ch_limits c)))))"

definition local_y :: "chunk \<Rightarrow> i32 \<Rightarrow> usize option" where
  "local_y c y = map_option (\<lambda>d. unat ((scast d :: u64) AND 0xF))
     (i32_checked (sint y - sint (hl_min_y (ch_limits c))))"

definition chunk_block :: "chunk \<Rightarrow> usize \<Rightarrow> i32 \<Rightarrow> usize \<Rightarrow> block_states \<Rightarrow> u32 option" where
  "chunk_block c x y z states = Option.bind (section_of c y) (\<lambda>found. case found of
       None \<Rightarrow> Some (bst_air states)
     | Some index \<Rightarrow>
         Option.bind (local_y c y) (\<lambda>ly.
         Option.bind (nth_opt (ch_sections c) index) (\<lambda>s.
         section_block s x ly z)))"

definition chunk_set_block ::
  "chunk \<Rightarrow> usize \<Rightarrow> i32 \<Rightarrow> usize \<Rightarrow> u32 \<Rightarrow> block_states \<Rightarrow> (u32 \<times> chunk) option" where
  "chunk_set_block c x y z state states = Option.bind (section_of c y) (\<lambda>found. case found of
       None \<Rightarrow> Some (bst_air states, c)
     | Some index \<Rightarrow>
         Option.bind (local_y c y) (\<lambda>ly.
         Option.bind (nth_opt (ch_sections c) index) (\<lambda>s.
         map_option (\<lambda>(previous, s). (previous, c\<lparr>ch_sections := (ch_sections c)[index := s]\<rparr>))
           (section_set_block s x ly z state))))"

definition chunk_section_mut :: "chunk \<Rightarrow> usize \<Rightarrow> chunk_section option" where
  "chunk_section_mut c index = nth_opt (ch_sections c) index"

text \<open>
  \<open>recompute_heightmaps\<close>: the state of the scan is the array of heights and the number of columns
  still unresolved. The loops over sections and layers leave early when it reaches zero.
\<close>

type_synonym scan = "u32 list \<times> usize"

definition usize_checked_sub :: "usize \<Rightarrow> usize \<Rightarrow> usize option" where
  "usize_checked_sub a b = (if a < b then None else Some (a - b))"

definition u32_checked :: "nat \<Rightarrow> u32 option" where
  "u32_checked n = (if n < 2 ^ 32 then Some (word_of_nat n) else None)"

definition scan_column ::
  "block_states \<Rightarrow> chunk_section \<Rightarrow> u32 \<Rightarrow> usize \<Rightarrow> usize \<times> usize \<Rightarrow> scan \<Rightarrow> scan option" where
  "scan_column states section base ly = (\<lambda>(z, x) (heights, unresolved).
     let column = z * SECTION_SIZE + x in
     Option.bind (nth_opt heights column) (\<lambda>h.
     if h \<noteq> 0 then Some (heights, unresolved)
     else Option.bind (section_block section x ly z) (\<lambda>id.
       if is_air states id then Some (heights, unresolved)
       else Option.bind (Option.bind (u32_checked (unat base + ly)) (\<lambda>v. u32_checked (unat v + 1))) (\<lambda>v.
         map_option (\<lambda>u. (heights[column := v], u)) (usize_checked_sub unresolved 1)))))"

definition layer_columns :: "(usize \<times> usize) list" where
  "layer_columns = [(z, x). z \<leftarrow> [0..<SECTION_SIZE], x \<leftarrow> [0..<SECTION_SIZE]]"

fun scan_layers :: "block_states \<Rightarrow> chunk_section \<Rightarrow> u32 \<Rightarrow> usize list \<Rightarrow> scan \<Rightarrow> scan option" where
  "scan_layers states section base [] st = Some st"
| "scan_layers states section base (ly # lys) (heights, unresolved) =
     (if unresolved = 0 then Some (heights, unresolved)
      else Option.bind (iterate (scan_column states section base ly) layer_columns (heights, unresolved))
        (scan_layers states section base lys))"

fun scan_sections :: "block_states \<Rightarrow> chunk_section list \<Rightarrow> usize list \<Rightarrow> scan \<Rightarrow> scan option" where
  "scan_sections states sections [] st = Some st"
| "scan_sections states sections (index # indices) (heights, unresolved) =
     (if unresolved = 0 then Some (heights, unresolved)
      else Option.bind (nth_opt sections index) (\<lambda>section.
        Option.bind (section_is_empty states section) (\<lambda>empty.
        if empty then scan_sections states sections indices (heights, unresolved)
        else Option.bind (scan_layers states section (word_of_nat (index * SECTION_SIZE))
            (rev [0..<SECTION_SIZE]) (heights, unresolved))
          (scan_sections states sections indices))))"

definition record_height :: "height_limits \<Rightarrow> usize \<Rightarrow> u32 \<Rightarrow> heightmaps \<Rightarrow> heightmaps option" where
  "record_height l column height hm =
     (if \<not> height \<le> hl_height l then None
      else Option.bind (storage_set (hm_motion_blocking hm) column height) (\<lambda>(_, mb).
        Option.bind (storage_set (hm_world_surface hm) column height) (\<lambda>(_, ws).
        Some \<lparr>hm_motion_blocking = mb, hm_world_surface = ws\<rparr>)))"

definition recompute_heightmaps :: "chunk \<Rightarrow> block_states \<Rightarrow> chunk option" where
  "recompute_heightmaps c states =
     Option.bind (scan_sections states (ch_sections c) (rev [0..<length (ch_sections c)])
       (replicate COLUMNS 0, COLUMNS)) (\<lambda>(heights, unresolved).
     map_option (\<lambda>hm. c\<lparr>ch_heightmaps := hm\<rparr>)
       (iterate (\<lambda>(column, height). record_height (ch_limits c) column height) (enumerate 0 heights)
         (ch_heightmaps c)))"

definition chunk_shrink :: "chunk \<Rightarrow> chunk option" where
  "chunk_shrink c = map_option (\<lambda>ss. c\<lparr>ch_sections := ss\<rparr>)
     (those (map section_shrink (ch_sections c)))"

definition write_sections :: "chunk \<Rightarrow> block_states \<Rightarrow> bytes option" where
  "write_sections c states = map_option concat (those (map (section_write states) (ch_sections c)))"

definition sections_wire_len :: "chunk \<Rightarrow> usize" where
  "sections_wire_len c = sum_list (map section_wire_len (ch_sections c))"

section \<open>Generators\<close>

definition void_generate :: "chunk_pos \<Rightarrow> height_limits \<Rightarrow> block_states \<Rightarrow> chunk option" where
  "void_generate pos l states = chunk_empty pos l states"

record flat_generator =
  fg_surface_y :: i32
  fg_dirt_depth :: i32

definition flat_default :: flat_generator where
  "flat_default = \<lparr>fg_surface_y = - 60, fg_dirt_depth = 2\<rparr>"

definition block_at :: "flat_generator \<Rightarrow> i32 \<Rightarrow> height_limits \<Rightarrow> block_states \<Rightarrow> u32 option" where
  "block_at g y l states =
     (if y = hl_min_y l then Some (bst_bedrock states)
      else if y = fg_surface_y g then Some (bst_grass_block states)
      else if y <s fg_surface_y g then
        map_option (\<lambda>dirt_y. if dirt_y \<le>s y then bst_dirt states else bst_stone states)
          (i32_checked (sint (fg_surface_y g) - sint (fg_dirt_depth g)))
      else Some (bst_air states))"

text \<open>\<open>Iterator::all\<close>, which stops at the first element that fails.\<close>

fun all_opt :: "('a \<Rightarrow> bool option) \<Rightarrow> 'a list \<Rightarrow> bool option" where
  "all_opt f [] = Some True"
| "all_opt f (x # xs) = Option.bind (f x) (\<lambda>b. if b then all_opt f xs else Some False)"

definition flat_layer :: "flat_generator \<Rightarrow> height_limits \<Rightarrow> block_states \<Rightarrow> i32 \<Rightarrow> usize \<Rightarrow>
    chunk_section \<Rightarrow> chunk_section option" where
  "flat_layer g l states base_y ly section =
     Option.bind (i32_checked (sint base_y + int ly)) (\<lambda>y.
     Option.bind (block_at g y l states) (\<lambda>state.
     if is_air states state then Some section
     else iterate (\<lambda>(z, x) section. map_option snd (section_set_block section x ly z state))
       layer_columns section))"

definition flat_section :: "flat_generator \<Rightarrow> height_limits \<Rightarrow> block_states \<Rightarrow> usize \<Rightarrow> chunk \<Rightarrow> chunk option" where
  "flat_section g l states index c =
     Option.bind (i32_checked (sint (hl_min_y l) + sint (word_of_nat (index * SECTION_SIZE) :: i32))) (\<lambda>base_y.
     Option.bind (Option.bind (i32_checked (sint base_y + 16)) (\<lambda>t. i32_checked (sint t - 1))) (\<lambda>top_y.
     Option.bind (block_at g base_y l states) (\<lambda>first.
     Option.bind (all_opt (\<lambda>y. map_option (\<lambda>b. b = first) (block_at g (word_of_int y) l states))
       [sint base_y..sint top_y]) (\<lambda>uniform.
     Option.bind (chunk_section_mut c index) (\<lambda>section.
     map_option (\<lambda>section. c\<lparr>ch_sections := (ch_sections c)[index := section]\<rparr>)
       (if uniform then Some (section_fill_blocks section first)
        else iterate (flat_layer g l states base_y) [0..<SECTION_SIZE] section))))))"

definition flat_generate :: "flat_generator \<Rightarrow> chunk_pos \<Rightarrow> height_limits \<Rightarrow> block_states \<Rightarrow> chunk option" where
  "flat_generate g pos l states =
     Option.bind (chunk_empty pos l states) (\<lambda>c.
     Option.bind (iterate (flat_section g l states) [0..<section_count l] c) (\<lambda>c.
     recompute_heightmaps c states))"

section \<open>The index of a block in its section\<close>

lemma section_index_eq:
  assumes "x < 16" "y < 16" "z < 16"
  shows "section_index x y z = y * 256 + z * 16 + x"
proof -
  have s: "take_bit 64 (push_bit 8 y) = push_bit 8 y" "take_bit 64 (push_bit 4 z) = push_bit 4 z"
    using assms by (simp_all add: push_bit_eq_mult take_bit_nat_eq_self_iff)
  have b: "\<not> bit x k" "\<not> bit z k" if "4 \<le> k" for k
    using assms that by (auto simp: bit_iff_odd dest: less_le_trans [of _ 16 "2 ^ k"]
        intro!: power_increasing [of 4 k "2 :: nat", simplified])
  have "push_bit 8 y AND push_bit 4 z = 0" using b by (auto simp: bit_eq_iff bit_simps)
  then have o1: "push_bit 8 y OR push_bit 4 z = push_bit 8 y + push_bit 4 z"
    by (simp add: disjunctive_add_eq_or)
  have "(push_bit 8 y OR push_bit 4 z) AND x = 0" using b by (auto simp: bit_eq_iff bit_simps)
  then have o2: "(push_bit 8 y OR push_bit 4 z) OR x = (push_bit 8 y OR push_bit 4 z) + x"
    by (simp only: disjunctive_add_eq_or)
  have "section_index x y z = (push_bit 8 y OR push_bit 4 z) OR x"
    by (simp only: section_index_def s or.assoc)
  also have "\<dots> = push_bit 8 y + push_bit 4 z + x" unfolding o2 unfolding o1 ..
  finally show ?thesis by (simp add: push_bit_eq_mult)
qed

lemma section_index_bound: "x < 16 \<Longrightarrow> y < 16 \<Longrightarrow> z < 16 \<Longrightarrow> section_index x y z < 4096"
  by (simp add: section_index_eq)

lemma section_index_inj:
  assumes "x < 16" "y < 16" "z < 16" "x' < 16" "y' < 16" "z' < 16"
  shows "section_index x y z = section_index x' y' z' \<longleftrightarrow> x = x' \<and> y = y' \<and> z = z'"
proof -
  have "(a * 256 + b * 16 + c) mod 16 = c" "(a * 256 + b * 16 + c) div 16 mod 16 = b"
    "(a * 256 + b * 16 + c) div 256 = a" if "c < 16" "b < 16" for a b c :: nat
  proof -
    have e: "a * 256 + b * 16 + c = (a * 16 + b) * 16 + c" by simp
    have q: "(q * 16 + c) mod 16 = c" "(q * 16 + c) div 16 = q" for q using that by simp_all
    show "(a * 256 + b * 16 + c) mod 16 = c" "(a * 256 + b * 16 + c) div 16 mod 16 = b"
      unfolding e q using that by simp_all
    show "(a * 256 + b * 16 + c) div 256 = a" using that by simp
  qed
  with assms show ?thesis by (metis section_index_eq)
qed

section \<open>Well-formed columns and the block at a position\<close>

definition id_ok :: "block_states \<Rightarrow> u32 \<Rightarrow> bool" where
  "id_ok states v \<longleftrightarrow> unat v < 2 ^ direct_bits states"

definition wf_states :: "block_states \<Rightarrow> bool" where
  "wf_states states \<longleftrightarrow> list_all (id_ok states) [bst_air states, bst_stone states, bst_dirt states,
     bst_grass_block states, bst_bedrock states]"

definition wf_section :: "block_states \<Rightarrow> chunk_section \<Rightarrow> bool" where
  "wf_section states s \<longleftrightarrow>
     wf_container (cs_block_states s) \<and> pc_kind (cs_block_states s) = Blocks \<and>
     pc_direct_bits (cs_block_states s) = direct_bits states \<and>
     wf_container (cs_biomes s) \<and> pc_kind (cs_biomes s) = Biomes \<and> pc_direct_bits (cs_biomes s) = 6"

definition wf_limits :: "height_limits \<Rightarrow> bool" where
  "wf_limits l \<longleftrightarrow> 16 dvd unat (hl_height l) \<and> 0 < unat (hl_height l) \<and> unat (hl_height l) < 2 ^ 31 \<and>
     sint (hl_min_y l) + int (unat (hl_height l)) < 2 ^ 31"

definition wf_heightmaps :: "height_limits \<Rightarrow> heightmaps \<Rightarrow> bool" where
  "wf_heightmaps l hm \<longleftrightarrow> list_all (\<lambda>s. wf_storage s \<and> bs_len s = COLUMNS \<and> bs_bits s = heightmap_bits l)
     [hm_motion_blocking hm, hm_world_surface hm]"

definition wf_chunk :: "block_states \<Rightarrow> chunk \<Rightarrow> bool" where
  "wf_chunk states c \<longleftrightarrow> wf_limits (ch_limits c) \<and>
     length (ch_sections c) = section_count (ch_limits c) \<and>
     list_all (wf_section states) (ch_sections c) \<and> wf_heightmaps (ch_limits c) (ch_heightmaps c)"

text \<open>The block at local \<open>x\<close> and \<open>z\<close>, \<open>h\<close> blocks above the bottom of the world.\<close>

definition block_id :: "chunk \<Rightarrow> usize \<Rightarrow> nat \<Rightarrow> usize \<Rightarrow> u32" where
  "block_id c x h z = ids (cs_block_states (ch_sections c ! (h div 16))) ! section_index x (h mod 16) z"

lemma direct_bits_bounds: "0 < direct_bits states" "direct_bits states \<le> 32"
proof -
  have "unat (bst_total_states states) < 2 ^ 64" "unat (bst_total_states states) \<le> 2 ^ 32"
    using unat_bound [of "bst_total_states states"] by simp_all
  then show "0 < direct_bits states" "direct_bits states \<le> 32"
    using bits_for_le_iff [of "unat (bst_total_states states)" 0]
      bits_for_le_iff [of "unat (bst_total_states states)" 32]
    by (simp_all add: direct_bits_def)
qed

lemma heightmap_bits_spec:
  assumes "wf_limits l"
  shows "0 < heightmap_bits l" "heightmap_bits l \<le> 32" "unat (hl_height l) < 2 ^ heightmap_bits l"
proof -
  let ?n = "unat (hl_height l) + 1"
  have n: "?n < 2 ^ 64" "?n \<le> 2 ^ 32" using assms by (simp_all add: wf_limits_def)
  show "0 < heightmap_bits l" "heightmap_bits l \<le> 32"
    using bits_for_le_iff [OF n(1), of 0] bits_for_le_iff [OF n(1), of 32] n(2)
    by (simp_all add: heightmap_bits_def)
  have "?n \<le> 2 ^ heightmap_bits l" using bits_for_le_iff [OF n(1), of "heightmap_bits l"]
    by (simp add: heightmap_bits_def)
  then show "unat (hl_height l) < 2 ^ heightmap_bits l" by simp
qed

lemma sint_i32_small:
  fixes w :: i32
  assumes "unat w < 2 ^ 31"
  shows "sint w = int (unat w)"
proof -
  have "int (unat w) < int (2 ^ 31)" using assms by (simp only: of_nat_less_iff)
  then have "uint w < 2 ^ 31" by simp
  moreover have "- (2 ^ 31) \<le> uint w" by (rule order_trans [OF _ uint_ge_0]) simp
  ultimately show ?thesis by (simp add: sint_uint signed_take_bit_int_eq_self)
qed

text \<open>The height of well-formed limits as a number, and the room above and below it.\<close>

definition world_height :: "height_limits \<Rightarrow> nat" where
  "world_height l = unat (hl_height l)"

lemma wf_limitsD:
  assumes "wf_limits l"
  shows "world_height l = 16 * section_count l" "0 < world_height l" "world_height l < 2 ^ 31"
    "sint (hl_height l) = int (world_height l)" "sint (hl_min_y l) + int (world_height l) < 2 ^ 31"
    "- (2 ^ 31) \<le> sint (hl_min_y l)"
  using assms sint_i32_bounds [of "hl_min_y l"]
  unfolding wf_limits_def section_count_def world_height_def by (auto simp: sint_i32_small)

lemma i32_checked_eq: "- (2 ^ 31) \<le> n \<Longrightarrow> n < 2 ^ 31 \<Longrightarrow> i32_checked n = Some (word_of_int n)"
  by (simp add: i32_checked_def)

lemma limits_max_y_eq:
  assumes "wf_limits l"
  shows "limits_max_y l = Some (word_of_int (sint (hl_min_y l) + int (world_height l) - 1))"
proof -
  define a b where "a = sint (hl_min_y l)" and "b = int (world_height l)"
  have ab: "- (2 ^ 31) \<le> a" "0 < b" "a + b < 2 ^ 31" using wf_limitsD [OF assms] by (simp_all add: a_def b_def)
  have "limits_max_y l = Option.bind (i32_checked (a + b)) (\<lambda>s. i32_checked (sint s - 1))"
    by (simp only: limits_max_y_def wf_limitsD(4) [OF assms] a_def b_def)
  also have "\<dots> = i32_checked (sint (word_of_int (a + b) :: i32) - 1)"
    using ab by (subst i32_checked_eq) simp_all
  also have "sint (word_of_int (a + b) :: i32) = a + b" using ab by (intro sint_word_of_int_i32) linarith+
  also have "i32_checked (a + b - 1) = Some (word_of_int (a + b - 1))" using ab by (intro i32_checked_eq) linarith+
  finally show ?thesis unfolding a_def b_def .
qed

lemma limits_contains_eq:
  assumes l: "wf_limits l"
  shows "limits_contains l y =
    Some (sint (hl_min_y l) \<le> sint y \<and> sint y < sint (hl_min_y l) + int (world_height l))"
proof -
  have "sint (word_of_int (sint (hl_min_y l) + int (world_height l) - 1) :: i32) =
      sint (hl_min_y l) + int (world_height l) - 1"
    using wf_limitsD [OF l] by (intro sint_word_of_int_i32) linarith+
  then show ?thesis by (auto simp: limits_contains_def limits_max_y_eq [OF l] word_sless_alt word_sle_eq)
qed

text \<open>Where an absolute height is stored.\<close>

lemma section_of_eq:
  assumes c: "wf_limits (ch_limits c)" and h: "sint y = sint (hl_min_y (ch_limits c)) + int h"
    and lt: "h < world_height (ch_limits c)"
  shows "section_of c y = Some (Some (h div 16))" "local_y c y = Some (h mod 16)"
proof -
  have h31: "h < 2 ^ 31" using lt wf_limitsD(3) [OF c] by linarith
  have d: "i32_checked (sint y - sint (hl_min_y (ch_limits c))) = Some (word_of_nat h)"
    using h h31 by (simp add: i32_checked_def)
  have u: "unat (word_of_nat h :: i32) = h" using h31 by (simp add: unsigned_of_nat take_bit_nat_eq_self_iff)
  then have s: "sint (word_of_nat h :: i32) = int h" using h31 by (simp add: sint_i32_small)
  have "sint (signed_drop_bit 4 (word_of_nat h :: i32)) = int h div 16"
    by (simp only: sint_signed_drop_bit_div s) simp
  then have "nat (sint (signed_drop_bit 4 (word_of_nat h :: i32))) = h div 16" by (simp add: nat_div_distrib)
  then show "section_of c y = Some (Some (h div 16))"
    using lt h by (simp add: section_of_def limits_contains_eq [OF c] d [unfolded h, simplified])
  have "(scast (word_of_nat h :: i32) :: u64) = word_of_nat h" by (simp add: scast_eq s)
  then have "unat ((scast (word_of_nat h :: i32) :: u64) AND 0xF) = unat (take_bit 4 (word_of_nat h :: u64))"
    by (simp add: take_bit_eq_mask mask_eq_exp_minus_1)
  also have "\<dots> = take_bit 4 (unat (word_of_nat h :: u64))" by (simp only: unsigned_take_bit_eq)
  also have "unat (word_of_nat h :: u64) = h" using h31 by (simp add: unsigned_of_nat take_bit_nat_eq_self_iff)
  also have "take_bit 4 h = h mod 16" by (simp add: take_bit_eq_mod)
  finally show "local_y c y = Some (h mod 16)" by (simp add: local_y_def h d [unfolded h, simplified])
qed

lemma section_of_outside:
  assumes "wf_limits (ch_limits c)"
    and "sint y < sint (hl_min_y (ch_limits c)) \<or>
      sint (hl_min_y (ch_limits c)) + int (world_height (ch_limits c)) \<le> sint y"
  shows "section_of c y = Some None"
  using assms(2) by (auto simp: section_of_def limits_contains_eq [OF assms(1)])

lemma wf_sectionD:
  assumes "wf_section states s"
  shows "wf_container (cs_block_states s)" "container_volume (cs_block_states s) = 4096"
    "id_fits (cs_block_states s) v = id_ok states v"
  using assms by (auto simp: wf_section_def container_volume_def id_fits_def id_ok_def)

lemma wf_chunkD:
  assumes "wf_chunk states c"
  shows "wf_limits (ch_limits c)" "length (ch_sections c) = section_count (ch_limits c)"
    "world_height (ch_limits c) = 16 * length (ch_sections c)"
    "i < length (ch_sections c) \<Longrightarrow> wf_section states (ch_sections c ! i)"
    "h < world_height (ch_limits c) \<Longrightarrow> h div 16 < length (ch_sections c)"
  using assms wf_limitsD(1) [of "ch_limits c"]
  by (auto simp: wf_chunk_def list_all_length less_mult_imp_div_less mult.commute)

lemma section_block_eq:
  assumes "wf_section states s" "x < 16" "y < 16" "z < 16"
  shows "section_block s x y z = Some (ids (cs_block_states s) ! section_index x y z)"
  using wf_sectionD [OF assms(1)] section_index_bound [OF assms(2-4)]
  by (simp add: section_block_def container_get_eq)

lemma section_set_block_eq:
  assumes s: "wf_section states s" and i: "x < 16" "y < 16" "z < 16" and v: "id_ok states v"
  shows "\<exists>s'. section_set_block s x y z v = Some (ids (cs_block_states s) ! section_index x y z, s') \<and>
    wf_section states s' \<and> cs_biomes s' = cs_biomes s \<and>
    ids (cs_block_states s') = (ids (cs_block_states s))[section_index x y z := v]"
proof -
  obtain c' where "container_set (cs_block_states s) (section_index x y z) v =
      Some (ids (cs_block_states s) ! section_index x y z, c')" "wf_container c'"
    "ids c' = (ids (cs_block_states s))[section_index x y z := v]"
    "pc_kind c' = pc_kind (cs_block_states s)" "pc_direct_bits c' = pc_direct_bits (cs_block_states s)"
    using container_set_spec [of "cs_block_states s" "section_index x y z" v]
      wf_sectionD [OF s] section_index_bound [OF i] v by auto
  then show ?thesis using s by (simp add: section_set_block_def wf_section_def)
qed

lemma chunk_block_eq:
  assumes c: "wf_chunk states c" and "x < 16" "z < 16"
    and y: "sint y = sint (hl_min_y (ch_limits c)) + int h" "h < world_height (ch_limits c)"
  shows "chunk_block c x y z states = Some (block_id c x h z)"
  using section_of_eq [OF wf_chunkD(1) [OF c] y] wf_chunkD(5) [OF c y(2)] assms
    section_block_eq [OF wf_chunkD(4) [OF c wf_chunkD(5) [OF c y(2)]], of x "h mod 16" z]
  by (simp add: chunk_block_def block_id_def)

lemma chunk_set_block_eq:
  assumes c: "wf_chunk states c" and xz: "x < 16" "z < 16" and v: "id_ok states v"
    and y: "sint y = sint (hl_min_y (ch_limits c)) + int h" "h < world_height (ch_limits c)"
  shows "\<exists>c'. chunk_set_block c x y z v states = Some (block_id c x h z, c') \<and> wf_chunk states c' \<and>
    ch_limits c' = ch_limits c \<and> (\<forall>x' h' z'. x' < 16 \<longrightarrow> z' < 16 \<longrightarrow> h' < world_height (ch_limits c) \<longrightarrow>
      block_id c' x' h' z' = (if x' = x \<and> h' = h \<and> z' = z then v else block_id c x' h' z'))"
proof -
  let ?i = "h div 16" and ?l = "h mod 16"
  note i = wf_chunkD(5) [OF c y(2)] and s = wf_chunkD(4) [OF c]
  obtain s' where s': "section_set_block (ch_sections c ! ?i) x ?l z v = Some (block_id c x h z, s')"
    "wf_section states s'"
    "ids (cs_block_states s') = (ids (cs_block_states (ch_sections c ! ?i)))[section_index x ?l z := v]"
    using section_set_block_eq [OF s [OF i] xz(1) _ xz(2) v, of ?l] by (auto simp: block_id_def)
  let ?c = "c\<lparr>ch_sections := (ch_sections c)[?i := s']\<rparr>"
  have set: "chunk_set_block c x y z v states = Some (block_id c x h z, ?c)"
    using section_of_eq [OF wf_chunkD(1) [OF c] y] i s' by (simp add: chunk_set_block_def)
  have wf: "wf_chunk states ?c"
    using c s' by (auto simp: wf_chunk_def intro!: list_all_update)
  have "block_id ?c x' h' z' = (if x' = x \<and> h' = h \<and> z' = z then v else block_id c x' h' z')"
    if b: "x' < 16" "z' < 16" "h' < world_height (ch_limits c)" for x' h' z'
  proof (cases "h' div 16 = ?i")
    case False
    then show ?thesis by (auto simp: block_id_def)
  next
    case True
    have len: "length (ids (cs_block_states (ch_sections c ! ?i))) = 4096"
      using wf_sectionD [OF s [OF i]] by simp
    have "h' = h \<longleftrightarrow> h' mod 16 = ?l" using True by (metis div_mult_mod_eq)
    moreover have "section_index x' (h' mod 16) z' = section_index x ?l z \<longleftrightarrow> x' = x \<and> h' mod 16 = ?l \<and> z' = z"
      using xz b by (intro section_index_inj) simp_all
    moreover have "section_index x ?l z < 4096" using xz by (intro section_index_bound) simp_all
    ultimately show ?thesis using True i s'(3) len by (auto simp: block_id_def nth_list_update)
  qed
  with set wf show ?thesis by (intro exI [of _ ?c]) auto
qed

section \<open>Heightmaps\<close>

text \<open>One above the highest position of \<open>[k..<n]\<close> that satisfies \<open>f\<close>, or zero.\<close>

definition top :: "(nat \<Rightarrow> bool) \<Rightarrow> nat \<Rightarrow> nat \<Rightarrow> nat" where
  "top f k n = (case find f (rev [k..<n]) of None \<Rightarrow> 0 | Some y \<Rightarrow> Suc y)"

lemma find_SomeD: "find f xs = Some y \<Longrightarrow> y \<in> set xs \<and> f y"
  by (induction xs) (auto split: if_splits)

lemma top_empty [simp]: "top f n n = 0"
  by (simp add: top_def)

lemma find_append: "find f (xs @ ys) = (case find f xs of None \<Rightarrow> find f ys | Some x \<Rightarrow> Some x)"
  by (induction xs) auto

lemma top_step: "k < n \<Longrightarrow> top f k n = (if top f (Suc k) n \<noteq> 0 then top f (Suc k) n else if f k then Suc k else 0)"
  by (simp add: top_def upt_conv_Cons find_append split: option.splits)

lemma top_stable: "top f k n \<noteq> 0 \<Longrightarrow> j \<le> k \<Longrightarrow> k \<le> n \<Longrightarrow> top f j n = top f k n"
  by (induction "k - j" arbitrary: j) (auto simp: top_step Suc_diff_Suc)

lemma top_skip: "\<forall>i. j \<le> i \<and> i < k \<longrightarrow> \<not> f i \<Longrightarrow> j \<le> k \<Longrightarrow> k \<le> n \<Longrightarrow> top f j n = top f k n"
proof (induction "k - j" arbitrary: j)
  case (Suc m)
  then have "top f (Suc j) n = top f k n" by (intro Suc.hyps(1)) auto
  moreover have "\<not> f j" "j < n" using Suc.hyps(2) Suc.prems by auto
  ultimately show ?case by (simp add: top_step)
qed simp

lemma top_le: "top f k n \<le> n"
  by (auto simp: top_def split: option.splits dest!: find_SomeD)

lemma top_eq_iff: "top f 0 n = 0 \<longleftrightarrow> (\<forall>i < n. \<not> f i)"
  "top f 0 n = Suc y \<longleftrightarrow> y < n \<and> f y \<and> (\<forall>i. y < i \<longrightarrow> i < n \<longrightarrow> \<not> f i)"
proof -
  show "top f 0 n = 0 \<longleftrightarrow> (\<forall>i < n. \<not> f i)"
    by (auto simp: top_def find_None_iff split: option.splits dest!: find_SomeD)
  show "top f 0 n = Suc y \<longleftrightarrow> y < n \<and> f y \<and> (\<forall>i. y < i \<longrightarrow> i < n \<longrightarrow> \<not> f i)"
  proof (induction n)
    case (Suc n)
    have "top f 0 (Suc n) = (if f n then Suc n else top f 0 n)" by (simp add: top_def)
    with Suc show ?case by (auto simp: less_Suc_eq)
  qed simp
qed

definition zeros :: "u32 list \<Rightarrow> nat" where
  "zeros hs = card {i. i < length hs \<and> hs ! i = 0}"

lemma zeros_update:
  assumes "i < length hs" "hs ! i = 0" "v \<noteq> 0"
  shows "0 < zeros hs" "zeros (hs[i := v]) = zeros hs - 1"
proof -
  have "{j. j < length (hs[i := v]) \<and> hs[i := v] ! j = 0} = {j. j < length hs \<and> hs ! j = 0} - {i}"
    using assms by (auto simp: nth_list_update)
  then show "zeros (hs[i := v]) = zeros hs - 1" using assms by (simp add: zeros_def card_Diff_singleton)
  show "0 < zeros hs" using assms by (auto simp: zeros_def card_gt_0_iff)
qed

lemma zeros_0_iff: "zeros hs = 0 \<longleftrightarrow> (\<forall>i < length hs. hs ! i \<noteq> 0)"
  by (auto simp: zeros_def card_eq_0_iff)

text \<open>The columns of a layer, in the order of the two loops.\<close>

lemma set_layer_columns: "(z, x) \<in> set layer_columns \<longleftrightarrow> z < 16 \<and> x < 16"
  by (force simp: layer_columns_def SECTION_SIZE_def)

lemma u32_checked_eq: "n < 2 ^ 32 \<Longrightarrow> u32_checked n = Some (word_of_nat n)"
  by (simp add: u32_checked_def)

lemma scan_column_eq:
  assumes s: "wf_section states s" and i: "z < 16" "x < 16" "ly < 16" and hs: "length hs = 256"
    and base: "unat base + 16 < 2 ^ 32" and u: "u = zeros hs"
  defines "col \<equiv> z * 16 + x"
  defines "hs' \<equiv> (if hs ! col \<noteq> 0 \<or> is_air states (ids (cs_block_states s) ! section_index x ly z) then hs
    else hs[col := word_of_nat (unat base + ly + 1)])"
  shows "scan_column states s base ly (z, x) (hs, u) = Some (hs', zeros hs')"
proof -
  have col: "col < length hs" using i hs by (simp add: col_def)
  have b: "u32_checked (unat base + ly) = Some (word_of_nat (unat base + ly))"
    using base i by (intro u32_checked_eq) simp
  have ub: "unat (word_of_nat (unat base + ly) :: u32) = unat base + ly"
    using base i by (intro unat_slot) simp
  have b2: "u32_checked (unat base + ly + 1) = Some (word_of_nat (unat base + ly + 1))"
    using base i by (intro u32_checked_eq) simp
  have "unat (word_of_nat (unat base + ly + 1) :: u32) = unat base + ly + 1"
    using base i by (intro unat_slot) simp
  then have v: "(word_of_nat (unat base + ly + 1) :: u32) \<noteq> 0" by auto
  show ?thesis
  proof (cases "hs ! col \<noteq> 0 \<or> is_air states (ids (cs_block_states s) ! section_index x ly z)")
    case True
    then show ?thesis using u col section_block_eq [OF s i(2,3,1)]
      by (auto simp: scan_column_def hs'_def SECTION_SIZE_def col_def [symmetric])
  next
    case False
    then have "usize_checked_sub u 1 = Some (zeros hs')"
      using zeros_update [OF col _ v] u by (simp add: usize_checked_sub_def hs'_def)
    then show ?thesis using False u col section_block_eq [OF s i(2,3,1)] b ub b2
      by (simp add: scan_column_def hs'_def SECTION_SIZE_def col_def [symmetric] del: of_nat_add of_nat_Suc)
  qed
qed

lemma column_inj: "x < 16 \<Longrightarrow> x' < 16 \<Longrightarrow> z * 16 + x = z' * 16 + x' \<longleftrightarrow> z = z' \<and> x = x'" for x z :: nat
proof -
  assume x: "x < 16" "x' < 16"
  have "(a * 16 + b) div 16 = a" "(a * 16 + b) mod 16 = b" if "b < 16" for a b :: nat
    using that by simp_all
  with x show ?thesis by metis
qed

lemma scan_columns_eq:
  assumes s: "wf_section states s" and ly: "ly < 16" and base: "unat base + 16 < 2 ^ 32"
    and cs: "\<forall>(z, x) \<in> set cs. z < 16 \<and> x < 16" and hs: "length hs = 256"
  shows "\<exists>hs'. iterate (scan_column states s base ly) cs (hs, zeros hs) = Some (hs', zeros hs') \<and>
    length hs' = 256 \<and> (\<forall>z x. z < 16 \<longrightarrow> x < 16 \<longrightarrow> hs' ! (z * 16 + x) =
      (if (z, x) \<in> set cs \<and> hs ! (z * 16 + x) = 0 \<and>
          \<not> is_air states (ids (cs_block_states s) ! section_index x ly z)
       then word_of_nat (unat base + ly + 1) else hs ! (z * 16 + x)))"
  using cs hs
proof (induction cs arbitrary: hs)
  case (Cons c cs)
  obtain z x where c: "c = (z, x)" by fastforce
  with Cons.prems have zx: "z < 16" "x < 16" by auto
  let ?v = "word_of_nat (unat base + ly + 1) :: u32"
  let ?hs = "if hs ! (z * 16 + x) \<noteq> 0 \<or> is_air states (ids (cs_block_states s) ! section_index x ly z) then hs
    else hs[z * 16 + x := ?v]"
  have "unat ?v = unat base + ly + 1" using base ly by (intro unat_slot) simp
  then have v: "?v \<noteq> 0" by (metis add_eq_0_iff_both_eq_0 one_neq_zero unat_eq_zero)
  have len: "length ?hs = 256" using Cons.prems(2) by simp
  obtain hs' where hs': "iterate (scan_column states s base ly) cs (?hs, zeros ?hs) = Some (hs', zeros hs')"
    "length hs' = 256" "\<And>z' x'. z' < 16 \<Longrightarrow> x' < 16 \<Longrightarrow> hs' ! (z' * 16 + x') =
      (if (z', x') \<in> set cs \<and> ?hs ! (z' * 16 + x') = 0 \<and>
          \<not> is_air states (ids (cs_block_states s) ! section_index x' ly z')
       then ?v else ?hs ! (z' * 16 + x'))"
    using Cons.IH [OF _ len] Cons.prems(1) by auto
  have step: "scan_column states s base ly c (hs, zeros hs) = Some (?hs, zeros ?hs)"
    unfolding c by (rule scan_column_eq [OF s zx ly Cons.prems(2) base refl])
  have at: "?hs ! (z' * 16 + x') = (if (z', x') = c \<and> hs ! (z' * 16 + x') = 0 \<and>
      \<not> is_air states (ids (cs_block_states s) ! section_index x' ly z') then ?v else hs ! (z' * 16 + x'))"
    if "z' < 16" "x' < 16" for z' x'
    using that zx Cons.prems(2) column_inj [OF zx(2) that(2), of z z'] by (auto simp: c nth_list_update)
  have "hs' ! (z' * 16 + x') = (if (z', x') \<in> set (c # cs) \<and> hs ! (z' * 16 + x') = 0 \<and>
      \<not> is_air states (ids (cs_block_states s) ! section_index x' ly z') then ?v else hs ! (z' * 16 + x'))"
    if "z' < 16" "x' < 16" for z' x'
    unfolding hs'(3) [OF that] at [OF that] using v by auto
  with hs'(1,2) step show ?case by (intro exI [of _ hs']) simp
qed simp

text \<open>The heights after the layers from \<open>k\<close> up have been seen.\<close>

definition resolved :: "block_states \<Rightarrow> chunk \<Rightarrow> nat \<Rightarrow> u32 list \<Rightarrow> bool" where
  "resolved states c k hs \<longleftrightarrow> length hs = 256 \<and> (\<forall>z x. z < 16 \<longrightarrow> x < 16 \<longrightarrow>
     unat (hs ! (z * 16 + x)) =
       top (\<lambda>h. \<not> is_air states (block_id c x h z)) k (world_height (ch_limits c)))"

lemma resolved_stable:
  assumes "resolved states c k hs" "zeros hs = 0" "j \<le> k" "k \<le> world_height (ch_limits c)"
  shows "resolved states c j hs"
  unfolding resolved_def
proof (intro conjI allI impI)
  show l: "length hs = 256" using assms(1) by (simp add: resolved_def)
  fix z x :: nat assume zx: "z < 16" "x < 16"
  then have "z * 16 + x < length hs" using l by simp
  then have "hs ! (z * 16 + x) \<noteq> 0" using assms(2) unfolding zeros_0_iff by blast
  then have nz: "unat (hs ! (z * 16 + x)) \<noteq> 0" by (simp only: unat_eq_zero not_False_eq_True)
  have eq: "unat (hs ! (z * 16 + x)) =
      top (\<lambda>h. \<not> is_air states (block_id c x h z)) k (world_height (ch_limits c))"
    using assms(1) zx unfolding resolved_def by blast
  with nz have "top (\<lambda>h. \<not> is_air states (block_id c x h z)) j (world_height (ch_limits c)) =
      top (\<lambda>h. \<not> is_air states (block_id c x h z)) k (world_height (ch_limits c))"
    by (intro top_stable assms(3,4)) simp
  with eq show "unat (hs ! (z * 16 + x)) =
      top (\<lambda>h. \<not> is_air states (block_id c x h z)) j (world_height (ch_limits c))" by simp
qed

lemma scan_layers_eq:
  assumes c: "wf_chunk states c" and i: "i < length (ch_sections c)" and m: "m \<le> 16"
    and hs: "resolved states c (i * 16 + m) hs"
  shows "\<exists>hs'. scan_layers states (ch_sections c ! i) (word_of_nat (i * 16)) (rev [0..<m]) (hs, zeros hs) =
    Some (hs', zeros hs') \<and> resolved states c (i * 16) hs'"
  using m hs
proof (induction m arbitrary: hs)
  case (Suc m)
  let ?s = "ch_sections c ! i" and ?base = "word_of_nat (i * 16) :: u32" and ?H = "world_height (ch_limits c)"
  note H = wf_chunkD(3) [OF c] wf_limitsD(3) [OF wf_chunkD(1) [OF c]]
  have i16: "i * 16 + 16 \<le> ?H" using i H(1) by simp
  have base: "unat ?base = i * 16" using i16 H(2) by (intro unat_slot) simp
  show ?case
  proof (cases "zeros hs = 0")
    case True
    have "i * 16 \<le> i * 16 + Suc m" "i * 16 + Suc m \<le> ?H" using i16 Suc.prems(1) by linarith+
    from resolved_stable [OF Suc.prems(2) True this] True show ?thesis by simp
  next
    case False
    have len: "length hs = 256" using Suc.prems(2) by (simp add: resolved_def)
    have all: "\<forall>(z, x) \<in> set layer_columns. z < 16 \<and> x < 16" by (auto simp: set_layer_columns)
    have "i * 16 + 16 < 2 ^ 32" using i16 H(2) by simp
    then have m: "m < 16" "unat ?base + 16 < 2 ^ 32" using Suc.prems(1) unfolding base by linarith+
    define v where "v = (word_of_nat (unat ?base + m + 1) :: u32)"
    have uv: "unat v = i * 16 + m + 1" using m unfolding base v_def by (intro unat_slot) linarith
    obtain hs1 where
      hs1: "iterate (scan_column states ?s ?base m) layer_columns (hs, zeros hs) = Some (hs1, zeros hs1)"
        "length hs1 = 256" "\<And>z x. z < 16 \<Longrightarrow> x < 16 \<Longrightarrow> hs1 ! (z * 16 + x) =
          (if (z, x) \<in> set layer_columns \<and> hs ! (z * 16 + x) = 0 \<and>
              \<not> is_air states (ids (cs_block_states ?s) ! section_index x m z)
           then v else hs ! (z * 16 + x))"
      using scan_columns_eq [OF wf_chunkD(4) [OF c i] m all len] unfolding v_def by blast
    have "resolved states c (i * 16 + m) hs1"
      unfolding resolved_def
    proof (intro conjI allI impI)
      fix z x :: nat assume zx: "z < 16" "x < 16"
      let ?f = "\<lambda>h. \<not> is_air states (block_id c x h z)"
      have id: "block_id c x (i * 16 + m) z = ids (cs_block_states ?s) ! section_index x m z"
        using m(1) by (simp add: block_id_def)
      have old: "unat (hs ! (z * 16 + x)) = top ?f (Suc (i * 16 + m)) ?H"
        using Suc.prems(2) zx by (simp add: resolved_def)
      have step: "top ?f (i * 16 + m) ?H = (if top ?f (Suc (i * 16 + m)) ?H \<noteq> 0
          then top ?f (Suc (i * 16 + m)) ?H else if ?f (i * 16 + m) then Suc (i * 16 + m) else 0)"
        using i16 m(1) by (intro top_step) linarith
      have in_cols: "(z, x) \<in> set layer_columns" using zx by (simp only: set_layer_columns)
      have hs1_zx: "hs1 ! (z * 16 + x) = (if hs ! (z * 16 + x) = 0 \<and> ?f (i * 16 + m)
          then v else hs ! (z * 16 + x))"
        using hs1(3) [OF zx] in_cols unfolding id by simp
      show "unat (hs1 ! (z * 16 + x)) = top ?f (i * 16 + m) ?H"
      proof (cases "hs ! (z * 16 + x) = 0")
        case True
        then have "top ?f (Suc (i * 16 + m)) ?H = 0" using old by simp
        then show ?thesis using True old uv unfolding step hs1_zx by simp
      next
        case False
        then have "top ?f (Suc (i * 16 + m)) ?H \<noteq> 0" unfolding old [symmetric] by (simp add: unat_eq_zero)
        then show ?thesis using False old unfolding step hs1_zx by simp
      qed
    qed (rule hs1(2))
    then obtain hs2 where "scan_layers states ?s ?base (rev [0..<m]) (hs1, zeros hs1) = Some (hs2, zeros hs2)"
      "resolved states c (i * 16) hs2"
      using Suc.IH [of hs1] Suc.prems(1) by auto
    moreover have "scan_layers states ?s ?base (rev [0..<Suc m]) (hs, zeros hs) =
        scan_layers states ?s ?base (rev [0..<m]) (hs1, zeros hs1)"
      using False hs1(1) by simp
    ultimately show ?thesis by auto
  qed
qed auto

lemma section_is_empty_eq:
  assumes s: "wf_section states s"
  shows "section_is_empty states s = Some (list_all (is_air states) (ids (cs_block_states s)))"
proof -
  let ?n = "length (filter (\<lambda>id. \<not> is_air states id) (ids (cs_block_states s)))"
  have "?n \<le> 4096" using wf_sectionD(1,2) [OF s] by (metis length_filter_le length_ids)
  then have "unat (word_of_nat ?n :: u16) = ?n" by (simp add: unsigned_of_nat take_bit_nat_eq_self_iff)
  then have "(word_of_nat ?n :: u16) = 0 \<longleftrightarrow> ?n = 0" by (metis unat_eq_zero)
  then show ?thesis using container_count_eq [OF wf_sectionD(1) [OF s]]
    by (simp add: section_is_empty_def non_air_count_def filter_empty_conv list_all_iff)
qed

lemma scan_sections_eq:
  assumes c: "wf_chunk states c" and m: "m \<le> length (ch_sections c)" and hs: "resolved states c (m * 16) hs"
  shows "\<exists>hs'. scan_sections states (ch_sections c) (rev [0..<m]) (hs, zeros hs) = Some (hs', zeros hs') \<and>
    resolved states c 0 hs'"
  using m hs
proof (induction m arbitrary: hs)
  case (Suc m)
  let ?s = "ch_sections c ! m" and ?H = "world_height (ch_limits c)"
  from Suc.prems(1) have m: "m < length (ch_sections c)" by simp
  note H = wf_chunkD(3) [OF c] and s = wf_chunkD(4) [OF c m]
  have le: "Suc m * 16 \<le> ?H" using Suc.prems(1) unfolding H by simp
  show ?case
  proof (cases "zeros hs = 0")
    case True
    from resolved_stable [OF Suc.prems(2) True _ le, of 0] True show ?thesis by auto
  next
    case False
    show ?thesis
    proof (cases "list_all (is_air states) (ids (cs_block_states ?s))")
      case True
      have "resolved states c (m * 16) hs"
        unfolding resolved_def
      proof (intro conjI allI impI)
        show "length hs = 256" using Suc.prems(2) by (simp add: resolved_def)
        fix z x :: nat assume zx: "z < 16" "x < 16"
        let ?f = "\<lambda>h. \<not> is_air states (block_id c x h z)"
        have "\<not> ?f h" if "m * 16 \<le> h" "h < Suc m * 16" for h
        proof -
          from that have "h div 16 = m" by (intro div_nat_eqI) simp_all
          moreover have "section_index x (h mod 16) z < length (ids (cs_block_states ?s))"
            using wf_sectionD(1,2) [OF s] zx section_index_bound [of x "h mod 16" z] by simp
          ultimately show ?thesis using True by (simp add: block_id_def list_all_length)
        qed
        then have "top ?f (m * 16) ?H = top ?f (Suc m * 16) ?H" using le by (intro top_skip) auto
        then show "unat (hs ! (z * 16 + x)) = top ?f (m * 16) ?H"
          using Suc.prems(2) zx by (simp add: resolved_def)
      qed
      with Suc.IH [of hs] m obtain hs' where
        "scan_sections states (ch_sections c) (rev [0..<m]) (hs, zeros hs) = Some (hs', zeros hs')"
        "resolved states c 0 hs'" by auto
      then show ?thesis using False True m section_is_empty_eq [OF s] by simp
    next
      case filled: False
      have "resolved states c (m * 16 + 16) hs" using Suc.prems(2) by (simp add: add.commute)
      from scan_layers_eq [OF c m _ this] obtain hs1 where
        hs1: "scan_layers states ?s (word_of_nat (m * 16)) (rev [0..<16]) (hs, zeros hs) = Some (hs1, zeros hs1)"
        "resolved states c (m * 16) hs1" by auto
      with Suc.IH [of hs1] m obtain hs' where
        "scan_sections states (ch_sections c) (rev [0..<m]) (hs1, zeros hs1) = Some (hs', zeros hs')"
        "resolved states c 0 hs'" by auto
      moreover have "scan_sections states (ch_sections c) (rev [0..<Suc m]) (hs, zeros hs) =
          scan_sections states (ch_sections c) (rev [0..<m]) (hs1, zeros hs1)"
        using False filled m section_is_empty_eq [OF s] hs1(1) by (simp add: SECTION_SIZE_def del: upt_Suc of_nat_mult add: upt_Suc_append)
      ultimately show ?thesis by auto
    qed
  qed
qed auto

lemma wf_heightmapsD:
  assumes "wf_heightmaps l hm"
  shows "wf_storage (hm_motion_blocking hm)" "bs_len (hm_motion_blocking hm) = 256"
    "bs_bits (hm_motion_blocking hm) = heightmap_bits l"
    "wf_storage (hm_world_surface hm)" "bs_len (hm_world_surface hm) = 256"
    "bs_bits (hm_world_surface hm) = heightmap_bits l"
  using assms by (auto simp: wf_heightmaps_def COLUMNS_def SECTION_SIZE_def)

lemma wf_heightmapsI:
  assumes "wf_storage mb" "bs_len mb = 256" "bs_bits mb = heightmap_bits l"
    and "wf_storage ws" "bs_len ws = 256" "bs_bits ws = heightmap_bits l"
  shows "wf_heightmaps l \<lparr>hm_motion_blocking = mb, hm_world_surface = ws\<rparr>"
  using assms by (auto simp: wf_heightmaps_def COLUMNS_def SECTION_SIZE_def)

lemma record_height_eq:
  assumes l: "wf_limits l" and hm: "wf_heightmaps l hm" and k: "k < 256" and h: "unat h \<le> world_height l"
  shows "\<exists>hm'. record_height l k h hm = Some hm' \<and> wf_heightmaps l hm' \<and>
    contents (hm_motion_blocking hm') = (contents (hm_motion_blocking hm))[k := h] \<and>
    contents (hm_world_surface hm') = (contents (hm_world_surface hm))[k := h]"
proof -
  note D = wf_heightmapsD [OF hm]
  have le: "h \<le> hl_height l" using h by (simp add: word_le_nat_alt world_height_def)
  have "unat (hl_height l) < 2 ^ heightmap_bits l" by (rule heightmap_bits_spec(3) [OF l])
  then have fit: "unat h < 2 ^ bs_bits (hm_motion_blocking hm)" "unat h < 2 ^ bs_bits (hm_world_surface hm)"
    using h unfolding D(3,6) world_height_def by linarith+
  have kk: "k < bs_len (hm_motion_blocking hm)" "k < bs_len (hm_world_surface hm)" using D(2,5) k by simp_all
  obtain mb where mb: "storage_set (hm_motion_blocking hm) k h = Some (contents (hm_motion_blocking hm) ! k, mb)"
    "wf_storage mb" "contents mb = (contents (hm_motion_blocking hm))[k := h]"
    "bs_bits mb = bs_bits (hm_motion_blocking hm)" "bs_len mb = bs_len (hm_motion_blocking hm)"
    by (rule storage_set_ok [OF D(1) kk(1) fit(1)])
  obtain ws where ws: "storage_set (hm_world_surface hm) k h = Some (contents (hm_world_surface hm) ! k, ws)"
    "wf_storage ws" "contents ws = (contents (hm_world_surface hm))[k := h]"
    "bs_bits ws = bs_bits (hm_world_surface hm)" "bs_len ws = bs_len (hm_world_surface hm)"
    by (rule storage_set_ok [OF D(4) kk(2) fit(2)])
  from wf_heightmapsI [OF mb(2) _ _ ws(2), of l] mb ws D le show ?thesis
    by (simp add: record_height_def)
qed

lemma record_run:
  assumes l: "wf_limits l"
  shows "wf_heightmaps l hm \<Longrightarrow> k + length hs \<le> 256 \<Longrightarrow> \<forall>h \<in> set hs. unat h \<le> world_height l \<Longrightarrow>
    \<exists>hm'. iterate (\<lambda>(column, height). record_height l column height) (enumerate k hs) hm = Some hm' \<and>
      wf_heightmaps l hm' \<and>
      contents (hm_motion_blocking hm') =
        take k (contents (hm_motion_blocking hm)) @ hs @ drop (k + length hs) (contents (hm_motion_blocking hm)) \<and>
      contents (hm_world_surface hm') =
        take k (contents (hm_world_surface hm)) @ hs @ drop (k + length hs) (contents (hm_world_surface hm))"
proof (induction hs arbitrary: hm k)
  case (Cons h hs)
  then obtain hm1 where hm1: "record_height l k h hm = Some hm1" "wf_heightmaps l hm1"
    "contents (hm_motion_blocking hm1) = (contents (hm_motion_blocking hm))[k := h]"
    "contents (hm_world_surface hm1) = (contents (hm_world_surface hm))[k := h]"
    using record_height_eq [OF l, of hm k h] by auto
  have t: "take (Suc k) (xs[k := h]) = take k xs @ [h]" if "length xs = 256" for xs :: "u32 list"
    using that Cons.prems(2) by (simp add: take_Suc_conv_app_nth)
  have "length (contents (hm_motion_blocking hm)) = 256" "length (contents (hm_world_surface hm)) = 256"
    using wf_heightmapsD [OF Cons.prems(1)] by simp_all
  with Cons.IH [OF hm1(2), of "Suc k"] Cons.prems hm1 t show ?case by auto
qed simp

lemma scan_eq:
  assumes c: "wf_chunk states c"
  shows "\<exists>hs. scan_sections states (ch_sections c) (rev [0..<length (ch_sections c)])
      (replicate COLUMNS 0, COLUMNS) = Some (hs, zeros hs) \<and> resolved states c 0 hs"
proof -
  have H: "world_height (ch_limits c) = length (ch_sections c) * 16" using wf_chunkD(3) [OF c] by simp
  have cols: "COLUMNS = 256" by (simp add: COLUMNS_def SECTION_SIZE_def)
  have z: "zeros (replicate COLUMNS 0) = COLUMNS"
  proof -
    have "{i. i < length (replicate COLUMNS (0 :: u32)) \<and> replicate COLUMNS (0 :: u32) ! i = 0} = {..<COLUMNS}"
      by auto
    then show ?thesis by (simp add: zeros_def)
  qed
  have "resolved states c (length (ch_sections c) * 16) (replicate COLUMNS 0)"
    using H by (simp add: resolved_def cols)
  from scan_sections_eq [OF c order_refl this] show ?thesis unfolding z by blast
qed

lemma recompute_heightmaps_eq:
  assumes c: "wf_chunk states c"
  shows "\<exists>c'. recompute_heightmaps c states = Some c' \<and> wf_chunk states c' \<and>
    ch_pos c' = ch_pos c \<and> ch_limits c' = ch_limits c \<and> ch_sections c' = ch_sections c \<and>
    contents (hm_world_surface (ch_heightmaps c')) = contents (hm_motion_blocking (ch_heightmaps c')) \<and>
    resolved states c 0 (contents (hm_motion_blocking (ch_heightmaps c')))"
proof -
  let ?H = "world_height (ch_limits c)"
  from scan_eq [OF c] obtain hs where
    hs: "scan_sections states (ch_sections c) (rev [0..<length (ch_sections c)]) (replicate COLUMNS 0, COLUMNS) =
        Some (hs, zeros hs)" "resolved states c 0 hs" by blast
  have len: "length hs = 256" using hs(2) by (simp add: resolved_def)
  have "unat (hs ! i) \<le> ?H" if "i < length hs" for i
  proof -
    have d: "i div 16 < 16" "i mod 16 < 16" "i = i div 16 * 16 + i mod 16" using that len by simp_all
    from hs(2) d(1,2) have "unat (hs ! (i div 16 * 16 + i mod 16)) =
        top (\<lambda>h. \<not> is_air states (block_id c (i mod 16) h (i div 16))) 0 ?H"
      unfolding resolved_def by blast
    then show ?thesis using top_le d(3) by metis
  qed
  then have le: "\<forall>h \<in> set hs. unat h \<le> ?H" by (auto simp: in_set_conv_nth)
  have hmw: "wf_heightmaps (ch_limits c) (ch_heightmaps c)" using c by (simp add: wf_chunk_def)
  from record_run [OF wf_chunkD(1) [OF c] hmw _ le, of 0] len obtain hm where
    hm: "iterate (\<lambda>(column, height). record_height (ch_limits c) column height) (enumerate 0 hs)
        (ch_heightmaps c) = Some hm" "wf_heightmaps (ch_limits c) hm"
      "contents (hm_motion_blocking hm) = hs" "contents (hm_world_surface hm) = hs"
    using wf_heightmapsD [OF hmw] by auto
  have "recompute_heightmaps c states = Some (c\<lparr>ch_heightmaps := hm\<rparr>)"
    by (simp add: recompute_heightmaps_def hs(1) hm(1))
  moreover have "wf_chunk states (c\<lparr>ch_heightmaps := hm\<rparr>)" using c hm(2) by (simp add: wf_chunk_def)
  ultimately show ?thesis using hs(2) hm(3,4) by (intro exI [of _ "c\<lparr>ch_heightmaps := hm\<rparr>"]) simp
qed

section \<open>Construction, shrinking and the wire format\<close>

lemma heightmaps_new_eq:
  assumes "wf_limits l"
  shows "\<exists>hm. heightmaps_new l = Some hm \<and> wf_heightmaps l hm"
proof -
  obtain s where "storage_new COLUMNS (heightmap_bits l) = Some s" "wf_storage s"
    "bs_bits s = heightmap_bits l" "bs_len s = 256"
    using storage_new_eq [of "heightmap_bits l" COLUMNS] heightmap_bits_spec [OF assms]
    by (auto simp: COLUMNS_def SECTION_SIZE_def)
  then show ?thesis by (auto simp: heightmaps_new_def Let_def intro: wf_heightmapsI)
qed

lemma wf_section_filled: "id_ok states v \<Longrightarrow> wf_section states (section_filled states v 0)"
  using filled_spec(1) [OF direct_bits_bounds, of v states Blocks] filled_spec(1) [of 6 0 Biomes]
  by (simp add: section_filled_def wf_section_def id_ok_def) (simp add: filled_def)

lemma chunk_empty_eq:
  assumes l: "wf_limits l" and s: "id_ok states (bst_air states)"
  shows "\<exists>c. chunk_empty pos l states = Some c \<and> wf_chunk states c \<and> ch_pos c = pos \<and> ch_limits c = l \<and>
    (\<forall>x z h. x < 16 \<longrightarrow> z < 16 \<longrightarrow> h < world_height l \<longrightarrow> block_id c x h z = bst_air states)"
proof -
  obtain hm where hm: "heightmaps_new l = Some hm" "wf_heightmaps l hm" using heightmaps_new_eq [OF l] by blast
  let ?c = "\<lparr>ch_pos = pos, ch_limits = l,
    ch_sections = replicate (section_count l) (section_filled states (bst_air states) 0), ch_heightmaps = hm\<rparr>"
  have wf: "wf_chunk states ?c" using l hm wf_section_filled [OF s] by (simp add: wf_chunk_def)
  have "block_id ?c x h z = bst_air states" if "x < 16" "z < 16" "h < world_height l" for x h z
  proof -
    have "h div 16 < section_count l" using wf_chunkD(5) [OF wf, of h] that by simp
    then show ?thesis using section_index_bound [of x "h mod 16" z] that
      by (simp add: block_id_def section_filled_def filled_spec(2))
  qed
  with hm(1) wf show ?thesis by (intro exI [of _ ?c]) (simp add: chunk_empty_def)
qed

lemma section_shrink_eq:
  assumes "wf_section states s"
  shows "\<exists>s'. section_shrink s = Some s' \<and> wf_section states s' \<and>
    ids (cs_block_states s') = ids (cs_block_states s) \<and> ids (cs_biomes s') = ids (cs_biomes s)"
  using container_shrink_spec [of "cs_block_states s"] container_shrink_spec [of "cs_biomes s"] assms
  by (auto simp: section_shrink_def wf_section_def)

lemma those_map_Some: "\<forall>x \<in> set xs. f x = Some (g x) \<Longrightarrow> those (map f xs) = Some (map g xs)"
  by (induction xs) auto

lemma section_write_eq:
  assumes "wf_section states s"
  shows "\<exists>bs. section_write states s = Some bs \<and> length bs = section_wire_len s"
  using container_count_eq [OF wf_sectionD(1) [OF assms]]
  by (simp add: section_write_def non_air_count_def section_wire_len_def length_container_write write_i16_def)

lemma write_sections_eq:
  assumes "wf_chunk states c"
  shows "\<exists>bs. write_sections c states = Some bs \<and> length bs = sections_wire_len c"
proof -
  have s: "\<forall>s \<in> set (ch_sections c). section_write states s = Some (the (section_write states s)) \<and>
      length (the (section_write states s)) = section_wire_len s"
    using assms section_write_eq by (fastforce simp: wf_chunk_def list_all_iff)
  then have "write_sections c states = Some (concat (map (\<lambda>s. the (section_write states s)) (ch_sections c)))"
    by (simp add: write_sections_def those_map_Some [where g = "\<lambda>s. the (section_write states s)"])
  moreover have "length (concat (map (\<lambda>s. the (section_write states s)) (ch_sections c))) = sections_wire_len c"
    using s by (simp add: length_concat sections_wire_len_def comp_def cong: map_cong)
  ultimately show ?thesis by blast
qed

section \<open>The superflat generator\<close>

text \<open>The block the superflat world has \<open>h\<close> blocks above its bottom, and when it can be computed.\<close>

definition flat_block :: "flat_generator \<Rightarrow> height_limits \<Rightarrow> block_states \<Rightarrow> nat \<Rightarrow> u32" where
  "flat_block g l states h =
     (let y = sint (hl_min_y l) + int h; surface = sint (fg_surface_y g) in
      if h = 0 then bst_bedrock states
      else if y = surface then bst_grass_block states
      else if y < surface then
        (if surface - sint (fg_dirt_depth g) \<le> y then bst_dirt states else bst_stone states)
      else bst_air states)"

definition wf_generator :: "flat_generator \<Rightarrow> bool" where
  "wf_generator g \<longleftrightarrow> - (2 ^ 31) \<le> sint (fg_surface_y g) - sint (fg_dirt_depth g) \<and>
     sint (fg_surface_y g) - sint (fg_dirt_depth g) < 2 ^ 31"

lemma block_at_eq:
  assumes g: "wf_generator g" and y: "sint y = sint (hl_min_y l) + int h"
  shows "block_at g y l states = Some (flat_block g l states h)"
proof -
  have d: "i32_checked (sint (fg_surface_y g) - sint (fg_dirt_depth g)) =
      Some (word_of_int (sint (fg_surface_y g) - sint (fg_dirt_depth g)))"
    using g by (intro i32_checked_eq) (simp_all only: wf_generator_def)
  have s: "sint (word_of_int (sint (fg_surface_y g) - sint (fg_dirt_depth g)) :: i32) =
      sint (fg_surface_y g) - sint (fg_dirt_depth g)"
    using g by (intro sint_word_of_int_i32) (simp_all only: wf_generator_def)
  have "y = hl_min_y l \<longleftrightarrow> h = 0" using y by (auto simp: signed_word_eqI)
  moreover have "y = fg_surface_y g \<longleftrightarrow> sint y = sint (fg_surface_y g)" by (auto simp: signed_word_eqI)
  ultimately show ?thesis unfolding block_at_def d option.map word_sless_alt word_sle_eq s flat_block_def Let_def y
    by simp
qed

lemma flat_block_ok: "wf_states states \<Longrightarrow> id_ok states (flat_block g l states h)"
  by (simp add: flat_block_def wf_states_def Let_def)

lemma all_opt_eq: "\<forall>x \<in> set xs. f x = Some (p x) \<Longrightarrow> all_opt f xs = Some (list_all p xs)"
  by (induction xs) auto

lemma set_columns_eq:
  assumes v: "id_ok states v" and ly: "ly < 16"
  shows "wf_section states s \<Longrightarrow> \<forall>(z, x) \<in> set cs. z < 16 \<and> x < 16 \<Longrightarrow>
    \<exists>s'. iterate (\<lambda>(z, x) section. map_option snd (section_set_block section x ly z v)) cs s = Some s' \<and>
      wf_section states s' \<and> (\<forall>x y z. x < 16 \<longrightarrow> y < 16 \<longrightarrow> z < 16 \<longrightarrow>
        ids (cs_block_states s') ! section_index x y z =
          (if y = ly \<and> (z, x) \<in> set cs then v else ids (cs_block_states s) ! section_index x y z))"
proof (induction cs arbitrary: s)
  case (Cons c cs)
  obtain z x where c: "c = (z, x)" by fastforce
  with Cons.prems have zx: "z < 16" "x < 16" by auto
  obtain s1 where s1: "section_set_block s x ly z v = Some (ids (cs_block_states s) ! section_index x ly z, s1)"
    "wf_section states s1" "ids (cs_block_states s1) = (ids (cs_block_states s))[section_index x ly z := v]"
    using section_set_block_eq [OF Cons.prems(1) zx(2) ly zx(1) v] by blast
  have len: "length (ids (cs_block_states s)) = 4096" using wf_sectionD(1,2) [OF Cons.prems(1)] by simp
  have at: "ids (cs_block_states s1) ! section_index x' y' z' =
      (if x' = x \<and> y' = ly \<and> z' = z then v else ids (cs_block_states s) ! section_index x' y' z')"
    if "x' < 16" "y' < 16" "z' < 16" for x' y' z'
    using section_index_inj [OF that zx(2) ly zx(1)] section_index_bound [OF zx(2) ly zx(1)] len
    unfolding s1(3) by (auto simp: nth_list_update)
  obtain s' where s': "iterate (\<lambda>(z, x) section. map_option snd (section_set_block section x ly z v)) cs s1 = Some s'"
    "wf_section states s'" "\<And>x y z. x < 16 \<Longrightarrow> y < 16 \<Longrightarrow> z < 16 \<Longrightarrow>
      ids (cs_block_states s') ! section_index x y z =
        (if y = ly \<and> (z, x) \<in> set cs then v else ids (cs_block_states s1) ! section_index x y z)"
    using Cons.IH [OF s1(2)] Cons.prems(2) by auto
  have "iterate (\<lambda>(z, x) section. map_option snd (section_set_block section x ly z v)) (c # cs) s = Some s'"
    using s'(1) s1(1) c by simp
  moreover have "ids (cs_block_states s') ! section_index x' y' z' =
      (if y' = ly \<and> (z', x') \<in> set (c # cs) then v else ids (cs_block_states s) ! section_index x' y' z')"
    if "x' < 16" "y' < 16" "z' < 16" for x' y' z'
    unfolding s'(3) [OF that] at [OF that] c by auto
  ultimately show ?case using s'(2) by blast
qed simp

definition flat_ok :: "flat_generator \<Rightarrow> height_limits \<Rightarrow> block_states \<Rightarrow> nat \<Rightarrow> nat \<Rightarrow> chunk_section \<Rightarrow> bool" where
  "flat_ok g l states i m s \<longleftrightarrow> wf_section states s \<and> (\<forall>x y z. x < 16 \<longrightarrow> y < 16 \<longrightarrow> z < 16 \<longrightarrow>
     ids (cs_block_states s) ! section_index x y z =
       (if y < m then flat_block g l states (i * 16 + y) else bst_air states))"

lemma flat_layer_eq:
  assumes g: "wf_generator g" and st: "wf_states states" and m: "m < 16"
    and base: "sint base = sint (hl_min_y l) + int (i * 16)" and top: "sint base + int m < 2 ^ 31"
    and s: "flat_ok g l states i m s"
  shows "\<exists>s'. flat_layer g l states base m s = Some s' \<and> flat_ok g l states i (Suc m) s'"
proof -
  let ?v = "flat_block g l states (i * 16 + m)"
  have b: "- (2 ^ 31) \<le> sint base + int m" using sint_i32_bounds(1) [of base] by linarith
  have y: "i32_checked (sint base + int m) = Some (word_of_int (sint base + int m))"
    using b top by (rule i32_checked_eq)
  have "sint (word_of_int (sint base + int m) :: i32) = sint (hl_min_y l) + int (i * 16 + m)"
    using base sint_word_of_int_i32 [OF b top] by simp
  note at = block_at_eq [OF g this, of states]
  have step: "flat_layer g l states base m s = (if is_air states ?v then Some s
      else iterate (\<lambda>(z, x) section. map_option snd (section_set_block section x m z ?v)) layer_columns s)"
    unfolding flat_layer_def y bind.bind_lunit at ..
  show ?thesis
  proof (cases "is_air states ?v")
    case True
    then have "flat_ok g l states i (Suc m) s" using s by (auto simp: flat_ok_def is_air_def less_Suc_eq)
    with step True show ?thesis by simp
  next
    case False
    have cols: "\<forall>(z, x) \<in> set layer_columns. z < 16 \<and> x < 16" by (auto simp: set_layer_columns)
    from set_columns_eq [OF flat_block_ok [OF st] m _ cols, of s g l "i * 16 + m"] s
    obtain s' where s': "iterate (\<lambda>(z, x) section. map_option snd (section_set_block section x m z ?v)) layer_columns s = Some s'"
      "wf_section states s'" "\<And>x y z. x < 16 \<Longrightarrow> y < 16 \<Longrightarrow> z < 16 \<Longrightarrow>
        ids (cs_block_states s') ! section_index x y z =
          (if y = m \<and> (z, x) \<in> set layer_columns then ?v else ids (cs_block_states s) ! section_index x y z)"
      by (auto simp: flat_ok_def)
    have "flat_ok g l states i (Suc m) s'"
      unfolding flat_ok_def
    proof (intro conjI allI impI)
      fix x y z :: nat assume "x < 16" "y < 16" "z < 16"
      then show "ids (cs_block_states s') ! section_index x y z =
          (if y < Suc m then flat_block g l states (i * 16 + y) else bst_air states)"
        using s s'(3) [of x y z] set_layer_columns [of z x] by (auto simp: flat_ok_def less_Suc_eq)
    qed (rule s'(2))
    with step False s'(1) show ?thesis by auto
  qed
qed

lemma flat_layers_eq:
  assumes g: "wf_generator g" and st: "wf_states states"
    and base: "sint base = sint (hl_min_y l) + int (i * 16)" and top: "sint base + 16 < 2 ^ 31"
    and s: "flat_ok g l states i 0 s"
  shows "m \<le> 16 \<Longrightarrow> \<exists>s'. iterate (flat_layer g l states base) [0..<m] s = Some s' \<and> flat_ok g l states i m s'"
proof (induction m)
  case (Suc m)
  then obtain s1 where s1: "iterate (flat_layer g l states base) [0..<m] s = Some s1" "flat_ok g l states i m s1"
    by auto
  have "m < 16" "sint base + int m < 2 ^ 31" using Suc.prems top by linarith+
  with flat_layer_eq [OF g st _ base _ s1(2)] s1(1) show ?case by auto
qed (use s in simp)

text \<open>The uniform test of a section, and the two ways it is filled.\<close>

lemma flat_section_body:
  assumes g: "wf_generator g" and st: "wf_states states" and l: "wf_limits l" and i: "i < section_count l"
    and s: "flat_ok g l states i 0 s"
  shows "\<exists>base top first uniform s'.
    i32_checked (sint (hl_min_y l) + sint (word_of_nat (i * SECTION_SIZE) :: i32)) = Some base \<and>
    Option.bind (i32_checked (sint base + 16)) (\<lambda>t. i32_checked (sint t - 1)) = Some top \<and>
    block_at g base l states = Some first \<and>
    all_opt (\<lambda>y. map_option (\<lambda>b. b = first) (block_at g (word_of_int y) l states)) [sint base..sint top] =
      Some uniform \<and>
    (if uniform then Some (section_fill_blocks s first)
     else iterate (flat_layer g l states base) [0..<SECTION_SIZE] s) = Some s' \<and>
    flat_ok g l states i 16 s'"
proof -
  define a b where "a = sint (hl_min_y l)" and "b = a + int (i * 16)"
  have H: "i * 16 + 16 \<le> world_height l" using i wf_limitsD(1) [OF l] by simp
  have hi: "int (i * 16) + 16 \<le> int (world_height l)" using H by linarith
  have ab: "- (2 ^ 31) \<le> a" "- (2 ^ 31) \<le> b" "b + 16 < 2 ^ 31"
    using wf_limitsD(5,6) [OF l] hi unfolding b_def a_def by linarith+
  have "i * 16 < 2 ^ 31" using H wf_limitsD(3) [OF l] by linarith
  then have "unat (word_of_nat (i * 16) :: i32) = i * 16" "i * 16 < 2 ^ 31"
    by (simp_all add: unsigned_of_nat take_bit_nat_eq_self_iff del: of_nat_mult)
  then have off: "sint (word_of_nat (i * SECTION_SIZE) :: i32) = int (i * 16)"
    using sint_i32_small [of "word_of_nat (i * 16)"] by (simp add: SECTION_SIZE_def del: of_nat_mult)
  let ?base = "word_of_int b :: i32" and ?top = "word_of_int (b + 15) :: i32"
  have base: "i32_checked (sint (hl_min_y l) + sint (word_of_nat (i * SECTION_SIZE) :: i32)) = Some ?base"
    unfolding off a_def [symmetric] b_def [symmetric] using ab by (intro i32_checked_eq) linarith+
  have sb: "sint ?base = b" using ab by (intro sint_word_of_int_i32) linarith+
  have stp: "sint ?top = b + 15" using ab by (intro sint_word_of_int_i32) linarith+
  have s16: "sint (word_of_int (b + 16) :: i32) = b + 16" using ab by (intro sint_word_of_int_i32) linarith+
  have c16: "i32_checked (b + 16) = Some (word_of_int (b + 16))" using ab by (intro i32_checked_eq) linarith+
  have c15: "i32_checked (b + 16 - 1) = Some (word_of_int (b + 16 - 1))" using ab by (intro i32_checked_eq) linarith+
  have top: "Option.bind (i32_checked (sint ?base + 16)) (\<lambda>t. i32_checked (sint t - 1)) = Some ?top"
    unfolding sb c16 bind.bind_lunit s16 c15 by simp
  have sbase: "sint ?base = sint (hl_min_y l) + int (i * 16)" using sb unfolding b_def a_def .
  let ?f = "flat_block g l states"
  note first = block_at_eq [OF g sbase, of states]
  have at: "block_at g (word_of_int y) l states = Some (?f (i * 16 + nat (y - b)))" if "y \<in> set [b..b + 15]" for y
  proof (rule block_at_eq [OF g])
    have "b \<le> y" "y \<le> b + 15" using that by simp_all
    then have "- (2 ^ 31) \<le> y" "y < 2 ^ 31" using ab by linarith+
    then have "sint (word_of_int y :: i32) = y" by (rule sint_word_of_int_i32)
    also have "y = a + int (i * 16 + nat (y - b))" using \<open>b \<le> y\<close> unfolding b_def by simp
    finally show "sint (word_of_int y :: i32) = sint (hl_min_y l) + int (i * 16 + nat (y - b))"
      unfolding a_def .
  qed
  let ?u = "list_all (\<lambda>y. ?f (i * 16 + nat (y - b)) = ?f (i * 16)) [b..b + 15]"
  have uniform: "all_opt (\<lambda>y. map_option (\<lambda>c. c = ?f (i * 16)) (block_at g (word_of_int y) l states))
      [sint ?base..sint ?top] = Some ?u"
    unfolding sb stp using at by (intro all_opt_eq) simp
  have sec: "wf_section states s" using s by (simp add: flat_ok_def)
  have "\<exists>s'. (if ?u then Some (section_fill_blocks s (?f (i * 16)))
      else iterate (flat_layer g l states ?base) [0..<SECTION_SIZE] s) = Some s' \<and> flat_ok g l states i 16 s'"
  proof (cases ?u)
    case True
    have eq: "?f (i * 16 + y) = ?f (i * 16)" if "y < 16" for y
    proof -
      have "b + int y \<in> set [b..b + 15]" using that by simp
      with True have "?f (i * 16 + nat (b + int y - b)) = ?f (i * 16)" unfolding list_all_iff by blast
      then show ?thesis by simp
    qed
    have fits: "id_fits (cs_block_states s) (?f (i * 16))"
      using wf_sectionD(3) [OF sec] flat_block_ok [OF st] by simp
    have "wf_section states (section_fill_blocks s (?f (i * 16)))"
      using sec fill_spec(1) [OF wf_sectionD(1) [OF sec] fits]
      by (simp add: section_fill_blocks_def wf_section_def) (simp add: container_fill_def)
    moreover have "ids (cs_block_states (section_fill_blocks s (?f (i * 16)))) = replicate 4096 (?f (i * 16))"
      using wf_sectionD(2) [OF sec] by (simp add: section_fill_blocks_def fill_spec(2))
    ultimately have "flat_ok g l states i 16 (section_fill_blocks s (?f (i * 16)))"
      using section_index_bound eq by (simp add: flat_ok_def)
    with True show ?thesis by simp
  next
    case False
    have "sint ?base + 16 < 2 ^ 31" using ab(3) unfolding sb .
    from flat_layers_eq [OF g st sbase this s, of 16] False show ?thesis by (simp add: SECTION_SIZE_def)
  qed
  with base top first uniform show ?thesis by blast
qed

definition flat_inv :: "flat_generator \<Rightarrow> height_limits \<Rightarrow> block_states \<Rightarrow> chunk_pos \<Rightarrow> nat \<Rightarrow> chunk \<Rightarrow> bool" where
  "flat_inv g l states pos m c \<longleftrightarrow> wf_chunk states c \<and> ch_pos c = pos \<and> ch_limits c = l \<and>
     (\<forall>i < section_count l. flat_ok g l states i (if i < m then 16 else 0) (ch_sections c ! i))"

lemma flat_section_eq:
  assumes g: "wf_generator g" and st: "wf_states states" and m: "m < section_count l"
    and inv: "flat_inv g l states pos m c"
  shows "\<exists>c'. flat_section g l states m c = Some c' \<and> flat_inv g l states pos (Suc m) c'"
proof -
  have c: "wf_chunk states c" "ch_limits c = l" using inv by (simp_all add: flat_inv_def)
  have l: "wf_limits l" and len: "length (ch_sections c) = section_count l" using wf_chunkD [OF c(1)] c(2) by simp_all
  have "flat_ok g l states m (if m < m then 16 else 0) (ch_sections c ! m)"
    using inv m unfolding flat_inv_def by blast
  then have "flat_ok g l states m 0 (ch_sections c ! m)" by simp
  from flat_section_body [OF g st l m this] obtain base top first uniform s' where
    b: "i32_checked (sint (hl_min_y l) + sint (word_of_nat (m * SECTION_SIZE) :: i32)) = Some base"
      "Option.bind (i32_checked (sint base + 16)) (\<lambda>t. i32_checked (sint t - 1)) = Some top"
      "block_at g base l states = Some first"
      "all_opt (\<lambda>y. map_option (\<lambda>b. b = first) (block_at g (word_of_int y) l states)) [sint base..sint top] =
        Some uniform"
      "(if uniform then Some (section_fill_blocks (ch_sections c ! m) first)
       else iterate (flat_layer g l states base) [0..<SECTION_SIZE] (ch_sections c ! m)) = Some s'"
      "flat_ok g l states m 16 s'" by blast
  let ?c = "c\<lparr>ch_sections := (ch_sections c)[m := s']\<rparr>"
  have sm: "chunk_section_mut c m = Some (ch_sections c ! m)" using m len by (simp add: chunk_section_mut_def)
  have "flat_section g l states m c = Some ?c"
    unfolding flat_section_def b(1) bind.bind_lunit b(2) b(3) b(4) sm b(5) by simp
  moreover have "wf_section states s'" using b(6) by (simp add: flat_ok_def)
  then have "wf_chunk states ?c" using c(1) by (auto simp: wf_chunk_def intro!: list_all_update)
  then have "flat_inv g l states pos (Suc m) ?c"
    using inv b(6) m len by (auto simp: flat_inv_def nth_list_update less_Suc_eq)
  ultimately show ?thesis by blast
qed

lemma flat_sections_eq:
  assumes g: "wf_generator g" and st: "wf_states states" and inv: "flat_inv g l states pos 0 c"
  shows "m \<le> section_count l \<Longrightarrow>
    \<exists>c'. iterate (flat_section g l states) [0..<m] c = Some c' \<and> flat_inv g l states pos m c'"
proof (induction m)
  case (Suc m)
  then obtain c1 where c1: "iterate (flat_section g l states) [0..<m] c = Some c1" "flat_inv g l states pos m c1"
    by auto
  from flat_section_eq [OF g st _ c1(2)] c1(1) Suc.prems show ?case by auto
qed (use inv in simp)

lemma flat_blocks_eq:
  assumes g: "wf_generator g" and st: "wf_states states" and l: "wf_limits l"
    and c: "chunk_empty pos l states = Some c"
  shows "\<exists>c'. iterate (flat_section g l states) [0..<section_count l] c = Some c' \<and> wf_chunk states c' \<and>
    ch_pos c' = pos \<and> ch_limits c' = l \<and>
    (\<forall>x z h. x < 16 \<longrightarrow> z < 16 \<longrightarrow> h < world_height l \<longrightarrow> block_id c' x h z = flat_block g l states h)"
proof -
  have air: "id_ok states (bst_air states)" using st by (simp add: wf_states_def)
  have c0: "wf_chunk states c" "ch_pos c = pos" "ch_limits c = l" using chunk_empty_eq [OF l air, of pos] c by auto
  have "ch_sections c = replicate (section_count l) (section_filled states (bst_air states) 0)"
    using c by (auto simp: chunk_empty_def)
  then have "flat_ok g l states i 0 (ch_sections c ! i)" if "i < section_count l" for i
    using that wf_section_filled [OF air] section_index_bound
    by (simp add: flat_ok_def) (simp add: section_filled_def filled_spec(2))
  with c0 have "flat_inv g l states pos 0 c" by (simp add: flat_inv_def)
  from flat_sections_eq [OF g st this order_refl] obtain c1 where
    c1: "iterate (flat_section g l states) [0..<section_count l] c = Some c1"
      "flat_inv g l states pos (section_count l) c1" by blast
  have wf1: "wf_chunk states c1" "ch_pos c1 = pos" "ch_limits c1 = l" using c1(2) by (simp_all add: flat_inv_def)
  have "block_id c1 x h z = flat_block g l states h" if b: "x < 16" "z < 16" "h < world_height l" for x h z
  proof -
    have i: "h div 16 < section_count l" using wf_chunkD(2,5) [OF wf1(1)] b(3) wf1(3) by simp
    with c1(2) have "flat_ok g l states (h div 16) 16 (ch_sections c1 ! (h div 16))" by (simp add: flat_inv_def)
    then show ?thesis using b by (simp add: block_id_def flat_ok_def)
  qed
  with c1(1) wf1 show ?thesis by blast
qed

lemma flat_generate_eq:
  assumes g: "wf_generator g" and st: "wf_states states" and l: "wf_limits l"
  shows "\<exists>c. flat_generate g pos l states = Some c \<and> wf_chunk states c \<and> ch_pos c = pos \<and> ch_limits c = l \<and>
    resolved states c 0 (contents (hm_motion_blocking (ch_heightmaps c))) \<and>
    (\<forall>x z h. x < 16 \<longrightarrow> z < 16 \<longrightarrow> h < world_height l \<longrightarrow> block_id c x h z = flat_block g l states h)"
proof -
  have "id_ok states (bst_air states)" using st by (simp add: wf_states_def)
  then obtain c0 where c0: "chunk_empty pos l states = Some c0" using chunk_empty_eq [OF l] by blast
  from flat_blocks_eq [OF g st l this] obtain c1 where
    c1: "iterate (flat_section g l states) [0..<section_count l] c0 = Some c1" "wf_chunk states c1"
      "ch_pos c1 = pos" "ch_limits c1 = l"
      "\<forall>x z h. x < 16 \<longrightarrow> z < 16 \<longrightarrow> h < world_height l \<longrightarrow> block_id c1 x h z = flat_block g l states h" by blast
  from recompute_heightmaps_eq [OF c1(2)] obtain c where
    c: "recompute_heightmaps c1 states = Some c" "wf_chunk states c" "ch_pos c = pos" "ch_limits c = l"
      "ch_sections c = ch_sections c1" "resolved states c1 0 (contents (hm_motion_blocking (ch_heightmaps c)))"
    using c1(3,4) by auto
  have same: "block_id c = block_id c1" by (simp add: block_id_def c(5) fun_eq_iff)
  have "resolved states c 0 (contents (hm_motion_blocking (ch_heightmaps c)))"
    using c(6) unfolding resolved_def same c(4) c1(4) .
  then show ?thesis using c(1-4) c0 c1(1,5) by (simp add: flat_generate_def same)
qed

lemma chunk_shrink_eq:
  assumes c: "wf_chunk states c"
  shows "\<exists>c'. chunk_shrink c = Some c' \<and> wf_chunk states c' \<and> ch_limits c' = ch_limits c \<and>
    (\<forall>x z h. h < world_height (ch_limits c) \<longrightarrow> block_id c' x h z = block_id c x h z)"
proof -
  have s: "\<forall>s \<in> set (ch_sections c). section_shrink s = Some (the (section_shrink s)) \<and>
      wf_section states (the (section_shrink s)) \<and>
      ids (cs_block_states (the (section_shrink s))) = ids (cs_block_states s)"
    using c section_shrink_eq by (fastforce simp: wf_chunk_def list_all_iff)
  let ?ss = "map (\<lambda>s. the (section_shrink s)) (ch_sections c)"
  have "those (map section_shrink (ch_sections c)) = Some ?ss" using s by (intro those_map_Some) blast
  then have "chunk_shrink c = Some (c\<lparr>ch_sections := ?ss\<rparr>)" by (simp add: chunk_shrink_def)
  moreover have "wf_chunk states (c\<lparr>ch_sections := ?ss\<rparr>)" using c s by (auto simp: wf_chunk_def list_all_iff)
  moreover have "block_id (c\<lparr>ch_sections := ?ss\<rparr>) x h z = block_id c x h z"
    if "h < world_height (ch_limits c)" for x h z
    using wf_chunkD(5) [OF c that] s by (simp add: block_id_def)
  ultimately show ?thesis by (intro exI [of _ "c\<lparr>ch_sections := ?ss\<rparr>"]) simp
qed

section \<open>Properties\<close>

text \<open>The overworld of a fresh server, for the witnesses.\<close>

lemma placeholder_wf: "wf_states placeholder" "id_ok placeholder 5"
proof -
  have "\<not> bits_for 27000 \<le> 2" using bits_for_le_iff [of 27000 2] by simp
  then have "3 \<le> direct_bits placeholder" by (simp add: direct_bits_def placeholder_def)
  then have "(2 :: nat) ^ 3 \<le> 2 ^ direct_bits placeholder" by (intro power_increasing) simp_all
  then have "8 \<le> (2 :: nat) ^ direct_bits placeholder" by simp
  then show "wf_states placeholder" "id_ok placeholder 5"
    by (simp_all add: wf_states_def id_ok_def) (simp_all add: placeholder_def)
qed

lemma overworld_wf: "wf_limits OVERWORLD" "world_height OVERWORLD = 384" "sint (hl_min_y OVERWORLD) = - 64"
  by (simp_all add: wf_limits_def OVERWORLD_def world_height_def)

lemma flat_default_wf: "wf_generator flat_default"
  by (simp add: wf_generator_def flat_default_def)

text \<open>
  C23: a block written to a column at a height of the world is what the next read at that position
  returns, and every other position, in range or not, reads as before; the write returns the old block.
\<close>

theorem chunk_write_read:
  assumes "wf_chunk states c" "x < 16" "z < 16" "id_ok states v"
    and "limits_contains (ch_limits c) y = Some True"
  shows "\<exists>c'. chunk_set_block c x y z v states = Some (the (chunk_block c x y z states), c') \<and>
    wf_chunk states c' \<and> chunk_block c' x y z states = Some v \<and>
    (\<forall>x' y' z'. x' < 16 \<longrightarrow> z' < 16 \<longrightarrow> (x', y', z') \<noteq> (x, y, z) \<longrightarrow>
      chunk_block c' x' y' z' states = chunk_block c x' y' z' states)"
proof -
  note l = wf_chunkD(1) [OF assms(1)]
  let ?a = "sint (hl_min_y (ch_limits c))" and ?H = "world_height (ch_limits c)"
  have inside: "\<exists>h. sint y' = ?a + int h \<and> h < ?H" if "?a \<le> sint y'" "sint y' < ?a + int ?H" for y'
    using that by (intro exI [of _ "nat (sint y' - ?a)"]) linarith
  have "?a \<le> sint y" "sint y < ?a + int ?H" using assms(5) limits_contains_eq [OF l, of y] by simp_all
  then obtain h where y: "sint y = ?a + int h" "h < ?H" using inside by blast
  from chunk_set_block_eq [OF assms(1-4) y] obtain c' where
    c': "chunk_set_block c x y z v states = Some (block_id c x h z, c')" "wf_chunk states c'"
      "ch_limits c' = ch_limits c" "\<forall>x' h' z'. x' < 16 \<longrightarrow> z' < 16 \<longrightarrow> h' < ?H \<longrightarrow>
      block_id c' x' h' z' = (if x' = x \<and> h' = h \<and> z' = z then v else block_id c x' h' z')" by blast
  have rd: "chunk_block c' x' y' z' states =
      (if x' = x \<and> y' = y \<and> z' = z then Some v else chunk_block c x' y' z' states)"
    if b: "x' < 16" "z' < 16" for x' y' z'
  proof (cases "?a \<le> sint y' \<and> sint y' < ?a + int ?H")
    case True
    then obtain h' where y': "sint y' = ?a + int h'" "h' < ?H" using inside by blast
    have "y' = y \<longleftrightarrow> h' = h" using y(1) y'(1) by (metis signed_word_eqI of_nat_eq_iff add_left_cancel)
    then show ?thesis using c'(4) b y'(2) chunk_block_eq [OF assms(1) b y']
        chunk_block_eq [OF c'(2) b, of y' h' , unfolded c'(3), OF y'] by simp
  next
    case False
    then have "section_of c y' = Some None" "section_of c' y' = Some None" "y' \<noteq> y"
      using section_of_outside [OF l, of y'] section_of_outside [of c' y'] l c'(3) y by auto
    then show ?thesis by (auto simp: chunk_block_def)
  qed
  show ?thesis using c'(1,2) rd assms(2,3) chunk_block_eq [OF assms(1-3) y]
    by (intro exI [of _ c']) simp
qed

lemma chunk_write_read_witness:
  "\<exists>c c'. chunk_empty (ChunkPos 3 (- 7)) OVERWORLD placeholder = Some c \<and>
     chunk_set_block c 15 (- 64) 9 5 placeholder = Some (0, c') \<and>
     chunk_block c' 15 (- 64) 9 placeholder = Some 5 \<and> chunk_block c' 15 (- 63) 9 placeholder = Some 0"
proof -
  have air: "id_ok placeholder (bst_air placeholder)" using placeholder_wf(1) by (simp add: wf_states_def)
  obtain c where c: "chunk_empty (ChunkPos 3 (- 7)) OVERWORLD placeholder = Some c" "wf_chunk placeholder c"
    "ch_limits c = OVERWORLD"
    "\<forall>x z h. x < 16 \<longrightarrow> z < 16 \<longrightarrow> h < world_height OVERWORLD \<longrightarrow> block_id c x h z = bst_air placeholder"
    using chunk_empty_eq [OF overworld_wf(1) air] by blast
  have rd: "chunk_block c 15 y 9 placeholder = Some 0" if "y = - 64 \<or> y = - 63" for y
    using chunk_block_eq [OF c(2), of 15 9 y "nat (sint y + 64)"] c(3,4) overworld_wf that
    by (auto simp: placeholder_def)
  have "limits_contains (ch_limits c) (- 64) = Some True"
    unfolding c(3) limits_contains_eq [OF overworld_wf(1)] overworld_wf(2,3) by simp
  from chunk_write_read [OF c(2) _ _ placeholder_wf(2) this, of 15 9] rd c(1)
  show ?thesis by (auto intro: exI [of _ c])
qed

text \<open>
  Outside the world's height a column reads as air, a write changes nothing and reports air.
\<close>

lemma chunk_outside_is_air:
  assumes "wf_chunk states c" "limits_contains (ch_limits c) y \<noteq> Some True"
  shows "chunk_block c x y z states = Some (bst_air states) \<and>
    chunk_set_block c x y z v states = Some (bst_air states, c)"
proof -
  have "section_of c y = Some None"
    using assms(2) limits_contains_eq [OF wf_chunkD(1) [OF assms(1)], of y]
    by (auto simp: section_of_def)
  then show ?thesis by (simp add: chunk_block_def chunk_set_block_def)
qed

lemma chunk_outside_is_air_witness:
  "\<exists>c. chunk_empty (ChunkPos 0 0) OVERWORLD placeholder = Some c \<and> chunk_block c 0 320 0 placeholder = Some 0"
proof -
  have air: "id_ok placeholder (bst_air placeholder)" using placeholder_wf(1) by (simp add: wf_states_def)
  obtain c where c: "chunk_empty (ChunkPos 0 0) OVERWORLD placeholder = Some c" "wf_chunk placeholder c"
    "ch_limits c = OVERWORLD" using chunk_empty_eq [OF overworld_wf(1) air] by blast
  have "limits_contains (ch_limits c) 320 \<noteq> Some True"
    unfolding c(3) limits_contains_eq [OF overworld_wf(1)] overworld_wf(2,3) by simp
  from chunk_outside_is_air [OF c(2) this, of 0 0] c(1) show ?thesis by (simp add: placeholder_def)
qed

text \<open>
  The operation \<open>recompute_heightmaps\<close>, with its skipped sections and early exits, never panics, and records
  in both maps, for every column, zero when the column has no block but air, and otherwise one more
  than the offset of its highest block that is not air.
\<close>

lemma recompute_heightmaps_correct:
  assumes "wf_chunk states c" "x < 16" "z < 16"
  shows "\<exists>c' v. recompute_heightmaps c states = Some c' \<and> wf_chunk states c' \<and>
    ch_sections c' = ch_sections c \<and>
    storage_get (hm_motion_blocking (ch_heightmaps c')) (z * 16 + x) = Some v \<and>
    storage_get (hm_world_surface (ch_heightmaps c')) (z * 16 + x) = Some v \<and>
    (v = 0 \<longrightarrow> (\<forall>h < world_height (ch_limits c). is_air states (block_id c x h z))) \<and>
    (\<forall>y. unat v = Suc y \<longrightarrow> y < world_height (ch_limits c) \<and> \<not> is_air states (block_id c x y z) \<and>
      (\<forall>h. y < h \<longrightarrow> h < world_height (ch_limits c) \<longrightarrow> is_air states (block_id c x h z)))"
proof -
  from recompute_heightmaps_eq [OF assms(1)] obtain c' where
    c': "recompute_heightmaps c states = Some c'" "wf_chunk states c'" "ch_sections c' = ch_sections c"
      "contents (hm_world_surface (ch_heightmaps c')) = contents (hm_motion_blocking (ch_heightmaps c'))"
      "resolved states c 0 (contents (hm_motion_blocking (ch_heightmaps c')))" by blast
  let ?v = "contents (hm_motion_blocking (ch_heightmaps c')) ! (z * 16 + x)"
  let ?f = "\<lambda>h. \<not> is_air states (block_id c x h z)"
  have "wf_heightmaps (ch_limits c') (ch_heightmaps c')" using c'(2) by (simp add: wf_chunk_def)
  note D = wf_heightmapsD [OF this]
  have i: "z * 16 + x < 256" using assms(2,3) by linarith
  have w: "entry (hm_world_surface (ch_heightmaps c')) (z * 16 + x) = ?v"
    using nth_contents [of "z * 16 + x" "hm_world_surface (ch_heightmaps c')"] D(5) i c'(4) by simp
  have m: "entry (hm_motion_blocking (ch_heightmaps c')) (z * 16 + x) = ?v"
    using nth_contents [of "z * 16 + x" "hm_motion_blocking (ch_heightmaps c')"] D(2) i by simp
  have u: "unat ?v = top ?f 0 (world_height (ch_limits c))"
    using c'(5) assms(2,3) unfolding resolved_def by blast
  have "?v = 0 \<longrightarrow> (\<forall>h < world_height (ch_limits c). is_air states (block_id c x h z))"
    using u top_eq_iff(1) [of ?f "world_height (ch_limits c)"] by auto
  moreover have "\<forall>y. unat ?v = Suc y \<longrightarrow> y < world_height (ch_limits c) \<and> \<not> is_air states (block_id c x y z) \<and>
      (\<forall>h. y < h \<longrightarrow> h < world_height (ch_limits c) \<longrightarrow> is_air states (block_id c x h z))"
    using u top_eq_iff(2) [of ?f "world_height (ch_limits c)"] by simp
  moreover have "storage_get (hm_motion_blocking (ch_heightmaps c')) (z * 16 + x) = Some ?v"
    "storage_get (hm_world_surface (ch_heightmaps c')) (z * 16 + x) = Some ?v"
    using D(1,2,4,5) i w m by (simp_all only: storage_get_eq if_True)
  ultimately show ?thesis using c'(1-3) by blast
qed

lemma recompute_heightmaps_correct_witness:
  "\<exists>c c'. flat_generate flat_default (ChunkPos 0 0) OVERWORLD placeholder = Some c \<and>
     recompute_heightmaps c placeholder = Some c' \<and>
     storage_get (hm_world_surface (ch_heightmaps c')) 37 \<noteq> Some 0"
proof -
  obtain c where c: "flat_generate flat_default (ChunkPos 0 0) OVERWORLD placeholder = Some c"
    "wf_chunk placeholder c" "ch_limits c = OVERWORLD"
    "\<forall>x z h. x < 16 \<longrightarrow> z < 16 \<longrightarrow> h < world_height OVERWORLD \<longrightarrow>
      block_id c x h z = flat_block flat_default OVERWORLD placeholder h"
    using flat_generate_eq [OF flat_default_wf placeholder_wf(1) overworld_wf(1)] by blast
  have "flat_block flat_default OVERWORLD placeholder 0 = 4" by (simp add: flat_block_def placeholder_def)
  then have "\<not> is_air placeholder (block_id c 5 0 2)"
    using c(4) overworld_wf(2) by (simp add: is_air_def placeholder_def)
  moreover have "0 < world_height (ch_limits c)" using c(3) overworld_wf(2) by simp
  ultimately show ?thesis using recompute_heightmaps_correct [OF c(2), of 5 2] c(1) by auto
qed

text \<open>
  C24: the superflat generator, which fills uniform sections in one step, skips air and only then
  computes the heightmaps, never panics and gives at every position of the world the block that
  \<open>block_at\<close> computes for its height.
\<close>

theorem flat_generate_block_at:
  assumes "wf_generator g" "wf_states states" "wf_limits l" "x < 16" "z < 16"
    and "limits_contains l y = Some True"
  shows "\<exists>c. flat_generate g pos l states = Some c \<and> wf_chunk states c \<and> ch_pos c = pos \<and>
    chunk_block c x y z states = block_at g y l states"
proof -
  have "sint (hl_min_y l) \<le> sint y" "sint y < sint (hl_min_y l) + int (world_height l)"
    using assms(6) limits_contains_eq [OF assms(3), of y] by simp_all
  then have y: "sint y = sint (hl_min_y l) + int (nat (sint y - sint (hl_min_y l)))"
    "nat (sint y - sint (hl_min_y l)) < world_height l" by linarith+
  obtain c where c: "flat_generate g pos l states = Some c" "wf_chunk states c" "ch_pos c = pos" "ch_limits c = l"
    "\<forall>x z h. x < 16 \<longrightarrow> z < 16 \<longrightarrow> h < world_height l \<longrightarrow> block_id c x h z = flat_block g l states h"
    using flat_generate_eq [OF assms(1-3)] by blast
  show ?thesis
    using c chunk_block_eq [OF c(2) assms(4,5), unfolded c(4), OF y] block_at_eq [OF assms(1) y(1)] assms(4,5) y(2)
    by (intro exI [of _ c]) simp
qed

lemma flat_generate_block_at_witness:
  "\<exists>c. flat_generate flat_default (ChunkPos 0 0) OVERWORLD placeholder = Some c \<and>
     chunk_block c 3 (- 60) 12 placeholder = Some 3"
proof -
  have "limits_contains OVERWORLD (- 60) = Some True"
    unfolding limits_contains_eq [OF overworld_wf(1)] overworld_wf(2,3) by simp
  moreover have "block_at flat_default (- 60) OVERWORLD placeholder = Some 3"
    by (simp add: block_at_def flat_default_def OVERWORLD_def placeholder_def)
  ultimately show ?thesis
    using flat_generate_block_at [OF flat_default_wf placeholder_wf(1) overworld_wf(1), of 3 12 "- 60"] by auto
qed

text \<open>
  The section array of a column has exactly the size computed in advance.
\<close>

lemma write_sections_exact_size:
  assumes "wf_chunk states c"
  shows "\<exists>bs. write_sections c states = Some bs \<and> length bs = sections_wire_len c"
  using assms by (rule write_sections_eq)

lemma write_sections_exact_size_witness:
  "\<exists>c bs. flat_generate flat_default (ChunkPos 0 0) OVERWORLD placeholder = Some c \<and>
     write_sections c placeholder = Some bs \<and> length bs = sections_wire_len c"
  using flat_generate_eq [OF flat_default_wf placeholder_wf(1) overworld_wf(1), of "ChunkPos 0 0"]
    write_sections_exact_size by blast

text \<open>C26: shrinking every section of a column changes no block.\<close>

theorem chunk_shrink_keeps_blocks:
  assumes "wf_chunk states c" "x < 16" "z < 16"
  shows "\<exists>c'. chunk_shrink c = Some c' \<and> wf_chunk states c' \<and>
    chunk_block c' x y z states = chunk_block c x y z states"
proof -
  from chunk_shrink_eq [OF assms(1)] obtain c' where c': "chunk_shrink c = Some c'" "wf_chunk states c'"
    "ch_limits c' = ch_limits c"
    "\<forall>x z h. h < world_height (ch_limits c) \<longrightarrow> block_id c' x h z = block_id c x h z" by blast
  let ?a = "sint (hl_min_y (ch_limits c))"
  note l = wf_chunkD(1) [OF assms(1)]
  have "chunk_block c' x y z states = chunk_block c x y z states"
  proof (cases "?a \<le> sint y \<and> sint y < ?a + int (world_height (ch_limits c))")
    case True
    then have y: "sint y = ?a + int (nat (sint y - ?a))" "nat (sint y - ?a) < world_height (ch_limits c)" by linarith+
    from chunk_block_eq [OF assms y] chunk_block_eq [OF c'(2) assms(2,3), unfolded c'(3), OF y] c'(4) y(2)
    show ?thesis by simp
  next
    case False
    then have "section_of c y = Some None" "section_of c' y = Some None"
      using section_of_outside [OF l, of y] section_of_outside [of c' y] l c'(3) by auto
    then show ?thesis by (simp add: chunk_block_def)
  qed
  with c'(1,2) show ?thesis by blast
qed

lemma chunk_shrink_keeps_blocks_witness:
  "\<exists>c c'. flat_generate flat_default (ChunkPos 0 0) OVERWORLD placeholder = Some c \<and>
     chunk_shrink c = Some c' \<and> chunk_block c' 1 2 3 placeholder = chunk_block c 1 2 3 placeholder"
proof -
  obtain c where "flat_generate flat_default (ChunkPos 0 0) OVERWORLD placeholder = Some c"
    "wf_chunk placeholder c"
    using flat_generate_eq [OF flat_default_wf placeholder_wf(1) overworld_wf(1)] by blast
  then show ?thesis using chunk_shrink_keeps_blocks [of placeholder c 1 3 2] by auto
qed

end
