(* ===== verification/Tick.thy ===== *)
theory Tick
  imports Floats Utf8 "HOL-Library.Multiset"
begin

text \<open>
  \<open>crates/rukkit-server/src/tick.rs\<close>: the window of recent tick durations, the lifetime counters, and the figures
  computed from them in \<open>f64\<close>. The counters wrap, as they do in a release build; the text of a number with two
  decimals is a parameter of \<open>summary\<close>.
\<close>

section \<open>The window\<close>

record tick_metrics =
  tm_window :: "duration list"
  tm_capacity :: usize
  tm_target :: duration
  tm_total_ticks :: u64
  tm_overrun_ticks :: u64

text \<open>\<open>new\<close> panics on a window of no samples.\<close>

definition metrics_new :: "duration \<Rightarrow> usize \<Rightarrow> tick_metrics option" where
  "metrics_new target capacity = (if capacity = 0 then None else
     Some \<lparr>tm_window = [], tm_capacity = capacity, tm_target = target, tm_total_ticks = 0, tm_overrun_ticks = 0\<rparr>)"

definition record_tick :: "duration \<Rightarrow> tick_metrics \<Rightarrow> tick_metrics" where
  "record_tick elapsed m =
     (let window = (if length (tm_window m) = tm_capacity m then tl (tm_window m) else tm_window m) in
      m\<lparr>tm_window := window @ [elapsed], tm_total_ticks := tm_total_ticks m + 1,
        tm_overrun_ticks := (if tm_target m < elapsed then tm_overrun_ticks m + 1 else tm_overrun_ticks m)\<rparr>)"

definition total_ticks :: "tick_metrics \<Rightarrow> u64" where
  "total_ticks m = tm_total_ticks m"

definition overrun_ticks :: "tick_metrics \<Rightarrow> u64" where
  "overrun_ticks m = tm_overrun_ticks m"

definition samples :: "tick_metrics \<Rightarrow> usize" where
  "samples m = length (tm_window m)"

definition max_sample :: "tick_metrics \<Rightarrow> duration option" where
  "max_sample m = (if tm_window m = [] then None else Some (Max (set (tm_window m))))"

definition percentile_sample :: "usize \<Rightarrow> tick_metrics \<Rightarrow> duration option" where
  "percentile_sample rank m = (if tm_window m = [] then None else
     (let sorted = sort (tm_window m);
          index = min (rank - 1) (length sorted - 1)
      in Some (sorted ! index)))"

section \<open>The figures\<close>

definition millis_of :: "duration \<Rightarrow> fp" where
  "millis_of d = fp_mul f64_format (as_secs_f64 d) (Num 1000)"

definition mean_mspt :: "tick_metrics \<Rightarrow> fp" where
  "mean_mspt m = (if tm_window m = [] then Num 0 else
     (let total = foldl (\<lambda>sum d. fp_add f64_format sum (as_secs_f64 d)) (Num 0) (tm_window m) in
      fp_div f64_format (fp_mul f64_format total (Num 1000)) (fp_round f64_format (of_nat (length (tm_window m))))))"

definition max_mspt :: "tick_metrics \<Rightarrow> fp" where
  "max_mspt m = (case max_sample m of None \<Rightarrow> Num 0 | Some d \<Rightarrow> millis_of d)"

definition percentile_rank :: "fp \<Rightarrow> usize \<Rightarrow> usize" where
  "percentile_rank p len = nat (fp_to_int 0 (2 ^ 64 - 1) (fp_map ceiling
     (fp_mul f64_format (fp_clamp 0 1 p) (fp_round f64_format (of_nat len)))))"

definition percentile_mspt :: "fp \<Rightarrow> tick_metrics \<Rightarrow> fp" where
  "percentile_mspt p m = (case percentile_sample (percentile_rank p (length (tm_window m))) m of
      None \<Rightarrow> Num 0
    | Some d \<Rightarrow> millis_of d)"

definition tps :: "tick_metrics \<Rightarrow> fp" where
  "tps m = (let target_tps = fp_div f64_format (Num 1) (as_secs_f64 (tm_target m)); mean = mean_mspt m in
     if fp_le mean (Num 0) then target_tps else fp_min (fp_div f64_format (Num 1000) mean) target_tps)"

definition is_healthy :: "tick_metrics \<Rightarrow> bool" where
  "is_healthy m \<longleftrightarrow> fp_le (mean_mspt m) (millis_of (tm_target m))"

text \<open>The literal \<open>0.95\<close>, and the line for the log.\<close>

definition P95 :: fp where
  "P95 = fp_round f64_format (95 / 100)"

definition summary :: "(fp \<Rightarrow> rstring) \<Rightarrow> tick_metrics \<Rightarrow> rstring" where
  "summary two_decimals m = lit ''TPS '' @ two_decimals (tps m) @ lit '' | MSPT mean '' @ two_decimals (mean_mspt m) @
     lit '' p95 '' @ two_decimals (percentile_mspt P95 m) @ lit '' max '' @ two_decimals (max_mspt m) @ lit '' | '' @
     lit (show_nat (unat (overrun_ticks m))) @ lit '' overruns of '' @ lit (show_nat (unat (total_ticks m))) @ lit '' ticks''"

section \<open>Lemmas\<close>

definition record_all :: "duration list \<Rightarrow> tick_metrics \<Rightarrow> tick_metrics" where
  "record_all = fold record_tick"

lemma last_n_snoc:
  assumes "0 < n"
  shows "drop (length (xs @ [x]) - n) (xs @ [x]) =
    (if n \<le> length xs then tl (drop (length xs - n) xs) else drop (length xs - n) xs) @ [x]"
proof (cases "n \<le> length xs")
  case True
  with assms have "length (xs @ [x]) - n = Suc (length xs - n)" "Suc (length xs - n) \<le> length xs"
    by (simp_all add: Suc_diff_le)
  with True show ?thesis by (simp add: drop_Suc tl_drop)
qed simp

lemma record_all_snoc: "record_all (xs @ [x]) m = record_tick x (record_all xs m)"
  by (simp add: record_all_def)

lemma record_all_new:
  assumes "metrics_new target capacity = Some m"
  shows "record_all xs m = \<lparr>tm_window = drop (length xs - capacity) xs, tm_capacity = capacity, tm_target = target,
    tm_total_ticks = of_nat (length xs), tm_overrun_ticks = of_nat (length (filter (\<lambda>d. target < d) xs))\<rparr>"
proof (induction xs rule: rev_induct)
  case Nil
  from assms show ?case by (auto simp: record_all_def metrics_new_def split: if_splits)
next
  case (snoc x xs)
  have c: "0 < capacity" using assms by (auto simp: metrics_new_def split: if_splits)
  have "(length xs - (length xs - capacity) = capacity) = (capacity \<le> length xs)" by auto
  then show ?case
    unfolding record_all_snoc snoc by (simp add: record_tick_def Let_def last_n_snoc [OF c, simplified])
qed

lemma sorted_nth_count:
  fixes ys :: "'a::linorder list"
  assumes "sorted ys" "i < length ys"
  shows "i < length (filter (\<lambda>y. y \<le> ys ! i) ys)" "length (filter (\<lambda>y. y < ys ! i) ys) \<le> i"
proof -
  have "filter (\<lambda>y. y \<le> ys ! i) (take (Suc i) ys) = take (Suc i) ys"
    using assms by (auto simp: filter_id_conv in_set_conv_nth intro!: sorted_nth_mono)
  then have "length (filter (\<lambda>y. y \<le> ys ! i) (take (Suc i) ys @ drop (Suc i) ys)) \<ge> Suc i"
    using assms(2) by (subst filter_append) simp
  then show "i < length (filter (\<lambda>y. y \<le> ys ! i) ys)" by simp
  have "filter (\<lambda>y. y < ys ! i) (drop i ys) = []"
    using assms by (auto simp: filter_empty_conv in_set_conv_nth not_less intro!: sorted_nth_mono)
  then have "filter (\<lambda>y. y < ys ! i) ys = filter (\<lambda>y. y < ys ! i) (take i ys)"
    by (metis append_take_drop_id filter_append append_Nil2)
  then show "length (filter (\<lambda>y. y < ys ! i) ys) \<le> i"
    using length_filter_le [of "\<lambda>y. y < ys ! i" "take i ys"] assms(2) by simp
qed

lemma length_filter_sort: "length (filter P (sort xs)) = length (filter P xs)"
  by (metis mset_filter mset_sort size_mset)

section \<open>Properties\<close>

text \<open>
  After any ticks the window holds exactly the last \<open>capacity\<close> durations, in order, while the
  counters remember every tick and every overrun.
\<close>

lemma metrics_sliding_window:
  assumes "metrics_new target capacity = Some m"
  shows "tm_window (record_all xs m) = drop (length xs - capacity) xs \<and>
    samples (record_all xs m) = min (length xs) capacity \<and>
    total_ticks (record_all xs m) = of_nat (length xs) \<and>
    overrun_ticks (record_all xs m) = of_nat (length (filter (\<lambda>d. target < d) xs))"
  by (auto simp: record_all_new [OF assms] samples_def total_ticks_def overrun_ticks_def)

lemma metrics_sliding_window_witness:
  "\<exists>m. metrics_new 50 3 = Some m \<and> tm_window (record_all [100, 10, 20, 30] m) = [10, 20, 30]"
proof -
  obtain m where m: "metrics_new 50 3 = Some m" by (simp add: metrics_new_def)
  from metrics_sliding_window [OF m, of "[100, 10, 20, 30]"] m show ?thesis by auto
qed

text \<open>
  A percentile is the nearest-rank one: the sample at \<open>rank\<close> has at least that many samples
  at or below it and fewer strictly below, ranks out of range are clamped to the smallest and
  the largest sample, and no rank makes the lookup fail on a window that has samples.
\<close>

lemma percentile_nearest_rank:
  assumes "tm_window m \<noteq> []" "r = max 1 (min rank (length (tm_window m)))"
  shows "\<exists>d \<in> set (tm_window m). percentile_sample rank m = Some d \<and>
    r \<le> length (filter (\<lambda>x. x \<le> d) (tm_window m)) \<and> length (filter (\<lambda>x. x < d) (tm_window m)) < r \<and>
    (length (tm_window m) \<le> rank \<longrightarrow> max_sample m = Some d)"
proof -
  let ?w = "tm_window m"
  let ?ys = "sort ?w"
  define i where "i = r - 1"
  have i: "i < length ?ys" "min (rank - 1) (length ?ys - 1) = i" "r = Suc i"
    using assms length_greater_0_conv [of ?w] by (auto simp: i_def max_def min_def simp del: length_greater_0_conv)
  define d where "d = ?ys ! i"
  have c: "i < length (filter (\<lambda>y. y \<le> d) ?w)" "length (filter (\<lambda>y. y < d) ?w) \<le> i"
    using sorted_nth_count [OF sorted_sort i(1)] by (simp_all add: length_filter_sort d_def)
  have s: "d \<in> set ?w" unfolding d_def by (metis i(1) nth_mem set_sort)
  have "Max (set ?w) = d" if "length ?w \<le> rank"
  proof (rule Max_eqI)
    fix y assume y: "y \<in> set ?w"
    have "r = length ?w" using that assms length_greater_0_conv [of ?w]
      by (auto simp: max_def simp del: length_greater_0_conv)
    with c(1) i(3) length_filter_le [of "\<lambda>y. y \<le> d" ?w]
    have "length (filter (\<lambda>y. y \<le> d) ?w) = length ?w" by linarith
    with y show "y \<le> d" by (metis filter_True length_filter_less nat_neq_iff)
  qed (use s in simp_all)
  moreover have "percentile_sample rank m = Some d"
    using assms(1) i(2) by (simp add: percentile_sample_def Let_def d_def)
  ultimately show ?thesis using assms(1) s c i(3) by (intro bexI [of _ d]) (simp_all add: max_sample_def)
qed

lemma percentile_nearest_rank_witness:
  "\<exists>m. metrics_new 50 3 = Some m \<and> percentile_sample 2 (record_all [30, 10, 20] m) \<noteq> None"
proof -
  obtain m where m: "metrics_new 50 3 = Some m" by (simp add: metrics_new_def)
  have "tm_window (record_all [30, 10, 20] m) \<noteq> []" by (simp add: record_all_new [OF m])
  from percentile_nearest_rank [OF this refl, of 2] m show ?thesis by auto
qed

text \<open>The literal is a little below 0.95, and no rounding moves the rank to another integer.\<close>

lemma P95_value: "P95 = Num (8556839292003942 / 2 ^ 53)"
proof -
  have "round_to f64_format (19 / 20) = 8556839292003942 * 2 powi - 53"
    using round_to_eq [of "- 1" "19 / 20" "- 53" f64_format 8556839292003942] by (simp add: power_int_minus round_even_def)
  then show ?thesis using fp_round_Num [of "19 / 20" 0 f64_format] by (simp add: P95_def power_int_minus)
qed

lemma percentile_rank_95:
  assumes "0 < n" "n \<le> 2 ^ 20"
  shows "percentile_rank P95 n = (19 * n + 19) div 20"
proof -
  define K where "K = (19 * n + 19) div 20"
  have K: "20 * K \<le> 19 * n + 19" "19 * n \<le> 20 * K" "1 \<le> K" "K \<le> n" using assms(1) by (simp_all add: K_def)
  let ?p = "8556839292003942 / 2 ^ 53 :: rat" let ?x = "?p * of_nat n" let ?y = "round_to f64_format ?x"
  have N: "1 \<le> (of_nat n :: rat)" "(of_nat n :: rat) \<le> 2 ^ 20"
    using assms by (metis One_nat_def Suc_leI of_nat_1 of_nat_le_iff, metis of_nat_le_iff of_nat_numeral of_nat_power)
  have r: "(20 * of_nat K :: rat) \<le> 19 * of_nat n + 19" "(19 * of_nat n :: rat) \<le> 20 * of_nat K" "(of_nat K :: rat) \<le> of_nat n"
    using K of_nat_le_iff [of "20 * K" "19 * n + 19", where 'a = rat] of_nat_le_iff [of "19 * n" "20 * K", where 'a = rat]
    by simp_all
  have p: "19 / 20 - 1 / 2 ^ 53 \<le> ?p" "?p \<le> 19 / 20" by simp_all
  have x: "?x \<le> of_nat K" "of_nat K - 19 / 20 - 1 / 2 ^ 33 \<le> ?x"
  proof -
    have "?x \<le> 19 / 20 * of_nat n" using p(2) by (rule mult_right_mono) simp
    then show "?x \<le> of_nat K" using r(2) by simp
    have "(19 / 20 - 1 / 2 ^ 53) * of_nat n \<le> ?x" using p(1) by (rule mult_right_mono) simp
    moreover have "(19 / 20 - 1 / 2 ^ 53) * of_nat n = (19 / 20 * of_nat n - of_nat n / 2 ^ 53 :: rat)"
      by (simp add: left_diff_distrib)
    moreover have "(of_nat n :: rat) / 2 ^ 53 \<le> 2 ^ 20 / 2 ^ 53" using N(2) by (rule divide_right_mono) simp
    ultimately show "of_nat K - 19 / 20 - 1 / 2 ^ 33 \<le> ?x" using r(1) by simp
  qed
  have x0: "0 < ?x" "?x \<le> 2 ^ 20" using N x(1) r(3) by (simp_all add: mult_pos_pos)
  then have xa: "\<bar>?x\<bar> < 2 powi 21" by simp
  have "ulp_exponent f64_format ?x \<le> 0" using xa x0 by (intro ulp_of_multiple) simp_all
  with x x0 have "?y \<le> of_int (int K) * 2 powi 0" by (intro round_to_le) simp_all
  then have y1: "?y \<le> of_nat K" by simp
  have "\<bar>?y - ?x\<bar> \<le> 2 powi (21 - int (ff_precision f64_format) - 1)"
    using xa by (rule round_to_close) simp
  then have "\<bar>?y - ?x\<bar> \<le> 1 / 2 ^ 33" by (simp add: power_int_minus)
  moreover have "(1 / 2 ^ 33 :: rat) < 1 / 40" by simp
  ultimately have y2: "of_nat K - 1 < ?y" using x(2) by linarith
  have c: "\<lceil>?y\<rceil> = int K" using y1 y2 by (intro ceiling_unique) simp_all
  have "fp_clamp 0 1 P95 = P95" by (simp add: P95_value fp_clamp_def)
  moreover have "fp_round f64_format ?x = Num ?y" using fp_round_Num [of ?x 21 f64_format] xa by simp
  moreover have "fp_round f64_format (of_nat n) = Num (of_nat n)" using assms by (intro fp_round_of_nat) simp
  ultimately have "fp_mul f64_format (fp_clamp 0 1 P95) (fp_round f64_format (of_nat n)) = Num ?y"
    by (simp only: P95_value fp_mul.simps)
  moreover have "max 0 (min (2 ^ 64 - 1) (int K)) = int K" using K(4) assms by simp
  ultimately show ?thesis
    unfolding percentile_rank_def K_def [symmetric] by (simp only: fp_map.simps c fp_to_int_of_int nat_int)
qed

text \<open>The mean, after a rounding for every sample and a few more.\<close>

lemma sum_close:
  assumes "fp_close (k + 2) (of_nat a / of_nat NANOS_PER_SEC) acc" "list_all (\<lambda>d. d < 2 ^ 64 * NANOS_PER_SEC) ds"
    and "a + sum_list ds < 2 ^ 199" "k + length ds < 2 ^ 40"
  shows "fp_close (k + length ds + 2) (of_nat (a + sum_list ds) / of_nat NANOS_PER_SEC)
    (foldl (\<lambda>sum d. fp_add f64_format sum (as_secs_f64 d)) acc ds)"
  using assms
proof (induction ds arbitrary: k a acc)
  case (Cons d ds)
  let ?n = "of_nat NANOS_PER_SEC :: rat"
  have "fp_close (k + 2) (of_nat d / ?n) (as_secs_f64 d)"
    using as_secs_close [of d] Cons.prems(2) by (auto intro: fp_close_mono)
  moreover have "of_nat a / ?n + of_nat d / ?n = of_nat (a + d) / ?n" by (simp add: add_divide_distrib)
  moreover have "moderate (of_nat (a + d) / ?n)"
    using Cons.prems(3) by (intro moderate_ratio) (simp_all add: NANOS_PER_SEC_def)
  ultimately have "fp_close (k + 2 + 1) (of_nat (a + d) / ?n) (fp_add f64_format acc (as_secs_f64 d))"
    using fp_close_add [OF Cons.prems(1), of "of_nat d / ?n" "as_secs_f64 d"] Cons.prems(4) by simp
  then have "fp_close ((k + 1) + 2) (of_nat (a + d) / ?n) (fp_add f64_format acc (as_secs_f64 d))" by (simp add: add.commute)
  from Cons.IH [OF this] Cons.prems show ?case by (simp add: add.assoc)
qed simp

lemma sum_list_bound: "list_all (\<lambda>d. d < l) ds \<Longrightarrow> sum_list ds \<le> length ds * l" for l :: nat
  by (induction ds) (auto intro: add_mono less_imp_le)

lemma mean_close:
  assumes "tm_window m \<noteq> []" "length (tm_window m) \<le> 2 ^ 20"
    and "list_all (\<lambda>d. d < 2 ^ 64 * NANOS_PER_SEC) (tm_window m)"
  shows "fp_close (Suc (Suc (Suc (Suc (length (tm_window m))))))
    (of_nat (sum_list (tm_window m)) / (1000000 * of_nat (length (tm_window m)))) (mean_mspt m)"
proof -
  let ?w = "tm_window m" let ?n = "length ?w" let ?S = "sum_list ?w"
  have "?S \<le> ?n * (2 ^ 64 * NANOS_PER_SEC)"
    using assms(3) by (rule sum_list_bound)
  also have "\<dots> \<le> 2 ^ 20 * (2 ^ 64 * NANOS_PER_SEC)" using assms(2) by (rule mult_right_mono) simp
  also have "\<dots> < 2 ^ 150" by (simp add: NANOS_PER_SEC_def)
  finally have S: "?S < 2 ^ 150" .
  have n: "0 < ?n" "?n < 2 ^ 40" using assms(1,2) by simp_all
  have "fp_close (0 + 2) (of_nat 0 / of_nat NANOS_PER_SEC) (Num 0)" by (simp add: fp_close_Num)
  from sum_close [OF this assms(3)] S n
  have 1: "fp_close (?n + 2) (of_nat ?S / of_nat NANOS_PER_SEC)
    (foldl (\<lambda>sum d. fp_add f64_format sum (as_secs_f64 d)) (Num 0) ?w)" by simp
  have e: "of_nat ?S / of_nat NANOS_PER_SEC * 1000 = (of_nat ?S / of_nat 1000000 :: rat)" by (simp add: NANOS_PER_SEC_def)
  have 2: "fp_close (?n + 2 + 1) (of_nat ?S / of_nat 1000000)
    (fp_mul f64_format (foldl (\<lambda>sum d. fp_add f64_format sum (as_secs_f64 d)) (Num 0) ?w) (Num 1000))"
    using fp_close_mul [OF 1, of 1000] moderate_ratio [of 1000000 ?S] S n unfolding e by simp
  have "moderate (of_nat ?S / of_nat 1000000 / of_nat ?n)"
    using moderate_ratio [of "1000000 * ?n" ?S] S n assms(2) by simp
  from fp_close_div [OF 2 _ this] n have "fp_close (?n + 2 + 1 + 1) (of_nat ?S / of_nat 1000000 / of_nat ?n)
    (fp_div f64_format (fp_mul f64_format (foldl (\<lambda>sum d. fp_add f64_format sum (as_secs_f64 d)) (Num 0) ?w) (Num 1000))
      (Num (of_nat ?n)))" by simp
  moreover have "fp_round f64_format (of_nat ?n) = Num (of_nat ?n)" using n by (intro fp_round_of_nat) simp
  ultimately show ?thesis using assms(1) unfolding mean_mspt_def Let_def by simp
qed

text \<open>Comparing two numbers that are known up to a few roundings.\<close>

lemma close_compare:
  assumes "close 3 x y" "close 2052 x' y'" "0 \<le> x" "0 \<le> x'"
  shows "y' \<le> y \<Longrightarrow> x' \<le> x * (1 + 1 / 2 ^ 40)" "x' * (1 + 1 / 2 ^ 40) \<le> x \<Longrightarrow> y' \<le> y"
proof -
  let ?e = "3 / 2 ^ 52 :: rat" and ?d = "2052 / 2 ^ 52 :: rat" and ?u = "1 + 1 / 2 ^ 40 :: rat"
  have b: "x * (1 - ?e) \<le> y" "y \<le> x * (1 + ?e)" "x' * (1 - ?d) \<le> y'" "y' \<le> x' * (1 + ?d)"
    using assms(1,2) unfolding close_def right_diff_distrib distrib_left mult_1_right of_nat_numeral by linarith+
  show "x' \<le> x * ?u" if "y' \<le> y"
  proof -
    have "x' * (1 - ?d) \<le> x * (1 + ?e)" using b(2,3) that by linarith
    also have "\<dots> \<le> x * (?u * (1 - ?d))" using assms(3) by (intro mult_left_mono) simp_all
    finally have "x' * (1 - ?d) \<le> x * ?u * (1 - ?d)" by (simp only: mult.assoc)
    then show ?thesis by (rule mult_right_le_imp_le) simp
  qed
  show "y' \<le> y" if l: "x' * ?u \<le> x"
  proof -
    have "x' * (1 + ?d) \<le> x' * (?u * (1 - ?e))" using assms(4) by (intro mult_left_mono) simp_all
    also have "\<dots> = x' * ?u * (1 - ?e)" by (simp only: mult.assoc)
    also have "\<dots> \<le> x * (1 - ?e)" using l by (rule mult_right_mono) simp
    finally show ?thesis using b(1,4) by linarith
  qed
qed

lemma millis_close:
  assumes "d < 2 ^ 64 * NANOS_PER_SEC"
  shows "fp_close 3 (of_nat d / 1000000) (millis_of d)"
proof -
  have e: "of_nat d / of_nat NANOS_PER_SEC * 1000 = (of_nat d / of_nat 1000000 :: rat)" by (simp add: NANOS_PER_SEC_def)
  have "moderate (of_nat d / of_nat 1000000)" using assms by (intro moderate_ratio) (simp_all add: NANOS_PER_SEC_def)
  with fp_close_mul [OF as_secs_close [OF assms], of 1000] show ?thesis unfolding e millis_of_def by (simp add: numeral_3_eq_3)
qed

text \<open>Three ticks of 50 ms, evaluated.\<close>

lemma fp_round_evaluated:
  assumes "2 powi e \<le> x" "x < 2 powi (e + 1)" "- 1000 < e" "e < 1000" "q = e - 52" "round_even (x / 2 powi q) = m"
  shows "fp_round f64_format x = Num (of_int m * 2 powi q)"
proof -
  have "(0 :: rat) < 2 powi e" by simp
  then have x: "0 < x" using assms(1) by (rule less_le_trans)
  have "round_to f64_format x = of_int m * 2 powi q"
    using assms x by (intro round_to_eq [of e]) simp_all
  moreover have "fp_round f64_format x = Num (round_to f64_format x)"
    using assms x by (intro fp_round_Num [of _ "e + 1"]) simp_all
  ultimately show ?thesis by simp
qed

lemma fifty_millis:
  "as_secs_f64 50000000 = Num (3602879701896397 / 2 ^ 56)" "millis_of 50000000 = Num 50"
proof -
  have r: "fp_round f64_format (1 / 20) = Num (3602879701896397 / 2 ^ 56)"
    using fp_round_evaluated [of "- 5" "1 / 20" "- 57" "7205759403792794"] by (simp add: power_int_minus round_even_def)
  have x: "fp_round f64_format (3602879701896397 / 2 ^ 56) = Num (3602879701896397 / 2 ^ 56)"
    using fp_round_evaluated [of "- 5" "3602879701896397 / 2 ^ 56" "- 57" "7205759403792794"]
    by (simp add: power_int_minus round_even_def)
  have z: "fp_round f64_format 0 = Num 0" by (simp add: fp_round_def round_to_def)
  show s: "as_secs_f64 50000000 = Num (3602879701896397 / 2 ^ 56)"
    using r x z by (simp add: as_secs_f64_def NANOS_PER_SEC_def)
  have "fp_round f64_format (3602879701896397 / 2 ^ 56 * 1000) = Num 50"
    using fp_round_evaluated [of 5 "3602879701896397 / 2 ^ 56 * 1000" "- 47" "7036874417766400"]
    by (simp add: power_int_minus round_even_def)
  then show "millis_of 50000000 = Num 50" by (simp add: millis_of_def s)
qed

lemma exact_ticks_unhealthy:
  "\<exists>m. metrics_new 50000000 1200 = Some m \<and> overrun_ticks (record_all (replicate 3 50000000) m) = 0 \<and>
     \<not> is_healthy (record_all (replicate 3 50000000) m)"
proof -
  obtain m where m: "metrics_new 50000000 1200 = Some m" by (simp add: metrics_new_def)
  let ?m = "record_all (replicate 3 50000000) m"
  let ?x = "3602879701896397 / 2 ^ 56 :: rat"
  have w: "tm_window ?m = [50000000, 50000000, 50000000]" "tm_target ?m = 50000000" "overrun_ticks ?m = 0"
    by (simp_all add: record_all_new [OF m] overrun_ticks_def numeral_3_eq_3)
  have "fp_round f64_format (0 + ?x) = Num ?x"
    using fp_round_evaluated [of "- 5" ?x "- 57" "7205759403792794"] by (simp add: power_int_minus round_even_def)
  moreover have "fp_round f64_format (?x + ?x) = Num (?x + ?x)"
    using fp_round_evaluated [of "- 4" "?x + ?x" "- 56" "7205759403792794"] by (simp add: power_int_minus round_even_def)
  moreover have "fp_round f64_format (?x + ?x + ?x) = Num (5404319552844596 / 2 ^ 55)"
    using fp_round_evaluated [of "- 3" "?x + ?x + ?x" "- 55" "5404319552844596"] by (simp add: power_int_minus round_even_def)
  moreover have "fp_round f64_format (5404319552844596 / 2 ^ 55 * 1000) = Num (5277655813324801 / 2 ^ 45)"
    using fp_round_evaluated [of 7 "5404319552844596 / 2 ^ 55 * 1000" "- 45" "5277655813324801"]
    by (simp add: power_int_minus round_even_def)
  moreover have "fp_round f64_format (5277655813324801 / 2 ^ 45 / 3) = Num (7036874417766401 / 2 ^ 47)"
    using fp_round_evaluated [of 5 "5277655813324801 / 2 ^ 45 / 3" "- 47" "7036874417766401"]
    by (simp add: power_int_minus round_even_def)
  moreover have "fp_round f64_format (of_nat 3) = Num (of_nat 3)" by (rule fp_round_of_nat) simp
  ultimately have "mean_mspt ?m = Num (7036874417766401 / 2 ^ 47)"
    unfolding mean_mspt_def Let_def w by (simp add: fifty_millis)
  then have "\<not> is_healthy ?m" by (simp add: is_healthy_def w fifty_millis)
  with m w(3) show ?thesis by blast
qed

section \<open>Properties\<close>

text \<open>
  C36: the p95 of the health report is the exact nearest-rank one, although 0.95 is not a binary number and the rank is
  computed in \<open>f64\<close>: for any window of up to \<open>2 ^ 20\<close> samples it is the time of a sample with at least 95 in
  a hundred of the samples at or below it and fewer strictly below. No \<open>p\<close> at all, \<open>NaN\<close> included, makes the
  lookup fail.
\<close>

theorem percentile_95_exact:
  assumes "tm_window m \<noteq> []" "length (tm_window m) \<le> 2 ^ 20"
  shows "(\<exists>d \<in> set (tm_window m). percentile_mspt P95 m = millis_of d \<and>
      19 * length (tm_window m) \<le> 20 * length (filter (\<lambda>x. x \<le> d) (tm_window m)) \<and>
      20 * length (filter (\<lambda>x. x < d) (tm_window m)) < 19 * length (tm_window m)) \<and>
    (\<exists>d \<in> set (tm_window m). percentile_mspt p m = millis_of d)"
proof -
  let ?w = "tm_window m" let ?n = "length ?w"
  define K where "K = (19 * ?n + 19) div 20"
  have n: "0 < ?n" using assms(1) by simp
  have K: "20 * K \<le> 19 * ?n + 19" "19 * ?n \<le> 20 * K" "1 \<le> K" "K \<le> ?n" using n by (simp_all add: K_def del: length_greater_0_conv)
  from K have "K = max 1 (min K ?n)" by simp
  from percentile_nearest_rank [OF assms(1) this] obtain d where d: "d \<in> set ?w" "percentile_sample K m = Some d"
    "K \<le> length (filter (\<lambda>x. x \<le> d) ?w)" "length (filter (\<lambda>x. x < d) ?w) < K" by blast
  have "percentile_mspt P95 m = millis_of d"
    using d(2) percentile_rank_95 [OF n assms(2)] by (simp add: percentile_mspt_def K_def)
  moreover have "19 * ?n \<le> 20 * length (filter (\<lambda>x. x \<le> d) ?w)" "20 * length (filter (\<lambda>x. x < d) ?w) < 19 * ?n"
    using d(3,4) K(1,2) by linarith+
  moreover have "\<exists>d \<in> set ?w. percentile_mspt p m = millis_of d"
    using percentile_nearest_rank [OF assms(1) refl, of "percentile_rank p ?n"] by (auto simp: percentile_mspt_def)
  ultimately show ?thesis using d(1) by blast
qed

lemma percentile_95_exact_witness:
  "\<exists>m. metrics_new 50 3 = Some m \<and> (\<exists>d \<in> {10, 20, 30}. percentile_mspt P95 (record_all [30, 10, 20] m) = millis_of d)"
proof -
  obtain m where m: "metrics_new 50 3 = Some m" by (simp add: metrics_new_def)
  have w: "tm_window (record_all [30, 10, 20] m) = [30, 10, 20]" by (simp add: record_all_new [OF m])
  from percentile_95_exact [of "record_all [30, 10, 20] m" P95] w m show ?thesis by auto
qed

text \<open>
  C37: the verdict on the health of the server is right up to rounding: over a window of up to 2048 ticks, a
  server that is healthy has taken at most the target on average, times \<open>1 + 2 ^ - 40\<close>, and one that has stayed
  below the target by that factor is healthy; the reported rate never exceeds the target rate. But rounding decides
  at the target itself: three ticks of exactly 50 ms, none an overrun, are not healthy.
\<close>

theorem health_verdict:
  assumes "tm_window m \<noteq> []" "length (tm_window m) \<le> 2048"
    and "list_all (\<lambda>d. d < 2 ^ 64 * NANOS_PER_SEC) (tm_target m # tm_window m)"
  shows "(is_healthy m \<longrightarrow>
      (of_nat (sum_list (tm_window m)) :: rat) \<le> of_nat (length (tm_window m)) * of_nat (tm_target m) * (1 + 1 / 2 ^ 40)) \<and>
    ((of_nat (sum_list (tm_window m)) :: rat) * (1 + 1 / 2 ^ 40) \<le> of_nat (length (tm_window m)) * of_nat (tm_target m) \<longrightarrow>
      is_healthy m) \<and>
    fp_le (tps m) (fp_div f64_format (Num 1) (as_secs_f64 (tm_target m))) \<and>
    (\<exists>exact. metrics_new 50000000 1200 = Some exact \<and> overrun_ticks (record_all (replicate 3 50000000) exact) = 0 \<and>
      \<not> is_healthy (record_all (replicate 3 50000000) exact))"
proof -
  let ?w = "tm_window m" let ?n = "length ?w"
  let ?S = "of_nat (sum_list ?w) :: rat" let ?T = "of_nat (tm_target m) :: rat" let ?N = "of_nat ?n :: rat"
  have n: "0 < ?N" using assms(1) by simp
  obtain y' where y': "mean_mspt m = Num y'" "close 2052 (?S / (1000000 * ?N)) y'"
    using fp_close_mono [OF mean_close [OF assms(1)], of 2052] assms by (auto simp: fp_close_def)
  obtain y where y: "millis_of (tm_target m) = Num y" "close 3 (?T / 1000000) y"
    using millis_close [of "tm_target m"] assms(3) by (auto simp: fp_close_def)
  have h: "is_healthy m \<longleftrightarrow> y' \<le> y" by (simp add: is_healthy_def y y')
  have "0 \<le> ?T / 1000000" "0 \<le> ?S / (1000000 * ?N)" by simp_all
  note cmp = close_compare [OF y(2) y'(2) this]
  have scale: "?S / (1000000 * ?N) \<le> ?T / 1000000 * u \<longleftrightarrow> ?S \<le> ?N * ?T * u"
    "?S / (1000000 * ?N) * u \<le> ?T / 1000000 \<longleftrightarrow> ?S * u \<le> ?N * ?T" for u
    using n by (simp_all add: divide_le_eq le_divide_eq mult.commute mult.left_commute)
  have "is_healthy m \<longrightarrow> ?S \<le> ?N * ?T * (1 + 1 / 2 ^ 40)" using cmp(1) unfolding h scale by blast
  moreover have "?S * (1 + 1 / 2 ^ 40) \<le> ?N * ?T \<longrightarrow> is_healthy m" using cmp(2) unfolding h scale by blast
  moreover have "fp_le (tps m) (fp_div f64_format (Num 1) (as_secs_f64 (tm_target m)))"
  proof -
    obtain s where "as_secs_f64 (tm_target m) = Num s"
      using as_secs_close [of "tm_target m"] assms(3) by (auto simp: fp_close_def)
    then have t: "fp_div f64_format (Num 1) (as_secs_f64 (tm_target m)) \<noteq> NaN" by (simp add: fp_signed_inf_def)
    moreover have "fp_div f64_format (Num 1000) (mean_mspt m) \<noteq> NaN" by (simp add: y' fp_signed_inf_def)
    ultimately show ?thesis by (simp add: tps_def Let_def fp_min_le fp_le_refl del: fp_div.simps)
  qed
  ultimately show ?thesis using exact_ticks_unhealthy by blast
qed

lemma health_verdict_witness:
  "fp_le (tps (record_all [30, 10, 20] \<lparr>tm_window = [], tm_capacity = 3, tm_target = 50, tm_total_ticks = 0, tm_overrun_ticks = 0\<rparr>))
     (fp_div f64_format (Num 1) (as_secs_f64 50)) \<and>
   is_healthy (record_all [30, 10, 20] \<lparr>tm_window = [], tm_capacity = 3, tm_target = 50, tm_total_ticks = 0, tm_overrun_ticks = 0\<rparr>)"
proof -
  let ?m = "\<lparr>tm_window = [], tm_capacity = 3, tm_target = 50, tm_total_ticks = 0, tm_overrun_ticks = 0\<rparr> :: tick_metrics"
  have m: "metrics_new 50 3 = Some ?m" by (simp add: metrics_new_def)
  have w: "tm_window (record_all [30, 10, 20] ?m) = [30, 10, 20]" "tm_target (record_all [30, 10, 20] ?m) = 50"
    by (simp_all add: record_all_new [OF m])
  show ?thesis using health_verdict [of "record_all [30, 10, 20] ?m"] by (simp add: w NANOS_PER_SEC_def)
qed

end
