(* ===== verification/Server.thy ===== *)
theory Server
  imports Interleaving Chunk Tick
begin

text \<open>
  \<open>crates/rukkit-server/src/server.rs\<close> and \<open>main.rs\<close>: building the server from its configuration, the spawn chunk,
  the accept loop, the tick loop, and the program around them. The listener, the timer and the signals are the
  sequences of what they deliver; a tick has no game logic yet, so it is the time it took. The connections that
  are accepted run as the tasks of \<open>Interleaving\<close>.
\<close>

section \<open>Assembly\<close>

definition TICK_WINDOW :: usize where "TICK_WINDOW = 1200"
definition TICK_REPORT_INTERVAL :: u64 where "TICK_REPORT_INTERVAL = 20 * 30"

record 'a server_context =
  sv_config :: server_config
  sv_players :: "'a registry"
  sv_status :: status_cache
  sv_states :: block_states
  sv_limits :: height_limits

definition server_new ::
  "(rstring \<Rightarrow> 'a option) \<Rightarrow> server_config \<Rightarrow> ('io, 'toml) config_error + 'a server_context" where
  "server_new parse_addr config =
     and_then (validate parse_addr config) (\<lambda>_.
     let status = status_cache_new (component_text (cfg_motd config)) (cfg_max_players config) in
     Inr \<lparr>sv_config = config, sv_players = registry_new, sv_status = status, sv_states = placeholder,
       sv_limits = OVERWORLD\<rparr>)"

section \<open>The spawn chunk\<close>

definition spawn_chunk :: "'a server_context \<Rightarrow> chunk option" where
  "spawn_chunk ctx =
     (if cfg_flat_world (sv_config ctx) then flat_generate flat_default (ChunkPos 0 0) (sv_limits ctx) (sv_states ctx)
      else void_generate (ChunkPos 0 0) (sv_limits ctx) (sv_states ctx))"

text \<open>The two numbers that are logged: the sections and the bytes they take on the wire.\<close>

definition report_spawn_chunk :: "'a server_context \<Rightarrow> (usize \<times> usize) option" where
  "report_spawn_chunk ctx =
     Option.bind (spawn_chunk ctx) (\<lambda>chunk.
     map_option (\<lambda>encoded. (length (ch_sections chunk), length encoded)) (write_sections chunk (sv_states ctx)))"

section \<open>The tick loop\<close>

datatype tick_event = Ticked duration | Shutdown

datatype tick_outcome =
    TickPanicked
  | TickPending
  | TickStopped tick_metrics "rstring list"

text \<open>
  What the loop selects on, in order, up to the shutdown; it ends with its metrics and the lines it has logged.
\<close>

fun tick_events :: "(fp \<Rightarrow> rstring) \<Rightarrow> tick_event list \<Rightarrow> tick_metrics \<Rightarrow> rstring list \<Rightarrow> tick_outcome" where
  "tick_events decimals [] metrics logged = TickPending"
| "tick_events decimals (Shutdown # _) metrics logged =
     TickStopped metrics (logged @ [lit ''tick loop stopping: '' @ summary decimals metrics])"
| "tick_events decimals (Ticked elapsed # es) metrics logged =
     (let metrics = record_tick elapsed metrics in
      tick_events decimals es metrics
        (if total_ticks metrics mod TICK_REPORT_INTERVAL = 0 then logged @ [summary decimals metrics] else logged))"

text \<open>\<open>tokio::time::interval\<close> panics on a period of zero.\<close>

definition tick_loop :: "(fp \<Rightarrow> rstring) \<Rightarrow> server_config \<Rightarrow> tick_event list \<Rightarrow> tick_outcome" where
  "tick_loop decimals config events = (case tick_duration config of
      None \<Rightarrow> TickPanicked
    | Some target \<Rightarrow>
        if target = 0 then TickPanicked
        else case metrics_new target TICK_WINDOW of
            None \<Rightarrow> TickPanicked
          | Some metrics \<Rightarrow> tick_events decimals events metrics [])"

section \<open>The accept loop\<close>

datatype ('conn, 'io) server_event = Accepted 'conn | AcceptFailed 'io | CtrlC | ShutdownReceived

text \<open>
  The connections whose tasks were spawned, in order, and whether the shutdown was sent to the tick loop. \<open>None\<close> is a
  loop that is still waiting.
\<close>

fun accept_loop :: "('conn, 'io) server_event list \<Rightarrow> 'conn list \<Rightarrow> ('conn list \<times> bool) option" where
  "accept_loop [] spawned = None"
| "accept_loop (Accepted conn # es) spawned = accept_loop es (spawned @ [conn])"
| "accept_loop (AcceptFailed e # es) spawned = accept_loop es spawned"
| "accept_loop (CtrlC # _) spawned = Some (spawned, True)"
| "accept_loop (ShutdownReceived # _) spawned = Some (spawned, False)"

datatype ('io, 'toml) run_error = RunConfig "('io, 'toml) config_error" | RunIo 'io

text \<open>
  \<open>Server::run\<close>, with the durations of the ticks up to the end of the accept loop: the report on the spawn chunk, the
  spawned connections and how the tick loop ended. The ticker is awaited, and a panic in it is ignored.
\<close>

definition server_run ::
  "(rstring \<Rightarrow> 'a option) \<Rightarrow> ('a \<Rightarrow> 'io option) \<Rightarrow> (fp \<Rightarrow> rstring) \<Rightarrow> 'a server_context \<Rightarrow> ('conn, 'io) server_event list \<Rightarrow>
    duration list \<Rightarrow> (('io, 'toml) run_error + (usize \<times> usize) \<times> 'conn list \<times> tick_outcome) option" where
  "server_run parse_addr bind decimals ctx events ticks = (case socket_addr parse_addr (sv_config ctx) of
      Inl e \<Rightarrow> Some (Inl (RunConfig e))
    | Inr addr \<Rightarrow> (case bind addr of
        Some e \<Rightarrow> Some (Inl (RunIo e))
      | None \<Rightarrow>
          Option.bind (report_spawn_chunk ctx) (\<lambda>report.
          Option.bind (accept_loop events []) (\<lambda>(spawned, sent).
          let ticker = tick_loop decimals (sv_config ctx) (map Ticked ticks @ (if sent then [Shutdown] else [])) in
          if ticker = TickPending then None else Some (Inr (report, spawned, ticker))))))"

section \<open>The program\<close>

definition DEFAULT_CONFIG :: rstring where "DEFAULT_CONFIG = lit ''rukkit.toml''"

definition config_path :: "rstring list \<Rightarrow> rstring" where
  "config_path args = (if 1 < length args then args ! 1 else DEFAULT_CONFIG)"

text \<open>
  \<open>main\<close>, with the arguments, the file system and the outcome of building the runtime; the second component
  is what was written to the configuration file.
\<close>

definition rukkit_main ::
  "(rstring \<Rightarrow> 'a option) \<Rightarrow> (rstring \<Rightarrow> 'toml + server_config) \<Rightarrow> (server_config \<Rightarrow> rstring option) \<Rightarrow>
    (rstring \<Rightarrow> 'io file_content) \<Rightarrow> (rstring \<Rightarrow> rstring \<Rightarrow> 'io + unit) \<Rightarrow> 'io option \<Rightarrow> ('a \<Rightarrow> 'io option) \<Rightarrow>
    (fp \<Rightarrow> rstring) \<Rightarrow> rstring list \<Rightarrow> ('conn, 'io) server_event list \<Rightarrow> duration list \<Rightarrow>
    ((('io, 'toml) run_error + (usize \<times> usize) \<times> 'conn list \<times> tick_outcome) \<times> rstring option) option" where
  "rukkit_main parse_addr from_str to_string_pretty read write runtime bind decimals args events ticks =
     (let path = config_path args in
      Option.bind (load_or_create parse_addr from_str to_string_pretty path (read path) (write path)) (\<lambda>(loaded, written).
      map_option (\<lambda>result. (result, written)) (case loaded of
          Inl e \<Rightarrow> Some (Inl (RunConfig e))
        | Inr config \<Rightarrow> (case runtime of
            Some e \<Rightarrow> Some (Inl (RunIo e))
          | None \<Rightarrow> (case server_new parse_addr config of
              Inl e \<Rightarrow> Some (Inl (RunConfig e))
            | Inr ctx \<Rightarrow> server_run parse_addr bind decimals ctx events ticks)))))"

section \<open>Lemmas\<close>

lemma tick_events_ticks:
  assumes "n + length ds < 2 ^ 64" "tm_total_ticks m = of_nat n" "length logged = n div 600"
  shows "\<exists>logged'. tick_events decimals (map Ticked ds @ Shutdown # later) m logged = TickStopped (record_all ds m) logged' \<and>
    length logged' = (n + length ds) div 600 + 1"
  using assms
proof (induction ds arbitrary: m n logged)
  case (Cons d ds)
  let ?n = "Suc n" let ?logged = "if total_ticks (record_tick d m) mod TICK_REPORT_INTERVAL = 0
    then logged @ [summary decimals (record_tick d m)] else logged"
  have t: "total_ticks (record_tick d m) = of_nat ?n"
    using Cons.prems(2) by (simp add: total_ticks_def record_tick_def)
  have "unat (of_nat ?n :: u64) = ?n" using Cons.prems(1) by (simp only: unat_of_nat) simp
  then have "(of_nat ?n :: u64) mod 600 = 0 \<longleftrightarrow> ?n mod 600 = 0"
    by (simp only: word_arith_nat_mod unat_numeral) (simp add: unat_eq_0 [symmetric] unat_of_nat)
  moreover have "?n div 600 = (if ?n mod 600 = 0 then n div 600 + 1 else n div 600)"
    by (simp add: div_Suc)
  ultimately have "length ?logged = ?n div 600"
    using Cons.prems(3) by (simp add: t TICK_REPORT_INTERVAL_def)
  from Cons.IH [OF _ _ this] Cons.prems(1) t show ?case
    by (simp add: Let_def record_all_def total_ticks_def)
qed (simp add: record_all_def)

lemma accept_loop_stops:
  assumes "list_all (\<lambda>e. e \<noteq> CtrlC \<and> e \<noteq> ShutdownReceived) es"
  shows "accept_loop (es @ CtrlC # later) spawned =
    Some (spawned @ concat (map (\<lambda>e. case e of Accepted conn \<Rightarrow> [conn] | _ \<Rightarrow> []) es), True)"
  using assms by (induction es spawned rule: accept_loop.induct) simp_all

lemma server_new_Inr:
  assumes "(server_new parse_addr config :: ('io, 'toml) config_error + 'a server_context) = Inr ctx"
  shows "(validate parse_addr config :: ('io, 'toml) config_error + unit) = Inr ()"
    "ctx = \<lparr>sv_config = config, sv_players = registry_new,
       sv_status = status_cache_new (component_text (cfg_motd config)) (cfg_max_players config),
       sv_states = placeholder, sv_limits = OVERWORLD\<rparr>"
  using assms by (auto simp: server_new_def and_then_Inr_iff Let_def)

text \<open>
  The spawn chunk of a server that could be built is always generated and encoded, without a panic, for
  a flat world and an empty one.
\<close>

lemma spawn_chunk_reported:
  assumes "(server_new parse_addr config :: ('io, 'toml) config_error + 'a server_context) = Inr ctx"
  shows "\<exists>chunk. spawn_chunk ctx = Some chunk \<and> wf_chunk (sv_states ctx) chunk \<and>
    report_spawn_chunk ctx = Some (24, sections_wire_len chunk)"
proof -
  have ctx: "sv_states ctx = placeholder" "sv_limits ctx = OVERWORLD"
    using assms by (auto simp: server_new_def and_then_Inr_iff Let_def)
  have "id_ok placeholder (bst_air placeholder)" using placeholder_wf(1) by (simp add: wf_states_def)
  from chunk_empty_eq [OF overworld_wf(1) this, of "ChunkPos 0 0"]
    flat_generate_eq [OF flat_default_wf placeholder_wf(1) overworld_wf(1), of "ChunkPos 0 0"]
  obtain c where c: "spawn_chunk ctx = Some c" "wf_chunk placeholder c" "ch_limits c = OVERWORLD"
    by (cases "cfg_flat_world (sv_config ctx)") (auto simp: spawn_chunk_def void_generate_def ctx)
  moreover from write_sections_eq [OF c(2)] obtain bs where "write_sections c placeholder = Some bs"
    "length bs = sections_wire_len c" by blast
  moreover have "length (ch_sections c) = 24"
    using c(2,3) by (simp add: wf_chunk_def section_count_def OVERWORLD_def)
  ultimately show ?thesis by (simp add: ctx report_spawn_chunk_def)
qed

lemma tick_loop_stops:
  assumes "tick_duration config = Some target" "0 < target" "length ds < 2 ^ 64"
  shows "\<exists>m lines. tick_loop decimals config (map Ticked ds @ [Shutdown]) = TickStopped m lines \<and>
    tm_window m = drop (length ds - 1200) ds \<and> unat (total_ticks m) = length ds \<and>
    unat (overrun_ticks m) = length (filter (\<lambda>d. target < d) ds) \<and> length lines = length ds div 600 + 1"
proof -
  obtain m where m: "metrics_new target 1200 = Some m" "tm_total_ticks m = of_nat 0"
    by (simp add: metrics_new_def)
  have "length (filter (\<lambda>d. target < d) ds) < 2 ^ 64" using assms(3) length_filter_le le_less_trans by blast
  then have "unat (of_nat (length (filter (\<lambda>d. target < d) ds)) :: u64) = length (filter (\<lambda>d. target < d) ds)"
    "unat (of_nat (length ds) :: u64) = length ds"
    using assms(3) by (simp_all only: unat_of_nat) simp_all
  moreover obtain lines where "tick_events decimals (map Ticked ds @ Shutdown # []) m [] = TickStopped (record_all ds m) lines"
    "length lines = length ds div 600 + 1"
    using tick_events_ticks [OF _ m(2), of ds "[]" decimals "[]"] assms(3) by auto
  then have "tick_loop decimals config (map Ticked ds @ [Shutdown]) = TickStopped (record_all ds m) lines"
    using assms(1,2) by (simp add: tick_loop_def m(1) TICK_WINDOW_def)
  ultimately show ?thesis using \<open>length lines = length ds div 600 + 1\<close>
    by (simp add: record_all_new [OF m(1)] total_ticks_def overrun_ticks_def)
qed

text \<open>The connections that were accepted, in order.\<close>

definition accepted :: "('conn, 'io) server_event list \<Rightarrow> 'conn list" where
  "accepted events = concat (map (\<lambda>e. case e of Accepted conn \<Rightarrow> [conn] | _ \<Rightarrow> []) events)"

lemma server_run_stops:
  assumes new: "(server_new parse_addr config :: ('io, 'toml) config_error + 'a server_context) = Inr ctx"
    and bind: "\<And>a. bind a = None"
    and events: "list_all (\<lambda>e. e \<noteq> CtrlC \<and> e \<noteq> ShutdownReceived) events"
    and ticker: "tick_loop decimals config (map Ticked ds @ [Shutdown]) = ticker" "ticker \<noteq> TickPending"
  shows "\<exists>bytes. (server_run parse_addr bind decimals ctx (events @ CtrlC # later) ds
      :: (('io, 'toml) run_error + (usize \<times> usize) \<times> 'conn list \<times> tick_outcome) option) =
    Some (Inr ((24, bytes), accepted events, ticker))"
proof -
  note ctx = server_new_Inr [OF new]
  obtain bytes where "report_spawn_chunk ctx = Some (24, bytes)" using spawn_chunk_reported [OF new] by blast
  moreover obtain a where "(socket_addr parse_addr config :: ('io, 'toml) config_error + 'a) = Inr a"
    using ctx(1) by (auto simp: validate_def and_then_Inr_iff)
  ultimately show ?thesis
    using accept_loop_stops [OF events, of later "[]"] ticker bind by (simp add: server_run_def ctx(2) accepted_def)
qed

section \<open>Properties\<close>

text \<open>
  C1: a server built from a configuration that validates is correct under every interleaving of its connections.
  Whatever the order in which the connections take the locks, and whether they have ended or not,
  at every moment the registry is within the configured player limit, no name is in it
  twice, a name is in it exactly while one connection is between its admission and its removal, and once all
  connections have ended it is empty. A connection can be kept from its end only by its own socket: it runs to
  the end of whatever script its client and its socket follow, and is suspended there only where \<open>may_wait\<close> allows it. The
  names must not collide under MD5.
\<close>

theorem server_serves:
  assumes new: "(server_new parse_addr config :: ('io, 'toml) config_error + 'a server_context) = Inr ctx"
    and "h_config h = sv_config ctx" "deflates (h_deflate h) R deflate" "reserves (h_reserve h)"
    and sched: "scheduled h conns (sv_players ctx, sv_status ctx) history after"
    and inj: "inj_on (offline_uuid (h_md5 h)) (names_in history)"
  shows "registry_count (fst after) \<le> nat (sint (cfg_max_players config)) \<and>
    distinct (map (\<lambda>(_, p). pi_name p) (fst after)) \<and>
    (\<forall>name. contains_name name (fst after) \<longleftrightarrow> (\<exists>t. joined_as h None (part_of t history) = Some name)) \<and>
    (\<forall>t u name. joined_as h None (part_of t history) = Some name \<longrightarrow> joined_as h None (part_of u history) = Some name \<longrightarrow> t = u) \<and>
    (finished h conns (sv_players ctx, sv_status ctx) history \<longrightarrow> fst after = registry_new) \<and>
    (\<forall>conn others. \<exists>r s'. run h (task_new conn (sv_players ctx, sv_status ctx) others) = Some (r, s') \<and>
      (r = Inl Suspended \<longrightarrow> may_wait conn))"
proof -
  note ctx = server_new_Inr [OF new]
  have h: "host_ok h" using assms(3,4) by (auto simp: host_ok_def)
  have limit: "player_limit (h_config h) = nat (sint (cfg_max_players config))"
    using ctx assms(2) unat_nonneg [of "cfg_max_players config"]
    by (auto simp: player_limit_def validate_def and_then_Inr_iff word_sless_alt split: if_splits)
  have start: "sv_players ctx = registry_new" using ctx(2) by simp
  have "may_wait (task_new conn (sv_players ctx, sv_status ctx) others) = may_wait conn" for conn others
    by (simp add: may_wait_def task_new_def connection.defs task.defs)
  then have "\<exists>r s'. run h (task_new conn (sv_players ctx, sv_status ctx) others) = Some (r, s') \<and>
      (r = Inl Suspended \<longrightarrow> may_wait conn)" for conn others
    by (metis run_returns [OF h])
  with interleaved_connections [OF h sched [unfolded start] inj] show ?thesis unfolding limit start by blast
qed

lemma sample_server:
  obtains ctx where "(server_new (\<lambda>_. Some ()) config_default :: (unit, unit) config_error + unit server_context) = Inr ctx"
    "sv_config ctx = config_default" "sv_players ctx = registry_new" "sv_status ctx = sample_cache"
  by (simp add: server_new_def validate_def socket_addr_def config_default_def word_sless_alt Let_def sample_cache_def)

lemma server_serves_witness:
  "registry_count (fst sample_joined) \<le> 20 \<and>
   (contains_name [0x41] (fst sample_joined) \<longleftrightarrow>
     (\<exists>t. joined_as (sample_host config_default) None (part_of t sample_history) = Some [0x41]))"
proof (rule sample_server)
  fix ctx
  assume c: "(server_new (\<lambda>_. Some ()) config_default :: (unit, unit) config_error + unit server_context) = Inr ctx"
    "sv_config ctx = config_default" "sv_players ctx = registry_new" "sv_status ctx = sample_cache"
  have config: "h_config (sample_host config_default) = sv_config ctx" by (simp add: c sample_host_def)
  have limit: "nat (sint (cfg_max_players config_default)) = 20" by (simp add: config_default_def)
  note sample_scheduled(1) [folded c(3,4)]
  from server_serves [OF c(1) config sample_host_ok(1,2) this sample_scheduled(2)] show ?thesis
    unfolding limit by blast
qed

text \<open>
  C14: the server runs from its first byte to the shutdown: it reports the spawn chunk with its 24 sections, spawns every
  connection it accepts and none else, survives failed accepts, and ends at the first \<open>ctrl-c\<close>. At a rate below two
  thousand million, the tick loop has recorded every tick: the last 1200 durations, exact counts of ticks and
  overruns against the configured length of a tick, and one line of health for every 600 ticks. Above that
  rate, which is valid, it dies at once, and the server runs on without it.
\<close>

theorem server_lifecycle:
  assumes new: "(server_new parse_addr config :: ('io, 'toml) config_error + 'a server_context) = Inr ctx"
    and bind: "\<And>a. bind a = None"
    and events: "list_all (\<lambda>e. e \<noteq> CtrlC \<and> e \<noteq> ShutdownReceived) events" and ticks: "length ds < 2 ^ 64"
  shows "\<exists>bytes ticker. (server_run parse_addr bind decimals ctx (events @ CtrlC # later) ds
        :: (('io, 'toml) run_error + (usize \<times> usize) \<times> 'conn list \<times> tick_outcome) option) =
      Some (Inr ((24, bytes), accepted events, ticker)) \<and>
    (unat (cfg_tick_rate config) < 2000000000 \<longrightarrow> (\<exists>m lines target. ticker = TickStopped m lines \<and>
      tick_duration config = Some target \<and> tm_window m = drop (length ds - 1200) ds \<and> unat (total_ticks m) = length ds \<and>
      unat (overrun_ticks m) = length (filter (\<lambda>d. target < d) ds) \<and> length lines = length ds div 600 + 1)) \<and>
    (2000000000 < unat (cfg_tick_rate config) \<longrightarrow> ticker = TickPanicked)"
proof -
  let ?ticker = "tick_loop decimals config (map Ticked ds @ [Shutdown])"
  have slow: "\<exists>m lines target. ?ticker = TickStopped m lines \<and> tick_duration config = Some target \<and>
      tm_window m = drop (length ds - 1200) ds \<and> unat (total_ticks m) = length ds \<and>
      unat (overrun_ticks m) = length (filter (\<lambda>d. target < d) ds) \<and> length lines = length ds div 600 + 1"
    if "unat (cfg_tick_rate config) < 2000000000"
  proof -
    have "unat (max (cfg_tick_rate config) 1) < 2000000000" using that by (simp add: max_def)
    from tick_duration_positive [OF this] obtain target where t: "tick_duration config = Some target" "0 < target" by blast
    with tick_loop_stops [OF t ticks, of decimals] show ?thesis by blast
  qed
  have fast: "?ticker = TickPanicked" if "2000000000 < unat (cfg_tick_rate config)"
    by (simp add: tick_loop_def fast_rate_tick_duration [OF that])
  have "?ticker \<noteq> TickPending"
  proof (cases "\<exists>target. tick_duration config = Some target \<and> 0 < target")
    case True
    with tick_loop_stops [OF _ _ ticks, of config _ decimals] show ?thesis by fastforce
  qed (auto simp: tick_loop_def split: option.split)
  from server_run_stops [where bind = bind and later = later, OF new bind events refl this]
  obtain bytes where "(server_run parse_addr bind decimals ctx (events @ CtrlC # later) ds
      :: (('io, 'toml) run_error + (usize \<times> usize) \<times> 'conn list \<times> tick_outcome) option) =
    Some (Inr ((24, bytes), accepted events, ?ticker))" by blast
  with slow fast show ?thesis by (intro exI [of _ bytes] exI [of _ ?ticker]) blast
qed

lemma server_lifecycle_witness:
  "\<exists>ctx bytes m lines. (server_new (\<lambda>_. Some ()) config_default :: (unit, unit) config_error + unit server_context) = Inr ctx \<and>
     (server_run (\<lambda>_. Some ()) (\<lambda>_. None) (\<lambda>_. []) ctx [Accepted 7, AcceptFailed (), Accepted 9, CtrlC] (replicate 1300 60000000)
        :: ((unit, unit) run_error + (usize \<times> usize) \<times> nat list \<times> tick_outcome) option) =
       Some (Inr ((24, bytes), [7, 9], TickStopped m lines)) \<and> length lines = 3 \<and> length (tm_window m) = 1200"
proof (rule sample_server)
  fix ctx
  assume c: "(server_new (\<lambda>_. Some ()) config_default :: (unit, unit) config_error + unit server_context) = Inr ctx"
  have r: "unat (cfg_tick_rate config_default) < 2000000000" by (simp add: config_default_def)
  have "length (replicate 1300 (60000000 :: nat)) < 2 ^ 64" by simp
  from server_lifecycle [where bind = "\<lambda>_. None" and events = "[Accepted (7 :: nat), AcceptFailed (), Accepted 9]" and later = "[]"
      and decimals = "\<lambda>_. []", OF c refl _ this] c r
  show ?thesis by (fastforce simp: accepted_def)
qed

text \<open>
  A configuration that loads always gives a server: once \<open>load_or_create\<close> has succeeded, the program can fail
  only on the runtime or on binding the address, never on its settings; and it writes the configuration file only to
  create it, with exactly the defaults.
\<close>

lemma main_fails_only_outside:
  assumes "parse_addr (lit ''0.0.0.0:25565'') \<noteq> None"
    and main: "rukkit_main parse_addr from_str to_string_pretty read write runtime bind decimals args events ticks =
      Some ((result :: ('io, 'toml) run_error + (usize \<times> usize) \<times> 'conn list \<times> tick_outcome), written)"
  shows "(\<forall>e. result = Inl e \<longrightarrow>
      (\<exists>why. e = RunIo why \<and> (runtime = Some why \<or> (\<exists>a. bind a = Some why))) \<or>
      (\<exists>why. e = RunConfig why \<and> load_or_create parse_addr from_str to_string_pretty (config_path args)
        (read (config_path args)) (write (config_path args)) = Some (Inl why, written))) \<and>
    (written \<noteq> None \<longrightarrow> read (config_path args) = FileNotFound \<and> written = to_string_pretty config_default)"
proof -
  let ?load = "load_or_create parse_addr from_str to_string_pretty (config_path args) (read (config_path args)) (write (config_path args))
    :: ((('io, 'toml) config_error + server_config) \<times> rstring option) option"
  from main obtain loaded where load: "?load = Some (loaded, written)"
    and rest: "(case loaded of
          Inl e \<Rightarrow> Some (Inl (RunConfig e))
        | Inr config \<Rightarrow> (case runtime of
            Some e \<Rightarrow> Some (Inl (RunIo e))
          | None \<Rightarrow> (case server_new parse_addr config of
              Inl e \<Rightarrow> Some (Inl (RunConfig e))
            | Inr ctx \<Rightarrow> server_run parse_addr bind decimals ctx events ticks))) = Some result"
    by (auto simp: rukkit_main_def Let_def bind_eq_Some_conv)
  note valid = loaded_config_valid [OF assms(1) load]
  have "(\<exists>why. e = RunIo why \<and> (runtime = Some why \<or> (\<exists>a. bind a = Some why))) \<or>
      (\<exists>why. e = RunConfig why \<and> loaded = Inl why)" if "result = Inl e" for e
  proof (cases loaded)
    case (Inr config)
    then have v: "(validate parse_addr config :: ('io, 'toml) config_error + unit) = Inr ()" using valid by blast
    then obtain a where a: "(socket_addr parse_addr config :: ('io, 'toml) config_error + 'a) = Inr a"
      by (auto simp: validate_def and_then_Inr_iff)
    obtain ctx where "(server_new parse_addr config :: ('io, 'toml) config_error + 'a server_context) = Inr ctx" "sv_config ctx = config"
      using v by (simp add: server_new_def Let_def)
    with rest Inr a that show ?thesis
      by (auto simp: server_run_def Let_def bind_eq_Some_conv split: option.splits if_splits)
  qed (use rest that in simp)
  with load valid show ?thesis by blast
qed

lemma main_fails_only_outside_witness:
  "rukkit_main (\<lambda>_. Some ()) (\<lambda>_. Inl ()) (\<lambda>_. Some []) (\<lambda>_. FileNotFound) (\<lambda>_ _. Inr ()) None (\<lambda>_. Some (98 :: nat)) (\<lambda>_. []) []
     ([] :: (nat, nat) server_event list) [] = Some (Inl (RunIo 98), Some [])"
proof -
  let ?main = "rukkit_main (\<lambda>_. Some ()) (\<lambda>_. Inl ()) (\<lambda>_. Some []) (\<lambda>_. FileNotFound) (\<lambda>_ _. Inr ()) None (\<lambda>_. Some (98 :: nat)) (\<lambda>_. []) []
     ([] :: (nat, nat) server_event list) []"
  have "?main = Some (Inl (RunIo 98), Some [])"
    by (simp add: rukkit_main_def load_or_create_def server_new_def validate_def socket_addr_def config_default_def
        word_sless_alt Let_def server_run_def)
  with main_fails_only_outside [of "\<lambda>_. Some ()" "\<lambda>_. Inl ()" "\<lambda>_. Some []" "\<lambda>_. FileNotFound" "\<lambda>_ _. Inr ()" None
      "\<lambda>_. Some (98 :: nat)" "\<lambda>_. []" "[]" "[] :: (nat, nat) server_event list" "[]"] show ?thesis by simp
qed

end
