(* ===== verification/Completion.thy ===== *)
theory Completion
  imports Interleaving
begin

text \<open>
  Every run of the server can be brought to its end: from whatever point the tasks of \<open>Interleaving\<close> have reached, each
  can be run to the end of its connection. No lock is waited for in a circle, since no task holds one while it waits
  for its client, and nothing another task does can keep one from ending. The proof rests on causality: what a task does
  up to an access depends on what it found before, and on nothing the others do later.
\<close>

section \<open>Causality\<close>

text \<open>
  An action that made the accesses \<open>trail\<close> makes them again, with the same outcome, whenever it finds the same; and as
  long as it finds the same it makes the same ones.
\<close>

definition causal :: "(('a, 'c, 'd, 'y, 'z, 'io) task, 'io, 'v) action \<Rightarrow> ('a, 'c, 'd, 'y, 'z, 'io) task \<Rightarrow> bool" where
  "causal m s \<longleftrightarrow> (\<forall>r t. m s = Some (r, t) \<longrightarrow> (\<exists>trail. ctx_log t = ctx_log s @ trail \<and>
     (\<forall>rest. m (s\<lparr>ctx_others := map snd trail @ rest\<rparr>) = Some (r, t\<lparr>ctx_others := rest\<rparr>)) \<and>
     (\<forall>part op found found' rest r' t'. prefix (part @ [(op, found)]) trail \<longrightarrow>
        m (s\<lparr>ctx_others := map snd part @ found' # rest\<rparr>) = Some (r', t') \<longrightarrow>
        prefix (ctx_log s @ part @ [(op, found')]) (ctx_log t'))))"

lemma causalI:
  assumes "\<And>r t. m s = Some (r, t) \<Longrightarrow> \<exists>trail. ctx_log t = ctx_log s @ trail \<and>
     (\<forall>rest. m (s\<lparr>ctx_others := map snd trail @ rest\<rparr>) = Some (r, t\<lparr>ctx_others := rest\<rparr>)) \<and>
     (\<forall>part op found found' rest r' t'. prefix (part @ [(op, found)]) trail \<longrightarrow>
        m (s\<lparr>ctx_others := map snd part @ found' # rest\<rparr>) = Some (r', t') \<longrightarrow>
        prefix (ctx_log s @ part @ [(op, found')]) (ctx_log t'))"
  shows "causal m s"
  using assms by (simp add: causal_def)

lemma causalD:
  assumes "causal m s" "m s = Some (r, t)"
  obtains trail where "ctx_log t = ctx_log s @ trail"
    "\<And>rest. m (s\<lparr>ctx_others := map snd trail @ rest\<rparr>) = Some (r, t\<lparr>ctx_others := rest\<rparr>)"
    "\<And>part op found found' rest r' t'. prefix (part @ [(op, found)]) trail \<Longrightarrow>
      m (s\<lparr>ctx_others := map snd part @ found' # rest\<rparr>) = Some (r', t') \<Longrightarrow>
      prefix (ctx_log s @ part @ [(op, found')]) (ctx_log t')"
  using assms unfolding causal_def by blast

text \<open>An action that takes no lock: it does the same under any script.\<close>

lemma causal_blind:
  assumes "\<And>script. m (s\<lparr>ctx_others := script\<rparr>) = map_option (\<lambda>(r, t). (r, t\<lparr>ctx_others := script\<rparr>)) (m s)"
    and "\<And>r t. m s = Some (r, t) \<Longrightarrow> ctx_log t = ctx_log s"
  shows "causal m s"
  by (rule causalI) (rule exI [of _ "[]"], simp add: assms)

lemma causal_blocks: "causal (areturn v) s" "causal (afail e) s" "causal (adone r) s" "causal (alift p) s"
  by (rule causal_blind; simp add: areturn_def afail_def adone_def alift_def split: sum.splits)+

lemma causal_resume: "causal (k r) s \<Longrightarrow> causal (resume k r) s"
  by (auto simp: resume_def intro: causal_blocks split: sum.split conn_error.split)

lemma prefix_snoc_append:
  assumes "prefix (part @ [x]) (xs @ ys)"
  shows "prefix (part @ [x]) xs \<or> (\<exists>part'. part = xs @ part' \<and> prefix (part' @ [x]) ys)"
proof -
  consider "prefix (part @ [x]) xs" | us where "part @ [x] = xs @ us" "prefix us ys"
    using assms by (auto simp: prefix_append)
  then show ?thesis
  proof cases
    case (2 us)
    then show ?thesis by (cases us rule: rev_cases) auto
  qed simp
qed

lemma causal_attempt:
  fixes s :: "('a, 'c, 'd, 'y, 'z, 'io) task"
  assumes m: "causal m s"
    and "\<And>script r t. m (s\<lparr>ctx_others := script\<rparr>) = Some (r, t) \<Longrightarrow> causal (k r) t"
  shows "causal (attempt m k) s"
proof (rule causalI)
  fix v u
  assume "attempt m k s = Some (v, u)"
  then obtain r t where t: "m s = Some (r, t)" "resume k r t = Some (v, u)"
    by (auto simp: attempt_def bind_eq_Some_conv)
  have k: "causal (resume k r) t" if "m (s\<lparr>ctx_others := script\<rparr>) = Some (r, t)" for script r t
    using assms(2) [OF that] by (rule causal_resume)
  obtain xs where xs: "ctx_log t = ctx_log s @ xs"
    "\<And>rest. m (s\<lparr>ctx_others := map snd xs @ rest\<rparr>) = Some (r, t\<lparr>ctx_others := rest\<rparr>)"
    "\<And>part op found found' rest r' t'. prefix (part @ [(op, found)]) xs \<Longrightarrow>
      m (s\<lparr>ctx_others := map snd part @ found' # rest\<rparr>) = Some (r', t') \<Longrightarrow>
      prefix (ctx_log s @ part @ [(op, found')]) (ctx_log t')"
    by (rule causalD [OF m t(1)], rule that)
  have c: "causal (resume k r) t" using k [of "ctx_others s"] t(1) by simp
  obtain ys where ys: "ctx_log u = ctx_log t @ ys"
    "\<And>rest. resume k r (t\<lparr>ctx_others := map snd ys @ rest\<rparr>) = Some (v, u\<lparr>ctx_others := rest\<rparr>)"
    "\<And>part op found found' rest r' t'. prefix (part @ [(op, found)]) ys \<Longrightarrow>
      resume k r (t\<lparr>ctx_others := map snd part @ found' # rest\<rparr>) = Some (r', t') \<Longrightarrow>
      prefix (ctx_log t @ part @ [(op, found')]) (ctx_log t')"
    by (rule causalD [OF c t(2)], rule that)
  have "prefix (ctx_log s @ part @ [(op, found')]) (ctx_log u')"
    if part: "prefix (part @ [(op, found)]) (xs @ ys)"
      and u': "attempt m k (s\<lparr>ctx_others := map snd part @ found' # rest\<rparr>) = Some (v', u')"
    for part op found found' rest v' u'
  proof -
    obtain r' t' where t': "m (s\<lparr>ctx_others := map snd part @ found' # rest\<rparr>) = Some (r', t')" "resume k r' t' = Some (v', u')"
      using u' by (auto simp: attempt_def bind_eq_Some_conv)
    consider "prefix (part @ [(op, found)]) xs" | part' where "part = xs @ part'" "prefix (part' @ [(op, found)]) ys"
      using prefix_snoc_append [OF part] by blast
    then show ?thesis
    proof cases
      case 1
      obtain zs where "ctx_log u' = ctx_log t' @ zs" by (rule causalD [OF k [OF t'(1)] t'(2)])
      with xs(3) [OF 1 t'(1)] show ?thesis by (auto intro: prefix_order.trans)
    next
      case 2
      with t' have "resume k r (t\<lparr>ctx_others := map snd part' @ found' # rest\<rparr>) = Some (v', u')" by (simp add: xs(2))
      from ys(3) [OF 2(2) this] show ?thesis by (simp add: 2(1) xs(1))
    qed
  qed
  moreover have "attempt m k (s\<lparr>ctx_others := map snd (xs @ ys) @ rest\<rparr>) = Some (v, u\<lparr>ctx_others := rest\<rparr>)" for rest
    by (simp add: attempt_def xs(2) ys(2))
  ultimately show "\<exists>trail. ctx_log u = ctx_log s @ trail \<and>
     (\<forall>rest. attempt m k (s\<lparr>ctx_others := map snd trail @ rest\<rparr>) = Some (v, u\<lparr>ctx_others := rest\<rparr>)) \<and>
     (\<forall>part op found found' rest r' t'. prefix (part @ [(op, found)]) trail \<longrightarrow>
        attempt m k (s\<lparr>ctx_others := map snd part @ found' # rest\<rparr>) = Some (r', t') \<longrightarrow>
        prefix (ctx_log s @ part @ [(op, found')]) (ctx_log t'))"
    using xs(1) ys(1) by (intro exI [of _ "xs @ ys"] conjI allI impI) simp_all
qed

text \<open>The rules by which a handler is taken apart.\<close>

named_theorems causal_intros \<open>causality of the constructs of a handler\<close>

declare causal_blocks [causal_intros]

lemma causal_constructs [causal_intros]:
  "\<lbrakk>b \<Longrightarrow> causal k s; \<not> b \<Longrightarrow> causal l s\<rbrakk> \<Longrightarrow> causal (if b then k else l) s"
  "\<lbrakk>\<And>a b. p = (a, b) \<Longrightarrow> causal (kp a b) s\<rbrakk> \<Longrightarrow> causal (case p of (a, b) \<Rightarrow> kp a b) s"
  "\<lbrakk>\<And>a. x = Inl a \<Longrightarrow> causal (kx a) s; \<And>b. x = Inr b \<Longrightarrow> causal (lx b) s\<rbrakk> \<Longrightarrow>
    causal (case x of Inl a \<Rightarrow> kx a | Inr b \<Rightarrow> lx b) s"
  "\<lbrakk>z = None \<Longrightarrow> causal kn s; \<And>c. z = Some c \<Longrightarrow> causal (ks c) s\<rbrakk> \<Longrightarrow>
    causal (case z of None \<Rightarrow> kn | Some c \<Rightarrow> ks c) s"
  by (auto split: prod.splits sum.splits option.splits)

lemma causal_abind:
  assumes "causal m s" "\<And>script v t. m (s\<lparr>ctx_others := script\<rparr>) = Some (Inr v, t) \<Longrightarrow> causal (k v) t"
  shows "causal (abind m k) s"
proof -
  have "abind m k = attempt m (\<lambda>r. case r of Inl e \<Rightarrow> afail e | Inr v \<Rightarrow> k v)" by (simp add: abind_def fun_eq_iff)
  moreover have "causal (attempt m (\<lambda>r. case r of Inl e \<Rightarrow> afail e | Inr v \<Rightarrow> k v)) s"
    by (rule causal_attempt [OF assms(1)]) (auto intro: causal_blocks assms(2) split: sum.split)
  ultimately show ?thesis by simp
qed

lemma causal_read: "causal (read_packet_timeout h) s"
  by (rule causal_blind) (auto simp: read_packet_timeout_def split: prod.splits option.splits)

lemma causal_send: "causal (send h pid body) s"
proof (rule causal_blind)
  fix script r t
  show "send h pid body (s\<lparr>ctx_others := script\<rparr>) = map_option (\<lambda>(r, t). (r, t\<lparr>ctx_others := script\<rparr>)) (send h pid body s)"
    by (simp add: send_def write_all_def Let_def split: option.split prod.split sum.split list.split write_event.split)
  show "ctx_log t = ctx_log s" if "send h pid body s = Some (r, t)"
    using that by (auto simp: send_def write_all_def Let_def split: option.splits prod.splits sum.splits list.splits write_event.splits)
qed

text \<open>Taking a lock, and what is done under it.\<close>

lemma causal_lock: "causal (amodify (\<lambda>s. ((), take_lock op s))) s"
proof (rule causalI)
  fix r t
  assume "amodify (\<lambda>s. ((), take_lock op s)) s = Some (r, t)"
  then have t: "r = Inr ()" "t = take_lock op s" by (simp_all add: amodify_def)
  have found: "take_lock op (s\<lparr>ctx_others := found # rest\<rparr>) = s\<lparr>ctx_players := fst found, ctx_status := snd found,
      ctx_others := rest, ctx_log := ctx_log s @ [(op, found)]\<rparr>" for found rest
    by (simp add: take_lock_def split: prod.split)
  show "\<exists>trail. ctx_log t = ctx_log s @ trail \<and>
     (\<forall>rest. amodify (\<lambda>s. ((), take_lock op s)) (s\<lparr>ctx_others := map snd trail @ rest\<rparr>) = Some (r, t\<lparr>ctx_others := rest\<rparr>)) \<and>
     (\<forall>part op' found found' rest r' t'. prefix (part @ [(op', found)]) trail \<longrightarrow>
        amodify (\<lambda>s. ((), take_lock op s)) (s\<lparr>ctx_others := map snd part @ found' # rest\<rparr>) = Some (r', t') \<longrightarrow>
        prefix (ctx_log s @ part @ [(op', found')]) (ctx_log t'))"
    by (rule exI [of _ "[(op, shared (take_lock op s))]"])
      (auto simp: t amodify_def found prefix_Cons append_eq_Cons_conv, simp add: take_lock_def split: list.split prod.split)
qed

lemma causal_modify:
  assumes "\<And>s script. f (s\<lparr>ctx_others := script\<rparr>) = apsnd (\<lambda>t. t\<lparr>ctx_others := script\<rparr>) (f s)"
    and "\<And>s. ctx_log (snd (f s)) = ctx_log s"
  shows "causal (amodify f) s"
proof (rule causal_blind)
  fix script r t
  show "amodify f (s\<lparr>ctx_others := script\<rparr>) = map_option (\<lambda>(r, t). (r, t\<lparr>ctx_others := script\<rparr>)) (amodify f s)"
    unfolding amodify_def assms(1) by (cases "f s") simp
  show "ctx_log t = ctx_log s" if "amodify f s = Some (r, t)"
    using that assms(2) [of s] by (cases "f s") (simp add: amodify_def)
qed

lemma admit_player_steps: "amodify (admit_player info limit) = abind (amodify (\<lambda>s. ((), take_lock (TryInsert info) s)))
    (\<lambda>_. amodify (\<lambda>s. case try_insert info limit (ctx_players s) of (r, players) \<Rightarrow> (r, s\<lparr>ctx_players := players\<rparr>)))"
  by (simp add: fun_eq_iff abind_def attempt_def resume_def amodify_def admit_player_def Let_def split: prod.split)

lemma remove_player_steps: "amodify (remove_player uuid) = abind (amodify (\<lambda>s. ((), take_lock (Remove uuid) s)))
    (\<lambda>_. amodify (\<lambda>s. case registry_remove uuid (ctx_players s) of (p, players) \<Rightarrow> (p, s\<lparr>ctx_players := players\<rparr>)))"
  by (simp add: fun_eq_iff abind_def attempt_def resume_def amodify_def remove_player_def Let_def split: prod.split)

text \<open>Looking at the shared state without changing it.\<close>

abbreviation observe :: "('s \<Rightarrow> 'v) \<Rightarrow> ('s, 'io, 'v) action" where
  "observe f \<equiv> amodify (\<lambda>s. (f s, s))"

lemma status_document_steps: "amodify (status_document h) =
    abind (amodify (\<lambda>s. ((), take_lock Count s))) (\<lambda>_.
    abind (observe (\<lambda>s. word_of_nat (registry_count (ctx_players s)))) (\<lambda>online.
    abind (amodify (\<lambda>s. ((), take_lock SampleNames s))) (\<lambda>_.
    abind (observe (\<lambda>s. sample_names (h_iter h) 12 (ctx_players s))) (\<lambda>sample.
    abind (amodify (\<lambda>s. ((), take_lock (Lookup online sample) s))) (\<lambda>_.
    abind (observe (\<lambda>s. cache_hit online sample (ctx_status s))) (\<lambda>hit.
    case hit of
      Some json \<Rightarrow> areturn json
    | None \<Rightarrow>
        abind (amodify (\<lambda>s. ((), take_lock (Rebuild online sample) s))) (\<lambda>_.
        amodify (\<lambda>s. case status_rebuild (h_md5 h) (h_uuid_string h) (h_status_string h) online sample (ctx_status s) of
          (json, status) \<Rightarrow> (json, s\<lparr>ctx_status := status\<rparr>)))))))))"
  by (rule ext) (simp add: abind_def attempt_def resume_def amodify_def areturn_def status_document_def Let_def split: prod.split option.split)

lemma causal_locked: "(\<And>t. causal (k ()) t) \<Longrightarrow> causal (abind (amodify (\<lambda>s. ((), take_lock op s))) k) s"
  by (rule causal_abind [OF causal_lock]) simp

lemma causal_observed:
  "(\<And>v t. causal (k v) t) \<Longrightarrow> (\<And>s script. f (s\<lparr>ctx_others := script\<rparr>) = f s) \<Longrightarrow> causal (abind (observe f) k) s"
  by (rule causal_abind [OF causal_modify]) simp_all

lemma causal_accesses:
  "causal (amodify (admit_player info limit)) s" "causal (amodify (remove_player uuid)) s"
  unfolding admit_player_steps remove_player_steps
  by (intro causal_locked causal_modify; simp split: prod.split)+

lemma causal_document:
  fixes s :: "('a, 'c, 'd, 'y, 'z, 'io) task"
  shows "causal (amodify (status_document h)) s"
proof -
  have "causal (case hit of Some json \<Rightarrow> areturn json | None \<Rightarrow>
        abind (amodify (\<lambda>s. ((), take_lock (Rebuild online sample) s))) (\<lambda>_.
        amodify (\<lambda>s. case status_rebuild (h_md5 h) (h_uuid_string h) (h_status_string h) online sample (ctx_status s) of
          (json, status) \<Rightarrow> (json, s\<lparr>ctx_status := status\<rparr>)))) t"
    for hit online sample and t :: "('a, 'c, 'd, 'y, 'z, 'io) task"
    by (cases hit) (auto intro!: causal_locked causal_modify causal_blocks split: prod.split)
  then show ?thesis
    unfolding status_document_steps by (intro causal_locked causal_observed) simp_all
qed

text \<open>What a step of a phase leaves unread.\<close>

lemma read_less:
  fixes s :: "('a, 'c, 'd, 'y, 'z, 'io) task"
  shows "read_packet_timeout h s = Some (Inr p, t) \<Longrightarrow> unread t < unread s"
  using awp_read [of s "\<lambda>r t. \<forall>p. r = Inr p \<longrightarrow> unread t < unread s" h] by (auto simp: awp_iff)

lemma unread_step:
  fixes s :: "('a, 'c, 'd, 'y, 'z, 'io) task"
  shows "alift p s = Some (Inr v, t) \<Longrightarrow> unread t = unread s"
  "adone r s = Some (Inr v, t) \<Longrightarrow> unread t = unread s \<and> r = Inr v"
  "send h pid body s = Some (Inr u, t) \<Longrightarrow> unread t = unread s"
  "amodify (status_document h) s = Some (Inr json, t) \<Longrightarrow> unread t \<le> unread s"
  using watches_unread [OF watches_document [of h s], of "Suc (unread s)"]
  by (auto simp: alift_def adone_def afail_def areturn_def send_def write_all_def unread_def amodify_def Let_def
    split: sum.splits option.splits prod.splits list.splits write_event.splits)

lemma unread_script [simp]: "unread (s\<lparr>ctx_others := script\<rparr>) = unread s"
  by (simp add: unread_def)

lemma causal_status_phase:
  fixes s :: "('a, 'c, 'd, 'y, 'z, 'io) task"
  shows "causal (status_phase h) s"
proof (induction "unread s" arbitrary: s rule: less_induct)
  case less
  show ?case
    by (subst status_phase_unfold, intro causal_attempt causal_abind causal_intros causal_read causal_send causal_document less)
      (auto dest!: read_less unread_step)
qed

lemma causal_configuration_phase: "causal (configuration_phase h) s"
proof -
  have "causal (configuration_loop h) s" for s
  proof (induction "unread s" arbitrary: s rule: less_induct)
    case less
    show ?case
      by (subst configuration_loop_unfold, intro causal_abind causal_intros causal_read causal_send less)
        (auto dest!: read_less unread_step)
  qed
  then show ?thesis unfolding configuration_phase_def by (intro causal_abind causal_send)
qed

lemma causal_run: "causal (run h) s"
proof -
  have pure: "causal (amodify connection_addr) s" "causal (amodify (enable_compression threshold)) s" for s threshold
    by (rule causal_modify; simp add: connection_addr_def enable_compression_def)+
  have join: "causal (login_join h hello uuid) s" for hello uuid s
    unfolding login_join_def Let_def
    by (intro causal_attempt causal_abind causal_intros causal_send causal_accesses causal_configuration_phase pure)
  have login: "causal (login_phase h) s" for s
    unfolding login_phase_def Let_def
    by (intro causal_attempt causal_abind causal_intros causal_send causal_read join pure) 
  show ?thesis
    unfolding run_def
    by (intro causal_attempt causal_abind causal_intros causal_send causal_read causal_status_phase login)
qed

section \<open>Completion\<close>

lemma task_new_script [simp]:
  "(task_new conn start others)\<lparr>ctx_others := script\<rparr> = task_new conn start script"
  "ctx_others (task_new conn start others) = others" "ctx_log (task_new conn start others) = []"
  by (simp_all add: task_new_def connection.defs task.defs)

text \<open>A task that has made the accesses \<open>part\<close> can make the rest of its own without another in between.\<close>

lemma run_finds:
  assumes h: "host_ok h" and s': "run h (task_new conn start others) = Some (r, s')"
    and part: "prefix (part @ [(op, found)]) (ctx_log s')"
  obtains r' t trail where "run h (task_new conn start (map snd part @ [ctx])) = Some (r', t)"
    "ctx_log t = part @ (op, ctx) # trail" "executes h ctx ((op, ctx) # trail) (shared t)"
proof -
  let ?script = "map snd part @ [ctx]"
  obtain r' t trail where t: "run h (task_new conn start ?script) = Some (r', t)" "does h trail (task_new conn start ?script) t"
    using run_returns [OF h, of "task_new conn start ?script"] by blast
  have "prefix (part @ [(op, ctx)]) (ctx_log t)"
  proof (rule causalD [OF causal_run s'])
    fix trail'
    assume "ctx_log s' = ctx_log (task_new conn start others) @ trail'"
      "\<And>part op found found' rest r' t'. prefix (part @ [(op, found)]) trail' \<Longrightarrow>
        run h (task_new conn start others\<lparr>ctx_others := map snd part @ found' # rest\<rparr>) = Some (r', t') \<Longrightarrow>
        prefix (ctx_log (task_new conn start others) @ part @ [(op, found')]) (ctx_log t')"
    from this(1) this(2) [of part op found ctx "[]" r' t] part t(1) show ?thesis by simp
  qed
  then obtain rest where rest: "ctx_log t = part @ (op, ctx) # rest" by (auto simp: prefix_def)
  have "ctx_log t = trail" using t(2) by (simp add: does_def)
  then have "trail = part @ (op, ctx) # rest" using rest by simp
  with t(2) have "executes h ctx ((op, ctx) # rest) (shared t)" by (simp add: does_def del: executes.simps)
  with that [OF t(1) rest] show ?thesis by blast
qed

lemma run_completes:
  assumes h: "host_ok h" and s': "run h (task_new conn start others) = Some (r, s')" and part: "prefix part (ctx_log s')"
  obtains others' r' t trail ctx' where "run h (task_new conn start others') = Some (r', t)"
    "ctx_log t = part @ trail" "executes h ctx trail ctx'"
proof (cases "part = ctx_log s'")
  case True
  then show ?thesis using that [of others r s' "[]" ctx] s' by simp
next
  case False
  then obtain op found where "prefix (part @ [(op, found)]) (ctx_log s')"
    using part by (cases "drop (length part) (ctx_log s')") (auto simp: prefix_def)
  from run_finds [OF h s' this, of ctx] show ?thesis using that by metis
qed

lemma part_of_append: "part_of t (xs @ ys) = part_of t xs @ part_of t ys"
  by (simp add: part_of_def)

lemma part_of_own: "part_of t (map (Pair u) trail) = (if t = u then trail else [])"
  by (simp add: part_of_def filter_map comp_def)

text \<open>One task is run to its end.\<close>

lemma scheduled_finish_one:
  assumes h: "host_ok h" and sched: "scheduled h conns start history ctx" and t: "t < length conns"
  obtains trail ctx' where "scheduled h conns start (history @ map (Pair t) trail) ctx'"
    "\<exists>others r s'. run h (task_new (conns ! t) start others) = Some (r, s') \<and> part_of t history @ trail = ctx_log s'"
proof -
  obtain others r s' where "run h (task_new (conns ! t) start others) = Some (r, s')" "prefix (part_of t history) (ctx_log s')"
    using sched t by (auto simp: scheduled_def)
  from run_completes [OF h this] obtain others' r' s'' trail ctx' where
    e: "run h (task_new (conns ! t) start others') = Some (r', s'')" "ctx_log s'' = part_of t history @ trail"
      "executes h ctx trail ctx'" by blast
  let ?history = "history @ map (Pair t) trail"
  have own: "part_of u ?history = (if u = t then part_of t history @ trail else part_of u history)" for u
    by (simp add: part_of_append part_of_own)
  have "executes h start (map snd history) ctx" using sched by (simp add: scheduled_def)
  with e(3) have "executes h start (map snd history @ trail) ctx'" unfolding executes_append by blast
  then have "executes h start (map snd ?history) ctx'" by (simp add: comp_def)
  moreover have "\<exists>others r s'. run h (task_new (conns ! u) start others) = Some (r, s') \<and> prefix (part_of u ?history) (ctx_log s')"
    if "u < length conns" for u
  proof (cases "u = t")
    case True
    then show ?thesis using e(1,2) by (intro exI [of _ others'] exI [of _ r'] exI [of _ s'']) (simp add: own)
  qed (use that sched own in \<open>simp add: scheduled_def\<close>)
  moreover have "\<forall>e \<in> set ?history. fst e < length conns" using sched t by (auto simp: scheduled_def)
  ultimately have "scheduled h conns start ?history ctx'" unfolding scheduled_def by blast
  from that [OF this exI [of _ others', OF exI [of _ r', OF exI [of _ s'']]]] e(1,2) show ?thesis by simp
qed

lemma scheduled_finish_all:
  assumes h: "host_ok h" and sched: "scheduled h conns start history ctx" and n: "n \<le> length conns"
  shows "\<exists>later ctx'. scheduled h conns start (history @ later) ctx' \<and>
    (\<forall>t < n. \<exists>others r s'. run h (task_new (conns ! t) start others) = Some (r, s') \<and> part_of t (history @ later) = ctx_log s')"
  using n
proof (induction n)
  case 0
  then show ?case using sched by (intro exI [of _ "[]"] exI [of _ ctx]) simp
next
  case (Suc n)
  then obtain later ctx' where l: "scheduled h conns start (history @ later) ctx'"
    "\<forall>t < n. \<exists>others r s'. run h (task_new (conns ! t) start others) = Some (r, s') \<and> part_of t (history @ later) = ctx_log s'"
    by auto
  from scheduled_finish_one [OF h l(1), of n] Suc.prems obtain trail ctx'' where
    f: "scheduled h conns start ((history @ later) @ map (Pair n) trail) ctx''"
      "\<exists>others r s'. run h (task_new (conns ! n) start others) = Some (r, s') \<and> part_of n (history @ later) @ trail = ctx_log s'"
    by (metis Suc_le_eq)
  from l(2) f(2) have "\<forall>t < Suc n. \<exists>others r s'. run h (task_new (conns ! t) start others) = Some (r, s') \<and>
      part_of t (history @ later @ map (Pair n) trail) = ctx_log s'"
    by (auto simp: less_Suc_eq part_of_append part_of_own)
  with f(1) show ?case by (intro exI [of _ "later @ map (Pair n) trail"] exI [of _ ctx'']) simp
qed

end
