(* ===== verification/Locks.thy ===== *)
theory Locks
  imports Completion
begin

text \<open>
  The two locks of the server taken apart: the \<open>RwLock\<close> of \<open>PlayerRegistry\<close> (\<open>crates/rukkit-server/src/player.rs\<close>)
  and the one of \<open>StatusCache\<close> (\<open>status.rs\<close>). In \<open>Connection\<close> an access is one step. Here a method acquires a guard,
  if it can be granted, looks at the state or loads it, stores the new state, and drops the guard where its scope ends, and
  the methods of different tasks run in parallel, step by step; a guard that is never dropped stays with its task while
  that waits for its client. It is proved that this gives no more than the atomic accesses do, and that
  no lock can be waited for in vain.
\<close>

section \<open>What the methods do with their guards\<close>

datatype lock = PlayersLock | StatusLock

datatype lock_mode = ReadGuard | WriteGuard

text \<open>
  \<open>Observe\<close> is a look at the state under a guard, from which the result is made. A method that changes the state has
  loaded it (\<open>Load\<close>: the checks of \<open>try_insert\<close>, the second lookup of \<open>json\<close>) before it stores what it makes of it.
\<close>

datatype guard_step = Acquire lock lock_mode | Observe | Load | Store | Release lock

definition try_insert_steps :: "guard_step list" where
  "try_insert_steps = [Acquire PlayersLock WriteGuard, Load, Store, Release PlayersLock]"

definition remove_steps :: "guard_step list" where
  "remove_steps = [Acquire PlayersLock WriteGuard, Load, Store, Release PlayersLock]"

definition count_steps :: "guard_step list" where
  "count_steps = [Acquire PlayersLock ReadGuard, Observe, Release PlayersLock]"

definition sample_names_steps :: "guard_step list" where
  "sample_names_steps = [Acquire PlayersLock ReadGuard, Observe, Release PlayersLock]"

text \<open>The guard of the first lookup lives to the end of the \<open>if let\<close>, and that of the second half to the end of \<open>json\<close>.\<close>

definition json_lookup_steps :: "guard_step list" where
  "json_lookup_steps = [Acquire StatusLock ReadGuard, Observe, Release StatusLock]"

definition json_rebuild_steps :: "guard_step list" where
  "json_rebuild_steps = [Acquire StatusLock WriteGuard, Load, Store, Release StatusLock]"

fun access_steps :: "'a access \<Rightarrow> guard_step list" where
  "access_steps Count = count_steps"
| "access_steps SampleNames = sample_names_steps"
| "access_steps (Lookup _ _) = json_lookup_steps"
| "access_steps (Rebuild _ _) = json_rebuild_steps"
| "access_steps (TryInsert _) = try_insert_steps"
| "access_steps (Remove _) = remove_steps"

section \<open>Tasks and locks\<close>

text \<open>The part of the shared state an access is about, whether it may change it, and a state with that part taken from another one.\<close>

fun touches :: "'a access \<Rightarrow> lock" where
  "touches (Lookup _ _) = StatusLock"
| "touches (Rebuild _ _) = StatusLock"
| "touches _ = PlayersLock"

fun changing :: "'a access \<Rightarrow> bool" where
  "changing (TryInsert _) = True"
| "changing (Remove _) = True"
| "changing (Rebuild _ _) = True"
| "changing _ = False"

fun with_part :: "lock \<Rightarrow> 'a shared \<Rightarrow> 'a shared \<Rightarrow> 'a shared" where
  "with_part PlayersLock (players, _) (_, status) = (players, status)"
| "with_part StatusLock (_, status) (players, _) = (players, status)"

text \<open>
  A task in a method has steps left and, if it has loaded the state, a copy of it. \<open>ls_history\<close> lists the
  accesses in the order in which their results or their changes took effect.
\<close>

record 'a lock_state =
  ls_ctx :: "'a shared"
  ls_history :: "'a history"
  ls_busy :: "nat \<Rightarrow> ('a access \<times> guard_step list \<times> 'a shared option) option"
  ls_guards :: "nat \<Rightarrow> lock \<Rightarrow> lock_mode option"

definition lock_start :: "'a shared \<Rightarrow> 'a lock_state" where
  "lock_start start = \<lparr>ls_ctx = start, ls_history = [], ls_busy = (\<lambda>_. None), ls_guards = (\<lambda>_. Map.empty)\<rparr>"

text \<open>Readers share a lock, a writer has it alone; a task is not let past a guard of its own either.\<close>

definition grantable :: "lock_mode \<Rightarrow> lock \<Rightarrow> (nat \<Rightarrow> lock \<Rightarrow> lock_mode option) \<Rightarrow> bool" where
  "grantable mode l guards \<longleftrightarrow> (\<forall>u. guards u l = None \<or> mode = ReadGuard \<and> guards u l = Some ReadGuard)"

text \<open>The access at which a task of the server stands, by its own code, after the accesses it has made in \<open>history\<close>.\<close>

definition next_access ::
  "('a, 'c, 'd, 'y, 'z) host \<Rightarrow> ('a, 'c, 'd, 'y, 'z, 'io) connection list \<Rightarrow> 'a shared \<Rightarrow> 'a history \<Rightarrow> nat \<Rightarrow> 'a access \<Rightarrow> bool" where
  "next_access h conns start history t op \<longleftrightarrow> t < length conns \<and>
     (\<exists>others r s' found. run h (task_new (conns ! t) start others) = Some (r, s') \<and>
        prefix (part_of t history @ [(op, found)]) (ctx_log s'))"

inductive lock_step ::
  "('a, 'c, 'd, 'y, 'z) host \<Rightarrow> ('a, 'c, 'd, 'y, 'z, 'io) connection list \<Rightarrow> 'a shared \<Rightarrow> nat \<Rightarrow>
    'a lock_state \<Rightarrow> 'a lock_state \<Rightarrow> bool" for h conns start t where
  call: "ls_busy \<sigma> t = None \<Longrightarrow> next_access h conns start (ls_history \<sigma>) t op \<Longrightarrow>
    lock_step h conns start t \<sigma> (\<sigma>\<lparr>ls_busy := (ls_busy \<sigma>)(t \<mapsto> (op, access_steps op, None))\<rparr>)"
| acquire: "ls_busy \<sigma> t = Some (op, Acquire l mode # code, seen) \<Longrightarrow> grantable mode l (ls_guards \<sigma>) \<Longrightarrow>
    lock_step h conns start t \<sigma> (\<sigma>\<lparr>ls_busy := (ls_busy \<sigma>)(t \<mapsto> (op, code, seen)),
      ls_guards := (ls_guards \<sigma>)(t := (ls_guards \<sigma> t)(l \<mapsto> mode))\<rparr>)"
| observe: "ls_busy \<sigma> t = Some (op, Observe # code, seen) \<Longrightarrow>
    lock_step h conns start t \<sigma> (\<sigma>\<lparr>ls_busy := (ls_busy \<sigma>)(t \<mapsto> (op, code, seen)),
      ls_history := ls_history \<sigma> @ [(t, op, ls_ctx \<sigma>)]\<rparr>)"
| load: "ls_busy \<sigma> t = Some (op, Load # code, seen) \<Longrightarrow>
    lock_step h conns start t \<sigma> (\<sigma>\<lparr>ls_busy := (ls_busy \<sigma>)(t \<mapsto> (op, code, Some (ls_ctx \<sigma>)))\<rparr>)"
| store: "ls_busy \<sigma> t = Some (op, Store # code, Some seen) \<Longrightarrow> found = with_part (touches op) seen (ls_ctx \<sigma>) \<Longrightarrow>
    lock_step h conns start t \<sigma> (\<sigma>\<lparr>ls_busy := (ls_busy \<sigma>)(t \<mapsto> (op, code, Some seen)),
      ls_history := ls_history \<sigma> @ [(t, op, found)],
      ls_ctx := with_part (touches op) (perform h op found) (ls_ctx \<sigma>)\<rparr>)"
| release: "ls_busy \<sigma> t = Some (op, Release l # code, seen) \<Longrightarrow>
    lock_step h conns start t \<sigma> (\<sigma>\<lparr>ls_busy := (ls_busy \<sigma>)(t \<mapsto> (op, code, seen)),
      ls_guards := (ls_guards \<sigma>)(t := (ls_guards \<sigma> t)(l := None))\<rparr>)"
| return: "ls_busy \<sigma> t = Some (op, [], seen) \<Longrightarrow>
    lock_step h conns start t \<sigma> (\<sigma>\<lparr>ls_busy := (ls_busy \<sigma>)(t := None)\<rparr>)"

definition some_step ::
  "('a, 'c, 'd, 'y, 'z) host \<Rightarrow> ('a, 'c, 'd, 'y, 'z, 'io) connection list \<Rightarrow> 'a shared \<Rightarrow> 'a lock_state \<Rightarrow> 'a lock_state \<Rightarrow> bool" where
  "some_step h conns start \<sigma> \<sigma>' \<longleftrightarrow> (\<exists>t. lock_step h conns start t \<sigma> \<sigma>')"

text \<open>A step of a task that holds a guard.\<close>

definition holder_step ::
  "('a, 'c, 'd, 'y, 'z) host \<Rightarrow> ('a, 'c, 'd, 'y, 'z, 'io) connection list \<Rightarrow> 'a shared \<Rightarrow> 'a lock_state \<Rightarrow> 'a lock_state \<Rightarrow> bool" where
  "holder_step h conns start \<sigma> \<sigma>' \<longleftrightarrow> (\<exists>t. ls_guards \<sigma> t \<noteq> Map.empty \<and> lock_step h conns start t \<sigma> \<sigma>')"

section \<open>The discipline of the guards\<close>

text \<open>What the methods have in common: one guard, taken first and dropped last, for the part the access is about.\<close>

lemma access_steps_eq:
  "access_steps op = (if changing op then [Acquire (touches op) WriteGuard, Load, Store, Release (touches op)]
     else [Acquire (touches op) ReadGuard, Observe, Release (touches op)])"
  by (cases op) (simp_all add: try_insert_steps_def remove_steps_def count_steps_def sample_names_steps_def
      json_lookup_steps_def json_rebuild_steps_def)

lemma executes_unique: "executes h ctx trail a \<Longrightarrow> executes h ctx trail b \<Longrightarrow> a = b"
  by (induction h ctx trail a arbitrary: b rule: executes.induct) (auto simp del: perform.simps)

lemma with_part_same [simp]: "with_part l ctx ctx = ctx"
  by (cases l; cases ctx) simp_all

lemma with_part_perform: "with_part (touches op) (perform h op ctx) ctx = perform h op ctx"
  by (cases op; cases ctx) simp_all

lemma perform_unchanged: "\<not> changing op \<Longrightarrow> perform h op ctx = ctx"
  by (cases op; cases ctx) simp_all

text \<open>A change of one part leaves a copy of the other one up to date.\<close>

lemma with_part_other: "l \<noteq> l' \<Longrightarrow> with_part l seen ctx = ctx \<Longrightarrow> with_part l seen (with_part l' new ctx) = with_part l' new ctx"
  by (cases l; cases l'; cases seen; cases ctx; cases new) simp_all

definition task_ok ::
  "('a, 'c, 'd, 'y, 'z) host \<Rightarrow> ('a, 'c, 'd, 'y, 'z, 'io) connection list \<Rightarrow> 'a shared \<Rightarrow> 'a lock_state \<Rightarrow> nat \<Rightarrow> bool" where
  "task_ok h conns start \<sigma> t \<longleftrightarrow> (case ls_busy \<sigma> t of
      None \<Rightarrow> ls_guards \<sigma> t = Map.empty
    | Some (op, code, seen) \<Rightarrow> t < length conns \<and>
       (code = access_steps op \<and> ls_guards \<sigma> t = Map.empty \<and> next_access h conns start (ls_history \<sigma>) t op \<or>
        code = [] \<and> ls_guards \<sigma> t = Map.empty \<or>
        code = [Release (touches op)] \<and> (\<exists>mode. ls_guards \<sigma> t = [touches op \<mapsto> mode]) \<or>
        \<not> changing op \<and> code = [Observe, Release (touches op)] \<and> ls_guards \<sigma> t = [touches op \<mapsto> ReadGuard] \<and>
          next_access h conns start (ls_history \<sigma>) t op \<or>
        changing op \<and> code = [Load, Store, Release (touches op)] \<and> ls_guards \<sigma> t = [touches op \<mapsto> WriteGuard] \<and>
          next_access h conns start (ls_history \<sigma>) t op \<or>
        changing op \<and> code = [Store, Release (touches op)] \<and> ls_guards \<sigma> t = [touches op \<mapsto> WriteGuard] \<and>
          next_access h conns start (ls_history \<sigma>) t op \<and>
          (\<exists>copy. seen = Some copy \<and> with_part (touches op) copy (ls_ctx \<sigma>) = ls_ctx \<sigma>)))"

definition lock_inv ::
  "('a, 'c, 'd, 'y, 'z) host \<Rightarrow> ('a, 'c, 'd, 'y, 'z, 'io) connection list \<Rightarrow> 'a shared \<Rightarrow> 'a lock_state \<Rightarrow> bool" where
  "lock_inv h conns start \<sigma> \<longleftrightarrow> scheduled h conns start (ls_history \<sigma>) (ls_ctx \<sigma>) \<and>
     (\<forall>t. task_ok h conns start \<sigma> t) \<and>
     (\<forall>t u l. t \<noteq> u \<longrightarrow> ls_guards \<sigma> t l = Some WriteGuard \<longrightarrow> ls_guards \<sigma> u l = None)"

text \<open>Another task's steps are invisible to a task, but for the part of the state it has no guard of.\<close>

lemma next_access_other:
  "t \<noteq> u \<Longrightarrow> next_access h conns start (history @ [(t, op, found)]) u op' \<longleftrightarrow> next_access h conns start history u op'"
  by (simp add: next_access_def)

lemma task_ok_cong:
  assumes "task_ok h conns start \<sigma> u" "ls_busy \<sigma>' u = ls_busy \<sigma> u" "ls_guards \<sigma>' u = ls_guards \<sigma> u"
    and "\<And>op. next_access h conns start (ls_history \<sigma>') u op \<longleftrightarrow> next_access h conns start (ls_history \<sigma>) u op"
    and "\<And>l copy. ls_guards \<sigma> u l = Some WriteGuard \<Longrightarrow> with_part l copy (ls_ctx \<sigma>) = ls_ctx \<sigma> \<Longrightarrow>
      with_part l copy (ls_ctx \<sigma>') = ls_ctx \<sigma>'"
  shows "task_ok h conns start \<sigma>' u"
proof (cases "ls_busy \<sigma> u")
  case (Some entry)
  obtain op code seen where e: "entry = (op, code, seen)" by (cases entry)
  show ?thesis
    using assms(1) assms(5) [of "touches op"] unfolding task_ok_def assms(2-4) Some e by auto
qed (use assms in \<open>simp add: task_ok_def\<close>)

lemma scheduled_next:
  assumes h: "host_ok h" and sched: "scheduled h conns start history ctx" and nxt: "next_access h conns start history t op"
  shows "scheduled h conns start (history @ [(t, op, ctx)]) (perform h op ctx)"
proof -
  obtain others r s' found where r: "run h (task_new (conns ! t) start others) = Some (r, s')"
    "prefix (part_of t history @ [(op, found)]) (ctx_log s')" "t < length conns" using nxt by (auto simp: next_access_def)
  obtain r' s'' trail where t': "run h (task_new (conns ! t) start (map snd (part_of t history) @ [ctx])) = Some (r', s'')"
    "ctx_log s'' = part_of t history @ (op, ctx) # trail" by (rule run_finds [OF h r(1,2), of ctx])
  then have t: "run h (task_new (conns ! t) start (map snd (part_of t history) @ [ctx])) = Some (r', s'')"
      "prefix (part_of t history @ [(op, ctx)]) (ctx_log s'')" by (simp_all add: prefix_def)
  have "executes h start (map snd history @ [(op, ctx)]) (perform h op ctx)"
    unfolding executes_append using sched by (intro exI [of _ ctx]) (simp add: scheduled_def)
  moreover have "\<exists>others r s'. run h (task_new (conns ! u) start others) = Some (r, s') \<and>
      prefix (part_of u (history @ [(t, op, ctx)])) (ctx_log s')" if "u < length conns" for u
    using that sched t by (cases "u = t") (auto simp: scheduled_def)
  ultimately show ?thesis using sched r(3) by (simp add: scheduled_def del: perform.simps)
qed

lemma lock_inv_start:
  assumes "host_ok h"
  shows "lock_inv h conns start (lock_start start)"
proof -
  have "\<exists>others r s'. run h (task_new (conns ! t) start others) = Some (r, s')" for t
    by (rule run_returns [OF assms, of "task_new (conns ! t) start []"]) blast
  then show ?thesis by (simp add: lock_inv_def lock_start_def task_ok_def scheduled_def)
qed

section \<open>Every step keeps the discipline\<close>

lemma lock_step_inv:
  assumes h: "host_ok h" and step: "lock_step h conns start t \<sigma> \<sigma>'" and inv: "lock_inv h conns start \<sigma>"
  shows "lock_inv h conns start \<sigma>'"
proof -
  have sched: "scheduled h conns start (ls_history \<sigma>) (ls_ctx \<sigma>)" and ok: "task_ok h conns start \<sigma> u"
    and excl: "t \<noteq> u \<Longrightarrow> ls_guards \<sigma> t l = Some WriteGuard \<Longrightarrow> ls_guards \<sigma> u l = None" for t u l
    using inv by (auto simp: lock_inv_def)
  show ?thesis
    using step
  proof cases
    case (call op)
    have "task_ok h conns start \<sigma>' u" for u
    proof (cases "u = t")
      case True
      with ok [of t] call show ?thesis by (simp add: task_ok_def next_access_def)
    qed (rule task_ok_cong [OF ok], simp_all add: call)
    then show ?thesis using sched excl by (simp add: lock_inv_def call)
  next
    case (acquire op l mode code seen)
    from ok [of t] acquire(2) have t: "t < length conns" "next_access h conns start (ls_history \<sigma>) t op"
      "ls_guards \<sigma> t = Map.empty" "Acquire l mode # code = access_steps op"
      by (auto simp: task_ok_def)
    have "task_ok h conns start \<sigma>' u" for u
    proof (cases "u = t")
      case True
      with t acquire(1) show ?thesis by (auto simp: task_ok_def access_steps_eq split: if_splits)
    qed (rule task_ok_cong [OF ok], simp_all add: acquire(1))
    moreover have "ls_guards \<sigma>' v k = None" if "u \<noteq> v" "ls_guards \<sigma>' u k = Some WriteGuard" for u v k
    proof (cases "k = l \<and> (u = t \<or> v = t)")
      case True
      with that acquire(1,3) t(3) show ?thesis 
        by (cases mode) (auto simp: grantable_def split: if_splits dest: spec [of _ u] spec [of _ v])
    next
      case False
      with that acquire(1) t(3) excl [of u v k] show ?thesis by (auto split: if_splits)
    qed
    ultimately show ?thesis using sched by (simp add: lock_inv_def acquire(1))
  next
    case (observe op code seen)
    from ok [of t] observe(2) have t: "t < length conns" "next_access h conns start (ls_history \<sigma>) t op" "\<not> changing op"
      "ls_guards \<sigma> t = [touches op \<mapsto> ReadGuard]" "code = [Release (touches op)]"
      by (auto simp: task_ok_def access_steps_eq split: if_splits)
    have "task_ok h conns start \<sigma>' u" for u
    proof (cases "u = t")
      case True
      with t observe(1) show ?thesis by (auto simp: task_ok_def)
    qed (rule task_ok_cong [OF ok], simp_all add: observe(1) next_access_other)
    moreover have "scheduled h conns start (ls_history \<sigma>') (ls_ctx \<sigma>')"
      using scheduled_next [OF h sched t(2)] perform_unchanged [OF t(3), of h] by (simp add: observe(1))
    ultimately show ?thesis using excl by (simp add: lock_inv_def observe(1))
  next
    case (load op code seen)
    from ok [of t] load(2) have t: "t < length conns" "next_access h conns start (ls_history \<sigma>) t op" "changing op"
      "ls_guards \<sigma> t = [touches op \<mapsto> WriteGuard]" "code = [Store, Release (touches op)]"
      by (auto simp: task_ok_def access_steps_eq split: if_splits)
    have "task_ok h conns start \<sigma>' u" for u
    proof (cases "u = t")
      case True
      with t load(1) show ?thesis by (auto simp: task_ok_def simp del: split_paired_Ex)
    qed (rule task_ok_cong [OF ok], simp_all add: load(1))
    then show ?thesis using sched excl by (simp add: lock_inv_def load(1))
  next
    case (store op code seen found)
    from ok [of t] store(2) have t: "t < length conns" "next_access h conns start (ls_history \<sigma>) t op" "changing op"
      "ls_guards \<sigma> t = [touches op \<mapsto> WriteGuard]" "code = [Release (touches op)]" "with_part (touches op) seen (ls_ctx \<sigma>) = ls_ctx \<sigma>"
      by (auto simp: task_ok_def access_steps_eq split: if_splits)
    then have found: "found = ls_ctx \<sigma>" using store(3) by simp
    have "task_ok h conns start \<sigma>' u" for u
    proof (cases "u = t")
      case True
      with t store(1) show ?thesis by (auto simp: task_ok_def)
    next
      case False
      have other: "l \<noteq> touches op" if "ls_guards \<sigma> u l = Some WriteGuard" for l
        using that excl [of t u "touches op"] t(4) False by auto
      show ?thesis
        by (rule task_ok_cong [OF ok])
          (use False other in \<open>simp_all add: store(1) next_access_other with_part_other del: perform.simps\<close>)
    qed
    moreover have "scheduled h conns start (ls_history \<sigma>') (ls_ctx \<sigma>')"
      using scheduled_next [OF h sched t(2)] by (simp add: store(1) found with_part_perform del: perform.simps)
    ultimately show ?thesis using excl by (simp add: lock_inv_def store(1))
  next
    case (release op l code seen)
    from ok [of t] release(2) have t: "t < length conns" "l = touches op" "code = []" "\<exists>mode. ls_guards \<sigma> t = [l \<mapsto> mode]"
      by (auto simp: task_ok_def access_steps_eq split: if_splits)
    have "task_ok h conns start \<sigma>' u" for u
    proof (cases "u = t")
      case True
      with t release(1) show ?thesis by (auto simp: task_ok_def)
    qed (rule task_ok_cong [OF ok], simp_all add: release(1))
    moreover have "ls_guards \<sigma>' v k = None" if "u \<noteq> v" "ls_guards \<sigma>' u k = Some WriteGuard" for u v k
      using that excl [of u v k] by (auto simp: release(1) split: if_splits)
    ultimately show ?thesis using sched by (simp add: lock_inv_def release(1))
  next
    case (return op seen)
    from ok [of t] return(2) have t: "ls_guards \<sigma> t = Map.empty"
      by (auto simp: task_ok_def access_steps_eq split: if_splits)
    have "task_ok h conns start \<sigma>' u" for u
    proof (cases "u = t")
      case True
      with t return(1) show ?thesis by (simp add: task_ok_def)
    qed (rule task_ok_cong [OF ok], simp_all add: return(1))
    then show ?thesis using sched excl by (simp add: lock_inv_def return(1))
  qed
qed

lemma some_steps_inv:
  assumes "host_ok h" "(some_step h conns start)\<^sup>*\<^sup>* \<sigma> \<sigma>'" "lock_inv h conns start \<sigma>"
  shows "lock_inv h conns start \<sigma>'"
  using assms(2,3) by induction (auto simp: some_step_def intro: lock_step_inv [OF assms(1)])

section \<open>Nobody waits in vain\<close>

text \<open>
  A task with a guard never waits: it is not before an \<open>Acquire\<close>, nor between two methods, where it might wait for its
  client. Its next step can always be taken and brings it nearer to the end of its method.
\<close>

lemma holder_moves:
  assumes "lock_inv h conns start \<sigma>" "ls_guards \<sigma> t \<noteq> Map.empty"
  obtains \<sigma>' op code code' seen seen' where "lock_step h conns start t \<sigma> \<sigma>'"
    "ls_busy \<sigma> t = Some (op, code, seen)" "ls_busy \<sigma>' = (ls_busy \<sigma>)(t \<mapsto> (op, code', seen'))" "length code' < length code"
    "ls_guards \<sigma>' = ls_guards \<sigma> \<or> ls_guards \<sigma>' = (ls_guards \<sigma>)(t := Map.empty)"
proof -
  have ok: "task_ok h conns start \<sigma> t" using assms(1) by (simp add: lock_inv_def)
  then obtain op code seen where b: "ls_busy \<sigma> t = Some (op, code, seen)"
    using assms(2) by (cases "ls_busy \<sigma> t") (auto simp: task_ok_def)
  with ok assms(2) consider
      (release) mode where "code = [Release (touches op)]" "ls_guards \<sigma> t = [touches op \<mapsto> mode]"
    | (observe) "code = [Observe, Release (touches op)]"
    | (load) "code = [Load, Store, Release (touches op)]"
    | (store) copy where "code = [Store, Release (touches op)]" "seen = Some copy"
    by (auto simp: task_ok_def)
  then show ?thesis
  proof cases
    case release
    from that [OF lock_step.release [OF b [unfolded release(1)]] b] release show ?thesis by simp
  next
    case observe
    from that [OF lock_step.observe [OF b [unfolded observe]] b] observe show ?thesis by simp
  next
    case load
    from that [OF lock_step.load [OF b [unfolded load]] b] load show ?thesis by simp
  next
    case (store copy)
    from that [OF lock_step.store [OF b [unfolded store] refl] b] store show ?thesis by simp
  qed
qed

lemma holder_releases:
  assumes h: "host_ok h" and inv: "lock_inv h conns start \<sigma>" and busy: "ls_busy \<sigma> t = Some (op, code, seen)"
  shows "\<exists>\<sigma>'. (holder_step h conns start)\<^sup>*\<^sup>* \<sigma> \<sigma>' \<and> lock_inv h conns start \<sigma>' \<and>
    ls_guards \<sigma>' = (ls_guards \<sigma>)(t := Map.empty) \<and> (\<forall>u. u \<noteq> t \<longrightarrow> ls_busy \<sigma>' u = ls_busy \<sigma> u)"
  using inv busy
proof (induction "length code" arbitrary: \<sigma> code seen rule: less_induct)
  case less
  show ?case
  proof (cases "ls_guards \<sigma> t = Map.empty")
    case True
    then show ?thesis using less.prems by (intro exI [of _ \<sigma>]) auto
  next
    case False
    obtain \<sigma>' op' code1 code' seen1 seen' where s: "lock_step h conns start t \<sigma> \<sigma>'"
      "ls_busy \<sigma> t = Some (op', code1, seen1)" "ls_busy \<sigma>' = (ls_busy \<sigma>)(t \<mapsto> (op', code', seen'))" "length code' < length code1"
      "ls_guards \<sigma>' = ls_guards \<sigma> \<or> ls_guards \<sigma>' = (ls_guards \<sigma>)(t := Map.empty)"
      by (rule holder_moves [OF less.prems(1) False])
    have hold: "holder_step h conns start \<sigma> \<sigma>'" using s(1) False by (auto simp: holder_step_def)
    have "length code' < length code" "ls_busy \<sigma>' t = Some (op, code', seen')" using s(2-4) less.prems(2) by simp_all
    from less.hyps [OF this(1) lock_step_inv [OF h s(1) less.prems(1)] this(2)] obtain \<sigma>'' where
      "(holder_step h conns start)\<^sup>*\<^sup>* \<sigma>' \<sigma>''" "lock_inv h conns start \<sigma>''"
      "ls_guards \<sigma>'' = (ls_guards \<sigma>')(t := Map.empty)" "\<forall>u. u \<noteq> t \<longrightarrow> ls_busy \<sigma>'' u = ls_busy \<sigma>' u" by blast
    then show ?thesis
      using s(3,5) converse_rtranclp_into_rtranclp [of "holder_step h conns start", OF hold]
      by (intro exI [of _ \<sigma>'']) auto
  qed
qed

lemma holders_release:
  assumes h: "host_ok h" and inv: "lock_inv h conns start \<sigma>"
  shows "\<exists>\<sigma>'. (holder_step h conns start)\<^sup>*\<^sup>* \<sigma> \<sigma>' \<and> lock_inv h conns start \<sigma>' \<and>
    ls_guards \<sigma>' = (\<lambda>t. if t < n then Map.empty else ls_guards \<sigma> t) \<and>
    (\<forall>t. ls_guards \<sigma> t = Map.empty \<longrightarrow> ls_busy \<sigma>' t = ls_busy \<sigma> t)"
proof (induction n)
  case 0
  then show ?case using inv by (intro exI [of _ \<sigma>]) simp
next
  case (Suc n)
  then obtain \<sigma>' where s: "(holder_step h conns start)\<^sup>*\<^sup>* \<sigma> \<sigma>'" "lock_inv h conns start \<sigma>'"
    "ls_guards \<sigma>' = (\<lambda>t. if t < n then Map.empty else ls_guards \<sigma> t)"
    "\<forall>t. ls_guards \<sigma> t = Map.empty \<longrightarrow> ls_busy \<sigma>' t = ls_busy \<sigma> t" by blast
  show ?case
  proof (cases "ls_guards \<sigma> n = Map.empty")
    case True
    then show ?thesis using s by (intro exI [of _ \<sigma>']) (auto simp: fun_eq_iff less_Suc_eq)
  next
    case False
    have "task_ok h conns start \<sigma>' n" using s(2) by (simp add: lock_inv_def)
    then obtain op code seen where "ls_busy \<sigma>' n = Some (op, code, seen)"
      using False s(3) by (cases "ls_busy \<sigma>' n") (auto simp: task_ok_def)
    from holder_releases [OF h s(2) this] obtain \<sigma>'' where
      "(holder_step h conns start)\<^sup>*\<^sup>* \<sigma>' \<sigma>''" "lock_inv h conns start \<sigma>''"
      "ls_guards \<sigma>'' = (ls_guards \<sigma>')(n := Map.empty)" "\<forall>u. u \<noteq> n \<longrightarrow> ls_busy \<sigma>'' u = ls_busy \<sigma>' u" by blast
    moreover from this(3) have "ls_guards \<sigma>'' = (\<lambda>t. if t < Suc n then Map.empty else ls_guards \<sigma> t)"
      using s(3) by (auto simp: fun_eq_iff less_Suc_eq)
    moreover from calculation(4) s(4) False have "\<forall>t. ls_guards \<sigma> t = Map.empty \<longrightarrow> ls_busy \<sigma>'' t = ls_busy \<sigma> t"
      by metis
    ultimately show ?thesis using rtranclp_trans [OF s(1)] by blast
  qed
qed

lemma guards_of_tasks:
  assumes "lock_inv h conns start \<sigma>" "\<not> t < length conns"
  shows "ls_guards \<sigma> t = Map.empty" "ls_busy \<sigma> t = None"
proof -
  have "task_ok h conns start \<sigma> t" using assms(1) by (simp add: lock_inv_def)
  with assms(2) show "ls_guards \<sigma> t = Map.empty" "ls_busy \<sigma> t = None"
    by (auto simp: task_ok_def split: option.splits)
qed

lemma all_release:
  assumes "host_ok h" "lock_inv h conns start \<sigma>"
  obtains \<sigma>' where "(holder_step h conns start)\<^sup>*\<^sup>* \<sigma> \<sigma>'" "lock_inv h conns start \<sigma>'" "ls_guards \<sigma>' = (\<lambda>_. Map.empty)"
    "\<And>t. ls_guards \<sigma> t = Map.empty \<Longrightarrow> ls_busy \<sigma>' t = ls_busy \<sigma> t"
proof -
  from holders_release [OF assms, of "length conns"] obtain \<sigma>' where s: "(holder_step h conns start)\<^sup>*\<^sup>* \<sigma> \<sigma>'"
    "lock_inv h conns start \<sigma>'" "ls_guards \<sigma>' = (\<lambda>t. if t < length conns then Map.empty else ls_guards \<sigma> t)"
    "\<forall>t. ls_guards \<sigma> t = Map.empty \<longrightarrow> ls_busy \<sigma>' t = ls_busy \<sigma> t" by blast
  then have "ls_guards \<sigma>' = (\<lambda>_. Map.empty)" using guards_of_tasks(1) [OF assms(2)] by (auto simp: fun_eq_iff)
  with s that show ?thesis by blast
qed

section \<open>Running on\<close>

lemma holder_steps: "(holder_step h conns start)\<^sup>*\<^sup>* \<sigma> \<sigma>' \<Longrightarrow> (some_step h conns start)\<^sup>*\<^sup>* \<sigma> \<sigma>'"
  by (induction rule: rtranclp_induct) (auto simp: holder_step_def some_step_def intro: rtranclp.rtrancl_into_rtrancl)

lemma step_on:
  "lock_step h conns start t \<sigma> \<sigma>' \<Longrightarrow> (some_step h conns start)\<^sup>*\<^sup>* \<sigma>' \<sigma>'' \<Longrightarrow> (some_step h conns start)\<^sup>*\<^sup>* \<sigma> \<sigma>''"
  by (rule converse_rtranclp_into_rtranclp) (auto simp: some_step_def)

lemma step_to: "lock_step h conns start t \<sigma> \<sigma>1 \<Longrightarrow> \<sigma>1 = \<sigma>2 \<Longrightarrow> lock_step h conns start t \<sigma> \<sigma>2"
  by simp

text \<open>With no guard out, a task at the start of a method runs through it at once.\<close>

lemma method_runs:
  assumes b: "ls_busy \<sigma> t = Some (op, access_steps op, seen)" and g: "ls_guards \<sigma> = (\<lambda>_. Map.empty)"
  shows "\<exists>\<sigma>'. (some_step h conns start)\<^sup>*\<^sup>* \<sigma> \<sigma>' \<and> ls_guards \<sigma>' = (\<lambda>_. Map.empty) \<and> ls_busy \<sigma>' = (ls_busy \<sigma>)(t := None) \<and>
    ls_history \<sigma>' = ls_history \<sigma> @ [(t, op, ls_ctx \<sigma>)]"
proof (cases "changing op")
  case True
  let ?l = "touches op" and ?step = "lock_step h conns start t"
  let ?busy = "\<lambda>code seen. (ls_busy \<sigma>)(t \<mapsto> (op, code, seen))" and ?held = "(\<lambda>_. Map.empty)(t := [touches op \<mapsto> WriteGuard])"
  let ?found = "with_part ?l (ls_ctx \<sigma>) (ls_ctx \<sigma>)"
  let ?after = "with_part ?l (perform h op ?found) (ls_ctx \<sigma>)" and ?history = "ls_history \<sigma> @ [(t, op, ls_ctx \<sigma>)]"
  let ?s1 = "\<sigma>\<lparr>ls_busy := ?busy [Load, Store, Release ?l] seen, ls_guards := ?held\<rparr>"
  let ?s2 = "\<sigma>\<lparr>ls_busy := ?busy [Store, Release ?l] (Some (ls_ctx \<sigma>)), ls_guards := ?held\<rparr>"
  let ?s3 = "\<sigma>\<lparr>ls_ctx := ?after, ls_history := ?history, ls_busy := ?busy [Release ?l] (Some (ls_ctx \<sigma>)), ls_guards := ?held\<rparr>"
  let ?s4 = "\<sigma>\<lparr>ls_ctx := ?after, ls_history := ?history, ls_busy := ?busy [] (Some (ls_ctx \<sigma>)), ls_guards := \<lambda>_. Map.empty\<rparr>"
  let ?s5 = "\<sigma>\<lparr>ls_ctx := ?after, ls_history := ?history, ls_busy := (ls_busy \<sigma>)(t := None), ls_guards := \<lambda>_. Map.empty\<rparr>"
  have b: "ls_busy \<sigma> t = Some (op, Acquire ?l WriteGuard # [Load, Store, Release ?l], seen)" using b True by (simp add: access_steps_eq)
  have s1: "?step \<sigma> ?s1" by (rule step_to [OF lock_step.acquire [OF b]], simp add: g grantable_def, rule lock_state.equality) (simp_all add: g)
  have s2: "?step ?s1 ?s2" by (rule step_to [OF lock_step.load], simp, rule lock_state.equality) simp_all
  have s3: "?step ?s2 ?s3" by (rule step_to [OF lock_step.store], simp, rule refl, rule lock_state.equality) (simp_all del: perform.simps)
  have s4: "?step ?s3 ?s4" by (rule step_to [OF lock_step.release], simp, rule lock_state.equality) (simp_all add: fun_eq_iff)
  have s5: "?step ?s4 ?s5" by (rule step_to [OF lock_step.return], simp, rule lock_state.equality) simp_all
  have "(some_step h conns start)\<^sup>*\<^sup>* \<sigma> ?s5"
    by (rule step_on [OF s1 step_on [OF s2 step_on [OF s3 step_on [OF s4 step_on [OF s5 rtranclp.rtrancl_refl]]]]])
  then show ?thesis by (intro exI [of _ ?s5]) simp
next
  case False
  let ?l = "touches op" and ?step = "lock_step h conns start t"
  let ?busy = "\<lambda>code. (ls_busy \<sigma>)(t \<mapsto> (op, code, seen))" and ?held = "(\<lambda>_. Map.empty)(t := [touches op \<mapsto> ReadGuard])"
  let ?history = "ls_history \<sigma> @ [(t, op, ls_ctx \<sigma>)]"
  let ?s1 = "\<sigma>\<lparr>ls_busy := ?busy [Observe, Release ?l], ls_guards := ?held\<rparr>"
  let ?s2 = "\<sigma>\<lparr>ls_history := ?history, ls_busy := ?busy [Release ?l], ls_guards := ?held\<rparr>"
  let ?s3 = "\<sigma>\<lparr>ls_history := ?history, ls_busy := ?busy [], ls_guards := \<lambda>_. Map.empty\<rparr>"
  let ?s4 = "\<sigma>\<lparr>ls_history := ?history, ls_busy := (ls_busy \<sigma>)(t := None), ls_guards := \<lambda>_. Map.empty\<rparr>"
  have b: "ls_busy \<sigma> t = Some (op, Acquire ?l ReadGuard # [Observe, Release ?l], seen)" using b False by (simp add: access_steps_eq)
  have s1: "?step \<sigma> ?s1" by (rule step_to [OF lock_step.acquire [OF b]], simp add: g grantable_def, rule lock_state.equality) (simp_all add: g)
  have s2: "?step ?s1 ?s2" by (rule step_to [OF lock_step.observe], simp, rule lock_state.equality) simp_all
  have s3: "?step ?s2 ?s3" by (rule step_to [OF lock_step.release], simp, rule lock_state.equality) (simp_all add: fun_eq_iff)
  have s4: "?step ?s3 ?s4" by (rule step_to [OF lock_step.return], simp, rule lock_state.equality) simp_all
  have "(some_step h conns start)\<^sup>*\<^sup>* \<sigma> ?s4"
    by (rule step_on [OF s1 step_on [OF s2 step_on [OF s3 step_on [OF s4 rtranclp.rtrancl_refl]]]])
  then show ?thesis by (intro exI [of _ ?s4]) simp
qed

text \<open>All methods that have been entered can be finished, and then any further accesses of the tasks can be made.\<close>

definition at_rest :: "'a lock_state \<Rightarrow> bool" where
  "at_rest \<sigma> \<longleftrightarrow> ls_guards \<sigma> = (\<lambda>_. Map.empty) \<and> (\<forall>t. ls_busy \<sigma> t = None)"

lemma method_finishes:
  assumes inv: "lock_inv h conns start \<sigma>" and g: "ls_guards \<sigma> = (\<lambda>_. Map.empty)" and b: "ls_busy \<sigma> t = Some (op, code, seen)"
  shows "\<exists>\<sigma>'. (some_step h conns start)\<^sup>*\<^sup>* \<sigma> \<sigma>' \<and> ls_guards \<sigma>' = (\<lambda>_. Map.empty) \<and> ls_busy \<sigma>' = (ls_busy \<sigma>)(t := None)"
proof -
  have "task_ok h conns start \<sigma> t" using inv by (simp add: lock_inv_def)
  with b g consider "code = []" | "code = access_steps op"
    by (auto simp: task_ok_def dest: fun_cong [of _ _ "touches op"])
  then show ?thesis
  proof cases
    case 1
    have "some_step h conns start \<sigma> (\<sigma>\<lparr>ls_busy := (ls_busy \<sigma>)(t := None)\<rparr>)"
      using lock_step.return [OF b [unfolded 1], of h conns start] by (auto simp: some_step_def)
    then show ?thesis using g by (intro exI [of _ "\<sigma>\<lparr>ls_busy := (ls_busy \<sigma>)(t := None)\<rparr>"]) auto
  next
    case 2
    from method_runs [OF b [unfolded 2] g] show ?thesis by blast
  qed
qed

lemma methods_finish:
  assumes h: "host_ok h" and inv: "lock_inv h conns start \<sigma>" and g: "ls_guards \<sigma> = (\<lambda>_. Map.empty)"
  shows "\<exists>\<sigma>'. (some_step h conns start)\<^sup>*\<^sup>* \<sigma> \<sigma>' \<and> ls_guards \<sigma>' = (\<lambda>_. Map.empty) \<and> (\<forall>t < n. ls_busy \<sigma>' t = None)"
proof (induction n)
  case 0
  then show ?case using g by (intro exI [of _ \<sigma>]) simp
next
  case (Suc n)
  then obtain \<sigma>' where s: "(some_step h conns start)\<^sup>*\<^sup>* \<sigma> \<sigma>'" "ls_guards \<sigma>' = (\<lambda>_. Map.empty)" "\<forall>t < n. ls_busy \<sigma>' t = None" by blast
  show ?case
  proof (cases "ls_busy \<sigma>' n")
    case None
    then show ?thesis using s by (intro exI [of _ \<sigma>']) (auto simp: less_Suc_eq)
  next
    case (Some entry)
    obtain op code seen where "entry = (op, code, seen)" by (cases entry)
    from method_finishes [OF some_steps_inv [OF h s(1) inv] s(2) Some [unfolded this]] obtain \<sigma>'' where
      f: "(some_step h conns start)\<^sup>*\<^sup>* \<sigma>' \<sigma>''" "ls_guards \<sigma>'' = (\<lambda>_. Map.empty)" "ls_busy \<sigma>'' = (ls_busy \<sigma>')(n := None)" by blast
    have "(some_step h conns start)\<^sup>*\<^sup>* \<sigma> \<sigma>''" by (rule rtranclp_trans [OF s(1) f(1)])
    then show ?thesis using s(3) f(2,3) by (intro exI [of _ \<sigma>'']) (auto simp: less_Suc_eq)
  qed
qed

lemma comes_to_rest:
  assumes h: "host_ok h" and inv: "lock_inv h conns start \<sigma>"
  obtains \<sigma>' where "(some_step h conns start)\<^sup>*\<^sup>* \<sigma> \<sigma>'" "lock_inv h conns start \<sigma>'" "at_rest \<sigma>'"
proof -
  obtain \<sigma>1 where r: "(holder_step h conns start)\<^sup>*\<^sup>* \<sigma> \<sigma>1" "lock_inv h conns start \<sigma>1" "ls_guards \<sigma>1 = (\<lambda>_. Map.empty)"
    using all_release [OF h inv] by metis
  from methods_finish [OF h r(2,3), of "length conns"] obtain \<sigma>2 where
    f: "(some_step h conns start)\<^sup>*\<^sup>* \<sigma>1 \<sigma>2" "ls_guards \<sigma>2 = (\<lambda>_. Map.empty)" "\<forall>t < length conns. ls_busy \<sigma>2 t = None" by blast
  have inv2: "lock_inv h conns start \<sigma>2" by (rule some_steps_inv [OF h f(1) r(2)])
  have "ls_busy \<sigma>2 t = None" for t
    by (cases "t < length conns") (use f(3) guards_of_tasks(2) [OF inv2] in simp_all)
  then have "at_rest \<sigma>2" using f(2) by (simp add: at_rest_def)
  with that [OF rtranclp_trans [OF holder_steps [OF r(1)] f(1)] inv2] show ?thesis by blast
qed

lemma accesses_follow:
  assumes h: "host_ok h" and "lock_inv h conns start \<sigma>" "at_rest \<sigma>" "scheduled h conns start (ls_history \<sigma> @ later) ctx"
  shows "\<exists>\<sigma>'. (some_step h conns start)\<^sup>*\<^sup>* \<sigma> \<sigma>' \<and> at_rest \<sigma>' \<and> ls_history \<sigma>' = ls_history \<sigma> @ later"
  using assms(2-)
proof (induction later arbitrary: \<sigma>)
  case Nil
  then show ?case by (intro exI [of _ \<sigma>]) simp
next
  case (Cons e later)
  obtain t op found where e: "e = (t, op, found)" by (cases e)
  have "executes h start (map snd (ls_history \<sigma>) @ (op, found) # map snd later) ctx"
    "executes h start (map snd (ls_history \<sigma>)) (ls_ctx \<sigma>)"
    using Cons.prems(1,3) by (simp_all add: lock_inv_def scheduled_def e del: executes.simps)
  then have found: "found = ls_ctx \<sigma>" by (auto simp: executes_append dest: executes_unique)
  have "t < length conns" using Cons.prems(3) by (simp add: scheduled_def e)
  then obtain others r s' where run: "run h (task_new (conns ! t) start others) = Some (r, s')"
    "prefix (part_of t (ls_history \<sigma> @ e # later)) (ctx_log s')" using Cons.prems(3) by (auto simp: scheduled_def)
  have "part_of t (ls_history \<sigma> @ e # later) = (part_of t (ls_history \<sigma>) @ [(op, found)]) @ part_of t later"
    by (simp add: part_of_def e)
  with run(2) have "prefix (part_of t (ls_history \<sigma>) @ [(op, found)]) (ctx_log s')" by (metis append_prefixD)
  with run(1) \<open>t < length conns\<close> have nxt: "next_access h conns start (ls_history \<sigma>) t op" unfolding next_access_def by blast
  let ?s = "\<sigma>\<lparr>ls_busy := (ls_busy \<sigma>)(t \<mapsto> (op, access_steps op, None))\<rparr>"
  have idle: "ls_busy \<sigma> t = None" "ls_guards ?s = (\<lambda>_. Map.empty)" "ls_busy ?s t = Some (op, access_steps op, None)"
    using Cons.prems(2) by (simp_all add: at_rest_def)
  from method_runs [OF idle(3,2), of h conns start] obtain \<sigma>1 where m: "(some_step h conns start)\<^sup>*\<^sup>* ?s \<sigma>1"
    "ls_guards \<sigma>1 = (\<lambda>_. Map.empty)" "ls_busy \<sigma>1 = (ls_busy ?s)(t := None)" "ls_history \<sigma>1 = ls_history ?s @ [(t, op, ls_ctx ?s)]"
    by blast
  then have r: "(some_step h conns start)\<^sup>*\<^sup>* ?s \<sigma>1" "ls_guards \<sigma>1 = (\<lambda>_. Map.empty)"
    "ls_busy \<sigma>1 = (ls_busy ?s)(t := None)" "ls_history \<sigma>1 = ls_history \<sigma> @ [e]" by (simp_all add: e found)
  have s1: "(some_step h conns start)\<^sup>*\<^sup>* \<sigma> \<sigma>1" by (rule step_on [OF lock_step.call [OF idle(1) nxt] r(1)])
  have "at_rest \<sigma>1" using Cons.prems(2) r(2,3) by (simp add: at_rest_def)
  with Cons.IH [OF some_steps_inv [OF h s1 Cons.prems(1)]] Cons.prems(3) r(4) obtain \<sigma>' where
    "(some_step h conns start)\<^sup>*\<^sup>* \<sigma>1 \<sigma>'" "at_rest \<sigma>'" "ls_history \<sigma>' = ls_history \<sigma> @ e # later" by auto
  then show ?case using rtranclp_trans [OF s1] by blast
qed

section \<open>Properties\<close>

text \<open>
  C4: the locks neither lose an update nor keep anybody waiting. Take the server apart to the steps of its guards, and
  let the tasks run in parallel under the rules of an \<open>RwLock\<close>. Whatever point they reach: (1) what has happened is a run
  of the server in which every access was one atomic step; (2) the tasks that hold guards can drop them all by steps of their own,
  in which none waits for a lock or for its client, and then every task that waits for a lock can have it, so
  none waits for ever, whatever the other clients do; (3) all methods can be finished and all connections brought to their
  ends, or to where their sockets suspend them.
\<close>

theorem locks_serialise:
  assumes "deflates (h_deflate h) R deflate" "reserves (h_reserve h)"
    and "(some_step h conns start)\<^sup>*\<^sup>* (lock_start start) \<sigma>"
  shows "scheduled h conns start (ls_history \<sigma>) (ls_ctx \<sigma>) \<and>
    (\<exists>\<sigma>'. (holder_step h conns start)\<^sup>*\<^sup>* \<sigma> \<sigma>' \<and> ls_guards \<sigma>' = (\<lambda>_. Map.empty) \<and>
      (\<forall>t op l mode code seen. ls_busy \<sigma> t = Some (op, Acquire l mode # code, seen) \<longrightarrow>
        (\<exists>\<sigma>''. ls_busy \<sigma>' t = ls_busy \<sigma> t \<and> lock_step h conns start t \<sigma>' \<sigma>''))) \<and>
    (\<exists>\<sigma>'. (some_step h conns start)\<^sup>*\<^sup>* \<sigma> \<sigma>' \<and> at_rest \<sigma>' \<and> settled h conns start (ls_history \<sigma>'))"
proof (intro conjI)
  have h: "host_ok h" using assms(1,2) by (auto simp: host_ok_def)
  have inv: "lock_inv h conns start \<sigma>" by (rule some_steps_inv [OF h assms(3) lock_inv_start [OF h]])
  then show sched: "scheduled h conns start (ls_history \<sigma>) (ls_ctx \<sigma>)" by (simp add: lock_inv_def)
  obtain \<sigma>' where r: "(holder_step h conns start)\<^sup>*\<^sup>* \<sigma> \<sigma>'" "ls_guards \<sigma>' = (\<lambda>_. Map.empty)"
    "\<And>t. ls_guards \<sigma> t = Map.empty \<Longrightarrow> ls_busy \<sigma>' t = ls_busy \<sigma> t" using all_release [OF h inv] by metis
  have "\<exists>\<sigma>''. ls_busy \<sigma>' t = ls_busy \<sigma> t \<and> lock_step h conns start t \<sigma>' \<sigma>''"
    if "ls_busy \<sigma> t = Some (op, Acquire l mode # code, seen)" for t op l mode code seen
  proof -
    have "task_ok h conns start \<sigma> t" using inv by (simp add: lock_inv_def)
    with that have "ls_guards \<sigma> t = Map.empty" by (auto simp: task_ok_def)
    from r(3) [OF this] have same: "ls_busy \<sigma>' t = ls_busy \<sigma> t" .
    then have "ls_busy \<sigma>' t = Some (op, Acquire l mode # code, seen)" using that by simp
    moreover have "grantable mode l (ls_guards \<sigma>')" by (simp add: r(2) grantable_def)
    ultimately show ?thesis using lock_step.acquire [of \<sigma>' t op l mode code seen h conns start] same by blast
  qed
  with r show "\<exists>\<sigma>'. (holder_step h conns start)\<^sup>*\<^sup>* \<sigma> \<sigma>' \<and> ls_guards \<sigma>' = (\<lambda>_. Map.empty) \<and>
      (\<forall>t op l mode code seen. ls_busy \<sigma> t = Some (op, Acquire l mode # code, seen) \<longrightarrow>
        (\<exists>\<sigma>''. ls_busy \<sigma>' t = ls_busy \<sigma> t \<and> lock_step h conns start t \<sigma>' \<sigma>''))" by blast
  obtain \<sigma>1 where s: "(some_step h conns start)\<^sup>*\<^sup>* \<sigma> \<sigma>1" "lock_inv h conns start \<sigma>1" "at_rest \<sigma>1"
    by (rule comes_to_rest [OF h inv])
  then have "scheduled h conns start (ls_history \<sigma>1) (ls_ctx \<sigma>1)" by (simp add: lock_inv_def)
  from scheduled_finish_all [OF h this order.refl] obtain later ctx where
    l: "scheduled h conns start (ls_history \<sigma>1 @ later) ctx" "settled h conns start (ls_history \<sigma>1 @ later)"
    by (auto simp: settled_def)
  from accesses_follow [OF h s(2,3) l(1)] l(2) show "\<exists>\<sigma>'. (some_step h conns start)\<^sup>*\<^sup>* \<sigma> \<sigma>' \<and> at_rest \<sigma>' \<and> settled h conns start (ls_history \<sigma>')"
    using rtranclp_trans [OF s(1)] by metis
qed

section \<open>Witness\<close>

text \<open>Two clients with the same name: the first has the write guard of the registry, the second waits for it.\<close>

lemma sample_next:
  assumes "t = 0 \<or> t = 1"
  shows "next_access (sample_host config_default) sample_conns (registry_new, sample_cache) [] t (TryInsert sample_info)"
proof -
  have "t < length sample_conns" using assms by (auto simp: sample_conns_def)
  moreover from this obtain others r s' where
    "run (sample_host config_default) (task_new (sample_conns ! t) (registry_new, sample_cache) others) = Some (r, s')"
    "prefix (part_of t sample_history) (ctx_log s')" using sample_scheduled(1) by (auto simp: scheduled_def)
  moreover have "\<exists>found. part_of t sample_history = [(TryInsert sample_info, found)]"
    using assms by (auto simp: part_of_def sample_history_def)
  ultimately show ?thesis unfolding next_access_def part_of_simps append_Nil by metis
qed

definition sample_contended :: "unit lock_state" where
  "sample_contended = \<lparr>ls_ctx = (registry_new, sample_cache), ls_history = [],
     ls_busy = [0 \<mapsto> (TryInsert sample_info, [Load, Store, Release PlayersLock], None),
       1 \<mapsto> (TryInsert sample_info, try_insert_steps, None)],
     ls_guards = (\<lambda>_. Map.empty)(0 := [PlayersLock \<mapsto> WriteGuard])\<rparr>"

lemma sample_contended_reached:
  "(some_step (sample_host config_default) sample_conns (registry_new, sample_cache))\<^sup>*\<^sup>*
     (lock_start (registry_new, sample_cache)) sample_contended"
proof -
  let ?start = "(registry_new, sample_cache)" let ?step = "lock_step (sample_host config_default) sample_conns (registry_new, sample_cache)"
  let ?s0 = "lock_start (registry_new, sample_cache)" let ?op = "TryInsert sample_info"
  let ?s1 = "?s0\<lparr>ls_busy := [0 \<mapsto> (?op, try_insert_steps, None)]\<rparr>"
  let ?s2 = "?s0\<lparr>ls_busy := [0 \<mapsto> (?op, try_insert_steps, None), 1 \<mapsto> (?op, try_insert_steps, None)]\<rparr>"
  have s1: "?step 0 ?s0 ?s1"
    by (rule step_to [OF lock_step.call [where op = ?op]]) (simp_all add: lock_start_def sample_next)
  have s2: "?step 1 ?s1 ?s2"
    by (rule step_to [OF lock_step.call [where op = ?op]]) (simp_all add: lock_start_def sample_next)
  have s3: "?step 0 ?s2 sample_contended"
    by (rule step_to [OF lock_step.acquire [where op = ?op and l = PlayersLock and mode = WriteGuard
          and code = "[Load, Store, Release PlayersLock]" and seen = None]], simp add: try_insert_steps_def,
        simp add: grantable_def lock_start_def, rule lock_state.equality)
      (simp_all add: sample_contended_def lock_start_def fun_eq_iff)
  show ?thesis by (rule step_on [OF s1 step_on [OF s2 step_on [OF s3 rtranclp.rtrancl_refl]]])
qed

lemma locks_serialise_witness:
  "\<exists>\<sigma>' \<sigma>''. (holder_step (sample_host config_default) sample_conns (registry_new, sample_cache))\<^sup>*\<^sup>* sample_contended \<sigma>' \<and>
     lock_step (sample_host config_default) sample_conns (registry_new, sample_cache) 1 \<sigma>' \<sigma>''"
proof -
  have "ls_busy sample_contended 1 = Some (TryInsert sample_info, Acquire PlayersLock WriteGuard # [Load, Store, Release PlayersLock], None)"
    by (simp add: sample_contended_def try_insert_steps_def)
  with locks_serialise [OF sample_host_ok(1,2) sample_contended_reached] show ?thesis by blast
qed

end
