(* ===== verification/Packets_Play.thy ===== *)
theory Packets_Play
  imports Packets Text Positions
begin

text \<open>
  \<open>crates/rukkit-protocol/src/packets/play.rs\<close>: the packets of the play state, clientbound and
  serverbound. Floating-point fields are carried as their IEEE bit patterns, which the sources neither
  compute with nor compare here.
\<close>

section \<open>Clientbound\<close>

definition MAX_COMMAND_LEN :: usize where "MAX_COMMAND_LEN = 256"
definition MAX_DIMENSIONS :: usize where "MAX_DIMENSIONS = 1024"

record play_login =
  pl_entity_id :: i32
  pl_hardcore :: bool
  pl_dimension_names :: "rstring list"
  pl_max_players :: i32
  pl_view_distance :: i32
  pl_simulation_distance :: i32
  pl_reduced_debug_info :: bool
  pl_enable_respawn_screen :: bool
  pl_do_limited_crafting :: bool
  pl_dimension_type :: i32
  pl_dimension_name :: rstring
  pl_hashed_seed :: i64
  pl_game_mode :: game_mode
  pl_previous_game_mode :: i8
  pl_is_debug :: bool
  pl_is_flat :: bool
  pl_death_location :: "(rstring \<times> block_pos) option"
  pl_portal_cooldown :: i32
  pl_sea_level :: i32
  pl_enforces_secure_chat :: bool

definition death_location_encode :: "(rstring \<times> block_pos) option \<Rightarrow> bytes" where
  "death_location_encode v = (case v of
      Some (dimension, pos) \<Rightarrow> write_bool True @ write_identifier dimension @ write_position pos
    | None \<Rightarrow> write_bool False)"

definition play_login_encode :: "play_login \<Rightarrow> bytes" where
  "play_login_encode p =
     write_i32 (pl_entity_id p) @ write_bool (pl_hardcore p) @
     write_varint (word_of_nat (length (pl_dimension_names p))) @
     concat (map write_identifier (pl_dimension_names p)) @
     write_varint (pl_max_players p) @ write_varint (pl_view_distance p) @
     write_varint (pl_simulation_distance p) @ write_bool (pl_reduced_debug_info p) @
     write_bool (pl_enable_respawn_screen p) @ write_bool (pl_do_limited_crafting p) @
     write_varint (pl_dimension_type p) @ write_identifier (pl_dimension_name p) @
     write_i64 (pl_hashed_seed p) @ write_u8 (game_mode_id (pl_game_mode p)) @
     write_i8 (pl_previous_game_mode p) @ write_bool (pl_is_debug p) @ write_bool (pl_is_flat p) @
     death_location_encode (pl_death_location p) @
     write_varint (pl_portal_cooldown p) @ write_varint (pl_sea_level p) @
     write_bool (pl_enforces_secure_chat p)"

definition play_login_decode :: "play_login reader" where
  "play_login_decode =
     rbind read_i32 (\<lambda>entity_id.
     rbind read_bool (\<lambda>hardcore.
     rbind (read_array MAX_DIMENSIONS read_identifier) (\<lambda>dimension_names.
     rbind rd_varint (\<lambda>max_players.
     rbind rd_varint (\<lambda>view_distance.
     rbind rd_varint (\<lambda>simulation_distance.
     rbind read_bool (\<lambda>reduced_debug_info.
     rbind read_bool (\<lambda>enable_respawn_screen.
     rbind read_bool (\<lambda>do_limited_crafting.
     rbind rd_varint (\<lambda>dimension_type.
     rbind read_identifier (\<lambda>dimension_name.
     rbind read_i64 (\<lambda>hashed_seed.
     rbind read_u8 (\<lambda>mode.
     rbind (rlift (game_mode_from_id (ucast mode))) (\<lambda>game_mode.
     rbind read_i8 (\<lambda>previous_game_mode.
     rbind read_bool (\<lambda>is_debug.
     rbind read_bool (\<lambda>is_flat.
     rbind (read_option (rbind read_identifier (\<lambda>dimension. rbind read_position (\<lambda>pos.
       rreturn (dimension, pos))))) (\<lambda>death_location.
     rbind rd_varint (\<lambda>portal_cooldown.
     rbind rd_varint (\<lambda>sea_level.
     rbind read_bool (\<lambda>enforces_secure_chat.
     rreturn \<lparr>pl_entity_id = entity_id, pl_hardcore = hardcore, pl_dimension_names = dimension_names,
       pl_max_players = max_players, pl_view_distance = view_distance,
       pl_simulation_distance = simulation_distance, pl_reduced_debug_info = reduced_debug_info,
       pl_enable_respawn_screen = enable_respawn_screen, pl_do_limited_crafting = do_limited_crafting,
       pl_dimension_type = dimension_type, pl_dimension_name = dimension_name,
       pl_hashed_seed = hashed_seed, pl_game_mode = game_mode,
       pl_previous_game_mode = previous_game_mode, pl_is_debug = is_debug, pl_is_flat = is_flat,
       pl_death_location = death_location, pl_portal_cooldown = portal_cooldown,
       pl_sea_level = sea_level, pl_enforces_secure_chat = enforces_secure_chat\<rparr>)))))))))))))))))))))"

record play_keep_alive =
  pk_id :: i64

definition play_keep_alive_encode :: "play_keep_alive \<Rightarrow> bytes" where
  "play_keep_alive_encode p = write_i64 (pk_id p)"

definition play_keep_alive_decode :: "play_keep_alive reader" where
  "play_keep_alive_decode = rbind read_i64 (\<lambda>n. rreturn \<lparr>pk_id = n\<rparr>)"

record play_disconnect =
  pd_reason :: component

definition play_disconnect_encode :: "play_disconnect \<Rightarrow> bytes" where
  "play_disconnect_encode p = write_network (to_nbt (pd_reason p))"

record system_chat =
  sch_content :: component
  sch_overlay :: bool

definition system_chat_encode :: "system_chat \<Rightarrow> bytes" where
  "system_chat_encode p = write_network (to_nbt (sch_content p)) @ write_bool (sch_overlay p)"

record set_chunk_cache_center =
  scc_chunk_x :: i32
  scc_chunk_z :: i32

definition set_chunk_cache_center_encode :: "set_chunk_cache_center \<Rightarrow> bytes" where
  "set_chunk_cache_center_encode p = write_varint (scc_chunk_x p) @ write_varint (scc_chunk_z p)"

record set_default_spawn_position =
  sds_position :: block_pos
  sds_angle :: u32

definition set_default_spawn_position_encode :: "set_default_spawn_position \<Rightarrow> bytes" where
  "set_default_spawn_position_encode p = write_position (sds_position p) @ write_f32 (sds_angle p)"

record game_event =
  ge_event :: u8
  ge_value :: u32

definition START_WAITING_FOR_CHUNKS :: u8 where "START_WAITING_FOR_CHUNKS = 13"
definition CHANGE_GAME_MODE :: u8 where "CHANGE_GAME_MODE = 3"

text \<open>The bit pattern of \<open>0.0\<close> is zero.\<close>

definition start_waiting_for_chunks :: game_event where
  "start_waiting_for_chunks = \<lparr>ge_event = START_WAITING_FOR_CHUNKS, ge_value = 0\<rparr>"

definition game_event_encode :: "game_event \<Rightarrow> bytes" where
  "game_event_encode p = write_u8 (ge_event p) @ write_f32 (ge_value p)"

record player_position =
  ppos_teleport_id :: i32
  ppos_x :: u64
  ppos_y :: u64
  ppos_z :: u64
  ppos_velocity_x :: u64
  ppos_velocity_y :: u64
  ppos_velocity_z :: u64
  ppos_yaw :: u32
  ppos_pitch :: u32
  ppos_flags :: i32

definition player_position_absolute ::
  "i32 \<Rightarrow> u64 \<Rightarrow> u64 \<Rightarrow> u64 \<Rightarrow> u32 \<Rightarrow> u32 \<Rightarrow> player_position" where
  "player_position_absolute teleport_id x y z yaw pitch =
     \<lparr>ppos_teleport_id = teleport_id, ppos_x = x, ppos_y = y, ppos_z = z, ppos_velocity_x = 0,
      ppos_velocity_y = 0, ppos_velocity_z = 0, ppos_yaw = yaw, ppos_pitch = pitch, ppos_flags = 0\<rparr>"

definition player_position_encode :: "player_position \<Rightarrow> bytes" where
  "player_position_encode p =
     write_varint (ppos_teleport_id p) @ write_f64 (ppos_x p) @ write_f64 (ppos_y p) @
     write_f64 (ppos_z p) @ write_f64 (ppos_velocity_x p) @ write_f64 (ppos_velocity_y p) @
     write_f64 (ppos_velocity_z p) @ write_f32 (ppos_yaw p) @ write_f32 (ppos_pitch p) @
     write_i32 (ppos_flags p)"

record chunk_data =
  cd_chunk_x :: i32
  cd_chunk_z :: i32
  cd_payload :: bytes

definition chunk_data_encode :: "chunk_data \<Rightarrow> bytes" where
  "chunk_data_encode p = write_i32 (cd_chunk_x p) @ write_i32 (cd_chunk_z p) @ write_bytes (cd_payload p)"

section \<open>Serverbound\<close>

record accept_teleportation =
  at_teleport_id :: i32

definition accept_teleportation_decode :: "accept_teleportation reader" where
  "accept_teleportation_decode = rbind rd_varint (\<lambda>teleport_id. rreturn \<lparr>at_teleport_id = teleport_id\<rparr>)"

datatype move_flags = MoveFlags u8

fun on_ground :: "move_flags \<Rightarrow> bool" where
  "on_ground (MoveFlags b) \<longleftrightarrow> b AND 0x01 \<noteq> 0"

fun horizontal_collision :: "move_flags \<Rightarrow> bool" where
  "horizontal_collision (MoveFlags b) \<longleftrightarrow> b AND 0x02 \<noteq> 0"

record move_player_pos =
  mpp_x :: u64
  mpp_y :: u64
  mpp_z :: u64
  mpp_flags :: move_flags

definition move_player_pos_decode :: "move_player_pos reader" where
  "move_player_pos_decode =
     rbind read_f64 (\<lambda>x. rbind read_f64 (\<lambda>y. rbind read_f64 (\<lambda>z. rbind read_u8 (\<lambda>b.
     rreturn \<lparr>mpp_x = x, mpp_y = y, mpp_z = z, mpp_flags = MoveFlags b\<rparr>))))"

record move_player_pos_rot =
  mpr_x :: u64
  mpr_y :: u64
  mpr_z :: u64
  mpr_yaw :: u32
  mpr_pitch :: u32
  mpr_flags :: move_flags

definition move_player_pos_rot_decode :: "move_player_pos_rot reader" where
  "move_player_pos_rot_decode =
     rbind read_f64 (\<lambda>x. rbind read_f64 (\<lambda>y. rbind read_f64 (\<lambda>z.
     rbind read_f32 (\<lambda>yaw. rbind read_f32 (\<lambda>pitch. rbind read_u8 (\<lambda>b.
     rreturn \<lparr>mpr_x = x, mpr_y = y, mpr_z = z, mpr_yaw = yaw, mpr_pitch = pitch,
       mpr_flags = MoveFlags b\<rparr>))))))"

record move_player_rot =
  mro_yaw :: u32
  mro_pitch :: u32
  mro_flags :: move_flags

definition move_player_rot_decode :: "move_player_rot reader" where
  "move_player_rot_decode =
     rbind read_f32 (\<lambda>yaw. rbind read_f32 (\<lambda>pitch. rbind read_u8 (\<lambda>b.
     rreturn \<lparr>mro_yaw = yaw, mro_pitch = pitch, mro_flags = MoveFlags b\<rparr>)))"

record move_player_status_only =
  mso_flags :: move_flags

definition move_player_status_only_decode :: "move_player_status_only reader" where
  "move_player_status_only_decode = rbind read_u8 (\<lambda>b. rreturn \<lparr>mso_flags = MoveFlags b\<rparr>)"

record chat_command =
  cc_command :: rstring

definition chat_command_decode :: "chat_command reader" where
  "chat_command_decode = rbind (read_string MAX_COMMAND_LEN) (\<lambda>command. rreturn \<lparr>cc_command = command\<rparr>)"

definition client_tick_end_decode :: "unit reader" where
  "client_tick_end_decode = rreturn ()"

section \<open>Round trips\<close>

lemma game_mode_read_back: "game_mode_from_id (ucast (game_mode_id m)) = Inr m"
  by (cases m) (simp_all add: game_mode_from_id_def)

interpretation dimensionsc: codec "write_array write_identifier" "read_array limit read_identifier"
  "\<lambda>items. list_all (string_fits DEFAULT_MAX_STRING_LEN) items \<and> length items \<le> limit \<and> length items < 2 ^ 31"
  for limit
  by (rule identc.array_codec)

definition death_writer :: "rstring \<times> block_pos \<Rightarrow> bytes" where
  "death_writer v = write_identifier (fst v) @ write_position (snd v)"

definition death_reader :: "(rstring \<times> block_pos) reader" where
  "death_reader = rbind read_identifier (\<lambda>dimension. rbind read_position (\<lambda>pos. rreturn (dimension, pos)))"

interpretation deathc: codec death_writer death_reader
  "\<lambda>v. string_fits DEFAULT_MAX_STRING_LEN (fst v) \<and> packable (snd v)"
  by unfold_locales
    (simp add: death_writer_def death_reader_def codec_steps positionc.rt_bind rreturn_apply)

interpretation death_optionc: codec "write_option death_writer" "read_option death_reader"
  "\<lambda>v. case v of None \<Rightarrow> True | Some x \<Rightarrow> string_fits DEFAULT_MAX_STRING_LEN (fst x) \<and> packable (snd x)"
  by (rule deathc.option_codec)

lemma death_location_encode_eq: "death_location_encode v = write_option death_writer v"
  by (auto simp: death_location_encode_def write_option_def death_writer_def split: option.split)

definition play_login_fits :: "play_login \<Rightarrow> bool" where
  "play_login_fits p \<longleftrightarrow> list_all (string_fits DEFAULT_MAX_STRING_LEN) (pl_dimension_names p) \<and>
     length (pl_dimension_names p) \<le> MAX_DIMENSIONS \<and> string_fits DEFAULT_MAX_STRING_LEN (pl_dimension_name p) \<and>
     (case pl_death_location p of None \<Rightarrow> True
      | Some x \<Rightarrow> string_fits DEFAULT_MAX_STRING_LEN (fst x) \<and> packable (snd x))"

lemma names_eq:
  "write_varint (word_of_nat (length items)) @ concat (map write_identifier items) @ ys =
     write_array write_identifier items @ ys"
  by (simp add: write_array_def)

interpretation play_loginc: codec play_login_encode play_login_decode play_login_fits
proof
  fix p :: play_login and xs ys :: bytes
  assume p: "play_login_fits p" and len: "length xs + length (play_login_encode p) + length ys < 2 ^ 64"
  have l: "length (pl_dimension_names p) < 2 ^ 31"
    using p by (simp add: play_login_fits_def MAX_DIMENSIONS_def)
  note enc = play_login_encode_def [unfolded names_eq death_location_encode_eq]
  from p l len show "play_login_decode (cursor xs (play_login_encode p @ ys)) =
      Inr (p, cursor (xs @ play_login_encode p) ys)"
    unfolding play_login_decode_def death_reader_def [symmetric] enc
    by (simp add: play_login_fits_def codec_steps dimensionsc.rt_bind death_optionc.rt_bind
        game_mode_read_back rlift_Inr_bind rreturn_apply)
qed

section \<open>Fixed-size packets\<close>

text \<open>Reading \<open>n\<close> bytes of a number succeeds exactly when they are there, and moves past them.\<close>

definition sized :: "usize \<Rightarrow> 'a reader \<Rightarrow> bool" where
  "sized n f \<longleftrightarrow> (\<forall>xs ys. length xs + length ys < 2 ^ 64 \<longrightarrow>
     (if n \<le> length ys then \<exists>x. f (cursor xs ys) = Inr (x, cursor (xs @ take n ys) (drop n ys))
      else \<exists>e. f (cursor xs ys) = Inl e))"

lemma sized_take_n: "sized n (take_n n)"
  by (auto simp: sized_def take_n_def cursor_def usize_checked_add_def)

lemma sized_rreturn: "sized 0 (rreturn x)"
  by (simp add: sized_def rreturn_apply)

lemma sized_rbind:
  assumes "sized n m" "\<And>x. sized k (f x)"
  shows "sized (n + k) (rbind m f)"
  unfolding sized_def
proof (intro allI impI)
  fix xs ys :: bytes
  assume len: "length xs + length ys < 2 ^ 64"
  show "if n + k \<le> length ys then \<exists>x. rbind m f (cursor xs ys) =
      Inr (x, cursor (xs @ take (n + k) ys) (drop (n + k) ys)) else \<exists>e. rbind m f (cursor xs ys) = Inl e"
  proof (cases "n \<le> length ys")
    case True
    then obtain x where x: "m (cursor xs ys) = Inr (x, cursor (xs @ take n ys) (drop n ys))"
      using assms(1) len unfolding sized_def by meson
    have "length (xs @ take n ys) + length (drop n ys) < 2 ^ 64" using len True by simp
    then have f: "if k \<le> length (drop n ys) then \<exists>y. f x (cursor (xs @ take n ys) (drop n ys)) =
        Inr (y, cursor ((xs @ take n ys) @ take k (drop n ys)) (drop k (drop n ys)))
      else \<exists>e. f x (cursor (xs @ take n ys) (drop n ys)) = Inl e"
      using assms(2) [of x] unfolding sized_def by blast
    have "k \<le> length (drop n ys) \<longleftrightarrow> n + k \<le> length ys" using True by auto
    moreover have "(xs @ take n ys) @ take k (drop n ys) = xs @ take (n + k) ys"
      "drop k (drop n ys) = drop (n + k) ys"
      by (simp_all only: take_add append_assoc drop_drop add.commute [of k n])
    ultimately show ?thesis using f x by (simp only: rbind_step)
  next
    case False
    then obtain e where "m (cursor xs ys) = Inl e"
      using assms(1) len unfolding sized_def by meson
    with False show ?thesis by (simp add: rbind_fail)
  qed
qed

lemma sized_last: "sized n m \<Longrightarrow> sized n (rbind m (\<lambda>x. rreturn (g x)))"
  using sized_rbind [of n m 0] sized_rreturn by fastforce

lemma sized_reads: "sized 8 read_f64" "sized 4 read_f32" "sized 1 read_u8" "sized 8 read_i64"
  unfolding read_f64_def read_f32_def read_u8_def read_i64_def take_be_def
  by (rule sized_last, rule sized_take_n)+

lemma sized_decode_exact:
  assumes "sized n f" "length body < 2 ^ 64"
  shows "(\<exists>p. decode_exact f pid body state = Inr p) \<longleftrightarrow> length body = n"
proof -
  have s: "if n \<le> length body then \<exists>x. f (reader_new body) = Inr (x, cursor (take n body) (drop n body))
      else \<exists>e. f (reader_new body) = Inl e"
    using assms(1) [unfolded sized_def, rule_format, of "[]" body] assms(2) by (simp add: reader_new_cursor split: if_splits)
  show ?thesis
  proof (cases "n \<le> length body")
    case True
    then obtain x where "f (reader_new body) = Inr (x, cursor (take n body) (drop n body))" using s by auto
    with True show ?thesis by (auto simp: decode_exact_def expect_finished_def)
  next
    case False
    then obtain e where "f (reader_new body) = Inl e" using s by auto
    with False show ?thesis by (simp add: decode_exact_def)
  qed
qed

lemma sized_movements:
  "sized 25 move_player_pos_decode" "sized 33 move_player_pos_rot_decode" "sized 9 move_player_rot_decode"
  "sized 1 move_player_status_only_decode" "sized 8 play_keep_alive_decode"
proof -
  note s = sized_reads [THEN sized_rbind] sized_reads [THEN sized_last]
  have "sized (8 + (8 + (8 + 1))) move_player_pos_decode"
    unfolding move_player_pos_decode_def by (intro s)
  then show "sized 25 move_player_pos_decode" by simp
  have "sized (8 + (8 + (8 + (4 + (4 + 1))))) move_player_pos_rot_decode"
    unfolding move_player_pos_rot_decode_def by (intro s)
  then show "sized 33 move_player_pos_rot_decode" by simp
  have "sized (4 + (4 + 1)) move_player_rot_decode"
    unfolding move_player_rot_decode_def by (intro s)
  then show "sized 9 move_player_rot_decode" by simp
  show "sized 1 move_player_status_only_decode"
    unfolding move_player_status_only_decode_def by (intro s)
  show "sized 8 play_keep_alive_decode"
    unfolding play_keep_alive_decode_def by (intro s)
qed

section \<open>Properties\<close>

text \<open>
  The join-game packet, with its list of dimensions, its optional death location and its twenty
  fields in order, is decoded as it was encoded when its strings fit, it names at most 1024 dimensions
  and the death position is one the packed form can carry.
\<close>

lemma play_login_roundtrip:
  assumes "play_login_fits p" "length (play_login_encode p) < 2 ^ 64"
  shows "decode_exact play_login_decode play_cb_LOGIN (play_login_encode p) (state_name Play) = Inr p"
  by (rule play_loginc.decode_exact_rt [OF assms])

definition sample_login :: play_login where
  "sample_login = \<lparr>pl_entity_id = 1, pl_hardcore = False, pl_dimension_names = [[0x61], [0x62]],
     pl_max_players = 20, pl_view_distance = 10, pl_simulation_distance = 10, pl_reduced_debug_info = False,
     pl_enable_respawn_screen = True, pl_do_limited_crafting = False, pl_dimension_type = 0,
     pl_dimension_name = [0x61], pl_hashed_seed = 7, pl_game_mode = Creative, pl_previous_game_mode = 255,
     pl_is_debug = False, pl_is_flat = True, pl_death_location = Some ([0x62], block_pos_new 1 2 3),
     pl_portal_cooldown = 0, pl_sea_level = 63, pl_enforces_secure_chat = False\<rparr>"

lemma play_login_roundtrip_witness:
  "decode_exact play_login_decode play_cb_LOGIN (play_login_encode sample_login) (state_name Play) = Inr sample_login"
proof -
  have f: "string_fits DEFAULT_MAX_STRING_LEN [0x61]" "string_fits DEFAULT_MAX_STRING_LEN [0x62]"
    by (rule string_fits_ascii, simp_all add: DEFAULT_MAX_STRING_LEN_def)+
  have "packable (block_pos_new 1 2 3)" by (simp add: packable_def block_pos_new_def)
  then have "play_login_fits sample_login"
    using f by (simp add: play_login_fits_def sample_login_def MAX_DIMENSIONS_def)
  moreover have "length (play_login_encode sample_login) < 2 ^ 64"
    using length_write_string [OF f(1)] length_write_string [OF f(2)] length_write_varint_5 [of 0]
      length_write_varint_5 [of 2] length_write_varint_5 [of 20] length_write_varint_5 [of 10] length_write_varint_5 [of 63]
    by (simp add: play_login_encode_def sample_login_def death_location_encode_def write_identifier_def
        write_i32_def write_bool_def write_u8_def write_i8_def write_i64_def write_position_def)
  ultimately show ?thesis by (rule play_login_roundtrip)
qed

text \<open>
  Movement packets and the keep-alive answer are accepted exactly at their size, whatever the bytes:
  a shorter body is an error and a longer one leaves trailing bytes.
\<close>

lemma movement_packets_sized:
  assumes "length body < 2 ^ 64"
  shows "((\<exists>p. decode_exact move_player_pos_decode pid body state = Inr p) \<longleftrightarrow> length body = 25) \<and>
    ((\<exists>p. decode_exact move_player_pos_rot_decode pid body state = Inr p) \<longleftrightarrow> length body = 33) \<and>
    ((\<exists>p. decode_exact move_player_rot_decode pid body state = Inr p) \<longleftrightarrow> length body = 9) \<and>
    ((\<exists>p. decode_exact move_player_status_only_decode pid body state = Inr p) \<longleftrightarrow> length body = 1) \<and>
    ((\<exists>p. decode_exact play_keep_alive_decode pid body state = Inr p) \<longleftrightarrow> length body = 8)"
  using sized_movements [THEN sized_decode_exact [OF _ assms]] by simp

lemma movement_packets_sized_witness:
  "\<exists>p. decode_exact move_player_rot_decode play_sb_MOVE_PLAYER_ROT (replicate 9 1) (state_name Play) = Inr p"
  using movement_packets_sized [of "replicate 9 1"] by simp

end
