(* ===== verification/Column_Wire.thy ===== *)
theory Column_Wire
  imports Chunk
begin

text \<open>
  What a client makes of the sections of a chunk: the reader of the format that \<open>PalettedContainer::write\<close>
  (\<open>palette.rs\<close>), \<open>ChunkSection::write\<close> and \<open>Chunk::write_sections\<close> (\<open>chunk.rs\<close>) produce. The repository has no such
  reader; this one is the specification of the format, in terms of \<open>PacketReader\<close>: the width of an entry decides what
  follows, and the client knows the size of the registry. That it gives back the very sections is the correctness of the
  three writers.
\<close>

section \<open>The format\<close>

definition read_cells :: "usize \<Rightarrow> nat \<Rightarrow> bit_storage reader" where
  "read_cells len bits =
     rbind (read_length len) (\<lambda>n.
     rbind (read_n n read_i64) (\<lambda>cells.
     case storage_from_data len bits cells of
       Some (Some storage) \<Rightarrow> rreturn storage
     | _ \<Rightarrow> rlift (Inl (LengthLimitExceeded n len))))"

definition read_container :: "container_kind \<Rightarrow> nat \<Rightarrow> paletted_container reader" where
  "read_container kind registry_bits =
     rbind read_u8 (\<lambda>bits.
     if bits = 0 then
       rbind rd_varint (\<lambda>v.
       rbind rd_varint (\<lambda>_.
       rreturn (filled kind registry_bits v)))
     else if unat bits \<le> max_indirect_bits kind then
       rbind (read_length 256) (\<lambda>n.
       rbind (read_n n rd_varint) (\<lambda>palette.
       rbind (read_cells (kind_volume kind) (unat bits)) (\<lambda>storage.
       rreturn \<lparr>pc_kind = kind, pc_direct_bits = registry_bits, pc_repr = Indirect palette storage\<rparr>)))
     else
       rbind (read_cells (kind_volume kind) registry_bits) (\<lambda>storage.
       rreturn \<lparr>pc_kind = kind, pc_direct_bits = registry_bits, pc_repr = Direct storage\<rparr>))"

definition read_section :: "block_states \<Rightarrow> (i16 \<times> chunk_section) reader" where
  "read_section states =
     rbind read_i16 (\<lambda>non_air.
     rbind (read_container Blocks (direct_bits states)) (\<lambda>blocks.
     rbind (read_container Biomes 6) (\<lambda>biomes.
     rreturn (non_air, \<lparr>cs_block_states = blocks, cs_biomes = biomes\<rparr>))))"

section \<open>Round trips\<close>

context codec
begin

lemma read_n_bind:
  "list_all ok items \<Longrightarrow> length xs + length (concat (map wr items)) + length ys < 2 ^ 64 \<Longrightarrow>
     rbind (read_n (length items) rd) f (cursor xs (concat (map wr items) @ ys)) = f items (cursor (xs @ concat (map wr items)) ys)"
  by (rule rbind_step) (rule read_n_rt)

end

lemma cells_bound:
  assumes "wf_storage s"
  shows "length (bs_data s) \<le> bs_len s"
proof -
  have "div_ceil (bs_len s) (64 div bs_bits s) = Some (length (bs_data s))" using assms by (auto simp: wf_storage_def)
  moreover have "2 \<le> 64 div bs_bits s"
    using assms div_le_mono2 [of "bs_bits s" 32 64] by (simp add: wf_storage_def)
  then have "bs_len s div (64 div bs_bits s) \<le> bs_len s div 2" by (intro div_le_mono2) simp_all
  ultimately show ?thesis
    by (cases "bs_len s = 0") (auto simp: div_ceil_def split: if_splits)
qed

interpretation cellsc: codec write_cells "read_cells len bits"
    "\<lambda>s. wf_storage s \<and> bs_len s = len \<and> bs_bits s = bits" for len bits
proof
  fix s :: bit_storage and xs ys :: bytes
  assume s: "wf_storage s \<and> bs_len s = len \<and> bs_bits s = bits"
    and len: "length xs + length (write_cells s) + length ys < 2 ^ 64"
  let ?n = "length (bs_data s)"
  have n: "?n \<le> len" "?n < 2 ^ 31" using s cells_bound [of s] by (auto simp: wf_storage_def)
  have "storage_from_data len bits (bs_data s) = Some (Some s)" using s by (simp add: storage_from_data_eq)
  then show "read_cells len bits (cursor xs (write_cells s @ ys)) = Inr (s, cursor (xs @ write_cells s) ys)"
    using n len by (simp add: read_cells_def write_cells_def lengthc.rt_bind i64c.read_n_bind list.pred_True rreturn_def)
qed

text \<open>Direct storage is told from a palette by its width, so the registry must need more bits than a palette has.\<close>

interpretation containerc: codec container_write "read_container kind registry_bits"
    "\<lambda>c. wf_container c \<and> pc_kind c = kind \<and> pc_direct_bits c = registry_bits \<and> max_indirect_bits kind < registry_bits"
  for kind registry_bits
proof
  fix c :: paletted_container and xs ys :: bytes
  assume c: "wf_container c \<and> pc_kind c = kind \<and> pc_direct_bits c = registry_bits \<and> max_indirect_bits kind < registry_bits"
    and len: "length xs + length (container_write c) + length ys < 2 ^ 64"
  have width: "unat (word_of_nat n :: u8) = n" if "n \<le> 32" for n
    using that by (simp add: unsigned_of_nat take_bit_nat_eq_self_iff)
  show "read_container kind registry_bits (cursor xs (container_write c @ ys)) =
      Inr (c, cursor (xs @ container_write c) ys)"
  proof (cases "pc_repr c")
    case (Single v)
    then have "c = filled kind registry_bits v" using c by (simp add: filled_def)
    then show ?thesis
      using len Single by (simp add: read_container_def container_write_def codec_steps rreturn_def)
  next
    case (Indirect palette s)
    let ?n = "length palette" and ?b = "bs_bits s"
    have w: "wf_indirect c palette s" using c Indirect by (simp add: wf_container_def)
    note W = wf_indirectD [OF w]
    have b: "unat (word_of_nat ?b :: u8) = ?b" "?b \<le> max_indirect_bits kind" "?b \<noteq> 0"
      using width W(1,5) w c by (auto simp: wf_indirect_def wf_storage_def)
    then have "(word_of_nat ?b :: u8) \<noteq> 0" by (metis unat_0)
    moreover have "c = \<lparr>pc_kind = kind, pc_direct_bits = registry_bits, pc_repr = Indirect palette s\<rparr>"
      using c Indirect by simp
    moreover have "wf_storage s \<and> bs_len s = kind_volume kind \<and> bs_bits s = ?b"
      using W(1,2) c by (simp add: container_volume_def)
    ultimately show ?thesis
      using len Indirect b W(6)
      by (simp add: read_container_def container_write_def codec_steps lengthc.rt_bind varintc.read_n_bind list.pred_True
        cellsc.rt_bind rreturn_def)
  next
    case (Direct s)
    have s: "wf_storage s \<and> bs_len s = kind_volume kind \<and> bs_bits s = registry_bits" "registry_bits \<le> 32"
      using c Direct by (simp_all add: wf_container_def container_volume_def)
    have b: "unat (word_of_nat registry_bits :: u8) = registry_bits" using width s(2) by simp
    moreover have "(word_of_nat registry_bits :: u8) \<noteq> 0" using b c by (metis unat_0 not_less_zero)
    moreover have "c = \<lparr>pc_kind = kind, pc_direct_bits = registry_bits, pc_repr = Direct s\<rparr>" using c Direct by simp
    ultimately show ?thesis
      using len Direct s c
      by (simp add: read_container_def container_write_def codec_steps cellsc.rt_bind rreturn_def)
  qed
qed

text \<open>A section, with the count that travels in front of it.\<close>

definition section_bytes :: "i16 \<times> chunk_section \<Rightarrow> bytes" where
  "section_bytes = (\<lambda>(non_air, s). write_i16 non_air @ container_write (cs_block_states s) @ container_write (cs_biomes s))"

interpretation sectionc: codec section_bytes "read_section states"
    "\<lambda>(non_air, s). wf_section states s \<and> 8 < direct_bits states" for states
proof (unfold_locales, clarify)
  fix non_air :: i16 and s :: chunk_section and xs ys :: bytes
  assume len: "length xs + length (section_bytes (non_air, s)) + length ys < 2 ^ 64"
    and s: "wf_section states s" "8 < direct_bits states"
  then have "wf_container (cs_block_states s) \<and> pc_kind (cs_block_states s) = Blocks \<and>
      pc_direct_bits (cs_block_states s) = direct_bits states \<and> max_indirect_bits Blocks < direct_bits states"
    "wf_container (cs_biomes s) \<and> pc_kind (cs_biomes s) = Biomes \<and> pc_direct_bits (cs_biomes s) = 6 \<and>
      max_indirect_bits Biomes < 6"
    by (simp_all add: wf_section_def)
  with len show "read_section states (cursor xs (section_bytes (non_air, s) @ ys)) =
      Inr ((non_air, s), cursor (xs @ section_bytes (non_air, s)) ys)"
    by (simp add: read_section_def section_bytes_def codec_steps containerc.rt_bind rreturn_def)
qed

lemma write_sections_bytes:
  assumes "wf_chunk states c"
  obtains bytes where "write_sections c states = Some bytes" "length bytes = sections_wire_len c"
    "bytes = concat (map section_bytes (map (\<lambda>s.
       (word_of_nat (length (filter (\<lambda>id. \<not> is_air states id) (ids (cs_block_states s)))), s)) (ch_sections c)))"
proof -
  let ?count = "\<lambda>s. word_of_nat (length (filter (\<lambda>id. \<not> is_air states id) (ids (cs_block_states s)))) :: u16"
  have "section_write states s = Some (section_bytes (?count s, s))" if "s \<in> set (ch_sections c)" for s
  proof -
    have "wf_section states s" using assms that by (simp add: wf_chunk_def list_all_iff)
    then show ?thesis
      using container_count_eq [OF wf_sectionD(1)] by (simp add: section_write_def non_air_count_def section_bytes_def)
  qed
  then have "write_sections c states = Some (concat (map (\<lambda>s. section_bytes (?count s, s)) (ch_sections c)))"
    using those_map_Some [of "ch_sections c" "section_write states" "\<lambda>s. section_bytes (?count s, s)"]
    by (simp add: write_sections_def)
  moreover obtain bytes where "write_sections c states = Some bytes" "length bytes = sections_wire_len c"
    using write_sections_eq [OF assms] by blast
  ultimately show ?thesis using that by (simp add: comp_def)
qed

text \<open>A column is far shorter than a buffer can be.\<close>

lemma varint_len_le: "varint_len v \<le> 5"
  using varint_len_is_encoded_length [of v 0] unfolding MAX_VARINT_BYTES_def by blast

lemma container_wire_bound:
  assumes "wf_container c"
  shows "container_wire_len c \<le> 40000"
proof -
  have v: "kind_volume k \<le> 4096" for k by (cases k) simp_all
  have sum: "sum_list (map varint_len vs) \<le> 5 * length vs" for vs
    using sum_list_mono [of vs varint_len "\<lambda>_. 5"] varint_len_le by (simp add: sum_list_triv mult.commute)
  note len = varint_len_le [of "word_of_nat n" for n]
  have cells: "length (bs_data s) \<le> 4096" if "wf_storage s" "bs_len s = container_volume c" for s
    using cells_bound [OF that(1)] that(2) v [of "pc_kind c"] by (simp add: container_volume_def)
  show ?thesis
  proof (cases "pc_repr c")
    case (Single x)
    then show ?thesis using varint_len_le [of x] by (simp add: container_wire_len_def)
  next
    case (Indirect palette s)
    then have "wf_indirect c palette s" using assms by (simp add: wf_container_def)
    note W = wf_indirectD [OF this]
    from cells [OF W(1,2)] W(6) sum [of palette] len [of "length palette"] len [of "length (bs_data s)"] Indirect
    show ?thesis by (simp add: container_wire_len_def)
  next
    case (Direct s)
    then have "length (bs_data s) \<le> 4096" using assms by (intro cells) (simp_all add: wf_container_def)
    with len [of "length (bs_data s)"] Direct show ?thesis by (simp add: container_wire_len_def)
  qed
qed

lemma sections_wire_bound:
  assumes "wf_chunk states c"
  shows "sections_wire_len c < 2 ^ 64"
proof -
  have "section_wire_len s \<le> 80002" if "s \<in> set (ch_sections c)" for s
    using assms that container_wire_bound [of "cs_block_states s"] container_wire_bound [of "cs_biomes s"]
    by (simp add: wf_chunk_def list_all_iff wf_section_def section_wire_len_def)
  then have "sections_wire_len c \<le> length (ch_sections c) * 80002"
    using sum_list_mono [of "ch_sections c" section_wire_len "\<lambda>_. 80002"] by (simp add: sections_wire_len_def sum_list_triv)
  moreover have "length (ch_sections c) < 2 ^ 31"
    using assms le_less_trans [OF div_le_dividend [of "unat (hl_height (ch_limits c))" 16]]
    by (auto simp: wf_chunk_def section_count_def wf_limits_def SECTION_SIZE_def)
  ultimately show ?thesis by simp
qed

section \<open>Properties\<close>

text \<open>
  C22: a column travels without loss: from the bytes of \<open>write_sections\<close>, whose number is \<open>sections_wire_len\<close>, a client that
  knows the format reads back, section by section, the very containers of the column, in whatever representation each is, with
  the exact number of blocks that are not air; so it sees at every position the block that is there.
\<close>

theorem column_survives_wire:
  assumes c: "wf_chunk states c" and bits: "8 < direct_bits states"
  shows "\<exists>bytes counts r. write_sections c states = Some bytes \<and> length bytes = sections_wire_len c \<and>
    read_n (section_count (ch_limits c)) (read_section states) (reader_new bytes) = Inr (zip counts (ch_sections c), r) \<and>
    remaining r = 0 \<and>
    map unat counts = map (\<lambda>s. length (filter (\<lambda>id. \<not> is_air states id) (ids (cs_block_states s)))) (ch_sections c)"
proof (rule write_sections_bytes [OF c])
  fix bytes
  let ?n = "\<lambda>s. length (filter (\<lambda>id. \<not> is_air states id) (ids (cs_block_states s)))"
  let ?items = "map (\<lambda>s. (word_of_nat (?n s) :: i16, s)) (ch_sections c)"
  assume b: "write_sections c states = Some bytes" "length bytes = sections_wire_len c" "bytes = concat (map section_bytes ?items)"
  have s: "wf_section states s" if "s \<in> set (ch_sections c)" for s using c that by (simp add: wf_chunk_def list_all_iff)
  have "list_all (\<lambda>(non_air, s). wf_section states s \<and> 8 < direct_bits states) ?items"
    using s bits by (simp add: list_all_iff)
  from sectionc.read_n_rt [OF this, of "[]" "[]"] b sections_wire_bound [OF c]
  have r: "read_n (length (ch_sections c)) (read_section states) (reader_new bytes) = Inr (?items, cursor bytes [])"
    by (simp add: reader_new_cursor)
  have "unat (word_of_nat (?n s) :: i16) = ?n s" if "s \<in> set (ch_sections c)" for s
  proof -
    have "?n s \<le> 4096" using wf_sectionD(1,2) [OF s [OF that]] by (metis length_filter_le length_ids)
    then show ?thesis by (simp add: unsigned_of_nat take_bit_nat_eq_self_iff)
  qed
  moreover have "?items = zip (map (\<lambda>s. word_of_nat (?n s)) (ch_sections c)) (ch_sections c)"
    by (simp add: zip_map1 zip_same_conv_map comp_def)
  moreover have "length (ch_sections c) = section_count (ch_limits c)" using c by (simp add: wf_chunk_def)
  ultimately show ?thesis
    using b r by (intro exI [of _ bytes] exI [of _ "map (\<lambda>s. word_of_nat (?n s)) (ch_sections c)"] exI [of _ "cursor bytes []"])
      (simp add: remaining_def cursor_def)
qed

lemma column_survives_wire_witness:
  "\<exists>c bytes counts r. flat_generate flat_default (ChunkPos 0 0) OVERWORLD placeholder = Some c \<and>
     write_sections c placeholder = Some bytes \<and>
     read_n 24 (read_section placeholder) (reader_new bytes) = Inr (zip counts (ch_sections c), r) \<and> remaining r = 0"
proof -
  obtain c where c: "flat_generate flat_default (ChunkPos 0 0) OVERWORLD placeholder = Some c" "wf_chunk placeholder c"
    "ch_limits c = OVERWORLD"
    using flat_generate_eq [OF flat_default_wf placeholder_wf(1) overworld_wf(1)] by blast
  have "8 < direct_bits placeholder"
    using bits_for_le_iff [of 27000 8] by (simp add: direct_bits_def placeholder_def)
  moreover have "section_count OVERWORLD = 24" by (simp add: section_count_def OVERWORLD_def)
  ultimately show ?thesis using column_survives_wire [OF c(2)] c by auto
qed

end
