(* ===== verification/Angles.thy ===== *)
theory Angles
  imports Positions Floats
begin

text \<open>
  Rotations on the wire: \<open>angle_to_byte\<close> and \<open>byte_to_angle\<close> of \<open>crates/rukkit-protocol/src/types.rs\<close> and \<open>write_angle\<close> of
  \<open>writer.rs\<close>. A rotation is an \<open>f32\<close> of degrees, and one byte stands for 256 steps of a full turn.
\<close>

section \<open>Conversions\<close>

text \<open>The constant factors are divisions of \<open>f32\<close> literals.\<close>

definition angle_to_byte :: "fp \<Rightarrow> u8" where
  "angle_to_byte degrees = word_of_int (fp_to_int (- (2 ^ 31)) (2 ^ 31 - 1)
     (fp_map round_away (fp_mul f32_format degrees (fp_div f32_format (Num 256) (Num 360)))))"

definition byte_to_angle :: "u8 \<Rightarrow> fp" where
  "byte_to_angle byte = fp_mul f32_format (Num (of_nat (unat byte))) (fp_div f32_format (Num 360) (Num 256))"

text \<open>The number an \<open>f32\<close> stands for, from its bits.\<close>

definition f32_from_bits :: "u32 \<Rightarrow> fp" where
  "f32_from_bits b =
     (let e = unat (drop_bit 23 b AND 0xFF); m = unat (b AND 0x7FFFFF);
          magnitude = (if e = 0 then of_nat m * 2 powi - 149 else of_nat (2 ^ 23 + m) * 2 powi (int e - 150))
      in if e = 255 then (if m = 0 then fp_signed_inf (bit b 31) else NaN)
         else Num (if bit b 31 then - magnitude else magnitude))"

definition write_angle :: "u32 \<Rightarrow> bytes" where
  "write_angle degrees = write_u8 (angle_to_byte (f32_from_bits degrees))"

section \<open>Lemmas\<close>

lemma degrees_per_step: "fp_div f32_format (Num 360) (Num 256) = Num (45 / 32)"
proof -
  have "representable f32_format (45 / 32)"
    unfolding representable_def by (intro exI [of _ 45] exI [of _ "- 5"]) (simp add: power_int_minus)
  then show ?thesis by (simp add: fp_round_exact power_int_def)
qed

lemma steps_per_degree:
  obtains c where "fp_div f32_format (Num 256) (Num 360) = Num c" "\<bar>c - 32 / 45\<bar> \<le> 2 powi - 25"
proof
  show "\<bar>round_to f32_format (32 / 45) - 32 / 45\<bar> \<le> 2 powi - 25"
    using round_to_close [of "32 / 45" 0 f32_format] by simp
  show "fp_div f32_format (Num 256) (Num 360) = Num (round_to f32_format (32 / 45))"
    using fp_round_Num [of "32 / 45" 0 f32_format] by simp
qed

lemma angle_steps:
  assumes "\<bar>d\<bar> < 2 powi k" "k \<le> 16" "- 100 \<le> k"
  obtains p where "fp_mul f32_format (Num d) (fp_div f32_format (Num 256) (Num 360)) = Num p"
    "\<bar>p - d * 32 / 45\<bar> \<le> 2 powi (k - 24)"
proof -
  obtain c where c: "fp_div f32_format (Num 256) (Num 360) = Num c" "\<bar>c - 32 / 45\<bar> \<le> 2 powi - 25"
    by (rule steps_per_degree)
  have "(2 :: rat) powi - 25 \<le> 1 / 100" by (simp add: power_int_minus)
  then have c1: "\<bar>c\<bar> \<le> 1" using c(2) by linarith
  have dc: "\<bar>d * c\<bar> < 2 powi k"
    using mult_mono [OF order_refl c1, of "\<bar>d\<bar>"] assms(1) by (simp add: abs_mult)
  let ?p = "round_to f32_format (d * c)"
  have m: "fp_mul f32_format (Num d) (Num c) = Num ?p"
    using dc assms by (simp add: fp_round_Num [of "d * c" k])
  have "\<bar>?p - d * c\<bar> \<le> 2 powi (k - 25)" using round_to_close [OF dc, of f32_format] assms by simp
  moreover have "\<bar>d * c - d * 32 / 45\<bar> \<le> 2 powi (k - 25)"
  proof -
    have "\<bar>d * c - d * 32 / 45\<bar> = \<bar>d\<bar> * \<bar>c - 32 / 45\<bar>" by (simp add: abs_mult [symmetric] right_diff_distrib)
    also have "\<dots> \<le> 2 powi k * 2 powi - 25" using assms(1) c(2) by (intro mult_mono) simp_all
    finally show ?thesis by (simp only: powi_mult) simp
  qed
  moreover have "2 powi (k - 24) = (2 powi (k - 25) + 2 powi (k - 25) :: rat)"
    using powi_mult [of "k - 25" 1] by simp
  ultimately have "\<bar>?p - d * 32 / 45\<bar> \<le> 2 powi (k - 24)" by linarith
  with m c(1) that show thesis by simp
qed

lemma angle_to_byte_near:
  assumes "\<bar>d\<bar> \<le> 2 ^ 15"
  obtains n where "angle_to_byte (Num d) = word_of_int n" "\<bar>of_int n - d * 32 / 45\<bar> \<le> 1 / 2 + 1 / 256"
proof -
  have "\<bar>d\<bar> < 2 powi 16" using assms by simp
  then obtain p where p: "fp_mul f32_format (Num d) (fp_div f32_format (Num 256) (Num 360)) = Num p"
    "\<bar>p - d * 32 / 45\<bar> \<le> 2 powi - 8" by (rule angle_steps) simp_all
  let ?n = "round_away p"
  have e: "\<bar>of_int ?n - d * 32 / 45\<bar> \<le> 1 / 2 + 1 / 256"
  proof -
    have "\<bar>p - d * 32 / 45\<bar> \<le> 1 / 256" using p(2) by (simp add: power_int_minus)
    with round_away_error [of p] show ?thesis by linarith
  qed
  have "\<bar>d * 32 / 45\<bar> \<le> 32768" using assms by (simp add: abs_mult)
  then have "\<bar>of_int ?n\<bar> < (2147483648 :: rat)" using e by linarith
  then have "\<bar>of_int ?n\<bar> < (2 ^ 31 :: rat)" by simp
  then have "\<bar>?n\<bar> < 2 ^ 31" by (metis of_int_abs of_int_less_iff of_int_numeral of_int_power)
  then have "angle_to_byte (Num d) = word_of_int ?n"
    unfolding angle_to_byte_def p(1) by (simp add: fp_to_int_def)
  with e that show thesis by blast
qed

lemma byte_to_angle_eq: "byte_to_angle b = Num (of_nat (unat b) * 45 / 32)"
proof -
  define n where "n = int (unat b)"
  have b: "0 \<le> n" "n < 256" using unsigned_less [of b] by (simp_all add: n_def)
  have e: "of_int (n * 45) * 2 powi - 5 = (of_int n * 45 / 32 :: rat)" by (simp add: power_int_minus)
  have "representable f32_format (of_int n * 45 / 32)"
    unfolding representable_def e [symmetric] by (intro exI [of _ "n * 45"] exI [of _ "- 5"]) (use b in simp)
  moreover have "\<bar>of_int n * 45 / 32 :: rat\<bar> < 2 powi ff_top f32_format"
  proof -
    have "(of_int n :: rat) < 256" "0 \<le> (of_int n :: rat)" using b by linarith+
    then show ?thesis by simp
  qed
  ultimately have "fp_round f32_format (of_int n * (45 / 32)) = Num (of_int n * 45 / 32)"
    using fp_round_exact by simp
  then show ?thesis unfolding byte_to_angle_def degrees_per_step n_def by simp
qed

lemma angle_to_byte_of_byte: "angle_to_byte (byte_to_angle b) = b"
proof -
  let ?d = "of_nat (unat b) * 45 / 32 :: rat"
  have b: "unat b < 256" using unsigned_less [of b] by simp
  then have "(of_nat (unat b) :: rat) < of_nat 256" by (simp only: of_nat_less_iff)
  moreover have "(0 :: rat) \<le> of_nat (unat b)" by (rule of_nat_0_le_iff)
  ultimately have d: "\<bar>?d\<bar> < 2 powi 9" by simp
  obtain p where p: "fp_mul f32_format (Num ?d) (fp_div f32_format (Num 256) (Num 360)) = Num p"
    "\<bar>p - ?d * 32 / 45\<bar> \<le> 2 powi (9 - 24)" using d by (rule angle_steps) simp_all
  have "\<bar>p - of_int (int (unat b))\<bar> < 1 / 2" using p(2) by (simp add: power_int_minus)
  then have r: "round_away p = int (unat b)" by (rule round_away_near)
  have lim: "(256 :: int) \<le> 2 ^ 31 - 1" "- (2 ^ 31) \<le> (0 :: int)" by simp_all
  have "int (unat b) < 256" "0 \<le> int (unat b)" using b by linarith+
  then have "max (- (2 ^ 31)) (min (2 ^ 31 - 1) (int (unat b))) = int (unat b)" using lim by linarith
  then have "fp_to_int (- (2 ^ 31)) (2 ^ 31 - 1) (fp_map round_away (Num p)) = int (unat b)"
    unfolding fp_map.simps r fp_to_int_of_int .
  then show ?thesis
    unfolding byte_to_angle_eq angle_to_byte_def p(1) by simp
qed

section \<open>Properties\<close>

text \<open>
  C39: rotations survive their byte: every byte is the byte of its own angle, and the angle of the byte of any
  number of degrees up to \<open>2 ^ 15\<close> either way is that rotation up to full turns and at most three quarters of a
  degree, negative angles included, although the factor \<open>256 / 360\<close> is itself rounded; what is not a number is sent as 0.
\<close>

theorem angle_byte_roundtrip:
  "angle_to_byte (byte_to_angle b) = b \<and>
   (\<bar>d\<bar> \<le> 2 ^ 15 \<longrightarrow> (\<exists>a turns. byte_to_angle (angle_to_byte (Num d)) = Num a \<and> \<bar>d - (a + 360 * of_int turns)\<bar> \<le> 3 / 4)) \<and>
   angle_to_byte NaN = 0"
proof (intro conjI impI)
  show "angle_to_byte (byte_to_angle b) = b" by (rule angle_to_byte_of_byte)
next
  assume "\<bar>d\<bar> \<le> 2 ^ 15"
  then obtain n where n: "angle_to_byte (Num d) = word_of_int n" "\<bar>of_int n - d * 32 / 45\<bar> \<le> 1 / 2 + 1 / 256"
    by (rule angle_to_byte_near)
  let ?b = "unat (word_of_int n :: u8)"
  have "int ?b = n mod 256" by (simp add: unsigned_of_int take_bit_eq_mod nat_mod_distrib)
  then have "n = int ?b + 256 * (n div 256)" by simp
  then have "(of_int n :: rat) = of_nat ?b + 256 * of_int (n div 256)"
    by (metis of_int_add of_int_mult of_int_numeral of_int_of_nat_eq)
  then have "\<bar>d - (of_nat ?b * 45 / 32 + 360 * of_int (n div 256))\<bar> \<le> 3 / 4" using n(2) by linarith
  then show "\<exists>a turns. byte_to_angle (angle_to_byte (Num d)) = Num a \<and> \<bar>d - (a + 360 * of_int turns)\<bar> \<le> 3 / 4"
    unfolding n(1) byte_to_angle_eq by blast
qed (simp add: angle_to_byte_def fp_to_int_def)

lemma angle_byte_roundtrip_witness:
  "\<exists>a turns. byte_to_angle (angle_to_byte (Num (- 90))) = Num a \<and> \<bar>- 90 - (a + 360 * of_int turns)\<bar> \<le> 3 / 4"
  using angle_byte_roundtrip [of 0 "- 90"] by simp

end
