(* ===== verification/Testing.thy ===== *)
theory Testing
  imports Prelude
begin

text \<open>
  How the unit tests of the repository are written in this development. A test function of a \<open>mod tests\<close>
  is a \<open>bool\<close>: the conjunction of its assertions, where \<open>unwrap\<close> is a binder that is false on the
  error (or on the panic, or on \<open>None\<close>), \<open>unwrap_err\<close> one that is false on the value, and a loop over a
  literal list is \<open>list_all\<close>. A lemma of the same name proves that the model passes it, by evaluation where
  the test is small and by the theorems of its component where it sweeps over a range.
\<close>

definition unwrap :: "'e + 'a \<Rightarrow> ('a \<Rightarrow> bool) \<Rightarrow> bool" where
  "unwrap r p = (case r of Inr a \<Rightarrow> p a | Inl _ \<Rightarrow> False)"

definition unwrap_err :: "'e + 'a \<Rightarrow> ('e \<Rightarrow> bool) \<Rightarrow> bool" where
  "unwrap_err r p = (case r of Inl e \<Rightarrow> p e | Inr _ \<Rightarrow> False)"

definition is_ok :: "'e + 'a \<Rightarrow> bool" where
  "is_ok r = (case r of Inr _ \<Rightarrow> True | Inl _ \<Rightarrow> False)"

definition is_err :: "'e + 'a \<Rightarrow> bool" where
  "is_err r = (case r of Inl _ \<Rightarrow> True | Inr _ \<Rightarrow> False)"

text \<open>The value of a call that may panic, and of an \<open>Option\<close> that the test unwraps.\<close>

definition returned :: "'a option \<Rightarrow> ('a \<Rightarrow> bool) \<Rightarrow> bool" where
  "returned r p = (case r of Some a \<Rightarrow> p a | None \<Rightarrow> False)"

text \<open>A test with \<open>#[should_panic]\<close>.\<close>

definition panics :: "'a option \<Rightarrow> bool" where
  "panics r = (case r of Some _ \<Rightarrow> False | None \<Rightarrow> True)"

text \<open>The errors that \<open>matches!\<close> distinguishes by their constructor alone.\<close>

definition is_eof :: "protocol_error \<Rightarrow> bool" where
  "is_eof e = (case e of UnexpectedEof _ _ \<Rightarrow> True | _ \<Rightarrow> False)"

definition is_varint_too_long :: "protocol_error \<Rightarrow> bool" where
  "is_varint_too_long e = (case e of VarIntTooLong _ \<Rightarrow> True | _ \<Rightarrow> False)"

definition is_length_limit :: "protocol_error \<Rightarrow> bool" where
  "is_length_limit e = (case e of LengthLimitExceeded _ _ \<Rightarrow> True | _ \<Rightarrow> False)"

named_theorems evaluation \<open>what operations do on given inputs\<close>

lemma unwrap_simps [simp]: "unwrap (Inr a) p = p a" "unwrap (Inl e) p = False"
  by (simp_all add: unwrap_def)

lemma unwrap_err_simps [simp]: "unwrap_err (Inl e) q = q e" "unwrap_err (Inr a) q = False"
  by (simp_all add: unwrap_err_def)

lemma is_ok_simps [simp]: "is_ok (Inr a)" "\<not> is_ok (Inl e)"
  by (simp_all add: is_ok_def)

lemma is_err_simps [simp]: "is_err (Inl e)" "\<not> is_err (Inr a)"
  by (simp_all add: is_err_def)

lemma returned_simps [simp]: "returned (Some a) p = p a" "returned None p = False"
  by (simp_all add: returned_def)

lemma panics_iff [simp]: "panics r \<longleftrightarrow> r = None"
  by (simp add: panics_def split: option.split)

end
