(* ===== verification/Tests_Wire.thy ===== *)
theory Tests_Wire
  imports Testing Angles Positions Packet_Ids
begin

text \<open>
  The unit tests of \<open>varint.rs\<close>, \<open>reader.rs\<close>, \<open>writer.rs\<close>, \<open>types.rs\<close>, \<open>version.rs\<close> and \<open>packets/ids.rs\<close> in
  \<open>crates/rukkit-protocol/src\<close>. Floats are the bit patterns the writers carry.
\<close>

section \<open>varint.rs\<close>

definition VARINT_VECTORS :: "(i32 \<times> bytes) list" where
  "VARINT_VECTORS =
    [(0, [0x00]), (1, [0x01]), (2, [0x02]), (127, [0x7F]), (128, [0x80, 0x01]), (255, [0xFF, 0x01]),
     (25565, [0xDD, 0xC7, 0x01]), (2097151, [0xFF, 0xFF, 0x7F]),
     (2147483647, [0xFF, 0xFF, 0xFF, 0xFF, 0x07]), (- 1, [0xFF, 0xFF, 0xFF, 0xFF, 0x0F]),
     (- 2147483648, [0x80, 0x80, 0x80, 0x80, 0x08])]"

definition VARLONG_VECTORS :: "(i64 \<times> bytes) list" where
  "VARLONG_VECTORS =
    [(0, [0x00]), (1, [0x01]), (127, [0x7F]), (128, [0x80, 0x01]),
     (2147483647, [0xFF, 0xFF, 0xFF, 0xFF, 0x07]),
     (9223372036854775807, [0xFF, 0xFF, 0xFF, 0xFF, 0xFF, 0xFF, 0xFF, 0xFF, 0x7F]),
     (- 1, [0xFF, 0xFF, 0xFF, 0xFF, 0xFF, 0xFF, 0xFF, 0xFF, 0xFF, 0x01]),
     (- 2147483648, [0x80, 0x80, 0x80, 0x80, 0xF8, 0xFF, 0xFF, 0xFF, 0xFF, 0x01])]"

definition varint_matches_reference_encodings :: bool where
  "varint_matches_reference_encodings = list_all (\<lambda>(value, expected).
     write_varint value = expected \<and>
     unwrap (read_varint expected) (\<lambda>(decoded, used). decoded = value \<and> used = length expected)) VARINT_VECTORS"

definition varlong_matches_reference_encodings :: bool where
  "varlong_matches_reference_encodings = list_all (\<lambda>(value, expected).
     write_varlong value = expected \<and>
     unwrap (read_varlong expected) (\<lambda>(decoded, used). decoded = value \<and> used = length expected)) VARLONG_VECTORS"

definition len_agrees_with_the_encoder :: bool where
  "len_agrees_with_the_encoder \<longleftrightarrow>
     list_all (\<lambda>(value, expected). varint_len value = length expected) VARINT_VECTORS \<and>
     list_all (\<lambda>(value, expected). varlong_len value = length expected) VARLONG_VECTORS"

definition len_agrees_with_the_encoder_across_bit_widths :: bool where
  "len_agrees_with_the_encoder_across_bit_widths \<longleftrightarrow>
     list_all (\<lambda>shift. list_all (\<lambda>value. varint_len value = length (write_varint value))
       [push_bit shift 1, push_bit shift 1 - 1]) [0..<32] \<and>
     list_all (\<lambda>shift. list_all (\<lambda>value. varlong_len value = length (write_varlong value))
       [push_bit shift 1, push_bit shift 1 - 1]) [0..<64]"

definition truncated_varint_is_reported_as_eof :: bool where
  "truncated_varint_is_reported_as_eof \<longleftrightarrow>
     unwrap_err (read_varint [0x80, 0x80]) is_eof \<and> unwrap_err (read_varint []) is_eof"

definition oversized_varint_is_rejected :: bool where
  "oversized_varint_is_rejected \<longleftrightarrow>
     unwrap_err (read_varint [0x80, 0x80, 0x80, 0x80, 0x80, 0x01]) is_varint_too_long \<and>
     unwrap_err (read_varlong (replicate 11 0x80)) is_varint_too_long"

text \<open>The sweep of the last test, from \<open>value\<close> upwards until the sum would overflow.\<close>

lemma sweep_decreases:
  fixes v step :: i32
  assumes "i32_checked (sint v + 7654321) = Some step"
  shows "nat (2 ^ 31 - sint step) < nat (2 ^ 31 - sint v)"
proof -
  have "sint v + 7654321 < 2 ^ 31" "step = word_of_int (sint v + 7654321)"
    "- (2 ^ 31) \<le> sint v + 7654321"
    using assms by (auto simp: i32_checked_def split: if_splits)
  then have "sint step = sint v + 7654321" by (simp only: sint_word_of_int_i32)
  with sint_i32_bounds [of v] show ?thesis by linarith
qed

function round_trip_sweep :: "i32 \<Rightarrow> bool" where
  "round_trip_sweep value =
     (unwrap (read_varint (write_varint value))
        (\<lambda>(decoded, used). decoded = value \<and> used = length (write_varint value)) \<and>
      (case i32_checked (sint value + 7654321) of Some step \<Rightarrow> round_trip_sweep step | None \<Rightarrow> True))"
  by pat_completeness auto
termination
  by (relation "measure (\<lambda>value. nat (2 ^ 31 - sint value))") (simp_all only: wf_measure in_measure sweep_decreases)

declare round_trip_sweep.simps [simp del]

definition round_trips_over_the_whole_i32_range :: bool where
  "round_trips_over_the_whole_i32_range = round_trip_sweep (- 2147483648)"

text \<open>The tables are evaluated for the writers; that the readers and the lengths agree is a theorem.\<close>

lemma write_vectors:
  "list_all (\<lambda>(v, expected). write_varint v = expected) VARINT_VECTORS"
  "list_all (\<lambda>(v, expected). write_varlong v = expected) VARLONG_VECTORS"
  by code_simp+

lemma read_written: "read_varint (write_varint v) = Inr (v, length (write_varint v))"
  "read_varlong (write_varlong w) = Inr (w, length (write_varlong w))"
  using read_varint_write_varint [of v "[]"] read_varlong_write_varlong [of w "[]"]
  by (simp_all add: varint_len_eq varlong_len_eq)

lemma varint_matches_reference_encodings_passes: varint_matches_reference_encodings
  using write_vectors(1) unfolding varint_matches_reference_encodings_def
  by (rule list.pred_mono_strong) (auto simp: read_written)

lemma varlong_matches_reference_encodings_passes: varlong_matches_reference_encodings
  using write_vectors(2) unfolding varlong_matches_reference_encodings_def
  by (rule list.pred_mono_strong) (auto simp: read_written)

lemma len_agrees_with_the_encoder_passes: len_agrees_with_the_encoder
proof -
  have "list_all (\<lambda>(v, expected). varint_len v = length expected) VARINT_VECTORS"
    using write_vectors(1) by (rule list.pred_mono_strong) (auto simp: varint_len_eq)
  moreover have "list_all (\<lambda>(v, expected). varlong_len v = length expected) VARLONG_VECTORS"
    using write_vectors(2) by (rule list.pred_mono_strong) (auto simp: varlong_len_eq)
  ultimately show ?thesis by (simp add: len_agrees_with_the_encoder_def)
qed

lemma len_agrees_with_the_encoder_across_bit_widths_passes: len_agrees_with_the_encoder_across_bit_widths
  by (simp only: len_agrees_with_the_encoder_across_bit_widths_def varint_len_eq varlong_len_eq list.pred_True simp_thms)

lemma truncated_varint_is_reported_as_eof_passes: truncated_varint_is_reported_as_eof
  by code_simp

lemma oversized_varint_is_rejected_passes: oversized_varint_is_rejected
  by code_simp

lemma round_trip_sweep: "round_trip_sweep v"
  by (induction v rule: round_trip_sweep.induct)
    (subst round_trip_sweep.simps, simp add: read_written split: option.split)

lemma round_trips_over_the_whole_i32_range_passes: round_trips_over_the_whole_i32_range
  unfolding round_trips_over_the_whole_i32_range_def by (rule round_trip_sweep)

section \<open>reader.rs and writer.rs\<close>

text \<open>Readings in sequence; the last argument sees the values and the reader that is left.\<close>

definition reading :: "'a reader \<Rightarrow> bytes \<Rightarrow> ('a \<Rightarrow> packet_reader \<Rightarrow> bool) \<Rightarrow> bool" where
  "reading m buf p = unwrap (m (reader_new buf)) (\<lambda>(a, r). p a r)"

definition f32_1_5 :: u32 where "f32_1_5 = 0x3FC00000"
definition f64_minus_2_25 :: u64 where "f64_minus_2_25 = 0xC002000000000000"

definition reads_primitives_in_order :: bool where
  "reads_primitives_in_order =
     (let buf = write_bool True @ write_i8 (- 5) @ write_u16 65535 @ write_i32 (- 123456) @
            write_i64 (- 9223372036854775808) @ write_f32 f32_1_5 @ write_f64 f64_minus_2_25 @ write_varint 25565
      in reading (rbind read_bool (\<lambda>b. rbind read_i8 (\<lambda>i8. rbind read_u16 (\<lambda>u16. rbind read_i32 (\<lambda>i32.
           rbind read_i64 (\<lambda>i64. rbind read_f32 (\<lambda>f32. rbind read_f64 (\<lambda>f64. rbind rd_varint (\<lambda>v.
             rreturn (b, i8, u16, i32, i64, f32, f64, v)))))))))) buf
         (\<lambda>(b, i8, u16, i32, i64, f32, f64, v) r. b \<and> i8 = - 5 \<and> u16 = 65535 \<and> i32 = - 123456 \<and>
            i64 = - 9223372036854775808 \<and> f32 = f32_1_5 \<and> f64 = f64_minus_2_25 \<and> v = 25565 \<and>
            reader_is_empty r))"

definition reading_past_the_end_errors_instead_of_panicking :: bool where
  "reading_past_the_end_errors_instead_of_panicking \<longleftrightarrow>
     reading read_u8 [0x01] (\<lambda>b r. b = 1 \<and> unwrap_err (read_u8 r) is_eof) \<and>
     unwrap_err (read_i32 (reader_new [0, 0])) is_eof"

definition strings_round_trip_including_multibyte :: bool where
  "strings_round_trip_including_multibyte = list_all (\<lambda>original.
     reading (read_string DEFAULT_MAX_STRING_LEN) (write_string original) (\<lambda>s r. s = original \<and> reader_is_empty r))
     [[], lit ''hello'', [0xC11C, 0xBC84], lit ''emoji '' @ [0x1F600] @ lit '' ok'']"

text \<open>Four Hangul syllables of three bytes each.\<close>

definition four_syllables :: rstring where "four_syllables = [0xAC00, 0xB098, 0xB2E4, 0xB77C]"

definition string_limit_accepts_multibyte_up_to_the_character_count :: bool where
  "string_limit_accepts_multibyte_up_to_the_character_count =
     (let buf = write_string four_syllables
      in reading (read_string 4) buf (\<lambda>s _. s = four_syllables) \<and> is_err (read_string 3 (reader_new buf)))"

definition string_char_limit_catches_what_the_byte_limit_misses :: bool where
  "string_char_limit_catches_what_the_byte_limit_misses =
     (let buf = write_string (lit ''abcde'')
      in unwrap_err (read_string 4 (reader_new buf)) (\<lambda>err. err = StringTooManyChars 5 4) \<and>
         reading (read_string 5) buf (\<lambda>s _. s = lit ''abcde''))"

definition invalid_utf8_is_rejected :: bool where
  "invalid_utf8_is_rejected =
     (let buf = write_varint 2 @ [0xFF, 0xFE]
      in unwrap_err (read_string DEFAULT_MAX_STRING_LEN (reader_new buf)) (\<lambda>err. err = InvalidUtf8))"

definition negative_and_oversized_lengths_are_rejected :: bool where
  "negative_and_oversized_lengths_are_rejected \<longleftrightarrow>
     unwrap_err (read_length 16 (reader_new (write_varint (- 1)))) (\<lambda>err. err = NegativeLength (- 1)) \<and>
     unwrap_err (read_length 16 (reader_new (write_varint 9999))) is_length_limit"

definition huge_length_prefix_does_not_preallocate :: bool where
  "huge_length_prefix_does_not_preallocate =
     unwrap_err (read_array DEFAULT_MAX_COLLECTION_LEN read_i64 (reader_new (write_varint 1000000))) is_eof"

definition uuid_round_trips :: bool where
  "uuid_round_trips =
     (let uuid = 0x0123456789ABCDEF0123456789ABCDEF; buf = write_uuid uuid
      in length buf = 16 \<and> reading read_uuid buf (\<lambda>u _. u = uuid))"

definition options_and_arrays_round_trip :: bool where
  "options_and_arrays_round_trip =
     (let buf = write_option write_varint (Some 7) @ write_option write_varint None @
            write_array write_varint [1, 2, 3]
      in reading (rbind (read_option rd_varint) (\<lambda>a. rbind (read_option rd_varint) (\<lambda>b.
           rbind (read_array 16 rd_varint) (\<lambda>c. rreturn (a, b, c))))) buf
         (\<lambda>(a, b, c) r. a = Some 7 \<and> b = None \<and> c = [1, 2, 3] \<and> reader_is_empty r))"

definition trailing_bytes_are_flagged :: bool where
  "trailing_bytes_are_flagged \<longleftrightarrow>
     unwrap_err (expect_finished (reader_new [0x00, 0x01]) ''play'' 0)
       (\<lambda>err. case err of TrailingBytes _ _ trailing \<Rightarrow> trailing = 2 | _ \<Rightarrow> False) \<and>
     is_ok (expect_finished (reader_new []) ''play'' 0)"

definition string_is_byte_length_prefixed :: bool where
  "string_is_byte_length_prefixed =
     (let buf = write_string [0xAC00] in buf ! 0 = 3 \<and> length buf = 4)"

text \<open>The two buffer types of this test are the same list of bytes in the model.\<close>

definition fill_test :: bytes where
  "fill_test = write_varint 42 @ write_string (lit ''rukkit'')"

definition works_over_bytes_mut_as_well_as_vec :: bool where
  "works_over_bytes_mut_as_well_as_vec =
     reading (rbind rd_varint (\<lambda>v. rbind (read_string DEFAULT_MAX_STRING_LEN) (\<lambda>s. rreturn (v, s)))) fill_test
       (\<lambda>(v, s) r. v = 42 \<and> s = lit ''rukkit'' \<and> reader_is_empty r)"

definition long_array_round_trips :: bool where
  "long_array_round_trips =
     (let values = [1, - 1, 9223372036854775807, - 9223372036854775808]
      in reading (read_array 16 read_i64) (write_long_array values) (\<lambda>decoded _. decoded = values))"

definition position_round_trips_through_the_writer :: bool where
  "position_round_trips_through_the_writer =
     (let pos = block_pos_new (- 1234) (- 60) 5678
      in reading read_position (write_position pos) (\<lambda>p _. p = pos))"

text \<open>
  The small tests are evaluated: the collection \<open>evaluation\<close> holds what a reader, a writer or a string operation
  does on given bytes. What involves wide or negative words comes from the contract \<open>codec\<close> instead.
\<close>

lemma read_n_numeral [evaluation]:
  "read_n (numeral k) f = rbind f (\<lambda>x. rbind (read_n (pred_numeral k) f) (\<lambda>xs. rreturn (x # xs)))"
  by (simp add: numeral_eq_Suc)

lemmas reader_evaluation [evaluation] =
  reading_def rbind_def rreturn_def rlift_def reader_new_def remaining_def reader_is_empty_def take_n_def take_be_def
  from_be_bytes_def read_u8_def read_i8_def read_bool_def read_u16_def read_i16_def read_i32_def read_i64_def
  read_u64_def read_f32_def read_f64_def rd_varint_def rd_varlong_def read_varint_def read_varlong_def
  MAX_VARINT_BYTES_def MAX_VARLONG_BYTES_def read_length_def read_string_def read_uuid_def read_byte_array_def
  read_option_def read_array_def read_remaining_def expect_finished_def usize_saturating_mul_def usize_checked_add_def
  word_sless_alt is_eof_def is_length_limit_def DEFAULT_MAX_STRING_LEN_def DEFAULT_MAX_COLLECTION_LEN_def

lemmas writer_evaluation [evaluation] =
  write_u8_def write_i8_def write_bool_def write_u16_def write_i16_def write_i32_def write_i64_def write_u64_def
  write_f32_def write_f64_def to_be_bytes_def write_varint_def write_varlong_def write_leb.simps write_string_def
  write_option_def write_array_def write_long_array_def write_byte_array_def

lemmas string_evaluation [evaluation] =
  as_bytes_def lit_def encode_utf8_def group2_def group3_def group4_def is_cont_def is_scalar_def join2_def join3_def
  join4_def

lemma rd_written: "rd_varint (reader_new (write_varint v)) = Inr (v, cursor (write_varint v) [])"
  using varintc.rt_new [of v] length_write_varint(2) [of v] by simp

lemma length_primitives:
  "length (write_bool b) = 1" "length (write_i8 i8) = 1" "length (write_u16 u16) = 2" "length (write_i32 i32) = 4"
  "length (write_i64 i64) = 8" "length (write_f32 f32) = 4" "length (write_f64 f64) = 8" "length (write_varint 25565) = 3"
  by (simp_all add: evaluation)

lemma reads_primitives_in_order_passes: reads_primitives_in_order
  unfolding reads_primitives_in_order_def Let_def reading_def reader_new_cursor
  by (simp add: codec_steps length_primitives rreturn_apply reader_is_empty_def)

lemma reading_past_the_end_errors_instead_of_panicking_passes: reading_past_the_end_errors_instead_of_panicking
  by (simp add: reading_past_the_end_errors_instead_of_panicking_def evaluation)

lemma strings_round_trip_including_multibyte_passes: strings_round_trip_including_multibyte
  by (simp add: strings_round_trip_including_multibyte_def evaluation)

lemma string_limit_accepts_multibyte_up_to_the_character_count_passes:
  string_limit_accepts_multibyte_up_to_the_character_count
  by (simp add: string_limit_accepts_multibyte_up_to_the_character_count_def four_syllables_def evaluation)

lemma string_char_limit_catches_what_the_byte_limit_misses_passes: string_char_limit_catches_what_the_byte_limit_misses
  by (simp add: string_char_limit_catches_what_the_byte_limit_misses_def evaluation)

lemma invalid_utf8_is_rejected_passes: invalid_utf8_is_rejected
  by (simp add: invalid_utf8_is_rejected_def evaluation)

lemma negative_and_oversized_lengths_are_rejected_passes: negative_and_oversized_lengths_are_rejected
  by (simp add: negative_and_oversized_lengths_are_rejected_def read_length_def rbind_def rd_written word_sless_alt
      rlift_def is_length_limit_def)

lemma huge_length_prefix_does_not_preallocate_passes: huge_length_prefix_does_not_preallocate
proof -
  have "read_i64 (cursor (write_varint 1000000) []) = Inl (UnexpectedEof 8 0)"
    using length_write_varint(2) [of 1000000]
    by (simp add: read_i64_def take_be_def rbind_def take_n_def usize_checked_add_def cursor_def remaining_def)
  then have "read_n (Suc n) read_i64 (cursor (write_varint 1000000) []) = Inl (UnexpectedEof 8 0)" for n
    by (simp add: rbind_def)
  then have "read_n 1000000 read_i64 (cursor (write_varint 1000000) []) = Inl (UnexpectedEof 8 0)"
    unfolding numeral_eq_Suc .
  moreover have "read_length DEFAULT_MAX_COLLECTION_LEN (reader_new (write_varint 1000000)) =
      Inr (1000000, cursor (write_varint 1000000) [])"
    by (simp add: read_length_def rbind_def rd_written word_sless_alt rreturn_def DEFAULT_MAX_COLLECTION_LEN_def)
  ultimately show ?thesis
    by (simp only: huge_length_prefix_does_not_preallocate_def read_array_def rbind_step unwrap_err_simps is_eof_def
        protocol_error.case)
qed

lemma uuid_round_trips_passes: uuid_round_trips
proof -
  let ?id = "0x0123456789ABCDEF0123456789ABCDEF"
  have "length (write_uuid ?id) = 16" by (simp only: write_uuid_def length_to_be_bytes) simp
  with uuidc.rt_new [of ?id] show ?thesis
    by (simp only: uuid_round_trips_def reading_def Let_def unwrap_simps) simp
qed

lemma options_and_arrays_round_trip_passes: options_and_arrays_round_trip
  by (simp add: options_and_arrays_round_trip_def evaluation)

lemma trailing_bytes_are_flagged_passes: trailing_bytes_are_flagged
  by (simp add: trailing_bytes_are_flagged_def evaluation)

lemma string_is_byte_length_prefixed_passes: string_is_byte_length_prefixed
  by (simp add: string_is_byte_length_prefixed_def evaluation)

lemma works_over_bytes_mut_as_well_as_vec_passes: works_over_bytes_mut_as_well_as_vec
  by (simp add: works_over_bytes_mut_as_well_as_vec_def fill_test_def evaluation)

lemma long_array_round_trips_passes: long_array_round_trips
proof -
  let ?v = "[1, - 1, 9223372036854775807, - 9223372036854775808] :: i64 list"
  have "length (write_long_array ?v) < 2 ^ 64"
    using length_write_varint(2) [of 4] by (simp add: write_long_array_def write_i64_def)
  then show ?thesis using longarrayc.rt_new [of ?v 16] by (simp add: long_array_round_trips_def reading_def)
qed

lemma position_round_trips_through_the_writer_passes: position_round_trips_through_the_writer
  using positionc.rt_new
  by (simp add: position_round_trips_through_the_writer_def reading_def write_position_def write_i64_def
      block_pos_new_def packable_def)

section \<open>types.rs, version.rs and packets/ids.rs\<close>

definition block_pos_round_trips_including_negatives :: bool where
  "block_pos_round_trips_including_negatives = list_all (\<lambda>pos. block_pos_decode (block_pos_encode pos) = pos)
     [block_pos_new 0 0 0, block_pos_new 1 2 3, block_pos_new (- 1) (- 1) (- 1),
      block_pos_new 33554431 2047 33554431, block_pos_new (- 33554432) (- 2048) (- 33554432),
      block_pos_new 1000000 (- 64) (- 1000000)]"

definition block_pos_packing_matches_vanilla_layout :: bool where
  "block_pos_packing_matches_vanilla_layout \<longleftrightarrow>
     block_pos_encode (block_pos_new 1 2 3) = push_bit 38 1 OR push_bit 12 3 OR 2"

definition chunk_pos_long_round_trips :: bool where
  "chunk_pos_long_round_trips = list_all (\<lambda>pos. from_long (to_long pos) = pos)
     [ChunkPos 0 0, ChunkPos (- 1) 5, ChunkPos (- 2147483648) 2147483647]"

definition block_to_chunk_floors_toward_negative_infinity :: bool where
  "block_to_chunk_floors_toward_negative_infinity \<longleftrightarrow>
     block_pos_chunk (block_pos_new 0 0 0) = ChunkPos 0 0 \<and>
     block_pos_chunk (block_pos_new 15 0 15) = ChunkPos 0 0 \<and>
     block_pos_chunk (block_pos_new 16 0 16) = ChunkPos 1 1 \<and>
     block_pos_chunk (block_pos_new (- 1) 0 (- 1)) = ChunkPos (- 1) (- 1) \<and>
     block_pos_chunk (block_pos_new (- 16) 0 (- 16)) = ChunkPos (- 1) (- 1) \<and>
     block_pos_chunk (block_pos_new (- 17) 0 (- 17)) = ChunkPos (- 2) (- 2)"

definition view_distance_uses_chebyshev_not_euclidean :: bool where
  "view_distance_uses_chebyshev_not_euclidean =
     (let origin = ChunkPos 0 0
      in returned (chebyshev_distance origin (ChunkPos 3 4)) (\<lambda>d. d = 4) \<and>
         returned (chebyshev_distance origin (ChunkPos (- 5) 2)) (\<lambda>d. d = 5))"

text \<open>The subtraction is the addition of the negated number.\<close>

definition angles_survive_a_byte_round_trip :: bool where
  "angles_survive_a_byte_round_trip = list_all (\<lambda>degrees.
     case fp_add f32_format (byte_to_angle (angle_to_byte (Num degrees))) (Num (- degrees)) of
       Num d \<Rightarrow> \<bar>d\<bar> < 3 / 2 | _ \<Rightarrow> False) [0, 90, 180, 270]"

definition invalid_enum_ids_are_rejected :: bool where
  "invalid_enum_ids_are_rejected \<longleftrightarrow>
     is_err (game_mode_from_id 4) \<and> is_err (game_mode_from_id (- 1)) \<and> is_err (difficulty_from_id 9)"

definition only_the_targeted_protocol_is_accepted :: bool where
  "only_the_targeted_protocol_is_accepted \<longleftrightarrow>
     is_supported PROTOCOL_VERSION \<and> \<not> is_supported (PROTOCOL_VERSION - 1) \<and>
     \<not> is_supported (PROTOCOL_VERSION + 1) \<and> \<not> is_supported 0"

text \<open>\<open>assert_unique\<close> panics on the first id that an earlier packet has; the names are for its message.\<close>

fun assert_unique :: "i32 list \<Rightarrow> (string \<times> i32) list \<Rightarrow> bool" where
  "assert_unique seen [] = True"
| "assert_unique seen ((packet, pid) # ids) =
     (if find (\<lambda>other_id. other_id = pid) seen \<noteq> None then False else assert_unique (seen @ [pid]) ids)"

definition login_ids_are_unique :: bool where
  "login_ids_are_unique \<longleftrightarrow>
     assert_unique []
       [(''HELLO'', login_sb_HELLO), (''ENCRYPTION_RESPONSE'', login_sb_ENCRYPTION_RESPONSE),
        (''PLUGIN_RESPONSE'', login_sb_PLUGIN_RESPONSE), (''LOGIN_ACKNOWLEDGED'', login_sb_LOGIN_ACKNOWLEDGED),
        (''COOKIE_RESPONSE'', login_sb_COOKIE_RESPONSE)] \<and>
     assert_unique []
       [(''LOGIN_DISCONNECT'', login_cb_LOGIN_DISCONNECT), (''ENCRYPTION_REQUEST'', login_cb_ENCRYPTION_REQUEST),
        (''LOGIN_SUCCESS'', login_cb_LOGIN_SUCCESS), (''SET_COMPRESSION'', login_cb_SET_COMPRESSION),
        (''PLUGIN_REQUEST'', login_cb_PLUGIN_REQUEST), (''COOKIE_REQUEST'', login_cb_COOKIE_REQUEST)]"

definition configuration_ids_are_unique :: bool where
  "configuration_ids_are_unique \<longleftrightarrow>
     assert_unique []
       [(''CLIENT_INFORMATION'', config_sb_CLIENT_INFORMATION), (''COOKIE_RESPONSE'', config_sb_COOKIE_RESPONSE),
        (''PLUGIN_MESSAGE'', config_sb_PLUGIN_MESSAGE), (''FINISH_CONFIGURATION'', config_sb_FINISH_CONFIGURATION),
        (''KEEP_ALIVE'', config_sb_KEEP_ALIVE), (''PONG'', config_sb_PONG),
        (''RESOURCE_PACK_RESPONSE'', config_sb_RESOURCE_PACK_RESPONSE),
        (''SELECT_KNOWN_PACKS'', config_sb_SELECT_KNOWN_PACKS)] \<and>
     assert_unique []
       [(''COOKIE_REQUEST'', config_cb_COOKIE_REQUEST), (''PLUGIN_MESSAGE'', config_cb_PLUGIN_MESSAGE),
        (''DISCONNECT'', config_cb_DISCONNECT), (''FINISH_CONFIGURATION'', config_cb_FINISH_CONFIGURATION),
        (''KEEP_ALIVE'', config_cb_KEEP_ALIVE), (''PING'', config_cb_PING), (''RESET_CHAT'', config_cb_RESET_CHAT),
        (''REGISTRY_DATA'', config_cb_REGISTRY_DATA), (''REMOVE_RESOURCE_PACK'', config_cb_REMOVE_RESOURCE_PACK),
        (''ADD_RESOURCE_PACK'', config_cb_ADD_RESOURCE_PACK), (''STORE_COOKIE'', config_cb_STORE_COOKIE),
        (''TRANSFER'', config_cb_TRANSFER), (''UPDATE_ENABLED_FEATURES'', config_cb_UPDATE_ENABLED_FEATURES),
        (''UPDATE_TAGS'', config_cb_UPDATE_TAGS), (''SELECT_KNOWN_PACKS'', config_cb_SELECT_KNOWN_PACKS),
        (''CUSTOM_REPORT_DETAILS'', config_cb_CUSTOM_REPORT_DETAILS), (''SERVER_LINKS'', config_cb_SERVER_LINKS)]"

definition play_ids_are_unique :: bool where
  "play_ids_are_unique \<longleftrightarrow>
     assert_unique []
       [(''ACCEPT_TELEPORTATION'', play_sb_ACCEPT_TELEPORTATION), (''CHAT_COMMAND'', play_sb_CHAT_COMMAND),
        (''CHAT'', play_sb_CHAT), (''CLIENT_TICK_END'', play_sb_CLIENT_TICK_END),
        (''PLUGIN_MESSAGE'', play_sb_PLUGIN_MESSAGE), (''KEEP_ALIVE'', play_sb_KEEP_ALIVE),
        (''MOVE_PLAYER_POS'', play_sb_MOVE_PLAYER_POS), (''MOVE_PLAYER_POS_ROT'', play_sb_MOVE_PLAYER_POS_ROT),
        (''MOVE_PLAYER_ROT'', play_sb_MOVE_PLAYER_ROT),
        (''MOVE_PLAYER_STATUS_ONLY'', play_sb_MOVE_PLAYER_STATUS_ONLY)] \<and>
     assert_unique []
       [(''KEEP_ALIVE'', play_cb_KEEP_ALIVE), (''CHUNK_DATA'', play_cb_CHUNK_DATA),
        (''GAME_EVENT'', play_cb_GAME_EVENT), (''LOGIN'', play_cb_LOGIN), (''DISCONNECT'', play_cb_DISCONNECT),
        (''PLAYER_POSITION'', play_cb_PLAYER_POSITION),
        (''SET_CHUNK_CACHE_CENTER'', play_cb_SET_CHUNK_CACHE_CENTER),
        (''SET_DEFAULT_SPAWN_POSITION'', play_cb_SET_DEFAULT_SPAWN_POSITION),
        (''SYSTEM_CHAT'', play_cb_SYSTEM_CHAT)]"

definition play_table_is_still_flagged_provisional :: bool where
  "play_table_is_still_flagged_provisional = PROVISIONAL"

lemma block_pos_round_trips_including_negatives_passes: block_pos_round_trips_including_negatives
  by (simp add: block_pos_round_trips_including_negatives_def block_pos_roundtrip_iff packable_def block_pos_new_def)

lemma block_pos_packing_matches_vanilla_layout_passes: block_pos_packing_matches_vanilla_layout
  by code_simp

lemma chunk_pos_long_round_trips_passes: chunk_pos_long_round_trips
  by (simp add: chunk_pos_long_round_trips_def from_long_to_long)

lemma block_to_chunk_floors_toward_negative_infinity_passes: block_to_chunk_floors_toward_negative_infinity
  by code_simp

lemma view_distance_uses_chebyshev_not_euclidean_passes: view_distance_uses_chebyshev_not_euclidean
  by code_simp

lemma invalid_enum_ids_are_rejected_passes: invalid_enum_ids_are_rejected
  by (simp add: invalid_enum_ids_are_rejected_def game_mode_from_id_def difficulty_from_id_def)

lemma only_the_targeted_protocol_is_accepted_passes: only_the_targeted_protocol_is_accepted
  by (simp add: only_the_targeted_protocol_is_accepted_def is_supported_def PROTOCOL_VERSION_def)

lemma ids_are_unique_passes: login_ids_are_unique configuration_ids_are_unique play_ids_are_unique
  by (simp_all add: login_ids_are_unique_def configuration_ids_are_unique_def play_ids_are_unique_def id_defs)

lemma play_table_is_still_flagged_provisional_passes: play_table_is_still_flagged_provisional
  by (simp add: play_table_is_still_flagged_provisional_def PROVISIONAL_def)

lemma angles_survive_a_byte_round_trip_passes: angles_survive_a_byte_round_trip
proof -
  have "Num 0 = byte_to_angle 0" "Num 90 = byte_to_angle 64" "Num 180 = byte_to_angle 128"
    "Num 270 = byte_to_angle 192" by (simp_all add: byte_to_angle_eq)
  then have "byte_to_angle (angle_to_byte (Num d)) = Num d" if "d \<in> {0, 90, 180, 270}" for d
    using that angle_to_byte_of_byte by auto
  moreover have "fp_round f32_format 0 = Num 0" by (simp add: fp_round_def round_to_def f32_format_def)
  ultimately show ?thesis by (simp add: angles_survive_a_byte_round_trip_def)
qed

end
