(* ===== verification/Promotion.thy ===== *)
theory Promotion
  imports Palette
begin

text \<open>
  The representation a paletted container of \<open>crates/rukkit-world/src/palette.rs\<close> is in. \<open>shape\<close> is the
  representation without its entries, \<open>promote\<close> the rule by which a write changes it, and the width after any
  writes is a function of the number of different ids that were ever written.
\<close>

section \<open>The promotion rule\<close>

datatype shape =
    Uniform u32
  | Listed "u32 list" nat
  | Wide nat

definition shape_of :: "paletted_container \<Rightarrow> shape" where
  "shape_of c = (case pc_repr c of
      Single v \<Rightarrow> Uniform v
    | Indirect palette storage \<Rightarrow> Listed palette (bs_bits storage)
    | Direct storage \<Rightarrow> Wide (bs_bits storage))"

fun promote :: "container_kind \<Rightarrow> nat \<Rightarrow> u32 \<Rightarrow> shape \<Rightarrow> shape" where
  "promote k d v (Uniform w) = (if w = v then Uniform w else Listed [w, v] (min_indirect_bits k))"
| "promote k d v (Listed palette bits) =
     (if v \<in> set palette then Listed palette bits
      else if length palette < 2 ^ bits then Listed (palette @ [v]) bits
      else if bits + 1 \<le> max_indirect_bits k then Listed (palette @ [v]) (bits + 1)
      else Wide d)"
| "promote k d v (Wide bits) = Wide bits"

fun shape_bits :: "shape \<Rightarrow> nat" where
  "shape_bits (Uniform v) = 0"
| "shape_bits (Listed palette bits) = bits"
| "shape_bits (Wide bits) = bits"

lemma bits_per_entry_shape: "bits_per_entry c = shape_bits (shape_of c)"
  by (simp add: bits_per_entry_def shape_of_def split: repr.split)

lemma shape_of_update [simp]: "shape_of (c\<lparr>pc_repr := r\<rparr>) = (case r of
    Single v \<Rightarrow> Uniform v | Indirect palette s \<Rightarrow> Listed palette (bs_bits s) | Direct s \<Rightarrow> Wide (bs_bits s))"
  by (simp add: shape_of_def)

lemma storage_new_bits: "storage_new n b = Some s \<Longrightarrow> bs_bits s = b"
  by (auto simp: storage_new_def Let_def bind_eq_Some_conv split: if_splits)

lemma storage_set_bits: "storage_set s i v = Some (p, s') \<Longrightarrow> bs_bits s' = bs_bits s"
  by (auto simp: storage_set_def Let_def bind_eq_Some_conv split: if_splits)

lemma container_set_shape:
  assumes wf: "wf_container c" and i: "i < container_volume c" and set: "container_set c i v = Some (p, c')"
  shows "shape_of c' = promote (pc_kind c) (pc_direct_bits c) v (shape_of c)"
proof (cases "pc_repr c")
  case (Single w)
  then show ?thesis using set i
    by (auto simp: container_set_def container_set_slow_def shape_of_def bind_eq_Some_conv
        dest!: storage_new_bits storage_set_bits split: if_splits)
next
  case (Direct s)
  then show ?thesis using set i by (auto simp: container_set_def shape_of_def dest!: storage_set_bits)
next
  case (Indirect palette s)
  with wf have w: "wf_indirect c palette s" and d: "0 < pc_direct_bits c" "pc_direct_bits c \<le> 32"
    by (simp_all add: wf_container_def)
  show ?thesis
  proof (cases "position (\<lambda>id. id = v) palette")
    case (Some slot)
    then have "v \<in> set palette" by (auto simp: position_Some)
    with Some show ?thesis using set i Indirect
      by (auto simp: container_set_def shape_of_def bind_eq_Some_conv dest!: storage_set_bits)
  next
    case None
    then have new: "v \<notin> set palette" by (auto simp: position_None)
    show ?thesis
    proof (cases "length palette < 2 ^ bs_bits s")
      case True
      with None new show ?thesis using set i Indirect
        by (auto simp: container_set_def shape_of_def Let_def bind_eq_Some_conv dest!: storage_set_bits)
    next
      case full: False
      have wider: "bs_bits s1 = b" if "storage_remap s b f = Some s1" "wf_storage s" "0 < b" "b \<le> 32"
          "\<forall>v \<in> set (contents s). \<exists>v'. f v = Some v' \<and> unat v' < 2 ^ b" for b f s1
        using storage_remap_eq [OF that(2-5)] that(1) by auto
      show ?thesis
      proof (cases "bs_bits s + 1 \<le> max_indirect_bits (pc_kind c)")
        case True
        from indirect_widen [OF w this] None new full True show ?thesis using set i Indirect
          by (auto simp: container_set_def container_set_slow_def shape_of_def Let_def bind_eq_Some_conv
              dest!: storage_set_bits)
      next
        case False
        from indirect_to_direct [OF w d] None new full False show ?thesis using set i Indirect
          by (auto simp: container_set_def container_set_slow_def shape_of_def Let_def bind_eq_Some_conv
              dest!: storage_set_bits)
      qed
    qed
  qed
qed

section \<open>The width after any writes\<close>

text \<open>The ids that were written, each at its first appearance, and the shape they lead to.\<close>

definition note_id :: "u32 \<Rightarrow> u32 list \<Rightarrow> u32 list" where
  "note_id v seen = (if v \<in> set seen then seen else seen @ [v])"

definition shape_after :: "container_kind \<Rightarrow> nat \<Rightarrow> u32 list \<Rightarrow> shape" where
  "shape_after k d seen = (let n = length seen in
     if n = 1 then Uniform (hd seen)
     else if n \<le> 2 ^ max_indirect_bits k then Listed seen (max (min_indirect_bits k) (bits_for n))
     else Wide d)"

lemma note_id_simps [simp]: "set (note_id v seen) = insert v (set seen)" "distinct seen \<Longrightarrow> distinct (note_id v seen)"
  "note_id v seen \<noteq> []"
  by (auto simp: note_id_def)

lemma bits_for_grows:
  assumes "n \<le> 256"
  shows "bits_for (Suc n) \<le> b \<longleftrightarrow> 0 < b \<and> n < 2 ^ b" "bits_for n \<le> b \<longleftrightarrow> 0 < b \<and> n \<le> 2 ^ b"
  using bits_for_le_iff [of "Suc n" b] bits_for_le_iff [of n b] assms by auto

lemma promote_shape_after:
  assumes seen: "seen \<noteq> []" "distinct seen"
  shows "promote k d v (shape_after k d seen) = shape_after k d (note_id v seen)"
proof (cases "v \<in> set seen")
  case True
  then show ?thesis using seen(1) by (cases seen) (auto simp: shape_after_def note_id_def Let_def)
next
  case new: False
  let ?n = "length seen" and ?min = "min_indirect_bits k" and ?max = "max_indirect_bits k"
  have p: "2 ^ ?max \<le> (256 :: nat)" "2 \<le> (2 :: nat) ^ ?max" by (cases k; simp)+
  have n: "?n \<noteq> 0" using seen by simp
  consider "?n = 1" | "1 < ?n" "?n \<le> 2 ^ ?max" | "1 < ?n" "2 ^ ?max < ?n" using n by linarith
  then show ?thesis
  proof cases
    case 1
    then obtain w where w: "seen = [w]" by (auto simp: length_Suc_conv)
    have "bits_for (Suc (Suc 0)) \<le> ?min" using bits_for_grows(2) [of "Suc (Suc 0)" ?min] by (cases k) simp_all
    then have "max ?min (bits_for (Suc (Suc 0))) = ?min" by linarith
    then show ?thesis using w new p by (simp add: shape_after_def note_id_def Let_def)
  next
    case 2
    let ?b = "max ?min (bits_for ?n)"
    have n256: "?n \<le> 256" using 2 p by linarith
    note B = bits_for_grows [OF n256]
    have b0: "0 < ?b" by (cases k) simp_all
    have le: "?n \<le> 2 ^ ?b" using B(2) [of ?b] by simp
    have bmax: "?b \<le> ?max" using B(2) [of ?max] 2 by (cases k) simp_all
    have start: "shape_after k d seen = Listed seen ?b" using 2 by (simp add: shape_after_def Let_def)
    have len: "length (note_id v seen) = Suc ?n" using new by (simp add: note_id_def)
    show ?thesis
    proof (cases "?n < 2 ^ ?b")
      case True
      then have "bits_for (Suc ?n) \<le> ?b" using B(1) b0 by simp
      moreover have "bits_for ?n \<le> bits_for (Suc ?n)" using B(1) [of "bits_for (Suc ?n)"] B(2) by simp
      ultimately have same: "max ?min (bits_for (Suc ?n)) = ?b" by linarith
      have "(2 :: nat) ^ ?b \<le> 2 ^ ?max" using bmax by (intro power_increasing) simp_all
      then have "Suc ?n \<le> 2 ^ ?max" using True by linarith
      with start len same True new 2(1) seen(1) show ?thesis
        by (simp add: shape_after_def Let_def note_id_def)
    next
      case full: False
      with le have eq: "?n = 2 ^ ?b" by linarith
      have "\<not> bits_for (Suc ?n) \<le> ?b" using B(1) [of ?b] eq by simp
      moreover have "bits_for (Suc ?n) \<le> ?b + 1" using B(1) [of "?b + 1"] eq seen(1) by simp
      ultimately have grown: "max ?min (bits_for (Suc ?n)) = ?b + 1" by linarith
      have "?b + 1 \<le> ?max \<longleftrightarrow> Suc ?n \<le> 2 ^ ?max"
      proof -
        have "?b + 1 \<le> ?max \<longleftrightarrow> ?b < ?max" by linarith
        also have "\<dots> \<longleftrightarrow> (2 :: nat) ^ ?b < 2 ^ ?max" by (simp only: power_strict_increasing_iff one_less_numeral_iff semiring_norm)
        finally show ?thesis using eq by linarith
      qed
      with start len grown full new 2(1) seen(1) show ?thesis
        by (simp add: shape_after_def Let_def note_id_def)
    qed
  next
    case 3
    then show ?thesis using new seen(1) by (simp add: shape_after_def note_id_def Let_def)
  qed
qed

lemma writes_shape:
  "list_all (\<lambda>(i, v). i < kind_volume k \<and> unat v < 2 ^ d) ws \<Longrightarrow> wf_container c \<Longrightarrow> pc_kind c = k \<Longrightarrow>
   pc_direct_bits c = d \<Longrightarrow> shape_of c = shape_after k d seen \<Longrightarrow> seen \<noteq> [] \<Longrightarrow> distinct seen \<Longrightarrow>
   \<exists>c'. iterate (\<lambda>(i, v) c. map_option snd (container_set c i v)) ws c = Some c' \<and> wf_container c' \<and>
     pc_kind c' = k \<and> pc_direct_bits c' = d \<and> shape_of c' = shape_after k d (fold note_id (map snd ws) seen)"
proof (induction ws arbitrary: c seen)
  case (Cons w ws)
  obtain i v where w: "w = (i, v)" by fastforce
  with Cons.prems have i: "i < container_volume c" and v: "id_fits c v" by (simp_all add: container_volume_def id_fits_def)
  from container_set_spec [OF Cons.prems(2) i v] obtain c1 where
    c1: "container_set c i v = Some (ids c ! i, c1)" "wf_container c1" "pc_kind c1 = k" "pc_direct_bits c1 = d"
    using Cons.prems(3,4) by auto
  have "shape_of c1 = shape_after k d (note_id v seen)"
    using container_set_shape [OF Cons.prems(2) i c1(1)] promote_shape_after [OF Cons.prems(6,7)] Cons.prems(3-5) by simp
  from Cons.IH [OF _ c1(2-4) this] Cons.prems(1,7) c1(1) w show ?case by simp
qed simp

lemma fold_note_id:
  "set (fold note_id vs seen) = set vs \<union> set seen" "distinct seen \<Longrightarrow> distinct (fold note_id vs seen)"
  by (induction vs arbitrary: seen) auto

text \<open>
  C18: after any writes to a fresh container its width is decided by the number of different ids that were ever
  written, the fill value included: none for one id, then the least width that can number them but at
  least that of the kind, and the direct width once they are more than the widest palette holds. Nothing else about the
  writes matters, neither their order nor the entries they hit nor that ids were overwritten.
\<close>

theorem palette_width_exact:
  assumes "0 < d" "d \<le> 32" "unat fill < 2 ^ d"
    and "list_all (\<lambda>(i, v). i < kind_volume k \<and> unat v < 2 ^ d) ws"
  defines "n \<equiv> card (insert fill (snd ` set ws))"
  shows "\<exists>c. iterate (\<lambda>(i, v) c. map_option snd (container_set c i v)) ws (filled k d fill) = Some c \<and>
    bits_per_entry c = (if n = 1 then 0
      else if n \<le> 2 ^ max_indirect_bits k then max (min_indirect_bits k) (bits_for n) else d)"
proof -
  let ?seen = "fold note_id (map snd ws) [fill]"
  have "shape_of (filled k d fill) = shape_after k d [fill]"
    by (simp add: shape_of_def filled_def shape_after_def)
  from writes_shape [OF assms(4) filled_spec(1) [OF assms(1-3)] _ _ this] obtain c where
    c: "iterate (\<lambda>(i, v) c. map_option snd (container_set c i v)) ws (filled k d fill) = Some c"
      "shape_of c = shape_after k d ?seen" by (auto simp: filled_def)
  have "distinct ?seen" "set ?seen = insert fill (snd ` set ws)"
    using fold_note_id(2) [of "[fill]"] by (simp_all add: fold_note_id(1) del: insert_is_Un)
  then have "length ?seen = n" using distinct_card [of ?seen] by (simp add: n_def)
  then have "bits_per_entry c = (if n = 1 then 0
      else if n \<le> 2 ^ max_indirect_bits k then max (min_indirect_bits k) (bits_for n) else d)"
    unfolding bits_per_entry_shape c(2) shape_after_def by simp
  with c(1) show ?thesis by blast
qed

lemma palette_width_exact_witness:
  "\<exists>c. iterate (\<lambda>(i, v) c. map_option snd (container_set c i v)) [(7, 5), (7, 9), (7, 9), (7, 0)]
      (filled Biomes 6 0) = Some c \<and> bits_per_entry c = 2"
proof -
  have "bits_for (Suc (Suc (Suc 0))) = 2" by (simp add: bits_for_def leading_zeros_def upt_rec bit_simps)
  then have "bits_for (Suc (Suc (Suc 0))) = Suc (Suc 0)" by simp
  then show ?thesis unfolding numeral_2_eq_2
    using palette_width_exact [of 6 0 Biomes "[(7, 5), (7, 9), (7, 9), (7, 0)]"] by (simp add: insert_commute)
qed

end
