(* ===== verification/Tests_Storage.thy ===== *)
theory Tests_Storage
  imports Testing Promotion Chunk
begin

text \<open>
  The unit tests of \<open>bitstorage.rs\<close>, \<open>block.rs\<close> and \<open>palette.rs\<close> in \<open>crates/rukkit-world/src\<close>. Their loops run
  over whole containers, so they are not evaluated: for each operation there is a rule that replaces the call by what
  is known of its result (\<open>stores\<close> for a bit storage, \<open>holds\<close> for a container), and a test is passed by applying
  the rules in the order of its statements.
\<close>

section \<open>bitstorage.rs\<close>

text \<open>The loops \<open>for i in a..b\<close> of the tests that write \<open>f i\<close> at \<open>i\<close>.\<close>

definition storage_set_range :: "bit_storage \<Rightarrow> usize \<Rightarrow> usize \<Rightarrow> (usize \<Rightarrow> u32) \<Rightarrow> bit_storage option" where
  "storage_set_range s a b f = iterate (\<lambda>i s. map_option snd (storage_set s i (f i))) [a..<b] s"

definition reciprocal_division_matches_real_division :: bool where
  "reciprocal_division_matches_real_division = list_all (\<lambda>bits.
     let vpl = 64 div bits in
     returned (reciprocal vpl) (\<lambda>magic. list_all (\<lambda>index.
       let fast = unat (drop_bit 32 (word_of_nat index * magic)) in fast = index div vpl) [0..<100000]))
     [1..<MAX_BITS + 1]"

definition round_trips_every_value_at_every_width :: bool where
  "round_trips_every_value_at_every_width = list_all (\<lambda>bits.
     let max = push_bit bits 1 - 1 :: u64 in
     returned (storage_new 64 bits) (\<lambda>storage.
     returned (storage_set_range storage 0 64 (\<lambda>i. ucast ((word_of_nat i :: u64) mod (max + 1)))) (\<lambda>storage.
     list_all (\<lambda>i. storage_get storage i = Some (ucast ((word_of_nat i :: u64) mod (max + 1)))) [0..<64])))
     [1..<17]"

definition set_returns_the_previous_value :: bool where
  "set_returns_the_previous_value =
     returned (storage_new 16 5) (\<lambda>storage.
     returned (storage_set storage 3 17) (\<lambda>(previous, storage). previous = 0 \<and>
     returned (storage_set storage 3 4) (\<lambda>(previous, storage). previous = 17 \<and>
     storage_get storage 3 = Some 4)))"

definition entries_never_straddle_two_cells :: bool where
  "entries_never_straddle_two_cells =
     returned (storage_new 24 5) (\<lambda>storage.
     returned (storage_set storage 11 31) (\<lambda>(_, storage).
     returned (storage_set storage 12 1) (\<lambda>(_, storage).
     storage_get storage 11 = Some 31 \<and> storage_get storage 12 = Some 1 \<and>
     length (bs_data storage) = 2 \<and> drop_bit 60 (bs_data storage ! 0) = 0)))"

definition cell_count_matches_vanilla_layout :: bool where
  "cell_count_matches_vanilla_layout \<longleftrightarrow>
     cells_required 4096 4 = Some 256 \<and> cells_required 4096 5 = Some 342 \<and>
     cells_required 4096 15 = Some 1024 \<and> cells_required 64 3 = Some 4"

definition writes_do_not_bleed_into_neighbours :: bool where
  "writes_do_not_bleed_into_neighbours =
     returned (storage_new 4096 6) (\<lambda>storage.
     returned (storage_set_range storage 0 4096 (\<lambda>_. 63)) (\<lambda>storage.
     returned (storage_set storage 1000 0) (\<lambda>(_, storage).
     list_all (\<lambda>i. let expected = if i = 1000 then 0 else 63 in storage_get storage i = Some expected) [0..<4096])))"

definition for_each_visits_every_entry_in_order :: bool where
  "for_each_visits_every_entry_in_order =
     returned (storage_new 100 7) (\<lambda>storage.
     returned (storage_set_range storage 0 100 (\<lambda>i. word_of_nat (i mod 128))) (\<lambda>storage.
     returned (storage_for_each storage (\<lambda>index v seen. Some (seen @ [(index, v)])) []) (\<lambda>seen.
     length seen = 100 \<and>
     list_all (\<lambda>(i, index, v). index = i \<and> v = word_of_nat (i mod 128)) (enumerate 0 seen))))"

definition for_each_agrees_with_get :: bool where
  "for_each_agrees_with_get = list_all (\<lambda>bits.
     let len = 300; max = ucast (push_bit bits 1 - 1 :: u64) :: u32 in
     returned (storage_new len bits) (\<lambda>storage.
     returned (storage_set_range storage 0 len (\<lambda>i. min (word_of_nat i) max)) (\<lambda>storage.
     returned (storage_for_each storage (\<lambda>index v _. if storage_get storage index = Some v then Some () else None) ())
       (\<lambda>_. True)))) [1, 4, 5, 6, 9, 15, 32]"

definition remap_preserves_logical_contents :: bool where
  "remap_preserves_logical_contents =
     returned (storage_new 4096 4) (\<lambda>storage.
     returned (storage_set_range storage 0 4096 (\<lambda>i. word_of_nat (i mod 16))) (\<lambda>storage.
     returned (storage_remap storage 9 (\<lambda>v. u32_checked (unat v * 2))) (\<lambda>wider.
     bs_bits wider = 9 \<and> bs_len wider = 4096 \<and>
     list_all (\<lambda>i. storage_get wider i = Some (word_of_nat (i mod 16) * 2)) [0..<4096])))"

definition from_data_rejects_a_wrong_sized_array :: bool where
  "from_data_rejects_a_wrong_sized_array \<longleftrightarrow>
     returned (storage_from_data 4096 4 (replicate 256 0)) (\<lambda>r. r \<noteq> None) \<and>
     returned (storage_from_data 4096 4 (replicate 255 0)) (\<lambda>r. r = None) \<and>
     returned (storage_from_data 4096 4 (replicate 257 0)) (\<lambda>r. r = None) \<and>
     returned (storage_from_data 4096 0 []) (\<lambda>r. r = None)"

definition from_data_preserves_the_bit_pattern :: bool where
  "from_data_preserves_the_bit_pattern =
     returned (storage_new 64 6) (\<lambda>original.
     returned (storage_set_range original 0 64 (\<lambda>i. word_of_nat (i mod 64))) (\<lambda>original.
     returned (storage_from_data 64 6 (bs_data original)) (\<lambda>r. returned r (\<lambda>restored. restored = original))))"

definition value_wider_than_the_field_panics :: bool where
  "value_wider_than_the_field_panics =
     returned (storage_new 16 4) (\<lambda>storage. panics (storage_set storage 0 16))"

definition out_of_bounds_read_panics :: bool where
  "out_of_bounds_read_panics = returned (storage_new 16 4) (\<lambda>storage. panics (storage_get storage 16))"

text \<open>What is known of a storage: its width, its length and the value at each index.\<close>

definition stores :: "nat \<Rightarrow> nat \<Rightarrow> (nat \<Rightarrow> u32) \<Rightarrow> bit_storage \<Rightarrow> bool" where
  "stores bits n g s \<longleftrightarrow> wf_storage s \<and> bs_bits s = bits \<and> bs_len s = n \<and> contents s = map g [0..<n]"

lemma stores_new:
  assumes "0 < bits" "bits \<le> 32" "len < 2 ^ 26" "\<And>s. stores bits len (\<lambda>_. 0) s \<Longrightarrow> P s"
  shows "returned (storage_new len bits) P"
  using storage_new_eq [OF assms(1-3)] assms(4) by (auto simp: stores_def map_replicate_const)

lemma stores_set:
  assumes s: "stores bits n g s" and i: "i < n" "unat v < 2 ^ bits"
    and P: "\<And>s'. stores bits n (g(i := v)) s' \<Longrightarrow> P (g i, s')"
  shows "returned (storage_set s i v) P"
proof -
  have w: "wf_storage s" "i < bs_len s" "unat v < 2 ^ bs_bits s" "contents s = map g [0..<n]" "bs_bits s = bits" "bs_len s = n"
    using s i by (simp_all add: stores_def)
  from storage_set_ok [OF w(1-3)] obtain s' where "storage_set s i v = Some (g i, s')" "wf_storage s'"
    "contents s' = (map g [0..<n])[i := v]" "bs_bits s' = bits" "bs_len s' = n"
    using w(4-6) i(1) by (auto simp: nth_map)
  moreover have "(map g [0..<n])[i := v] = map (g(i := v)) [0..<n]"
    using i(1) by (intro nth_equalityI) (auto simp: nth_list_update)
  ultimately show ?thesis using P by (simp add: stores_def)
qed

lemma stores_set_range:
  assumes "stores bits n g s" "a \<le> b" "b \<le> n" "\<And>i. i < b \<Longrightarrow> unat (f i) < 2 ^ bits"
    and "\<And>s'. stores bits n (\<lambda>i. if a \<le> i \<and> i < b then f i else g i) s' \<Longrightarrow> P s'"
  shows "returned (storage_set_range s a b f) P"
proof -
  have "\<exists>s'. storage_set_range s a m f = Some s' \<and> stores bits n (\<lambda>i. if a \<le> i \<and> i < m then f i else g i) s'"
    if "a \<le> m" "m \<le> b" for m
    using that
  proof (induction rule: dec_induct)
    case base
    then show ?case using assms(1) by (auto simp: storage_set_range_def stores_def)
  next
    case (step m)
    then obtain s1 where s1: "storage_set_range s a m f = Some s1"
      "stores bits n (\<lambda>i. if a \<le> i \<and> i < m then f i else g i) s1" by auto
    have eq: "(\<lambda>i. if a \<le> i \<and> i < m then f i else g i)(m := f m) = (\<lambda>i. if a \<le> i \<and> i < Suc m then f i else g i)"
      using step(1) by auto
    have "returned (storage_set s1 m (f m))
        (\<lambda>(_, s'). stores bits n (\<lambda>i. if a \<le> i \<and> i < Suc m then f i else g i) s')"
      using step assms(3,4) by (intro stores_set [OF s1(2)]) (simp_all add: eq)
    then obtain p s' where "storage_set s1 m (f m) = Some (p, s')"
      "stores bits n (\<lambda>i. if a \<le> i \<and> i < Suc m then f i else g i) s'"
      by (auto simp: returned_def split: option.splits)
    with s1(1) step(1) show ?case by (simp add: storage_set_range_def)
  qed
  from this [OF assms(2)] assms(5) show ?thesis by auto
qed

lemma stores_get: "stores bits n g s \<Longrightarrow> storage_get s i = (if i < n then Some (g i) else None)"
  using nth_contents [of i s] by (auto simp: stores_def storage_get_eq)

lemma stores_for_each:
  assumes "stores bits n g s"
  shows "storage_for_each s f st = iterate (\<lambda>i. f i (g i)) [0..<n] st"
  using assms storage_for_each_eq [of s f st]
  by (simp add: stores_def enumerate_as_upt iterate_map) (auto intro: iterate_cong)

lemma unat_of_nat_mod: "0 < m \<Longrightarrow> m \<le> 2 ^ k \<Longrightarrow> k \<le> 32 \<Longrightarrow> unat (word_of_nat (i mod m) :: u32) < 2 ^ k"
proof -
  assume "0 < m" "m \<le> 2 ^ k" "k \<le> 32"
  then have "i mod m < 2 ^ k" by (meson mod_less_divisor order_less_le_trans)
  moreover have "(2 :: nat) ^ k \<le> 2 ^ 32" using \<open>k \<le> 32\<close> by (intro power_increasing) simp_all
  ultimately show ?thesis using unat_slot [of "i mod m"] by simp
qed

lemma reciprocal_division_matches_real_division_passes: reciprocal_division_matches_real_division
proof -
  have "returned (reciprocal (64 div bits)) (\<lambda>magic. list_all (\<lambda>index.
      unat (drop_bit 32 (word_of_nat index * magic)) = index div (64 div bits)) [0..<100000])"
    if "0 < bits" "bits \<le> 32" for bits
  proof -
    have d: "0 < 64 div bits" "64 div bits \<le> 64" using values_per_long_bounds [OF that] by auto
    from reciprocal_defined [OF d(1)] obtain magic where "reciprocal (64 div bits) = Some magic" by blast
    with reciprocal_shift [OF this d] show ?thesis by (simp add: list_all_iff)
  qed
  then show ?thesis by (simp add: reciprocal_division_matches_real_division_def Let_def list_all_iff MAX_BITS_def)
qed

lemma round_trips_every_value_at_every_width_passes: round_trips_every_value_at_every_width
proof -
  have "returned (storage_new 64 bits) (\<lambda>storage. returned (storage_set_range storage 0 64 f)
      (\<lambda>storage. list_all (\<lambda>i. storage_get storage i = Some (f i)) [0..<64]))"
    if "0 < bits" "bits \<le> 16" "\<And>i. unat (f i) < 2 ^ bits" for bits f
    using that by (intro stores_new, simp_all) (intro stores_set_range, auto simp: list_all_iff stores_get)
  moreover have "unat (ucast ((word_of_nat i :: u64) mod push_bit bits 1) :: u32) < 2 ^ bits"
    if "bits \<le> 16" for bits and i :: nat
  proof -
    have "(2 :: nat) ^ bits \<le> 2 ^ 16" using that by (intro power_increasing) simp_all
    then have p: "(2 :: nat) ^ bits < 2 ^ 32" by simp
    have "take_bit 64 (push_bit bits (1 :: nat)) = 2 ^ bits"
      using p that by (simp add: take_bit_nat_eq_self_iff push_bit_eq_mult)
    then have "unat (push_bit bits 1 :: u64) = 2 ^ bits"
      using unsigned_push_bit_eq [of bits "1 :: u64", where 'a = nat] by simp
    then have "unat ((word_of_nat i :: u64) mod push_bit bits 1) < 2 ^ bits" by (simp add: unat_mod_distrib)
    then show ?thesis using le_less_trans [OF take_bit_nat_less_eq_self] by (simp add: unsigned_ucast_eq)
  qed
  ultimately show ?thesis
    unfolding round_trips_every_value_at_every_width_def Let_def diff_add_cancel by (auto simp: list_all_iff)
qed

lemma set_returns_the_previous_value_passes: set_returns_the_previous_value
  unfolding set_returns_the_previous_value_def
  by (intro stores_new, simp_all) (intro stores_set, auto intro!: stores_set simp: stores_get)

lemma entries_never_straddle_two_cells_passes: entries_never_straddle_two_cells
  by (simp add: entries_never_straddle_two_cells_def storage_new_def storage_set_def storage_get_def locate_def
      cell_of_def MAX_BITS_def cells_required_def reciprocal_def div_ceil_def)

lemma cell_count_matches_vanilla_layout_passes: cell_count_matches_vanilla_layout
  by (simp add: cell_count_matches_vanilla_layout_def cells_required_def div_ceil_def)

lemma writes_do_not_bleed_into_neighbours_passes: writes_do_not_bleed_into_neighbours
  unfolding writes_do_not_bleed_into_neighbours_def
  by (intro stores_new, simp_all) (intro stores_set_range, auto intro!: stores_set simp: stores_get list_all_iff)

lemma iterate_collect: "iterate (\<lambda>i seen. Some (seen @ [h i])) xs seen = Some (seen @ map h xs)"
  by (induction xs arbitrary: seen) auto

lemma iterate_check: "(\<And>i. i \<in> set xs \<Longrightarrow> p i) \<Longrightarrow> iterate (\<lambda>i _. if p i then Some () else None) xs () = Some ()"
  by (induction xs) auto

lemma for_each_visits_every_entry_in_order_passes: for_each_visits_every_entry_in_order
  unfolding for_each_visits_every_entry_in_order_def
proof (intro stores_new, simp_all, intro stores_set_range)
  fix s' assume s': "stores 7 100 (\<lambda>i. if 0 \<le> i \<and> i < 100 then word_of_nat (i mod 128) else 0) s'"
  show "returned (storage_for_each s' (\<lambda>index v seen. Some (seen @ [(index, v)])) []) (\<lambda>seen. length seen = 100 \<and>
      list_all (\<lambda>(i, index, v). index = i \<and> v = word_of_nat (i mod 128)) (enumerate 0 seen))"
    by (simp add: stores_for_each [OF s'] iterate_collect enumerate_map)
      (auto simp: list_all_length enumerate_as_upt)
qed (rule unat_of_nat_mod | simp)+

lemma for_each_agrees_with_get_passes: for_each_agrees_with_get
proof -
  have "returned (storage_new 300 bits) (\<lambda>storage. returned (storage_set_range storage 0 300 (\<lambda>i. min (word_of_nat i) m))
      (\<lambda>storage. returned (storage_for_each storage (\<lambda>index v _. if storage_get storage index = Some v then Some () else None) ())
        (\<lambda>_. True)))" if "0 < bits" "bits \<le> 32" "unat m < 2 ^ bits" for bits and m :: u32
  proof (intro stores_new, simp_all add: that, intro stores_set_range)
    fix i show "unat (min (word_of_nat i) m) < 2 ^ bits"
      using that(3) by (auto simp: min_def word_le_nat_alt)
  next
    fix s' assume s': "stores bits 300 (\<lambda>i. if 0 \<le> i \<and> i < 300 then min (word_of_nat i) m else 0) s'"
    show "returned (storage_for_each s' (\<lambda>index v _. if storage_get s' index = Some v then Some () else None) ())
        (\<lambda>_. True)"
      unfolding stores_for_each [OF s'] stores_get [OF s'] by (subst iterate_check) auto
  qed simp_all
  note run = this
  have max: "unat (ucast (push_bit bits 1 - 1 :: u64) :: u32) < 2 ^ bits" if "bits \<le> 32" for bits
  proof -
    have "unat (mask bits :: u64) < 2 ^ bits" using that by (simp add: unat_mask)
    then show ?thesis using le_less_trans [OF take_bit_nat_less_eq_self] by (simp add: unsigned_ucast_eq)
  qed
  show ?thesis unfolding for_each_agrees_with_get_def Let_def list.pred_inject
    by (intro conjI TrueI run max) simp_all
qed

lemma remap_preserves_logical_contents_passes: remap_preserves_logical_contents
  unfolding remap_preserves_logical_contents_def
proof (intro stores_new, simp_all, intro stores_set_range)
  fix s' assume s': "stores 4 4096 (\<lambda>i. if 0 \<le> i \<and> i < 4096 then word_of_nat (i mod 16) else 0) s'"
  then have w: "wf_storage s'" "contents s' = map (\<lambda>i. word_of_nat (i mod 16)) [0..<4096]" "bs_len s' = 4096"
    by (auto simp: stores_def)
  let ?f = "\<lambda>v :: u32. u32_checked (unat v * 2)"
  have u: "unat (word_of_nat (i mod 16) :: u32) = i mod 16" "unat (word_of_nat (i mod 16 * 2) :: u32) = i mod 16 * 2"
    for i :: nat by (rule unat_slot, simp)+
  have f: "?f (word_of_nat (i mod 16)) = Some (word_of_nat (i mod 16 * 2))" for i
    unfolding u u32_checked_def by simp
  have "\<forall>v \<in> set (contents s'). \<exists>v'. ?f v = Some v' \<and> unat v' < 2 ^ 9"
    unfolding w(2) using f u(2) by auto
  from storage_remap_eq [OF w(1) _ _ this] obtain r where r: "storage_remap s' 9 ?f = Some r" "wf_storage r"
    "bs_bits r = 9" "bs_len r = 4096" "contents r = map (the \<circ> ?f) (contents s')" using w(3) by auto
  have "entry r i = word_of_nat (i mod 16 * 2)" if "i < 4096" for i
    using arg_cong [OF r(5), of "\<lambda>xs. xs ! i"] that r(4) by (simp add: w(2) f del: of_nat_mult)
  then show "returned (storage_remap s' 9 ?f) (\<lambda>wider. bs_bits wider = 9 \<and> bs_len wider = 4096 \<and>
      list_all (\<lambda>i. storage_get wider i = Some (word_of_nat (i mod 16) * 2)) [0..<4096])"
    using r by (simp add: list_all_iff storage_get_eq)
qed (rule unat_of_nat_mod | simp)+

lemma from_data_rejects_a_wrong_sized_array_passes: from_data_rejects_a_wrong_sized_array
  by (simp add: from_data_rejects_a_wrong_sized_array_def storage_from_data_def MAX_BITS_def cells_required_def
      reciprocal_def div_ceil_def)

lemma from_data_preserves_the_bit_pattern_passes: from_data_preserves_the_bit_pattern
  unfolding from_data_preserves_the_bit_pattern_def
proof (intro stores_new, simp_all, intro stores_set_range)
  fix s' assume "stores 6 64 (\<lambda>i. if 0 \<le> i \<and> i < 64 then word_of_nat (i mod 64) else 0) s'"
  then have "storage_from_data 64 6 (bs_data s') = Some (Some s')" by (simp add: storage_from_data_eq stores_def)
  then show "returned (storage_from_data 64 6 (bs_data s')) (\<lambda>r. returned r (\<lambda>restored. restored = s'))" by simp
qed (rule unat_of_nat_mod | simp)+

lemma value_wider_than_the_field_panics_passes: value_wider_than_the_field_panics
  unfolding value_wider_than_the_field_panics_def
  by (intro stores_new) (simp_all add: stores_def storage_set_None storage_fits_iff)

lemma out_of_bounds_read_panics_passes: out_of_bounds_read_panics
  unfolding out_of_bounds_read_panics_def by (intro stores_new) (simp_all add: stores_get)

section \<open>block.rs\<close>

definition air_is_zero_so_empty_sections_are_all_zero_bits :: bool where
  "air_is_zero_so_empty_sections_are_all_zero_bits \<longleftrightarrow> bst_air placeholder = 0"

definition direct_width_covers_the_registry :: bool where
  "direct_width_covers_the_registry =
     (let states = placeholder; bits = direct_bits states
      in bits = 15 \<and> bst_total_states states \<le> push_bit bits 1)"

definition is_air_only_matches_air :: bool where
  "is_air_only_matches_air =
     (let states = placeholder
      in is_air states (bst_air states) \<and> \<not> is_air states (bst_stone states) \<and> \<not> is_air states (bst_bedrock states))"

lemma bits_for_value:
  assumes "n < 2 ^ 64" "n \<le> 2 ^ Suc b" "b = 0 \<or> 2 ^ b < n"
  shows "bits_for n = Suc b"
proof -
  have "bits_for n \<le> Suc b" using assms by (simp add: bits_for_le_iff)
  moreover have "\<not> bits_for n \<le> b" using assms by (auto simp: bits_for_le_iff)
  ultimately show ?thesis by simp
qed

lemma block_tests_pass:
  air_is_zero_so_empty_sections_are_all_zero_bits direct_width_covers_the_registry is_air_only_matches_air
proof -
  have "bits_for 27000 = 15" using bits_for_value [of 27000 14] by simp
  then show direct_width_covers_the_registry
    by (simp add: direct_width_covers_the_registry_def direct_bits_def placeholder_def)
qed (simp_all add: air_is_zero_so_empty_sections_are_all_zero_bits_def is_air_only_matches_air_def is_air_def
    placeholder_def Let_def)

section \<open>palette.rs\<close>

definition DIRECT_BITS :: nat where "DIRECT_BITS = 15"
definition AIR :: u32 where "AIR = 0"
definition STONE :: u32 where "STONE = 1"

definition blocks :: "u32 \<Rightarrow> paletted_container" where
  "blocks v = filled Blocks DIRECT_BITS v"

definition set_range :: "paletted_container \<Rightarrow> usize \<Rightarrow> usize \<Rightarrow> (usize \<Rightarrow> u32) \<Rightarrow> paletted_container option" where
  "set_range c a b f = iterate (\<lambda>i c. map_option snd (container_set c i (f i))) [a..<b] c"

definition bits_for_counts_correctly :: bool where
  "bits_for_counts_correctly \<longleftrightarrow> bits_for 0 = 1 \<and> bits_for 1 = 1 \<and> bits_for 2 = 1 \<and> bits_for 3 = 2 \<and>
     bits_for 4 = 2 \<and> bits_for 5 = 3 \<and> bits_for 256 = 8 \<and> bits_for 257 = 9"

definition a_uniform_container_stores_nothing_per_entry :: bool where
  "a_uniform_container_stores_nothing_per_entry =
     (let container = blocks STONE
      in bits_per_entry container = 0 \<and>
         list_all (\<lambda>i. container_get container i = Some STONE) [0..<container_volume container])"

definition writing_the_same_value_does_not_promote :: bool where
  "writing_the_same_value_does_not_promote =
     returned (container_set (blocks STONE) 5 STONE) (\<lambda>(_, container). bits_per_entry container = 0)"

definition second_value_promotes_to_indirect_at_the_minimum_width :: bool where
  "second_value_promotes_to_indirect_at_the_minimum_width =
     returned (container_set (blocks AIR) 10 STONE) (\<lambda>(previous, container). previous = AIR \<and>
       bits_per_entry container = 4 \<and> container_get container 10 = Some STONE \<and>
       container_get container 11 = Some AIR)"

definition palette_widens_as_values_are_added :: bool where
  "palette_widens_as_values_are_added =
     returned (set_range (blocks AIR) 0 16 word_of_nat) (\<lambda>container. bits_per_entry container = 4 \<and>
     returned (container_set container 16 99) (\<lambda>(_, container). bits_per_entry container = 5 \<and>
       list_all (\<lambda>i. container_get container i = Some (word_of_nat i)) [0..<16] \<and>
       container_get container 16 = Some 99))"

definition exceeding_the_palette_limit_switches_to_direct :: bool where
  "exceeding_the_palette_limit_switches_to_direct =
     returned (set_range (blocks AIR) 0 257 word_of_nat) (\<lambda>container. bits_per_entry container = DIRECT_BITS \<and>
       list_all (\<lambda>i. container_get container i = Some (word_of_nat i)) [0..<257] \<and>
       container_get container 1000 = Some AIR)"

definition set_returns_the_previous_id_through_every_representation :: bool where
  "set_returns_the_previous_id_through_every_representation =
     returned (container_set (blocks AIR) 0 STONE) (\<lambda>(previous, container). previous = AIR \<and>
     returned (container_set container 0 5) (\<lambda>(previous, container). previous = STONE \<and>
     returned (set_range container 1 300 (\<lambda>i. word_of_nat i + 100)) (\<lambda>container.
     returned (container_set container 0 7) (\<lambda>(previous, container). previous = 5 \<and>
     returned (container_set container 50 8) (\<lambda>(previous, container). previous = 150)))))"

definition biomes_use_their_own_thresholds :: bool where
  "biomes_use_their_own_thresholds =
     (let container = filled Biomes 6 0
      in container_volume container = 64 \<and>
         returned (container_set container 0 1) (\<lambda>(_, container). bits_per_entry container = 1 \<and>
         returned (set_range container 0 9 word_of_nat) (\<lambda>container. bits_per_entry container = 6)))"

definition fill_resets_to_single_value :: bool where
  "fill_resets_to_single_value =
     returned (set_range (blocks AIR) 0 100 word_of_nat) (\<lambda>container. bits_per_entry container > 0 \<and>
       (let container = container_fill container STONE
        in bits_per_entry container = 0 \<and> container_get container 4095 = Some STONE))"

definition count_matches_a_manual_sweep :: bool where
  "count_matches_a_manual_sweep \<longleftrightarrow>
     returned (set_range (blocks AIR) 0 1000 (\<lambda>_. STONE)) (\<lambda>container.
       container_count container (\<lambda>id. id = STONE) = Some 1000 \<and>
       container_count container (\<lambda>id. id = AIR) = Some (4096 - 1000) \<and>
       container_count container (\<lambda>id. id \<noteq> AIR) = Some 1000) \<and>
     container_count (blocks STONE) (\<lambda>id. id \<noteq> AIR) = Some 4096 \<and>
     container_count (blocks AIR) (\<lambda>id. id \<noteq> AIR) = Some 0"

definition check_for_each :: "paletted_container \<Rightarrow> bool" where
  "check_for_each c = returned (container_for_each c
     (\<lambda>index id _. if container_get c index = Some id then Some () else None) ()) (\<lambda>_. True)"

definition for_each_agrees_with_get_in_every_representation :: bool where
  "for_each_agrees_with_get_in_every_representation =
     (let container = blocks AIR in check_for_each container \<and>
     returned (container_set container 1 STONE) (\<lambda>(_, container). check_for_each container \<and>
     returned (set_range container 0 300 word_of_nat) (\<lambda>container. check_for_each container)))"

definition shrink_recovers_a_single_value_container :: bool where
  "shrink_recovers_a_single_value_container =
     returned (set_range (blocks AIR) 0 500 word_of_nat) (\<lambda>container. bits_per_entry container > 0 \<and>
     returned (container_set (container_fill container AIR) 0 STONE) (\<lambda>(_, container).
     returned (container_set container 0 AIR) (\<lambda>(_, container).
     returned (container_shrink container) (\<lambda>container.
       bits_per_entry container = 0 \<and> container_get container 2000 = Some AIR))))"

definition shrink_narrows_an_oversized_palette :: bool where
  "shrink_narrows_an_oversized_palette =
     returned (set_range (blocks AIR) 0 20 word_of_nat) (\<lambda>container. bits_per_entry container = 5 \<and>
     returned (set_range container 0 20 (\<lambda>i. if i mod 2 = 0 then AIR else STONE)) (\<lambda>container.
     returned (container_shrink container) (\<lambda>container. bits_per_entry container = 4 \<and>
       list_all (\<lambda>i. let expected = if i mod 2 = 0 then AIR else STONE
                     in container_get container i = Some expected) [0..<20])))"

definition shrink_preserves_contents_exactly :: bool where
  "shrink_preserves_contents_exactly =
     returned (iterate (\<lambda>i (container, expected). let v = word_of_nat (i mod 7) in
         map_option (\<lambda>(_, container). (container, expected[i := v])) (container_set container i v))
       [0..<4096] (blocks AIR, replicate 4096 AIR)) (\<lambda>(container, expected).
     returned (container_shrink container) (\<lambda>container.
       list_all (\<lambda>i. container_get container i = Some (expected ! i)) [0..<4096]))"

definition wire_format_single_value_is_three_bytes :: bool where
  "wire_format_single_value_is_three_bytes \<longleftrightarrow> container_write (blocks STONE) = [0, ucast STONE, 0]"

definition wire_len_matches_what_write_produces :: bool where
  "wire_len_matches_what_write_produces =
     (let container = blocks AIR in length (container_write container) = container_wire_len container \<and>
     returned (container_set container 0 STONE) (\<lambda>(_, container).
       length (container_write container) = container_wire_len container \<and>
     returned (set_range container 0 300 word_of_nat) (\<lambda>container.
       length (container_write container) = container_wire_len container)))"

definition indirect_wire_format_has_palette_then_cells :: bool where
  "indirect_wire_format_has_palette_then_cells =
     returned (container_set (blocks AIR) 0 STONE) (\<lambda>(_, container).
     unwrap (rbind read_u8 (\<lambda>bits. rbind rd_varint (\<lambda>len. rbind rd_varint (\<lambda>first. rbind rd_varint (\<lambda>second.
         rbind rd_varint (\<lambda>cells. rreturn (bits, len, first, second, cells)))))) (reader_new (container_write container)))
       (\<lambda>((bits, len, first, second, cells), r). bits = 4 \<and> len = 2 \<and> first = AIR \<and> second = STONE \<and> cells = 256 \<and>
          (reader_is_empty r \<or> remaining r = 256 * 8)))"

text \<open>What is known of a container: the id at each index, and the ids that were ever written to it.\<close>

definition width :: "container_kind \<Rightarrow> nat \<Rightarrow> nat \<Rightarrow> nat" where
  "width k d n = (if n = 1 then 0 else if n \<le> 2 ^ max_indirect_bits k then max (min_indirect_bits k) (bits_for n) else d)"

definition holds :: "container_kind \<Rightarrow> nat \<Rightarrow> (nat \<Rightarrow> u32) \<Rightarrow> u32 set \<Rightarrow> paletted_container \<Rightarrow> bool" where
  "holds k d g written c \<longleftrightarrow> wf_container c \<and> pc_kind c = k \<and> pc_direct_bits c = d \<and>
     ids c = map g [0..<kind_volume k] \<and>
     (\<exists>seen. seen \<noteq> [] \<and> distinct seen \<and> set seen = written \<and> shape_of c = shape_after k d seen)"

lemma holds_filled:
  assumes "0 < d" "d \<le> 32" "unat v < 2 ^ d"
  shows "holds k d (\<lambda>_. v) {v} (filled k d v)"
proof -
  have "shape_of (filled k d v) = shape_after k d [v]" by (simp add: shape_of_def filled_def shape_after_def)
  moreover have "pc_kind (filled k d v) = k" "pc_direct_bits (filled k d v) = d" by (simp_all add: filled_def)
  ultimately show ?thesis unfolding holds_def using filled_spec(1) [OF assms, of k] filled_spec(2) [of k d v]
    by (auto simp: map_replicate_const intro!: exI [of _ "[v]"])
qed

lemma holds_blocks: "unat v < 2 ^ 15 \<Longrightarrow> holds Blocks 15 (\<lambda>_. v) {v} (blocks v)"
  unfolding blocks_def DIRECT_BITS_def by (rule holds_filled) simp_all

lemma holds_get: "holds k d g W c \<Longrightarrow> container_get c i = (if i < kind_volume k then Some (g i) else None)"
  by (auto simp: holds_def container_get_eq container_volume_def)

lemma holds_bits:
  assumes "holds k d g W c"
  shows "bits_per_entry c = width k d (card W)"
proof -
  from assms obtain seen where "distinct seen" "set seen = W" "shape_of c = shape_after k d seen"
    by (auto simp: holds_def)
  then show ?thesis using distinct_card [of seen] by (simp add: bits_per_entry_shape shape_after_def width_def Let_def)
qed

lemma holds_set:
  assumes c: "holds k d g W c" and i: "i < kind_volume k" "unat v < 2 ^ d"
    and P: "\<And>c'. holds k d (g(i := v)) (insert v W) c' \<Longrightarrow> P (g i, c')"
  shows "returned (container_set c i v) P"
proof -
  from c obtain seen where s: "wf_container c" "pc_kind c = k" "pc_direct_bits c = d" "ids c = map g [0..<kind_volume k]"
    "seen \<noteq> []" "distinct seen" "set seen = W" "shape_of c = shape_after k d seen" by (auto simp: holds_def)
  have "i < container_volume c" "id_fits c v" using i s(2,3) by (simp_all add: container_volume_def id_fits_def)
  from container_set_spec [OF s(1) this] obtain c' where c': "container_set c i v = Some (g i, c')" "wf_container c'"
    "ids c' = (map g [0..<kind_volume k])[i := v]" "pc_kind c' = k" "pc_direct_bits c' = d"
    using s(2-4) i(1) by auto
  have "shape_of c' = shape_after k d (note_id v seen)"
    using container_set_shape [OF s(1) \<open>i < container_volume c\<close> c'(1)] promote_shape_after [OF s(5,6)] s(2,3,8) by simp
  moreover have "(map g [0..<kind_volume k])[i := v] = map (g(i := v)) [0..<kind_volume k]"
    using i(1) by (intro nth_equalityI) (auto simp: nth_list_update)
  ultimately have "holds k d (g(i := v)) (insert v W) c'"
    using c' s(6,7) by (auto simp: holds_def intro!: exI [of _ "note_id v seen"])
  with P c'(1) show ?thesis by simp
qed

lemma holds_set_range:
  assumes "holds k d g W c" "a \<le> b" "b \<le> kind_volume k" "\<And>i. i < b \<Longrightarrow> unat (f i) < 2 ^ d"
    and "\<And>c'. holds k d (\<lambda>i. if a \<le> i \<and> i < b then f i else g i) (W \<union> f ` {a..<b}) c' \<Longrightarrow> P c'"
  shows "returned (set_range c a b f) P"
proof -
  have "\<exists>c'. set_range c a m f = Some c' \<and>
      holds k d (\<lambda>i. if a \<le> i \<and> i < m then f i else g i) (W \<union> f ` {a..<m}) c'"
    if "a \<le> m" "m \<le> b" for m
    using that
  proof (induction rule: dec_induct)
    case base
    then show ?case using assms(1) by (auto simp: set_range_def holds_def)
  next
    case (step m)
    then obtain c1 where c1: "set_range c a m f = Some c1"
      "holds k d (\<lambda>i. if a \<le> i \<and> i < m then f i else g i) (W \<union> f ` {a..<m}) c1" by auto
    have eq: "(\<lambda>i. if a \<le> i \<and> i < m then f i else g i)(m := f m) = (\<lambda>i. if a \<le> i \<and> i < Suc m then f i else g i)"
      "insert (f m) (W \<union> f ` {a..<m}) = W \<union> f ` {a..<Suc m}"
      using step(1) by (auto simp: atLeastLessThanSuc)
    have m: "m < kind_volume k" "unat (f m) < 2 ^ d" using step(2-) assms(3,4) by simp_all
    have "returned (container_set c1 m (f m))
        (\<lambda>(_, c'). holds k d (\<lambda>i. if a \<le> i \<and> i < Suc m then f i else g i) (W \<union> f ` {a..<Suc m}) c')"
      using m by (intro holds_set [OF c1(2)]) (simp_all only: eq prod.case)
    then obtain p c' where "container_set c1 m (f m) = Some (p, c')"
      "holds k d (\<lambda>i. if a \<le> i \<and> i < Suc m then f i else g i) (W \<union> f ` {a..<Suc m}) c'"
      by (auto simp: returned_def split: option.splits)
    with c1(1) step(1) show ?case by (auto simp: set_range_def)
  qed
  from this [OF assms(2)] assms(5) show ?thesis by auto
qed

lemma holds_fill:
  assumes "holds k d g W c" "unat v < 2 ^ d"
  shows "holds k d (\<lambda>_. v) {v} (container_fill c v)"
proof -
  have "container_fill c v = filled k d v" using assms(1) by (auto simp: holds_def container_fill_def filled_def)
  moreover have "0 < d" "d \<le> 32" using assms(1) by (auto simp: holds_def wf_container_def)
  ultimately show ?thesis using holds_filled assms(2) by simp
qed

lemma holds_count:
  "holds k d g W c \<Longrightarrow> container_count c p = Some (length (filter p (map g [0..<kind_volume k])))"
  by (simp add: holds_def container_count_eq)

lemma holds_check:
  assumes "holds k d g W c"
  shows "check_for_each c"
proof -
  have c: "wf_container c" "container_volume c = kind_volume k" "ids c = map g [0..<kind_volume k]"
    using assms by (auto simp: holds_def container_volume_def)
  have "container_for_each c (\<lambda>index id _. if container_get c index = Some id then Some () else None) () =
      iterate (\<lambda>i _. if container_get c i = Some (map g [0..<kind_volume k] ! i) then Some () else None)
        [0..<kind_volume k] ()"
    using c by (simp add: container_for_each_eq enumerate_as_upt iterate_map)
  also have "\<dots> = Some ()" using holds_get [OF assms] by (intro iterate_check) simp
  finally show ?thesis by (simp add: check_for_each_def)
qed

lemma holds_shrink:
  assumes c: "holds k d g W c"
    and P: "\<And>c'. (\<And>i. container_get c' i = (if i < kind_volume k then Some (g i) else None)) \<Longrightarrow>
      (card (g ` {0..<kind_volume k}) \<le> 2 ^ max_indirect_bits k \<Longrightarrow>
        bits_per_entry c' = width k d (card (g ` {0..<kind_volume k}))) \<Longrightarrow> P c'"
  shows "returned (container_shrink c) P"
proof -
  let ?n = "card (g ` {0..<kind_volume k})"
  have s: "wf_container c" "pc_kind c = k" "ids c = map g [0..<kind_volume k]" "container_volume c = kind_volume k"
    using c by (auto simp: holds_def container_volume_def)
  have n: "card (set (ids c)) = ?n" using s(3) by simp
  from container_shrink_spec [OF s(1)] obtain c' where c': "container_shrink c = Some c'" "wf_container c'"
    "ids c' = ids c" "pc_kind c' = k"
    "bits_per_entry c' = (if ?n = 1 then 0
      else if max (bits_for ?n) (min_indirect_bits k) \<le> max_indirect_bits k then max (bits_for ?n) (min_indirect_bits k)
      else bits_per_entry c)" unfolding n s(2) by blast
  have "bits_per_entry c' = width k d ?n" if "?n \<le> 2 ^ max_indirect_bits k"
  proof -
    have "(2 :: nat) ^ max_indirect_bits k \<le> 256" by (cases k) simp_all
    with that have "bits_for ?n \<le> max_indirect_bits k" by (subst bits_for_le_iff) (cases k; simp)+
    then show ?thesis using that c'(5) by (simp add: width_def max.commute)
  qed
  moreover have "container_get c' i = (if i < kind_volume k then Some (g i) else None)" for i
    using c' s by (auto simp: container_get_eq container_volume_def)
  ultimately show ?thesis using P c'(1) by simp
qed

lemma card_words: "n \<le> 2 ^ 32 \<Longrightarrow> card ((word_of_nat :: nat \<Rightarrow> u32) ` {0..<n}) = n"
proof (subst card_image)
  assume "n \<le> 2 ^ 32"
  then show "inj_on (word_of_nat :: nat \<Rightarrow> u32) {0..<n}"
    by (intro inj_on_inverseI [where g = unat]) (auto simp: unat_slot)
qed simp

lemma small_words: "i < 32768 \<Longrightarrow> unat (word_of_nat i :: u32) < 32768"
  using unat_slot [of i] by simp

lemma zero_in_words [simp]: "insert 0 ((word_of_nat :: nat \<Rightarrow> u32) ` {0..<numeral n}) = word_of_nat ` {0..<numeral n}"
  by (auto intro: image_eqI [of _ _ 0])

lemma bits_for_few [simp]: "bits_for 0 = 1" "bits_for (Suc 0) = 1" "bits_for (Suc (Suc 0)) = 1"
proof -
  have "bits_for 2 = 1" using bits_for_value [of 2 0] by simp
  then show "bits_for (Suc (Suc 0)) = 1" unfolding numeral_2_eq_2 .
qed (simp_all add: bits_for_def)

lemma bits_for_counts_correctly_passes: bits_for_counts_correctly
  unfolding bits_for_counts_correctly_def
  using bits_for_value [of 0 0] bits_for_value [of 1 0] bits_for_value [of 2 0] bits_for_value [of 3 1]
    bits_for_value [of 4 1] bits_for_value [of 5 2] bits_for_value [of 256 7] bits_for_value [of 257 8] by simp

lemma a_uniform_container_stores_nothing_per_entry_passes: a_uniform_container_stores_nothing_per_entry
proof -
  have c: "holds Blocks 15 (\<lambda>_. STONE) {STONE} (blocks STONE)" by (rule holds_blocks) (simp add: STONE_def)
  then have "container_volume (blocks STONE) = 4096" by (simp add: holds_def container_volume_def)
  then show ?thesis
    by (simp add: a_uniform_container_stores_nothing_per_entry_def holds_bits [OF c] holds_get [OF c] width_def
        list_all_iff Let_def)
qed

lemma writing_the_same_value_does_not_promote_passes: writing_the_same_value_does_not_promote
  unfolding writing_the_same_value_does_not_promote_def
  by (rule holds_set [OF holds_blocks]) (auto simp: STONE_def holds_bits width_def)

lemma second_value_promotes_to_indirect_at_the_minimum_width_passes:
  second_value_promotes_to_indirect_at_the_minimum_width
  unfolding second_value_promotes_to_indirect_at_the_minimum_width_def
  by (rule holds_set [OF holds_blocks]) (auto simp: STONE_def AIR_def holds_bits holds_get width_def)

lemma palette_widens_as_values_are_added_passes: palette_widens_as_values_are_added
  unfolding palette_widens_as_values_are_added_def
proof (rule holds_set_range [OF holds_blocks])
  fix c assume "holds Blocks 15 (\<lambda>i. if 0 \<le> i \<and> i < 16 then word_of_nat i else AIR)
    ({AIR} \<union> word_of_nat ` {0..<16}) c"
  then have c: "holds Blocks 15 (\<lambda>i. if i < 16 then word_of_nat i else AIR) (word_of_nat ` {0..<16}) c"
    by (simp add: AIR_def)
  have "99 \<notin> (word_of_nat ` {0..<16} :: u32 set)"
  proof
    assume "99 \<in> (word_of_nat ` {0..<16} :: u32 set)"
    then obtain i where "i < 16" "(99 :: u32) = word_of_nat i" by auto
    then have "unat (99 :: u32) < 16" using unat_slot [of i] by simp
    then show False by simp
  qed
  then have "card (insert 99 (word_of_nat ` {0..<16} :: u32 set)) = 17"
    using card_words [of 16] by simp
  then show "bits_per_entry c = 4 \<and> returned (container_set c 16 99) (\<lambda>(_, container). bits_per_entry container = 5 \<and>
      list_all (\<lambda>i. container_get container i = Some (word_of_nat i)) [0..<16] \<and> container_get container 16 = Some 99)"
    using holds_bits [OF c] card_words [of 16] bits_for_value [of 16 3] bits_for_value [of 17 4]
    by (auto intro!: holds_set [OF c] simp: holds_bits holds_get width_def list_all_iff)
qed (auto simp: AIR_def small_words)

lemma exceeding_the_palette_limit_switches_to_direct_passes: exceeding_the_palette_limit_switches_to_direct
  unfolding exceeding_the_palette_limit_switches_to_direct_def
  by (rule holds_set_range [OF holds_blocks])
    (use card_words [of 257] in
      \<open>auto simp: AIR_def small_words holds_bits holds_get width_def list_all_iff DIRECT_BITS_def\<close>)

lemma set_returns_the_previous_id_through_every_representation_passes:
  set_returns_the_previous_id_through_every_representation
proof -
  have u: "unat (word_of_nat i + 100 :: u32) < 2 ^ 15" if "i < 300" for i :: nat
    using small_words [of "i + 100"] that by simp
  show ?thesis
    unfolding set_returns_the_previous_id_through_every_representation_def
    by (rule holds_set [OF holds_blocks]) (auto simp: AIR_def STONE_def intro!: holds_set holds_set_range dest: u)
qed

lemma biomes_use_their_own_thresholds_passes: biomes_use_their_own_thresholds
proof -
  have c: "holds Biomes 6 (\<lambda>_. 0) {0} (filled Biomes 6 0)" by (rule holds_filled) simp_all
  then have v: "container_volume (filled Biomes 6 0) = 64" by (simp add: holds_def container_volume_def)
  have u: "unat (word_of_nat i :: u32) < 64" if "i < 9" for i :: nat using unat_slot [of i] that by simp
  have "(1 :: u32) \<in> word_of_nat ` {0..<9}" by (rule image_eqI [of _ _ 1]) simp_all
  then have W: "insert 1 (word_of_nat ` {0..<9}) = (word_of_nat ` {0..<9} :: u32 set)" by blast
  show ?thesis
    unfolding biomes_use_their_own_thresholds_def Let_def
    by (intro conjI v, rule holds_set [OF c])
      (use card_words [of 9] in \<open>auto simp: holds_bits width_def W u intro!: holds_set_range\<close>)
qed

lemma fill_resets_to_single_value_passes: fill_resets_to_single_value
  unfolding fill_resets_to_single_value_def
  by (rule holds_set_range [OF holds_blocks])
    (use card_words [of 100] in \<open>auto simp: AIR_def STONE_def small_words holds_bits width_def Let_def
      holds_get [OF holds_fill] holds_bits [OF holds_fill]\<close>)

lemma count_below: "n \<le> m \<Longrightarrow> length (filter (\<lambda>i. i < n) [0..<m]) = n" "n \<le> m \<Longrightarrow> length (filter (\<lambda>i. \<not> i < n) [0..<m]) = m - n"
proof -
  assume "n \<le> m"
  then have e: "[0..<m] = [0..<n] @ [n..<m]" using upt_add_eq_append [of 0 n "m - n"] by simp
  show "length (filter (\<lambda>i. i < n) [0..<m]) = n" "length (filter (\<lambda>i. \<not> i < n) [0..<m]) = m - n"
    unfolding e by (simp_all add: filter_True filter_False)
qed

lemma count_matches_a_manual_sweep_passes: count_matches_a_manual_sweep
proof -
  have "returned (set_range (blocks AIR) 0 1000 (\<lambda>_. STONE)) (\<lambda>container.
       container_count container (\<lambda>id. id = STONE) = Some 1000 \<and>
       container_count container (\<lambda>id. id = AIR) = Some (4096 - 1000) \<and>
       container_count container (\<lambda>id. id \<noteq> AIR) = Some 1000)"
  proof (rule holds_set_range [OF holds_blocks])
    fix c assume c: "holds Blocks 15 (\<lambda>i. if 0 \<le> i \<and> i < 1000 then STONE else AIR) ({AIR} \<union> (\<lambda>_. STONE) ` {0..<1000}) c"
    have e: "((if i < 1000 then STONE else AIR) = STONE) = (i < 1000)" "((if i < 1000 then STONE else AIR) = AIR) = (\<not> i < 1000)"
      for i :: nat by (simp_all add: STONE_def AIR_def)
    show "container_count c (\<lambda>id. id = STONE) = Some 1000 \<and> container_count c (\<lambda>id. id = AIR) = Some (4096 - 1000) \<and>
        container_count c (\<lambda>id. id \<noteq> AIR) = Some 1000"
      using count_below [of 1000 4096]
      by (simp add: holds_count [OF c] filter_map comp_def e del: not_less not_less_iff_gr_or_eq)
  qed (simp_all add: AIR_def STONE_def)
  moreover have "container_count (blocks STONE) (\<lambda>id. id \<noteq> AIR) = Some 4096"
    "container_count (blocks AIR) (\<lambda>id. id \<noteq> AIR) = Some 0"
    by (simp_all add: blocks_def filled_def container_count_def container_volume_def STONE_def AIR_def)
  ultimately show ?thesis by (simp add: count_matches_a_manual_sweep_def)
qed

lemma for_each_agrees_with_get_in_every_representation_passes: for_each_agrees_with_get_in_every_representation
  unfolding for_each_agrees_with_get_in_every_representation_def Let_def
  by (intro conjI holds_check [OF holds_blocks], simp add: AIR_def, rule holds_set [OF holds_blocks])
    (auto simp: AIR_def STONE_def small_words holds_check intro!: holds_set_range)

lemma shrink_recovers_a_single_value_container_passes: shrink_recovers_a_single_value_container
proof -
  have "(\<lambda>i. 0) ` {0..<kind_volume Blocks} = {0 :: u32}" by (rule image_constant [of 0]) simp
  then show ?thesis
    unfolding shrink_recovers_a_single_value_container_def
    by (intro holds_set_range [OF holds_blocks])
      (use card_words [of 500] in \<open>auto simp: AIR_def STONE_def small_words holds_bits width_def DIRECT_BITS_def
        intro!: holds_set holds_fill holds_shrink\<close>)
qed

lemma wire_format_single_value_is_three_bytes_passes: wire_format_single_value_is_three_bytes
  by (simp add: wire_format_single_value_is_three_bytes_def blocks_def filled_def container_write_def write_u8_def
      write_varint_def write_leb.simps STONE_def)

lemma shrink_narrows_an_oversized_palette_passes: shrink_narrows_an_oversized_palette
  unfolding shrink_narrows_an_oversized_palette_def
proof (rule holds_set_range [OF holds_blocks])
  let ?f = "\<lambda>i :: nat. if i mod 2 = 0 then AIR else STONE"
  fix c assume "holds Blocks 15 (\<lambda>i. if 0 \<le> i \<and> i < 20 then word_of_nat i else AIR)
    ({AIR} \<union> word_of_nat ` {0..<20}) c"
  then have c: "holds Blocks 15 (\<lambda>i. if i < 20 then word_of_nat i else 0) (word_of_nat ` {0..<20}) c"
    unfolding AIR_def by simp
  have "returned (set_range c 0 20 ?f) (\<lambda>c. returned (container_shrink c) (\<lambda>c. bits_per_entry c = 4 \<and>
      list_all (\<lambda>i. container_get c i = Some (?f i)) [0..<20]))"
  proof (rule holds_set_range [OF c])
    fix c assume c: "holds Blocks 15 (\<lambda>i. if 0 \<le> i \<and> i < 20 then ?f i else if i < 20 then word_of_nat i else 0)
      (word_of_nat ` {0..<20} \<union> ?f ` {0..<20}) c"
    have g: "(\<lambda>i :: nat. if 0 \<le> i \<and> i < 20 then ?f i else if i < 20 then word_of_nat i else 0) ` {0..<kind_volume Blocks} = {0, 1}"
      (is "?g ` _ = _")
    proof
      show "?g ` {0..<kind_volume Blocks} \<subseteq> {0, 1}" by (auto simp: AIR_def STONE_def)
      have e: "?g 0 = 0" "?g 1 = 1" by (simp_all add: AIR_def STONE_def)
      have "?g 0 \<in> ?g ` {0..<kind_volume Blocks}" "?g 1 \<in> ?g ` {0..<kind_volume Blocks}"
        by (rule imageI, simp)+
      then show "{0, 1} \<subseteq> ?g ` {0..<kind_volume Blocks}" unfolding e by blast
    qed
    show "returned (container_shrink c) (\<lambda>c. bits_per_entry c = 4 \<and>
        list_all (\<lambda>i. container_get c i = Some (?f i)) [0..<20])"
      by (rule holds_shrink [OF c, unfolded g]) (simp add: width_def list_all_iff)
  qed (auto simp: AIR_def STONE_def)
  then show "bits_per_entry c = 5 \<and> returned (set_range c 0 20 ?f) (\<lambda>c. returned (container_shrink c)
      (\<lambda>c. bits_per_entry c = 4 \<and> list_all (\<lambda>i. let expected = ?f i in container_get c i = Some expected) [0..<20]))"
    using holds_bits [OF c] card_words [of 20] bits_for_value [of 20 4] by (simp add: width_def Let_def)
qed (auto simp: AIR_def small_words)

text \<open>The vector beside the container is written at the same indices, so it is the list of what was written.\<close>

lemma run_with_expected:
  assumes "iterate (\<lambda>i c. map_option snd (container_set c i (f i))) [0..<n] c = Some c'" "n \<le> length xs"
  shows "iterate (\<lambda>i (c, xs). let v = f i in map_option (\<lambda>(_, c). (c, xs[i := v])) (container_set c i v)) [0..<n] (c, xs) =
    Some (c', map f [0..<n] @ drop n xs)"
  using assms
proof (induction n arbitrary: c')
  case (Suc n)
  then obtain c1 p where c1: "iterate (\<lambda>i c. map_option snd (container_set c i (f i))) [0..<n] c = Some c1"
    "container_set c1 n (f n) = Some (p, c')" by (auto simp: bind_eq_Some_conv)
  with Suc show ?case by (simp add: list_update_append Cons_nth_drop_Suc [symmetric])
qed simp

lemma shrink_preserves_contents_exactly_passes: shrink_preserves_contents_exactly
proof -
  let ?f = "\<lambda>i. word_of_nat (i mod 7) :: u32"
  have "unat (?f i) < 2 ^ 15" for i using unat_slot [of "i mod 7"] mod_less_divisor [of 7 i] by simp
  moreover have "holds Blocks 15 (\<lambda>_. AIR) {AIR} (blocks AIR)" by (rule holds_blocks) (simp add: AIR_def)
  ultimately have "returned (set_range (blocks AIR) 0 4096 ?f) (\<lambda>c. \<exists>W. holds Blocks 15 ?f W c)"
    by (intro holds_set_range) (auto simp: holds_def cong: map_cong)
  then obtain c W where c: "set_range (blocks AIR) 0 4096 ?f = Some c" "holds Blocks 15 ?f W c"
    by (auto simp: returned_def split: option.splits)
  have "returned (container_shrink c) (\<lambda>c. list_all (\<lambda>i. container_get c i = Some (map ?f [0..<4096] ! i)) [0..<4096])"
    by (rule holds_shrink [OF c(2)]) (simp add: list_all_iff)
  then show ?thesis
    unfolding shrink_preserves_contents_exactly_def
    by (subst run_with_expected [OF c(1) [unfolded set_range_def]]) simp_all
qed

lemma wire_len_matches_what_write_produces_passes: wire_len_matches_what_write_produces
  unfolding wire_len_matches_what_write_produces_def Let_def
  by (intro conjI length_container_write, rule holds_set [OF holds_blocks])
    (auto simp: AIR_def STONE_def small_words length_container_write intro!: holds_set_range)

lemma indirect_wire_format_has_palette_then_cells_passes: indirect_wire_format_has_palette_then_cells
proof -
  have b: "wf_container (blocks AIR)" "container_volume (blocks AIR) = 4096" "pc_kind (blocks AIR) = Blocks"
    "pc_direct_bits (blocks AIR) = 15" "shape_of (blocks AIR) = Uniform 0"
    using filled_spec(1) [of 15 AIR Blocks]
    by (simp_all add: blocks_def DIRECT_BITS_def AIR_def filled_def container_volume_def shape_of_def)
  obtain p c where c: "container_set (blocks AIR) 0 STONE = Some (p, c)" "wf_container c" "pc_kind c = Blocks"
    using container_set_spec [OF b(1), of 0 STONE] b(2-4) by (auto simp: id_fits_def STONE_def)
  have "shape_of c = Listed [0, 1] 4" using container_set_shape [OF b(1) _ c(1)] b by (simp add: STONE_def)
  then obtain s where s: "pc_repr c = Indirect [0, 1] s" "bs_bits s = 4"
    by (auto simp: shape_of_def split: repr.splits)
  then have "wf_storage s" "bs_len s = 4096"
    using c(2,3) by (auto simp: wf_container_def wf_indirect_def container_volume_def)
  then have data: "length (bs_data s) = 256" using s(2) by (auto simp: wf_storage_def div_ceil_def)
  let ?cells = "concat (map write_i64 (bs_data s))"
  have w: "container_write c = write_u8 4 @ write_varint 2 @ write_varint 0 @ write_varint 1 @ write_varint 256 @ ?cells"
    using s data by (simp add: container_write_def write_cells_def)
  have l: "length (write_varint 0) = 1" "length (write_varint 1) = 1" "length (write_varint 2) = 1"
    "length (write_varint 256) = 2" "length (write_u8 4) = 1" "length ?cells = 2048"
    using length_concat_i64 [of "bs_data s"] data by (simp_all add: write_varint_def write_leb.simps write_u8_def)
  have "unwrap (rbind read_u8 (\<lambda>bits. rbind rd_varint (\<lambda>len. rbind rd_varint (\<lambda>first. rbind rd_varint (\<lambda>second.
      rbind rd_varint (\<lambda>cells. rreturn (bits, len, first, second, cells)))))) (reader_new (container_write c)))
      (\<lambda>((bits, len, first, second, cells), r). bits = 4 \<and> len = 2 \<and> first = AIR \<and> second = STONE \<and> cells = 256 \<and>
        (reader_is_empty r \<or> remaining r = 256 * 8))"
    unfolding w reader_new_cursor by (simp add: codec_steps l rreturn_apply AIR_def STONE_def)
  then show ?thesis by (simp add: indirect_wire_format_has_palette_then_cells_def c(1))
qed

end
