(* ===== verification/Reference.thy ===== *)
theory Reference
  imports Chunk
begin

text \<open>
  The reference definitions that the tests of \<open>crates/rukkit-world/src/chunk.rs\<close> and \<open>generator.rs\<close> compare
  the optimised code with: a scan for heights that looks at every block from the top, and a generator that
  writes every block on its own. The tests run them on one chunk; here they are proved equal to the code
  for every well-formed chunk, and for every generator whose layers can be computed.
\<close>

section \<open>The naive scan\<close>

definition column_at :: "usize \<Rightarrow> usize \<Rightarrow> usize" where
  "column_at x z = z * SECTION_SIZE + x"

text \<open>The range \<open>min_y..=max_y\<close>, which is what the world contains.\<close>

definition world_range :: "height_limits \<Rightarrow> i32 list option" where
  "world_range l = map_option (\<lambda>max_y. map word_of_int [sint (hl_min_y l)..sint max_y]) (limits_max_y l)"

fun naive_column :: "chunk \<Rightarrow> block_states \<Rightarrow> usize \<Rightarrow> usize \<Rightarrow> i32 list \<Rightarrow> u32 list \<Rightarrow> u32 list option" where
  "naive_column c states x z [] out = Some out"
| "naive_column c states x z (y # ys) out =
     Option.bind (chunk_block c x y z states) (\<lambda>id.
     if is_air states id then naive_column c states x z ys out
     else Option.bind (i32_checked (sint y - sint (hl_min_y (ch_limits c)))) (\<lambda>d.
       Option.bind (i32_checked (sint d + 1)) (\<lambda>height.
       if column_at x z < length out then Some (out[column_at x z := height]) else None)))"

definition naive_heights :: "chunk \<Rightarrow> block_states \<Rightarrow> u32 list option" where
  "naive_heights c states =
     iterate (\<lambda>(z, x) out. Option.bind (world_range (ch_limits c)) (\<lambda>ys.
       naive_column c states x z (rev ys) out)) layer_columns (replicate COLUMNS 0)"

section \<open>The generator that writes every block\<close>

definition sweep_layer :: "flat_generator \<Rightarrow> height_limits \<Rightarrow> block_states \<Rightarrow> i32 \<Rightarrow> chunk \<Rightarrow> chunk option" where
  "sweep_layer g l states y c =
     Option.bind (block_at g y l states) (\<lambda>state.
     if is_air states state then Some c
     else iterate (\<lambda>(z, x) c. map_option snd (chunk_set_block c x y z state states)) layer_columns c)"

definition sweep_generate :: "flat_generator \<Rightarrow> chunk_pos \<Rightarrow> height_limits \<Rightarrow> block_states \<Rightarrow> chunk option" where
  "sweep_generate g pos l states =
     Option.bind (chunk_empty pos l states) (\<lambda>c.
     Option.bind (world_range l) (\<lambda>ys.
     Option.bind (iterate (sweep_layer g l states) ys c) (\<lambda>c.
     recompute_heightmaps c states)))"

section \<open>The scan computes the heights of the reference\<close>

lemma world_range_eq:
  assumes "wf_limits l"
  shows "world_range l = Some (map (\<lambda>h. word_of_int (sint (hl_min_y l) + int h)) [0..<world_height l])"
proof -
  let ?a = "sint (hl_min_y l)" and ?n = "world_height l"
  have "sint (word_of_int (?a + int ?n - 1) :: i32) = ?a + int ?n - 1"
    using wf_limitsD [OF assms] by (intro sint_word_of_int_i32) linarith+
  moreover have "[a..a + int n - 1] = map (\<lambda>h. a + int h) [0..<n]" for a n
  proof (induction n)
    case (Suc n)
    have "[a..a + int (Suc n) - 1] = [a..a + int n - 1] @ [a + int n]" by (simp add: upto_rec2)
    with Suc show ?case by simp
  qed simp
  ultimately show ?thesis by (simp add: world_range_def limits_max_y_eq [OF assms] comp_def)
qed

lemma sint_world_range:
  assumes "wf_limits l" "h < world_height l"
  shows "sint (word_of_int (sint (hl_min_y l) + int h) :: i32) = sint (hl_min_y l) + int h"
  using wf_limitsD [OF assms(1)] assms(2) by (intro sint_word_of_int_i32) linarith+

lemma naive_column_eq:
  assumes c: "wf_chunk states c" and xz: "x < 16" "z < 16" and len: "length out = 256"
    and zero: "out ! (z * 16 + x) = 0"
  shows "n \<le> world_height (ch_limits c) \<Longrightarrow>
    naive_column c states x z (rev (map (\<lambda>h. word_of_int (sint (hl_min_y (ch_limits c)) + int h)) [0..<n])) out =
      Some (out[z * 16 + x := word_of_nat (top (\<lambda>h. \<not> is_air states (block_id c x h z)) 0 n)])"
proof (induction n)
  case 0
  have "out[z * 16 + x := 0] = out" using zero list_update_id [of out "z * 16 + x"] by simp
  then show ?case by simp
next
  case (Suc n)
  let ?l = "ch_limits c" and ?f = "\<lambda>h. \<not> is_air states (block_id c x h z)"
  let ?y = "word_of_int (sint (hl_min_y ?l) + int n) :: i32"
  note l = wf_chunkD(1) [OF c]
  have n: "n < world_height ?l" using Suc.prems by simp
  note y = sint_world_range [OF l n]
  have blk: "chunk_block c x ?y z states = Some (block_id c x n z)" by (rule chunk_block_eq [OF c xz y n])
  have n31: "Suc n < 2 ^ 31" using wf_limitsD(3) [OF l] n by linarith
  have "int (Suc n) < int (2 ^ 31)" using n31 by (simp only: of_nat_less_iff)
  then have ni: "int n + 1 < 2 ^ 31" by simp
  have d: "i32_checked (sint ?y - sint (hl_min_y ?l)) = Some (word_of_int (int n))"
    unfolding y using ni by (simp add: i32_checked_def)
  have s: "sint (word_of_int (int n) :: i32) = int n" using ni by (intro sint_word_of_int_i32) linarith+
  have h: "i32_checked (int n + 1) = Some (word_of_int (int n + 1))"
    using ni by (intro i32_checked_eq) linarith+
  have col: "column_at x z = z * 16 + x" "z * 16 + x < length out"
    using xz len by (simp_all add: column_at_def SECTION_SIZE_def)
  have t: "top ?f 0 (Suc n) = (if ?f n then Suc n else top ?f 0 n)" by (simp add: top_def)
  have w: "word_of_int (int n + 1) = (word_of_nat (Suc n) :: u32)" by simp
  let ?ys = "rev (map (\<lambda>h. word_of_int (sint (hl_min_y ?l) + int h)) [0..<n]) :: i32 list"
  have e: "rev (map (\<lambda>h. word_of_int (sint (hl_min_y ?l) + int h)) [0..<Suc n]) = ?y # ?ys" by simp
  have step: "naive_column c states x z (?y # ?ys) out = (if is_air states (block_id c x n z)
      then naive_column c states x z ?ys out else Some (out[z * 16 + x := word_of_nat (Suc n)]))"
    using col(2) by (simp only: naive_column.simps blk bind.bind_lunit d s h w col(1) if_True)
  show ?case unfolding e step t using Suc.IH n by (simp only: if_not_P less_imp_le not_not split: if_split) simp
qed

lemma naive_heights_run:
  assumes c: "wf_chunk states c"
  defines "height \<equiv> \<lambda>x z. word_of_nat (top (\<lambda>h. \<not> is_air states (block_id c x h z)) 0 (world_height (ch_limits c)))
    :: u32"
  shows "length out = 256 \<Longrightarrow> distinct cs \<Longrightarrow> \<forall>(z, x) \<in> set cs. z < 16 \<and> x < 16 \<and> out ! (z * 16 + x) = 0 \<Longrightarrow>
    \<exists>out'. iterate (\<lambda>(z, x) out. Option.bind (world_range (ch_limits c)) (\<lambda>ys.
        naive_column c states x z (rev ys) out)) cs out = Some out' \<and> length out' = 256 \<and>
      (\<forall>z x. z < 16 \<longrightarrow> x < 16 \<longrightarrow>
        out' ! (z * 16 + x) = (if (z, x) \<in> set cs then height x z else out ! (z * 16 + x)))"
proof (induction cs arbitrary: out)
  case (Cons p cs)
  obtain z x where p: "p = (z, x)" by fastforce
  with Cons.prems have zx: "z < 16" "x < 16" "out ! (z * 16 + x) = 0" by auto
  let ?out = "out[z * 16 + x := height x z]"
  have at: "?out ! (z' * 16 + x') = (if (z', x') = p then height x z else out ! (z' * 16 + x'))"
    if "z' < 16" "x' < 16" for z' x'
    using that zx Cons.prems(1) column_inj [OF zx(2) that(2), of z z'] by (auto simp: p nth_list_update)
  have "z' < 16 \<and> x' < 16 \<and> ?out ! (z' * 16 + x') = 0" if "(z', x') \<in> set cs" for z' x'
    using at [of z' x'] that Cons.prems(2,3) by (auto simp: p)
  then have ih: "\<forall>(z', x') \<in> set cs. z' < 16 \<and> x' < 16 \<and> ?out ! (z' * 16 + x') = 0" by blast
  have "length ?out = 256" "distinct cs" using Cons.prems(1,2) by simp_all
  from Cons.IH [OF this ih] obtain out' where out': "iterate (\<lambda>(z, x) out. Option.bind (world_range (ch_limits c)) (\<lambda>ys.
      naive_column c states x z (rev ys) out)) cs ?out = Some out'" "length out' = 256"
    "\<And>z' x'. z' < 16 \<Longrightarrow> x' < 16 \<Longrightarrow>
      out' ! (z' * 16 + x') = (if (z', x') \<in> set cs then height x' z' else ?out ! (z' * 16 + x'))"
    by blast
  have "out' ! (z' * 16 + x') = (if (z', x') \<in> set (p # cs) then height x' z' else out ! (z' * 16 + x'))"
    if "z' < 16" "x' < 16" for z' x'
    using that by (auto simp: out'(3) at p)
  moreover have "iterate (\<lambda>(z, x) out. Option.bind (world_range (ch_limits c)) (\<lambda>ys.
      naive_column c states x z (rev ys) out)) (p # cs) out = Some out'"
    using out'(1) naive_column_eq [OF c zx(2,1) Cons.prems(1) zx(3) order_refl]
    by (simp add: p world_range_eq [OF wf_chunkD(1) [OF c]] height_def)
  ultimately show ?case using out'(2) by blast
qed simp

lemma distinct_layer_columns: "distinct layer_columns"
  by (simp add: layer_columns_def SECTION_SIZE_def upt_rec)

lemma naive_heights_eq:
  assumes c: "wf_chunk states c" and hs: "resolved states c 0 hs"
  shows "naive_heights c states = Some hs"
proof -
  have start: "\<forall>(z, x) \<in> set layer_columns. z < 16 \<and> x < 16 \<and> replicate COLUMNS (0 :: u32) ! (z * 16 + x) = 0"
    by (auto simp: set_layer_columns COLUMNS_def SECTION_SIZE_def)
  have "length (replicate COLUMNS (0 :: u32)) = 256" by (simp add: COLUMNS_def SECTION_SIZE_def)
  from naive_heights_run [OF c this distinct_layer_columns start] obtain out where
    out: "naive_heights c states = Some out" "length out = 256"
    "\<And>z x. z < 16 \<Longrightarrow> x < 16 \<Longrightarrow> out ! (z * 16 + x) =
      word_of_nat (top (\<lambda>h. \<not> is_air states (block_id c x h z)) 0 (world_height (ch_limits c)))"
    by (auto simp: naive_heights_def set_layer_columns)
  have "out ! i = hs ! i" if "i < 256" for i
  proof -
    have d: "i div 16 < 16" "i mod 16 < 16" "i div 16 * 16 + i mod 16 = i" using that by simp_all
    have "unat (hs ! (i div 16 * 16 + i mod 16)) =
        top (\<lambda>h. \<not> is_air states (block_id c (i mod 16) h (i div 16))) 0 (world_height (ch_limits c))"
      using hs d(1,2) unfolding resolved_def by blast
    then have "out ! (i div 16 * 16 + i mod 16) = word_of_nat (unat (hs ! (i div 16 * 16 + i mod 16)))"
      by (simp only: out(3) [OF d(1,2)])
    then show ?thesis unfolding d(3) by simp
  qed
  moreover have "length hs = 256" using hs by (simp add: resolved_def)
  ultimately have "out = hs" using out(2) by (intro nth_equalityI) simp_all
  with out(1) show ?thesis by simp
qed

section \<open>The heightmaps depend on the blocks alone\<close>

lemma iterate_keeps:
  assumes "\<And>x s s'. f x s = Some s' \<Longrightarrow> g s' = g s"
  shows "iterate f xs s = Some s' \<Longrightarrow> g s' = g s"
  by (induction xs arbitrary: s) (auto simp: bind_eq_Some_conv dest: assms)

lemma set_block_keeps: "chunk_set_block c x y z v states = Some (p, c') \<Longrightarrow> ch_heightmaps c' = ch_heightmaps c"
  by (auto simp: chunk_set_block_def bind_eq_Some_conv split: option.splits)

lemma sweep_layer_keeps: "sweep_layer g l states y c = Some c' \<Longrightarrow> ch_heightmaps c' = ch_heightmaps c"
  by (auto simp: sweep_layer_def bind_eq_Some_conv split: if_splits
      elim!: iterate_keeps [where g = ch_heightmaps, rotated] dest: set_block_keeps)

lemma flat_section_keeps: "flat_section g l states i c = Some c' \<Longrightarrow> ch_heightmaps c' = ch_heightmaps c"
  by (auto simp: flat_section_def bind_eq_Some_conv)

lemma resolved_unique:
  assumes "resolved states c 0 hs" "resolved states c' 0 hs'" "ch_limits c' = ch_limits c"
    and "\<And>x z h. x < 16 \<Longrightarrow> z < 16 \<Longrightarrow> h < world_height (ch_limits c) \<Longrightarrow> block_id c' x h z = block_id c x h z"
  shows "hs' = hs"
proof (rule nth_equalityI)
  show "length hs' = length hs" using assms(1,2) by (simp add: resolved_def)
  fix i assume "i < length hs'"
  then have d: "i div 16 < 16" "i mod 16 < 16" "i = i div 16 * 16 + i mod 16"
    using assms(2) by (simp_all add: resolved_def)
  let ?f = "\<lambda>c h. \<not> is_air states (block_id c (i mod 16) h (i div 16))"
  have "find (?f c') (rev [0..<world_height (ch_limits c)]) = find (?f c) (rev [0..<world_height (ch_limits c)])"
    using assms(4) [OF d(2,1)] by (intro find_cong) auto
  moreover have "unat (hs ! (i div 16 * 16 + i mod 16)) = top (?f c) 0 (world_height (ch_limits c))"
    "unat (hs' ! (i div 16 * 16 + i mod 16)) = top (?f c') 0 (world_height (ch_limits c))"
    using assms(1-3) d(1,2) unfolding resolved_def by metis+
  ultimately have "unat (hs' ! (i div 16 * 16 + i mod 16)) = unat (hs ! (i div 16 * 16 + i mod 16))"
    by (simp only: top_def)
  then show "hs' ! i = hs ! i" using d(3) by (simp add: unsigned_word_eqI)
qed

lemma recompute_determined:
  assumes c: "wf_chunk states c" and c': "wf_chunk states c'"
    and same: "ch_limits c' = ch_limits c" "ch_heightmaps c' = ch_heightmaps c"
    and blocks: "\<And>x z h. x < 16 \<Longrightarrow> z < 16 \<Longrightarrow> h < world_height (ch_limits c) \<Longrightarrow>
      block_id c' x h z = block_id c x h z"
    and run: "recompute_heightmaps c states = Some d" "recompute_heightmaps c' states = Some d'"
  shows "ch_heightmaps d' = ch_heightmaps d"
proof -
  obtain hs hs' where "scan_sections states (ch_sections c) (rev [0..<length (ch_sections c)])
      (replicate COLUMNS 0, COLUMNS) = Some (hs, zeros hs)" and r: "resolved states c 0 hs"
    and "scan_sections states (ch_sections c') (rev [0..<length (ch_sections c')])
      (replicate COLUMNS 0, COLUMNS) = Some (hs', zeros hs')" and r': "resolved states c' 0 hs'"
    using scan_eq [OF c] scan_eq [OF c'] by blast
  moreover have "hs' = hs" using resolved_unique [OF r r' same(1) blocks] .
  ultimately show ?thesis using run same by (auto simp: recompute_heightmaps_def)
qed

lemma storage_set_same:
  assumes s: "wf_storage s" and i: "i < bs_len s"
  shows "storage_set s i (contents s ! i) = Some (contents s ! i, s)"
proof -
  let ?c = "i div bs_values_per_long s" and ?o = "i mod bs_values_per_long s * bs_bits s"
  let ?w = "bs_data s ! ?c" and ?m = "bs_mask s"
  have m: "?m = mask (bs_bits s)" "bs_bits s \<le> 32" using s by (simp_all add: wf_storage_def)
  have f: "storage_fits s (contents s ! i)"
    using entry_bound [OF s, of i] i s by (simp add: storage_fits_iff)
  have u: "(ucast (contents s ! i) :: u64) = drop_bit ?o ?w AND ?m"
    using m(2) i by (intro bit_word_eqI) (auto simp: entry_def m(1) bit_simps)
  have "(?w AND NOT (push_bit ?o ?m)) OR push_bit ?o (drop_bit ?o ?w AND ?m) = ?w"
    by (intro bit_word_eqI) (auto simp: m(1) bit_simps)
  then show ?thesis using f i u
    by (simp add: storage_set_def locate_eq [OF s i] storage_fits_def Let_def entry_def)
qed

lemma record_height_same:
  assumes "wf_heightmaps l hm" "k < 256" "v \<le> hl_height l"
    and "contents (hm_motion_blocking hm) ! k = v" "contents (hm_world_surface hm) ! k = v"
  shows "record_height l k v hm = Some hm"
  using assms wf_heightmapsD [OF assms(1)] storage_set_same [of "hm_motion_blocking hm" k]
    storage_set_same [of "hm_world_surface hm" k] by (auto simp: record_height_def)

lemma iterate_stays: "(\<And>x. x \<in> set xs \<Longrightarrow> f x s = Some s) \<Longrightarrow> iterate f xs s = Some s"
  by (induction xs) auto

lemma recompute_idempotent:
  assumes c: "wf_chunk states c" and r: "recompute_heightmaps c states = Some c'"
  shows "recompute_heightmaps c' states = Some c'"
proof -
  from recompute_heightmaps_eq [OF c] r have c': "wf_chunk states c'" "ch_limits c' = ch_limits c"
    "ch_sections c' = ch_sections c"
    "contents (hm_world_surface (ch_heightmaps c')) = contents (hm_motion_blocking (ch_heightmaps c'))"
    "resolved states c 0 (contents (hm_motion_blocking (ch_heightmaps c')))" by auto
  let ?hs = "contents (hm_motion_blocking (ch_heightmaps c'))"
  from scan_eq [OF c'(1)] obtain hs where
    hs: "scan_sections states (ch_sections c') (rev [0..<length (ch_sections c')]) (replicate COLUMNS 0, COLUMNS) =
      Some (hs, zeros hs)" "resolved states c' 0 hs" by blast
  have "hs = ?hs" using resolved_unique [OF c'(5) hs(2) c'(2)] by (simp add: block_id_def c'(3))
  moreover have "record_height (ch_limits c') k (?hs ! k) (ch_heightmaps c') = Some (ch_heightmaps c')" if "k < 256" for k
  proof (rule record_height_same)
    show "wf_heightmaps (ch_limits c') (ch_heightmaps c')" using c'(1) by (simp add: wf_chunk_def)
    have d: "k div 16 < 16" "k mod 16 < 16" "k div 16 * 16 + k mod 16 = k" using that by simp_all
    have "unat (?hs ! (k div 16 * 16 + k mod 16)) = top (\<lambda>h. \<not> is_air states (block_id c (k mod 16) h (k div 16))) 0
        (world_height (ch_limits c))" using c'(5) d(1,2) unfolding resolved_def by blast
    then have "unat (?hs ! k) \<le> world_height (ch_limits c')" unfolding d(3) c'(2) by (metis top_le)
    then show "?hs ! k \<le> hl_height (ch_limits c')" by (simp add: word_le_nat_alt world_height_def)
  qed (use that c'(4) in simp_all)
  then have "iterate (\<lambda>(column, height). record_height (ch_limits c') column height) (enumerate 0 ?hs) (ch_heightmaps c') =
      Some (ch_heightmaps c')"
    using c'(5) by (intro iterate_stays) (auto simp: resolved_def in_set_enumerate_eq)
  ultimately show ?thesis by (simp add: recompute_heightmaps_def hs(1))
qed

section \<open>The sweep writes the blocks of the formula\<close>

lemma sweep_columns_eq:
  assumes v: "id_ok states v" and y: "sint y = sint (hl_min_y l) + int h" "h < world_height l"
  shows "wf_chunk states c \<Longrightarrow> ch_limits c = l \<Longrightarrow> \<forall>(z, x) \<in> set cs. z < 16 \<and> x < 16 \<Longrightarrow>
    \<exists>c'. iterate (\<lambda>(z, x) c. map_option snd (chunk_set_block c x y z v states)) cs c = Some c' \<and>
      wf_chunk states c' \<and> ch_limits c' = l \<and> (\<forall>x z h'. x < 16 \<longrightarrow> z < 16 \<longrightarrow> h' < world_height l \<longrightarrow>
        block_id c' x h' z = (if h' = h \<and> (z, x) \<in> set cs then v else block_id c x h' z))"
proof (induction cs arbitrary: c)
  case (Cons p cs)
  obtain z x where p: "p = (z, x)" by fastforce
  with Cons.prems have zx: "z < 16" "x < 16" by auto
  obtain c1 where c1: "chunk_set_block c x y z v states = Some (block_id c x h z, c1)" "wf_chunk states c1"
    "ch_limits c1 = l" "\<And>x' h' z'. x' < 16 \<Longrightarrow> z' < 16 \<Longrightarrow> h' < world_height l \<Longrightarrow>
      block_id c1 x' h' z' = (if x' = x \<and> h' = h \<and> z' = z then v else block_id c x' h' z')"
    using chunk_set_block_eq [OF Cons.prems(1) zx(2,1) v, of y h] y Cons.prems(2) by auto
  have "\<forall>(z, x) \<in> set cs. z < 16 \<and> x < 16" using Cons.prems(3) by simp
  from Cons.IH [OF c1(2,3) this] obtain c' where
    c': "iterate (\<lambda>(z, x) c. map_option snd (chunk_set_block c x y z v states)) cs c1 = Some c'"
      "wf_chunk states c'" "ch_limits c' = l" "\<And>x z h'. x < 16 \<Longrightarrow> z < 16 \<Longrightarrow> h' < world_height l \<Longrightarrow>
        block_id c' x h' z = (if h' = h \<and> (z, x) \<in> set cs then v else block_id c1 x h' z)" by blast
  have "block_id c' x' h' z' = (if h' = h \<and> (z', x') \<in> set (p # cs) then v else block_id c x' h' z')"
    if "x' < 16" "z' < 16" "h' < world_height l" for x' h' z'
    unfolding c'(4) [OF that] c1(4) [OF that] p by auto
  then show ?case using c'(1-3) c1(1) by (intro exI [of _ c']) (simp add: p)
qed simp

definition sweep_inv :: "flat_generator \<Rightarrow> height_limits \<Rightarrow> block_states \<Rightarrow> heightmaps \<Rightarrow> nat \<Rightarrow> chunk \<Rightarrow> bool" where
  "sweep_inv g l states hm m c \<longleftrightarrow> wf_chunk states c \<and> ch_limits c = l \<and> ch_heightmaps c = hm \<and>
     (\<forall>x z h. x < 16 \<longrightarrow> z < 16 \<longrightarrow> h < world_height l \<longrightarrow>
       block_id c x h z = (if h < m then flat_block g l states h else bst_air states))"

lemma sweep_layer_eq:
  assumes g: "wf_generator g" and st: "wf_states states" and l: "wf_limits l" and m: "m < world_height l"
    and inv: "sweep_inv g l states hm m c"
  shows "\<exists>c'. sweep_layer g l states (word_of_int (sint (hl_min_y l) + int m)) c = Some c' \<and>
    sweep_inv g l states hm (Suc m) c'"
proof -
  let ?v = "flat_block g l states m" and ?y = "word_of_int (sint (hl_min_y l) + int m) :: i32"
  note y = sint_world_range [OF l m]
  have step: "sweep_layer g l states ?y c = (if is_air states ?v then Some c
      else iterate (\<lambda>(z, x) c. map_option snd (chunk_set_block c x ?y z ?v states)) layer_columns c)"
    unfolding sweep_layer_def block_at_eq [OF g y] bind.bind_lunit ..
  have c: "wf_chunk states c" "ch_limits c = l" using inv by (simp_all add: sweep_inv_def)
  have cols: "\<forall>(z, x) \<in> set layer_columns. z < 16 \<and> x < 16" by (auto simp: set_layer_columns)
  from sweep_columns_eq [OF flat_block_ok [OF st] y m c cols, of g l m] obtain c1 where
    c1: "iterate (\<lambda>(z, x) c. map_option snd (chunk_set_block c x ?y z ?v states)) layer_columns c = Some c1"
      "wf_chunk states c1" "ch_limits c1 = l" "\<forall>x z h'. x < 16 \<longrightarrow> z < 16 \<longrightarrow> h' < world_height l \<longrightarrow>
        block_id c1 x h' z = (if h' = m \<and> (z, x) \<in> set layer_columns then ?v else block_id c x h' z)" by blast
  show ?thesis
  proof (cases "is_air states ?v")
    case True
    then have "sweep_inv g l states hm (Suc m) c" using inv by (auto simp: sweep_inv_def is_air_def less_Suc_eq)
    with step True show ?thesis by simp
  next
    case False
    with step c1(1) have run: "sweep_layer g l states ?y c = Some c1" by simp
    have "sweep_inv g l states hm (Suc m) c1"
      using inv c1(2-4) sweep_layer_keeps [OF run]
      by (auto simp: sweep_inv_def less_Suc_eq set_layer_columns)
    with run show ?thesis by blast
  qed
qed

lemma sweep_layers_eq:
  assumes g: "wf_generator g" and st: "wf_states states" and l: "wf_limits l"
    and inv: "sweep_inv g l states hm 0 c"
  shows "m \<le> world_height l \<Longrightarrow> \<exists>c'. iterate (sweep_layer g l states)
    (map (\<lambda>h. word_of_int (sint (hl_min_y l) + int h)) [0..<m]) c = Some c' \<and> sweep_inv g l states hm m c'"
proof (induction m)
  case (Suc m)
  then obtain c1 where c1: "iterate (sweep_layer g l states)
      (map (\<lambda>h. word_of_int (sint (hl_min_y l) + int h)) [0..<m]) c = Some c1" "sweep_inv g l states hm m c1"
    by auto
  from sweep_layer_eq [OF g st l _ c1(2)] c1(1) Suc.prems show ?case by auto
qed (use inv in simp)

lemma sweep_generate_eq:
  assumes g: "wf_generator g" and st: "wf_states states" and l: "wf_limits l"
    and c: "chunk_empty pos l states = Some c"
  shows "\<exists>c1 c2. sweep_inv g l states (ch_heightmaps c) (world_height l) c1 \<and>
    recompute_heightmaps c1 states = Some c2 \<and> sweep_generate g pos l states = Some c2"
proof -
  have "id_ok states (bst_air states)" using st by (simp add: wf_states_def)
  from chunk_empty_eq [OF l this, of pos] c have "sweep_inv g l states (ch_heightmaps c) 0 c"
    by (auto simp: sweep_inv_def)
  from sweep_layers_eq [OF g st l this order_refl] obtain c1 where
    c1: "iterate (sweep_layer g l states)
      (map (\<lambda>h. word_of_int (sint (hl_min_y l) + int h)) [0..<world_height l]) c = Some c1"
    "sweep_inv g l states (ch_heightmaps c) (world_height l) c1" by blast
  moreover have "wf_chunk states c1" using c1(2) by (simp add: sweep_inv_def)
  from recompute_heightmaps_eq [OF this] obtain c2 where "recompute_heightmaps c1 states = Some c2" by blast
  ultimately show ?thesis using c by (auto simp: sweep_generate_def world_range_eq [OF l])
qed

section \<open>The code agrees with its references\<close>

lemma recompute_naive_eq:
  assumes "wf_chunk states c"
  shows "\<exists>c' heights. recompute_heightmaps c states = Some c' \<and> naive_heights c states = Some heights \<and>
    ch_sections c' = ch_sections c \<and> recompute_heightmaps c' states = Some c' \<and> length heights = COLUMNS \<and>
    (\<forall>i < COLUMNS. storage_get (hm_motion_blocking (ch_heightmaps c')) i = Some (heights ! i) \<and>
      storage_get (hm_world_surface (ch_heightmaps c')) i = Some (heights ! i))"
proof -
  from recompute_heightmaps_eq [OF assms] obtain c' where
    c': "recompute_heightmaps c states = Some c'" "wf_chunk states c'" "ch_sections c' = ch_sections c"
      "contents (hm_world_surface (ch_heightmaps c')) = contents (hm_motion_blocking (ch_heightmaps c'))"
      "resolved states c 0 (contents (hm_motion_blocking (ch_heightmaps c')))" by blast
  have "wf_heightmaps (ch_limits c') (ch_heightmaps c')" using c'(2) by (simp add: wf_chunk_def)
  note D = wf_heightmapsD [OF this]
  have "storage_get (hm_motion_blocking (ch_heightmaps c')) i =
        Some (contents (hm_motion_blocking (ch_heightmaps c')) ! i)"
      "storage_get (hm_world_surface (ch_heightmaps c')) i =
        Some (contents (hm_motion_blocking (ch_heightmaps c')) ! i)" if "i < 256" for i
    using that D(1,2,4,5) nth_contents [of i "hm_world_surface (ch_heightmaps c')"] c'(4)
    by (simp_all add: storage_get_eq nth_contents)
  then show ?thesis using c'(1,3) naive_heights_eq [OF assms c'(5)] D(2) recompute_idempotent [OF assms c'(1)]
    by (simp add: COLUMNS_def SECTION_SIZE_def)
qed

lemma sweep_agrees:
  assumes "wf_generator g" "wf_states states" "wf_limits l"
  shows "\<exists>fast slow. flat_generate g pos l states = Some fast \<and> sweep_generate g pos l states = Some slow \<and>
    ch_heightmaps fast = ch_heightmaps slow \<and>
    (\<forall>x y z. x < 16 \<longrightarrow> z < 16 \<longrightarrow> chunk_block fast x y z states = chunk_block slow x y z states)"
proof -
  have air: "id_ok states (bst_air states)" using assms(2) by (simp add: wf_states_def)
  then obtain c where c: "chunk_empty pos l states = Some c" using chunk_empty_eq [OF assms(3)] by blast
  from flat_blocks_eq [OF assms c] obtain f where
    f: "iterate (flat_section g l states) [0..<section_count l] c = Some f" "wf_chunk states f" "ch_limits f = l"
      "\<forall>x z h. x < 16 \<longrightarrow> z < 16 \<longrightarrow> h < world_height l \<longrightarrow> block_id f x h z = flat_block g l states h" by blast
  have fm: "ch_heightmaps f = ch_heightmaps c"
    using f(1) by (rule iterate_keeps [where g = ch_heightmaps, rotated]) (rule flat_section_keeps)
  from sweep_generate_eq [OF assms c] obtain s slow where
    s: "sweep_inv g l states (ch_heightmaps c) (world_height l) s" "recompute_heightmaps s states = Some slow"
      "sweep_generate g pos l states = Some slow" by blast
  have sw: "wf_chunk states s" "ch_limits s = l" "ch_heightmaps s = ch_heightmaps c" using s(1) by (simp_all add: sweep_inv_def)
  from recompute_heightmaps_eq [OF f(2)] obtain fast where fast: "recompute_heightmaps f states = Some fast"
    "wf_chunk states fast" "ch_limits fast = l" "ch_sections fast = ch_sections f" using f(3) by auto
  from recompute_heightmaps_eq [OF sw(1)] s(2) have slow: "wf_chunk states slow" "ch_limits slow = l"
    "ch_sections slow = ch_sections s" using sw(2) by auto
  have same: "block_id slow x h z = block_id fast x h z" if "x < 16" "z < 16" "h < world_height l" for x h z
    using that f(4) s(1) unfolding block_id_def fast(4) slow(3) sweep_inv_def by simp
  have "ch_heightmaps slow = ch_heightmaps fast"
  proof (rule recompute_determined [OF f(2) sw(1) _ _ _ fast(1) s(2)])
    fix x z :: usize and h assume "x < 16" "z < 16" "h < world_height (ch_limits f)"
    then show "block_id s x h z = block_id f x h z" using f(3,4) s(1) by (simp add: sweep_inv_def)
  qed (use f(3) fm sw in simp_all)
  moreover have "chunk_block fast x y z states = chunk_block slow x y z states" if "x < 16" "z < 16" for x y z
  proof (cases "sint (hl_min_y l) \<le> sint y \<and> sint y < sint (hl_min_y l) + int (world_height l)")
    case True
    then have y: "sint y = sint (hl_min_y l) + int (nat (sint y - sint (hl_min_y l)))"
      "nat (sint y - sint (hl_min_y l)) < world_height l" by linarith+
    show ?thesis using chunk_block_eq [OF fast(2) that, unfolded fast(3), OF y]
        chunk_block_eq [OF slow(1) that, unfolded slow(2), OF y] same [OF that y(2)] by simp
  next
    case False
    then have "section_of fast y = Some None" "section_of slow y = Some None"
      using section_of_outside [of fast y] section_of_outside [of slow y] assms(3) fast(3) slow(2) by auto
    then show ?thesis by (simp add: chunk_block_def)
  qed
  moreover have "flat_generate g pos l states = Some fast" using c f(1) fast(1) by (simp add: flat_generate_def)
  ultimately show ?thesis using s(3) by metis
qed

section \<open>Properties\<close>

text \<open>
  C8: \<open>recompute_heightmaps\<close>, which skips empty sections and stops when every column is resolved, never panics,
  changes no block, records in both maps exactly the heights of the naive scan of every block from the top, and is idempotent
  to the bit.
\<close>

theorem recompute_is_naive_scan:
  assumes "wf_chunk states c"
  shows "\<exists>c' heights. recompute_heightmaps c states = Some c' \<and> naive_heights c states = Some heights \<and>
    ch_sections c' = ch_sections c \<and> recompute_heightmaps c' states = Some c' \<and> length heights = COLUMNS \<and>
    (\<forall>i < COLUMNS. storage_get (hm_motion_blocking (ch_heightmaps c')) i = Some (heights ! i) \<and>
      storage_get (hm_world_surface (ch_heightmaps c')) i = Some (heights ! i))"
  using assms by (rule recompute_naive_eq)

lemma recompute_is_naive_scan_witness:
  "\<exists>c c' heights. chunk_empty (ChunkPos 0 0) OVERWORLD placeholder = Some c \<and>
     recompute_heightmaps c placeholder = Some c' \<and> naive_heights c placeholder = Some heights \<and>
     storage_get (hm_world_surface (ch_heightmaps c')) 255 = Some (heights ! 255)"
proof -
  have "id_ok placeholder (bst_air placeholder)" using placeholder_wf(1) by (simp add: wf_states_def)
  then obtain c where c: "chunk_empty (ChunkPos 0 0) OVERWORLD placeholder = Some c" "wf_chunk placeholder c"
    using chunk_empty_eq [OF overworld_wf(1)] by blast
  have "255 < COLUMNS" by (simp add: COLUMNS_def SECTION_SIZE_def)
  with recompute_is_naive_scan [OF c(2)] c(1) show ?thesis by blast
qed

text \<open>
  C25: the superflat generator, which fills a uniform section in one step, gives at every position the block,
  and in both heightmaps the same cells, as the generator that writes every block of the world on its own.
\<close>

theorem bulk_fill_is_sweep:
  assumes "wf_generator g" "wf_states states" "wf_limits l"
  shows "\<exists>fast slow. flat_generate g pos l states = Some fast \<and> sweep_generate g pos l states = Some slow \<and>
    ch_heightmaps fast = ch_heightmaps slow \<and>
    (\<forall>x y z. x < 16 \<longrightarrow> z < 16 \<longrightarrow> chunk_block fast x y z states = chunk_block slow x y z states)"
  using assms by (rule sweep_agrees)

lemma bulk_fill_is_sweep_witness:
  "\<exists>fast slow. flat_generate flat_default (ChunkPos 0 0) OVERWORLD placeholder = Some fast \<and>
     sweep_generate flat_default (ChunkPos 0 0) OVERWORLD placeholder = Some slow \<and>
     ch_heightmaps fast = ch_heightmaps slow \<and> chunk_block fast 0 7 0 placeholder = chunk_block slow 0 7 0 placeholder"
proof -
  have "(0 :: usize) < 16" by simp
  with bulk_fill_is_sweep [OF flat_default_wf placeholder_wf(1) overworld_wf(1), of "ChunkPos 0 0"]
  show ?thesis by metis
qed

end
