(* ===== verification/Tests_Chunk.thy ===== *)
theory Tests_Chunk
  imports Tests_Storage Reference
begin

text \<open>
  The unit tests of \<open>chunk.rs\<close> and \<open>generator.rs\<close> in \<open>crates/rukkit-world/src\<close>, passed like those of
  \<open>Tests_Storage\<close>: \<open>world\<close> says what is known of a column of the overworld, and for each operation there is a rule that
  replaces its call by what is known of its result.
\<close>

section \<open>chunk.rs\<close>

definition section_index_uses_vanilla_y_z_x_order :: bool where
  "section_index_uses_vanilla_y_z_x_order \<longleftrightarrow> section_index 0 0 0 = 0 \<and> section_index 1 0 0 = 1 \<and>
     section_index 0 0 1 = 16 \<and> section_index 0 1 0 = 256 \<and> section_index 15 15 15 = 4095"

text \<open>The loops over \<open>y\<close>, \<open>z\<close> and \<open>x\<close>; the assertion in the body is the panic.\<close>

definition all_positions :: "(usize \<times> usize \<times> usize) list" where
  "all_positions = [(y, z, x). y \<leftarrow> [0..<16], z \<leftarrow> [0..<16], x \<leftarrow> [0..<16]]"

definition section_indices_are_a_bijection :: bool where
  "section_indices_are_a_bijection =
     returned (iterate (\<lambda>(y, z, x) seen. let index = section_index x y z in
         Option.bind (nth_opt seen index) (\<lambda>hit. if hit then None else Some (seen[index := True])))
       all_positions (replicate SECTION_VOLUME False)) (\<lambda>seen. list_all (\<lambda>hit. hit) seen)"

definition overworld_limits_match_the_modern_world_height :: bool where
  "overworld_limits_match_the_modern_world_height =
     (let limits = OVERWORLD
      in hl_min_y limits = - 64 \<and> limits_max_y limits = Some 319 \<and> section_count limits = 24 \<and>
         limits_contains limits (- 64) = Some True \<and> limits_contains limits 319 = Some True \<and>
         limits_contains limits (- 65) = Some False \<and> limits_contains limits 320 = Some False \<and>
         heightmap_bits limits = 9)"

definition a_fresh_chunk_is_entirely_air :: bool where
  "a_fresh_chunk_is_entirely_air =
     (let states = placeholder in
      returned (chunk_empty (ChunkPos 0 0) OVERWORLD states) (\<lambda>chunk. length (ch_sections chunk) = 24 \<and>
        list_all (\<lambda>s. section_is_empty states s = Some True \<and> bits_per_entry (cs_block_states s) = 0)
          (ch_sections chunk) \<and>
        chunk_block chunk 0 0 0 states = Some (bst_air states)))"

definition blocks_round_trip_across_section_boundaries :: bool where
  "blocks_round_trip_across_section_boundaries =
     (let states = placeholder; probes = [- 64, - 49, - 48, - 1, 0, 15, 16, 63, 318, 319] in
      returned (chunk_empty (ChunkPos 1 (- 2)) OVERWORLD states) (\<lambda>chunk.
      returned (iterate (\<lambda>(i, y) chunk. let state = bst_stone states + word_of_nat i in
          Option.bind (chunk_set_block chunk 3 y 9 state states) (\<lambda>(previous, chunk).
          if previous = bst_air states \<and> chunk_block chunk 3 y 9 states = Some state then Some chunk else None))
        (enumerate 0 probes) chunk) (\<lambda>chunk.
      chunk_block chunk 4 0 9 states = Some (bst_air states))))"

definition out_of_range_heights_read_and_write_as_air :: bool where
  "out_of_range_heights_read_and_write_as_air =
     (let states = placeholder in
      returned (chunk_empty (ChunkPos 0 0) OVERWORLD states) (\<lambda>chunk.
        chunk_block chunk 0 (- 65) 0 states = Some (bst_air states) \<and>
        chunk_block chunk 0 320 0 states = Some (bst_air states) \<and>
        returned (chunk_set_block chunk 0 1000 0 (bst_stone states) states) (\<lambda>(previous, chunk).
          previous = bst_air states \<and> chunk_block chunk 0 1000 0 states = Some (bst_air states))))"

definition non_air_count_tracks_writes :: bool where
  "non_air_count_tracks_writes =
     (let states = placeholder; section = section_filled states (bst_air states) 0 in
      non_air_count states section = Some 0 \<and>
      returned (section_set_block section 0 0 0 (bst_stone states)) (\<lambda>(_, section).
        non_air_count states section = Some 1 \<and>
      returned (iterate (\<lambda>(x, z) section. map_option snd (section_set_block section x 0 z (bst_stone states)))
        [(x, z). x \<leftarrow> [0..<16], z \<leftarrow> [0..<16]] section) (\<lambda>section. non_air_count states section = Some 256 \<and>
      returned (section_set_block section 0 0 0 (bst_air states)) (\<lambda>(_, section).
        non_air_count states section = Some 255))))"

definition a_solid_section_counts_every_block :: bool where
  "a_solid_section_counts_every_block =
     (let states = placeholder; section = section_filled states (bst_stone states) 0
      in non_air_count states section = Some (word_of_nat SECTION_VOLUME) \<and>
         section_is_empty states section = Some False)"

text \<open>Writes in sequence that have to return, and the recorded height of a column.\<close>

definition set_blocks :: "(usize \<times> i32 \<times> usize \<times> u32) list \<Rightarrow> block_states \<Rightarrow> chunk \<Rightarrow> chunk option" where
  "set_blocks ws states c = iterate (\<lambda>(x, y, z, state) c. map_option snd (chunk_set_block c x y z state states)) ws c"

definition world_surface_at :: "chunk \<Rightarrow> usize \<Rightarrow> u32 option" where
  "world_surface_at c i = storage_get (hm_world_surface (ch_heightmaps c)) i"

definition heightmaps_report_one_above_the_highest_block :: bool where
  "heightmaps_report_one_above_the_highest_block =
     (let states = placeholder; stone = bst_stone states in
      returned (chunk_empty (ChunkPos 0 0) OVERWORLD states) (\<lambda>chunk.
      returned (set_blocks [(0, 0, 0, stone), (1, 100, 1, stone), (2, - 64, 2, stone)] states chunk) (\<lambda>chunk.
      returned (recompute_heightmaps chunk states) (\<lambda>chunk.
        world_surface_at chunk 0 = Some 65 \<and> world_surface_at chunk (column_at 1 1) = Some 165 \<and>
        world_surface_at chunk (column_at 2 2) = Some 1 \<and> world_surface_at chunk 200 = Some 0))))"

definition heightmaps_take_the_highest_block_not_the_first_found :: bool where
  "heightmaps_take_the_highest_block_not_the_first_found =
     (let states = placeholder in
      returned (chunk_empty (ChunkPos 0 0) OVERWORLD states) (\<lambda>chunk.
      returned (set_blocks (map (\<lambda>y. (5, y, 5, bst_stone states)) [- 10, 40, 200]) states chunk) (\<lambda>chunk.
      returned (recompute_heightmaps chunk states) (\<lambda>chunk. world_surface_at chunk (column_at 5 5) = Some 265))))"

text \<open>The scattered blocks: a linear congruential generator drives how many there are in a column and where.\<close>

definition next_seed :: "u32 \<Rightarrow> u32" where
  "next_seed seed = seed * 1103515245 + 12345"

definition scatter_column :: "height_limits \<Rightarrow> block_states \<Rightarrow> usize \<times> usize \<Rightarrow> u32 \<times> chunk \<Rightarrow> (u32 \<times> chunk) option" where
  "scatter_column limits states = (\<lambda>(z, x) (seed, chunk).
     let seed = next_seed seed in
     if seed mod 5 = 0 then Some (seed, chunk)
     else let count = drop_bit 8 seed mod 4 in
       map_option (\<lambda>chunk. (seed, chunk)) (iterate (\<lambda>n chunk.
         Option.bind (i32_checked (sint (hl_min_y limits) + sint (drop_bit (n * 3 + 4) seed mod hl_height limits))) (\<lambda>y.
         map_option snd (chunk_set_block chunk x y z (bst_stone states) states))) [0..<unat count] chunk))"

definition the_section_skipping_heightmap_agrees_with_a_naive_scan :: bool where
  "the_section_skipping_heightmap_agrees_with_a_naive_scan =
     (let states = placeholder; limits = OVERWORLD in
      returned (chunk_empty (ChunkPos 0 0) limits states) (\<lambda>chunk.
      returned (iterate (scatter_column limits states) layer_columns (0x12345678, chunk)) (\<lambda>(_, chunk).
      returned (limits_max_y limits) (\<lambda>max_y.
      returned (set_blocks [(0, max_y, 0, bst_stone states), (1, hl_min_y limits, 1, bst_stone states)] states chunk) (\<lambda>chunk.
      returned (naive_heights chunk states) (\<lambda>expected.
      returned (recompute_heightmaps chunk states) (\<lambda>chunk.
        list_all (\<lambda>(index, want). world_surface_at chunk index = Some want) (enumerate 0 expected) \<and>
        world_surface_at chunk (column_at 0 0) = Some (hl_height limits) \<and>
        world_surface_at chunk (column_at 1 1) = Some 1)))))))"

definition an_empty_chunk_has_all_zero_heightmaps :: bool where
  "an_empty_chunk_has_all_zero_heightmaps =
     (let states = placeholder in
      returned (chunk_empty (ChunkPos 0 0) OVERWORLD states) (\<lambda>chunk.
      returned (recompute_heightmaps chunk states) (\<lambda>chunk.
        list_all (\<lambda>index. world_surface_at chunk index = Some 0) [0..<COLUMNS])))"

definition recomputing_twice_is_idempotent :: bool where
  "recomputing_twice_is_idempotent =
     (let states = placeholder in
      returned (chunk_empty (ChunkPos 0 0) OVERWORLD states) (\<lambda>chunk.
      returned (set_blocks [(3, 70, 4, bst_stone states)] states chunk) (\<lambda>chunk.
      returned (recompute_heightmaps chunk states) (\<lambda>chunk. let first = ch_heightmaps chunk in
      returned (recompute_heightmaps chunk states) (\<lambda>chunk. ch_heightmaps chunk = first)))))"

definition clearing_a_column_lowers_its_height_on_recompute :: bool where
  "clearing_a_column_lowers_its_height_on_recompute =
     (let states = placeholder in
      returned (chunk_empty (ChunkPos 0 0) OVERWORLD states) (\<lambda>chunk.
      returned (set_blocks [(0, 200, 0, bst_stone states), (0, 10, 0, bst_stone states)] states chunk) (\<lambda>chunk.
      returned (recompute_heightmaps chunk states) (\<lambda>chunk. world_surface_at chunk (column_at 0 0) = Some 265 \<and>
      returned (set_blocks [(0, 200, 0, bst_air states)] states chunk) (\<lambda>chunk.
      returned (recompute_heightmaps chunk states) (\<lambda>chunk. world_surface_at chunk (column_at 0 0) = Some 75 \<and>
      returned (set_blocks [(0, 10, 0, bst_air states)] states chunk) (\<lambda>chunk.
      returned (recompute_heightmaps chunk states) (\<lambda>chunk. world_surface_at chunk (column_at 0 0) = Some 0))))))))"

definition heightmap_nbt_has_both_long_arrays :: bool where
  "heightmap_nbt_has_both_long_arrays =
     (let states = placeholder in
      returned (chunk_empty (ChunkPos 0 0) OVERWORLD states) (\<lambda>chunk.
      returned (recompute_heightmaps chunk states) (\<lambda>chunk.
      case heightmaps_to_nbt (ch_heightmaps chunk) of
        NCompound compound \<Rightarrow> list_all (\<lambda>key. case compound_get compound key of
            Some (NLongArray values) \<Rightarrow> length values = 37 | _ \<Rightarrow> False)
          [lit ''MOTION_BLOCKING'', lit ''WORLD_SURFACE'']
      | _ \<Rightarrow> False)))"

definition section_wire_length_matches_what_is_written :: bool where
  "section_wire_length_matches_what_is_written =
     (let states = placeholder; section = section_filled states (bst_air states) 0 in
      returned (section_write states section) (\<lambda>out. length out = section_wire_len section) \<and>
      returned (section_set_block section 0 0 0 (bst_stone states)) (\<lambda>(_, section).
      returned (section_write states section) (\<lambda>out. length out = section_wire_len section)))"

definition chunk_wire_length_matches_what_is_written :: bool where
  "chunk_wire_length_matches_what_is_written =
     (let states = placeholder in
      returned (chunk_empty (ChunkPos 0 0) OVERWORLD states) (\<lambda>chunk.
      returned (set_blocks [(x, word_of_int y, z, bst_stone states). y \<leftarrow> [- 64..- 1], x \<leftarrow> [0..<16], z \<leftarrow> [0..<16]] states chunk)
        (\<lambda>chunk. returned (write_sections chunk states) (\<lambda>out. length out = sections_wire_len chunk))))"

definition an_empty_chunk_serializes_compactly :: bool where
  "an_empty_chunk_serializes_compactly =
     (let states = placeholder in
      returned (chunk_empty (ChunkPos 0 0) OVERWORLD states) (\<lambda>chunk.
      returned (write_sections chunk states) (\<lambda>out. length out = 24 * (2 + 3 + 3))))"

definition shrink_does_not_change_block_contents :: bool where
  "shrink_does_not_change_block_contents =
     (let states = placeholder;
          read_all = (\<lambda>chunk. map (\<lambda>i. chunk_block chunk (i mod 16) (word_of_nat (i mod 300)) 0 states) [0..<300]) in
      returned (chunk_empty (ChunkPos 0 0) OVERWORLD states) (\<lambda>chunk.
      returned (set_blocks (map (\<lambda>i. (i mod 16, word_of_nat (i mod 300), 0, bst_stone states + word_of_nat i)) [0..<300]) states chunk)
        (\<lambda>chunk.
      returned (those (read_all chunk)) (\<lambda>before.
      returned (chunk_shrink chunk) (\<lambda>chunk.
      returned (those (read_all chunk)) (\<lambda>after. before = after))))))"

section \<open>generator.rs\<close>

definition void_generator_produces_only_air :: bool where
  "void_generator_produces_only_air =
     (let states = placeholder in
      returned (void_generate (ChunkPos 0 0) OVERWORLD states) (\<lambda>chunk.
        list_all (\<lambda>s. section_is_empty states s = Some True) (ch_sections chunk)))"

definition flat_generator_lays_the_expected_column :: bool where
  "flat_generator_lays_the_expected_column =
     (let states = placeholder; limits = OVERWORLD; generator = flat_default in
      returned (flat_generate generator (ChunkPos 0 0) limits states) (\<lambda>chunk.
        chunk_block chunk 0 (- 64) 0 states = Some (bst_bedrock states) \<and>
        chunk_block chunk 0 (- 63) 0 states = Some (bst_stone states) \<and>
        chunk_block chunk 0 (- 62) 0 states = Some (bst_dirt states) \<and>
        chunk_block chunk 0 (- 61) 0 states = Some (bst_dirt states) \<and>
        chunk_block chunk 0 (- 60) 0 states = Some (bst_grass_block states) \<and>
        chunk_block chunk 0 (- 59) 0 states = Some (bst_air states) \<and>
        chunk_block chunk 0 100 0 states = Some (bst_air states)))"

definition flat_generator_is_uniform_across_the_whole_chunk :: bool where
  "flat_generator_is_uniform_across_the_whole_chunk =
     (let states = placeholder; limits = OVERWORLD in
      returned (flat_generate flat_default (ChunkPos 3 (- 7)) limits states) (\<lambda>chunk.
        list_all (\<lambda>(x, z). chunk_block chunk x (- 64) z states = Some (bst_bedrock states) \<and>
            chunk_block chunk x (- 60) z states = Some (bst_grass_block states) \<and>
            chunk_block chunk x (- 59) z states = Some (bst_air states))
          [(x, z). x \<leftarrow> [0..<SECTION_SIZE], z \<leftarrow> [0..<SECTION_SIZE]]))"

definition the_bulk_fill_path_agrees_with_a_per_block_sweep :: bool where
  "the_bulk_fill_path_agrees_with_a_per_block_sweep =
     (let states = placeholder; limits = OVERWORLD; generator = flat_default in
      returned (flat_generate generator (ChunkPos 0 0) limits states) (\<lambda>fast.
      returned (sweep_generate generator (ChunkPos 0 0) limits states) (\<lambda>slow.
      returned (world_range limits) (\<lambda>ys.
        list_all (\<lambda>y. chunk_block fast 0 y 0 states = chunk_block slow 0 y 0 states) ys \<and>
        ch_heightmaps fast = ch_heightmaps slow))))"

definition heightmaps_are_populated_by_generation :: bool where
  "heightmaps_are_populated_by_generation =
     (let states = placeholder; limits = OVERWORLD in
      returned (flat_generate flat_default (ChunkPos 0 0) limits states) (\<lambda>chunk. world_surface_at chunk 0 = Some 5))"

section \<open>What is known of a column\<close>

text \<open>The blocks of a column of the overworld, by their height above its bottom, and its heightmaps.\<close>

definition world :: "(nat \<Rightarrow> nat \<Rightarrow> nat \<Rightarrow> u32) \<Rightarrow> heightmaps \<Rightarrow> chunk \<Rightarrow> bool" where
  "world g hm c \<longleftrightarrow> wf_chunk placeholder c \<and> ch_limits c = OVERWORLD \<and> ch_heightmaps c = hm \<and>
     (\<forall>x z h. x < 16 \<longrightarrow> z < 16 \<longrightarrow> h < 384 \<longrightarrow> block_id c x h z = g x h z)"

lemma air_stone [simp]: "bst_air placeholder = 0" "bst_stone placeholder = 1" "is_air placeholder v \<longleftrightarrow> v = 0"
  by (simp_all add: placeholder_def is_air_def)

lemma direct_bits_placeholder [simp]: "direct_bits placeholder = 15"
  using bits_for_value [of 27000 14] by (simp add: direct_bits_def placeholder_def)

lemma id_ok_placeholder [simp]: "id_ok placeholder v \<longleftrightarrow> unat v < 32768"
  by (simp add: id_ok_def)

lemma world_empty:
  assumes "\<And>c. world (\<lambda>_ _ _. 0) (ch_heightmaps c) c \<Longrightarrow>
    ch_sections c = replicate 24 (section_filled placeholder 0 0) \<Longrightarrow> P c"
  shows "returned (chunk_empty pos OVERWORLD placeholder) P"
proof -
  obtain c where c: "chunk_empty pos OVERWORLD placeholder = Some c" "wf_chunk placeholder c" "ch_limits c = OVERWORLD"
    "\<forall>x z h. x < 16 \<longrightarrow> z < 16 \<longrightarrow> h < world_height OVERWORLD \<longrightarrow> block_id c x h z = bst_air placeholder"
    using chunk_empty_eq [OF overworld_wf(1), of placeholder pos] by auto
  then have "world (\<lambda>_ _ _. 0) (ch_heightmaps c) c" by (simp add: world_def overworld_wf(2))
  moreover have "ch_sections c = replicate 24 (section_filled placeholder 0 0)"
    using c(1) by (auto simp: chunk_empty_def section_count_def OVERWORLD_def)
  ultimately show ?thesis using assms c(1) by simp
qed

lemma world_set:
  assumes c: "world g hm c" and i: "x < 16" "z < 16" "unat v < 32768" and y: "- 64 \<le> sint y" "sint y < 320"
    and P: "\<And>c'. world (\<lambda>x' h' z'. if x' = x \<and> h' = nat (sint y + 64) \<and> z' = z then v else g x' h' z') hm c' \<Longrightarrow>
      P (g x (nat (sint y + 64)) z, c')"
  shows "returned (chunk_set_block c x y z v placeholder) P"
proof -
  let ?h = "nat (sint y + 64)"
  have w: "wf_chunk placeholder c" "ch_limits c = OVERWORLD" "ch_heightmaps c = hm" using c by (simp_all add: world_def)
  have h: "sint y = sint (hl_min_y (ch_limits c)) + int ?h" "?h < world_height (ch_limits c)"
    using y by (simp_all add: w(2) overworld_wf)
  have "id_ok placeholder v" using i(3) by simp
  from chunk_set_block_eq [OF w(1) i(1,2) this h] obtain c' where
    c': "chunk_set_block c x y z v placeholder = Some (block_id c x ?h z, c')" "wf_chunk placeholder c'"
      "ch_limits c' = OVERWORLD" "\<forall>x' h' z'. x' < 16 \<longrightarrow> z' < 16 \<longrightarrow> h' < 384 \<longrightarrow>
        block_id c' x' h' z' = (if x' = x \<and> h' = ?h \<and> z' = z then v else block_id c x' h' z')"
    by (auto simp: w(2) overworld_wf(2))
  moreover have "block_id c x ?h z = g x ?h z" using c i h(2) by (simp add: world_def w(2) overworld_wf(2))
  moreover have "world (\<lambda>x' h' z'. if x' = x \<and> h' = ?h \<and> z' = z then v else g x' h' z') hm c'"
    using c c'(2-4) set_block_keeps [OF c'(1)] by (simp add: world_def)
  ultimately show ?thesis using P by simp
qed

lemma world_get:
  assumes c: "world g hm c" and i: "x < 16" "z < 16"
  shows "chunk_block c x y z placeholder = Some (if - 64 \<le> sint y \<and> sint y < 320 then g x (nat (sint y + 64)) z else 0)"
proof -
  have w: "wf_chunk placeholder c" "ch_limits c = OVERWORLD" using c by (simp_all add: world_def)
  show ?thesis
  proof (cases "- 64 \<le> sint y \<and> sint y < 320")
    case True
    then have h: "sint y = sint (hl_min_y (ch_limits c)) + int (nat (sint y + 64))"
      "nat (sint y + 64) < world_height (ch_limits c)" unfolding w(2) overworld_wf by linarith+
    with True show ?thesis using chunk_block_eq [OF w(1) i h] c i by (simp add: world_def w(2) overworld_wf(2))
  next
    case False
    then have "section_of c y = Some None"
      by (intro section_of_outside) (auto simp: w(2) overworld_wf)
    with False show ?thesis by (auto simp: chunk_block_def)
  qed
qed

lemma world_set_outside:
  assumes "world g hm c" "\<not> (- 64 \<le> sint y \<and> sint y < 320)" "P (0, c)"
  shows "returned (chunk_set_block c x y z v placeholder) P"
proof -
  have "section_of c y = Some None" using assms(1,2)
    by (intro section_of_outside) (auto simp: world_def overworld_wf)
  with assms(3) show ?thesis by (simp add: chunk_set_block_def)
qed

text \<open>The height a scan records for a column whose blocks are \<open>f\<close>.\<close>

abbreviation height_of :: "(nat \<Rightarrow> u32) \<Rightarrow> u32" where
  "height_of f \<equiv> word_of_nat (top (\<lambda>h. f h \<noteq> 0) 0 384)"

definition surface :: "(nat \<Rightarrow> nat \<Rightarrow> nat \<Rightarrow> u32) \<Rightarrow> chunk \<Rightarrow> bool" where
  "surface g c \<longleftrightarrow> (\<forall>x < 16. \<forall>z < 16. world_surface_at c (z * 16 + x) = Some (height_of (\<lambda>h. g x h z)))"

lemma surface_at: "surface g c \<Longrightarrow> x < 16 \<Longrightarrow> z < 16 \<Longrightarrow> height_of (\<lambda>h. g x h z) = v \<Longrightarrow>
  world_surface_at c (column_at x z) = Some v"
  by (simp add: surface_def column_at_def SECTION_SIZE_def)

lemma surface_index: "surface g c \<Longrightarrow> i < 256 \<Longrightarrow> world_surface_at c i = Some (height_of (\<lambda>h. g (i mod 16) h (i div 16)))"
  using surface_at [of g c "i mod 16" "i div 16", OF _ _ _ refl] by (simp add: column_at_def SECTION_SIZE_def)

lemma world_recompute:
  assumes c: "world g hm c"
    and P: "\<And>c'. world g (ch_heightmaps c') c' \<Longrightarrow> surface g c' \<Longrightarrow> P c'"
  shows "returned (recompute_heightmaps c placeholder) P"
proof -
  have w: "wf_chunk placeholder c" "ch_limits c = OVERWORLD" using c by (simp_all add: world_def)
  from recompute_heightmaps_eq [OF w(1)] obtain c' where c': "recompute_heightmaps c placeholder = Some c'"
    "wf_chunk placeholder c'" "ch_limits c' = OVERWORLD" "ch_sections c' = ch_sections c"
    "contents (hm_world_surface (ch_heightmaps c')) = contents (hm_motion_blocking (ch_heightmaps c'))"
    "resolved placeholder c 0 (contents (hm_motion_blocking (ch_heightmaps c')))" using w(2) by auto
  have "block_id c' = block_id c" by (simp add: block_id_def c'(4) fun_eq_iff)
  then have "world g (ch_heightmaps c') c'" using c c'(2,3) by (simp add: world_def)
  moreover have "world_surface_at c' (z * 16 + x) = Some (height_of (\<lambda>h. g x h z))" if "x < 16" "z < 16" for x z
  proof -
    have "wf_heightmaps (ch_limits c') (ch_heightmaps c')" using c'(2) by (simp add: wf_chunk_def)
    note D = wf_heightmapsD [OF this]
    let ?v = "contents (hm_motion_blocking (ch_heightmaps c')) ! (z * 16 + x)"
    have i: "z * 16 + x < 256" using that by simp
    then have r: "world_surface_at c' (z * 16 + x) = Some ?v"
      using nth_contents [of "z * 16 + x" "hm_world_surface (ch_heightmaps c')"] D(4,5)
      by (simp add: world_surface_at_def storage_get_eq c'(5))
    have "find (\<lambda>h. block_id c x h z \<noteq> 0) (rev [0..<384]) = find (\<lambda>h. g x h z \<noteq> 0) (rev [0..<384])"
      using c that by (intro find_cong) (auto simp: world_def)
    moreover have "unat ?v = top (\<lambda>h. \<not> is_air placeholder (block_id c x h z)) 0 (world_height (ch_limits c))"
      using c'(6) that unfolding resolved_def by blast
    ultimately have "unat ?v = top (\<lambda>h. g x h z \<noteq> 0) 0 384"
      by (simp only: top_def w(2) overworld_wf(2) air_stone)
    then have "word_of_nat (unat ?v) = height_of (\<lambda>h. g x h z)" by (simp only:)
    with r show ?thesis by simp
  qed
  ultimately show ?thesis using P c'(1) by (simp add: surface_def)
qed

lemma top_value: "f y \<Longrightarrow> y < n \<Longrightarrow> (\<And>i. y < i \<Longrightarrow> i < n \<Longrightarrow> \<not> f i) \<Longrightarrow> top f 0 n = Suc y"
  by (simp add: top_eq_iff(2))

lemma top_none: "(\<And>i. i < n \<Longrightarrow> \<not> f i) \<Longrightarrow> top f 0 n = 0"
  by (simp add: top_eq_iff(1))

section \<open>The tests pass\<close>

lemma section_index_uses_vanilla_y_z_x_order_passes: section_index_uses_vanilla_y_z_x_order
  by (simp add: section_index_uses_vanilla_y_z_x_order_def section_index_eq)

lemma mark_all:
  assumes "distinct (map f xs)"
  shows "\<forall>x \<in> set xs. f x < length seen \<and> \<not> seen ! f x \<Longrightarrow>
    \<exists>seen'. iterate (\<lambda>x seen. Option.bind (nth_opt seen (f x)) (\<lambda>hit. if hit then None else Some (seen[f x := True]))) xs seen =
      Some seen' \<and> length seen' = length seen \<and> (\<forall>i < length seen. seen' ! i = (seen ! i \<or> i \<in> f ` set xs))"
  using assms
proof (induction xs arbitrary: seen)
  case (Cons x xs)
  from Cons.prems have "\<forall>y \<in> set xs. f y < length (seen[f x := True]) \<and> \<not> seen[f x := True] ! f y"
    by (auto simp: nth_list_update image_iff)
  from Cons.IH [OF this] Cons.prems show ?case by (fastforce simp: nth_list_update)
qed simp

lemma set_all_positions: "(y, z, x) \<in> set all_positions \<longleftrightarrow> y < 16 \<and> z < 16 \<and> x < 16"
  by (force simp: all_positions_def)

lemma index_parts: "i div 256 * 256 + i div 16 mod 16 * 16 + i mod 16 = i" for i :: nat
proof -
  have e: "i div 256 = i div 16 div 16" by (simp add: div_mult2_eq [symmetric])
  have "i div 256 * 256 + i div 16 mod 16 * 16 = (i div 16 div 16 * 16 + i div 16 mod 16) * 16"
    unfolding e by (simp only: distrib_right mult.assoc mult_numeral_left num.simps semiring_norm)
  then show ?thesis by (simp only: div_mult_mod_eq)
qed

lemma section_indices_are_a_bijection_passes: section_indices_are_a_bijection
proof -
  let ?f = "\<lambda>(y, z, x). section_index x y z"
  have e: "all_positions = List.product [0..<16] (List.product [0..<16] [0..<16])"
    by (simp add: all_positions_def product_concat_map map_concat comp_def)
  have "distinct all_positions" unfolding e by (intro distinct_product distinct_upt)
  moreover have "inj_on ?f (set all_positions)"
    by (auto intro!: inj_onI simp: set_all_positions section_index_inj)
  ultimately have d: "distinct (map ?f all_positions)" by (simp add: distinct_map)
  have "\<forall>p \<in> set all_positions. ?f p < length (replicate 4096 False) \<and> \<not> replicate 4096 False ! ?f p"
    by (auto simp: set_all_positions section_index_bound)
  from mark_all [OF d this] obtain seen where
    s: "iterate (\<lambda>x seen. Option.bind (nth_opt seen (?f x)) (\<lambda>hit. if hit then None else Some (seen[?f x := True])))
        all_positions (replicate 4096 False) = Some seen" "length seen = 4096"
      "\<forall>i < 4096. seen ! i = (i \<in> ?f ` set all_positions)" by auto
  have "i \<in> ?f ` set all_positions" if "i < 4096" for i
  proof (rule image_eqI)
    have "i div 256 < 16" "i div 16 mod 16 < 16" "i mod 16 < 16" using that by simp_all
    then have "?f (i div 256, i div 16 mod 16, i mod 16) = i div 256 * 256 + i div 16 mod 16 * 16 + i mod 16"
      by (simp only: prod.case section_index_eq)
    also have "\<dots> = i" by (rule index_parts)
    finally show "i = ?f (i div 256, i div 16 mod 16, i mod 16)" ..
    show "(i div 256, i div 16 mod 16, i mod 16) \<in> set all_positions" using that by (simp add: set_all_positions)
  qed
  with s(2,3) have "list_all (\<lambda>hit. hit) seen" by (simp add: list_all_length)
  moreover have v: "SECTION_VOLUME = 4096" by (simp add: SECTION_VOLUME_def SECTION_SIZE_def)
  moreover have "(\<lambda>(y, z, x) seen. let index = section_index x y z in
      Option.bind (nth_opt seen index) (\<lambda>hit. if hit then None else Some (seen[index := True]))) =
    (\<lambda>p seen. Option.bind (nth_opt seen (?f p)) (\<lambda>hit. if hit then None else Some (seen[?f p := True])))"
    by (auto simp: fun_eq_iff Let_def)
  ultimately show ?thesis unfolding section_indices_are_a_bijection_def v by (simp only: s(1) returned_simps)
qed

lemma overworld_limits_match_the_modern_world_height_passes: overworld_limits_match_the_modern_world_height
proof -
  have "limits_contains OVERWORLD y = Some (- 64 \<le> sint y \<and> sint y < 320)" for y
    using limits_contains_eq [OF overworld_wf(1), of y] by (simp add: overworld_wf)
  moreover have "limits_max_y OVERWORLD = Some 319" using limits_max_y_eq [OF overworld_wf(1)] by (simp add: overworld_wf)
  moreover have "heightmap_bits OVERWORLD = 9"
    using bits_for_value [of 385 8] by (simp add: heightmap_bits_def OVERWORLD_def)
  ultimately show ?thesis
    by (simp add: overworld_limits_match_the_modern_world_height_def Let_def) (simp add: OVERWORLD_def section_count_def)
qed

lemma a_fresh_chunk_is_entirely_air_passes: a_fresh_chunk_is_entirely_air
proof -
  have "section_is_empty placeholder (section_filled placeholder 0 0) = Some True"
    "bits_per_entry (cs_block_states (section_filled placeholder 0 0)) = 0"
    by (simp_all add: section_is_empty_def non_air_count_def section_filled_def filled_def container_count_def
        bits_per_entry_def)
  then show ?thesis unfolding a_fresh_chunk_is_entirely_air_def Let_def
    by (intro world_empty) (simp add: world_get)
qed

lemma out_of_range_heights_read_and_write_as_air_passes: out_of_range_heights_read_and_write_as_air
  unfolding out_of_range_heights_read_and_write_as_air_def Let_def
  by (intro world_empty) (auto simp: world_get intro!: world_set_outside)

lemma set_blocks_Nil: "P c \<Longrightarrow> returned (set_blocks [] states c) P"
  by (simp add: set_blocks_def)

lemma set_blocks_Cons:
  assumes "world g hm c" "x < 16" "z < 16" "unat v < 32768" "- 64 \<le> sint y" "sint y < 320"
    and "\<And>c'. world (\<lambda>x' h' z'. if x' = x \<and> h' = nat (sint y + 64) \<and> z' = z then v else g x' h' z') hm c' \<Longrightarrow>
      returned (set_blocks ws placeholder c') P"
  shows "returned (set_blocks ((x, y, z, v) # ws) placeholder c) P"
proof -
  have "returned (chunk_set_block c x y z v placeholder) (\<lambda>(_, c'). returned (set_blocks ws placeholder c') P)"
    using assms(7) by (intro world_set [OF assms(1-6)]) simp
  then show ?thesis by (auto simp: set_blocks_def returned_def split: option.splits)
qed

lemma blocks_round_trip_across_section_boundaries_passes: blocks_round_trip_across_section_boundaries
proof -
  let ?step = "\<lambda>(i, y) chunk. let state = bst_stone placeholder + word_of_nat i in
    Option.bind (chunk_set_block chunk 3 y 9 state placeholder) (\<lambda>(previous, chunk).
    if previous = bst_air placeholder \<and> chunk_block chunk 3 y 9 placeholder = Some state then Some chunk else None)"
  have step: "\<exists>c' g'. ?step (i, y) c = Some c' \<and> world g' hm c' \<and>
      (\<forall>h. g' 3 h 9 \<noteq> 0 \<longrightarrow> h = nat (sint y + 64) \<or> g 3 h 9 \<noteq> 0) \<and> (\<forall>h. g' 4 h 9 = g 4 h 9)"
    if "world g hm c" "i < 10" "- 64 \<le> sint y" "sint y < 320" "g 3 (nat (sint y + 64)) 9 = 0" for i y c g hm
  proof -
    let ?v = "1 + word_of_nat i :: u32"
    let ?g = "\<lambda>x' h' z'. if x' = 3 \<and> h' = nat (sint y + 64) \<and> z' = 9 then ?v else g x' h' z'"
    have "unat ?v < 32768" using unat_slot [of "1 + i"] that(2) by simp
    then have "returned (chunk_set_block c 3 y 9 ?v placeholder) (\<lambda>(previous, c'). previous = 0 \<and> world ?g hm c')"
      using that by (intro world_set [OF that(1)]) simp_all
    then obtain c' where c': "chunk_set_block c 3 y 9 ?v placeholder = Some (0, c')" "world ?g hm c'"
      by (auto simp: returned_def split: option.splits)
    then have "?step (i, y) c = Some c'" using that(3,4) by (simp add: world_get)
    with c'(2) show ?thesis by (intro exI [of _ c'] exI [of _ ?g]) simp
  qed
  have run: "\<exists>c' g'. iterate ?step (enumerate i ys) c = Some c' \<and> world g' hm c' \<and> (\<forall>h. g' 4 h 9 = g 4 h 9)"
    if "world g hm c" "i + length ys \<le> 10" "\<forall>y \<in> set ys. - 64 \<le> sint y \<and> sint y < 320 \<and> g 3 (nat (sint y + 64)) 9 = 0"
      "distinct (map (\<lambda>y. nat (sint y + 64)) ys)" for i ys c g hm
    using that
  proof (induction ys arbitrary: i c g)
    case (Cons y ys)
    from Cons.prems step [of g hm c i y] obtain c1 g1 where c1: "?step (i, y) c = Some c1" "world g1 hm c1"
      "\<forall>h. g1 3 h 9 \<noteq> 0 \<longrightarrow> h = nat (sint y + 64) \<or> g 3 h 9 \<noteq> 0" "\<forall>h. g1 4 h 9 = g 4 h 9" by auto
    have "\<forall>y' \<in> set ys. - 64 \<le> sint y' \<and> sint y' < 320 \<and> g1 3 (nat (sint y' + 64)) 9 = 0"
    proof
      fix y' assume "y' \<in> set ys"
      then have "nat (sint y + 64) \<noteq> nat (sint y' + 64)" "- 64 \<le> sint y' \<and> sint y' < 320"
        "g 3 (nat (sint y' + 64)) 9 = 0" using Cons.prems(3,4) by auto
      then show "- 64 \<le> sint y' \<and> sint y' < 320 \<and> g1 3 (nat (sint y' + 64)) 9 = 0" using c1(3) by metis
    qed
    from Cons.IH [OF c1(2) _ this, of "Suc i"] Cons.prems c1(1,4) show ?case by auto
  qed auto
  show ?thesis
    unfolding blocks_round_trip_across_section_boundaries_def Let_def
  proof (rule world_empty)
    fix c assume c: "world (\<lambda>_ _ _. 0) (ch_heightmaps c) c"
    let ?probes = "[- 64, - 49, - 48, - 1, 0, 15, 16, 63, 318, 319] :: i32 list"
    have "\<exists>c' g'. iterate ?step (enumerate 0 ?probes) c = Some c' \<and> world g' (ch_heightmaps c) c' \<and> (\<forall>h. g' 4 h 9 = 0)"
      by (rule run [OF c]) simp_all
    then obtain c' g' where c': "iterate ?step (enumerate 0 ?probes) c = Some c'" "world g' (ch_heightmaps c) c'"
      "\<forall>h. g' 4 h 9 = 0" by blast
    then show "returned (iterate (\<lambda>(i, y) chunk.
        Option.bind (chunk_set_block chunk 3 y 9 (bst_stone placeholder + word_of_nat i) placeholder) (\<lambda>(previous, chunk).
        if previous = bst_air placeholder \<and>
          chunk_block chunk 3 y 9 placeholder = Some (bst_stone placeholder + word_of_nat i) then Some chunk else None))
        (enumerate 0 ?probes) c) (\<lambda>chunk. chunk_block chunk 4 0 9 placeholder = Some (bst_air placeholder))"
      unfolding Let_def by (simp only: returned_simps) (simp add: world_get)
  qed
qed

lemmas heights = top_none top_value [of _ 0] top_value [of _ 64] top_value [of _ 74] top_value [of _ 164]
  top_value [of _ 264]

lemma heightmaps_report_one_above_the_highest_block_passes: heightmaps_report_one_above_the_highest_block
  unfolding heightmaps_report_one_above_the_highest_block_def Let_def
  by (intro world_empty set_blocks_Cons set_blocks_Nil world_recompute)
    (auto elim!: surface_at simp: heights surface_index)

lemma heightmaps_take_the_highest_block_not_the_first_found_passes:
  heightmaps_take_the_highest_block_not_the_first_found
  unfolding heightmaps_take_the_highest_block_not_the_first_found_def Let_def list.map
  by (intro world_empty set_blocks_Cons set_blocks_Nil world_recompute) (auto elim!: surface_at simp: heights)

lemma an_empty_chunk_has_all_zero_heightmaps_passes: an_empty_chunk_has_all_zero_heightmaps
  unfolding an_empty_chunk_has_all_zero_heightmaps_def Let_def
  by (intro world_empty world_recompute)
    (auto simp: list_all_iff COLUMNS_def SECTION_SIZE_def surface_index heights)

lemma clearing_a_column_lowers_its_height_on_recompute_passes: clearing_a_column_lowers_its_height_on_recompute
  unfolding clearing_a_column_lowers_its_height_on_recompute_def Let_def
  by (intro world_empty set_blocks_Cons set_blocks_Nil world_recompute conjI)
    (auto elim!: surface_at simp: heights)

text \<open>The scattered blocks stay in the columns they are meant for.\<close>

lemma scatter_height:
  "\<exists>y. i32_checked (sint (hl_min_y OVERWORLD) + sint (w mod hl_height OVERWORLD)) = Some y \<and> - 64 \<le> sint y \<and> sint y < 320"
  for w :: u32
proof -
  have m: "unat (w mod 384) < 384" by (simp add: unat_mod_distrib)
  then have e: "sint (w mod 384) = int (unat (w mod 384))" by (intro sint_i32_small) simp
  define s where "s = sint (w mod 384)"
  have s: "0 \<le> s" "s < 384" unfolding s_def e using m by linarith+
  have "i32_checked (- 64 + s) = Some (word_of_int (- 64 + s))" using s by (intro i32_checked_eq) simp_all
  moreover have "sint (word_of_int (- 64 + s) :: i32) = - 64 + s" using s by (intro sint_word_of_int_i32) simp_all
  ultimately show ?thesis using s
    by (intro exI [of _ "word_of_int (- 64 + s)"]) (simp add: OVERWORLD_def s_def [symmetric])
qed

lemma scatter_run:
  assumes "x < 16" "z < 16"
  shows "world g hm c \<Longrightarrow> \<exists>c' g'. iterate (\<lambda>n chunk. Option.bind
      (i32_checked (sint (hl_min_y OVERWORLD) + sint (drop_bit (n * 3 + 4) seed mod hl_height OVERWORLD))) (\<lambda>y.
      map_option snd (chunk_set_block chunk x y z (bst_stone placeholder) placeholder))) ns c = Some c' \<and> world g' hm c' \<and>
    (\<forall>x' h' z'. (x', z') \<noteq> (x, z) \<longrightarrow> g' x' h' z' = g x' h' z')"
proof (induction ns arbitrary: c g)
  case (Cons n ns)
  obtain y where y: "i32_checked (sint (hl_min_y OVERWORLD) + sint (drop_bit (n * 3 + 4) seed mod hl_height OVERWORLD)) = Some y"
    "- 64 \<le> sint y" "sint y < 320" using scatter_height by blast
  let ?g = "\<lambda>x' h' z'. if x' = x \<and> h' = nat (sint y + 64) \<and> z' = z then 1 else g x' h' z'"
  have "returned (chunk_set_block c x y z 1 placeholder) (\<lambda>(_, c'). world ?g hm c')"
    using assms y by (intro world_set [OF Cons.prems]) simp_all
  then obtain p c1 where c1: "chunk_set_block c x y z 1 placeholder = Some (p, c1)" "world ?g hm c1"
    by (auto simp: returned_def split: option.splits)
  from Cons.IH [OF c1(2)] y(1) c1(1) show ?case by fastforce
qed auto

lemma scatter_column_eq:
  assumes "x < 16" "z < 16" "world g hm c"
  shows "\<exists>c' g'. scatter_column OVERWORLD placeholder (z, x) (seed, c) = Some (next_seed seed, c') \<and> world g' hm c' \<and>
    (\<forall>x' h' z'. (x', z') \<noteq> (x, z) \<or> drop_bit 8 (next_seed seed) mod 4 = 0 \<longrightarrow> g' x' h' z' = g x' h' z')"
proof (cases "next_seed seed mod 5 = 0")
  case True
  then have "scatter_column OVERWORLD placeholder (z, x) (seed, c) = Some (next_seed seed, c)"
    by (simp only: scatter_column_def prod.case Let_def simp_thms if_True)
  with assms(3) show ?thesis by blast
next
  case False
  let ?n = "drop_bit 8 (next_seed seed) mod 4"
  let ?run = "iterate (\<lambda>n chunk. Option.bind
      (i32_checked (sint (hl_min_y OVERWORLD) + sint (drop_bit (n * 3 + 4) (next_seed seed) mod hl_height OVERWORLD))) (\<lambda>y.
      map_option snd (chunk_set_block chunk x y z (bst_stone placeholder) placeholder)))"
  have step: "scatter_column OVERWORLD placeholder (z, x) (seed, c) =
      map_option (\<lambda>chunk. (next_seed seed, chunk)) (?run [0..<unat ?n] c)"
    by (simp only: scatter_column_def prod.case Let_def False if_False)
  show ?thesis
  proof (cases "?n = 0")
    case True
    have "scatter_column OVERWORLD placeholder (z, x) (seed, c) = Some (next_seed seed, c)"
      unfolding step True by simp
    with assms(3) show ?thesis by blast
  next
    case False
    obtain c' g' where "?run [0..<unat ?n] c = Some c'" "world g' hm c'"
      "\<forall>x' h' z'. (x', z') \<noteq> (x, z) \<longrightarrow> g' x' h' z' = g x' h' z'" using scatter_run [OF assms] by blast
    with step False show ?thesis by (intro exI [of _ c'] exI [of _ g']) (simp only: option.map simp_thms)
  qed
qed

lemma scatter_columns_eq:
  "world g hm c \<Longrightarrow> \<forall>(z, x) \<in> set cs. z < 16 \<and> x < 16 \<Longrightarrow>
   \<exists>c' g'. iterate (scatter_column OVERWORLD placeholder) cs (seed, c) = Some ((next_seed ^^ length cs) seed, c') \<and>
     world g' hm c' \<and> (\<forall>x' h' z'. (z', x') \<notin> set cs \<longrightarrow> g' x' h' z' = g x' h' z')"
proof (induction cs arbitrary: seed c g)
  case (Cons p cs)
  obtain z x where p: "p = (z, x)" by fastforce
  with Cons.prems obtain c1 g1 where c1: "scatter_column OVERWORLD placeholder p (seed, c) = Some (next_seed seed, c1)"
    "world g1 hm c1" "\<forall>x' h' z'. (x', z') \<noteq> (x, z) \<longrightarrow> g1 x' h' z' = g x' h' z'"
    using scatter_column_eq [of x z g hm c seed] by auto
  have "\<forall>(z, x) \<in> set cs. z < 16 \<and> x < 16" using Cons.prems(2) by simp
  from Cons.IH [OF c1(2) this, of "next_seed seed"] obtain c' g' where
    c': "iterate (scatter_column OVERWORLD placeholder) cs (next_seed seed, c1) = Some ((next_seed ^^ length cs) (next_seed seed), c')"
      "world g' hm c'" "\<forall>x' h' z'. (z', x') \<notin> set cs \<longrightarrow> g' x' h' z' = g1 x' h' z'" by blast
  with c1 show ?case by (intro exI [of _ c'] exI [of _ g']) (auto simp: p funpow_swap1)
qed (simp, blast)

text \<open>The column at \<open>x = 1\<close>, \<open>z = 1\<close> is the eighteenth, and its seed asks for no block.\<close>

lemma eighteenth_seed: "drop_bit 8 (next_seed ((next_seed ^^ 17) 0x12345678)) mod 4 = 0"
proof -
  have e: "17 = Suc (Suc (Suc (Suc (Suc (Suc (Suc (Suc (Suc (Suc (Suc (Suc (Suc (Suc (Suc (Suc (Suc 0))))))))))))))))" by simp
  show ?thesis unfolding e by (simp add: next_seed_def funpow_Suc_right del: funpow.simps(2))
qed

lemma layer_columns_parts: "layer_columns = take 17 layer_columns @ (1, 1) # drop 18 layer_columns"
proof -
  have l: "length layer_columns = 256" by (simp add: layer_columns_def SECTION_SIZE_def upt_rec)
  have "layer_columns ! 17 = (1, 1)" by (simp add: layer_columns_def SECTION_SIZE_def upt_rec)
  then show ?thesis using id_take_nth_drop [of 17 layer_columns] l by simp
qed

lemma scatter_eq:
  assumes c: "world (\<lambda>_ _ _. 0) hm c"
  shows "\<exists>seed c' g. iterate (scatter_column OVERWORLD placeholder) layer_columns (0x12345678, c) = Some (seed, c') \<and>
    world g hm c' \<and> (\<forall>h. g 1 h 1 = 0)"
proof -
  have d: "distinct (take 17 layer_columns @ (1, 1) # drop 18 layer_columns)"
    using distinct_layer_columns layer_columns_parts by simp
  have b: "\<forall>(z, x) \<in> set (take 17 layer_columns). z < 16 \<and> x < 16" "\<forall>(z, x) \<in> set (drop 18 layer_columns). z < 16 \<and> x < 16"
    using set_layer_columns by (auto dest: in_set_takeD in_set_dropD)
  have l: "length (take 17 layer_columns) = 17" by (simp add: layer_columns_def SECTION_SIZE_def upt_rec)
  obtain c1 g1 where c1: "iterate (scatter_column OVERWORLD placeholder) (take 17 layer_columns) (0x12345678, c) =
      Some ((next_seed ^^ 17) 0x12345678, c1)" "world g1 hm c1" "\<forall>h. g1 1 h 1 = 0"
    using scatter_columns_eq [OF c b(1), of "0x12345678"] d unfolding l by auto
  obtain c2 g2 where c2: "scatter_column OVERWORLD placeholder (1, 1) ((next_seed ^^ 17) 0x12345678, c1) =
      Some (next_seed ((next_seed ^^ 17) 0x12345678), c2)" "world g2 hm c2" "\<forall>h. g2 1 h 1 = 0"
    using scatter_column_eq [OF _ _ c1(2), of 1 1 "(next_seed ^^ 17) 0x12345678"] eighteenth_seed c1(3) by auto
  obtain seed c3 g3 where c3: "iterate (scatter_column OVERWORLD placeholder) (drop 18 layer_columns)
      (next_seed ((next_seed ^^ 17) 0x12345678), c2) = Some (seed, c3)" "world g3 hm c3" "\<forall>h. g3 1 h 1 = 0"
    using scatter_columns_eq [OF c2(2) b(2), of "next_seed ((next_seed ^^ 17) 0x12345678)"] d c2(3) by auto
  have "iterate (scatter_column OVERWORLD placeholder) layer_columns (0x12345678, c) = Some (seed, c3)"
    by (subst layer_columns_parts) (simp only: iterate_append c1(1) bind.bind_lunit iterate.simps c2(1) c3(1))
  with c3(2,3) show ?thesis by blast
qed

lemma the_section_skipping_heightmap_agrees_with_a_naive_scan_passes:
  the_section_skipping_heightmap_agrees_with_a_naive_scan
  unfolding the_section_skipping_heightmap_agrees_with_a_naive_scan_def Let_def
proof (rule world_empty)
  fix c assume c: "world (\<lambda>_ _ _. 0) (ch_heightmaps c) c"
  from scatter_eq [OF this] obtain seed c1 g where
    c1: "iterate (scatter_column OVERWORLD placeholder) layer_columns (0x12345678, c) = Some (seed, c1)"
      "world g (ch_heightmaps c) c1" "\<forall>h. g 1 h 1 = 0" by blast
  have max: "limits_max_y OVERWORLD = Some 319" using limits_max_y_eq [OF overworld_wf(1)] by (simp add: overworld_wf)
  let ?rest = "\<lambda>c. returned (naive_heights c placeholder) (\<lambda>expected. returned (recompute_heightmaps c placeholder) (\<lambda>c'.
    list_all (\<lambda>(index, want). world_surface_at c' index = Some want) (enumerate 0 expected) \<and>
    world_surface_at c' (column_at 0 0) = Some (hl_height OVERWORLD) \<and> world_surface_at c' (column_at 1 1) = Some 1))"
  have "returned (set_blocks [(0, 319, 0, 1), (1, - 64, 1, 1)] placeholder c1) ?rest"
  proof (intro set_blocks_Cons [OF c1(2)] set_blocks_Cons set_blocks_Nil)
    fix c2 assume c2: "world (\<lambda>x' h' z'. if x' = 1 \<and> h' = nat (sint (- 64 :: i32) + 64) \<and> z' = 1 then 1
      else if x' = 0 \<and> h' = nat (sint (319 :: i32) + 64) \<and> z' = 0 then 1 else g x' h' z') (ch_heightmaps c) c2"
    then have "wf_chunk placeholder c2" by (simp add: world_def)
    from recompute_naive_eq [OF this] obtain c3 heights where
      r: "recompute_heightmaps c2 placeholder = Some c3" "naive_heights c2 placeholder = Some heights"
        "length heights = COLUMNS" "\<forall>i < COLUMNS. world_surface_at c3 i = Some (heights ! i)"
      unfolding world_surface_at_def by blast
    have "returned (recompute_heightmaps c2 placeholder) (\<lambda>c'. world_surface_at c' (column_at 0 0) = Some 384 \<and>
        world_surface_at c' (column_at 1 1) = Some 1)"
      using c1(3) by (intro world_recompute [OF c2]) (auto elim!: surface_at simp: top_value [of _ 383] top_value [of _ 0])
    with r show "?rest c2"
      by (auto simp: list_all_length enumerate_as_upt OVERWORLD_def)
  qed simp_all
  then show "returned (iterate (scatter_column OVERWORLD placeholder) layer_columns (0x12345678, c)) (\<lambda>(_, c).
      returned (limits_max_y OVERWORLD) (\<lambda>max_y.
      returned (set_blocks [(0, max_y, 0, bst_stone placeholder), (1, hl_min_y OVERWORLD, 1, bst_stone placeholder)] placeholder c)
        ?rest))"
    unfolding c1(1) max by (simp add: OVERWORLD_def)
qed

lemma recomputing_twice_is_idempotent_passes: recomputing_twice_is_idempotent
proof -
  have twice: "returned (recompute_heightmaps c placeholder) (\<lambda>c'. returned (recompute_heightmaps c' placeholder)
      (\<lambda>c''. ch_heightmaps c'' = ch_heightmaps c'))" if "world g hm c" for g hm c
  proof -
    have "wf_chunk placeholder c" using that by (simp add: world_def)
    from recompute_heightmaps_eq [OF this] recompute_idempotent [OF this] show ?thesis by auto
  qed
  show ?thesis
    unfolding recomputing_twice_is_idempotent_def Let_def
    by (intro world_empty set_blocks_Cons set_blocks_Nil) (auto intro: twice)
qed

lemma heightmap_nbt_has_both_long_arrays_passes: heightmap_nbt_has_both_long_arrays
  unfolding heightmap_nbt_has_both_long_arrays_def Let_def
proof (intro world_empty world_recompute)
  fix c assume "world (\<lambda>_ _ _. 0) (ch_heightmaps c) c"
  then have "wf_heightmaps OVERWORLD (ch_heightmaps c)" by (auto simp: world_def wf_chunk_def)
  note D = wf_heightmapsD [OF this]
  have b: "heightmap_bits OVERWORLD = 9" using bits_for_value [of 385 8] by (simp add: heightmap_bits_def OVERWORLD_def)
  have l: "length (bs_data s) = 37" if "wf_storage s" "bs_len s = 256" "bs_bits s = 9" for s
  proof -
    have "div_ceil 256 (64 div 9) = Some (length (bs_data s))" using that unfolding wf_storage_def by metis
    then show ?thesis by (simp add: div_ceil_def)
  qed
  have "length (bs_data (hm_motion_blocking (ch_heightmaps c))) = 37"
    "length (bs_data (hm_world_surface (ch_heightmaps c))) = 37"
    by (rule l, rule D, rule D, simp only: D b)+
  moreover have k: "lit ''MOTION_BLOCKING'' \<noteq> lit ''WORLD_SURFACE''" by (simp add: lit_def)
  then have "heightmaps_to_nbt (ch_heightmaps c) = NCompound
      [(lit ''MOTION_BLOCKING'', NLongArray (bs_data (hm_motion_blocking (ch_heightmaps c)))),
       (lit ''WORLD_SURFACE'', NLongArray (bs_data (hm_world_surface (ch_heightmaps c))))]"
    by (simp add: heightmaps_to_nbt_def Let_def)
  ultimately show "case heightmaps_to_nbt (ch_heightmaps c) of
        NCompound compound \<Rightarrow> list_all (\<lambda>key. case compound_get compound key of
            Some (NLongArray values) \<Rightarrow> length values = 37 | _ \<Rightarrow> False)
          [lit ''MOTION_BLOCKING'', lit ''WORLD_SURFACE''] | _ \<Rightarrow> False"
    using k by (simp add: compound_get_def)
qed assumption

lemma set_blocks_run:
  assumes "world g hm c" "\<forall>(x, y, z, v) \<in> set ws. x < 16 \<and> z < 16 \<and> unat v < 32768 \<and> - 64 \<le> sint y \<and> sint y < 320"
    "\<And>g c'. world g hm c' \<Longrightarrow> P c'"
  shows "returned (set_blocks ws placeholder c) P"
  using assms(1,2)
proof (induction ws arbitrary: g c)
  case Nil
  then show ?case using assms(3) by (intro set_blocks_Nil)
next
  case (Cons w ws)
  obtain x y z v where w: "w = (x, y, z, v)" by (cases w) auto
  show ?case unfolding w using Cons.prems(2) w by (intro set_blocks_Cons [OF Cons.prems(1)] Cons.IH) auto
qed

lemma sint_height: "- 64 \<le> y \<Longrightarrow> y < 320 \<Longrightarrow> sint (word_of_int y :: i32) = y"
  by (intro sint_word_of_int_i32) simp_all

lemma chunk_wire_length_matches_what_is_written_passes: chunk_wire_length_matches_what_is_written
  unfolding chunk_wire_length_matches_what_is_written_def Let_def
proof (intro world_empty set_blocks_run)
  fix c assume "world (\<lambda>_ _ _. 0) (ch_heightmaps c) c"
  then show "world (\<lambda>_ _ _. 0) (ch_heightmaps c) c" .
  show "\<forall>(x, y, z, v) \<in> set [(x, word_of_int y, z, bst_stone placeholder). y \<leftarrow> [- 64..- 1], x \<leftarrow> [0..<16], z \<leftarrow> [0..<16]].
      x < 16 \<and> z < 16 \<and> unat v < 32768 \<and> - 64 \<le> sint (y :: i32) \<and> sint y < 320"
  proof (clarify)
    fix x y z v assume "(x, y :: i32, z, v :: u32) \<in> set [(x, word_of_int y, z, bst_stone placeholder). y \<leftarrow> [- 64..- 1], x \<leftarrow> [0..<16], z \<leftarrow> [0..<16]]"
    then obtain y' where "y = word_of_int y'" "- 64 \<le> y'" "y' \<le> - 1" "x < 16" "z < 16" "v = 1" by auto
    then show "x < 16 \<and> z < 16 \<and> unat v < 32768 \<and> - 64 \<le> sint y \<and> sint y < 320"
      using sint_height [of y'] by simp
  qed
next
  fix hm g c assume "world g hm c"
  then have "wf_chunk placeholder c" by (simp add: world_def)
  from write_sections_eq [OF this]
  show "returned (write_sections c placeholder) (\<lambda>out. length out = sections_wire_len c)" by auto
qed

lemma world_shrink:
  assumes c: "world g hm c"
  shows "returned (those (map (\<lambda>i. chunk_block c (i mod 16) (f i) 0 placeholder) js)) (\<lambda>before. returned (chunk_shrink c)
    (\<lambda>c. returned (those (map (\<lambda>i. chunk_block c (i mod 16) (f i) 0 placeholder) js)) (\<lambda>after. before = after)))"
proof -
  let ?h = "\<lambda>i. if - 64 \<le> sint (f i) \<and> sint (f i) < 320 then g (i mod 16) (nat (sint (f i) + 64)) 0 else 0"
  have w: "wf_chunk placeholder c" "ch_limits c = OVERWORLD" using c by (simp_all add: world_def)
  from chunk_shrink_eq [OF w(1)] obtain c' where c': "chunk_shrink c = Some c'" "wf_chunk placeholder c'"
    "ch_limits c' = OVERWORLD" "\<forall>x z h. h < 384 \<longrightarrow> block_id c' x h z = block_id c x h z"
    by (auto simp: w(2) overworld_wf(2))
  have "world g (ch_heightmaps c') c'" using c c'(2-4) by (simp add: world_def)
  from world_get [OF this] have "those (map (\<lambda>i. chunk_block c' (i mod 16) (f i) 0 placeholder) js) = Some (map ?h js)"
    by (intro those_map_Some) simp
  moreover from world_get [OF c] have "those (map (\<lambda>i. chunk_block c (i mod 16) (f i) 0 placeholder) js) = Some (map ?h js)"
    by (intro those_map_Some) simp
  ultimately show ?thesis by (simp add: c'(1))
qed

lemma shrink_does_not_change_block_contents_passes: shrink_does_not_change_block_contents
  unfolding shrink_does_not_change_block_contents_def Let_def
proof (intro world_empty set_blocks_run)
  fix c assume "world (\<lambda>_ _ _. 0) (ch_heightmaps c) c"
  then show "world (\<lambda>_ _ _. 0) (ch_heightmaps c) c" .
  have v: "unat (1 + word_of_nat i :: u32) < 32768" if "i < 300" for i using small_words [of "Suc i"] that by simp
  have y: "sint (word_of_nat i :: i32) = int i" if "i < 300" for i using sint_height [of "int i"] that by simp
  show "\<forall>(x, y, z, v) \<in> set (map (\<lambda>i. (i mod 16, word_of_nat (i mod 300), 0, bst_stone placeholder + word_of_nat i)) [0..<300]).
      x < 16 \<and> (z :: nat) < 16 \<and> unat v < 32768 \<and> - 64 \<le> sint (y :: i32) \<and> sint y < 320"
    by (auto simp: v y)
qed (rule world_shrink)

text \<open>Writes to a section, as writes to its container of block states.\<close>

lemma holds_section:
  assumes "holds Blocks 15 g W (cs_block_states s)" "x < 16" "y < 16" "z < 16" "unat v < 32768"
    and "\<And>s'. holds Blocks 15 (g(y * 256 + z * 16 + x := v)) (insert v W) (cs_block_states s') \<Longrightarrow> P (g (y * 256 + z * 16 + x), s')"
  shows "returned (section_set_block s x y z v) P"
proof -
  have i: "section_index x y z = y * 256 + z * 16 + x" using section_index_eq [OF assms(2-4)] by simp
  have "returned (container_set (cs_block_states s) (section_index x y z) v) (\<lambda>(p, c). P (p, s\<lparr>cs_block_states := c\<rparr>))"
    unfolding i by (rule holds_set [OF assms(1)]) (use assms in auto)
  then show ?thesis by (auto simp: section_set_block_def returned_def split: option.splits)
qed

lemma holds_section_filled: "unat v < 32768 \<Longrightarrow> holds Blocks 15 (\<lambda>_. v) {v} (cs_block_states (section_filled placeholder v b))"
  using holds_filled [of 15 v Blocks] by (simp add: section_filled_def)

lemma holds_non_air: "holds Blocks 15 g W (cs_block_states s) \<Longrightarrow>
  non_air_count placeholder s = Some (word_of_nat (card {i. i < 4096 \<and> g i \<noteq> 0}))"
  by (simp add: non_air_count_def holds_count filter_map comp_def length_filter_conv_card cong: conj_cong)

lemma a_solid_section_counts_every_block_passes: a_solid_section_counts_every_block
proof -
  have "non_air_count placeholder (section_filled placeholder 1 0) = Some 4096"
    using holds_non_air [OF holds_section_filled [of 1 0]] by simp
  then show ?thesis by (simp add: a_solid_section_counts_every_block_def section_is_empty_def Let_def SECTION_VOLUME_def SECTION_SIZE_def)
qed

abbreviation section_step :: "nat \<times> nat \<Rightarrow> chunk_section \<Rightarrow> chunk_section option" where
  "section_step \<equiv> \<lambda>(x, z) s. map_option snd (section_set_block s x 0 z 1)"

lemma holds_section_run:
  assumes "holds Blocks 15 g W (cs_block_states s)" "\<forall>(x, z) \<in> set ws. x < 16 \<and> z < 16"
    "\<And>s' W'. holds Blocks 15 (\<lambda>i. if i \<in> (\<lambda>(x, z). z * 16 + x) ` set ws then 1 else g i) W' (cs_block_states s') \<Longrightarrow> P s'"
  shows "returned (iterate section_step ws s) P"
  using assms
proof (induction ws arbitrary: s g W)
  case Nil
  then show ?case by auto
next
  case (Cons w ws)
  obtain x z where w: "w = (x, z)" by (cases w)
  have "returned (section_set_block s x 0 z 1) (\<lambda>(_, s). returned (iterate section_step ws s) P)"
  proof (rule holds_section [OF Cons.prems(1)])
    fix s' :: chunk_section assume s': "holds Blocks 15 (g(0 * 256 + z * 16 + x := 1)) (insert 1 W) (cs_block_states s')"
    have "returned (iterate section_step ws s') P"
    proof (rule Cons.IH [OF s'])
      fix s'' :: chunk_section and W'' assume "holds Blocks 15 (\<lambda>i. if i \<in> (\<lambda>(x, z). z * 16 + x) ` set ws then 1
        else (g(0 * 256 + z * 16 + x := 1)) i) W'' (cs_block_states s'')"
      also have "(\<lambda>i. if i \<in> (\<lambda>(x, z). z * 16 + x) ` set ws then 1 else (g(0 * 256 + z * 16 + x := 1)) i) =
          (\<lambda>i. if i \<in> (\<lambda>(x, z). z * 16 + x) ` set (w # ws) then 1 else g i)" by (auto simp: w fun_eq_iff)
      finally show "P s''" by (rule Cons.prems(3))
    qed (use Cons.prems(2) in auto)
    then show "case (g (0 * 256 + z * 16 + x), s') of (_, s) \<Rightarrow> returned (iterate section_step ws s) P" by simp
  qed (use Cons.prems(2) w in auto)
  then show ?case by (auto simp: w returned_def split: option.splits)
qed

abbreviation floor_columns :: "(nat \<times> nat) list" where
  "floor_columns \<equiv> [(x, z). x \<leftarrow> [0..<16], z \<leftarrow> [0..<16]]"

lemma floor_columns: "(x, z) \<in> set floor_columns \<longleftrightarrow> x < 16 \<and> z < 16"
  by (auto simp: image_iff)

lemma floor_indices: "(\<lambda>(x, z). z * 16 + x) ` set floor_columns = {0..<256}"
proof
  show "{0..<256} \<subseteq> (\<lambda>(x, z). z * 16 + x) ` set floor_columns"
  proof
    fix i :: nat assume "i \<in> {0..<256}"
    then have "(i mod 16, i div 16) \<in> set floor_columns" by (subst floor_columns) simp
    then show "i \<in> (\<lambda>(x, z). z * 16 + x) ` set floor_columns" by (rule rev_image_eqI) simp
  qed
  have "z * 16 + x < 256" if "(x, z) \<in> set floor_columns" for x z using that unfolding floor_columns by simp
  then show "(\<lambda>(x, z). z * 16 + x) ` set floor_columns \<subseteq> {0..<256}" by auto
qed

lemma floor_counted:
  assumes "holds Blocks 15 g W (cs_block_states s)" "\<And>i. i \<notin> {0..<256} \<Longrightarrow> g i = 0"
  shows "returned (iterate section_step floor_columns s) (\<lambda>s. non_air_count placeholder s = Some 256 \<and>
    returned (section_set_block s 0 0 0 0) (\<lambda>(_, s). non_air_count placeholder s = Some 255))"
proof (rule holds_section_run [OF assms(1)])
  show "\<forall>(x, z) \<in> set floor_columns. x < 16 \<and> z < 16" using floor_columns by blast
  fix s' :: chunk_section and W' assume "holds Blocks 15 (\<lambda>i. if i \<in> (\<lambda>(x, z). z * 16 + x) ` set floor_columns then 1 else g i) W' (cs_block_states s')"
  then have h: "holds Blocks 15 (\<lambda>i. if i \<in> {0..<256} then 1 else g i) W' (cs_block_states s')" by (simp only: floor_indices)
  have n: "{i. i < 4096 \<and> (if i \<in> {0..<256} then 1 else g i) \<noteq> 0} = {0..<256}"
    "{i. i < 4096 \<and> ((\<lambda>i. if i \<in> {0..<256} then 1 else g i)(0 * 256 + 0 * 16 + 0 := 0)) i \<noteq> 0} = {1..<256}"
    using assms(2) by (auto split: if_splits)
  have "returned (section_set_block s' 0 0 0 0) (\<lambda>(_, s). non_air_count placeholder s = Some 255)"
    by (rule holds_section [OF h]) (use n(2) in \<open>auto simp: holds_non_air\<close>)
  then show "non_air_count placeholder s' = Some 256 \<and>
      returned (section_set_block s' 0 0 0 0) (\<lambda>(_, s). non_air_count placeholder s = Some 255)"
    using holds_non_air [OF h] n(1) by simp
qed

lemma non_air_count_tracks_writes_passes: non_air_count_tracks_writes
proof -
  have s: "holds Blocks 15 (\<lambda>_. 0) {0} (cs_block_states (section_filled placeholder 0 0))"
    by (rule holds_section_filled) simp
  have "returned (section_set_block (section_filled placeholder 0 0) 0 0 0 1) (\<lambda>(_, s). non_air_count placeholder s = Some 1 \<and>
      returned (iterate section_step floor_columns s) (\<lambda>s. non_air_count placeholder s = Some 256 \<and>
      returned (section_set_block s 0 0 0 0) (\<lambda>(_, s). non_air_count placeholder s = Some 255)))"
  proof (rule holds_section [OF s], goal_cases)
    case (5 s')
    have "{i. i < 4096 \<and> ((\<lambda>_. 0)(0 * 256 + 0 * 16 + 0 := 1 :: u32)) i \<noteq> 0} = {0 :: nat}" by auto
    then have "non_air_count placeholder s' = Some 1" using holds_non_air [OF 5] by (simp only:) simp
    moreover note floor_counted [OF 5]
    ultimately show ?case by auto
  qed simp_all
  moreover have "non_air_count placeholder (section_filled placeholder 0 0) = Some 0" using holds_non_air [OF s] by simp
  ultimately show ?thesis unfolding non_air_count_tracks_writes_def Let_def air_stone by (intro conjI)
qed

lemma an_empty_chunk_serializes_compactly_passes: an_empty_chunk_serializes_compactly
  unfolding an_empty_chunk_serializes_compactly_def Let_def
proof (rule world_empty)
  fix c assume c: "world (\<lambda>_ _ _. 0) (ch_heightmaps c) c" "ch_sections c = replicate 24 (section_filled placeholder 0 0)"
  then have "wf_chunk placeholder c" by (simp add: world_def)
  moreover have "varint_len 0 = 1" unfolding varint_len_eq by (simp add: write_varint_def write_leb.simps)
  then have "section_wire_len (section_filled placeholder 0 0) = 8"
    by (simp add: section_wire_len_def section_filled_def filled_def container_wire_len_def)
  then have "sections_wire_len c = 192" by (simp add: sections_wire_len_def c(2) sum_list_replicate)
  ultimately show "returned (write_sections c placeholder) (\<lambda>out. length out = 24 * (2 + 3 + 3))"
    using write_sections_eq by fastforce
qed

lemma section_wire_length_matches_what_is_written_passes: section_wire_length_matches_what_is_written
proof -
  have len: "returned (section_write placeholder s) (\<lambda>out. length out = section_wire_len s)" if "wf_section placeholder s" for s
    using section_write_eq [OF that] by auto
  have s: "wf_section placeholder (section_filled placeholder 0 0)" by (rule wf_section_filled) simp
  from section_set_block_eq [OF s, of 0 0 0 1] obtain s' where
    "section_set_block (section_filled placeholder 0 0) 0 0 0 1 =
      Some (ids (cs_block_states (section_filled placeholder 0 0)) ! section_index 0 0 0, s')" "wf_section placeholder s'" by auto
  with len [OF s] len show ?thesis by (simp add: section_wire_length_matches_what_is_written_def Let_def)
qed

text \<open>The superflat column: its blocks by height, and the heights the generator leaves in the heightmaps.\<close>

lemma world_flat:
  assumes "\<And>c. world (\<lambda>_ h _. flat_block flat_default OVERWORLD placeholder h) (ch_heightmaps c) c \<Longrightarrow>
    surface (\<lambda>_ h _. flat_block flat_default OVERWORLD placeholder h) c \<Longrightarrow> P c"
  shows "returned (flat_generate flat_default pos OVERWORLD placeholder) P"
proof -
  have "id_ok placeholder (bst_air placeholder)" by simp
  then obtain c where c: "chunk_empty pos OVERWORLD placeholder = Some c" using chunk_empty_eq [OF overworld_wf(1)] by blast
  from flat_blocks_eq [OF flat_default_wf placeholder_wf(1) overworld_wf(1) this] obtain c' where
    c': "iterate (flat_section flat_default OVERWORLD placeholder) [0..<section_count OVERWORLD] c = Some c'"
      "world (\<lambda>_ h _. flat_block flat_default OVERWORLD placeholder h) (ch_heightmaps c') c'"
    by (auto simp: world_def overworld_wf(2))
  have "returned (recompute_heightmaps c' placeholder) P" by (rule world_recompute [OF c'(2)]) (rule assms)
  then show ?thesis by (simp add: flat_generate_def c c'(1))
qed

lemma flat_block_layers [simp]:
  "flat_block flat_default OVERWORLD placeholder h =
     (if h = 0 then bst_bedrock placeholder else if h = 4 then bst_grass_block placeholder
      else if h = 1 then 1 else if h < 4 then bst_dirt placeholder else 0)"
  by (auto simp: flat_block_def flat_default_def overworld_wf(3) Let_def)

lemma layer_ids: "bst_dirt placeholder = 2" "bst_grass_block placeholder = 3" "bst_bedrock placeholder = 4"
  by (simp_all add: placeholder_def)

lemma void_generator_produces_only_air_passes: void_generator_produces_only_air
proof -
  have "section_is_empty placeholder (section_filled placeholder 0 0) = Some True"
    using holds_non_air [OF holds_section_filled [of 0 0]] by (simp add: section_is_empty_def)
  then show ?thesis unfolding void_generator_produces_only_air_def Let_def void_generate_def
    by (intro world_empty) simp
qed

lemma flat_generator_lays_the_expected_column_passes: flat_generator_lays_the_expected_column
  unfolding flat_generator_lays_the_expected_column_def Let_def
  by (intro world_flat) (simp add: world_get)

lemma flat_generator_is_uniform_across_the_whole_chunk_passes: flat_generator_is_uniform_across_the_whole_chunk
  unfolding flat_generator_is_uniform_across_the_whole_chunk_def Let_def
  by (intro world_flat) (auto simp: list_all_iff SECTION_SIZE_def world_get)

lemma the_bulk_fill_path_agrees_with_a_per_block_sweep_passes: the_bulk_fill_path_agrees_with_a_per_block_sweep
proof -
  from sweep_agrees [OF flat_default_wf placeholder_wf(1) overworld_wf(1)] obtain fast slow where
    "flat_generate flat_default (ChunkPos 0 0) OVERWORLD placeholder = Some fast"
    "sweep_generate flat_default (ChunkPos 0 0) OVERWORLD placeholder = Some slow"
    "ch_heightmaps fast = ch_heightmaps slow"
    "\<And>y. chunk_block fast 0 y 0 placeholder = chunk_block slow 0 y 0 placeholder"
    by (metis zero_less_numeral)
  then show ?thesis
    by (simp add: the_bulk_fill_path_agrees_with_a_per_block_sweep_def Let_def world_range_eq [OF overworld_wf(1)] list_all_iff)
qed

lemma heightmaps_are_populated_by_generation_passes: heightmaps_are_populated_by_generation
  unfolding heightmaps_are_populated_by_generation_def Let_def
proof (intro world_flat)
  fix c assume "surface (\<lambda>_ h _. flat_block flat_default OVERWORLD placeholder h) c"
  from surface_index [OF this, of 0] have "world_surface_at c 0 =
      Some (height_of (\<lambda>h. flat_block flat_default OVERWORLD placeholder h))" by simp
  also have "top (\<lambda>h. flat_block flat_default OVERWORLD placeholder h \<noteq> 0) 0 384 = Suc 4"
    by (rule top_value) (simp_all add: layer_ids)
  finally show "world_surface_at c 0 = Some 5" by simp
qed

end
