(* ===== verification/Tests_Codec.thy ===== *)
theory Tests_Codec
  imports Testing Codec
begin

text \<open>
  The unit tests of \<open>codec.rs\<close> and \<open>crypt.rs\<close> in \<open>crates/rukkit-protocol/src\<close>. The cipher and zlib are parameters, so a
  test is a function of them, bundled in \<open>tools\<close>, and it passes for all that are \<open>lawful\<close>. The tests of what the
  libraries alone decide are not translated: that ciphertext differs from its plaintext and from one block to the next, how far
  zlib shrinks a packet, and that it rejects a corrupt stream; nor are those of the cipher on empty input and of its debug text.
\<close>

record ('c, 'd, 'z, 'y) tools =
  tl_encrypt :: "'c \<Rightarrow> u8 \<Rightarrow> u8 \<times> 'c"
  tl_decrypt :: "'d \<Rightarrow> u8 \<Rightarrow> u8 \<times> 'd"
  tl_encryptor :: "bytes \<Rightarrow> bytes \<Rightarrow> 'c"
  tl_decryptor :: "bytes \<Rightarrow> bytes \<Rightarrow> 'd"
  tl_deflate :: "'z zlib"
  tl_inflate :: "'y zlib"
  tl_reserve :: "usize \<Rightarrow> usize \<Rightarrow> usize \<Rightarrow> usize"
  tl_compress :: 'z
  tl_decompress :: 'y

definition byte_string :: "string \<Rightarrow> bytes" where
  "byte_string = map of_char"

section \<open>crypt.rs\<close>

definition SECRET :: bytes where
  "SECRET = byte_string ''0123456789abcdef''"

definition keystream_is_continuous_across_calls :: "('c, 'd, 'z, 'y) tools \<Rightarrow> bool" where
  "keystream_is_continuous_across_calls T =
     (let data = byte_string ''first-half|second-half'' in
      unwrap (cipher_new (tl_encryptor T) SECRET) (\<lambda>one. let (whole, _) = crypt (tl_encrypt T) one data in
      unwrap (cipher_new (tl_encryptor T) SECRET) (\<lambda>two.
        let (a, two) = crypt (tl_encrypt T) two (take 10 data); (b, _) = crypt (tl_encrypt T) two (drop 10 data)
        in whole = a @ b)))"

definition wrong_secret_length_is_rejected :: "('c, 'd, 'z, 'y) tools \<Rightarrow> bool" where
  "wrong_secret_length_is_rejected T \<longleftrightarrow>
     is_err (cipher_new (tl_encryptor T) (byte_string ''short'')) \<and>
     is_err (decryptor_new (tl_decryptor T) (replicate 17 0)) \<and>
     is_ok (cipher_new (tl_encryptor T) (replicate 16 0))"

section \<open>codec.rs\<close>

definition new_encoder :: "('c, 'd, 'z, 'y) tools \<Rightarrow> ('c, 'z) encoder" where
  "new_encoder T = encoder_new (tl_compress T)"

definition new_decoder :: "('c, 'd, 'z, 'y) tools \<Rightarrow> ('d, 'y) decoder" where
  "new_decoder T = decoder_new (tl_decompress T)"

text \<open>\<open>Encoder::encode\<close> where the test unwraps its result.\<close>

definition encoded :: "('c, 'd, 'z, 'y) tools \<Rightarrow> bytes \<Rightarrow> bytes \<times> ('c, 'z) encoder \<Rightarrow> (bytes \<times> ('c, 'z) encoder) option" where
  "encoded T packet = (\<lambda>(out, e).
     Option.bind (encode (tl_encrypt T) (tl_deflate T) (tl_reserve T) packet out e) (\<lambda>(result, out, e).
       case result of Inl _ \<Rightarrow> None | Inr _ \<Rightarrow> Some (out, e)))"

definition decoded :: "('c, 'd, 'z, 'y) tools \<Rightarrow> ('d, 'y) decoder \<Rightarrow> (bytes option \<times> ('d, 'y) decoder) option" where
  "decoded T d = (case decode (tl_inflate T) d of (Inl _, _) \<Rightarrow> None | (Inr got, d) \<Rightarrow> Some (got, d))"

definition round_trip :: "('c, 'd, 'z, 'y) tools \<Rightarrow> bytes \<Rightarrow> ('c, 'z) encoder \<times> ('d, 'y) decoder \<Rightarrow>
    (bytes \<times> ('c, 'z) encoder \<times> ('d, 'y) decoder) option" where
  "round_trip T packet = (\<lambda>(encoder, decoder).
     Option.bind (encoded T packet ([], encoder)) (\<lambda>(wire, encoder).
     Option.bind (decoded T (feed (tl_decrypt T) wire decoder)) (\<lambda>(got, decoder).
     map_option (\<lambda>packet. (packet, encoder, decoder)) got)))"

text \<open>A loop that asserts a round trip for each packet.\<close>

definition all_round_trip :: "('c, 'd, 'z, 'y) tools \<Rightarrow> bytes list \<Rightarrow> ('c, 'z) encoder \<times> ('d, 'y) decoder \<Rightarrow> bool" where
  "all_round_trip T packets ends = returned (iterate (\<lambda>packet ends.
     Option.bind (round_trip T packet ends) (\<lambda>(got, ends). if got = packet then Some ends else None)) packets ends) (\<lambda>_. True)"

definition uncompressed_round_trip :: "('c, 'd, 'z, 'y) tools \<Rightarrow> bool" where
  "uncompressed_round_trip T =
     (let packet = 0x00 # byte_string ''hello world'' in
      returned (round_trip T packet (new_encoder T, new_decoder T)) (\<lambda>(got, _). got = packet))"

definition frame_layout_is_length_then_body :: "('c, 'd, 'z, 'y) tools \<Rightarrow> bool" where
  "frame_layout_is_length_then_body T =
     returned (encoded T (0x00 # byte_string ''abc'') ([], new_encoder T)) (\<lambda>(out, _). out = [4, 0x00] @ byte_string ''abc'')"

definition partial_frames_are_buffered_until_complete :: "('c, 'd, 'z, 'y) tools \<Rightarrow> bool" where
  "partial_frames_are_buffered_until_complete T =
     (let packet = 0x00 # byte_string ''some payload here'' in
      returned (encoded T packet ([], new_encoder T)) (\<lambda>(wire, _).
      returned (iterate (\<lambda>(i, byte) dec.
          Option.bind (decoded T (feed (tl_decrypt T) [byte] dec)) (\<lambda>(got, dec).
          if (if i + 1 = length wire then got = Some packet else got = None) then Some dec else None))
        (enumerate 0 wire) (new_decoder T)) (\<lambda>_. True)))"

definition multiple_packets_in_one_read_are_all_decoded :: "('c, 'd, 'z, 'y) tools \<Rightarrow> bool" where
  "multiple_packets_in_one_read_are_all_decoded T =
     (let one = 0x00 # byte_string ''one''; two = 0x01 # byte_string ''two''; three = 0x02 # byte_string ''three'' in
      returned (iterate (encoded T) [one, two, three] ([], new_encoder T)) (\<lambda>(out, _).
      returned (decoded T (feed (tl_decrypt T) out (new_decoder T))) (\<lambda>(got, dec). got = Some one \<and>
      returned (decoded T dec) (\<lambda>(got, dec). got = Some two \<and>
      returned (decoded T dec) (\<lambda>(got, dec). got = Some three \<and>
      returned (decoded T dec) (\<lambda>(got, dec). got = None))))))"

definition small_packets_pass_through_uncompressed :: "('c, 'd, 'z, 'y) tools \<Rightarrow> bool" where
  "small_packets_pass_through_uncompressed T =
     (let enc = enc_enable_compression DEFAULT_COMPRESSION_THRESHOLD (new_encoder T);
          packet = 0x00 # byte_string ''tiny'' in
      returned (encoded T packet ([], enc)) (\<lambda>(out, _). out ! 1 = 0 \<and>
      returned (round_trip T packet (new_encoder T, new_decoder T)) (\<lambda>(got, _). got = packet)))"

definition compressed_codec_handles_a_long_sequence :: "('c, 'd, 'z, 'y) tools \<Rightarrow> bool" where
  "compressed_codec_handles_a_long_sequence T =
     all_round_trip T (map (\<lambda>i. let len = if i mod 2 = 0 then 10 else 1000 in map (\<lambda>n. word_of_nat (n mod 251)) [0..<len])
         [0 :: nat..<200])
       (enc_enable_compression DEFAULT_COMPRESSION_THRESHOLD (new_encoder T),
        dec_enable_compression DEFAULT_COMPRESSION_THRESHOLD (new_decoder T))"

definition encrypted_round_trip_across_many_packets :: "('c, 'd, 'z, 'y) tools \<Rightarrow> bool" where
  "encrypted_round_trip_across_many_packets T =
     (let secret = replicate 16 7 in
      unwrap (cipher_new (tl_encryptor T) secret) (\<lambda>encryptor.
      unwrap (decryptor_new (tl_decryptor T) secret) (\<lambda>decryptor.
        all_round_trip T (map (\<lambda>i. replicate 64 (word_of_nat i)) [0..<50])
          (enc_enable_encryption encryptor (new_encoder T), dec_enable_encryption decryptor (new_decoder T)))))"

definition encryption_and_compression_compose :: "('c, 'd, 'z, 'y) tools \<Rightarrow> bool" where
  "encryption_and_compression_compose T =
     (let secret = replicate 16 3;
          enc = enc_enable_compression DEFAULT_COMPRESSION_THRESHOLD (new_encoder T);
          dec = dec_enable_compression DEFAULT_COMPRESSION_THRESHOLD (new_decoder T) in
      unwrap (cipher_new (tl_encryptor T) secret) (\<lambda>encryptor.
      unwrap (decryptor_new (tl_decryptor T) secret) (\<lambda>decryptor.
        all_round_trip T (map (\<lambda>i. map (\<lambda>n. word_of_nat ((n + i) mod 251)) [0..<500]) [0..<20])
          (enc_enable_encryption encryptor enc, dec_enable_encryption decryptor dec))))"

text \<open>What the decoder says to the given bytes.\<close>

definition refused :: "('c, 'd, 'z, 'y) tools \<Rightarrow> ('d, 'y) decoder \<Rightarrow> bytes \<Rightarrow> (protocol_error \<Rightarrow> bool) \<Rightarrow> bool" where
  "refused T dec bytes p = unwrap_err (fst (decode (tl_inflate T) (feed (tl_decrypt T) bytes dec))) p"

definition oversized_length_prefix_is_rejected :: "('c, 'd, 'z, 'y) tools \<Rightarrow> bool" where
  "oversized_length_prefix_is_rejected T =
     refused T (new_decoder T) (write_varint (word_of_nat (MAX_FRAME_LEN + 1)))
       (\<lambda>e. case e of FrameTooLarge _ _ \<Rightarrow> True | _ \<Rightarrow> False)"

definition negative_length_prefix_is_rejected :: "('c, 'd, 'z, 'y) tools \<Rightarrow> bool" where
  "negative_length_prefix_is_rejected T =
     refused T (new_decoder T) (write_varint (- 1)) (\<lambda>e. e = NegativeLength (- 1))"

text \<open>A frame whose declared uncompressed size is \<open>n\<close>, and a decoder that expects compressed frames.\<close>

definition framed :: "i32 \<Rightarrow> bytes \<Rightarrow> bytes" where
  "framed n body = (let inner = write_varint n @ body in write_varint (word_of_nat (length inner)) @ inner)"

definition compressed_decoder :: "('c, 'd, 'z, 'y) tools \<Rightarrow> ('d, 'y) decoder" where
  "compressed_decoder T = dec_enable_compression DEFAULT_COMPRESSION_THRESHOLD (new_decoder T)"

definition packet_compressed_below_the_threshold_is_rejected :: "('c, 'd, 'z, 'y) tools \<Rightarrow> bool" where
  "packet_compressed_below_the_threshold_is_rejected T =
     (let body = [0x78, 0x9c, 0x03, 0x00, 0x00, 0x00, 0x00, 0x01] in
      refused T (compressed_decoder T) (framed 10 body) (\<lambda>e. case e of BadlyCompressed _ _ \<Rightarrow> True | _ \<Rightarrow> False))"

definition zip_bomb_declaring_a_huge_size_is_rejected :: "('c, 'd, 'z, 'y) tools \<Rightarrow> bool" where
  "zip_bomb_declaring_a_huge_size_is_rejected T =
     refused T (compressed_decoder T) (framed (word_of_nat (MAX_FRAME_LEN + 1)) [0x78, 0x9c, 0x01])
       (\<lambda>e. case e of DecompressedTooLarge _ _ \<Rightarrow> True | _ \<Rightarrow> False)"

definition stream_smaller_than_its_declared_size_is_rejected :: "('c, 'd, 'z, 'y) tools \<Rightarrow> bool" where
  "stream_smaller_than_its_declared_size_is_rejected T =
     (let real = replicate 300 (of_char CHR ''Z'') in
      returned (compress_into (tl_deflate T) (tl_reserve T) (tl_compress T) real 0) (\<lambda>(result, _, compressed, _). result = Inr () \<and>
        refused T (compressed_decoder T) (framed 4096 compressed)
          (\<lambda>e. case e of Compression _ \<Rightarrow> True | _ \<Rightarrow> False)))"

definition empty_packet_round_trips :: "('c, 'd, 'z, 'y) tools \<Rightarrow> bool" where
  "empty_packet_round_trips T = returned (round_trip T [] (new_encoder T, new_decoder T)) (\<lambda>(got, _). got = [])"

section \<open>What is asked of the cipher and of zlib\<close>

text \<open>
  The laws of \<open>Codec\<close>; a cipher and a decipher set up with the same key and vector are in step; and the documented bound on
  how much \<open>deflate\<close> can add to its input, here generously as its length once more.
\<close>

definition lawful :: "('c \<Rightarrow> 'd \<Rightarrow> bool) \<Rightarrow> ('z \<Rightarrow> bytes \<Rightarrow> bytes \<Rightarrow> bool) \<Rightarrow> ('y \<Rightarrow> bytes \<Rightarrow> bytes \<Rightarrow> bool) \<Rightarrow>
    (bytes \<Rightarrow> bytes) \<Rightarrow> ('c, 'd, 'z, 'y) tools \<Rightarrow> bool" where
  "lawful sync R S deflate T \<longleftrightarrow> cipher_pair (tl_encrypt T) (tl_decrypt T) sync \<and>
     (\<forall>key. sync (tl_encryptor T key key) (tl_decryptor T key key)) \<and>
     deflates (tl_deflate T) R deflate \<and> inflates (tl_inflate T) S deflate \<and> reserves (tl_reserve T) \<and>
     (\<forall>bs. length (deflate bs) \<le> 2 * length bs + 64)"

definition paired :: "('c \<Rightarrow> 'd \<Rightarrow> bool) \<Rightarrow> ('c, 'z) encoder \<times> ('d, 'y) decoder \<Rightarrow> bool" where
  "paired sync ends \<longleftrightarrow> (case ends of (e, d) \<Rightarrow> matched sync e d \<and> dec_buffer d = [] \<and>
     enc_max_frame e = MAX_FRAME_LEN \<and> dec_max_frame d = MAX_FRAME_LEN)"

lemma lawfulD:
  assumes "lawful sync R S deflate T"
  shows "cipher_pair (tl_encrypt T) (tl_decrypt T) sync" "sync (tl_encryptor T key key) (tl_decryptor T key key)"
    "deflates (tl_deflate T) R deflate" "inflates (tl_inflate T) S deflate" "reserves (tl_reserve T)"
    "length (deflate bs) \<le> 2 * length bs + 64"
  using assms by (simp_all add: lawful_def)

lemma max_frame: "MAX_FRAME_LEN = 2097152"
  by (simp add: MAX_FRAME_LEN_def)

lemma paired_new [simp]: "paired sync (new_encoder T, new_decoder T)"
  by (simp add: paired_def matched_def new_encoder_def new_decoder_def encoder_new_def decoder_new_def max_frame)

lemma paired_compression: "paired sync (e, d) \<Longrightarrow> paired sync (enc_enable_compression t e, dec_enable_compression t d)"
  by (auto simp: paired_def matched_def enc_enable_compression_def dec_enable_compression_def split: option.splits)

lemma paired_encryption:
  "paired sync (e, d) \<Longrightarrow> sync c c' \<Longrightarrow> paired sync (enc_enable_encryption c e, dec_enable_encryption c' d)"
  by (auto simp: paired_def matched_def enc_enable_encryption_def dec_enable_encryption_def split: option.splits)

lemma encode_frame_accepts:
  assumes law: "lawful sync R S deflate T" and p: "length packet < 65536" and e: "enc_max_frame e = 2097152"
    and f: "encode_frame (tl_deflate T) (tl_reserve T) packet e = Some (result, e')"
  shows "\<exists>frame. result = Inr frame"
proof -
  obtain z cap where c: "compress_into (tl_deflate T) (tl_reserve T) (enc_compressor e) packet (enc_scratch_cap e) =
      Some (Inr (), z, deflate packet, cap)" using compress_into_eq [OF lawfulD(3,5) [OF law]] by blast
  have "varint_len (word_of_nat (length packet)) \<le> 5" using length_write_varint(2) by (simp add: varint_len_eq)
  then have n: "varint_len (word_of_nat (length packet)) + length (deflate packet) \<le> 2097152" "length packet \<le> 2097152"
    using lawfulD(6) [OF law, of packet] p by linarith+
  show ?thesis
  proof (cases "enc_compression e")
    case None
    then show ?thesis using f n(2) e by (auto simp: encode_frame_def)
  next
    case (Some t)
    then show ?thesis using f n e c by (cases "length packet < t") (auto simp: encode_frame_def Let_def)
  qed
qed

lemma round_trip_ok:
  assumes law: "lawful sync R S deflate T" and m: "paired sync (e, d)" and p: "packet \<noteq> []" "length packet < 65536"
  shows "\<exists>ends. round_trip T packet (e, d) = Some (packet, ends) \<and> paired sync ends"
proof -
  note L = lawfulD [OF law]
  have k: "enc_compression e = dec_compression d" "dec_buffer d = []" "enc_max_frame e = 2097152" "dec_max_frame d = 2097152"
    "case (enc_encryptor e, dec_decryptor d) of (None, None) \<Rightarrow> True | (Some c, Some c') \<Rightarrow> sync c c' | _ \<Rightarrow> False"
    using m by (simp_all add: paired_def matched_def max_frame)
  have b: "length packet < 2097152" "enc_max_frame e \<le> 2097152" "(2097152 :: nat) < 2 ^ 31" using p(2) k(3) by simp_all
  let ?fits = "\<lambda>frame. frame_of (tl_inflate T) (enc_compression e) 2097152 packet frame TYPE(('b, 'd) decoder)"
  obtain result e1 where
    f: "encode_frame (tl_deflate T) (tl_reserve T) packet e = Some (result, e1)" "enc_compression e1 = enc_compression e"
      "enc_encryptor e1 = enc_encryptor e" "enc_max_frame e1 = enc_max_frame e" "\<forall>frame. result = Inr frame \<longrightarrow> ?fits frame"
    using encode_frame_ok [OF L(3-5) p(1) b, of "TYPE(('b, 'd) decoder)"] by (elim exE conjE) simp
  obtain frame where r: "result = Inr frame" using encode_frame_accepts [OF law p(2) k(3) f(1)] by blast
  obtain wire c1 where w: "crypt_opt (tl_encrypt T) (enc_encryptor e) frame = (wire, c1)" by fastforce
  from crypt_opt_pair [OF L(1) k(5), of frame] w obtain c2 where
    c2: "crypt_opt (tl_decrypt T) (dec_decryptor d) wire = (frame, c2)"
      "case (c1, c2) of (None, None) \<Rightarrow> True | (Some c, Some c') \<Rightarrow> sync c c' | _ \<Rightarrow> False" by auto
  have enc: "encoded T packet ([], e) = Some (wire, e1\<lparr>enc_encryptor := c1\<rparr>)"
    using f(1,3) r w by (simp add: encoded_def encode_crypt_opt)
  let ?d = "d\<lparr>dec_decryptor := c2, dec_buffer := frame @ []\<rparr>"
  have fd: "feed (tl_decrypt T) wire d = ?d" using c2(1) k(2) by (simp add: feed_crypt_opt)
  have "?fits frame" using f(5) r by blast
  then have "dec_compression ?d = enc_compression e \<longrightarrow> dec_max_frame ?d = 2097152 \<longrightarrow> dec_buffer ?d = frame @ [] \<longrightarrow>
      (\<exists>z. decode (tl_inflate T) ?d = (Inr (Some packet), ?d\<lparr>dec_buffer := [], dec_decompressor := z\<rparr>))"
    unfolding frame_of_def by blast
  then obtain z2 where "decode (tl_inflate T) ?d = (Inr (Some packet), ?d\<lparr>dec_buffer := [], dec_decompressor := z2\<rparr>)"
    using k(1,4) by auto
  then have "round_trip T packet (e, d) = Some (packet, e1\<lparr>enc_encryptor := c1\<rparr>, ?d\<lparr>dec_buffer := [], dec_decompressor := z2\<rparr>)"
    by (simp add: round_trip_def decoded_def enc fd)
  moreover have "paired sync (e1\<lparr>enc_encryptor := c1\<rparr>, ?d\<lparr>dec_buffer := [], dec_decompressor := z2\<rparr>)"
    using k f(2-4) c2(2) by (auto simp: paired_def matched_def max_frame split: option.splits)
  ultimately show ?thesis by blast
qed

lemma all_round_trip_ok:
  assumes "lawful sync R S deflate T"
  shows "paired sync ends \<Longrightarrow> \<forall>p \<in> set packets. p \<noteq> [] \<and> length p < 65536 \<Longrightarrow> all_round_trip T packets ends"
proof (induction packets arbitrary: ends)
  case (Cons p ps)
  obtain e d where ends: "ends = (e, d)" by (cases ends)
  with round_trip_ok [OF assms, of e d p] Cons.prems obtain ends' where
    "round_trip T p ends = Some (p, ends')" "paired sync ends'" by auto
  with Cons show ?case by (simp add: all_round_trip_def)
qed (simp add: all_round_trip_def)

text \<open>The cipher and the stored format of \<open>Codec\<close> are lawful tools.\<close>

lemma stored_lawful:
  "lawful (=) (\<lambda>_ input rest. rest = input) (\<lambda>_ input rest. rest = input) (\<lambda>bs. bs)
    \<lparr>tl_encrypt = feedback_enc, tl_decrypt = feedback_dec, tl_encryptor = (\<lambda>_. hd), tl_decryptor = (\<lambda>_. hd),
     tl_deflate = stored, tl_inflate = stored, tl_reserve = grow, tl_compress = (), tl_decompress = ()\<rparr>"
  by (simp add: lawful_def feedback_pair stored_deflates stored_inflates grow_reserves)

section \<open>The tests pass\<close>

lemma byte_string_simps [simp]: "byte_string [] = []" "byte_string (c # cs) = of_char c # byte_string cs"
    "length (byte_string cs) = length cs"
  by (simp_all add: byte_string_def)

lemma cipher_new_16: "length key = 16 \<Longrightarrow> cipher_new new key = Inr (new key key)"
    "length key = 16 \<Longrightarrow> decryptor_new new' key = Inr (new' key key)"
  by (simp_all add: cipher_new_def decryptor_new_def SHARED_SECRET_LEN_def)

lemma keystream_is_continuous_across_calls_passes: "keystream_is_continuous_across_calls T"
proof -
  have k: "cipher_new new SECRET = Inr (new SECRET SECRET)" for new :: "bytes \<Rightarrow> bytes \<Rightarrow> 'a"
    by (rule cipher_new_16) (simp add: SECRET_def)
  have "let (whole, _) = crypt step c data; (a, two) = crypt step c (take 10 data); (b, _) = crypt step two (drop 10 data)
      in whole = a @ b" for step :: "'a \<Rightarrow> u8 \<Rightarrow> u8 \<times> 'a" and c and data
    using crypt_append [of step c "take 10 data" "drop 10 data"] by (auto split: prod.splits)
  then show ?thesis unfolding keystream_is_continuous_across_calls_def k unwrap_simps Let_def .
qed

lemma wrong_secret_length_is_rejected_passes: "wrong_secret_length_is_rejected T"
  by (simp add: wrong_secret_length_is_rejected_def cipher_new_def decryptor_new_def SHARED_SECRET_LEN_def)

lemma uncompressed_round_trip_passes:
  assumes "lawful sync R S deflate T"
  shows "uncompressed_round_trip T"
  using round_trip_ok [OF assms paired_new [of sync T], of "0 # byte_string ''hello world''"]
  by (auto simp: uncompressed_round_trip_def Let_def)

text \<open>The frames of an encoder without compression and encryption, and what the decoder makes of them.\<close>

definition plain_frame :: "bytes \<Rightarrow> bytes" where
  "plain_frame packet = write_varint (word_of_nat (length packet)) @ packet"

lemma encoded_plain: "length packet \<le> 2097152 \<Longrightarrow> encoded T packet (out, new_encoder T) = Some (out @ plain_frame packet, new_encoder T)"
  by (simp add: encoded_def encode_def encode_frame_def new_encoder_def encoder_new_def max_frame plain_frame_def)

abbreviation buffering :: "('c, 'd, 'z, 'y) tools \<Rightarrow> bytes \<Rightarrow> ('d, 'y) decoder" where
  "buffering T bs \<equiv> (new_decoder T)\<lparr>dec_buffer := bs\<rparr>"

lemma fed_plain: "feed (tl_decrypt T) bs (new_decoder T) = buffering T bs"
    "feed (tl_decrypt T) bs' (buffering T bs) = buffering T (bs @ bs')"
  by (simp_all add: feed_def new_decoder_def decoder_new_def)

lemma buffering_new: "new_decoder T = buffering T []"
  by (simp add: new_decoder_def decoder_new_def)

lemma decoded_plain: "length packet \<le> 2097152 \<Longrightarrow> decoded T (buffering T (plain_frame packet @ rest)) = Some (Some packet, buffering T rest)"
  using decode_whole [of packet "buffering T (plain_frame packet @ rest)" rest "tl_inflate T"]
  by (simp add: decoded_def plain_frame_def new_decoder_def decoder_new_def max_frame decode_frame_def)

lemma decoded_empty: "decoded T (buffering T []) = Some (None, buffering T [])"
  by (simp add: decoded_def decode_def read_varint_def MAX_VARINT_BYTES_def)

lemma frame_layout_is_length_then_body_passes: "frame_layout_is_length_then_body T"
  by (simp add: frame_layout_is_length_then_body_def encoded_plain plain_frame_def write_varint_def write_leb_last)

lemma empty_packet_round_trips_passes: "empty_packet_round_trips T"
  using decoded_plain [of "[]" T "[]"]
  by (simp add: empty_packet_round_trips_def round_trip_def encoded_plain fed_plain)

lemma multiple_packets_in_one_read_are_all_decoded_passes: "multiple_packets_in_one_read_are_all_decoded T"
  unfolding multiple_packets_in_one_read_are_all_decoded_def Let_def
  by (simp add: encoded_plain fed_plain decoded_plain decoded_plain [of _ _ "[]", simplified] decoded_empty
      del: byte_string_simps(2))

lemma partial_frames_are_buffered_until_complete_passes: "partial_frames_are_buffered_until_complete T"
proof -
  let ?p = "0x00 # byte_string ''some payload here''"
  let ?step = "\<lambda>(i, byte) dec. Option.bind (decoded T (feed (tl_decrypt T) [byte] dec)) (\<lambda>(got, dec).
    if (if i + 1 = length (plain_frame ?p) then got = Some ?p else got = None) then Some dec else None)"
  have w: "plain_frame ?p = 18 # ?p" by (simp add: plain_frame_def write_varint_def write_leb_last)
  have l: "length ?p = 18" by simp
  have len: "length (plain_frame ?p) = 19" unfolding w using l by simp
  have early: "decoded T (buffering T (take n (plain_frame ?p))) = Some (None, buffering T (take n (plain_frame ?p)))" if "n < 19" for n
  proof (cases n)
    case 0
    then show ?thesis by (simp add: decoded_empty)
  next
    case (Suc k)
    have "read_varint (write_varint 18 @ take k ?p) = Inr (18, varint_len 18)" by (rule read_varint_write_varint)
    then have "read_varint (18 # take k ?p) = Inr (18, 1)"
      by (simp add: write_varint_def write_leb_last varint_len_eq)
    moreover have "length (take k ?p) < 18" using that Suc l by simp
    ultimately show ?thesis unfolding w Suc take_Suc_Cons
      by (simp add: decoded_def decode_def new_decoder_def decoder_new_def max_frame word_sless_alt del: length_take byte_string_simps)
  qed
  have run: "iterate ?step (enumerate n (drop n (plain_frame ?p))) (buffering T (take n (plain_frame ?p))) = Some (buffering T [])"
    if "n < 19" for n
    using that
  proof (induction "18 - n" arbitrary: n)
    case 0
    then have n: "n = 18" by simp
    have "take 18 (plain_frame ?p) @ [plain_frame ?p ! 18] = plain_frame ?p" "drop 18 (plain_frame ?p) = [plain_frame ?p ! 18]"
      unfolding w by simp_all
    moreover have "decoded T (buffering T (plain_frame ?p)) = Some (Some ?p, buffering T [])"
      using decoded_plain [of ?p T "[]"] l by simp
    ultimately show ?case unfolding n by (simp add: fed_plain len del: byte_string_simps)
  next
    case (Suc k)
    then have "n < 18" by simp
    with len have d: "drop n (plain_frame ?p) = plain_frame ?p ! n # drop (Suc n) (plain_frame ?p)"
      "take n (plain_frame ?p) @ [plain_frame ?p ! n] = take (Suc n) (plain_frame ?p)" "Suc n \<noteq> length (plain_frame ?p)"
      by (simp_all add: Cons_nth_drop_Suc take_Suc_conv_app_nth)
    have "iterate ?step (enumerate (Suc n) (drop (Suc n) (plain_frame ?p))) (buffering T (take (Suc n) (plain_frame ?p))) =
        Some (buffering T [])" using Suc by (intro Suc.hyps(1)) simp_all
    moreover have "?step (n, plain_frame ?p ! n) (buffering T (take n (plain_frame ?p))) = Some (buffering T (take (Suc n) (plain_frame ?p)))"
      using early [of "Suc n"] \<open>n < 18\<close> d(2,3) by (simp add: fed_plain del: byte_string_simps)
    ultimately show ?case unfolding d(1) enumerate_simps iterate.simps by (simp only: bind.bind_lunit)
  qed
  from run [of 0] show ?thesis
    unfolding partial_frames_are_buffered_until_complete_def Let_def
    by (subst encoded_plain) (simp_all add: buffering_new [symmetric] del: byte_string_simps(1,2))
qed

lemma small_packets_pass_through_uncompressed_passes:
  assumes "lawful sync R S deflate T"
  shows "small_packets_pass_through_uncompressed T"
proof -
  have "returned (encoded T (0 # byte_string ''tiny'') ([], enc_enable_compression DEFAULT_COMPRESSION_THRESHOLD (new_encoder T)))
      (\<lambda>(out, _). out ! 1 = 0)"
    by (simp add: encoded_def encode_def encode_frame_def new_encoder_def encoder_new_def enc_enable_compression_def
        DEFAULT_COMPRESSION_THRESHOLD_def write_varint_def write_leb_last)
  moreover obtain ends where "round_trip T (0 # byte_string ''tiny'') (new_encoder T, new_decoder T) = Some (0 # byte_string ''tiny'', ends)"
    using round_trip_ok [OF assms paired_new [of sync T], of "0 # byte_string ''tiny''"] by auto
  ultimately show ?thesis
    unfolding small_packets_pass_through_uncompressed_def Let_def by (simp add: returned_def split: option.splits prod.splits)
qed

lemma compressed_codec_handles_a_long_sequence_passes:
  assumes "lawful sync R S deflate T"
  shows "compressed_codec_handles_a_long_sequence T"
  unfolding compressed_codec_handles_a_long_sequence_def
  by (rule all_round_trip_ok [OF assms paired_compression [OF paired_new]]) (auto simp: Let_def)

lemma encrypted_round_trip_across_many_packets_passes:
  assumes "lawful sync R S deflate T"
  shows "encrypted_round_trip_across_many_packets T"
  unfolding encrypted_round_trip_across_many_packets_def Let_def
  by (simp add: cipher_new_16 del: map_replicate upt_conv_Cons)
    (rule all_round_trip_ok [OF assms], rule paired_encryption, rule paired_new, rule lawfulD(2) [OF assms], auto)

lemma encryption_and_compression_compose_passes:
  assumes "lawful sync R S deflate T"
  shows "encryption_and_compression_compose T"
  unfolding encryption_and_compression_compose_def Let_def
  by (simp add: cipher_new_16)
    (rule all_round_trip_ok [OF assms], rule paired_encryption, rule paired_compression, rule paired_new, rule lawfulD(2) [OF assms], auto)

text \<open>What the decoder finds at the front of its buffer, up to the body of a frame.\<close>

lemma refused_prefix:
  assumes "dec_buffer d = []" "dec_decryptor d = None" "dec_max_frame d = 2097152"
  shows "\<not> n <s 0 \<Longrightarrow> 2097152 < unat n \<Longrightarrow> p (FrameTooLarge (unat n) 2097152) \<Longrightarrow> refused T d (write_varint n) p"
    "n <s 0 \<Longrightarrow> p (NegativeLength n) \<Longrightarrow> refused T d (write_varint n) p"
  using read_varint_write_varint [of n "[]"] assms
  by (simp_all add: refused_def feed_def decode_def Let_def)

lemma refused_frame:
  assumes "length body < 65536"
  shows "refused T (compressed_decoder T) (framed n body) p \<longleftrightarrow>
    unwrap_err (fst (decode_frame (tl_inflate T) (write_varint n @ body) (compressed_decoder T))) p"
proof -
  let ?inner = "write_varint n @ body"
  let ?d = "(compressed_decoder T)\<lparr>dec_buffer := write_varint (word_of_nat (length ?inner)) @ ?inner\<rparr>"
  have "length ?inner \<le> 2097152" using assms length_write_varint(2) [of n] by simp
  then have "decode (tl_inflate T) ?d = decode_frame (tl_inflate T) ?inner (?d\<lparr>dec_buffer := []\<rparr>)"
    by (intro decode_whole) (simp_all add: compressed_decoder_def new_decoder_def decoder_new_def dec_enable_compression_def max_frame)
  moreover have "feed (tl_decrypt T) (framed n body) (compressed_decoder T) = ?d" "?d\<lparr>dec_buffer := []\<rparr> = compressed_decoder T"
    by (simp_all add: framed_def Let_def feed_def compressed_decoder_def new_decoder_def decoder_new_def dec_enable_compression_def)
  ultimately show ?thesis by (simp add: refused_def)
qed

lemma decode_frame_compressed:
  "decode_frame (tl_inflate T) (write_varint n @ body) (compressed_decoder T) =
     (if n = 0 then (Inr (Some body), compressed_decoder T)
      else if n <s 0 then (Inl (NegativeLength n), compressed_decoder T)
      else if unat n < 256 then (Inl (BadlyCompressed (unat n) 256), compressed_decoder T)
      else if 2097152 < unat n then (Inl (DecompressedTooLarge (unat n) 2097152), compressed_decoder T)
      else (case decompress_exact (tl_inflate T) (tl_decompress T) body (unat n) of
          (Inl e, z) \<Rightarrow> (Inl e, (compressed_decoder T)\<lparr>dec_decompressor := z\<rparr>)
        | (Inr out, z) \<Rightarrow> (Inr (Some out), (compressed_decoder T)\<lparr>dec_decompressor := z\<rparr>)))"
proof -
  have "dec_compression (compressed_decoder T) = Some 256" "dec_max_frame (compressed_decoder T) = 2097152"
    "dec_decompressor (compressed_decoder T) = tl_decompress T"
    by (simp_all add: compressed_decoder_def new_decoder_def decoder_new_def dec_enable_compression_def max_frame
        DEFAULT_COMPRESSION_THRESHOLD_def)
  then show ?thesis by (simp add: decode_frame_def read_varint_write_varint varint_len_eq Let_def)
qed

lemma oversized_length_prefix_is_rejected_passes: "oversized_length_prefix_is_rejected T"
  unfolding oversized_length_prefix_is_rejected_def max_frame
  by (rule refused_prefix(1)) (simp_all add: new_decoder_def decoder_new_def max_frame word_sless_alt)

lemma negative_length_prefix_is_rejected_passes: "negative_length_prefix_is_rejected T"
  unfolding negative_length_prefix_is_rejected_def
  by (rule refused_prefix(2)) (simp_all add: new_decoder_def decoder_new_def max_frame word_sless_alt)

lemma packet_compressed_below_the_threshold_is_rejected_passes: "packet_compressed_below_the_threshold_is_rejected T"
  by (simp add: packet_compressed_below_the_threshold_is_rejected_def refused_frame decode_frame_compressed word_sless_alt)

lemma zip_bomb_declaring_a_huge_size_is_rejected_passes: "zip_bomb_declaring_a_huge_size_is_rejected T"
  by (simp add: zip_bomb_declaring_a_huge_size_is_rejected_def refused_frame decode_frame_compressed word_sless_alt max_frame)

lemma stream_smaller_than_its_declared_size_is_rejected_passes:
  assumes "lawful sync R S deflate T"
  shows "stream_smaller_than_its_declared_size_is_rejected T"
proof -
  let ?real = "replicate 300 (of_char CHR ''Z'') :: bytes"
  note L = lawfulD [OF assms]
  have l: "length ?real = 300" by simp
  obtain z cap where c: "compress_into (tl_deflate T) (tl_reserve T) (tl_compress T) ?real 0 = Some (Inr (), z, deflate ?real, cap)"
    using compress_into_eq [OF L(3,5)] by blast
  have "S (zl_reset (tl_inflate T) (tl_decompress T)) (drop 0 (deflate ?real)) ?real" using L(4) unfolding inflates_def by simp
  from decompress_loop_eq [OF L(4) this, of "[]" 4096] l obtain z' where
    "decompress_loop (zl_step (tl_inflate T)) (deflate ?real) 4096 (zl_reset (tl_inflate T) (tl_decompress T)) 0 [] = (Inr ?real, z')"
    by auto
  then obtain msg where d: "decompress_exact (tl_inflate T) (tl_decompress T) (deflate ?real) 4096 = (Inl (Compression msg), z')"
    using l by (simp add: decompress_exact_def)
  have "length (deflate ?real) < 65536" using L(6) [of ?real] l by linarith
  then have "refused T (compressed_decoder T) (framed 4096 (deflate ?real)) (\<lambda>e. case e of Compression _ \<Rightarrow> True | _ \<Rightarrow> False)"
    using d by (simp add: refused_frame decode_frame_compressed word_sless_alt)
  then show ?thesis unfolding stream_smaller_than_its_declared_size_is_rejected_def Let_def c by simp
qed

end
