(* ===== verification/Tests_Nbt.thy ===== *)
theory Tests_Nbt
  imports Tests_Wire Nbt
begin

text \<open>
  The unit tests of \<open>nbt.rs\<close> in \<open>crates/rukkit-protocol/src\<close>. Those that write and read back hold by the contract
  \<open>codec\<close> of the two functions; those on damaged bytes are evaluated, but for the one that nests too deep, which is
  an induction on the depth.
\<close>

definition round_trip_network :: "nbt_tag \<Rightarrow> nbt_tag option" where
  "round_trip_network tag = (case read_network (reader_new (write_network tag)) of
      Inl _ \<Rightarrow> None | Inr (decoded, r) \<Rightarrow> if reader_is_empty r then Some decoded else None)"

definition primitives_round_trip :: bool where
  "primitives_round_trip = list_all (\<lambda>tag. round_trip_network tag = Some tag)
     [NByte (- 128), NShort (- 32768), NInt (- 2147483648), NLong 9223372036854775807, NFloat f32_1_5,
      NDouble f64_minus_2_25, NString (lit ''hello''), NByteArray [- 1, 0, 1], NIntArray [1, - 2, 3],
      NLongArray [- 9223372036854775808, 0, 9223372036854775807]]"

definition nested_compound_round_trips_and_keeps_order :: bool where
  "nested_compound_round_trips_and_keeps_order =
     (let inner = compound_insert (compound_insert compound_new (lit ''z_first'') (nbt_from_i32 1))
            (lit ''a_second'') (nbt_from_string (lit ''text''));
          root = compound_insert (compound_insert (compound_insert (compound_insert compound_new
              (lit ''name'') (nbt_from_string (lit ''Rukkit''))) (lit ''count'') (nbt_from_i32 7))
              (lit ''flag'') (nbt_from_bool True)) (lit ''inner'') (nbt_from_compound inner) in
      returned (round_trip_network (NCompound root)) (\<lambda>decoded. decoded = NCompound root \<and>
      returned (as_compound decoded) (\<lambda>c.
        map fst (compound_iter c) = [lit ''name'', lit ''count'', lit ''flag'', lit ''inner''])))"

definition empty_list_keeps_its_element_type :: bool where
  "empty_list_keeps_its_element_type =
     returned (round_trip_network (nbt_from_list list_empty)) (\<lambda>decoded. case decoded of
         NList element_type items \<Rightarrow> list_element_type (element_type, items) = TAG_END \<and> list_is_empty (element_type, items)
       | _ \<Rightarrow> False)"

definition list_rejects_mixed_element_types :: bool where
  "list_rejects_mixed_element_types \<longleftrightarrow>
     list_new [NInt 1, NString (lit ''x'')] = None \<and> list_new [NInt 1, NInt 2] \<noteq> None"

definition named_root_round_trips :: bool where
  "named_root_round_trips =
     (let tag = NCompound (compound_insert compound_new (lit ''DataVersion'') (nbt_from_i32 4903)) in
      unwrap (read_named (reader_new (write_named (lit ''Level'') tag))) (\<lambda>((name, decoded), _).
        name = lit ''Level'' \<and> decoded = tag))"

definition network_root_carries_no_name :: bool where
  "network_root_carries_no_name \<longleftrightarrow>
     (let tag = NCompound compound_new in write_network tag = [TAG_COMPOUND, TAG_END] \<and>
        write_named (lit '''') tag = [TAG_COMPOUND, 0x00, 0x00, TAG_END])"

definition modified_utf8_handles_supplementary_characters :: bool where
  "modified_utf8_handles_supplementary_characters =
     (let txt = lit ''hi '' @ [0x1F600] @ lit ''!''; tag = NString txt in
      modified_utf8_len txt = 3 + 6 + 1 \<and> modified_utf8_len txt \<noteq> length (as_bytes txt) \<and>
      round_trip_network tag = Some tag)"

definition modified_utf8_encodes_nul_as_two_bytes :: bool where
  "modified_utf8_encodes_nul_as_two_bytes =
     (let tag = NString (lit ''a'' @ [0] @ lit ''b''); buf = write_network tag in
      take 2 (drop 1 buf) = [0x00, 0x04] \<and> drop 3 buf = [of_char CHR ''a'', 0xC0, 0x80, of_char CHR ''b''] \<and>
      round_trip_network tag = Some tag)"

definition unpaired_surrogates_are_rejected :: bool where
  "unpaired_surrogates_are_rejected \<longleftrightarrow>
     is_err (decode_modified_utf8 [0xED, 0xA0, 0x80]) \<and> is_err (decode_modified_utf8 [0xED, 0xB0, 0x80])"

definition truncated_sequences_are_rejected :: bool where
  "truncated_sequences_are_rejected \<longleftrightarrow>
     is_err (decode_modified_utf8 [0xC2]) \<and> is_err (decode_modified_utf8 [0xE0, 0xA0]) \<and>
     is_err (decode_modified_utf8 [0xFF])"

text \<open>One level of the nesting: a list of one list.\<close>

definition nesting_level :: bytes where
  "nesting_level = [TAG_LIST] @ to_be_bytes (1 :: i32)"

definition deep_nesting_is_rejected_instead_of_overflowing_the_stack :: bool where
  "deep_nesting_is_rejected_instead_of_overflowing_the_stack =
     (let depth = MAX_DEPTH + 2;
          buf = [TAG_LIST] @ concat (replicate depth nesting_level) @ [TAG_END] @ to_be_bytes (0 :: i32) in
      unwrap_err (read_network (reader_new buf)) (\<lambda>e. case e of NbtTooDeep _ \<Rightarrow> True | _ \<Rightarrow> False))"

definition bogus_array_length_does_not_preallocate :: bool where
  "bogus_array_length_does_not_preallocate \<longleftrightarrow>
     unwrap_err (read_network (reader_new ([TAG_INT_ARRAY] @ to_be_bytes (word_of_nat MAX_ARRAY_LEN :: i32)))) is_eof \<and>
     unwrap_err (read_network (reader_new ([TAG_INT_ARRAY] @ to_be_bytes (2147483647 :: i32)))) is_length_limit"

definition negative_array_length_is_rejected :: bool where
  "negative_array_length_is_rejected =
     unwrap_err (read_network (reader_new ([TAG_BYTE_ARRAY] @ to_be_bytes (- 1 :: i32)))) (\<lambda>e. e = NegativeLength (- 1))"

definition unknown_tag_type_is_rejected :: bool where
  "unknown_tag_type_is_rejected =
     unwrap_err (read_network (reader_new [99])) (\<lambda>e. case e of InvalidEnum _ _ \<Rightarrow> True | _ \<Rightarrow> False)"

section \<open>The tests pass\<close>

lemma round_trip_network_ok:
  assumes "wf_nbt nbt_string 0 t" "length (write_network t) < 2 ^ 64"
  shows "round_trip_network t = Some t"
  using nbtc.rt_new [OF assms] by (simp add: round_trip_network_def reader_is_empty_def)

lemma length_write_mutf8: "length (write_modified_utf8 s) \<le> 65537"
  using mutf8_fit_spec(1) [of s] by (simp add: write_modified_utf8_eq length_mutf8 write_u16_def)

lemmas fixed_lengths = write_u8_def write_i8_def write_i16_def write_i32_def write_i64_def write_f32_def write_f64_def

lemmas nbt_strings = nbt_string_def is_scalar_def modified_utf8_len_def mutf8_char_len_def lit_def MAX_DEPTH_def MAX_ARRAY_LEN_def

lemma primitives_round_trip_passes: primitives_round_trip
  unfolding primitives_round_trip_def list.pred_inject
  by (intro conjI TrueI round_trip_network_ok)
    (simp_all add: nbt_strings write_network_def fixed_lengths le_less_trans [OF length_write_mutf8])

lemma nested_compound_round_trips_and_keeps_order_passes: nested_compound_round_trips_and_keeps_order
proof -
  let ?inner = "[(lit ''z_first'', NInt 1), (lit ''a_second'', NString (lit ''text''))]"
  let ?root = "[(lit ''name'', NString (lit ''Rukkit'')), (lit ''count'', NInt 7), (lit ''flag'', NByte 1), (lit ''inner'', NCompound ?inner)]"
  have t: "round_trip_network (NCompound ?root) = Some (NCompound ?root)"
  proof (rule round_trip_network_ok)
    show "wf_nbt nbt_string 0 (NCompound ?root)" by (simp add: nbt_strings)
    show "length (write_network (NCompound ?root)) < 2 ^ 64"
      using length_write_mutf8 [of "lit ''z_first''"] length_write_mutf8 [of "lit ''a_second''"]
        length_write_mutf8 [of "lit ''text''"] length_write_mutf8 [of "lit ''name''"] length_write_mutf8 [of "lit ''Rukkit''"]
        length_write_mutf8 [of "lit ''count''"] length_write_mutf8 [of "lit ''flag''"] length_write_mutf8 [of "lit ''inner''"]
      by (simp add: write_network_def fixed_lengths)
  qed
  have k: "distinct [lit ''z_first'', lit ''a_second'']" "distinct [lit ''name'', lit ''count'', lit ''flag'', lit ''inner'']"
    by (simp_all add: lit_def)
  then have "nested_compound_round_trips_and_keeps_order \<longleftrightarrow> returned (round_trip_network (NCompound ?root)) (\<lambda>decoded.
      decoded = NCompound ?root \<and> returned (as_compound decoded) (\<lambda>c.
        map fst (compound_iter c) = [lit ''name'', lit ''count'', lit ''flag'', lit ''inner'']))"
    by (simp add: nested_compound_round_trips_and_keeps_order_def compound_new_def nbt_from_i32_def nbt_from_string_def
        nbt_from_bool_def nbt_from_compound_def Let_def)
  then show ?thesis unfolding t by (simp add: compound_iter_def)
qed

lemma empty_list_keeps_its_element_type_passes: empty_list_keeps_its_element_type
proof -
  have "round_trip_network (NList TAG_END []) = Some (NList TAG_END [])"
    by (rule round_trip_network_ok) (simp_all add: MAX_DEPTH_def write_network_def fixed_lengths)
  then show ?thesis
    by (simp add: empty_list_keeps_its_element_type_def nbt_from_list_def list_empty_def list_element_type_def list_is_empty_def)
qed

lemma list_rejects_mixed_element_types_passes: list_rejects_mixed_element_types
  by (simp add: list_rejects_mixed_element_types_def list_new_def tag_defs)

lemma named_root_round_trips_passes: named_root_round_trips
proof -
  let ?t = "NCompound [(lit ''DataVersion'', NInt 4903)]"
  have w: "wf_nbt nbt_string 0 ?t" "nbt_string (lit ''Level'')" by (simp_all add: nbt_strings)
  have "length (write_named (lit ''Level'') ?t) < 2 ^ 64"
    using length_write_mutf8 [of "lit ''Level''"] length_write_mutf8 [of "lit ''DataVersion''"]
    by (simp add: write_named_def fixed_lengths)
  with read_named_rt [OF w, of "[]" "[]"] show ?thesis
    by (simp add: named_root_round_trips_def compound_new_def nbt_from_i32_def reader_new_cursor)
qed

lemma write_u16_bytes: "write_u16 v = [ucast (drop_bit 8 v), ucast v]"
  by (simp add: write_u16_def to_be_bytes_def numeral_2_eq_2)

lemma network_root_carries_no_name_passes: network_root_carries_no_name
  by (simp add: network_root_carries_no_name_def compound_new_def write_network_def write_named_def write_u8_def
      write_modified_utf8_def modified_utf8_len_def write_u16_bytes lit_def tag_defs)

lemma modified_utf8_handles_supplementary_characters_passes: modified_utf8_handles_supplementary_characters
proof -
  let ?text = "lit ''hi '' @ [0x1F600] @ lit ''!''"
  have n: "modified_utf8_len ?text = 10" "length (as_bytes ?text) = 8"
    by (simp_all add: modified_utf8_len_def mutf8_char_len_def lit_def as_bytes_def encode_utf8_def group4_def)
  have "round_trip_network (NString ?text) = Some (NString ?text)"
    by (rule round_trip_network_ok) (simp_all add: nbt_strings write_network_def fixed_lengths le_less_trans [OF length_write_mutf8])
  with n show ?thesis by (simp add: modified_utf8_handles_supplementary_characters_def Let_def)
qed

lemma modified_utf8_encodes_nul_as_two_bytes_passes: modified_utf8_encodes_nul_as_two_bytes
proof -
  let ?text = "lit ''a'' @ [0] @ lit ''b''"
  have "round_trip_network (NString ?text) = Some (NString ?text)"
    by (rule round_trip_network_ok) (simp_all add: nbt_strings write_network_def fixed_lengths le_less_trans [OF length_write_mutf8])
  moreover have "write_network (NString ?text) = [8, 0, 4, 97, 0xC0, 0x80, 98]"
    by (simp add: write_network_def write_u8_def tag_defs write_modified_utf8_def modified_utf8_len_def mutf8_char_len_def
        mutf8_char_def write_u16_bytes lit_def group2_def)
  ultimately show ?thesis by (simp add: modified_utf8_encodes_nul_as_two_bytes_def Let_def)
qed

lemmas mutf8_evaluation = decode_modified_utf8.simps(2) continuation_def three_byte_unit_def code_point_def

lemma unpaired_surrogates_are_rejected_passes: unpaired_surrogates_are_rejected
  by (simp add: unpaired_surrogates_are_rejected_def mutf8_evaluation)

lemma truncated_sequences_are_rejected_passes: truncated_sequences_are_rejected
  by (simp add: truncated_sequences_are_rejected_def mutf8_evaluation)

lemma read_len_i32:
  assumes "length xs + 4 + length ys < 2 ^ 64"
  shows "read_len (cursor xs (to_be_bytes (n :: i32) @ ys)) =
    (if n <s 0 then Inl (NegativeLength n) else if MAX_ARRAY_LEN < unat n then Inl (LengthLimitExceeded (unat n) MAX_ARRAY_LEN)
     else Inr (unat n, cursor (xs @ to_be_bytes n) ys))"
proof -
  have "read_i32 (cursor xs (write_i32 n @ ys)) = Inr (n, cursor (xs @ write_i32 n) ys)"
    using assms by (intro i32c.rt) (simp_all add: write_i32_def)
  then show ?thesis by (simp add: read_len_def rbind_def rlift_def rreturn_def Let_def write_i32_def)
qed

lemma read_len_end:
  "length xs + 4 < 2 ^ 64 \<Longrightarrow> read_len (cursor xs (to_be_bytes (n :: i32))) =
    (if n <s 0 then Inl (NegativeLength n) else if MAX_ARRAY_LEN < unat n then Inl (LengthLimitExceeded (unat n) MAX_ARRAY_LEN)
     else Inr (unat n, cursor (xs @ to_be_bytes n) []))"
  using read_len_i32 [of xs "[]" n] by simp

lemma list_not_end: "TAG_LIST \<noteq> TAG_END" "TAG_INT_ARRAY \<noteq> TAG_END" "TAG_BYTE_ARRAY \<noteq> TAG_END"
  by (simp_all add: tag_defs)

lemma read_payload_nested:
  assumes "length xs + 5 * n + length ys < 2 ^ 64" "MAX_DEPTH < d + n"
  shows "read_payload TAG_LIST d (cursor xs (concat (replicate n nesting_level) @ ys)) = Inl (NbtTooDeep MAX_DEPTH)"
  using assms
proof (induction n arbitrary: d xs)
  case 0
  then show ?case by (simp add: read_payload_too_deep)
next
  case (Suc n)
  show ?case
  proof (cases "MAX_DEPTH < d")
    case False
    let ?rest = "concat (replicate n nesting_level) @ ys"
    have l: "length nesting_level = 5" "length (concat (replicate n nesting_level)) = 5 * n"
      by (simp_all add: nesting_level_def length_concat sum_list_replicate)
    have "read_u8 (cursor xs (TAG_LIST # to_be_bytes (1 :: i32) @ ?rest)) = Inr (TAG_LIST, cursor (xs @ [TAG_LIST]) (to_be_bytes (1 :: i32) @ ?rest))"
      using Suc.prems(1) l by (subst read_u8_cursor) simp_all
    moreover have "read_payload TAG_LIST (d + 1) (cursor ((xs @ [TAG_LIST]) @ to_be_bytes (1 :: i32)) ?rest) = Inl (NbtTooDeep MAX_DEPTH)"
      using Suc.prems by (intro Suc.IH) simp_all
    moreover have "length (xs @ [TAG_LIST]) + 4 + length ?rest < 2 ^ 64" using Suc.prems(1) l by simp
    ultimately show ?thesis using False
      using list_not_end by (simp add: read_payload_at rbind_step nesting_level_def read_len_i32 word_sless_alt MAX_ARRAY_LEN_def rbind_def)
  qed (simp add: read_payload_too_deep)
qed

lemma deep_nesting_is_rejected_instead_of_overflowing_the_stack_passes:
  deep_nesting_is_rejected_instead_of_overflowing_the_stack
proof -
  let ?tail = "[TAG_END] @ to_be_bytes (0 :: i32)"
  have "read_payload TAG_LIST 0 (cursor [TAG_LIST] (concat (replicate (MAX_DEPTH + 2) nesting_level) @ ?tail)) = Inl (NbtTooDeep MAX_DEPTH)"
    by (rule read_payload_nested) (simp_all add: MAX_DEPTH_def)
  moreover have "read_u8 (cursor [] (TAG_LIST # concat (replicate (MAX_DEPTH + 2) nesting_level) @ ?tail)) =
      Inr (TAG_LIST, cursor [TAG_LIST] (concat (replicate (MAX_DEPTH + 2) nesting_level) @ ?tail))"
    by (subst read_u8_cursor) (simp_all add: length_concat sum_list_replicate nesting_level_def MAX_DEPTH_def)
  ultimately have "read_network (reader_new ([TAG_LIST] @ concat (replicate (MAX_DEPTH + 2) nesting_level) @ ?tail)) =
      Inl (NbtTooDeep MAX_DEPTH)"
    by (simp add: read_network_def reader_new_cursor rbind_step list_not_end)
  then show ?thesis by (simp add: deep_nesting_is_rejected_instead_of_overflowing_the_stack_def Let_def)
qed

lemma read_network_u8: "length ys < 2 ^ 64 - 1 \<Longrightarrow> b \<noteq> TAG_END \<Longrightarrow> read_network (reader_new (b # ys)) = read_payload b 0 (cursor [b] ys)"
  using read_u8_cursor [of "[]" "b # ys"] by (simp add: read_network_def reader_new_cursor rbind_step)

lemma bogus_array_length_does_not_preallocate_passes: bogus_array_length_does_not_preallocate
proof -
  let ?n = "word_of_nat MAX_ARRAY_LEN :: i32"
  have n: "unat ?n = MAX_ARRAY_LEN" "\<not> ?n <s 0" by (simp_all add: MAX_ARRAY_LEN_def word_sless_alt)
  have e: "read_i32 (cursor ([TAG_INT_ARRAY] @ to_be_bytes ?n) []) = Inl (UnexpectedEof 4 0)"
    by (simp add: read_i32_def take_be_def rbind_def take_n_def usize_checked_add_def cursor_def remaining_def)
  have "read_n (Suc m) read_i32 (cursor ([TAG_INT_ARRAY] @ to_be_bytes ?n) []) = Inl (UnexpectedEof 4 0)" for m
    using e by (simp add: rbind_def)
  then have "read_n MAX_ARRAY_LEN read_i32 (cursor ([TAG_INT_ARRAY] @ to_be_bytes ?n) []) = Inl (UnexpectedEof 4 0)"
    by (metis MAX_ARRAY_LEN_def gr0_implies_Suc zero_less_numeral zero_less_power)
  then have "read_network (reader_new ([TAG_INT_ARRAY] @ to_be_bytes ?n)) = Inl (UnexpectedEof 4 0)"
    using n by (simp add: read_len_end read_network_u8 list_not_end read_payload_at rbind_def)
  moreover have "read_network (reader_new ([TAG_INT_ARRAY] @ to_be_bytes (2147483647 :: i32))) =
      Inl (LengthLimitExceeded 2147483647 MAX_ARRAY_LEN)"
    by (simp add: read_len_end rbind_def read_network_u8 list_not_end read_payload_at word_sless_alt MAX_ARRAY_LEN_def)
  ultimately show ?thesis by (simp add: bogus_array_length_does_not_preallocate_def is_eof_def is_length_limit_def)
qed

lemma negative_array_length_is_rejected_passes: negative_array_length_is_rejected
  by (simp add: read_len_end rbind_def negative_array_length_is_rejected_def read_network_u8 list_not_end read_payload_at word_sless_alt)

lemma unknown_tag_type_is_rejected_passes: unknown_tag_type_is_rejected
  by (simp add: unknown_tag_type_is_rejected_def read_network_u8 tag_defs) (subst read_payload.simps, simp add: tag_defs rlift_def)

end
