(* ===== verification/Tests_Packets.thy ===== *)
theory Tests_Packets
  imports Tests_Nbt Packets_Config Packets_Play
begin

text \<open>
  The unit tests of \<open>text.rs\<close> and of the files under \<open>packets/\<close> in \<open>crates/rukkit-protocol/src\<close>, but for those
  on the text of a JSON document, whose serialiser is a parameter. Floating-point literals are written as the bit patterns the packets
  carry.
\<close>

section \<open>text.rs\<close>

definition hex_colors_are_six_digit_uppercase :: bool where
  "hex_colors_are_six_digit_uppercase =
     (let c = hex_color (component_text (lit ''x'')) 0x00FF7F in comp_color c = Some (lit ''#00FF7F''))"

definition plain_text_flattens_children_in_order :: bool where
  "plain_text_flattens_children_in_order =
     (let c = append_child (append_child (component_text (lit ''Hello, ''))
          (with_bold (component_text (lit ''world'')) True)) (component_text (lit ''!'')) in
      plain_text c = lit ''Hello, world!'')"

definition nbt_form_carries_the_same_fields :: bool where
  "nbt_form_carries_the_same_fields =
     (let c = append_child (with_bold (with_color (component_text (lit ''hi'')) Red) True) (component_text (lit ''!'')) in
      case to_nbt c of
        NCompound compound \<Rightarrow>
          Option.bind (compound_get compound (lit ''text'')) as_str = Some (lit ''hi'') \<and>
          Option.bind (compound_get compound (lit ''color'')) as_str = Some (lit ''red'') \<and>
          Option.bind (compound_get compound (lit ''bold'')) as_i64 = Some 1 \<and>
          compound_get compound (lit ''italic'') = None \<and>
          (case compound_get compound (lit ''extra'') of
             Some (NList element_type items) \<Rightarrow> list_len (element_type, items) = 1 | _ \<Rightarrow> False)
      | _ \<Rightarrow> False)"

definition nbt_form_survives_a_binary_round_trip :: bool where
  "nbt_form_survives_a_binary_round_trip =
     (let tag = to_nbt (with_color (component_text [0xC0C9, 0x20, 0x1F600]) Aqua) in
      unwrap (read_network (reader_new (write_network tag))) (\<lambda>(decoded, _). decoded = tag))"

section \<open>packets/handshake.rs and packets/mod.rs\<close>

text \<open>\<open>assert_eq!(decode_exact::<T>(&body, state).unwrap(), original)\<close>, where \<open>T\<close> is its reading function and its id.\<close>

definition decodes_to :: "'a reader \<Rightarrow> i32 \<Rightarrow> bytes \<Rightarrow> string \<Rightarrow> 'a \<Rightarrow> bool" where
  "decodes_to decode_body pid body state original = unwrap (decode_exact decode_body pid body state) (\<lambda>packet. packet = original)"

definition handshake_round_trips :: bool where
  "handshake_round_trips =
     (let original = \<lparr>in_protocol_version = PROTOCOL_VERSION, in_server_address = lit ''mc.example.com'',
            in_server_port = 25565, in_next_state = NextLogin\<rparr> in
      decodes_to intention_decode handshaking_sb_INTENTION (intention_encode original) ''handshaking'' original)"

definition all_next_states_round_trip :: bool where
  "all_next_states_round_trip =
     list_all (\<lambda>state. unwrap (next_state_from_id (next_state_id state)) (\<lambda>s. s = state)) [NextStatus, NextLogin, NextTransfer]"

definition unknown_next_state_is_rejected :: bool where
  "unknown_next_state_is_rejected \<longleftrightarrow> is_err (next_state_from_id 0) \<and> is_err (next_state_from_id 4)"

definition overlong_address_is_rejected :: bool where
  "overlong_address_is_rejected =
     (let body = write_varint 776 @ write_string (replicate (MAX_ADDRESS_LEN + 1) 0x61) @ write_u16 25565 @ write_varint 1 in
      is_err (decode_exact intention_decode handshaking_sb_INTENTION body ''handshaking''))"

definition encode_clears_the_scratch_buffer :: bool where
  "encode_clears_the_scratch_buffer \<longleftrightarrow>
     encode_packet config_cb_FINISH_CONFIGURATION (finish_configuration_encode ()) (replicate 32 0xFF) =
       [ucast config_cb_FINISH_CONFIGURATION]"

definition decode_exact_rejects_trailing_bytes :: bool where
  "decode_exact_rejects_trailing_bytes =
     (let original = \<lparr>in_protocol_version = 776, in_server_address = lit ''localhost'', in_server_port = 25565,
            in_next_state = NextStatus\<rparr>;
          body = intention_encode original in
      decodes_to intention_decode handshaking_sb_INTENTION body ''handshaking'' original \<and>
      is_err (decode_exact intention_decode handshaking_sb_INTENTION (body @ [0]) ''handshaking''))"

section \<open>packets/status.rs\<close>

definition ping_payload_is_echoed_exactly :: bool where
  "ping_payload_is_echoed_exactly =
     (let payload = - 0x0123456789ABCDEF :: i64; body = write_i64 payload in
      unwrap (decode_exact ping_request_decode status_sb_PING_REQUEST body ''status'') (\<lambda>request. ping_payload request = payload) \<and>
      (let out = encode_packet status_cb_PONG_RESPONSE (pong_response_encode \<lparr>pong_payload = payload\<rparr>) [] in
       ucast (out ! 0) = status_cb_PONG_RESPONSE \<and> drop 1 out = to_be_bytes payload))"

definition status_request_has_an_empty_body :: bool where
  "status_request_has_an_empty_body \<longleftrightarrow>
     is_ok (decode_exact status_request_decode status_sb_STATUS_REQUEST [] ''status'') \<and>
     is_err (decode_exact status_request_decode status_sb_STATUS_REQUEST [0] ''status'')"

definition status_response_body_is_a_single_string :: bool where
  "status_response_body_is_a_single_string =
     (let out = encode_packet status_cb_STATUS_RESPONSE (status_response_encode
            \<lparr>sr_json = lit ''{'' @ [0x22] @ lit ''x'' @ [0x22] @ lit '':1}''\<rparr>) [] in
      ucast (out ! 0) = status_cb_STATUS_RESPONSE \<and> out ! 1 = 7)"

section \<open>packets/login.rs\<close>

definition hello_round_trips :: bool where
  "hello_round_trips =
     (let original = \<lparr>hello_name = lit ''Notch'', hello_profile_id = 42\<rparr> in
      decodes_to hello_decode login_sb_HELLO (hello_encode original) ''login'' original)"

definition username_longer_than_sixteen_is_rejected :: bool where
  "username_longer_than_sixteen_is_rejected \<longleftrightarrow>
     is_err (decode_exact hello_decode login_sb_HELLO (write_string (replicate 17 0x78) @ write_uuid 0) ''login'') \<and>
     is_ok (decode_exact hello_decode login_sb_HELLO (write_string (replicate 16 0x78) @ write_uuid 0) ''login'')"

definition encryption_response_round_trips :: bool where
  "encryption_response_round_trips =
     unwrap (decode_exact encryption_response_decode login_sb_ENCRYPTION_RESPONSE
         (write_byte_array [1, 2, 3, 4] @ write_byte_array [9, 8]) ''login'') (\<lambda>packet.
       er_shared_secret packet = [1, 2, 3, 4] \<and> er_verify_token packet = [9, 8])"

definition absurd_key_length_is_rejected :: bool where
  "absurd_key_length_is_rejected =
     is_err (decode_exact encryption_response_decode login_sb_ENCRYPTION_RESPONSE (write_varint 1000000) ''login'')"

definition login_acknowledged_is_empty :: bool where
  "login_acknowledged_is_empty \<longleftrightarrow>
     is_ok (decode_exact login_acknowledged_decode login_sb_LOGIN_ACKNOWLEDGED [] ''login'') \<and>
     is_err (decode_exact login_acknowledged_decode login_sb_LOGIN_ACKNOWLEDGED [1] ''login'')"

definition login_finished_encodes_properties_with_optional_signatures :: bool where
  "login_finished_encodes_properties_with_optional_signatures =
     (let packet = \<lparr>lf_profile_id = 7, lf_username = lit ''player'', lf_properties =
            [\<lparr>pp_name = lit ''textures'', pp_value = lit ''base64'', pp_signature = Some (lit ''sig'')\<rparr>,
             \<lparr>pp_name = lit ''other'', pp_value = lit ''v'', pp_signature = None\<rparr>], lf_strict_error_handling = None\<rparr>;
          out = encode_packet login_cb_LOGIN_SUCCESS (login_finished_encode packet) [];
          text = read_string DEFAULT_MAX_STRING_LEN in
      unwrap (rbind rd_varint (\<lambda>id. rbind read_uuid (\<lambda>profile_id. rbind (read_string MAX_USERNAME_LEN) (\<lambda>username.
          rbind rd_varint (\<lambda>count. rbind text (\<lambda>name1. rbind text (\<lambda>value1. rbind (read_option text) (\<lambda>signature1.
          rbind text (\<lambda>name2. rbind text (\<lambda>value2. rbind (read_option text) (\<lambda>signature2.
            rreturn (id, profile_id, username, count, (name1, value1, signature1), (name2, value2, signature2))))))))))))
          (reader_new out))
        (\<lambda>((id, profile_id, username, count, first, second), r). id = login_cb_LOGIN_SUCCESS \<and> profile_id = 7 \<and>
           username = lit ''player'' \<and> count = 2 \<and> first = (lit ''textures'', lit ''base64'', Some (lit ''sig'')) \<and>
           second = (lit ''other'', lit ''v'', None) \<and> reader_is_empty r))"

definition bare_body_len :: "rstring \<Rightarrow> usize" where
  "bare_body_len name = 16 + 1 + length (as_bytes name) + 1"

definition finished :: "u128 \<Rightarrow> string \<Rightarrow> bool option \<Rightarrow> bytes" where
  "finished profile_id username strict =
     encode_packet login_cb_LOGIN_SUCCESS (login_finished_encode (login_finished_new profile_id (lit username) strict)) []"

definition the_trailing_flag_is_omitted_when_unset :: bool where
  "the_trailing_flag_is_omitted_when_unset \<longleftrightarrow> length (finished 1 ''player'' None) = 1 + bare_body_len (lit ''player'')"

definition the_trailing_flag_adds_exactly_one_byte_when_set :: bool where
  "the_trailing_flag_adds_exactly_one_byte_when_set =
     list_all (\<lambda>strict. let out = finished 1 ''player'' (Some strict) in
         length out = 1 + bare_body_len (lit ''player'') + 1 \<and> last out = (if strict then 1 else 0)) [False, True]"

definition both_layouts_agree_up_to_the_trailing_flag :: bool where
  "both_layouts_agree_up_to_the_trailing_flag =
     (let without = finished 9 ''abc'' None; flagged = finished 9 ''abc'' (Some False) in
      take (length without) flagged = without \<and> length flagged = length without + 1)"

definition set_compression_carries_the_threshold :: bool where
  "set_compression_carries_the_threshold =
     (let out = encode_packet login_cb_SET_COMPRESSION (set_compression_encode \<lparr>sc_threshold = 256\<rparr>) [] in
      unwrap (rbind rd_varint (\<lambda>id. rbind rd_varint (\<lambda>threshold. rreturn (id, threshold))) (reader_new out))
        (\<lambda>((id, threshold), _). id = login_cb_SET_COMPRESSION \<and> threshold = 256))"

section \<open>packets/config.rs\<close>

definition sample_client_info :: client_information where
  "sample_client_info = \<lparr>ci_locale = lit ''ko_kr'', ci_view_distance = 12, ci_chat_mode = ChatEnabled,
     ci_chat_colors = True, ci_displayed_skin_parts = 0x7F, ci_main_hand = 1, ci_text_filtering_enabled = False,
     ci_allows_listing = True, ci_particle_status = 0\<rparr>"

definition client_information_round_trips :: bool where
  "client_information_round_trips =
     decodes_to client_information_decode config_sb_CLIENT_INFORMATION (client_information_encode sample_client_info)
       ''configuration'' sample_client_info"

definition unknown_chat_mode_is_rejected :: bool where
  "unknown_chat_mode_is_rejected =
     is_err (decode_exact client_information_decode config_sb_CLIENT_INFORMATION
       (write_string (lit ''en_us'') @ write_i8 8 @ write_varint 9) ''configuration'')"

definition keep_alive_round_trips_in_both_directions :: bool where
  "keep_alive_round_trips_in_both_directions =
     (let id = - 0x123456789ABCDEF0 :: i64; out = encode_packet config_cb_KEEP_ALIVE (keep_alive_encode \<lparr>ka_id = id\<rparr>) [] in
      unwrap (rbind rd_varint (\<lambda>pid. rbind read_remaining (\<lambda>body. rreturn (pid, body))) (reader_new out)) (\<lambda>((pid, body), _).
        pid = config_cb_KEEP_ALIVE \<and>
        unwrap (decode_exact keep_alive_decode config_sb_KEEP_ALIVE body ''configuration'') (\<lambda>p. ka_id p = id)))"

definition registry_data_round_trips_with_and_without_definitions :: bool where
  "registry_data_round_trips_with_and_without_definitions =
     (let definition_tag = compound_insert (compound_insert compound_new (lit ''has_skylight'') (nbt_from_bool True))
            (lit ''height'') (nbt_from_i32 384);
          original = \<lparr>rg_registry_id = lit ''minecraft:dimension_type'', rg_entries =
            [\<lparr>re_entry_id = lit ''minecraft:overworld'', re_data = Some (NCompound definition_tag)\<rparr>,
             \<lparr>re_entry_id = lit ''minecraft:the_nether'', re_data = None\<rparr>]\<rparr> in
      unwrap (registry_data_decode (reader_new (registry_data_encode original))) (\<lambda>(decoded, _). decoded = original))"

definition known_packs_round_trip :: bool where
  "known_packs_round_trip =
     (let original = known_packs_vanilla in kp_version (kp_packs original ! 0) = MINECRAFT_VERSION \<and>
      decodes_to select_known_packs_decode config_sb_SELECT_KNOWN_PACKS (select_known_packs_encode original)
        ''configuration'' original)"

definition plugin_message_payload_runs_to_the_end_of_the_packet :: bool where
  "plugin_message_payload_runs_to_the_end_of_the_packet =
     (let original = brand_message (lit ''Rukkit'') in
      unwrap (decode_exact plugin_message_decode config_sb_PLUGIN_MESSAGE (plugin_message_encode original) ''configuration'')
        (\<lambda>decoded. decoded = original \<and>
          unwrap (read_string DEFAULT_MAX_STRING_LEN (reader_new (pm_data decoded))) (\<lambda>(brand, _). brand = lit ''Rukkit'')))"

definition disconnect_reason_is_nbt_not_json :: bool where
  "disconnect_reason_is_nbt_not_json =
     (let packet = \<lparr>dc_reason = component_text (lit ''bye'')\<rparr>; body = disconnect_encode packet in
      body ! 0 = TAG_COMPOUND \<and>
      unwrap (read_network (reader_new body)) (\<lambda>(decoded, _). decoded = to_nbt (dc_reason packet)))"

section \<open>packets/play.rs\<close>

definition login_sample :: play_login where
  "login_sample = \<lparr>pl_entity_id = 1, pl_hardcore = False, pl_dimension_names = [lit ''minecraft:overworld''],
     pl_max_players = 20, pl_view_distance = 10, pl_simulation_distance = 10, pl_reduced_debug_info = False,
     pl_enable_respawn_screen = True, pl_do_limited_crafting = False, pl_dimension_type = 0,
     pl_dimension_name = lit ''minecraft:overworld'', pl_hashed_seed = 0, pl_game_mode = Creative, pl_previous_game_mode = - 1,
     pl_is_debug = False, pl_is_flat = True, pl_death_location = None, pl_portal_cooldown = 0, pl_sea_level = 63,
     pl_enforces_secure_chat = False\<rparr>"

definition login_round_trips :: bool where
  "login_round_trips =
     unwrap (play_login_decode (reader_new (play_login_encode login_sample))) (\<lambda>(decoded, _). decoded = login_sample)"

definition login_round_trips_with_a_death_location :: bool where
  "login_round_trips_with_a_death_location =
     (let original = login_sample\<lparr>pl_death_location := Some (lit ''minecraft:the_nether'', block_pos_new (- 10) 64 30)\<rparr> in
      unwrap (play_login_decode (reader_new (play_login_encode original))) (\<lambda>(decoded, _). decoded = original))"

definition keep_alive_round_trips :: bool where
  "keep_alive_round_trips =
     (let out = encode_packet play_cb_KEEP_ALIVE (play_keep_alive_encode \<lparr>pk_id = 12345\<rparr>) [] in
      unwrap (rbind rd_varint (\<lambda>pid. rbind read_remaining (\<lambda>body. rreturn (pid, body))) (reader_new out)) (\<lambda>((pid, body), _).
        pid = play_cb_KEEP_ALIVE \<and>
        unwrap (decode_exact play_keep_alive_decode play_sb_KEEP_ALIVE body ''play'') (\<lambda>p. pk_id p = 12345)))"

definition movement_flags_decode_bitwise :: bool where
  "movement_flags_decode_bitwise \<longleftrightarrow>
     \<not> on_ground (MoveFlags 0) \<and> on_ground (MoveFlags 1) \<and> \<not> horizontal_collision (MoveFlags 1) \<and>
     horizontal_collision (MoveFlags 3)"

definition movement_packets_round_trip :: bool where
  "movement_packets_round_trip =
     (let x = 0x3FF8000000000000; y = 0x4050000000000000; z = 0xC004000000000000; yaw = 0x42B40000; pitch = 0xC2340000;
          body = write_f64 x @ write_f64 y @ write_f64 z @ write_f32 yaw @ write_f32 pitch @ write_u8 1 in
      unwrap (decode_exact move_player_pos_rot_decode play_sb_MOVE_PLAYER_POS_ROT body ''play'') (\<lambda>packet.
        mpr_x packet = x \<and> mpr_y packet = y \<and> mpr_z packet = z \<and> mpr_yaw packet = yaw \<and> mpr_pitch packet = pitch \<and>
        on_ground (mpr_flags packet)))"

definition overlong_command_is_rejected :: bool where
  "overlong_command_is_rejected =
     is_err (decode_exact chat_command_decode play_sb_CHAT_COMMAND (write_string (replicate (MAX_COMMAND_LEN + 1) 0x61)) ''play'')"

definition chunk_data_prefixes_coordinates_then_opaque_payload :: bool where
  "chunk_data_prefixes_coordinates_then_opaque_payload =
     (let packet = \<lparr>cd_chunk_x = - 3, cd_chunk_z = 7, cd_payload = [0xAA, 0xBB]\<rparr>;
          out = encode_packet play_cb_CHUNK_DATA (chunk_data_encode packet) [] in
      unwrap (rbind rd_varint (\<lambda>id. rbind read_i32 (\<lambda>x. rbind read_i32 (\<lambda>z. rbind read_remaining (\<lambda>rest.
          rreturn (id, x, z, rest))))) (reader_new out)) (\<lambda>((id, x, z, rest), _).
        id = play_cb_CHUNK_DATA \<and> x = - 3 \<and> z = 7 \<and> rest = [0xAA, 0xBB]))"

definition player_position_helper_zeroes_velocity_and_flags :: bool where
  "player_position_helper_zeroes_velocity_and_flags =
     (let half = 0x3FE0000000000000; packet = player_position_absolute 1 half 0x4050000000000000 half 0 0;
          out = encode_packet play_cb_PLAYER_POSITION (player_position_encode packet) [] in
      ppos_velocity_x packet = 0 \<and> ppos_flags packet = 0 \<and>
      unwrap (rbind rd_varint (\<lambda>id. rbind rd_varint (\<lambda>teleport_id. rbind read_f64 (\<lambda>x.
          rreturn (id, teleport_id, x)))) (reader_new out)) (\<lambda>((id, teleport_id, x), _).
        id = play_cb_PLAYER_POSITION \<and> teleport_id = 1 \<and> x = half))"

definition empty_body_packets_reject_trailing_data :: bool where
  "empty_body_packets_reject_trailing_data \<longleftrightarrow>
     is_ok (decode_exact client_tick_end_decode play_sb_CLIENT_TICK_END [] ''play'') \<and>
     is_err (decode_exact client_tick_end_decode play_sb_CLIENT_TICK_END [0] ''play'')"

section \<open>The tests pass\<close>

lemma fits_lit: "list_all (\<lambda>c. (of_char c :: rchar) < 0x80) s \<Longrightarrow> length s \<le> n \<Longrightarrow> n < 2 ^ 31 \<Longrightarrow> string_fits n (lit s)"
  by (rule string_fits_ascii) (simp_all add: lit_def list.pred_map comp_def)

lemma fits_replicate: "c < 0x80 \<Longrightarrow> k \<le> n \<Longrightarrow> n < 2 ^ 31 \<Longrightarrow> string_fits n (replicate k c)"
  by (rule string_fits_ascii) (simp_all add: list_all_iff)

lemmas string_limits = MAX_ADDRESS_LEN_def MAX_USERNAME_LEN_def MAX_LOCALE_LEN_def MAX_COMMAND_LEN_def DEFAULT_MAX_STRING_LEN_def

text \<open>A string with too many characters is refused although its bytes are within the limit.\<close>

lemma read_string_overlong:
  assumes s: "string_fits m s" "length (as_bytes s) \<le> usize_saturating_mul n 3" "n < length s"
    and len: "length xs + length (write_string s) + length ys < 2 ^ 64"
  shows "read_string n (cursor xs (write_string s @ ys)) = Inl (StringTooManyChars (length s) n)"
proof -
  let ?k = "length (as_bytes s)"
  have "read_length (usize_saturating_mul n 3) (cursor xs (write_string s @ ys)) =
      Inr (?k, cursor (xs @ write_varint (word_of_nat ?k)) (as_bytes s @ ys))"
    using lengthc.rt [of ?k "usize_saturating_mul n 3" xs "as_bytes s @ ys"] s len
    by (simp add: write_string_def string_fits_def)
  moreover have "take_n ?k (cursor (xs @ write_varint (word_of_nat ?k)) (as_bytes s @ ys)) =
      Inr (as_bytes s, cursor ((xs @ write_varint (word_of_nat ?k)) @ as_bytes s) ys)"
    using len by (intro take_n_cursor) (simp add: write_string_def)
  ultimately show ?thesis using s by (simp add: read_string_def rbind_def rlift_def string_fits_def)
qed

lemma replicate_overlong:
  assumes "c < 0x80" "n < k" "k \<le> n * 3" "n < 2 ^ 20" "length xs + length ys < 2 ^ 32"
  shows "read_string n (cursor xs (write_string (replicate k c) @ ys)) = Inl (StringTooManyChars k n)"
proof -
  have f: "string_fits k (replicate k c)" using assms by (intro fits_replicate) simp_all
  have "length (as_bytes (replicate k c)) = k"
    using assms(1) by (induction k) (simp_all add: as_bytes_def encode_utf8_def)
  moreover have "usize_saturating_mul n 3 = n * 3" using assms(4) by (simp add: usize_saturating_mul_def)
  ultimately show ?thesis
    using read_string_overlong [OF f, of n xs ys] length_write_string [OF f] assms by simp
qed

lemma hex_colors_are_six_digit_uppercase_passes: hex_colors_are_six_digit_uppercase
  by (simp add: hex_colors_are_six_digit_uppercase_def component_text_def format_06X_def hex_digit_def lit_def)

lemma plain_text_flattens_children_in_order_passes: plain_text_flattens_children_in_order
  by (simp add: plain_text_flattens_children_in_order_def plain_text_def component_text_def lit_def)

lemma nbt_form_carries_the_same_fields_passes: nbt_form_carries_the_same_fields
proof -
  have "distinct (map lit [''text'', ''color'', ''bold'', ''italic'', ''extra''])" "lit ''extra'' \<noteq> lit ''italic''"
    by (simp_all add: lit_def)
  then show ?thesis
    by (simp add: nbt_form_carries_the_same_fields_def component_text_def insert_some_def list_new_def nbt_from_bool_def
        compound_get_def list_len_def Let_def)
qed

lemma nbt_form_survives_a_binary_round_trip_passes: nbt_form_survives_a_binary_round_trip
proof -
  let ?text = "[0xC0C9, 0x20, 0x1F600]"
  have "lit ''text'' \<noteq> lit ''color''" by (simp add: lit_def)
  then have t: "to_nbt (with_color (component_text ?text) Aqua) =
      NCompound [(lit ''text'', NString ?text), (lit ''color'', NString (lit ''aqua''))]"
    by (simp add: component_text_def insert_some_def)
  have "wf_nbt nbt_string 0 (NCompound [(lit ''text'', NString ?text), (lit ''color'', NString (lit ''aqua''))])"
    by (simp add: nbt_strings)
  moreover have "length (write_network (NCompound [(lit ''text'', NString ?text), (lit ''color'', NString (lit ''aqua''))])) < 2 ^ 64"
    using length_write_mutf8 [of "lit ''text''"] length_write_mutf8 [of "lit ''color''"] length_write_mutf8 [of ?text]
      length_write_mutf8 [of "lit ''aqua''"] by (simp add: write_network_def fixed_lengths)
  ultimately show ?thesis
    unfolding nbt_form_survives_a_binary_round_trip_def t Let_def by (simp add: nbtc.rt_new del: write_payload.simps)
qed

lemma handshake_round_trips_passes: handshake_round_trips
proof -
  let ?p = "\<lparr>in_protocol_version = PROTOCOL_VERSION, in_server_address = lit ''mc.example.com'', in_server_port = 25565,
    in_next_state = NextLogin\<rparr>"
  have f: "string_fits MAX_ADDRESS_LEN (in_server_address ?p)" by (simp add: fits_lit MAX_ADDRESS_LEN_def)
  have "length (intention_encode ?p) < 2 ^ 64" using length_intention [OF f] by simp
  with intentionc.decode_exact_rt [of ?p] f show ?thesis by (simp add: handshake_round_trips_def decodes_to_def)
qed

lemma all_next_states_round_trip_passes: all_next_states_round_trip
  by (simp add: all_next_states_round_trip_def next_state_roundtrip del: next_state_id.simps)

lemma unknown_next_state_is_rejected_passes: unknown_next_state_is_rejected
  by (simp add: unknown_next_state_is_rejected_def next_state_from_id_def)

lemma overlong_address_is_rejected_passes: overlong_address_is_rejected
proof -
  let ?s = "replicate (MAX_ADDRESS_LEN + 1) 0x61 :: rstring" and ?rest = "write_u16 25565 @ write_varint 1"
  have "read_string MAX_ADDRESS_LEN (cursor (write_varint 776) (write_string ?s @ ?rest)) =
      Inl (StringTooManyChars (MAX_ADDRESS_LEN + 1) MAX_ADDRESS_LEN)"
    using length_write_varint_5 [of 776] length_write_varint_5 [of 1]
    by (intro replicate_overlong) (simp_all add: MAX_ADDRESS_LEN_def write_u16_def)
  moreover have "length (write_string ?s) < 5 + 2 ^ 31"
    by (rule length_write_string [OF fits_replicate [of _ _ 300]]) (simp_all add: MAX_ADDRESS_LEN_def)
  then have "rd_varint (cursor [] (write_varint 776 @ write_string ?s @ ?rest)) = Inr (776, cursor (write_varint 776) (write_string ?s @ ?rest))"
    using length_write_varint_5 [of 776] length_write_varint_5 [of 1] varintc.rt [OF TrueI, of "[]" 776 "write_string ?s @ ?rest"]
    by (simp add: write_u16_def)
  ultimately show ?thesis
    by (simp add: overlong_address_is_rejected_def Let_def decode_exact_def reader_new_cursor intention_decode_def rbind_def
        del: replicate_Suc)
qed

lemma encode_clears_the_scratch_buffer_passes: encode_clears_the_scratch_buffer
  by (simp add: encode_clears_the_scratch_buffer_def encode_packet_def finish_configuration_encode_def
      config_cb_FINISH_CONFIGURATION_def write_varint_def write_leb_last)

lemma decode_exact_rejects_trailing_bytes_passes: decode_exact_rejects_trailing_bytes
proof -
  let ?p = "\<lparr>in_protocol_version = 776, in_server_address = lit ''localhost'', in_server_port = 25565, in_next_state = NextStatus\<rparr>"
  have f: "string_fits MAX_ADDRESS_LEN (in_server_address ?p)" by (simp add: fits_lit MAX_ADDRESS_LEN_def)
  then have "length (intention_encode ?p) < 2 ^ 64" "length (intention_encode ?p) + length [0 :: u8] < 2 ^ 64"
    using length_intention [OF f] by simp_all
  with intentionc.decode_exact_rt [of ?p] intentionc.decode_exact_trailing [of ?p "[0]"] f
  show ?thesis by (simp add: decode_exact_rejects_trailing_bytes_def decodes_to_def)
qed

lemma ping_payload_is_echoed_exactly_passes: ping_payload_is_echoed_exactly
proof -
  let ?p = "- 0x0123456789ABCDEF :: i64"
  have "length (write_i64 ?p) < 2 ^ 64" by (simp add: write_i64_def)
  with pingc.decode_exact_rt [of "\<lparr>ping_payload = ?p\<rparr>"] have
    "decode_exact ping_request_decode status_sb_PING_REQUEST (write_i64 ?p) ''status'' = Inr \<lparr>ping_payload = ?p\<rparr>"
    by (simp add: pong_response_encode_def)
  moreover have "encode_packet status_cb_PONG_RESPONSE (pong_response_encode \<lparr>pong_payload = ?p\<rparr>) [] = 1 # to_be_bytes ?p"
    by (simp add: encode_packet_def pong_response_encode_def write_i64_def status_cb_PONG_RESPONSE_def write_varint_def write_leb_last)
  ultimately show ?thesis
    by (simp add: ping_payload_is_echoed_exactly_def Let_def status_cb_PONG_RESPONSE_def)
qed

lemmas empty_bodies = decode_exact_def expect_finished_def rreturn_apply reader_new_def remaining_def

lemma status_request_has_an_empty_body_passes: status_request_has_an_empty_body
  by (simp add: status_request_has_an_empty_body_def status_request_decode_def empty_bodies)

lemma status_response_body_is_a_single_string_passes: status_response_body_is_a_single_string
  by (simp add: status_response_body_is_a_single_string_def encode_packet_def status_cb_STATUS_RESPONSE_def write_varint_def
      write_leb_last status_response_encode_def write_string_def as_bytes_def encode_utf8_def lit_def)

lemma hello_round_trips_passes: hello_round_trips
proof -
  let ?p = "\<lparr>hello_name = lit ''Notch'', hello_profile_id = 42\<rparr>"
  have f: "string_fits MAX_USERNAME_LEN (hello_name ?p)" by (simp add: fits_lit MAX_USERNAME_LEN_def)
  with helloc.decode_exact_rt [of ?p] length_hello [OF f] show ?thesis by (simp add: hello_round_trips_def decodes_to_def)
qed

lemma username_longer_than_sixteen_is_rejected_passes: username_longer_than_sixteen_is_rejected
proof -
  let ?p = "\<lparr>hello_name = replicate 16 0x78, hello_profile_id = 0\<rparr>"
  have f: "string_fits MAX_USERNAME_LEN (hello_name ?p)" unfolding hello.select_convs by (rule fits_replicate) (simp_all add: MAX_USERNAME_LEN_def)
  have "decode_exact hello_decode login_sb_HELLO (hello_encode ?p) ''login'' = Inr ?p"
    using length_hello [OF f] by (intro helloc.decode_exact_rt f) simp
  then have ok: "is_ok (decode_exact hello_decode login_sb_HELLO (write_string (replicate 16 0x78) @ write_uuid 0) ''login'')"
    unfolding hello_encode_def hello.select_convs by (simp only: is_ok_simps)
  have "read_string MAX_USERNAME_LEN (cursor [] (write_string (replicate 17 0x78) @ write_uuid 0)) = Inl (StringTooManyChars 17 MAX_USERNAME_LEN)"
    by (rule replicate_overlong) (simp_all add: MAX_USERNAME_LEN_def write_uuid_def)
  then have "hello_decode (cursor [] (write_string (replicate 17 0x78) @ write_uuid 0)) = Inl (StringTooManyChars 17 MAX_USERNAME_LEN)"
    unfolding hello_decode_def by (rule rbind_fail)
  then have "decode_exact hello_decode login_sb_HELLO (write_string (replicate 17 0x78) @ write_uuid 0) ''login'' =
      Inl (StringTooManyChars 17 MAX_USERNAME_LEN)" unfolding decode_exact_def reader_new_cursor by (simp only: and_then_simps)
  with ok show ?thesis unfolding username_longer_than_sixteen_is_rejected_def by (simp only: is_err_simps)
qed

lemma length_byte_array: "length (write_byte_array v) \<le> 5 + length v"
  using length_write_varint_5 by (simp add: write_byte_array_def write_bytes_def)

lemma encryption_response_round_trips_passes: encryption_response_round_trips
proof -
  have "length (write_byte_array [1, 2, 3, 4]) \<le> 9" "length (write_byte_array [9, 8]) \<le> 7"
    using length_byte_array [of "[1, 2, 3, 4]"] length_byte_array [of "[9, 8]"] by simp_all
  then show ?thesis
    by (simp add: encryption_response_round_trips_def decode_exact_def reader_new_cursor encryption_response_decode_def
        codec_steps MAX_KEY_LEN_def rreturn_apply expect_finished_def)
qed

lemma absurd_key_length_is_rejected_passes: absurd_key_length_is_rejected
proof -
  have "rd_varint (cursor [] (write_varint 1000000)) = Inr (1000000, cursor (write_varint 1000000) [])"
    using length_write_varint_5 [of 1000000] varintc.rt_end [OF TrueI, of "[]" 1000000] by simp
  then have "read_length MAX_KEY_LEN (cursor [] (write_varint 1000000)) = Inl (LengthLimitExceeded 1000000 MAX_KEY_LEN)"
    by (simp add: read_length_def rbind_def word_sless_alt MAX_KEY_LEN_def rlift_def)
  then show ?thesis
    by (simp add: absurd_key_length_is_rejected_def decode_exact_def reader_new_cursor encryption_response_decode_def
        read_byte_array_def rbind_fail)
qed

lemma login_acknowledged_is_empty_passes: login_acknowledged_is_empty
  by (simp add: login_acknowledged_is_empty_def login_acknowledged_decode_def empty_bodies)

lemma empty_body_packets_reject_trailing_data_passes: empty_body_packets_reject_trailing_data
  by (simp add: empty_body_packets_reject_trailing_data_def client_tick_end_decode_def empty_bodies)

lemma movement_flags_decode_bitwise_passes: movement_flags_decode_bitwise
  by (simp add: movement_flags_decode_bitwise_def)

text \<open>The layouts of \<open>LoginFinished\<close> with and without its trailing flag.\<close>

lemma length_small_varint: "n < 128 \<Longrightarrow> length (write_varint (word_of_nat n)) = 1"
  by (simp add: write_varint_def write_leb_last unsigned_of_nat take_bit_nat_eq_self)

lemma finished_flag: "finished k name (Some strict) = finished k name None @ [if strict then 1 else 0]"
  by (simp add: finished_def encode_packet_def login_finished_encode_def login_finished_new_def write_bool_def write_u8_def)

lemma length_finished: "length (as_bytes (lit name)) < 128 \<Longrightarrow> length (finished k name None) = 1 + bare_body_len (lit name)"
  using length_small_varint [of 0] length_small_varint [of 2] length_small_varint [of "length (as_bytes (lit name))"]
  by (simp add: finished_def encode_packet_def login_finished_encode_def login_finished_new_def bare_body_len_def
      login_cb_LOGIN_SUCCESS_def write_uuid_def write_string_def)

lemma short_name: "length (as_bytes (lit ''player'')) < 128" "length (as_bytes (lit ''abc'')) < 128"
  by (simp_all add: as_bytes_def encode_utf8_def lit_def)

lemma the_trailing_flag_is_omitted_when_unset_passes: the_trailing_flag_is_omitted_when_unset
  by (simp add: the_trailing_flag_is_omitted_when_unset_def length_finished short_name)

lemma the_trailing_flag_adds_exactly_one_byte_when_set_passes: the_trailing_flag_adds_exactly_one_byte_when_set
  by (simp add: the_trailing_flag_adds_exactly_one_byte_when_set_def finished_flag length_finished short_name)

lemma both_layouts_agree_up_to_the_trailing_flag_passes: both_layouts_agree_up_to_the_trailing_flag
  by (simp add: both_layouts_agree_up_to_the_trailing_flag_def finished_flag Let_def)

interpretation signaturec: codec "write_option write_string" "read_option (read_string DEFAULT_MAX_STRING_LEN)"
    "\<lambda>v. case v of None \<Rightarrow> True | Some x \<Rightarrow> string_fits DEFAULT_MAX_STRING_LEN x"
  by (rule stringc.option_codec)

lemma login_finished_encodes_properties_with_optional_signatures_passes:
  login_finished_encodes_properties_with_optional_signatures
proof -
  have u: "string_fits MAX_USERNAME_LEN (lit ''player'')" by (simp add: fits_lit MAX_USERNAME_LEN_def)
  have f: "string_fits DEFAULT_MAX_STRING_LEN (lit ''textures'')" "string_fits DEFAULT_MAX_STRING_LEN (lit ''base64'')"
    "string_fits DEFAULT_MAX_STRING_LEN (lit ''sig'')" "string_fits DEFAULT_MAX_STRING_LEN (lit ''other'')"
    "string_fits DEFAULT_MAX_STRING_LEN (lit ''v'')"
    by (simp_all add: fits_lit DEFAULT_MAX_STRING_LEN_def)
  have l: "length (write_uuid i) = 16" "length (write_option write_string (Some (lit ''sig''))) < 6 + 2 ^ 31"
    "length (write_option write_string None) = 1" for i
    using length_write_string [OF f(3)] by (simp_all add: write_uuid_def write_option_def write_bool_def write_u8_def)
  show ?thesis
    using length_write_varint_5 [of login_cb_LOGIN_SUCCESS] length_write_varint_5 [of 2] f u
      length_write_string [OF u] f [THEN length_write_string] l
    by (simp add: login_finished_encodes_properties_with_optional_signatures_def encode_packet_def login_finished_encode_def
        reader_new_cursor codec_steps signaturec.rt_bind signaturec.rt_bind_end rreturn_apply Let_def
        reader_is_empty_def remaining_cursor)
qed

lemma set_compression_carries_the_threshold_passes: set_compression_carries_the_threshold
  using length_write_varint_5 [of login_cb_SET_COMPRESSION] length_write_varint_5 [of 256]
  by (simp add: set_compression_carries_the_threshold_def encode_packet_def set_compression_encode_def reader_new_cursor
      codec_steps rreturn_apply)

lemma client_information_round_trips_passes: client_information_round_trips
proof -
  have f: "string_fits MAX_LOCALE_LEN (ci_locale sample_client_info)"
    by (simp add: sample_client_info_def fits_lit MAX_LOCALE_LEN_def)
  have "length (client_information_encode sample_client_info) < 2 ^ 64"
    using length_write_string [OF f] length_write_varint_5 [of 0] length_write_varint_5 [of 1]
    by (simp add: client_information_encode_def sample_client_info_def write_i8_def write_bool_def write_u8_def)
  with client_informationc.decode_exact_rt [OF f] show ?thesis by (simp add: client_information_round_trips_def decodes_to_def)
qed

lemma unknown_chat_mode_is_rejected_passes: unknown_chat_mode_is_rejected
proof -
  have f: "string_fits MAX_LOCALE_LEN (lit ''en_us'')" by (simp add: fits_lit MAX_LOCALE_LEN_def)
  have l: "length (write_i8 8) = 1" by (simp add: write_i8_def)
  have bad: "rlift (chat_mode_from_id 9) = (\<lambda>r. Inl (InvalidEnum ''ChatMode'' (scast (9 :: i32))))"
    by (simp add: chat_mode_from_id_def rlift_def fun_eq_iff)
  have "rbind (\<lambda>r. Inl e) g = (\<lambda>r. Inl e)" for e and g :: "chat_mode \<Rightarrow> client_information reader"
    by (simp add: rbind_def fun_eq_iff)
  then show ?thesis
    using length_write_string [OF f] length_write_varint_5 [of 9] f
    by (simp add: unknown_chat_mode_is_rejected_def decode_exact_def reader_new_cursor client_information_decode_def codec_steps l bad)
qed

lemma read_remaining_cursor: "rbind read_remaining f (cursor xs ys) = f ys (cursor (xs @ ys) [])"
  by (simp add: rbind_def read_remaining_def cursor_def)

lemma keep_alive_round_trips_in_both_directions_passes: keep_alive_round_trips_in_both_directions
proof -
  let ?p = "\<lparr>ka_id = - 0x123456789ABCDEF0\<rparr>"
  have l: "length (keep_alive_encode ?p) = 8" by (simp add: keep_alive_encode_def write_i64_def)
  with keep_alivec.decode_exact_rt [of ?p] have
    "decode_exact keep_alive_decode config_sb_KEEP_ALIVE (keep_alive_encode ?p) ''configuration'' = Inr ?p" by simp
  moreover have "unwrap (rbind rd_varint (\<lambda>pid. rbind read_remaining (\<lambda>body. rreturn (pid, body)))
      (reader_new (encode_packet config_cb_KEEP_ALIVE (keep_alive_encode ?p) []))) P = P ((config_cb_KEEP_ALIVE, keep_alive_encode ?p),
        cursor (write_varint config_cb_KEEP_ALIVE @ keep_alive_encode ?p) [])" for P
    using length_write_varint_5 [of config_cb_KEEP_ALIVE] l
    by (simp add: encode_packet_def reader_new_cursor codec_steps read_remaining_cursor rreturn_apply)
  ultimately show ?thesis by (simp add: keep_alive_round_trips_in_both_directions_def Let_def)
qed

lemma registry_data_round_trips_with_and_without_definitions_passes: registry_data_round_trips_with_and_without_definitions
proof -
  let ?tag = "NCompound [(lit ''has_skylight'', NByte 1), (lit ''height'', NInt 384)]"
  let ?p = "\<lparr>rg_registry_id = lit ''minecraft:dimension_type'', rg_entries =
    [\<lparr>re_entry_id = lit ''minecraft:overworld'', re_data = Some ?tag\<rparr>, \<lparr>re_entry_id = lit ''minecraft:the_nether'', re_data = None\<rparr>]\<rparr>"
  have f: "string_fits DEFAULT_MAX_STRING_LEN (lit ''minecraft:dimension_type'')"
    "string_fits DEFAULT_MAX_STRING_LEN (lit ''minecraft:overworld'')" "string_fits DEFAULT_MAX_STRING_LEN (lit ''minecraft:the_nether'')"
    by (simp_all add: fits_lit DEFAULT_MAX_STRING_LEN_def)
  have "wf_nbt nbt_string 0 ?tag" by (simp add: nbt_strings)
  then have w: "registry_fits ?p" using f by (simp add: registry_fits_def entry_fits_def MAX_REGISTRY_ENTRIES_def)
  have l: "length (registry_data_encode ?p) < 2 ^ 64"
    using f [THEN length_write_string] length_write_varint_5 [of 2] length_write_mutf8 [of "lit ''has_skylight''"]
      length_write_mutf8 [of "lit ''height''"]
    by (simp add: registry_data_encode_def registry_entry_encode_def write_identifier_def write_bool_def write_network_def fixed_lengths)
  have "lit ''has_skylight'' \<noteq> lit ''height''" by (simp add: lit_def)
  with registryc.rt_new [OF w l] show ?thesis
    by (simp add: registry_data_round_trips_with_and_without_definitions_def compound_new_def nbt_from_bool_def nbt_from_i32_def)
qed

lemma known_packs_round_trip_passes: known_packs_round_trip
proof -
  have f: "string_fits DEFAULT_MAX_STRING_LEN (lit ''minecraft'')" "string_fits DEFAULT_MAX_STRING_LEN (lit ''core'')"
    "string_fits DEFAULT_MAX_STRING_LEN MINECRAFT_VERSION"
    by (simp_all add: fits_lit DEFAULT_MAX_STRING_LEN_def MINECRAFT_VERSION_def)
  have "packs_fit known_packs_vanilla"
    using f by (simp add: packs_fit_def pack_fits_def known_packs_vanilla_def MAX_KNOWN_PACKS_def)
  moreover have "length (select_known_packs_encode known_packs_vanilla) < 2 ^ 64"
    using f [THEN length_write_string] length_write_varint_5 [of 1]
    by (simp add: select_known_packs_encode_def known_pack_encode_def known_packs_vanilla_def)
  ultimately show ?thesis using known_packsc.decode_exact_rt [of known_packs_vanilla]
    by (simp add: known_packs_round_trip_def decodes_to_def known_packs_vanilla_def)
qed

lemma plugin_message_payload_runs_to_the_end_of_the_packet_passes: plugin_message_payload_runs_to_the_end_of_the_packet
proof -
  have f: "string_fits DEFAULT_MAX_STRING_LEN (lit ''minecraft:brand'')" "string_fits DEFAULT_MAX_STRING_LEN (lit ''Rukkit'')"
    by (simp_all add: fits_lit DEFAULT_MAX_STRING_LEN_def)
  have "length (plugin_message_encode (brand_message (lit ''Rukkit''))) < 2 ^ 64"
    using f [THEN length_write_string] by (simp add: plugin_message_encode_def brand_message_def write_identifier_def write_bytes_def)
  moreover have "read_string DEFAULT_MAX_STRING_LEN (reader_new (write_string (lit ''Rukkit''))) = Inr (lit ''Rukkit'', cursor (write_string (lit ''Rukkit'')) [])"
    using length_write_string [OF f(2)] by (intro stringc.rt_new f) simp
  ultimately show ?thesis using f plugin_message_rt [of "brand_message (lit ''Rukkit'')"]
    by (simp add: plugin_message_payload_runs_to_the_end_of_the_packet_def brand_message_def)
qed

lemma disconnect_reason_is_nbt_not_json_passes: disconnect_reason_is_nbt_not_json
proof -
  have t: "to_nbt (component_text (lit ''bye'')) = NCompound [(lit ''text'', NString (lit ''bye''))]"
    by (simp add: component_text_def insert_some_def)
  have "length (write_network (NCompound [(lit ''text'', NString (lit ''bye''))])) < 2 ^ 64"
    using length_write_mutf8 [of "lit ''text''"] length_write_mutf8 [of "lit ''bye''"] by (simp add: write_network_def fixed_lengths)
  moreover have "wf_nbt nbt_string 0 (NCompound [(lit ''text'', NString (lit ''bye''))])" by (simp add: nbt_strings)
  ultimately have "read_network (reader_new (write_network (to_nbt (component_text (lit ''bye''))))) =
      Inr (to_nbt (component_text (lit ''bye'')), cursor (write_network (to_nbt (component_text (lit ''bye'')))) [])"
    unfolding t by (intro nbtc.rt_new)
  moreover have "write_network (to_nbt (component_text (lit ''bye''))) ! 0 = TAG_COMPOUND"
    unfolding t by (simp add: write_network_def write_u8_def)
  ultimately show ?thesis by (simp add: disconnect_reason_is_nbt_not_json_def disconnect_encode_def)
qed

lemma login_fits:
  assumes "case loc of None \<Rightarrow> True | Some x \<Rightarrow> string_fits DEFAULT_MAX_STRING_LEN (fst x) \<and> packable (snd x)"
  shows "play_login_decode (reader_new (play_login_encode (login_sample\<lparr>pl_death_location := loc\<rparr>))) =
    Inr (login_sample\<lparr>pl_death_location := loc\<rparr>, cursor (play_login_encode (login_sample\<lparr>pl_death_location := loc\<rparr>)) [])"
proof (rule play_loginc.rt_new)
  have f: "string_fits DEFAULT_MAX_STRING_LEN (lit ''minecraft:overworld'')" by (simp add: fits_lit DEFAULT_MAX_STRING_LEN_def)
  with assms show "play_login_fits (login_sample\<lparr>pl_death_location := loc\<rparr>)"
    by (simp add: play_login_fits_def login_sample_def MAX_DIMENSIONS_def)
  have "length (death_location_encode loc) < 2 ^ 33"
  proof (cases loc)
    case None
    then show ?thesis by (simp add: death_location_encode_def write_bool_def write_u8_def)
  next
    case (Some x)
    with assms length_write_string [of DEFAULT_MAX_STRING_LEN "fst x"] show ?thesis
      by (simp add: death_location_encode_def write_bool_def write_u8_def write_identifier_def write_position_def write_i64_def
          split_beta)
  qed
  then show "length (play_login_encode (login_sample\<lparr>pl_death_location := loc\<rparr>)) < 2 ^ 64"
    using length_write_string [OF f] length_write_varint_5 [of 0]
      length_write_varint_5 [of 1] length_write_varint_5 [of 20] length_write_varint_5 [of 10] length_write_varint_5 [of 63]
    by (simp add: play_login_encode_def login_sample_def write_identifier_def
        write_i32_def write_bool_def write_u8_def write_i8_def write_i64_def)
qed

lemma login_round_trips_passes: login_round_trips
proof -
  have "login_sample\<lparr>pl_death_location := None\<rparr> = login_sample" by (simp add: login_sample_def)
  with login_fits [of None] show ?thesis by (simp add: login_round_trips_def)
qed

lemma login_round_trips_with_a_death_location_passes: login_round_trips_with_a_death_location
proof -
  have "string_fits DEFAULT_MAX_STRING_LEN (lit ''minecraft:the_nether'')" "packable (block_pos_new (- 10) 64 30)"
    by (simp_all add: fits_lit DEFAULT_MAX_STRING_LEN_def packable_def block_pos_new_def)
  with login_fits [of "Some (lit ''minecraft:the_nether'', block_pos_new (- 10) 64 30)"]
  show ?thesis by (simp add: login_round_trips_with_a_death_location_def)
qed

interpretation play_keep_alivec: codec play_keep_alive_encode play_keep_alive_decode "\<lambda>_. True"
  by unfold_locales (simp add: play_keep_alive_encode_def play_keep_alive_decode_def codec_steps rreturn_apply)

lemma keep_alive_round_trips_passes: keep_alive_round_trips
proof -
  let ?p = "\<lparr>pk_id = 12345\<rparr>"
  have l: "length (play_keep_alive_encode ?p) = 8" by (simp add: play_keep_alive_encode_def write_i64_def)
  with play_keep_alivec.decode_exact_rt [of ?p] have
    "decode_exact play_keep_alive_decode play_sb_KEEP_ALIVE (play_keep_alive_encode ?p) ''play'' = Inr ?p" by simp
  then show ?thesis
    using length_write_varint_5 [of play_cb_KEEP_ALIVE] l
    by (simp add: keep_alive_round_trips_def encode_packet_def reader_new_cursor codec_steps read_remaining_cursor rreturn_apply)
qed

lemma movement_packets_round_trip_passes: movement_packets_round_trip
proof -
  have "length (write_f64 v) = 8" "length (write_f32 w) = 4" "length (write_u8 b) = 1" for v w b
    by (simp_all add: write_f64_def write_f32_def write_u8_def)
  then show ?thesis
    by (simp add: movement_packets_round_trip_def decode_exact_def reader_new_cursor move_player_pos_rot_decode_def codec_steps
        rreturn_apply expect_finished_def)
qed

lemma overlong_command_is_rejected_passes: overlong_command_is_rejected
proof -
  have "read_string MAX_COMMAND_LEN (cursor [] (write_string (replicate (MAX_COMMAND_LEN + 1) 0x61) @ [])) =
      Inl (StringTooManyChars (MAX_COMMAND_LEN + 1) MAX_COMMAND_LEN)"
    by (rule replicate_overlong) (simp_all add: MAX_COMMAND_LEN_def)
  then have "chat_command_decode (cursor [] (write_string (replicate (MAX_COMMAND_LEN + 1) 0x61))) =
      Inl (StringTooManyChars (MAX_COMMAND_LEN + 1) MAX_COMMAND_LEN)"
    unfolding chat_command_decode_def append_Nil2 by (rule rbind_fail)
  then show ?thesis
    unfolding overlong_command_is_rejected_def decode_exact_def reader_new_cursor by (simp only: and_then_simps is_err_simps)
qed

lemma chunk_data_prefixes_coordinates_then_opaque_payload_passes: chunk_data_prefixes_coordinates_then_opaque_payload
proof -
  have "length (write_i32 v) = 4" for v by (simp add: write_i32_def)
  then show ?thesis
    using length_write_varint_5 [of play_cb_CHUNK_DATA]
    by (simp add: chunk_data_prefixes_coordinates_then_opaque_payload_def encode_packet_def chunk_data_encode_def reader_new_cursor
        codec_steps read_remaining_cursor rreturn_apply write_bytes_def)
qed

lemma player_position_helper_zeroes_velocity_and_flags_passes: player_position_helper_zeroes_velocity_and_flags
proof -
  have "length (write_f64 v) = 8" "length (write_f32 w) = 4" "length (write_i32 b) = 4" for v w b
    by (simp_all add: write_f64_def write_f32_def write_i32_def)
  then show ?thesis
    using length_write_varint_5 [of play_cb_PLAYER_POSITION] length_write_varint_5 [of 1]
    by (simp add: player_position_helper_zeroes_velocity_and_flags_def player_position_absolute_def encode_packet_def
        player_position_encode_def reader_new_cursor codec_steps rreturn_apply)
qed

end
