(* ===== verification/Spec2Isabelle.thy ===== *)
theory Spec2Isabelle
  imports Server Locks Packets_Play Column_Wire Angles Tests_Wire Tests_Storage Tests_Chunk Tests_Codec
    Tests_Packets
begin

text \<open>
  Rukkit is a Minecraft server in three crates: \<open>rukkit-protocol\<close> (the wire format, the packets and the
  stream codec), \<open>rukkit-world\<close> (packed block storage, chunks and their generation) and \<open>rukkit-server\<close>
  (connections, players, status, ticks and configuration). This development models all three from their
  sources, operation by operation, and proves what makes each part correct and what they do together.

  \<^bold>\<open>How the code is modelled.\<close> Machine integers are words of their width (\<open>usize\<close> is \<open>nat\<close>, with the limits
  of a 64-bit target written where an operation checks them), structs are records, enums are datatypes, a
  \<open>String\<close> is the list of its scalar values, bytes are \<open>u8 list\<close>. A \<open>Result\<close> is a sum whose left side is the
  error of the code; a panic is \<open>None\<close>; a loop that might not end is a \<open>partial_function\<close> whose
  value is then \<open>None\<close>, and it is proved that this does not happen. Writers are the bytes they
  append, readers are functions of a buffer and a cursor, and the handlers of a connection are actions on
  the state of its task. The socket of a connection is a script of what its client and the network do up to some moment: it may
  be of any length, and it may leave a read or a write pending, and then the task is \<open>Suspended\<close> there. Parallel tasks meet where one of them takes a lock: the
  state it finds there is whatever the others have made of it; \<open>Locks\<close> takes these accesses apart and shows that this is justified. Floating-point arithmetic is that of IEEE 754, rounded to the nearest number and
  to even.

  \<^bold>\<open>The theories\<close>, each with the file it models:
  \<^item> \<open>Prelude\<close>: words, errors (\<open>error.rs\<close>), the \<open>?\<close> operator, loops over lists, the locale \<open>keyed_store\<close> of a map;
    \<open>Floats\<close>: \<open>f32\<close>, \<open>f64\<close> and \<open>Duration\<close> of the standard library, with bounds on their rounding errors;
  \<^item> \<open>Varint\<close> (\<open>varint.rs\<close>), \<open>Utf8\<close> (the strings of the standard library), \<open>Wire\<close> (\<open>writer.rs\<close>, \<open>reader.rs\<close>, with the
    locale \<open>codec\<close> of a writer and the reader that undoes it), \<open>Positions\<close> and \<open>Angles\<close> (\<open>types.rs\<close>);
  \<^item> \<open>Nbt\<close> (\<open>nbt.rs\<close>), \<open>Text\<close> (\<open>text.rs\<close>);
  \<^item> \<open>Bit_Storage\<close> (\<open>bitstorage.rs\<close>, with the locale \<open>indexed_store\<close> of an array), \<open>Palette\<close> (\<open>palette.rs\<close>), \<open>Chunk\<close>
    (\<open>block.rs\<close>, \<open>chunk.rs\<close>, \<open>generator.rs\<close>), \<open>Promotion\<close> (which representation a container has after which writes),
    \<open>Reference\<close> (the naive scan and the block-by-block generator that the tests compare with), \<open>Column_Wire\<close> (the format of chunk sections as a client reads it);
  \<^item> \<open>Codec\<close> (\<open>codec.rs\<close>, \<open>crypt.rs\<close>): frames, compression, encryption;
  \<^item> \<open>Packet_Ids\<close> (\<open>packets/ids.rs\<close>, \<open>version.rs\<close>, the states of \<open>lib.rs\<close>), \<open>Packets\<close> (\<open>packets/mod.rs\<close>, \<open>handshake.rs\<close>,
    \<open>status.rs\<close>, \<open>login.rs\<close>), \<open>Packets_Config\<close> (\<open>packets/config.rs\<close>), \<open>Packets_Play\<close> (\<open>packets/play.rs\<close>);
  \<^item> \<open>Players\<close> (\<open>player.rs\<close>), \<open>Config\<close> (\<open>config.rs\<close>), \<open>Status_Cache\<close> (\<open>status.rs\<close> of the server and the document of
    \<open>packets/status.rs\<close>), \<open>Tick\<close> (\<open>tick.rs\<close>);
  \<^item> \<open>Connection\<close> (\<open>connection.rs\<close>), \<open>Connection_Correct\<close>, \<open>Exchange\<close> and \<open>Refusals\<close> (what one connection does),
    \<open>Interleaving\<close> and \<open>Completion\<close> (what many do together), \<open>Locks\<close> (the guards of \<open>player.rs\<close> and \<open>status.rs\<close>, step by step),
    \<open>Server\<close> (\<open>server.rs\<close>, \<open>main.rs\<close>);
  \<^item> \<open>Testing\<close> (what an assertion is), \<open>Tests_Wire\<close>, \<open>Tests_Storage\<close>, \<open>Tests_Chunk\<close>, \<open>Tests_Codec\<close>, \<open>Tests_Nbt\<close> and \<open>Tests_Packets\<close>: the unit
    tests of the first two crates, one \<open>bool\<close> each under the name of the test function, and a lemma that the model passes it.

  \<^bold>\<open>How the parts interact.\<close> \<open>Server::new\<close> validates the configuration and builds the context that all
  connections share: the registry of players and the status cache. \<open>Server::run\<close> spawns one task for each connection it
  accepts and one for the ticks, until it is interrupted. A connection reads chunks from its
  socket into the \<open>Decoder\<close>, pops packets, splits off their ids, decodes their bodies exactly, and answers
  through the \<open>Encoder\<close>; its phases are handshake, status or login, configuration. Compression is switched on in both
  directions between two packets of the login. Chunks hold sections of paletted containers over bit storages, are
  filled by a generator, and travel with their heightmaps as NBT.

  \<^bold>\<open>What is proved.\<close>
  \<^item> Storage: a write to a bit storage, a container in any of its representations, or a chunk changes that
    entry only and returns the old one, through every change of representation; reads and writes panic exactly
    out of range; the reciprocal multiplication is the division; the scan for heightmaps that skips
    sections and stops early finds the heights of a naive scan, and the generator that fills whole sections agrees with
    the one that writes every block; the width of a container depends on the number of different ids written to it alone.
  \<^item> Wire: everything written is read back (integers, strings, positions, NBT, components, packets, the sections of a chunk), with the
    interpretations of \<open>codec\<close> composed packet by packet; what decoders accept from arbitrary bytes is
    within their limits; packets that are not empty and shorter than the limit of the decoder come out of the codec as they went in, if the encoder takes
    them, under compression and encryption, however the stream is cut.
  \<^item> Server: a connection runs to the end of whatever script its socket follows, unless the socket suspends it in a read or a
    write, and nothing but the socket bounds it (there is no limit to the requests of a status client); what it does to the registry is
    an allowed session on every path, cut short where it is suspended, so that under every interleaving the registry holds exactly the sessions, stays within
    the limit, and is empty once all have ended; the guards of the two locks lose no update, are always dropped without waiting, and
    so keep no task waiting for ever; a status client never gets a document for other figures; the exchanges of a
    status ping, a refused client (another version, online mode, a full server, a taken name) and a full login
    are computed end to end, from the bytes of the client to the bytes of the server; settings that load are valid and
    always give a server; a run records every tick and reports its health, whose figures are exact or right up to a
    stated rounding error.

  \<^bold>\<open>What the code relies on\<close> is a parameter with its documented behaviour as a named hypothesis: the step of the
  cipher (\<open>cipher_pair\<close>), zlib (\<open>deflates\<close>, \<open>inflates\<close>), the growth of a \<open>Vec\<close> (\<open>reserves\<close>), MD5 (\<open>digest_size\<close>), JSON and
  UUID texts, TOML, address parsing, the iteration order of a hash map. Each hypothesis is shown to be
  satisfiable by the witness of every property that has it.

  \<^bold>\<open>Termination and fuel.\<close> Loops over input recurse on what is left of it; \<open>drain\<close>, \<open>decompress_loop\<close> and the
  reading loop have measures; the entries of an NBT compound are read with the bytes left as fuel, which is enough because
  every entry takes at least one byte; \<open>compress_loop\<close> and the two loops of a connection, which end only with their client, are \<open>partial_function\<close>s, and
  \<open>encode_outcome\<close> and \<open>connection_lasts\<close> show that they return, on every script of the socket.

  \<^bold>\<open>Not modelled.\<close> Input and output: the sockets, the listener, the timer and the signals are scripts of
  what they deliver, the select loops of tokio take them in that order, and the log and its subscriber are left out but for
  the lines of health. A connection is not cut off in the middle by the end of the process. Which of several
  waiting tasks a lock of \<open>parking_lot\<close> goes to, and its preference for writers, are left open. Memory orderings below the locks
  do not occur: the counter of rebuilds is only read. Texts of errors other than those sent to clients, the text of a number
  with two decimals (a parameter of \<open>summary\<close>), accessors that
  are a selector, \<open>with_capacity\<close> hints, benchmarks, the integration tests, the unit tests of the server and those of what is a
  parameter here (a cipher alone, zlib alone, JSON) are left out too.
\<close>

section \<open>Heightmaps on the wire\<close>

lemma div_ceil_bound:
  assumes "div_ceil 256 v = Some n"
  shows "n \<le> 256"
proof (cases "v < 2")
  case True
  with assms show ?thesis by (auto simp: div_ceil_def less_2_cases_iff split: if_splits)
next
  case False
  then have "256 div v \<le> 256 div 2" by (intro div_le_mono2) simp_all
  with assms show ?thesis by (simp add: div_ceil_def split: if_splits)
qed

lemma heightmap_data_length:
  assumes "wf_heightmaps l hm"
  shows "length (bs_data (hm_motion_blocking hm)) \<le> 256" "length (bs_data (hm_world_surface hm)) \<le> 256"
  using assms
  by (auto simp: wf_heightmaps_def wf_storage_def COLUMNS_def SECTION_SIZE_def intro: div_ceil_bound)

lemma length_map_i64: "length (concat (map write_i64 v)) = 8 * length v"
  by (induction v) (simp_all add: write_i64_def)

text \<open>
  C27: the heightmaps of a chunk survive the wire: the NBT decoder reads the compound that \<open>to_nbt\<close>
  wrote, and \<open>BitStorage::from_data\<close> rebuilds from its two long arrays exactly the storages the chunk
  had, so every recorded height is the same on both sides.
\<close>

theorem heightmaps_survive_nbt:
  assumes "wf_heightmaps l hm"
  shows "\<exists>r' c mb ws. read_network (reader_new (write_network (heightmaps_to_nbt hm))) = Inr (NCompound c, r') \<and>
    remaining r' = 0 \<and>
    compound_get c (lit ''MOTION_BLOCKING'') = Some (NLongArray mb) \<and>
    compound_get c (lit ''WORLD_SURFACE'') = Some (NLongArray ws) \<and>
    storage_from_data COLUMNS (heightmap_bits l) mb = Some (Some (hm_motion_blocking hm)) \<and>
    storage_from_data COLUMNS (heightmap_bits l) ws = Some (Some (hm_world_surface hm))"
proof -
  let ?mb = "lit ''MOTION_BLOCKING''" and ?ws = "lit ''WORLD_SURFACE''"
  let ?a = "bs_data (hm_motion_blocking hm)" and ?b = "bs_data (hm_world_surface hm)"
  let ?c = "[(?mb, NLongArray ?a), (?ws, NLongArray ?b)]"
  note len = heightmap_data_length [OF assms]
  have k: "?mb \<noteq> ?ws" by (simp add: lit_def)
  then have t: "heightmaps_to_nbt hm = NCompound ?c" by (simp add: heightmaps_to_nbt_def Let_def)
  have s: "nbt_string ?mb" "nbt_string ?ws"
    by (simp_all add: nbt_string_def lit_def is_scalar_def modified_utf8_len_def mutf8_char_len_def)
  have wf: "wf_nbt nbt_string 0 (heightmaps_to_nbt hm)"
    using k s len by (simp add: t MAX_DEPTH_def MAX_ARRAY_LEN_def)
  have f: "mutf8_fit ?mb = ?mb" "mutf8_fit ?ws = ?ws" using s by (simp_all add: nbt_string_def mutf8_fit_spec(3))
  have "length (write_modified_utf8 ?mb) = 17" "length (write_modified_utf8 ?ws) = 15"
    by (simp add: write_modified_utf8_eq f, simp add: lit_def write_u16_def length_mutf8_char mutf8_char_len_def)+
  then have "length (write_network (heightmaps_to_nbt hm)) < 2 ^ 64"
    using len by (simp add: t write_network_def length_map_i64 write_u8_def write_i32_def)
  then have "read_network (reader_new (write_network (heightmaps_to_nbt hm))) =
      Inr (NCompound ?c, cursor (write_network (heightmaps_to_nbt hm)) [])"
    using nbtc.rt_new [OF wf] t by simp
  moreover have "storage_from_data COLUMNS (heightmap_bits l) ?a = Some (Some (hm_motion_blocking hm))"
    "storage_from_data COLUMNS (heightmap_bits l) ?b = Some (Some (hm_world_surface hm))"
    using assms by (simp_all add: storage_from_data_eq wf_heightmaps_def)
  ultimately show ?thesis using k
    by (intro exI [of _ ?c] exI [of _ ?a] exI [of _ ?b] exI [of _ "cursor (write_network (heightmaps_to_nbt hm)) []"])
      (simp add: compound_get_def remaining_def cursor_def)
qed

lemma heightmaps_survive_nbt_witness:
  "\<exists>hm c mb r'. heightmaps_new OVERWORLD = Some hm \<and>
     read_network (reader_new (write_network (heightmaps_to_nbt hm))) = Inr (NCompound c, r') \<and>
     compound_get c (lit ''MOTION_BLOCKING'') = Some (NLongArray mb) \<and>
     storage_from_data COLUMNS (heightmap_bits OVERWORLD) mb = Some (Some (hm_motion_blocking hm))"
proof -
  obtain hm where "heightmaps_new OVERWORLD = Some hm" "wf_heightmaps OVERWORLD hm"
    using heightmaps_new_eq [OF overworld_wf(1)] by blast
  with heightmaps_survive_nbt [of OVERWORLD hm] show ?thesis by blast
qed

end
